(* ===== verification/Prelude.thy ===== *)
theory Prelude
  imports Complex_Main "HOL-Library.Sublist"
begin

text \<open>
  Shared vocabulary of the development: the fragment of the JavaScript standard library that
  the modelled TypeScript uses (string operations, \<open>Number\<close>, \<open>parseFloat\<close>, \<open>Math.round\<close>,
  comparisons of numbers), results of fallible code, and the list lemmas the components share.

  Strings are lists of ASCII characters. A JavaScript number is \<open>jsnum\<close>: the two
  infinities, \<open>NaN\<close>, or a finite value. A finite value is an exact rational: the rounding of
  a double is not modelled, the range check of a numeric literal is. Comparisons, which is what
  the verdicts of the program rest on, are exact on both sides.
\<close>

named_theorems js_simps \<open>equations of the JavaScript library functions, for evaluation\<close>

section \<open>Numbers\<close>

datatype jsnum = JNaN | JPosInf | JNegInf | JFin rat

fun js_lt :: "jsnum \<Rightarrow> jsnum \<Rightarrow> bool" where
  "js_lt (JFin a) (JFin b) = (a < b)"
| "js_lt JNegInf (JFin b) = True"
| "js_lt JNegInf JPosInf = True"
| "js_lt (JFin a) JPosInf = True"
| "js_lt _ _ = False"

text \<open>\<open>===\<close> on two numbers: \<open>NaN\<close> differs from itself.\<close>

fun js_eq :: "jsnum \<Rightarrow> jsnum \<Rightarrow> bool" where
  "js_eq JNaN _ = False"
| "js_eq _ JNaN = False"
| "js_eq a b = (a = b)"

definition js_le :: "jsnum \<Rightarrow> jsnum \<Rightarrow> bool" where
  "js_le a b = (js_lt a b \<or> js_eq a b)"

definition js_gt :: "jsnum \<Rightarrow> jsnum \<Rightarrow> bool" where
  "js_gt a b = js_lt b a"

definition js_ge :: "jsnum \<Rightarrow> jsnum \<Rightarrow> bool" where
  "js_ge a b = js_le b a"

fun js_isFinite :: "jsnum \<Rightarrow> bool" where
  "js_isFinite (JFin _) = True"
| "js_isFinite _ = False"

lemmas js_cmp_defs = js_le_def js_gt_def js_ge_def

lemma js_isFinite_iff: "js_isFinite x \<longleftrightarrow> (\<exists>q. x = JFin q)"
  by (cases x) auto

lemma js_cmp_fin [simp]:
  "js_le (JFin a) (JFin b) = (a \<le> b)"
  "js_gt (JFin a) (JFin b) = (b < a)"
  "js_ge (JFin a) (JFin b) = (b \<le> a)"
  by (auto simp: js_cmp_defs)

text \<open>\<open>Math.round\<close> rounds half up, also below zero.\<close>

definition js_round :: "rat \<Rightarrow> int" where
  "js_round q = \<lfloor>q + 1 / 2\<rfloor>"

lemma js_round_int [simp]: "js_round (of_int k) = k"
  by (simp add: js_round_def floor_unique)

lemma js_round_mono: "a \<le> b \<Longrightarrow> js_round a \<le> js_round b"
  by (simp add: js_round_def floor_mono)

lemma int_le_div_iff: "0 < c \<Longrightarrow> k \<le> n div c \<longleftrightarrow> k * c \<le> n" for k n c :: int
proof -
  assume c: "0 < c"
  have "k \<le> n div c \<longleftrightarrow> (of_int k :: rat) \<le> of_int n / of_int c"
    by (simp only: floor_divide_of_int_eq [symmetric, where 'a = rat] le_floor_iff)
  also have "\<dots> \<longleftrightarrow> (of_int (k * c) :: rat) \<le> of_int n"
    using c by (simp add: pos_le_divide_eq)
  finally show ?thesis by (simp only: of_int_le_iff)
qed

section \<open>Strings\<close>

definition code :: "char \<Rightarrow> nat" where
  "code c = of_char c"

definition is_digit :: "char \<Rightarrow> bool" where
  "is_digit c = (48 \<le> code c \<and> code c \<le> 57)"

definition is_upper :: "char \<Rightarrow> bool" where
  "is_upper c = (65 \<le> code c \<and> code c \<le> 90)"

definition is_space :: "char \<Rightarrow> bool" where
  "is_space c = (code c \<in> {9, 10, 11, 12, 13, 32})"

definition lower :: "char \<Rightarrow> char" where
  "lower c = (if is_upper c then char_of (code c + 32) else c)"

definition toLowerCase :: "string \<Rightarrow> string" where
  "toLowerCase s = map lower s"

definition trim_start :: "string \<Rightarrow> string" where
  "trim_start s = dropWhile is_space s"

definition js_trim :: "string \<Rightarrow> string" where
  "js_trim s = rev (trim_start (rev (trim_start s)))"

definition startsWith :: "string \<Rightarrow> string \<Rightarrow> bool" where
  "startsWith s p = (take (length p) s = p)"

definition endsWith :: "string \<Rightarrow> string \<Rightarrow> bool" where
  "endsWith s p = startsWith (rev s) (rev p)"

text \<open>\<open>s.split(d)\<close> for a one-character separator: never the empty list.\<close>

fun split_on :: "char \<Rightarrow> string \<Rightarrow> string list" where
  "split_on d [] = [[]]"
| "split_on d (c # cs) =
     (if c = d then [] # split_on d cs
      else (case split_on d cs of [] \<Rightarrow> [[c]] | w # ws \<Rightarrow> (c # w) # ws))"

fun join_with :: "string \<Rightarrow> string list \<Rightarrow> string" where
  "join_with d [] = []"
| "join_with d [w] = w"
| "join_with d (w # ws) = w @ d @ join_with d ws"

lemma split_on_ne [simp]: "split_on d s \<noteq> []"
  by (induction s) (auto split: list.splits)

lemma split_join: "join_with [d] (split_on d s) = s"
proof (induction s)
  case Nil
  then show ?case by simp
next
  case (Cons c cs)
  then show ?case
    by (cases "split_on d cs" rule: list.exhaust; cases "tl (split_on d cs)") auto
qed

lemma startsWith_iff: "startsWith s p \<longleftrightarrow> prefix p s"
  unfolding startsWith_def by (metis append_eq_conv_conj prefix_def take_is_prefix)

lemma endsWith_iff: "endsWith s p \<longleftrightarrow> suffix p s"
  by (simp add: endsWith_def startsWith_iff suffix_to_prefix)

lemma endsWith_append: "endsWith (a @ p) p"
  by (simp add: endsWith_iff suffix_def)

text \<open>Decimal rendering of a natural number, as template literals print an integer.\<close>

fun show_nat :: "nat \<Rightarrow> string" where
  "show_nat n = (if n < 10 then [char_of (48 + n)] else show_nat (n div 10) @ [char_of (48 + n mod 10)])"

declare show_nat.simps [simp del]

definition digits_val :: "string \<Rightarrow> nat" where
  "digits_val ds = foldl (\<lambda>a c. 10 * a + (code c - 48)) 0 ds"

lemma digits_val_snoc: "digits_val (ds @ [c]) = 10 * digits_val ds + (code c - 48)"
  by (simp add: digits_val_def)

lemma code_char_of: "n < 256 \<Longrightarrow> code (char_of n) = n"
  by (simp add: code_def)

lemma digits_val_show_nat: "digits_val (show_nat n) = n"
proof (induction n rule: show_nat.induct)
  case (1 n)
  show ?case
  proof (cases "n < 10")
    case True
    then show ?thesis
      by (subst show_nat.simps) (simp add: digits_val_def code_char_of)
  next
    case False
    then have "digits_val (show_nat n)
      = 10 * digits_val (show_nat (n div 10)) + (code (char_of (48 + n mod 10)) - 48)"
      by (subst show_nat.simps) (simp add: digits_val_snoc del: of_char_of)
    also have "code (char_of (48 + n mod 10)) = 48 + n mod 10"
    proof (rule code_char_of)
      have "n mod 10 < 10" by simp
      then show "48 + n mod 10 < 256" by linarith
    qed
    finally show ?thesis using "1.IH" False by simp
  qed
qed

lemma show_nat_inj: "show_nat m = show_nat n \<Longrightarrow> m = n"
  by (metis digits_val_show_nat)

lemma show_nat_digits: "\<forall>c \<in> set (show_nat n). is_digit c"
proof (induction n rule: show_nat.induct)
  case (1 n)
  have "is_digit (char_of (48 + k :: nat))" if "k < 10" for k :: nat
    using that code_char_of [of "48 + k"] by (simp add: is_digit_def)
  with 1 show ?case
    by (cases "n < 10") (subst show_nat.simps, simp)+
qed

lemma split_on_app:
  assumes "d \<notin> set xs"
  shows "split_on d (xs @ d # ys) = xs # split_on d ys"
  using assms by (induction xs) auto

lemma split_on_none:
  assumes "d \<notin> set xs"
  shows "split_on d xs = [xs]"
  using assms by (induction xs) auto

lemma digits_no_dot: "CHR ''.'' \<notin> set (show_nat n)" "CHR '':'' \<notin> set (show_nat n)"
  using show_nat_digits [of n] by (auto simp: is_digit_def code_def)

text \<open>The first and the last occurrence of a separator cut a string in one way.\<close>

lemma first_piece:
  assumes "c \<notin> set a" "c \<notin> set b" "a @ c # x = b @ c # y"
  shows "a = b \<and> x = y"
  using assms
proof (induction a arbitrary: b)
  case Nil
  then show ?case by (cases b) auto
next
  case (Cons d a)
  then show ?case by (cases b) auto
qed

lemma last_piece:
  assumes "c \<notin> set x" "c \<notin> set y" "a @ c # x = b @ c # y"
  shows "a = b \<and> x = y"
  using first_piece [of c "rev x" "rev y" "rev a" "rev b"] assms(1,2) arg_cong [OF assms(3), of rev] by simp

section \<open>String to number\<close>

fun exp10 :: "int \<Rightarrow> rat" where
  "exp10 k = (if 0 \<le> k then 10 ^ nat k else 1 / 10 ^ nat (- k))"

text \<open>
  A literal whose value rounds beyond the largest double is an infinity. The first test only
  spares the evaluation of the powers on ordinary values.
\<close>

definition to_double :: "rat \<Rightarrow> jsnum" where
  "to_double q = (if \<bar>q\<bar> \<le> 1000000000000 then JFin q
                  else if 2 ^ 1024 - 2 ^ 970 \<le> q then JPosInf
                  else if q \<le> - (2 ^ 1024 - 2 ^ 970) then JNegInf else JFin q)"

fun scan_exponent :: "string \<Rightarrow> int \<times> string" where
  "scan_exponent [] = (0, [])"
| "scan_exponent (c # r) =
     (if c \<in> {CHR ''e'', CHR ''E''} then
        (let (neg, r') = (case r of s # t \<Rightarrow> if s = CHR ''-'' then (True, t)
                                             else if s = CHR ''+'' then (False, t) else (False, r)
                           | [] \<Rightarrow> (False, []));
             ds = takeWhile is_digit r'
         in if ds = [] then (0, c # r)
            else ((if neg then - int (digits_val ds) else int (digits_val ds)), dropWhile is_digit r'))
      else (0, c # r))"

text \<open>The longest decimal literal at the start of a string and what follows it.\<close>

definition scan_unsigned :: "string \<Rightarrow> (jsnum \<times> string) option" where
  "scan_unsigned s =
     (if startsWith s ''Infinity'' then Some (JPosInf, drop 8 s)
      else
        (let ip = takeWhile is_digit s; r1 = dropWhile is_digit s;
             (fp, r2) = (case r1 of c # r \<Rightarrow> if c = CHR ''.'' then (takeWhile is_digit r, dropWhile is_digit r)
                                              else ([], r1)
                          | [] \<Rightarrow> ([], []))
         in if ip = [] \<and> fp = [] then None
            else let (e, r3) = scan_exponent r2
                 in Some (to_double (of_int (int (digits_val (ip @ fp))) * exp10 (e - int (length fp))), r3)))"

fun js_neg :: "jsnum \<Rightarrow> jsnum" where
  "js_neg JNaN = JNaN"
| "js_neg JPosInf = JNegInf"
| "js_neg JNegInf = JPosInf"
| "js_neg (JFin q) = JFin (- q)"

fun scan_decimal :: "string \<Rightarrow> (jsnum \<times> string) option" where
  "scan_decimal [] = None"
| "scan_decimal (c # r) =
     (if c = CHR ''-'' then map_option (\<lambda>(v, t). (js_neg v, t)) (scan_unsigned r)
      else if c = CHR ''+'' then scan_unsigned r
      else scan_unsigned (c # r))"

text \<open>The digits of the \<open>0x\<close>, \<open>0o\<close> and \<open>0b\<close> literals.\<close>

definition hex_digit :: "char \<Rightarrow> nat option" where
  "hex_digit c = (let n = code (lower c) in
     if 48 \<le> n \<and> n \<le> 57 then Some (n - 48) else if 97 \<le> n \<and> n \<le> 102 then Some (n - 87) else None)"

fun radix_val :: "nat \<Rightarrow> string \<Rightarrow> nat \<Rightarrow> nat option" where
  "radix_val b [] acc = Some acc"
| "radix_val b (c # cs) acc =
     (case hex_digit c of None \<Rightarrow> None
      | Some d \<Rightarrow> if d < b then radix_val b cs (b * acc + d) else None)"

definition radix_of :: "char \<Rightarrow> nat option" where
  "radix_of c = (if lower c = CHR ''x'' then Some 16 else if lower c = CHR ''o'' then Some 8
                 else if lower c = CHR ''b'' then Some 2 else None)"

definition decimal_or_nan :: "string \<Rightarrow> jsnum" where
  "decimal_or_nan t = (case scan_decimal t of Some (v, []) \<Rightarrow> v | _ \<Rightarrow> JNaN)"

text \<open>\<open>Number(s)\<close>: the whole trimmed string is a literal; the empty string is 0.\<close>

definition js_Number :: "string \<Rightarrow> jsnum" where
  "js_Number s =
     (let t = js_trim s in
      case t of [] \<Rightarrow> JFin 0
      | z # x # ds \<Rightarrow>
          (if z = CHR ''0'' then
             (case radix_of x of
                Some b \<Rightarrow> (if ds = [] then JNaN else
                             case radix_val b ds 0 of None \<Rightarrow> JNaN | Some n \<Rightarrow> to_double (of_int (int n)))
              | None \<Rightarrow> decimal_or_nan t)
           else decimal_or_nan t)
      | _ \<Rightarrow> decimal_or_nan t)"

text \<open>\<open>Number\<close> reads the decimal digits of a natural number back.\<close>

lemma digit_facts:
  assumes "is_digit c"
  shows "\<not> is_space c" "lower c = c" "radix_of c = None" "c \<noteq> CHR ''-''" "c \<noteq> CHR ''+''" "c \<noteq> CHR ''I''"
proof -
  have r: "48 \<le> code c" "code c \<le> 57" using assms by (auto simp: is_digit_def)
  show "\<not> is_space c" using r by (auto simp: is_space_def)
  show l: "lower c = c" using r by (simp add: lower_def is_upper_def)
  have "code (CHR ''x'') = 120" "code (CHR ''o'') = 111" "code (CHR ''b'') = 98"
    "code (CHR ''-'') = 45" "code (CHR ''+'') = 43" "code (CHR ''I'') = 73" by (simp_all add: code_def)
  with r l show "radix_of c = None" "c \<noteq> CHR ''-''" "c \<noteq> CHR ''+''" "c \<noteq> CHR ''I''"
    by (auto simp: radix_of_def)
qed

lemma trim_digits:
  assumes "\<forall>c \<in> set ds. is_digit c"
  shows "js_trim ds = ds"
proof -
  have d: "dropWhile is_space xs = xs" if "\<forall>c \<in> set xs. is_digit c" for xs
    using that digit_facts(1) by (cases xs) auto
  show ?thesis using assms by (simp add: js_trim_def trim_start_def d)
qed

lemma decimal_digits:
  assumes "\<forall>c \<in> set ds. is_digit c" and "ds \<noteq> []" and "digits_val ds \<le> 1000000000000"
  shows "decimal_or_nan ds = JFin (of_int (int (digits_val ds)))"
proof -
  obtain c cs where c: "ds = c # cs" using assms(2) by (cases ds) auto
  have f: "c \<noteq> CHR ''-''" "c \<noteq> CHR ''+''" "c \<noteq> CHR ''I''" using digit_facts assms(1) c by auto
  have n: "\<not> startsWith ds ''Infinity''" using f(3) by (simp add: startsWith_def c)
  have t: "takeWhile is_digit ds = ds" "dropWhile is_digit ds = []" using assms(1) by simp_all
  have "(of_int (int (digits_val ds)) :: rat) \<le> of_int 1000000000000"
    using assms(3) by (simp only: of_int_le_iff)
  then have "to_double (of_int (int (digits_val ds)) * exp10 0) = JFin (of_int (int (digits_val ds)))"
    by (simp add: to_double_def)
  then have "scan_unsigned ds = Some (JFin (of_int (int (digits_val ds))), [])"
    unfolding scan_unsigned_def t Let_def using n assms(2) by simp
  then show ?thesis using f c by (simp add: decimal_or_nan_def)
qed

lemma js_Number_digits:
  assumes "\<forall>c \<in> set ds. is_digit c" and "ds \<noteq> []" and "digits_val ds \<le> 1000000000000"
  shows "js_Number ds = JFin (of_int (int (digits_val ds)))"
proof -
  have "radix_of c = None" if "c \<in> set ds" for c using that assms(1) digit_facts(3) by blast
  then have "js_Number ds = decimal_or_nan ds"
    using assms(2) by (auto simp: js_Number_def trim_digits [OF assms(1)] Let_def split: list.splits)
  with decimal_digits [OF assms] show ?thesis by simp
qed

lemma show_nat_ne [simp]: "show_nat n \<noteq> []"
  by (subst show_nat.simps) simp

lemma js_Number_show_nat:
  "n \<le> 1000000000000 \<Longrightarrow> js_Number (show_nat n) = JFin (of_int (int n))"
  using js_Number_digits [of "show_nat n"] show_nat_digits by (simp add: digits_val_show_nat)

text \<open>\<open>parseFloat(s)\<close>: the longest literal at the start, what follows is ignored.\<close>

definition js_parseFloat :: "string \<Rightarrow> jsnum" where
  "js_parseFloat s = (case scan_decimal (trim_start s) of Some (v, _) \<Rightarrow> v | None \<Rightarrow> JNaN)"

text \<open>A value that is a number or, as node-postgres returns NUMERIC columns, a string.\<close>

datatype jsval = VNum jsnum | VStr string

fun val_Number :: "jsval \<Rightarrow> jsnum" where
  "val_Number (VNum n) = n"
| "val_Number (VStr s) = js_Number s"

text \<open>\<open>parseFloat(v.toString())\<close>: a number prints as a literal that reads back as itself.\<close>

fun val_parseFloat :: "jsval \<Rightarrow> jsnum" where
  "val_parseFloat (VNum n) = n"
| "val_parseFloat (VStr s) = js_parseFloat s"

section \<open>Lists\<close>

lemma take_Suc_drop: "take (Suc n) xs = take n xs @ take 1 (drop n xs)"
  by (metis One_nat_def add.commute plus_1_eq_Suc take_add)

lemma sum_list_filter_le:
  fixes f :: "'a \<Rightarrow> nat"
  shows "sum_list (map f (filter P xs)) \<le> sum_list (map f xs)"
  by (induction xs) auto

lemma length_filter_split:
  "length (filter P xs) + length (filter (\<lambda>x. \<not> P x) xs) = length xs"
  by (induction xs) auto

lemma filter_all_length: "length (filter P xs) = length xs \<longleftrightarrow> (\<forall>x \<in> set xs. P x)"
proof (induction xs)
  case Nil
  then show ?case by simp
next
  case (Cons x xs)
  have "length (filter P xs) \<noteq> Suc (length xs)"
    using length_filter_le [of P xs] by linarith
  with Cons show ?case by simp
qed

text \<open>Counting loops: a left fold that only adds is a sum.\<close>

lemma foldl_add_sum: "foldl (\<lambda>a x. a + f x) a xs = a + sum_list (map f xs)"
  for f :: "'a \<Rightarrow> 'b::comm_monoid_add"
  by (induction xs arbitrary: a) (simp_all add: add.assoc)

lemma foldl_invariant:
  assumes "P a" and "\<And>a x. x \<in> set xs \<Longrightarrow> P a \<Longrightarrow> P (f a x)"
  shows "P (foldl f a xs)"
  using assms by (induction xs arbitrary: a) auto

end
