(* ===== verification/TimeBuckets.thy ===== *)
theory TimeBuckets
  imports Prelude
begin

text \<open>
  Sizing decisions of the worker: the bucket size of a perf-test series
  (\<open>utils/time-bucketing.ts\<close>), the rows of a bulk insert (\<open>utils/bind-params.ts\<close>) and the
  chunks of a re-evaluation (\<open>lib/utils/chunking.ts\<close>). A \<open>Date\<close> is its epoch milliseconds.
  A thrown \<open>Error\<close> is \<open>Inl\<close> of its message.
\<close>

section \<open>Bucket sizes\<close>

definition FULL_COLLECTION_TARGET_DATA_POINTS :: rat where
  "FULL_COLLECTION_TARGET_DATA_POINTS = 250"

definition TICK_BUCKET_FALLBACK_SECONDS :: int where
  "TICK_BUCKET_FALLBACK_SECONDS = 60"

text \<open>The cascade of sensible sizes, for the ideal size in whole seconds.\<close>

definition sensibleBucket :: "int \<Rightarrow> int" where
  "sensibleBucket idealBucketSize =
     (if idealBucketSize \<le> 1 then 1
      else if idealBucketSize \<le> 5 then 5
      else if idealBucketSize \<le> 10 then 10
      else if idealBucketSize \<le> 15 then 15
      else if idealBucketSize \<le> 30 then 30
      else if idealBucketSize \<le> 60 then 60
      else \<lceil>of_int idealBucketSize / (60 :: rat)\<rceil> * 60)"

definition calculateBucketSize :: "rat \<Rightarrow> rat \<Rightarrow> string + int" where
  "calculateBucketSize testDurationSeconds targetDataPoints =
     (if testDurationSeconds \<le> 0 then Inl ''Test duration must be positive''
      else if targetDataPoints \<le> 0 then Inl ''Target data points must be positive''
      else Inr (sensibleBucket \<lceil>testDurationSeconds / targetDataPoints\<rceil>))"

record bucket_run =
  plannedDuration :: "rat option"
  startTime :: int
  endTime :: "int option"
  completed :: bool

definition perfTestBucketSizes :: "bucket_run \<Rightarrow> string + (int \<times> int option)" where
  "perfTestBucketSizes run =
     (let planned = (case plannedDuration run of Some p \<Rightarrow> p | None \<Rightarrow> 0);
          tick = (if planned > 0 then calculateBucketSize planned FULL_COLLECTION_TARGET_DATA_POINTS
                  else Inr TICK_BUCKET_FALLBACK_SECONDS);
          elapsed = (case (completed run, endTime run) of
                       (True, Some e) \<Rightarrow> of_int (e - startTime run) / 1000 | _ \<Rightarrow> (0 :: rat))
      in case tick of Inl e \<Rightarrow> Inl e
         | Inr t \<Rightarrow>
            (if elapsed > 0 then
               (case calculateBucketSize elapsed FULL_COLLECTION_TARGET_DATA_POINTS of
                  Inl e \<Rightarrow> Inl e | Inr f \<Rightarrow> Inr (t, Some f))
             else Inr (t, None)))"

text \<open>A bucket size of 0 divides by zero: the \<open>Date\<close> is then invalid (\<open>None\<close>).\<close>

definition alignToBucket :: "int \<Rightarrow> int \<Rightarrow> int \<Rightarrow> int option" where
  "alignToBucket time start bucketSizeSeconds =
     (let ms = bucketSizeSeconds * 1000
      in if ms = 0 then None
         else let offset = \<lfloor>of_int (time - start) / (of_int ms :: rat)\<rfloor> * ms
              in Some (start + max 0 offset))"

lemma sensibleBucket_ge: "i \<le> sensibleBucket i"
proof (cases "i \<le> 60")
  case True
  then show ?thesis by (simp add: sensibleBucket_def)
next
  case False
  have "of_int i / (60 :: rat) \<le> of_int \<lceil>of_int i / (60 :: rat)\<rceil>"
    by (rule le_of_int_ceiling)
  then have "(of_int i :: rat) \<le> of_int (\<lceil>of_int i / (60 :: rat)\<rceil> * 60)"
    by linarith
  then have "i \<le> \<lceil>of_int i / (60 :: rat)\<rceil> * 60" by (simp only: of_int_le_iff)
  with False show ?thesis by (simp add: sensibleBucket_def)
qed

lemma sensibleBucket_values: "sensibleBucket i \<in> {1, 5, 10, 15, 30} \<or> 60 dvd sensibleBucket i"
  by (auto simp: sensibleBucket_def)

lemma sensibleBucket_pos: "1 \<le> sensibleBucket i"
proof (cases "i \<le> 60")
  case True
  then show ?thesis by (simp add: sensibleBucket_def)
next
  case False
  with sensibleBucket_ge [of i] show ?thesis by simp
qed

lemma bucket_total:
  "0 < d \<Longrightarrow> 0 < t \<Longrightarrow> calculateBucketSize d t = Inr (sensibleBucket \<lceil>d / t\<rceil>)"
  by (simp add: calculateBucketSize_def)

text \<open>
  For a positive duration and target, \<open>calculateBucketSize\<close> returns a size, the run then has
  at most \<open>targetDataPoints\<close> buckets, and the size is one of the sensible values: 1, 5, 10, 15 or
  30 seconds, or a whole number of minutes.
\<close>

theorem calculateBucketSize_caps_points:
  assumes "0 < d" and "0 < t"
  shows "\<exists>b. calculateBucketSize d t = Inr b \<and> 1 \<le> b \<and> d / of_int b \<le> t
             \<and> (b \<in> {1, 5, 10, 15, 30} \<or> 60 dvd b)"
proof -
  let ?b = "sensibleBucket \<lceil>d / t\<rceil>"
  have pos: "(0 :: rat) < of_int ?b" using sensibleBucket_pos [of "\<lceil>d / t\<rceil>"] by simp
  have "d / t \<le> of_int \<lceil>d / t\<rceil>" by (rule le_of_int_ceiling)
  also have "\<dots> \<le> of_int ?b" using sensibleBucket_ge by (simp only: of_int_le_iff)
  finally have "d / of_int ?b \<le> t" using assms pos by (simp add: field_simps)
  then show ?thesis
    using bucket_total [OF assms] sensibleBucket_pos sensibleBucket_values by blast
qed

theorem calculateBucketSize_caps_points_witness:
  "calculateBucketSize 86400 1000 = Inr 120 \<and>
   (\<exists>b. calculateBucketSize 86400 1000 = Inr b \<and> 1 \<le> b \<and> (86400 :: rat) / of_int b \<le> 1000
        \<and> (b \<in> {1, 5, 10, 15, 30} \<or> 60 dvd b))"
proof
  have "\<lceil>432 / (5 :: rat)\<rceil> = 87" "\<lceil>29 / (20 :: rat)\<rceil> = 2"
    by (rule ceiling_unique; simp)+
  then show "calculateBucketSize 86400 1000 = Inr 120"
    by (simp add: calculateBucketSize_def sensibleBucket_def)
  show "\<exists>b. calculateBucketSize 86400 1000 = Inr b \<and> 1 \<le> b \<and> (86400 :: rat) / of_int b \<le> 1000
        \<and> (b \<in> {1, 5, 10, 15, 30} \<or> 60 dvd b)"
    by (rule calculateBucketSize_caps_points) simp_all
qed

text \<open>The documented example \<open>calculateBucketSize(14400)\<close> says 30 s; the code answers 15 s.\<close>

lemma bucket_14400: "calculateBucketSize 14400 1000 = Inr 15"
proof -
  have "\<lceil>72 / (5 :: rat)\<rceil> = 15" by (rule ceiling_unique) simp_all
  then show ?thesis by (simp add: calculateBucketSize_def sensibleBucket_def)
qed

lemma perfTestBucketSizes_eq:
  "perfTestBucketSizes run =
     Inr (case plannedDuration run of
            Some p \<Rightarrow> if 0 < p then sensibleBucket \<lceil>p / 250\<rceil> else 60 | None \<Rightarrow> 60,
          if completed run then
            (case endTime run of
               Some e \<Rightarrow> if startTime run < e
                         then Some (sensibleBucket \<lceil>(of_int (e - startTime run) / 1000) / (250 :: rat)\<rceil>) else None
             | None \<Rightarrow> None)
          else None)"
  by (auto simp: perfTestBucketSizes_def FULL_COLLECTION_TARGET_DATA_POINTS_def
      TICK_BUCKET_FALLBACK_SECONDS_def bucket_total split: option.splits)

text \<open>
  \<open>perfTestBucketSizes\<close> never throws. The tick size depends on the planned duration only, so
  every tick of a live run uses the same size; the final size exists exactly for a completed run
  with a positive length, and it is the tick size of a run planned at its actual length.
\<close>

theorem perfTestBucketSizes_stable:
  "\<exists>tick final. perfTestBucketSizes run = Inr (tick, final)
     \<and> 1 \<le> tick
     \<and> (\<forall>s e c. \<exists>f. perfTestBucketSizes (run\<lparr>startTime := s, endTime := e, completed := c\<rparr>) = Inr (tick, f))
     \<and> (final \<noteq> None \<longleftrightarrow> completed run \<and> (\<exists>e. endTime run = Some e \<and> startTime run < e))
     \<and> (\<forall>f e. final = Some f \<longrightarrow> endTime run = Some e \<longrightarrow>
          (\<exists>g. perfTestBucketSizes (run\<lparr>plannedDuration := Some (of_int (e - startTime run) / 1000)\<rparr>) = Inr (f, g)))"
  unfolding perfTestBucketSizes_eq
  by (cases "plannedDuration run"; cases "endTime run") (simp_all add: sensibleBucket_pos)

theorem perfTestBucketSizes_stable_witness:
  "\<exists>tick final. perfTestBucketSizes \<lparr>plannedDuration = Some 3600, startTime = 0, endTime = Some 60000, completed = True\<rparr> = Inr (tick, final)
     \<and> 1 \<le> tick \<and> final \<noteq> None"
  using perfTestBucketSizes_stable [of "\<lparr>plannedDuration = Some 3600, startTime = 0, endTime = Some 60000, completed = True\<rparr>"]
  by auto

text \<open>
  \<open>alignToBucket\<close> returns the greatest bucket boundary of the run at or before \<open>time\<close>: a
  multiple of the bucket size after \<open>start\<close>, not after \<open>time\<close>, less than one bucket before it.
  Aligning again changes nothing, and a time before the run is aligned to its start.
\<close>

theorem alignToBucket_boundary:
  assumes "0 < sz"
  shows "\<exists>r. alignToBucket time start sz = Some r
           \<and> (1000 * sz) dvd (r - start) \<and> start \<le> r
           \<and> (start \<le> time \<longrightarrow> r \<le> time \<and> time < r + 1000 * sz)
           \<and> (time < start \<longrightarrow> r = start)
           \<and> alignToBucket r start sz = Some r"
proof -
  define ms where "ms = sz * 1000"
  have ms: "0 < ms" using assms by (simp add: ms_def)
  have eq: "alignToBucket t start sz = Some (start + max 0 ((t - start) div ms * ms))" for t
    using ms by (simp add: alignToBucket_def Let_def ms_def [symmetric] floor_divide_of_int_eq del: of_int_diff)
  let ?r = "start + max 0 ((time - start) div ms * ms)"
  have dvd: "ms dvd (?r - start)" by (simp add: max_def)
  have early: "?r = start" if "time < start"
  proof -
    have "(time - start) div ms < 0" using that ms by (simp add: pos_imp_zdiv_neg_iff)
    then have "(time - start) div ms * ms \<le> 0" using ms by (simp add: mult_le_0_iff)
    then show ?thesis by simp
  qed
  have late: "?r \<le> time \<and> time < ?r + ms" if "start \<le> time"
  proof -
    have "0 \<le> (time - start) div ms * ms"
      using that ms by (simp add: pos_imp_zdiv_nonneg_iff)
    moreover have "time - start = (time - start) div ms * ms + (time - start) mod ms"
      by simp
    moreover have "0 \<le> (time - start) mod ms" "(time - start) mod ms < ms" using ms by simp_all
    ultimately show ?thesis by (simp only: max_absorb2) linarith
  qed
  obtain k where k: "?r - start = ms * k" using dvd by blast
  have "0 \<le> ?r - start" by simp
  then have again: "alignToBucket ?r start sz = Some ?r"
    using ms unfolding eq by (simp only: k) (simp add: k [symmetric] max_def)
  show ?thesis
    using eq [of time] dvd early late again by (auto simp: ms_def mult.commute)
qed

theorem alignToBucket_boundary_witness:
  "alignToBucket 7500 1000 5 = Some 6000 \<and>
   (\<exists>r. alignToBucket 7500 1000 5 = Some r \<and> (1000 * 5) dvd (r - 1000) \<and> 1000 \<le> r
      \<and> (1000 \<le> (7500 :: int) \<longrightarrow> r \<le> 7500 \<and> 7500 < r + 1000 * 5)
      \<and> ((7500 :: int) < 1000 \<longrightarrow> r = 1000) \<and> alignToBucket r 1000 5 = Some r)"
proof
  have "\<lfloor>6500 / (5000 :: rat)\<rfloor> = 1" by (rule floor_unique) simp_all
  then show "alignToBucket 7500 1000 5 = Some 6000" by (simp add: alignToBucket_def Let_def)
  show "\<exists>r. alignToBucket 7500 1000 5 = Some r \<and> (1000 * 5) dvd (r - 1000) \<and> 1000 \<le> r
      \<and> (1000 \<le> (7500 :: int) \<longrightarrow> r \<le> 7500 \<and> 7500 < r + 1000 * 5)
      \<and> ((7500 :: int) < 1000 \<longrightarrow> r = 1000) \<and> alignToBucket r 1000 5 = Some r"
    by (rule alignToBucket_boundary) simp
qed

section \<open>Rows per statement\<close>

definition PG_MAX_BIND_PARAMS :: int where
  "PG_MAX_BIND_PARAMS = 65535"

datatype bind_error = BadColumnCount rat | BadPreferredRows rat | TooManyColumns rat

definition js_isInteger :: "rat \<Rightarrow> bool" where
  "js_isInteger q = (of_int \<lfloor>q\<rfloor> = q)"

definition maxRowsPerStatement :: "rat \<Rightarrow> rat \<Rightarrow> bind_error + int" where
  "maxRowsPerStatement columnCount preferredRows =
     (if \<not> js_isInteger columnCount \<or> columnCount < 1 then Inl (BadColumnCount columnCount)
      else if \<not> js_isInteger preferredRows \<or> preferredRows < 1 then Inl (BadPreferredRows preferredRows)
      else let ceiling = \<lfloor>of_int PG_MAX_BIND_PARAMS / columnCount\<rfloor>
           in if ceiling < 1 then Inl (TooManyColumns columnCount)
              else Inr (min \<lfloor>preferredRows\<rfloor> ceiling))"

lemma js_isIntegerE: "js_isInteger q \<Longrightarrow> (\<And>k. q = of_int k \<Longrightarrow> P) \<Longrightarrow> P"
  unfolding js_isInteger_def by metis

lemma maxRows_of_int:
  "maxRowsPerStatement (of_int c) (of_int p) =
     (if c < 1 then Inl (BadColumnCount (of_int c))
      else if p < 1 then Inl (BadPreferredRows (of_int p))
      else if 65535 div c < 1 then Inl (TooManyColumns (of_int c))
      else Inr (min p (65535 div c)))"
  by (simp add: maxRowsPerStatement_def js_isInteger_def PG_MAX_BIND_PARAMS_def Let_def
      floor_divide_of_int_eq [of 65535 c, simplified])

text \<open>
  C31: whatever row count \<open>maxRowsPerStatement\<close> returns is at least 1, at most the preferred batch,
  and fits the 65535-parameter cap of the wire protocol; and it is the largest such count.
\<close>

theorem maxRowsPerStatement_fits:
  assumes "maxRowsPerStatement c p = Inr r"
  shows "1 \<le> r \<and> of_int r \<le> p \<and> of_int r * c \<le> 65535
         \<and> (\<forall>r'. of_int r' \<le> p \<and> of_int r' * c \<le> 65535 \<longrightarrow> r' \<le> r)"
proof -
  obtain ci pf where [simp]: "c = of_int ci" "p = of_int pf"
    using assms by (auto simp: maxRowsPerStatement_def split: if_splits elim!: js_isIntegerE)
  have r: "1 \<le> ci" "1 \<le> pf" "1 \<le> 65535 div ci" "r = min pf (65535 div ci)"
    using assms by (auto simp: maxRows_of_int split: if_splits)
  have fit: "k * ci \<le> 65535 \<longleftrightarrow> k \<le> 65535 div ci" for k
    using r(1) int_le_div_iff [of ci k 65535] by simp
  have conv: "(of_int k * of_int ci \<le> (65535 :: rat)) = (k * ci \<le> 65535)" for k
    by (metis of_int_le_iff of_int_mult of_int_numeral)
  show ?thesis using r by (auto simp: conv fit)
qed

theorem maxRowsPerStatement_fits_witness:
  "maxRowsPerStatement 19 1000 = Inr 1000 \<and> of_int 1000 * (19 :: rat) \<le> 65535"
proof -
  have e: "maxRowsPerStatement 19 1000 = Inr 1000"
    using maxRows_of_int [of 19 1000] by simp
  then show ?thesis using maxRowsPerStatement_fits [OF e] by blast
qed

section \<open>Chunks of a re-evaluation\<close>

text \<open>The default: the environment's value when it is a finite number of at least 1, else 5.\<close>

definition REEVALUATE_CHUNK_SIZE :: "string option \<Rightarrow> int" where
  "REEVALUATE_CHUNK_SIZE env =
     (case env of None \<Rightarrow> 5
      | Some s \<Rightarrow> (case js_Number s of JFin q \<Rightarrow> if 1 \<le> q then \<lfloor>q\<rfloor> else 5 | _ \<Rightarrow> 5))"

text \<open>The loop does not advance when \<open>sz\<close> is 0: \<open>None\<close> is a call that does not return.\<close>

partial_function (option) chunk_loop :: "'a list \<Rightarrow> nat \<Rightarrow> nat \<Rightarrow> 'a list list \<Rightarrow> 'a list list option" where
  "chunk_loop ids sz i chunks =
     (if i < length ids then chunk_loop ids sz (i + sz) (chunks @ [take sz (drop i ids)])
      else Some chunks)"

definition chunkTestRunIds :: "'a list \<Rightarrow> nat \<Rightarrow> 'a list list option" where
  "chunkTestRunIds ids sz = (if ids = [] then Some [] else chunk_loop ids sz 0 [])"

definition good_chunks :: "nat \<Rightarrow> 'a list list \<Rightarrow> bool" where
  "good_chunks sz cs = (\<forall>c \<in> set cs. c \<noteq> [] \<and> length c \<le> sz)"

lemma chunk_loop_correct:
  assumes "0 < sz"
  shows "\<exists>cs. chunk_loop ids sz i acc = Some (acc @ cs) \<and> concat cs = drop i ids \<and> good_chunks sz cs"
proof (induction "length ids - i" arbitrary: i acc rule: less_induct)
  case less
  show ?case
  proof (cases "i < length ids")
    case False
    then show ?thesis
      by (subst chunk_loop.simps) (auto simp: good_chunks_def)
  next
    case True
    let ?c = "take sz (drop i ids)"
    have "length ids - (i + sz) < length ids - i" using True assms by simp
    from less [OF this, of "acc @ [?c]"] obtain cs where cs:
      "chunk_loop ids sz (i + sz) (acc @ [?c]) = Some ((acc @ [?c]) @ cs)"
      "concat cs = drop (i + sz) ids" "good_chunks sz cs" by blast
    have "drop i ids = ?c @ drop (i + sz) ids"
      by (metis add.commute append_take_drop_id drop_drop)
    with cs True assms show ?thesis
      by (subst chunk_loop.simps) (auto simp: good_chunks_def intro!: exI [of _ "?c # cs"])
  qed
qed

text \<open>
  With a chunk size of at least 1 \<open>chunkTestRunIds\<close> returns, its chunks are non-empty and within
  the size, and put together they are the ids in their order, so no run is dropped or analysed
  twice.
\<close>

theorem chunkTestRunIds_partition:
  assumes "0 < sz"
  shows "\<exists>cs. chunkTestRunIds ids sz = Some cs \<and> concat cs = ids
            \<and> (\<forall>c \<in> set cs. c \<noteq> [] \<and> length c \<le> sz)"
proof (cases "ids = []")
  case True
  then show ?thesis by (simp add: chunkTestRunIds_def)
next
  case False
  then show ?thesis
    using chunk_loop_correct [OF assms, of ids 0 "[]"]
    by (auto simp: chunkTestRunIds_def good_chunks_def)
qed

theorem chunkTestRunIds_partition_witness:
  "chunkTestRunIds [1, 2, 3 :: nat] 2 = Some [[1, 2], [3]] \<and>
   (\<exists>cs. chunkTestRunIds [1, 2, 3 :: nat] 2 = Some cs \<and> concat cs = [1, 2, 3]
       \<and> (\<forall>c \<in> set cs. c \<noteq> [] \<and> length c \<le> 2))"
proof
  show "chunkTestRunIds [1, 2, 3 :: nat] 2 = Some [[1, 2], [3]]"
    by (simp add: chunkTestRunIds_def chunk_loop.simps numeral_2_eq_2)
  show "\<exists>cs. chunkTestRunIds [1, 2, 3 :: nat] 2 = Some cs \<and> concat cs = [1, 2, 3]
       \<and> (\<forall>c \<in> set cs. c \<noteq> [] \<and> length c \<le> 2)"
    by (rule chunkTestRunIds_partition) simp
qed

end
