(* ===== verification/PerfAggregations.thy ===== *)
theory PerfAggregations
  imports Prelude
begin

text \<open>
  The statistics of \<open>utils/performance-aggregations.ts\<close>: percentiles by linear interpolation,
  averages, extrema, rates and the Apdex score. A sample is a rational; \<open>null\<close> is \<open>None\<close>.
\<close>

section \<open>Percentiles and simple statistics\<close>

text \<open>An array read out of range is \<open>undefined\<close>, which arithmetic turns into \<open>NaN\<close>.\<close>

definition js_get :: "rat list \<Rightarrow> int \<Rightarrow> jsnum" where
  "js_get xs i = (if 0 \<le> i \<and> i < int (length xs) then JFin (xs ! nat i) else JNaN)"

fun js_lerp :: "jsnum \<Rightarrow> jsnum \<Rightarrow> rat \<Rightarrow> jsnum" where
  "js_lerp (JFin a) (JFin b) w = JFin (a * (1 - w) + b * w)"
| "js_lerp _ _ _ = JNaN"

text \<open>Linear interpolation at a fractional index of the sorted series.\<close>

definition percentile_at :: "rat list \<Rightarrow> rat \<Rightarrow> jsnum" where
  "percentile_at svals index =
     (if of_int \<lfloor>index\<rfloor> = index then js_get svals \<lfloor>index\<rfloor>
      else let lower = \<lfloor>index\<rfloor>; upper = \<lceil>index\<rceil>; weight = index - of_int lower
           in js_lerp (js_get svals lower) (js_get svals upper) weight)"

definition calculatePercentile :: "rat list \<Rightarrow> rat \<Rightarrow> jsnum option" where
  "calculatePercentile values percentile =
     (if values = [] then None
      else let svals = sort values
           in Some (percentile_at svals (percentile / 100 * of_int (int (length svals) - 1))))"

definition calculateMedian :: "rat list \<Rightarrow> jsnum option" where
  "calculateMedian values = calculatePercentile values 50"

definition calculateAverage :: "rat list \<Rightarrow> rat option" where
  "calculateAverage values =
     (if values = [] then None
      else Some (foldl (\<lambda>acc val. acc + val) 0 values / of_int (int (length values))))"

fun min_loop :: "rat \<Rightarrow> rat list \<Rightarrow> rat" where
  "min_loop m [] = m"
| "min_loop m (v # vs) = min_loop (if v < m then v else m) vs"

fun max_loop :: "rat \<Rightarrow> rat list \<Rightarrow> rat" where
  "max_loop m [] = m"
| "max_loop m (v # vs) = max_loop (if v > m then v else m) vs"

fun calculateMin :: "rat list \<Rightarrow> rat option" where
  "calculateMin [] = None"
| "calculateMin (v # vs) = Some (min_loop v vs)"

fun calculateMax :: "rat list \<Rightarrow> rat option" where
  "calculateMax [] = None"
| "calculateMax (v # vs) = Some (max_loop v vs)"

definition calculateSuccessRate :: "rat \<Rightarrow> rat \<Rightarrow> rat option" where
  "calculateSuccessRate successCount totalCount =
     (if totalCount = 0 then None else Some (successCount / totalCount * 100))"

definition calculateThroughput :: "rat \<Rightarrow> rat \<Rightarrow> rat option" where
  "calculateThroughput requestCount durationSeconds =
     (if durationSeconds = 0 then None else Some (requestCount / durationSeconds))"

definition calculateErrorRate :: "rat \<Rightarrow> rat \<Rightarrow> rat option" where
  "calculateErrorRate errorCount durationSeconds =
     (if durationSeconds = 0 then None else Some (errorCount / durationSeconds))"

record stats =
  avg :: "rat option"
  p50 :: "jsnum option"
  p95 :: "jsnum option"
  p99 :: "jsnum option"
  min_of :: "rat option"
  max_of :: "rat option"
  count_of :: nat

definition calculateAllStats :: "rat list \<Rightarrow> stats" where
  "calculateAllStats values =
     \<lparr>avg = calculateAverage values, p50 = calculatePercentile values 50,
      p95 = calculatePercentile values 95, p99 = calculatePercentile values 99,
      min_of = calculateMin values, max_of = calculateMax values, count_of = length values\<rparr>"

text \<open>Samples carry their time; the ramp-up cutoff keeps those at or after it.\<close>

definition excludeRampUpData :: "(int \<times> 'a) list \<Rightarrow> int \<Rightarrow> (int \<times> 'a) list" where
  "excludeRampUpData data rampUpCutoffTime = filter (\<lambda>record. fst record \<ge> rampUpCutoffTime) data"

definition calculateRampUpCutoffTime :: "int \<Rightarrow> int \<Rightarrow> int" where
  "calculateRampUpCutoffTime testStartTime rampUpTimeSeconds = testStartTime + rampUpTimeSeconds * 1000"

lemma min_loop_Min: "min_loop m vs = Min (insert m (set vs))"
proof (induction vs arbitrary: m)
  case Nil
  then show ?case by simp
next
  case (Cons v vs)
  have "Min (insert m (set (v # vs))) = Min (insert (min m v) (set vs))"
    by (cases "vs = []") (auto simp: min.assoc [symmetric])
  also have "min m v = (if v < m then v else m)" by (simp add: min_def)
  finally show ?case using Cons.IH by simp
qed

lemma max_loop_Max: "max_loop m vs = Max (insert m (set vs))"
proof (induction vs arbitrary: m)
  case Nil
  then show ?case by simp
next
  case (Cons v vs)
  have "Max (insert m (set (v # vs))) = Max (insert (max m v) (set vs))"
    by (cases "vs = []") (auto simp: max.assoc [symmetric])
  also have "max m v = (if v > m then v else m)" by (simp add: max_def)
  finally show ?case using Cons.IH by simp
qed

lemma calculateMin_Min: "vs \<noteq> [] \<Longrightarrow> calculateMin vs = Some (Min (set vs))"
  by (cases vs) (simp_all add: min_loop_Min)

lemma calculateMax_Max: "vs \<noteq> [] \<Longrightarrow> calculateMax vs = Some (Max (set vs))"
  by (cases vs) (simp_all add: max_loop_Max)

lemma average_sum: "vs \<noteq> [] \<Longrightarrow> calculateAverage vs = Some (sum_list vs / of_nat (length vs))"
  using foldl_add_sum [of "\<lambda>v. v" 0 vs] by (simp add: calculateAverage_def)

lemma sum_list_between:
  fixes vs :: "rat list"
  assumes "\<forall>v \<in> set vs. a \<le> v \<and> v \<le> b"
  shows "of_nat (length vs) * a \<le> sum_list vs \<and> sum_list vs \<le> of_nat (length vs) * b"
  using assms by (induction vs) (auto simp: algebra_simps add_mono)

lemma average_between:
  assumes "vs \<noteq> []" and "\<forall>v \<in> set vs. a \<le> v \<and> v \<le> b"
  shows "\<exists>m. calculateAverage vs = Some m \<and> a \<le> m \<and> m \<le> b"
proof -
  have n: "(0 :: rat) < of_nat (length vs)" using assms(1) by simp
  show ?thesis
    using sum_list_between [OF assms(2)] average_sum [OF assms(1)] n
    by (auto simp: pos_le_divide_eq pos_divide_le_eq mult.commute)
qed

text \<open>Interpolating in a list at a real position between two neighbours.\<close>

definition interp :: "rat list \<Rightarrow> rat \<Rightarrow> rat" where
  "interp xs i = xs ! nat \<lfloor>i\<rfloor> * (1 - (i - of_int \<lfloor>i\<rfloor>)) + xs ! nat \<lceil>i\<rceil> * (i - of_int \<lfloor>i\<rfloor>)"

lemma convex_between:
  fixes a b w lo hi :: rat
  assumes "0 \<le> w" "w \<le> 1" "lo \<le> a" "a \<le> hi" "lo \<le> b" "b \<le> hi"
  shows "lo \<le> a * (1 - w) + b * w \<and> a * (1 - w) + b * w \<le> hi"
proof -
  have "lo * (1 - w) + lo * w \<le> a * (1 - w) + b * w"
    using assms by (intro add_mono mult_right_mono) auto
  moreover have "a * (1 - w) + b * w \<le> hi * (1 - w) + hi * w"
    using assms by (intro add_mono mult_right_mono) auto
  ultimately show ?thesis by (simp add: algebra_simps)
qed

lemma index_in_range:
  fixes n :: nat and i :: rat
  assumes "0 \<le> i" and "i \<le> of_int (int n - 1)"
  shows "nat \<lfloor>i\<rfloor> < n" and "nat \<lceil>i\<rceil> < n" and "nat \<lfloor>i\<rfloor> \<le> nat \<lceil>i\<rceil>"
proof -
  have c: "\<lceil>i\<rceil> \<le> int n - 1" using assms(2) by (simp only: ceiling_le_iff)
  have "\<lfloor>i\<rfloor> \<le> \<lceil>i\<rceil>" by linarith
  then show "nat \<lfloor>i\<rfloor> \<le> nat \<lceil>i\<rceil>" by (rule nat_mono)
  have "0 \<le> \<lceil>i\<rceil>" "0 \<le> \<lfloor>i\<rfloor>" using assms(1) by simp_all
  with c \<open>\<lfloor>i\<rfloor> \<le> \<lceil>i\<rceil>\<close> show "nat \<lfloor>i\<rfloor> < n" "nat \<lceil>i\<rceil> < n" by linarith+
qed

lemma frac_range: "0 \<le> i - of_int \<lfloor>i\<rfloor>" "i - of_int \<lfloor>i\<rfloor> \<le> 1" for i :: rat
  by linarith+

lemma percentile_at_interp:
  assumes "0 \<le> i" and "i \<le> of_int (int (length xs) - 1)"
  shows "percentile_at xs i = JFin (interp xs i)"
proof -
  note r = index_in_range [OF assms]
  have "0 \<le> \<lfloor>i\<rfloor>" "0 \<le> \<lceil>i\<rceil>" using assms(1) by simp_all
  moreover have "\<lfloor>i\<rfloor> < int (length xs)" "\<lceil>i\<rceil> < int (length xs)" using r by linarith+
  ultimately show ?thesis
    by (auto simp: percentile_at_def js_get_def interp_def Let_def)
qed

lemma percentile_interp:
  assumes "vs \<noteq> []" and "0 \<le> p / 100 * of_int (int (length vs) - 1)"
    and "p / 100 * of_int (int (length vs) - 1) \<le> of_int (int (length vs) - 1)"
  shows "calculatePercentile vs p = Some (JFin (interp (sort vs) (p / 100 * of_int (int (length vs) - 1))))"
  using assms percentile_at_interp [of "p / 100 * of_int (int (length vs) - 1)" "sort vs"]
  by (simp only: calculatePercentile_def Let_def length_sort if_False)

lemma interp_ends:
  assumes "0 \<le> i" and "i \<le> of_int (int (length xs) - 1)" and "sorted xs"
  shows "xs ! nat \<lfloor>i\<rfloor> \<le> interp xs i" and "interp xs i \<le> xs ! nat \<lceil>i\<rceil>"
proof -
  note r = index_in_range [OF assms(1,2)]
  have "xs ! nat \<lfloor>i\<rfloor> \<le> xs ! nat \<lceil>i\<rceil>"
    using r assms(3) by (simp add: sorted_nth_mono)
  with frac_range [of i] show "xs ! nat \<lfloor>i\<rfloor> \<le> interp xs i" "interp xs i \<le> xs ! nat \<lceil>i\<rceil>"
    unfolding interp_def
    using convex_between [of "i - of_int \<lfloor>i\<rfloor>" "xs ! nat \<lfloor>i\<rfloor>" "xs ! nat \<lfloor>i\<rfloor>" "xs ! nat \<lceil>i\<rceil>" "xs ! nat \<lceil>i\<rceil>"]
    by simp_all
qed

lemma interp_mono:
  assumes "sorted xs" and "0 \<le> i" and "i \<le> j" and "j \<le> of_int (int (length xs) - 1)"
  shows "interp xs i \<le> interp xs j"
proof -
  have ri: "i \<le> of_int (int (length xs) - 1)" and rj: "0 \<le> j" using assms by linarith+
  note ni = index_in_range [OF assms(2) ri] and nj = index_in_range [OF rj assms(4)]
  have mono: "xs ! k \<le> xs ! l" if "k \<le> l" "l < length xs" for k l
    using that assms(1) by (simp add: sorted_nth_mono)
  show ?thesis
  proof (cases "\<lfloor>i\<rfloor> = \<lfloor>j\<rfloor>")
    case True
    define u where "u = i - of_int \<lfloor>i\<rfloor>"
    define v where "v = j - of_int \<lfloor>i\<rfloor>"
    have uv: "u \<le> v" "0 \<le> u" using assms(3) frac_range(1) [of i] by (simp_all add: u_def v_def)
    show ?thesis
    proof (cases "u = 0")
      case True
      then have "interp xs i = xs ! nat \<lfloor>j\<rfloor>"
        using \<open>\<lfloor>i\<rfloor> = \<lfloor>j\<rfloor>\<close> by (simp add: interp_def u_def)
      then show ?thesis using interp_ends(1) [OF rj assms(4,1)] by simp
    next
      case False
      then have "0 < u" using uv by simp
      then have "\<lceil>i\<rceil> = \<lfloor>i\<rfloor> + 1" "\<lceil>j\<rceil> = \<lfloor>i\<rfloor> + 1"
        using uv \<open>\<lfloor>i\<rfloor> = \<lfloor>j\<rfloor>\<close> unfolding u_def v_def by linarith+
      then have eq: "interp xs i = xs ! nat \<lfloor>i\<rfloor> + (xs ! nat (\<lfloor>i\<rfloor> + 1) - xs ! nat \<lfloor>i\<rfloor>) * u"
        "interp xs j = xs ! nat \<lfloor>i\<rfloor> + (xs ! nat (\<lfloor>i\<rfloor> + 1) - xs ! nat \<lfloor>i\<rfloor>) * v"
        unfolding interp_def u_def v_def \<open>\<lfloor>i\<rfloor> = \<lfloor>j\<rfloor>\<close> [symmetric] by (simp_all add: algebra_simps)
      have "xs ! nat \<lfloor>i\<rfloor> \<le> xs ! nat (\<lfloor>i\<rfloor> + 1)"
        using ni \<open>\<lceil>i\<rceil> = \<lfloor>i\<rfloor> + 1\<close> by (intro mono) simp_all
      then show ?thesis unfolding eq using uv by (simp add: mult_left_mono)
    qed
  next
    case False
    then have lt: "\<lfloor>i\<rfloor> < \<lfloor>j\<rfloor>" using assms(3) floor_mono [of i j] by simp
    then have "\<lceil>i\<rceil> \<le> \<lfloor>j\<rfloor>" by linarith
    then have le: "nat \<lceil>i\<rceil> \<le> nat \<lfloor>j\<rfloor>" by simp
    have "interp xs i \<le> xs ! nat \<lceil>i\<rceil>" by (rule interp_ends(2) [OF assms(2) ri assms(1)])
    also have "\<dots> \<le> xs ! nat \<lfloor>j\<rfloor>" using le nj by (intro mono) simp_all
    also have "\<dots> \<le> interp xs j" by (rule interp_ends(1) [OF rj assms(4,1)])
    finally show ?thesis .
  qed
qed

lemma percentile_index:
  assumes "vs \<noteq> []" "0 \<le> p" "p \<le> q" "q \<le> 100"
  shows "p / 100 * of_int (int (length vs) - 1) \<le> q / 100 * of_int (int (length vs) - 1)"
    and "q / 100 * of_int (int (length vs) - 1) \<le> (of_int (int (length vs) - 1) :: rat)"
    and "0 \<le> p / 100 * (of_int (int (length vs) - 1) :: rat)"
proof -
  have n: "(0 :: rat) \<le> of_int (int (length vs) - 1)" using assms(1) by (cases vs) simp_all
  show "p / 100 * of_int (int (length vs) - 1) \<le> q / 100 * of_int (int (length vs) - 1)"
    using n assms by (intro mult_right_mono) simp_all
  have "q / 100 * of_int (int (length vs) - 1) \<le> 1 * (of_int (int (length vs) - 1) :: rat)"
    using n assms by (intro mult_right_mono) simp_all
  then show "q / 100 * of_int (int (length vs) - 1) \<le> (of_int (int (length vs) - 1) :: rat)" by simp
  show "0 \<le> p / 100 * (of_int (int (length vs) - 1) :: rat)" using n assms by simp
qed

text \<open>
  On a non-empty series, a percentile between 0 and 100 is a finite number between the minimum
  and the maximum that \<open>calculateMin\<close> and \<open>calculateMax\<close> return, and a higher percentile is never
  below a lower one.
\<close>

theorem percentile_ordered:
  assumes "vs \<noteq> []" and "0 \<le> p" and "p \<le> q" and "q \<le> 100"
  shows "\<exists>lo hi a b. calculateMin vs = Some lo \<and> calculateMax vs = Some hi
           \<and> calculatePercentile vs p = Some (JFin a) \<and> calculatePercentile vs q = Some (JFin b)
           \<and> lo \<le> a \<and> a \<le> b \<and> b \<le> hi"
proof -
  let ?i = "p / 100 * of_int (int (length vs) - 1) :: rat"
  let ?j = "q / 100 * of_int (int (length vs) - 1) :: rat"
  note ix = percentile_index [OF assms]
  have ri: "?i \<le> of_int (int (length (sort vs)) - 1)" using ix by simp
  have rj: "?j \<le> of_int (int (length (sort vs)) - 1)" using ix by simp
  have j0: "0 \<le> ?j" using ix by linarith
  have mem: "sort vs ! nat \<lfloor>?i\<rfloor> \<in> set vs" "sort vs ! nat \<lceil>?j\<rceil> \<in> set vs"
    using index_in_range [OF ix(3) ri] index_in_range [OF j0 rj]
    by (metis nth_mem set_sort)+
  have "Min (set vs) \<le> sort vs ! nat \<lfloor>?i\<rfloor>" using mem by simp
  also have "\<dots> \<le> interp (sort vs) ?i" by (rule interp_ends(1) [OF ix(3) ri]) simp
  finally have lo: "Min (set vs) \<le> interp (sort vs) ?i" .
  have "interp (sort vs) ?j \<le> sort vs ! nat \<lceil>?j\<rceil>" by (rule interp_ends(2) [OF j0 rj]) simp
  also have "\<dots> \<le> Max (set vs)" using mem by simp
  finally have hi: "interp (sort vs) ?j \<le> Max (set vs)" .
  have mid: "interp (sort vs) ?i \<le> interp (sort vs) ?j"
    by (rule interp_mono [OF _ ix(3) ix(1) rj]) simp
  have "?i \<le> of_int (int (length vs) - 1)" using ix by linarith
  then have "calculatePercentile vs p = Some (JFin (interp (sort vs) ?i))"
    "calculatePercentile vs q = Some (JFin (interp (sort vs) ?j))"
    using ix j0 percentile_interp [OF assms(1)] by blast+
  with lo mid hi show ?thesis
    using calculateMin_Min [OF assms(1)] calculateMax_Max [OF assms(1)] by blast
qed

theorem percentile_ordered_witness:
  "\<exists>lo hi a b. calculateMin [3, 1, 2] = Some lo \<and> calculateMax [3, 1, 2] = Some hi
           \<and> calculatePercentile [3, 1, 2] 50 = Some (JFin a) \<and> calculatePercentile [3, 1, 2] 95 = Some (JFin b)
           \<and> lo \<le> a \<and> a \<le> b \<and> b \<le> hi"
  by (rule percentile_ordered) simp_all

section \<open>Apdex of a sample list\<close>

definition TOLERATING_MULTIPLIER :: rat where
  "TOLERATING_MULTIPLIER = 4"

definition TOLERATING_WEIGHT :: rat where
  "TOLERATING_WEIGHT = 1 / 2"

record ApdexResult =
  score :: rat
  satisfied :: nat
  tolerating :: nat
  frustrated :: nat
  total :: nat
  thresholdMs :: rat

fun apdex_loop :: "rat \<Rightarrow> rat \<Rightarrow> nat \<times> nat \<times> nat \<Rightarrow> rat list \<Rightarrow> nat \<times> nat \<times> nat" where
  "apdex_loop t t4 c [] = c"
| "apdex_loop t t4 (s, tol, f) (r # rs) =
     apdex_loop t t4 (if r \<le> t then (s + 1, tol, f)
                      else if r \<le> t4 then (s, tol + 1, f) else (s, tol, f + 1)) rs"

definition calculateApdex :: "rat list \<Rightarrow> rat \<Rightarrow> ApdexResult option" where
  "calculateApdex responseTimes T =
     (if responseTimes = [] then None
      else
        let (s, tol, f) = apdex_loop T (T * TOLERATING_MULTIPLIER) (0, 0, 0) responseTimes;
            n = length responseTimes
        in Some \<lparr>score = (of_nat s + TOLERATING_WEIGHT * of_nat tol) / of_nat n,
                satisfied = s, tolerating = tol, frustrated = f, total = n, thresholdMs = T\<rparr>)"

fun score_loop :: "rat \<Rightarrow> rat \<Rightarrow> nat \<times> nat \<Rightarrow> rat list \<Rightarrow> nat \<times> nat" where
  "score_loop t t4 c [] = c"
| "score_loop t t4 (s, tol) (r # rs) =
     score_loop t t4 (if r \<le> t then (s + 1, tol) else if r \<le> t4 then (s, tol + 1) else (s, tol)) rs"

definition calculateApdexScore :: "rat list \<Rightarrow> rat \<Rightarrow> rat \<Rightarrow> rat option" where
  "calculateApdexScore values satisfiedThreshold toleratingThreshold =
     (if values = [] then None
      else let (s, tol) = score_loop satisfiedThreshold toleratingThreshold (0, 0) values
           in Some ((of_nat s + of_nat tol / 2) / of_nat (length values)))"

lemma apdex_loop_counts:
  "apdex_loop t t4 (s, tol, f) rs =
     (s + length (filter (\<lambda>r. r \<le> t) rs),
      tol + length (filter (\<lambda>r. \<not> r \<le> t \<and> r \<le> t4) rs),
      f + length (filter (\<lambda>r. \<not> r \<le> t \<and> \<not> r \<le> t4) rs))"
  by (induction rs arbitrary: s tol f) auto

lemma score_loop_counts:
  "score_loop t t4 (s, tol) rs =
     (s + length (filter (\<lambda>r. r \<le> t) rs), tol + length (filter (\<lambda>r. \<not> r \<le> t \<and> r \<le> t4) rs))"
  by (induction rs arbitrary: s tol) auto

lemma three_way_count:
  "length (filter P rs) + length (filter (\<lambda>r. \<not> P r \<and> Q r) rs)
     + length (filter (\<lambda>r. \<not> P r \<and> \<not> Q r) rs) = length rs"
  by (induction rs) auto

lemma apdex_ratio_bounds:
  fixes s tol f n :: nat
  assumes "s + tol + f = n" and "0 < n"
  shows "0 \<le> (of_nat s + of_nat tol / 2) / (of_nat n :: rat)
       \<and> (of_nat s + of_nat tol / 2) / (of_nat n :: rat) \<le> 1
       \<and> ((of_nat s + of_nat tol / 2) / (of_nat n :: rat) = 1 \<longleftrightarrow> s = n)
       \<and> ((of_nat s + of_nat tol / 2) / (of_nat n :: rat) = 0 \<longleftrightarrow> f = n)"
proof -
  have n: "(0 :: rat) < of_nat n" using assms(2) by simp
  have e: "(of_nat n :: rat) = of_nat s + of_nat tol + of_nat f" using assms(1) by (metis of_nat_add)
  have pos: "(0 :: rat) \<le> of_nat s" "(0 :: rat) \<le> of_nat tol" "(0 :: rat) \<le> of_nat f" by simp_all
  have "of_nat s + of_nat tol / 2 \<le> (of_nat n :: rat)" unfolding e using pos by linarith
  moreover have "of_nat s + of_nat tol / 2 = (of_nat n :: rat) \<longleftrightarrow> (of_nat tol / 2 + of_nat f = (0 :: rat))"
    unfolding e by linarith
  moreover have "(of_nat tol / 2 + of_nat f = (0 :: rat)) \<longleftrightarrow> tol = 0 \<and> f = 0"
    using pos by (auto simp: add_nonneg_eq_0_iff)
  moreover have "of_nat s + of_nat tol / 2 = (0 :: rat) \<longleftrightarrow> s = 0 \<and> tol = 0"
    using pos by (auto simp: add_nonneg_eq_0_iff)
  ultimately show ?thesis using n assms by (auto simp: divide_le_eq_1 divide_eq_1_iff)
qed

text \<open>
  The Apdex of a non-empty sample splits it into satisfied, tolerating and frustrated without
  losing or counting twice, its score is between 0 and 1, it is 1 exactly when every sample is
  satisfied and 0 exactly when every sample is frustrated, and it is the score that the simplified
  \<open>calculateApdexScore\<close> computes with the tolerating threshold at four times the satisfied one.
\<close>

theorem calculateApdex_sound:
  assumes "rs \<noteq> []"
  shows "\<exists>a. calculateApdex rs T = Some a \<and> satisfied a + tolerating a + frustrated a = length rs
           \<and> 0 \<le> score a \<and> score a \<le> 1
           \<and> (score a = 1 \<longleftrightarrow> (\<forall>r \<in> set rs. r \<le> T))
           \<and> (score a = 0 \<longleftrightarrow> (\<forall>r \<in> set rs. \<not> r \<le> T \<and> \<not> r \<le> 4 * T))
           \<and> calculateApdexScore rs T (4 * T) = Some (score a)"
proof -
  let ?P = "\<lambda>r. r \<le> T" and ?Q = "\<lambda>r. r \<le> 4 * T"
  let ?s = "length (filter ?P rs)" and ?t = "length (filter (\<lambda>r. \<not> ?P r \<and> ?Q r) rs)"
  let ?f = "length (filter (\<lambda>r. \<not> ?P r \<and> \<not> ?Q r) rs)"
  have sum: "?s + ?t + ?f = length rs" by (rule three_way_count)
  have n: "0 < length rs" using assms by simp
  have eq: "calculateApdex rs T = Some \<lparr>score = (of_nat ?s + of_nat ?t / 2) / of_nat (length rs),
      satisfied = ?s, tolerating = ?t, frustrated = ?f, total = length rs, thresholdMs = T\<rparr>"
    using assms by (simp add: calculateApdex_def apdex_loop_counts TOLERATING_MULTIPLIER_def
        TOLERATING_WEIGHT_def mult.commute Let_def)
  have sc: "calculateApdexScore rs T (4 * T) = Some ((of_nat ?s + of_nat ?t / 2) / of_nat (length rs))"
    using assms by (simp add: calculateApdexScore_def score_loop_counts)
  have "?s = length rs \<longleftrightarrow> (\<forall>r \<in> set rs. ?P r)"
    "?f = length rs \<longleftrightarrow> (\<forall>r \<in> set rs. \<not> ?P r \<and> \<not> ?Q r)"
    by (rule filter_all_length)+
  with apdex_ratio_bounds [OF sum n] sum show ?thesis
    unfolding eq sc by (intro exI [of _ "\<lparr>score = (of_nat ?s + of_nat ?t / 2) / of_nat (length rs),
      satisfied = ?s, tolerating = ?t, frustrated = ?f, total = length rs, thresholdMs = T\<rparr>"])
      (simp only: ApdexResult.simps refl simp_thms)
qed

theorem calculateApdex_sound_witness:
  "\<exists>a. calculateApdex [100, 300, 500, 1000, 2500] 500 = Some a \<and> score a = 7 / 10
     \<and> satisfied a + tolerating a + frustrated a = 5"
proof -
  have "calculateApdex [100, 300, 500, 1000, 2500] 500 = Some \<lparr>score = 7 / 10, satisfied = 3, tolerating = 1,
     frustrated = 1, total = 5, thresholdMs = 500\<rparr>"
    by (simp add: calculateApdex_def TOLERATING_MULTIPLIER_def TOLERATING_WEIGHT_def)
  with calculateApdex_sound [of "[100, 300, 500, 1000, 2500]" 500] show ?thesis by simp
qed

end
