(* ===== verification/Locks.thy ===== *)
theory Locks
  imports Prelude
begin

text \<open>
  The job lock service of the worker (\<open>services/JobLockService.ts\<close>), the deployment-wide mutex of
  the heavy stages (\<open>services/HeavyStageMutex.ts\<close>) and the key and progress helpers of
  \<open>types/job-progress.types.ts\<close> they use.

  Redis is a parameter: a record of commands over an abstract server state. A command answers
  \<open>None\<close> when the client throws. What the service relies on is \<open>redis_laws\<close>: the documented
  effect of each command on the value and the remaining lifetime of a key; a command that throws
  may or may not have been carried out. Between two awaits of one operation the server may be
  changed by anyone: a \<open>gap\<close> applies an arbitrary function to the state there. A Lua script has
  no gap inside, as Redis runs it atomically. Times are milliseconds.
\<close>

section \<open>Data\<close>

datatype job_type = Analyze | Refresh | Reevaluate

datatype job_status = Waiting | Active | Completed | Failed | Stuck | Blocked

record job_progress =
  jp_jobId :: string
  jp_testRunId :: string
  jp_systemUnderTestId :: string
  jp_testEnvironment :: string
  jp_workload :: string
  jp_jobType :: job_type
  jp_stage :: string
  jp_stageName :: string
  jp_stageIndex :: int
  jp_totalStages :: int
  jp_stageProgress :: rat
  jp_overallProgress :: int
  jp_message :: string
  jp_startedAt :: int
  jp_lastProgressAt :: int
  jp_status :: job_status
  jp_currentTestRunId :: "string option"
  jp_currentTestRunIndex :: "int option"
  jp_totalTestRuns :: "int option"

record lock_metadata =
  md_jobId :: string
  md_testRunId :: string
  md_jobType :: job_type
  md_acquiredAt :: int
  md_systemUnderTestId :: string
  md_testEnvironment :: string
  md_workload :: string

record lock_info =
  li_jobId :: string
  li_testRunId :: string
  li_jobType :: job_type
  li_acquiredAt :: int
  li_expiresAt :: "int option"
  li_progress :: "job_progress option"

record blocked_info =
  bi_reason :: string
  bi_existingJobId :: string
  bi_existingJobProgress :: "job_progress option"
  bi_scopeKey :: string

datatype lock_result = LockAcquired string | LockBlocked string blocked_info

text \<open>
  A stored string: the JSON text of lock metadata or of a progress record, or any other text (an
  owner token). Reading an owner token as metadata fails; the two kinds of text are stored under
  different keys.
\<close>

datatype rvalue = RLock lock_metadata | RProgress job_progress | RText string

datatype event =
  EvBlocked blocked_info string job_type
| EvStuck job_progress int
| EvProgress job_progress
| EvCompleted string int
| EvFailed string string

definition LOCK_PREFIX :: string where "LOCK_PREFIX = ''job:lock:''"
definition PROGRESS_PREFIX :: string where "PROGRESS_PREFIX = ''job:progress:''"
definition LOCK_TTL_SECONDS :: nat where "LOCK_TTL_SECONDS = 300"

definition generateLockKey :: "string \<Rightarrow> string \<Rightarrow> string \<Rightarrow> string" where
  "generateLockKey systemUnderTestId testEnvironment workload =
     LOCK_PREFIX @ systemUnderTestId @ '':'' @ testEnvironment @ '':'' @ workload"

definition perfTestTickLockKey :: "string \<Rightarrow> string" where
  "perfTestTickLockKey testRunId = ''job:lock:perf-test-metrics:'' @ testRunId"

definition PERF_TEST_TICK_LOCK_TTL_SECONDS :: nat where
  "PERF_TEST_TICK_LOCK_TTL_SECONDS = 15 * 60"

section \<open>Redis\<close>

type_synonym ('s, 'a) io = "'s \<Rightarrow> 'a option \<times> 's"

definition ret :: "'a \<Rightarrow> ('s, 'a) io" where
  "ret a s = (Some a, s)"

definition throw :: "('s, 'a) io" where
  "throw s = (None, s)"

definition thn :: "('s, 'a) io \<Rightarrow> ('a \<Rightarrow> ('s, 'b) io) \<Rightarrow> ('s, 'b) io" where
  "thn m f s = (case m s of (None, s') \<Rightarrow> (None, s') | (Some a, s') \<Rightarrow> f a s')"

definition catching :: "('s, 'a) io \<Rightarrow> ('s, 'a) io \<Rightarrow> ('s, 'a) io" where
  "catching m h s = (case m s of (None, s') \<Rightarrow> h s' | (Some a, s') \<Rightarrow> (Some a, s'))"

definition gap :: "('s \<Rightarrow> 's) \<Rightarrow> ('s, 'a) io \<Rightarrow> ('s, 'a) io" where
  "gap e m s = m (e s)"

lemmas io_defs = ret_def throw_def thn_def catching_def gap_def

record 's redis_ops =
  r_get :: "string \<Rightarrow> ('s, rvalue option) io"
  r_set_nx :: "string \<Rightarrow> rvalue \<Rightarrow> nat \<Rightarrow> ('s, bool) io"
  r_setex :: "string \<Rightarrow> nat \<Rightarrow> rvalue \<Rightarrow> ('s, unit) io"
  r_del :: "string \<Rightarrow> ('s, nat) io"
  r_pexpire :: "string \<Rightarrow> nat \<Rightarrow> ('s, nat) io"
  r_ttl :: "string \<Rightarrow> ('s, int) io"
  r_publish :: "event \<Rightarrow> ('s, unit) io"
  r_elapse :: "nat \<Rightarrow> 's \<Rightarrow> 's"
  r_view :: "'s \<Rightarrow> string \<Rightarrow> (rvalue \<times> nat) option"

text \<open>
  \<open>r_view\<close> observes the server: the value and the remaining milliseconds of every live key.
  \<open>r_elapse d\<close> lets \<open>d\<close> milliseconds pass.
\<close>

definition get_law :: "'s redis_ops \<Rightarrow> bool" where
  "get_law R \<longleftrightarrow> (\<forall>k s r s'. r_get R k s = (r, s') \<longrightarrow>
     r_view R s' = r_view R s \<and> (\<forall>v. r = Some v \<longrightarrow> v = map_option fst (r_view R s k)))"

definition set_nx_law :: "'s redis_ops \<Rightarrow> bool" where
  "set_nx_law R \<longleftrightarrow> (\<forall>k v t s r s'. r_set_nx R k v t s = (r, s') \<longrightarrow>
     (r = Some True \<and> r_view R s k = None \<and> r_view R s' = (r_view R s)(k \<mapsto> (v, t)))
     \<or> (r = Some False \<and> r_view R s k \<noteq> None \<and> r_view R s' = r_view R s)
     \<or> (r = None \<and> (r_view R s' = r_view R s
                    \<or> r_view R s k = None \<and> r_view R s' = (r_view R s)(k \<mapsto> (v, t)))))"

definition setex_law :: "'s redis_ops \<Rightarrow> bool" where
  "setex_law R \<longleftrightarrow> (\<forall>k v t s r s'. r_setex R k t v s = (r, s') \<longrightarrow>
     r_view R s' = (r_view R s)(k \<mapsto> (v, t)) \<or> r = None \<and> r_view R s' = r_view R s)"

definition del_law :: "'s redis_ops \<Rightarrow> bool" where
  "del_law R \<longleftrightarrow> (\<forall>k s r s'. r_del R k s = (r, s') \<longrightarrow>
     (\<forall>n. r = Some n \<longrightarrow> n = (if r_view R s k = None then 0 else 1)) \<and>
     (r_view R s' = (r_view R s)(k := None) \<or> r = None \<and> r_view R s' = r_view R s))"

definition pexpire_law :: "'s redis_ops \<Rightarrow> bool" where
  "pexpire_law R \<longleftrightarrow> (\<forall>k t s r s'. r_pexpire R k t s = (r, s') \<longrightarrow>
     (\<forall>n. r = Some n \<longrightarrow> n = (if r_view R s k = None then 0 else 1)) \<and>
     (r_view R s' = (r_view R s)(k := map_option (\<lambda>x. (fst x, t)) (r_view R s k))
      \<or> r = None \<and> r_view R s' = r_view R s))"

definition ttl_law :: "'s redis_ops \<Rightarrow> bool" where
  "ttl_law R \<longleftrightarrow> (\<forall>k s r s'. r_ttl R k s = (r, s') \<longrightarrow>
     r_view R s' = r_view R s \<and>
     (\<forall>n. r = Some n \<longrightarrow>
        n = (case r_view R s k of None \<Rightarrow> - 2 | Some (_, t) \<Rightarrow> int ((t + 500) div 1000))))"

definition publish_law :: "'s redis_ops \<Rightarrow> bool" where
  "publish_law R \<longleftrightarrow> (\<forall>ev s r s'. r_publish R ev s = (r, s') \<longrightarrow> r_view R s' = r_view R s)"

definition elapse_law :: "'s redis_ops \<Rightarrow> bool" where
  "elapse_law R \<longleftrightarrow> (\<forall>d s k. r_view R (r_elapse R d s) k =
     (case r_view R s k of None \<Rightarrow> None | Some (v, t) \<Rightarrow> if d < t then Some (v, t - d) else None))"

definition redis_laws :: "'s redis_ops \<Rightarrow> bool" where
  "redis_laws R \<longleftrightarrow> get_law R \<and> set_nx_law R \<and> setex_law R \<and> del_law R \<and> pexpire_law R
     \<and> ttl_law R \<and> publish_law R \<and> elapse_law R"

text \<open>The commands answer: no connection error.\<close>

definition redis_up :: "'s redis_ops \<Rightarrow> bool" where
  "redis_up R \<longleftrightarrow>
     (\<forall>k s. fst (r_get R k s) \<noteq> None) \<and> (\<forall>k v t s. fst (r_set_nx R k v t s) \<noteq> None) \<and>
     (\<forall>k v t s. fst (r_setex R k t v s) \<noteq> None) \<and> (\<forall>k s. fst (r_del R k s) \<noteq> None) \<and>
     (\<forall>k t s. fst (r_pexpire R k t s) \<noteq> None) \<and> (\<forall>k s. fst (r_ttl R k s) \<noteq> None) \<and>
     (\<forall>ev s. fst (r_publish R ev s) \<noteq> None)"

text \<open>\<open>JSON.parse(text).jobId\<close> and \<open>cjson.decode(text).jobId\<close>; a text that is not JSON throws.\<close>

fun owner_of :: "rvalue \<Rightarrow> string option" where
  "owner_of (RLock m) = Some (md_jobId m)"
| "owner_of (RProgress p) = Some (jp_jobId p)"
| "owner_of (RText _) = None"

section \<open>The lock service\<close>

subsection \<open>Lua scripts\<close>

definition release_script :: "'s redis_ops \<Rightarrow> string \<Rightarrow> string \<Rightarrow> ('s, nat) io" where
  "release_script R lockKey jobId =
     thn (r_get R lockKey) (\<lambda>lockData.
       case lockData of None \<Rightarrow> ret 0
       | Some v \<Rightarrow>
           (case owner_of v of None \<Rightarrow> throw
            | Some j \<Rightarrow> if j = jobId then thn (r_del R lockKey) (\<lambda>_. ret 1) else ret 0))"

definition reacquire_script :: "'s redis_ops \<Rightarrow> string \<Rightarrow> lock_metadata \<Rightarrow> ('s, nat) io" where
  "reacquire_script R lockKey metadata =
     thn (r_get R lockKey) (\<lambda>lockData.
       case lockData of
         None \<Rightarrow> thn (r_setex R lockKey (LOCK_TTL_SECONDS * 1000) (RLock metadata)) (\<lambda>_. ret 2)
       | Some v \<Rightarrow>
           (case owner_of v of None \<Rightarrow> throw
            | Some j \<Rightarrow>
                if j = md_jobId metadata
                then thn (r_pexpire R lockKey (LOCK_TTL_SECONDS * 1000)) (\<lambda>_. ret 1) else ret 0))"

definition extend_script :: "'s redis_ops \<Rightarrow> string \<Rightarrow> string \<Rightarrow> ('s, nat) io" where
  "extend_script R lockKey jobId =
     thn (r_get R lockKey) (\<lambda>lockData.
       case lockData of None \<Rightarrow> ret 0
       | Some v \<Rightarrow>
           (case owner_of v of None \<Rightarrow> throw
            | Some j \<Rightarrow>
                if j = jobId then thn (r_pexpire R lockKey (LOCK_TTL_SECONDS * 1000)) (\<lambda>_. ret 1)
                else ret 0))"

subsection \<open>Operations\<close>

text \<open>
  \<open>getLockInfo\<close>: \<open>None\<close> is the null of an error, \<open>Some None\<close> is \<open>locked: false\<close>.
  A progress text that is not a progress record fails to parse, which is caught like any error.
\<close>

fun parse_metadata :: "rvalue \<Rightarrow> lock_metadata option" where
  "parse_metadata (RLock m) = Some m"
| "parse_metadata _ = None"

fun parse_progress :: "rvalue option \<Rightarrow> job_progress option option" where
  "parse_progress None = Some None"
| "parse_progress (Some (RProgress p)) = Some (Some p)"
| "parse_progress (Some _) = None"

definition getLockInfo ::
  "'s redis_ops \<Rightarrow> (nat \<Rightarrow> 's \<Rightarrow> 's) \<Rightarrow> nat \<Rightarrow> int \<Rightarrow> string \<Rightarrow> ('s, lock_info option option) io" where
  "getLockInfo R env n now lockKey =
     catching
       (thn (r_get R lockKey) (\<lambda>lockData.
          case lockData of None \<Rightarrow> ret (Some None)
          | Some v \<Rightarrow>
            (case parse_metadata v of None \<Rightarrow> throw
             | Some m \<Rightarrow>
               gap (env n) (thn (r_ttl R lockKey) (\<lambda>ttl.
               gap (env (n + 1)) (thn (r_get R (PROGRESS_PREFIX @ md_jobId m)) (\<lambda>progressData.
                 (case parse_progress progressData of None \<Rightarrow> throw
                  | Some p \<Rightarrow>
                    ret (Some (Some \<lparr>li_jobId = md_jobId m, li_testRunId = md_testRunId m,
                           li_jobType = md_jobType m, li_acquiredAt = md_acquiredAt m,
                           li_expiresAt = (if 0 < ttl then Some (now + ttl * 1000) else None),
                           li_progress = p\<rparr>)))))))))) 
       (ret None)"

fun show_job_type :: "job_type \<Rightarrow> string" where
  "show_job_type Analyze = ''analyze''"
| "show_job_type Refresh = ''refresh''"
| "show_job_type Reevaluate = ''reevaluate''"

definition buildBlockingInfo :: "lock_info \<Rightarrow> string \<Rightarrow> blocked_info" where
  "buildBlockingInfo existingLock scopeKey =
     \<lparr>bi_reason = ''Another '' @ show_job_type (li_jobType existingLock)
                   @ '' job is currently processing this scope'',
      bi_existingJobId = li_jobId existingLock,
      bi_existingJobProgress = li_progress existingLock, bi_scopeKey = scopeKey\<rparr>"

definition publishBlockedEvent ::
  "'s redis_ops \<Rightarrow> string \<Rightarrow> job_type \<Rightarrow> blocked_info \<Rightarrow> ('s, unit) io" where
  "publishBlockedEvent R testRunId jobType blockingInfo =
     catching (r_publish R (EvBlocked blockingInfo testRunId jobType)) (ret ())"

text \<open>What a caller of the service passes: the scope, the job, its run and its type.\<close>

record lock_request =
  lr_systemUnderTestId :: string
  lr_testEnvironment :: string
  lr_workload :: string
  lr_jobId :: string
  lr_testRunId :: string
  lr_jobType :: job_type

definition request_key :: "lock_request \<Rightarrow> string" where
  "request_key q = generateLockKey (lr_systemUnderTestId q) (lr_testEnvironment q) (lr_workload q)"

definition request_metadata :: "lock_request \<Rightarrow> int \<Rightarrow> lock_metadata" where
  "request_metadata q now =
     \<lparr>md_jobId = lr_jobId q, md_testRunId = lr_testRunId q, md_jobType = lr_jobType q,
      md_acquiredAt = now, md_systemUnderTestId = lr_systemUnderTestId q,
      md_testEnvironment = lr_testEnvironment q, md_workload = lr_workload q\<rparr>"

text \<open>
  \<open>acquireLock\<close> calls itself again for as long as the lock it found taken is gone (or unreadable)
  when it looks at it. The \<open>n\<close>-th await of the whole call is followed by the gap \<open>env n\<close>; the
  clock at attempt \<open>n\<close> is \<open>now n\<close>. The value \<open>None\<close> is a call that never returns, an answer
  \<open>None\<close> is an error thrown to the caller.
\<close>

partial_function (option) acquireLock ::
  "'s redis_ops \<Rightarrow> (nat \<Rightarrow> 's \<Rightarrow> 's) \<Rightarrow> (nat \<Rightarrow> int) \<Rightarrow> nat \<Rightarrow> lock_request \<Rightarrow> 's
     \<Rightarrow> (lock_result option \<times> 's) option" where
  "acquireLock R env now n q s =
     (case r_set_nx R (request_key q) (RLock (request_metadata q (now n))) (LOCK_TTL_SECONDS * 1000) s of
        (None, s1) \<Rightarrow> Some (None, s1)
      | (Some ok, s1) \<Rightarrow>
          if ok then Some (Some (LockAcquired (request_key q)), s1)
          else
            (case getLockInfo R env (n + 1) (now n) (request_key q) (env n s1) of
               (Some (Some (Some info)), s2) \<Rightarrow>
                  (case publishBlockedEvent R (lr_testRunId q) (lr_jobType q)
                          (buildBlockingInfo info (request_key q)) (env (n + 3) s2) of
                     (None, s3) \<Rightarrow> Some (None, s3)
                   | (Some _, s3) \<Rightarrow>
                       Some (Some (LockBlocked (request_key q)
                                    (buildBlockingInfo info (request_key q))), s3))
             | (_, s2) \<Rightarrow> acquireLock R env now (n + 4) q (env (n + 3) s2)))"

definition releaseLock :: "'s redis_ops \<Rightarrow> ('s \<Rightarrow> 's) \<Rightarrow> string \<Rightarrow> string \<Rightarrow> ('s, bool) io" where
  "releaseLock R e lockKey jobId =
     catching
       (thn (r_get R lockKey) (\<lambda>lockData.
          case lockData of None \<Rightarrow> ret False
          | Some v \<Rightarrow>
              (case owner_of v of None \<Rightarrow> throw
               | Some j \<Rightarrow>
                   if j \<noteq> jobId then ret False
                   else gap e (thn (release_script R lockKey jobId) (\<lambda>result. ret (result = 1))))))
       (ret False)"

datatype beat = Extended | Reacquired | Lost

definition extendLockOrReacquire :: "'s redis_ops \<Rightarrow> lock_request \<Rightarrow> int \<Rightarrow> ('s, beat) io" where
  "extendLockOrReacquire R q now =
     thn (reacquire_script R (request_key q) (request_metadata q now)) (\<lambda>result.
       ret (if result = 1 then Extended else if result = 2 then Reacquired else Lost))"

text \<open>
  One firing of the timer of \<open>startLockRenewal\<close>: the flag \<open>surrendered\<close> is the closure's state;
  an error is logged and changes nothing.
\<close>

definition renew_interval_ms :: nat where
  "renew_interval_ms = (LOCK_TTL_SECONDS * 1000) div 3"

definition renew :: "'s redis_ops \<Rightarrow> lock_request \<Rightarrow> int \<Rightarrow> bool \<Rightarrow> 's \<Rightarrow> bool \<times> 's" where
  "renew R q now surrendered s =
     (if surrendered then (True, s)
      else case extendLockOrReacquire R q now s of
             (None, s') \<Rightarrow> (False, s')
           | (Some Lost, s') \<Rightarrow> (True, s')
           | (Some _, s') \<Rightarrow> (False, s'))"

definition extendLock :: "'s redis_ops \<Rightarrow> string \<Rightarrow> string \<Rightarrow> ('s, bool) io" where
  "extendLock R lockKey jobId =
     catching (thn (extend_script R lockKey jobId) (\<lambda>result. ret (result = 1))) (ret False)"

definition acquireKeyLock :: "'s redis_ops \<Rightarrow> string \<Rightarrow> string \<Rightarrow> nat \<Rightarrow> ('s, bool) io" where
  "acquireKeyLock R lockKey ownerToken ttlSeconds =
     r_set_nx R lockKey (RText ownerToken) (ttlSeconds * 1000)"

definition releaseKeyLock :: "'s redis_ops \<Rightarrow> ('s \<Rightarrow> 's) \<Rightarrow> string \<Rightarrow> string \<Rightarrow> ('s, bool) io" where
  "releaseKeyLock R e lockKey ownerToken =
     catching
       (thn (r_get R lockKey) (\<lambda>current.
          if current \<noteq> Some (RText ownerToken) then ret False
          else gap e (thn (r_del R lockKey) (\<lambda>deleted. ret (deleted = 1)))))
       (ret False)"

definition forceReleaseLock :: "'s redis_ops \<Rightarrow> string \<Rightarrow> ('s, bool) io" where
  "forceReleaseLock R lockKey =
     catching (thn (r_del R lockKey) (\<lambda>result. ret (0 < result))) (ret False)"


section \<open>Leases\<close>

text \<open>
  What the two locks have in common, as an interface. A lease is a server-side entry with an
  owner and a remaining lifetime. Whoever it is, a caller can take it when it is free, renew it or
  give it up when it is the owner's, and nothing else; it expires when its lifetime is over. An
  owner \<open>None\<close> is an entry no caller can own.
\<close>

record ('s, 'o) lease_ops =
  lo_acquire :: "'o \<Rightarrow> 's \<Rightarrow> 's"
  lo_renew :: "'o \<Rightarrow> 's \<Rightarrow> 's"
  lo_release :: "'o \<Rightarrow> 's \<Rightarrow> 's"
  lo_elapse :: "nat \<Rightarrow> 's \<Rightarrow> 's"

datatype 'o lease_act = LAcquire 'o | LRenew 'o | LRelease 'o | LElapse nat

fun lease_step :: "('s, 'o) lease_ops \<Rightarrow> 'o lease_act \<Rightarrow> 's \<Rightarrow> 's" where
  "lease_step L (LAcquire p) s = lo_acquire L p s"
| "lease_step L (LRenew p) s = lo_renew L p s"
| "lease_step L (LRelease p) s = lo_release L p s"
| "lease_step L (LElapse d) s = lo_elapse L d s"

text \<open>An interleaving of the callers' atomic requests with the passing of time.\<close>

fun lease_run :: "('s, 'o) lease_ops \<Rightarrow> 'o lease_act list \<Rightarrow> 's \<Rightarrow> 's" where
  "lease_run L [] s = s"
| "lease_run L (a # as) s = lease_run L as (lease_step L a s)"

fun act_time :: "'o lease_act \<Rightarrow> nat" where
  "act_time (LElapse d) = d"
| "act_time _ = 0"

fun acts_time :: "'o lease_act list \<Rightarrow> nat" where
  "acts_time [] = 0"
| "acts_time (a # as) = act_time a + acts_time as"

fun act_by :: "'o lease_act \<Rightarrow> 'o option" where
  "act_by (LAcquire p) = Some p"
| "act_by (LRenew p) = Some p"
| "act_by (LRelease p) = Some p"
| "act_by (LElapse _) = None"

text \<open>No act of the sequence is a request of the owner \<open>w\<close>.\<close>

definition foreign_acts :: "('o \<Rightarrow> 'p) \<Rightarrow> 'p \<Rightarrow> 'o lease_act list \<Rightarrow> bool" where
  "foreign_acts who w as \<longleftrightarrow> (\<forall>a \<in> set as. map_option who (act_by a) \<noteq> Some w)"

locale lease =
  fixes L :: "('s, 'o) lease_ops" and who :: "'o \<Rightarrow> 'p"
    and held :: "'s \<Rightarrow> ('p option \<times> nat) option" and T :: nat
  assumes acquire_law:
      "held (lo_acquire L p s) = held s
       \<or> held s = None \<and> held (lo_acquire L p s) = Some (Some (who p), T)"
    and renew_law:
      "held (lo_renew L p s) = held s
       \<or> (held s = None \<or> (\<exists>t. held s = Some (Some (who p), t)))
          \<and> held (lo_renew L p s) = Some (Some (who p), T)"
    and release_law:
      "held (lo_release L p s) = held s
       \<or> (\<exists>t. held s = Some (Some (who p), t)) \<and> held (lo_release L p s) = None"
    and time_law:
      "held (lo_elapse L d s) =
         (case held s of None \<Rightarrow> None | Some (w, t) \<Rightarrow> if d < t then Some (w, t - d) else None)"
begin

lemma foreign_step:
  assumes "held s = Some (Some w, t)" and "map_option who (act_by a) \<noteq> Some w" and "act_time a < t"
  shows "held (lease_step L a s) = Some (Some w, t - act_time a)"
proof (cases a)
  case (LAcquire q)
  then show ?thesis using assms acquire_law [of q s] by auto
next
  case (LRenew q)
  then show ?thesis using assms renew_law [of q s] by auto
next
  case (LRelease q)
  then show ?thesis using assms release_law [of q s] by auto
next
  case (LElapse d)
  then show ?thesis using assms time_law [of d s] by simp
qed

text \<open>The owner keeps the lease through any interleaving of others' requests, while it is alive.\<close>

lemma foreign_run:
  assumes "held s = Some (Some w, t)" and "foreign_acts who w as" and "acts_time as < t"
  shows "held (lease_run L as s) = Some (Some w, t - acts_time as)"
  using assms
proof (induction as arbitrary: s t)
  case Nil
  then show ?case by simp
next
  case (Cons a as)
  have f: "map_option who (act_by a) \<noteq> Some w" "foreign_acts who w as"
    using Cons.prems(2) by (auto simp: foreign_acts_def)
  have "held (lease_step L a s) = Some (Some w, t - act_time a)"
    using Cons.prems f(1) by (intro foreign_step) auto
  moreover have "acts_time as < t - act_time a" using Cons.prems(3) by simp
  ultimately have "held (lease_run L as (lease_step L a s)) = Some (Some w, t - act_time a - acts_time as)"
    using f(2) by (intro Cons.IH)
  then show ?case by simp
qed

text \<open>Whoever else owns the lease afterwards took it after the first lease had run out.\<close>

lemma succeeded_only_after_expiry:
  assumes "held s = Some (Some w, t)" and "foreign_acts who w as"
    and "held (lease_run L as s) = Some (Some w', u)" and "w' \<noteq> w"
  shows "t \<le> acts_time as"
proof (rule ccontr)
  assume "\<not> t \<le> acts_time as"
  then have "held (lease_run L as s) = Some (Some w, t - acts_time as)"
    using assms by (intro foreign_run) auto
  with assms(3,4) show False by simp
qed

text \<open>Left alone, a lease lasts exactly its lifetime.\<close>

lemma expires:
  assumes "held s = Some (w, t)" and "t \<le> d"
  shows "held (lease_run L [LElapse d] s) = None"
  using assms time_law [of d s] by simp

end

section \<open>Consequences of the laws\<close>

locale redis =
  fixes R :: "'s redis_ops"
  assumes laws: "redis_laws R"
begin

lemma get_view:
  assumes "r_get R k s = (r, s')"
  shows "r_view R s' = r_view R s" and "r = Some v \<Longrightarrow> v = map_option fst (r_view R s k)"
  using laws assms unfolding redis_laws_def get_law_def by (blast, blast)

lemma get_hit:
  assumes "r_get R k s = (Some (Some v), s')"
  shows "\<exists>t. r_view R s k = Some (v, t)"
proof -
  have "Some v = map_option fst (r_view R s k)" using get_view(2) [OF assms refl] .
  then show ?thesis by (cases "r_view R s k") auto
qed

lemma get_miss: "r_get R k s = (Some None, s') \<Longrightarrow> r_view R s k = None"
  using get_view(2) [of k s "Some None"] by (cases "r_view R s k") auto

lemma set_nx_view:
  assumes "r_set_nx R k v t s = (r, s')"
  shows "(r = Some True \<and> r_view R s k = None \<and> r_view R s' = (r_view R s)(k \<mapsto> (v, t)))
     \<or> (r = Some False \<and> r_view R s k \<noteq> None \<and> r_view R s' = r_view R s)
     \<or> (r = None \<and> (r_view R s' = r_view R s
                    \<or> r_view R s k = None \<and> r_view R s' = (r_view R s)(k \<mapsto> (v, t))))"
proof -
  have "set_nx_law R" using laws by (simp add: redis_laws_def)
  with assms show ?thesis unfolding set_nx_law_def by blast
qed

lemma setex_view:
  "r_setex R k t v s = (r, s') \<Longrightarrow>
     r_view R s' = (r_view R s)(k \<mapsto> (v, t)) \<or> r = None \<and> r_view R s' = r_view R s"
  using laws unfolding redis_laws_def setex_law_def by blast

lemma del_view:
  assumes "r_del R k s = (r, s')"
  shows "r_view R s' = (r_view R s)(k := None) \<or> r = None \<and> r_view R s' = r_view R s"
    and "r = Some n \<Longrightarrow> n = (if r_view R s k = None then 0 else 1)"
  using laws assms unfolding redis_laws_def del_law_def by (blast, blast)

lemma pexpire_view:
  assumes "r_pexpire R k t s = (r, s')"
  shows "r_view R s' = (r_view R s)(k := map_option (\<lambda>x. (fst x, t)) (r_view R s k))
         \<or> r = None \<and> r_view R s' = r_view R s"
    and "r = Some n \<Longrightarrow> n = (if r_view R s k = None then 0 else 1)"
  using laws assms unfolding redis_laws_def pexpire_law_def by (blast, blast)

lemma ttl_view:
  assumes "r_ttl R k s = (r, s')"
  shows "r_view R s' = r_view R s"
    and "r = Some n \<Longrightarrow>
      n = (case r_view R s k of None \<Rightarrow> - 2 | Some (_, t) \<Rightarrow> int ((t + 500) div 1000))"
  using laws assms unfolding redis_laws_def ttl_law_def by (blast, blast)

lemma publish_view: "r_publish R ev s = (r, s') \<Longrightarrow> r_view R s' = r_view R s"
  using laws unfolding redis_laws_def publish_law_def by blast

lemma elapse_view:
  "r_view R (r_elapse R d s) k =
     (case r_view R s k of None \<Rightarrow> None | Some (v, t) \<Rightarrow> if d < t then Some (v, t - d) else None)"
  using laws unfolding redis_laws_def elapse_law_def by blast

text \<open>
  A script reads the key, then acts on it only when the value it read is the caller's: its
  outcome as one case distinction.
\<close>

lemma release_script_cases:
  assumes "release_script R k j s = (r, s')"
  obtains (kept) "r_view R s' = r_view R s" "r \<noteq> Some 1"
  | (removed) v t where "r_view R s k = Some (v, t)" "owner_of v = Some j"
      "r_view R s' = (r_view R s)(k := None)"
proof -
  obtain g s1 where g: "r_get R k s = (g, s1)" by fastforce
  have v1: "r_view R s1 = r_view R s" using get_view(1) [OF g] .
  obtain d s2 where d: "r_del R k s1 = (d, s2)" by fastforce
  note dv = del_view(1) [OF d]
  show thesis
  proof (cases "\<exists>v. g = Some (Some v) \<and> owner_of v = Some j")
    case True
    then obtain v where v: "g = Some (Some v)" "owner_of v = Some j" by blast
    obtain t where t: "r_view R s k = Some (v, t)" using get_hit g v(1) by blast
    have "s' = s2" "d = None \<Longrightarrow> r \<noteq> Some 1"
      using assms g d v by (auto simp: release_script_def io_defs split: option.splits)
    with dv v1 t v(2) kept removed show ?thesis by metis
  next
    case False
    then have "s' = s1 \<and> r \<noteq> Some 1"
      using assms g by (auto simp: release_script_def io_defs split: option.splits if_splits)
    with v1 kept show ?thesis by simp
  qed
qed

lemma reacquire_script_cases:
  assumes "reacquire_script R k m s = (r, s')"
  obtains (kept) "r_view R s' = r_view R s" "r \<noteq> Some 1" "r \<noteq> Some 2"
  | (taken) "r_view R s k = None" "r_view R s' = (r_view R s)(k \<mapsto> (RLock m, LOCK_TTL_SECONDS * 1000))"
      "r = Some 2 \<or> r = None"
  | (extended) v t where "r_view R s k = Some (v, t)" "owner_of v = Some (md_jobId m)"
      "r_view R s' = (r_view R s)(k \<mapsto> (v, LOCK_TTL_SECONDS * 1000))" "r = Some 1 \<or> r = None"
proof -
  obtain g s1 where g: "r_get R k s = (g, s1)" by fastforce
  have v1: "r_view R s1 = r_view R s" using get_view(1) [OF g] .
  consider (absent) "g = Some None" | (own) v where "g = Some (Some v)" "owner_of v = Some (md_jobId m)"
    | (other) "g = None \<or> (\<exists>v. g = Some (Some v) \<and> owner_of v \<noteq> Some (md_jobId m))"
    by (metis not_None_eq)
  then show thesis
  proof cases
    case absent
    obtain d s2 where d: "r_setex R k (LOCK_TTL_SECONDS * 1000) (RLock m) s1 = (d, s2)" by fastforce
    have n: "r_view R s k = None" using get_miss g absent by blast
    have "s' = s2 \<and> r = (if d = None then None else Some 2)"
      using assms g d absent by (auto simp: reacquire_script_def io_defs split: option.splits)
    with setex_view [OF d] v1 n kept taken show ?thesis by (auto split: if_splits)
  next
    case own
    obtain t where t: "r_view R s k = Some (v, t)" using get_hit g own(1) by blast
    obtain d s2 where d: "r_pexpire R k (LOCK_TTL_SECONDS * 1000) s1 = (d, s2)" by fastforce
    have "s' = s2 \<and> r = (if d = None then None else Some 1)"
      using assms g d own by (auto simp: reacquire_script_def io_defs split: option.splits)
    with pexpire_view(1) [OF d] v1 t own(2) kept extended show ?thesis by (auto split: if_splits)
  next
    case other
    then have "s' = s1 \<and> r \<noteq> Some 1 \<and> r \<noteq> Some 2"
      using assms g by (auto simp: reacquire_script_def io_defs split: option.splits if_splits)
    with v1 kept show ?thesis by simp
  qed
qed

end

section \<open>The job lock is a lease\<close>

definition lock_held :: "'s redis_ops \<Rightarrow> string \<Rightarrow> 's \<Rightarrow> (string option \<times> nat) option" where
  "lock_held R k s = map_option (\<lambda>(v, t). (owner_of v, t)) (r_view R s k)"

text \<open>
  The atomic requests that the operations of the service send for one key: the \<open>SET NX\<close> of
  \<open>acquireLock\<close>, the heartbeat's script, and the script of \<open>releaseLock\<close>. A request names the
  job that sends it and when.
\<close>

definition job_lease :: "'s redis_ops \<Rightarrow> string \<Rightarrow> ('s, lock_request \<times> int) lease_ops" where
  "job_lease R k =
     \<lparr>lo_acquire = (\<lambda>(q, now) s.
        snd (r_set_nx R k (RLock (request_metadata q now)) (LOCK_TTL_SECONDS * 1000) s)),
      lo_renew = (\<lambda>(q, now) s. snd (reacquire_script R k (request_metadata q now) s)),
      lo_release = (\<lambda>(q, now) s. snd (release_script R k (lr_jobId q) s)),
      lo_elapse = r_elapse R\<rparr>"

definition requester :: "lock_request \<times> int \<Rightarrow> string" where
  "requester p = lr_jobId (fst p)"

lemma request_metadata_jobId [simp]: "md_jobId (request_metadata q now) = lr_jobId q"
  by (simp add: request_metadata_def)

lemma lock_held_eq: "r_view R s' k = r_view R s k \<Longrightarrow> lock_held R k s' = lock_held R k s"
  by (simp add: lock_held_def)

sublocale redis < job: lease "job_lease R k" requester "lock_held R k" "LOCK_TTL_SECONDS * 1000"
proof (unfold_locales, goal_cases)
  case (1 p s)
  obtain q now where p: "p = (q, now)" by fastforce
  obtain r s' where c: "r_set_nx R k (RLock (request_metadata q now)) (LOCK_TTL_SECONDS * 1000) s = (r, s')"
    by fastforce
  from set_nx_view [OF c] c show ?case
    by (auto simp: job_lease_def p requester_def lock_held_def)
next
  case (2 p s)
  obtain q now where p: "p = (q, now)" by fastforce
  obtain r s' where c: "reacquire_script R k (request_metadata q now) s = (r, s')" by fastforce
  from c show ?case
    by (cases rule: reacquire_script_cases) (auto simp: job_lease_def p requester_def lock_held_def c)
next
  case (3 p s)
  obtain q now where p: "p = (q, now)" by fastforce
  obtain r s' where c: "release_script R k (lr_jobId q) s = (r, s')" by fastforce
  from c show ?case
    by (cases rule: release_script_cases) (auto simp: job_lease_def p requester_def lock_held_def c)
next
  case (4 d s)
  show ?case
    by (auto simp: job_lease_def lock_held_def elapse_view split: option.splits)
qed

section \<open>The mutex of the heavy stages\<close>

definition HEAVY_STAGE_LOCK_KEY :: string where "HEAVY_STAGE_LOCK_KEY = ''job:heavy-stage-lock''"
definition HEAVY_LOCK_TTL_MS :: nat where "HEAVY_LOCK_TTL_MS = 5 * 60000"
definition HEAVY_STAGE_MAX_WAIT_MS :: int where "HEAVY_STAGE_MAX_WAIT_MS = 60 * 60000"
definition DEFAULT_POLL_MS :: int where "DEFAULT_POLL_MS = 5000"

definition PEXPIRE_IF_HOLDER :: "'s redis_ops \<Rightarrow> string \<Rightarrow> string \<Rightarrow> nat \<Rightarrow> ('s, nat) io" where
  "PEXPIRE_IF_HOLDER R k token ttl =
     thn (r_get R k) (\<lambda>v. if v = Some (RText token) then r_pexpire R k ttl else ret 0)"

definition DEL_IF_HOLDER :: "'s redis_ops \<Rightarrow> string \<Rightarrow> string \<Rightarrow> ('s, nat) io" where
  "DEL_IF_HOLDER R k token =
     thn (r_get R k) (\<lambda>v. if v = Some (RText token) then r_del R k else ret 0)"

definition mutex_token :: "string \<Rightarrow> string \<Rightarrow> string" where
  "mutex_token holder uuid = holder @ ''|'' @ uuid"

text \<open>The key of the mutex only ever holds tokens.\<close>

fun token_text :: "rvalue option \<Rightarrow> string" where
  "token_text (Some (RText t)) = t"
| "token_text _ = []"

definition currentHolder :: "'s redis_ops \<Rightarrow> ('s, string) io" where
  "currentHolder R =
     thn (r_get R HEAVY_STAGE_LOCK_KEY) (\<lambda>value.
       ret (let h = hd (split_on CHR ''|'' (token_text value)) in if h = [] then ''unknown'' else h))"

datatype mutex_outcome = MutexAcquired int | MutexNotAcquired int string | MutexThrew

text \<open>
  The polling loop: \<open>now n\<close> is the clock at poll \<open>n\<close>, \<open>env n\<close> what others do to the server
  before await \<open>n\<close>, the delay between polls included. The caller's \<open>onWaiting\<close> may throw.
\<close>

partial_function (option) mutex_poll ::
  "'s redis_ops \<Rightarrow> (nat \<Rightarrow> 's \<Rightarrow> 's) \<Rightarrow> (nat \<Rightarrow> int) \<Rightarrow> (string \<Rightarrow> ('s, unit) io) option \<Rightarrow> string
     \<Rightarrow> int \<Rightarrow> int \<Rightarrow> nat \<Rightarrow> 's \<Rightarrow> (mutex_outcome \<times> 's) option" where
  "mutex_poll R env now onWaiting token maxWaitMs startedAt n s =
     (case r_set_nx R HEAVY_STAGE_LOCK_KEY (RText token) HEAVY_LOCK_TTL_MS s of
        (None, s1) \<Rightarrow> Some (MutexThrew, s1)
      | (Some ok, s1) \<Rightarrow>
          if ok then Some (MutexAcquired (now n - startedAt), s1)
          else if maxWaitMs < now n - startedAt then
            (case currentHolder R (env (4 * n) s1) of
               (None, s2) \<Rightarrow> Some (MutexThrew, s2)
             | (Some h, s2) \<Rightarrow>
                 Some (MutexNotAcquired (js_round (of_int (now n - startedAt) / 1000)) h, s2))
          else
            (case (case onWaiting of
                     None \<Rightarrow> (Some (), s1)
                   | Some f \<Rightarrow> thn (gap (env (4 * n)) (currentHolder R))
                                (\<lambda>h. gap (env (4 * n + 1)) (f h)) s1) of
               (None, s2) \<Rightarrow> Some (MutexThrew, s2)
             | (Some _, s2) \<Rightarrow>
                 mutex_poll R env now onWaiting token maxWaitMs startedAt (n + 1) (env (4 * n + 2) s2)))"

definition mutex_acquire ::
  "'s redis_ops \<Rightarrow> (nat \<Rightarrow> 's \<Rightarrow> 's) \<Rightarrow> (nat \<Rightarrow> int) \<Rightarrow> (string \<Rightarrow> ('s, unit) io) option \<Rightarrow> string
     \<Rightarrow> string \<Rightarrow> int option \<Rightarrow> int \<Rightarrow> 's \<Rightarrow> (mutex_outcome \<times> 's) option" where
  "mutex_acquire R env now onWaiting holder uuid maxWaitMs startedAt s =
     mutex_poll R env now onWaiting (mutex_token holder uuid)
       (case maxWaitMs of None \<Rightarrow> HEAVY_STAGE_MAX_WAIT_MS | Some m \<Rightarrow> m) startedAt 0 s"

text \<open>The heartbeat's beat (its error is logged) and the release function.\<close>

definition mutex_heartbeat :: "'s redis_ops \<Rightarrow> string \<Rightarrow> 's \<Rightarrow> 's" where
  "mutex_heartbeat R token s = snd (PEXPIRE_IF_HOLDER R HEAVY_STAGE_LOCK_KEY token HEAVY_LOCK_TTL_MS s)"

definition mutex_release :: "'s redis_ops \<Rightarrow> string \<Rightarrow> 's \<Rightarrow> 's" where
  "mutex_release R token s = snd (DEL_IF_HOLDER R HEAVY_STAGE_LOCK_KEY token s)"

fun token_of :: "rvalue \<Rightarrow> string option" where
  "token_of (RText t) = Some t"
| "token_of _ = None"

lemma token_of_iff [simp]: "token_of v = Some t \<longleftrightarrow> v = RText t"
  by (cases v) auto

definition mutex_held :: "'s redis_ops \<Rightarrow> 's \<Rightarrow> (string option \<times> nat) option" where
  "mutex_held R s = map_option (\<lambda>(v, t). (token_of v, t)) (r_view R s HEAVY_STAGE_LOCK_KEY)"

text \<open>The requests that acquisitions, heartbeats and releases send, by token.\<close>

definition mutex_lease :: "'s redis_ops \<Rightarrow> ('s, string) lease_ops" where
  "mutex_lease R =
     \<lparr>lo_acquire = (\<lambda>token s. snd (r_set_nx R HEAVY_STAGE_LOCK_KEY (RText token) HEAVY_LOCK_TTL_MS s)),
      lo_renew = mutex_heartbeat R, lo_release = mutex_release R, lo_elapse = r_elapse R\<rparr>"

context redis
begin

lemma guarded_view:
  assumes "thn (r_get R k) (\<lambda>v. if v = Some (RText token) then m else ret 0) s = (r, s')"
  obtains (kept) "r_view R s' = r_view R s"
  | (own) t s1 where "r_view R s k = Some (RText token, t)" "r_view R s1 = r_view R s" "m s1 = (r, s')"
proof -
  obtain g s1 where g: "r_get R k s = (g, s1)" by fastforce
  note v1 = get_view(1) [OF g]
  show thesis
  proof (cases "g = Some (Some (RText token))")
    case True
    then obtain t where "r_view R s k = Some (RText token, t)" using get_hit g by blast
    moreover have "m s1 = (r, s')" using assms g True by (simp add: thn_def)
    ultimately show ?thesis using own v1 by blast
  next
    case False
    then have "s' = s1" using assms g by (auto simp: io_defs split: option.splits if_splits)
    with v1 kept show ?thesis by simp
  qed
qed

end

sublocale redis < mutex: lease "mutex_lease R" "\<lambda>t. t" "mutex_held R" HEAVY_LOCK_TTL_MS
proof (unfold_locales, goal_cases)
  case (1 p s)
  obtain r s' where c: "r_set_nx R HEAVY_STAGE_LOCK_KEY (RText p) HEAVY_LOCK_TTL_MS s = (r, s')" by fastforce
  from set_nx_view [OF c] c show ?case by (auto simp: mutex_lease_def mutex_held_def)
next
  case (2 p s)
  obtain r s' where c: "PEXPIRE_IF_HOLDER R HEAVY_STAGE_LOCK_KEY p HEAVY_LOCK_TTL_MS s = (r, s')" by fastforce
  from c [unfolded PEXPIRE_IF_HOLDER_def] show ?case
  proof (cases rule: guarded_view)
    case kept
    then show ?thesis by (simp add: mutex_lease_def mutex_heartbeat_def mutex_held_def c)
  next
    case (own t s1)
    with pexpire_view(1) [OF own(3)] show ?thesis
      by (auto simp: mutex_lease_def mutex_heartbeat_def mutex_held_def c)
  qed
next
  case (3 p s)
  obtain r s' where c: "DEL_IF_HOLDER R HEAVY_STAGE_LOCK_KEY p s = (r, s')" by fastforce
  from c [unfolded DEL_IF_HOLDER_def] show ?case
  proof (cases rule: guarded_view)
    case kept
    then show ?thesis by (simp add: mutex_lease_def mutex_release_def mutex_held_def c)
  next
    case (own t s1)
    with del_view(1) [OF own(3)] show ?thesis
      by (auto simp: mutex_lease_def mutex_release_def mutex_held_def c)
  qed
next
  case (4 d s)
  show ?case by (auto simp: mutex_lease_def mutex_held_def elapse_view split: option.splits)
qed

section \<open>A reference server\<close>

text \<open>An in-memory server that always answers: the laws are satisfiable, and concrete runs evaluate.\<close>

record mem =
  m_store :: "string \<Rightarrow> (rvalue \<times> nat) option"
  m_events :: "event list"

definition mem_redis :: "mem redis_ops" where
  "mem_redis =
     \<lparr>r_get = (\<lambda>k s. (Some (map_option fst (m_store s k)), s)),
      r_set_nx = (\<lambda>k v t s. if m_store s k = None then (Some True, s\<lparr>m_store := (m_store s)(k \<mapsto> (v, t))\<rparr>)
                            else (Some False, s)),
      r_setex = (\<lambda>k t v s. (Some (), s\<lparr>m_store := (m_store s)(k \<mapsto> (v, t))\<rparr>)),
      r_del = (\<lambda>k s. (Some (if m_store s k = None then 0 else 1), s\<lparr>m_store := (m_store s)(k := None)\<rparr>)),
      r_pexpire = (\<lambda>k t s. (Some (if m_store s k = None then 0 else 1),
                     s\<lparr>m_store := (m_store s)(k := map_option (\<lambda>x. (fst x, t)) (m_store s k))\<rparr>)),
      r_ttl = (\<lambda>k s. (Some (case m_store s k of None \<Rightarrow> - 2 | Some (_, t) \<Rightarrow> int ((t + 500) div 1000)), s)),
      r_publish = (\<lambda>ev s. (Some (), s\<lparr>m_events := m_events s @ [ev]\<rparr>)),
      r_elapse = (\<lambda>d s. s\<lparr>m_store := (\<lambda>k. case m_store s k of None \<Rightarrow> None
                     | Some (v, t) \<Rightarrow> if d < t then Some (v, t - d) else None)\<rparr>),
      r_view = m_store\<rparr>"

definition empty_mem :: mem where
  "empty_mem = \<lparr>m_store = Map.empty, m_events = []\<rparr>"

lemma mem_redis_laws: "redis_laws mem_redis"
  by (auto simp: redis_laws_def get_law_def set_nx_law_def setex_law_def del_law_def pexpire_law_def
      ttl_law_def publish_law_def elapse_law_def mem_redis_def)

interpretation mem: redis mem_redis
  by unfold_locales (rule mem_redis_laws)

section \<open>Lemmas about the operations\<close>

text \<open>A run of \<open>acquireLock\<close> that reports success wrote the caller's metadata at the end.\<close>

definition wrote_lock where
  "wrote_lock R now q (y :: lock_result option \<times> 's) \<longleftrightarrow>
     (\<forall>k. fst y = Some (LockAcquired k) \<longrightarrow> k = request_key q \<and>
       (\<exists>m. r_view R (snd y) k = Some (RLock (request_metadata q (now m)), LOCK_TTL_SECONDS * 1000)))"

lemma acquireLock_wrote:
  assumes "redis_laws R" and "acquireLock R env now n q s = Some y"
  shows "wrote_lock R now q y"
proof -
  have "redis_laws R \<longrightarrow> wrote_lock R now q y"
  proof (rule acquireLock.raw_induct
      [of "\<lambda>R env now n q s y. redis_laws R \<longrightarrow> wrote_lock R now q y", OF _ assms(2)], rule impI, goal_cases)
    case (1 acq R env now n q s y)
    obtain r s1 where c: "r_set_nx R (request_key q) (RLock (request_metadata q (now n)))
        (LOCK_TTL_SECONDS * 1000) s = (r, s1)" by fastforce
    note sv = redis.set_nx_view [OF redis.intro [OF 1(3)] c]
    show ?case
    proof (cases "r = Some True")
      case True
      with 1(2) c sv show ?thesis by (auto simp: wrote_lock_def)
    next
      case False
      with 1 c show ?thesis
        by (auto simp: wrote_lock_def split: option.splits prod.splits bool.splits if_splits)
    qed
  qed
  with assms(1) show ?thesis by blast
qed

text \<open>The lock that \<open>getLockInfo\<close> reports is the one stored, when nobody interferes.\<close>

definition quiet :: "'s redis_ops \<Rightarrow> (nat \<Rightarrow> 's \<Rightarrow> 's) \<Rightarrow> bool" where
  "quiet R env \<longleftrightarrow> (\<forall>n s. r_view R (env n s) = r_view R s)"

definition readable_progress :: "(rvalue \<times> nat) option \<Rightarrow> bool" where
  "readable_progress x \<longleftrightarrow> parse_progress (map_option fst x) \<noteq> None"

context redis
begin

lemma getLockInfo_held:
  assumes up: "redis_up R" and q: "quiet R env"
    and v: "r_view R s k = Some (RLock m, t)"
    and pr: "readable_progress (r_view R s (PROGRESS_PREFIX @ md_jobId m))"
  shows "\<exists>info s'. getLockInfo R env n now k s = (Some (Some (Some info)), s')
           \<and> r_view R s' = r_view R s \<and> li_jobId info = md_jobId m \<and> li_jobType info = md_jobType m"
proof -
  obtain g s1 where g: "r_get R k s = (g, s1)" by fastforce
  have "g \<noteq> None" using up g unfolding redis_up_def by (metis fst_conv)
  then obtain gv where gv: "g = Some gv" by blast
  have gv': "gv = Some (RLock m)" using get_view(2) [OF g gv] v by simp
  have v1: "r_view R (env n s1) = r_view R s" using get_view(1) [OF g] q by (simp add: quiet_def)
  obtain l s2 where l: "r_ttl R k (env n s1) = (l, s2)" by fastforce
  have "l \<noteq> None" using up l unfolding redis_up_def by (metis fst_conv)
  then obtain ttl where ttl: "l = Some ttl" by blast
  have v2: "r_view R (env (n + 1) s2) = r_view R s" using ttl_view(1) [OF l] v1 q by (simp add: quiet_def)
  obtain p s3 where p: "r_get R (PROGRESS_PREFIX @ md_jobId m) (env (n + 1) s2) = (p, s3)" by fastforce
  have "p \<noteq> None" using up p unfolding redis_up_def by (metis fst_conv)
  then obtain pv where pv: "p = Some pv" by blast
  have pv': "parse_progress pv \<noteq> None"
    using get_view(2) [OF p pv] pr v2 by (simp add: readable_progress_def)
  then obtain jp where jp: "parse_progress pv = Some jp" by blast
  have v3: "r_view R s3 = r_view R s" using get_view(1) [OF p] v2 by simp
  show ?thesis
    using g gv gv' l ttl p pv jp v3 by (simp add: getLockInfo_def io_defs)
qed

end

context redis
begin

text \<open>The contract of a lease, for the two kinds of lock.\<close>

lemmas job_foreign_run = job.foreign_run
lemmas job_expires = job.expires
lemmas mutex_foreign_run = mutex.foreign_run

end

section \<open>Properties\<close>

text \<open>
  C7: mutual exclusion over a scope. When \<open>acquireLock\<close> reports success, however often it
  retried and whatever others did between its steps, the scope's key belongs to the caller; and it
  still does after any interleaving of acquisitions, heartbeats and releases of other jobs that
  takes less time than the lock's lifetime.
\<close>

theorem acquireLock_exclusive:
  assumes "redis_laws R"
    and "acquireLock R env now n q s = Some (Some (LockAcquired k), s')"
    and "foreign_acts requester (lr_jobId q) as" and "acts_time as < LOCK_TTL_SECONDS * 1000"
  shows "k = request_key q
    \<and> lock_held R k (lease_run (job_lease R k) as s')
        = Some (Some (lr_jobId q), LOCK_TTL_SECONDS * 1000 - acts_time as)"
proof -
  from acquireLock_wrote [OF assms(1,2)]
  have k: "k = request_key q" and h: "lock_held R k s' = Some (Some (lr_jobId q), LOCK_TTL_SECONDS * 1000)"
    by (auto simp: wrote_lock_def lock_held_def)
  show ?thesis
    using k redis.job_foreign_run [OF redis.intro [OF assms(1)] h assms(3,4)] by blast
qed

definition demo_request :: "string \<Rightarrow> lock_request" where
  "demo_request j = \<lparr>lr_systemUnderTestId = ''s'', lr_testEnvironment = ''e'', lr_workload = ''w'',
     lr_jobId = j, lr_testRunId = ''r'', lr_jobType = Analyze\<rparr>"

lemma demo_jobId [simp]: "lr_jobId (demo_request j) = j"
  by (simp add: demo_request_def)

theorem acquireLock_exclusive_witness:
  "\<exists>s'. acquireLock mem_redis (\<lambda>_ s. s) (\<lambda>_. 0) 0 (demo_request ''1'') empty_mem
       = Some (Some (LockAcquired ''job:lock:s:e:w''), s')
     \<and> lock_held mem_redis ''job:lock:s:e:w''
         (lease_run (job_lease mem_redis ''job:lock:s:e:w'')
            [LElapse 1000, LAcquire (demo_request ''2'', 1), LRelease (demo_request ''2'', 2)] s')
       = Some (Some ''1'', 299000)"
proof -
  have "\<exists>s'. acquireLock mem_redis (\<lambda>_ s. s) (\<lambda>_. 0) 0 (demo_request ''1'') empty_mem
       = Some (Some (LockAcquired ''job:lock:s:e:w''), s')"
    by (subst acquireLock.simps)
      (simp add: mem_redis_def empty_mem_def demo_request_def request_key_def generateLockKey_def
        LOCK_PREFIX_def)
  then obtain s' where s: "acquireLock mem_redis (\<lambda>_ s. s) (\<lambda>_. 0) 0 (demo_request ''1'') empty_mem
       = Some (Some (LockAcquired ''job:lock:s:e:w''), s')" by blast
  have f: "foreign_acts requester (lr_jobId (demo_request ''1''))
      [LElapse 1000, LAcquire (demo_request ''2'', 1), LRelease (demo_request ''2'', 2)]"
    by (simp add: foreign_acts_def requester_def demo_request_def)
  have "acts_time [LElapse 1000, LAcquire (demo_request ''2'', 1 :: int), LRelease (demo_request ''2'', 2)]
      < LOCK_TTL_SECONDS * 1000" by (simp add: LOCK_TTL_SECONDS_def)
  from acquireLock_exclusive [OF mem_redis_laws s f this] s show ?thesis
    by (auto simp: LOCK_TTL_SECONDS_def simp del: lease_run.simps)
qed

text \<open>
  \<open>acquireLock\<close> always answers when Redis does: on a free scope it takes the lock, on a scope
  that another job holds and nobody releases it reports the holder's job and leaves every key as it was.
\<close>

theorem acquireLock_answers:
  assumes "redis_laws R" and "redis_up R" and "quiet R env"
    and "case r_view R s (request_key q) of None \<Rightarrow> True
         | Some (v, t) \<Rightarrow> \<exists>m. v = RLock m
             \<and> readable_progress (r_view R s (PROGRESS_PREFIX @ md_jobId m))"
  shows "\<exists>r s'. acquireLock R env now n q s = Some (Some r, s')
     \<and> (case r_view R s (request_key q) of
          None \<Rightarrow> r = LockAcquired (request_key q)
        | Some (v, t) \<Rightarrow> r_view R s' = r_view R s
            \<and> (\<exists>b. r = LockBlocked (request_key q) b \<and> owner_of v = Some (bi_existingJobId b)
                 \<and> bi_scopeKey b = request_key q))"
proof -
  note loc = redis.intro [OF assms(1)]
  let ?k = "request_key q"
  obtain r s1 where c: "r_set_nx R ?k (RLock (request_metadata q (now n))) (LOCK_TTL_SECONDS * 1000) s = (r, s1)"
    by fastforce
  have up: "r \<noteq> None" using assms(2) c unfolding redis_up_def by (metis fst_conv)
  note sv = redis.set_nx_view [OF loc c]
  show ?thesis
  proof (cases "r_view R s ?k")
    case None
    with sv up have "r = Some True" by auto
    with c None show ?thesis by (subst acquireLock.simps) simp
  next
    case (Some x)
    with sv up have r: "r = Some False" and v1: "r_view R s1 = r_view R s" by auto
    obtain m t where m: "r_view R s ?k = Some (RLock m, t)"
      and pr: "readable_progress (r_view R s (PROGRESS_PREFIX @ md_jobId m))"
      using assms(4) Some by (cases x) auto
    have v2: "r_view R (env n s1) = r_view R s" using v1 assms(3) by (simp add: quiet_def)
    obtain info s2 where i: "getLockInfo R env (n + 1) (now n) ?k (env n s1) = (Some (Some (Some info)), s2)"
      and v3: "r_view R s2 = r_view R s" and o: "li_jobId info = md_jobId m"
      using redis.getLockInfo_held [OF loc assms(2,3), of "env n s1" ?k m t "n + 1" "now n"] m pr v2
      by auto
    let ?b = "buildBlockingInfo info ?k"
    obtain p s3 where p: "r_publish R (EvBlocked ?b (lr_testRunId q) (lr_jobType q)) (env (n + 3) s2) = (p, s3)"
      by fastforce
    have v4: "r_view R s3 = r_view R s"
      using redis.publish_view [OF loc p] v3 assms(3) by (simp add: quiet_def)
    have e: "publishBlockedEvent R (lr_testRunId q) (lr_jobType q) ?b (env (n + 3) s2) = (Some (), s3)"
      using p by (simp add: publishBlockedEvent_def io_defs split: option.splits)
    have "acquireLock R env now n q s = Some (Some (LockBlocked ?k ?b), s3)"
      using c r i e by (subst acquireLock.simps) simp
    with m v4 o show ?thesis by (simp add: buildBlockingInfo_def)
  qed
qed

theorem acquireLock_answers_witness:
  "\<exists>s'. acquireLock mem_redis (\<lambda>_ s. s) (\<lambda>_. 0) 0 (demo_request ''1'') empty_mem
       = Some (Some (LockAcquired (request_key (demo_request ''1''))), s')"
proof -
  have l: "redis_up mem_redis" "quiet mem_redis (\<lambda>_ s. s)"
    by (auto simp: redis_up_def quiet_def mem_redis_def)
  have n: "r_view mem_redis empty_mem (request_key (demo_request ''1'')) = None"
    by (simp add: mem_redis_def empty_mem_def)
  from acquireLock_answers [OF mem_redis_laws l, where s = empty_mem and q = "demo_request ''1''"]
  show ?thesis using n by (auto simp del: request_metadata_jobId)
qed

text \<open>
  \<open>releaseLock\<close> never throws and removes only the caller's lock. Whatever happens between its
  read and its script, it leaves the keys as they are, except that it deletes the scope's key when
  that key, at the time of the script, is the caller's; and it reports success only then.
\<close>

theorem releaseLock_owner_only:
  assumes "redis_laws R" and "\<forall>u. r_view R (e u) = ev (r_view R u)"
    and "releaseLock R e k j s = (r, s')"
  shows "r \<noteq> None \<and>
     (r_view R s' = r_view R s \<and> r = Some False
      \<or> r_view R s' = ev (r_view R s) \<and> r = Some False
      \<or> (\<exists>v t. ev (r_view R s) k = Some (v, t) \<and> owner_of v = Some j)
         \<and> r_view R s' = (ev (r_view R s))(k := None))"
proof -
  note loc = redis.intro [OF assms(1)]
  obtain g s1 where g: "r_get R k s = (g, s1)" by fastforce
  note v1 = redis.get_view(1) [OF loc g]
  show ?thesis
  proof (cases "\<exists>v. g = Some (Some v) \<and> owner_of v = Some j")
    case True
    then obtain v where v: "g = Some (Some v)" "owner_of v = Some j" by blast
    obtain d s2 where d: "release_script R k j (e s1) = (d, s2)" by fastforce
    have s': "s' = s2" and r: "r = (if d = Some 1 then Some True else Some False)"
      using assms(3) g v d by (auto simp: releaseLock_def io_defs split: option.splits)
    have v2: "r_view R (e s1) = ev (r_view R s)" using assms(2) v1 by simp
    show ?thesis
    proof (rule redis.release_script_cases [OF loc d])
      assume "r_view R s2 = r_view R (e s1)" "d \<noteq> Some 1"
      with s' r v2 show ?thesis by simp
    next
      fix v t
      assume "r_view R (e s1) k = Some (v, t)" "owner_of v = Some j"
        "r_view R s2 = (r_view R (e s1))(k := None)"
      with s' r v2 show ?thesis by auto
    qed
  next
    case False
    then have "s' = s1 \<and> r = Some False"
      using assms(3) g by (auto simp: releaseLock_def io_defs split: option.splits if_splits)
    with v1 show ?thesis by simp
  qed
qed

definition held_by :: "string \<Rightarrow> nat \<Rightarrow> mem" where
  "held_by j t = \<lparr>m_store = [''k'' \<mapsto> (RLock (request_metadata (demo_request j) 0), t)], m_events = []\<rparr>"

theorem releaseLock_owner_only_witness:
  "m_store (snd (releaseLock mem_redis (\<lambda>u. u) ''k'' ''2'' (held_by ''1'' 5))) = m_store (held_by ''1'' 5)"
proof -
  obtain r s' where c: "releaseLock mem_redis (\<lambda>u. u) ''k'' ''2'' (held_by ''1'' 5) = (r, s')" by fastforce
  from releaseLock_owner_only [OF mem_redis_laws _ c, of "\<lambda>x. x"] c
  show ?thesis by (simp add: mem_redis_def held_by_def demo_request_def)
qed

context redis
begin

lemma renew_held:
  assumes "lock_held R (request_key q) s = Some (Some (lr_jobId q), t)"
    and "renew R q now False s = (b, s')"
  shows "\<not> b \<and> (lock_held R (request_key q) s' = Some (Some (lr_jobId q), t)
                 \<or> lock_held R (request_key q) s' = Some (Some (lr_jobId q), LOCK_TTL_SECONDS * 1000))"
    and "redis_up R \<Longrightarrow> lock_held R (request_key q) s' = Some (Some (lr_jobId q), LOCK_TTL_SECONDS * 1000)"
proof -
  let ?k = "request_key q" and ?m = "request_metadata q now"
  obtain v where v: "r_view R s ?k = Some (v, t)" "owner_of v = Some (lr_jobId q)"
    using assms(1) by (auto simp: lock_held_def)
  obtain g s1 where g: "r_get R ?k s = (g, s1)" by fastforce
  note v1 = get_view(1) [OF g]
  have gv: "g = None \<or> g = Some (Some v)" using get_view(2) [OF g] v by (cases g) auto
  obtain d s2 where d: "r_pexpire R ?k (LOCK_TTL_SECONDS * 1000) s1 = (d, s2)" by fastforce
  have dv: "r_view R s2 = (r_view R s)(?k \<mapsto> (v, LOCK_TTL_SECONDS * 1000)) \<or> d = None \<and> r_view R s2 = r_view R s"
    using pexpire_view(1) [OF d] v1 v by auto
  have out: "\<not> b \<and> (if g = None then s' = s1 else s' = s2)"
    using assms(2) g gv d v
    by (auto simp: renew_def extendLockOrReacquire_def reacquire_script_def io_defs
        split: option.splits if_splits)
  show "\<not> b \<and> (lock_held R ?k s' = Some (Some (lr_jobId q), t)
                 \<or> lock_held R ?k s' = Some (Some (lr_jobId q), LOCK_TTL_SECONDS * 1000))"
    using out dv v v1 by (auto simp: lock_held_def split: if_splits)
  assume up: "redis_up R"
  have "g \<noteq> None" "d \<noteq> None" using up g d unfolding redis_up_def by (metis fst_conv)+
  then show "lock_held R ?k s' = Some (Some (lr_jobId q), LOCK_TTL_SECONDS * 1000)"
    using out dv v by (auto simp: lock_held_def split: if_splits)
qed

end

text \<open>
  The heartbeat. When the lock was extended at one beat and the next beat fails, the beat
  after it still finds the lock, extends it to its full lifetime and does not surrender,
  whatever other jobs did in between; but when two beats in a row fail, the lock expires at the
  very moment the third is due.
\<close>

theorem renewal_margin:
  assumes "redis_laws R" and "redis_up R"
    and "lock_held R (request_key q) s = Some (Some (lr_jobId q), LOCK_TTL_SECONDS * 1000)"
    and "foreign_acts requester (lr_jobId q) as" and "acts_time as = 2 * renew_interval_ms"
  shows "\<not> fst (renew R q now False (lease_run (job_lease R (request_key q)) as s))
     \<and> lock_held R (request_key q) (snd (renew R q now False (lease_run (job_lease R (request_key q)) as s)))
         = Some (Some (lr_jobId q), LOCK_TTL_SECONDS * 1000)
     \<and> lock_held R (request_key q)
         (lease_run (job_lease R (request_key q)) [LElapse (3 * renew_interval_ms)] s) = None"
proof -
  note loc = redis.intro [OF assms(1)]
  let ?s = "lease_run (job_lease R (request_key q)) as s"
  have t: "acts_time as < LOCK_TTL_SECONDS * 1000"
    using assms(5) by (simp add: renew_interval_ms_def LOCK_TTL_SECONDS_def)
  note h = redis.job_foreign_run [OF loc assms(3,4) t]
  obtain b s' where r: "renew R q now False ?s = (b, s')" by fastforce
  have "\<not> b" "lock_held R (request_key q) s' = Some (Some (lr_jobId q), LOCK_TTL_SECONDS * 1000)"
    using redis.renew_held [OF loc h r] assms(2) by blast+
  moreover have "LOCK_TTL_SECONDS * 1000 \<le> 3 * renew_interval_ms"
    by (simp add: renew_interval_ms_def LOCK_TTL_SECONDS_def)
  ultimately show ?thesis using r redis.job_expires [OF loc assms(3)] by simp
qed

theorem renewal_margin_witness:
  "\<exists>s. lock_held mem_redis (request_key (demo_request ''1'')) s = Some (Some ''1'', 300000)
     \<and> \<not> fst (renew mem_redis (demo_request ''1'') 0 False
                (lease_run (job_lease mem_redis (request_key (demo_request ''1''))) [LElapse 200000] s))"
proof -
  let ?q = "demo_request ''1''"
  let ?s = "\<lparr>m_store = [request_key ?q \<mapsto> (RLock (request_metadata ?q 0), 300000)], m_events = []\<rparr>"
  have up: "redis_up mem_redis" by (auto simp: redis_up_def mem_redis_def)
  have h: "lock_held mem_redis (request_key ?q) ?s = Some (Some (lr_jobId ?q), LOCK_TTL_SECONDS * 1000)"
    by (simp add: lock_held_def mem_redis_def LOCK_TTL_SECONDS_def)
  have f: "foreign_acts requester (lr_jobId ?q) [LElapse 200000]" by (simp add: foreign_acts_def)
  have t: "acts_time [LElapse 200000 :: (lock_request \<times> int) lease_act] = 2 * renew_interval_ms"
    by (simp add: renew_interval_ms_def LOCK_TTL_SECONDS_def)
  show ?thesis
    using renewal_margin [OF mem_redis_laws up h f t, of 0] h
    by (intro exI [of _ ?s]) (simp add: LOCK_TTL_SECONDS_def del: lease_run.simps)
qed

text \<open>Two tokens with nonces of the same length agree only when the nonces do.\<close>

lemma mutex_token_inj:
  assumes "mutex_token h u = mutex_token h' u'" and "length u = length u'"
  shows "u = u'"
  using assms by (simp add: mutex_token_def)

lemma mutex_poll_wrote:
  assumes "redis_laws R" and "mutex_poll R env now f token mx st n s = Some y"
  shows "(\<exists>w. fst y = MutexAcquired w) \<longrightarrow> mutex_held R (snd y) = Some (Some token, HEAVY_LOCK_TTL_MS)"
proof -
  let ?P = "\<lambda>R token y. redis_laws R \<longrightarrow>
    (\<exists>w. fst y = MutexAcquired w) \<longrightarrow> mutex_held R (snd y) = Some (Some token, HEAVY_LOCK_TTL_MS)"
  have "?P R token y"
  proof (rule mutex_poll.raw_induct
      [of "\<lambda>R env now f token mx st n s y. ?P R token y", OF _ assms(2)], rule impI, goal_cases)
    case (1 poll R env now f token mx st n s y)
    obtain r s1 where c: "r_set_nx R HEAVY_STAGE_LOCK_KEY (RText token) HEAVY_LOCK_TTL_MS s = (r, s1)"
      by fastforce
    note sv = redis.set_nx_view [OF redis.intro [OF 1(3)] c]
    show ?case
    proof (cases "r = Some True")
      case True
      with 1(2) c sv show ?thesis by (auto simp: mutex_held_def)
    next
      case False
      with 1 c show ?thesis by (auto split: option.splits prod.splits bool.splits if_splits)
    qed
  qed
  with assms(1) show ?thesis by blast
qed

text \<open>
  C27: at most one heavy stage. Once \<open>acquire\<close> has resolved, no acquisition, heartbeat or release
  with another nonce takes the mutex away during its lifetime, not even one of a stale instance of
  the same job: the nonce, not the job id, decides who owns it.
\<close>

theorem mutex_exclusive:
  assumes "redis_laws R"
    and "mutex_acquire R env now onWaiting holder uuid maxWaitMs startedAt s = Some (MutexAcquired w, s')"
    and "\<forall>a \<in> set as. \<forall>p. act_by a = Some p \<longrightarrow>
           (\<exists>h u. p = mutex_token h u \<and> length u = length uuid \<and> u \<noteq> uuid)"
    and "acts_time as < HEAVY_LOCK_TTL_MS"
  shows "mutex_held R (lease_run (mutex_lease R) as s')
           = Some (Some (mutex_token holder uuid), HEAVY_LOCK_TTL_MS - acts_time as)"
proof -
  have h: "mutex_held R s' = Some (Some (mutex_token holder uuid), HEAVY_LOCK_TTL_MS)"
    using mutex_poll_wrote [OF assms(1) assms(2) [unfolded mutex_acquire_def]] by simp
  have "foreign_acts (\<lambda>t. t) (mutex_token holder uuid) as"
    using assms(3) mutex_token_inj by (fastforce simp: foreign_acts_def)
  from redis.mutex_foreign_run [OF redis.intro [OF assms(1)] h this assms(4)] show ?thesis .
qed

theorem mutex_exclusive_witness:
  "\<exists>s'. mutex_acquire mem_redis (\<lambda>_ s. s) (\<lambda>_. 0) None ''7'' ''b'' None 0 empty_mem
        = Some (MutexAcquired 0, s')
     \<and> mutex_held mem_redis (lease_run (mutex_lease mem_redis) [LElapse 1, LRelease (mutex_token ''7'' ''a'')] s')
        = Some (Some ''7|b'', 299999)"
proof -
  have "\<exists>s'. mutex_acquire mem_redis (\<lambda>_ s. s) (\<lambda>_. 0) None ''7'' ''b'' None 0 empty_mem
        = Some (MutexAcquired 0, s')"
    unfolding mutex_acquire_def by (subst mutex_poll.simps) (simp add: mem_redis_def empty_mem_def)
  then obtain s' where s: "mutex_acquire mem_redis (\<lambda>_ s. s) (\<lambda>_. 0) None ''7'' ''b'' None 0 empty_mem
        = Some (MutexAcquired 0, s')" by blast
  have "\<forall>a \<in> set [LElapse 1, LRelease (mutex_token ''7'' ''a'')]. \<forall>p. act_by a = Some p \<longrightarrow>
      (\<exists>h u. p = mutex_token h u \<and> length u = length ''b'' \<and> u \<noteq> ''b'')"
    using exI [of "\<lambda>u. mutex_token ''7'' ''a'' = mutex_token ''7'' u \<and> length u = length ''b'' \<and> u \<noteq> ''b''" "''a''"]
    by auto
  moreover have "acts_time [LElapse 1, LRelease (mutex_token ''7'' ''a'')] < HEAVY_LOCK_TTL_MS"
    by (simp add: HEAVY_LOCK_TTL_MS_def)
  ultimately show ?thesis
    using mutex_exclusive [OF mem_redis_laws s] s
    by (auto simp: HEAVY_LOCK_TTL_MS_def mutex_token_def simp del: lease_run.simps)
qed

lemma mutex_poll_step:
  "(\<exists>out s'. mutex_poll R env now f token mx st n s = Some (out, s')
      \<and> (\<forall>secs h. out = MutexNotAcquired secs h \<longrightarrow> js_round (of_int mx / 1000) \<le> secs))
   \<or> now n - st \<le> mx \<and>
     (\<exists>u. mutex_poll R env now f token mx st n s = mutex_poll R env now f token mx st (n + 1) u)"
proof -
  obtain r s1 where c: "r_set_nx R HEAVY_STAGE_LOCK_KEY (RText token) HEAVY_LOCK_TTL_MS s = (r, s1)"
    by fastforce
  show ?thesis
  proof (cases "r = Some False \<and> \<not> mx < now n - st")
    case True
    define w where "w = (case f of None \<Rightarrow> (Some (), s1)
      | Some f \<Rightarrow> thn (gap (env (4 * n)) (currentHolder R)) (\<lambda>h. gap (env (4 * n + 1)) (f h)) s1)"
    have "mutex_poll R env now f token mx st n s = (case w of (None, s2) \<Rightarrow> Some (MutexThrew, s2)
        | (Some _, s2) \<Rightarrow> mutex_poll R env now f token mx st (n + 1) (env (4 * n + 2) s2))"
      using True by (subst mutex_poll.simps) (simp add: c w_def)
    then show ?thesis using True by (cases w; cases "fst w") auto
  next
    case False
    have "js_round (of_int mx / 1000) \<le> js_round (of_int (now n - st) / 1000)" if "mx < now n - st"
      using that by (intro js_round_mono divide_right_mono) auto
    with False show ?thesis
      by (intro disjI1, subst mutex_poll.simps)
        (auto simp: c simp del: of_int_diff split: option.splits prod.splits)
  qed
qed

text \<open>
  \<open>acquire\<close> does not wait forever: as soon as the clock passes the ceiling it returns, and it
  gives up only after waiting longer than the ceiling.
\<close>

theorem mutex_acquire_returns:
  assumes "case maxWaitMs of None \<Rightarrow> HEAVY_STAGE_MAX_WAIT_MS < now N - startedAt
           | Some m \<Rightarrow> m < now N - startedAt"
  shows "\<exists>out s'. mutex_acquire R env now onWaiting holder uuid maxWaitMs startedAt s = Some (out, s')
     \<and> (\<forall>secs h. out = MutexNotAcquired secs h \<longrightarrow>
          js_round (of_int (case maxWaitMs of None \<Rightarrow> HEAVY_STAGE_MAX_WAIT_MS | Some m \<Rightarrow> m) / 1000) \<le> secs)"
proof -
  define mx where "mx = (case maxWaitMs of None \<Rightarrow> HEAVY_STAGE_MAX_WAIT_MS | Some m \<Rightarrow> m)"
  have mx: "\<not> now N - startedAt \<le> mx" using assms by (auto simp: mx_def split: option.splits)
  have "\<exists>out s'. mutex_poll R env now onWaiting (mutex_token holder uuid) mx startedAt n s = Some (out, s')
      \<and> (\<forall>secs h. out = MutexNotAcquired secs h \<longrightarrow> js_round (of_int mx / 1000) \<le> secs)"
    if "n \<le> N" for n s
    using that
  proof (induction "N - n" arbitrary: n s)
    case 0
    then show ?case
      using mutex_poll_step [of R env now onWaiting "mutex_token holder uuid" mx startedAt N s] mx by auto
  next
    case (Suc d)
    have "d = N - (n + 1)" "n + 1 \<le> N" using Suc(2) by simp_all
    with mutex_poll_step [of R env now onWaiting "mutex_token holder uuid" mx startedAt n s] Suc(1)
    show ?case by metis
  qed
  from this [of 0 s] show ?thesis by (simp add: mutex_acquire_def mx_def)
qed

theorem mutex_acquire_returns_witness:
  "\<exists>out s'. mutex_acquire mem_redis (\<lambda>_ s. s) (\<lambda>n. 5000 * int n) None ''7'' ''b'' None 0
      (empty_mem\<lparr>m_store := [HEAVY_STAGE_LOCK_KEY \<mapsto> (RText ''8|a'', 5)]\<rparr>) = Some (out, s')"
proof -
  have "case None of None \<Rightarrow> HEAVY_STAGE_MAX_WAIT_MS < 5000 * int 721 - 0 | Some m \<Rightarrow> m < 5000 * int 721 - 0"
    by (simp add: HEAVY_STAGE_MAX_WAIT_MS_def)
  from mutex_acquire_returns [where now = "\<lambda>n. 5000 * int n" and R = mem_redis, OF this] show ?thesis by blast
qed

end
