(* ===== verification/StuckJobs.thy ===== *)
theory StuckJobs
  imports Locks
begin

text \<open>
  Progress of a running job (\<open>services/ProgressReporter.ts\<close> and the progress helpers of
  \<open>types/job-progress.types.ts\<close>) and the scanner that looks for jobs without progress
  (\<open>services/StuckJobScanner.ts\<close>), over the Redis interface of \<open>Locks\<close>.

  A reporter is a record of its fields, an operation returns the updated record and the new server
  state. Each operation runs at one instant of the clock. BullMQ's \<open>job.updateProgress\<close> is the
  parameter \<open>bull\<close>. The body of the debounce timer and of the scan interval are operations.
\<close>

section \<open>Helpers\<close>

definition show_int :: "int \<Rightarrow> string" where
  "show_int n = (if n < 0 then ''-'' @ show_nat (nat (- n)) else show_nat (nat n))"

definition PIPELINE_STAGES :: "(string \<times> string) list" where
  "PIPELINE_STAGES =
     [(''dynatrace-collection'', ''Dynatrace collection''),
      (''panels-processing'', ''Panels processing''),
      (''performance-test-metrics'', ''Performance test metrics''),
      (''transaction-stats-rollup'', ''Transaction stats rollup''),
      (''metrics-collection'', ''Metrics collection''),
      (''statistics-calculation'', ''Statistics calculation''),
      (''checks-evaluation'', ''Checks evaluation''),
      (''control-groups-creation'', ''Control groups creation''),
      (''control-group-statistics'', ''Control group statistics''),
      (''adapt-analysis'', ''ADAPT analysis''),
      (''data-sanity-check'', ''Data sanity check'')]"

definition getStageName :: "string \<Rightarrow> string" where
  "getStageName stageId = (case map_of PIPELINE_STAGES stageId of Some n \<Rightarrow> n | None \<Rightarrow> stageId)"

definition calculateOverallProgress :: "int \<Rightarrow> int \<Rightarrow> rat \<Rightarrow> int" where
  "calculateOverallProgress stageIndex totalStages stageProgress =
     (if totalStages = 0 then 0
      else let completedStagesProgress = (of_int (stageIndex - 1) / of_int totalStages) * 100;
               currentStageContribution = stageProgress / of_int totalStages
           in min 100 (js_round (completedStagesProgress + currentStageContribution)))"

definition formatProgressMessage :: "string \<Rightarrow> int \<Rightarrow> string" where
  "formatProgressMessage stageName overallProgress = stageName @ '' - '' @ show_int overallProgress @ ''%''"

section \<open>The reporter\<close>

record reporter =
  rp_jobId :: string
  rp_testRunId :: string
  rp_systemUnderTestId :: string
  rp_testEnvironment :: string
  rp_workload :: string
  rp_jobType :: job_type
  rp_stages :: "string list"
  rp_currentStageIndex :: int
  rp_currentStageProgress :: rat
  rp_currentStage :: string
  rp_startedAt :: int
  rp_lastProgressAt :: int
  rp_status :: job_status
  rp_waitingMessage :: "string option"
  rp_currentTestRun :: "(string \<times> int \<times> int) option"
  rp_debounceTimer :: bool
  rp_pendingUpdate :: bool

definition newReporter ::
  "string \<Rightarrow> string \<times> string \<times> string \<times> string \<Rightarrow> job_type \<Rightarrow> string list \<Rightarrow> int \<Rightarrow> reporter" where
  "newReporter jobId info jobType stages now =
     (case info of (run, sut, env, wl) \<Rightarrow>
       \<lparr>rp_jobId = jobId, rp_testRunId = run, rp_systemUnderTestId = sut, rp_testEnvironment = env,
        rp_workload = wl, rp_jobType = jobType, rp_stages = stages, rp_currentStageIndex = 0,
        rp_currentStageProgress = 0, rp_currentStage = [], rp_startedAt = now, rp_lastProgressAt = now,
        rp_status = Active, rp_waitingMessage = None, rp_currentTestRun = None,
        rp_debounceTimer = False, rp_pendingUpdate = False\<rparr>)"

definition buildProgressObject :: "reporter \<Rightarrow> job_progress" where
  "buildProgressObject p =
     (let overallProgress = calculateOverallProgress (rp_currentStageIndex p) (int (length (rp_stages p)))
                              (rp_currentStageProgress p);
          stageName = getStageName (rp_currentStage p);
          message = (case rp_waitingMessage p of Some m \<Rightarrow> m
                     | None \<Rightarrow> formatProgressMessage stageName overallProgress)
      in \<lparr>jp_jobId = rp_jobId p, jp_testRunId = rp_testRunId p,
          jp_systemUnderTestId = rp_systemUnderTestId p, jp_testEnvironment = rp_testEnvironment p,
          jp_workload = rp_workload p, jp_jobType = rp_jobType p, jp_stage = rp_currentStage p,
          jp_stageName = stageName, jp_stageIndex = rp_currentStageIndex p,
          jp_totalStages = int (length (rp_stages p)), jp_stageProgress = rp_currentStageProgress p,
          jp_overallProgress = overallProgress, jp_message = message, jp_startedAt = rp_startedAt p,
          jp_lastProgressAt = rp_lastProgressAt p, jp_status = rp_status p,
          jp_currentTestRunId = map_option fst (rp_currentTestRun p),
          jp_currentTestRunIndex = map_option (fst \<circ> snd) (rp_currentTestRun p),
          jp_totalTestRuns = map_option (snd \<circ> snd) (rp_currentTestRun p)\<rparr>)"

type_synonym 's bull = "int \<Rightarrow> ('s, unit) io"

definition progress_key :: "string \<Rightarrow> string" where
  "progress_key jobId = PROGRESS_PREFIX @ jobId"

definition publishProgress ::
  "'s redis_ops \<Rightarrow> 's bull \<Rightarrow> int \<Rightarrow> reporter \<Rightarrow> 's \<Rightarrow> reporter \<times> 's" where
  "publishProgress R bull now p s =
     (let p' = p\<lparr>rp_lastProgressAt := now\<rparr>;
          progress = buildProgressObject p'
      in (p', snd (catching
            (thn (bull (jp_overallProgress progress)) (\<lambda>_.
             thn (r_setex R (progress_key (rp_jobId p)) (LOCK_TTL_SECONDS * 1000) (RProgress progress)) (\<lambda>_.
             r_publish R (EvProgress progress))))
            (ret ()) s)))"

fun index_of :: "string list \<Rightarrow> string \<Rightarrow> int" where
  "index_of [] x = -1"
| "index_of (y # ys) x = (if x = y then 0 else (let i = index_of ys x in if i = -1 then -1 else i + 1))"

definition startStage ::
  "'s redis_ops \<Rightarrow> 's bull \<Rightarrow> int \<Rightarrow> string \<Rightarrow> reporter \<Rightarrow> 's \<Rightarrow> reporter \<times> 's" where
  "startStage R bull now stageName p s =
     (let stageIndex = index_of (rp_stages p) stageName
      in if stageIndex = -1 then (p, s)
         else publishProgress R bull now
                (p\<lparr>rp_currentStage := stageName, rp_currentStageIndex := stageIndex + 1,
                   rp_currentStageProgress := 0, rp_currentTestRun := None, rp_waitingMessage := None,
                   rp_status := (if rp_status p = Waiting then Active else rp_status p)\<rparr>) s)"

definition setWaiting ::
  "'s redis_ops \<Rightarrow> 's bull \<Rightarrow> int \<Rightarrow> string option \<Rightarrow> reporter \<Rightarrow> 's \<Rightarrow> reporter \<times> 's" where
  "setWaiting R bull now message p s =
     publishProgress R bull now
       (p\<lparr>rp_status := (if message = None then Active else Waiting), rp_waitingMessage := message\<rparr>) s"

definition touch :: "'s redis_ops \<Rightarrow> 's bull \<Rightarrow> int \<Rightarrow> reporter \<Rightarrow> 's \<Rightarrow> reporter \<times> 's" where
  "touch R bull now p s = publishProgress R bull now p s"

definition debouncedPublish :: "reporter \<Rightarrow> reporter" where
  "debouncedPublish p = p\<lparr>rp_pendingUpdate := True, rp_debounceTimer := True\<rparr>"

text \<open>The debounce timer, when it fires.\<close>

definition debounceFires :: "'s redis_ops \<Rightarrow> 's bull \<Rightarrow> int \<Rightarrow> reporter \<Rightarrow> 's \<Rightarrow> reporter \<times> 's" where
  "debounceFires R bull now p s =
     (let p' = p\<lparr>rp_debounceTimer := False\<rparr>
      in if rp_pendingUpdate p' then publishProgress R bull now (p'\<lparr>rp_pendingUpdate := False\<rparr>) s
         else (p', s))"

definition updateStageProgress :: "rat \<Rightarrow> (string \<times> int \<times> int) option \<Rightarrow> reporter \<Rightarrow> reporter" where
  "updateStageProgress percent currentTestRun p =
     (let p1 = p\<lparr>rp_currentStageProgress := min 100 (max 0 percent)\<rparr>;
          p2 = (if currentTestRun = None then p1 else p1\<lparr>rp_currentTestRun := currentTestRun\<rparr>)
      in debouncedPublish p2)"

definition completeStage :: "'s redis_ops \<Rightarrow> 's bull \<Rightarrow> int \<Rightarrow> reporter \<Rightarrow> 's \<Rightarrow> reporter \<times> 's" where
  "completeStage R bull now p s = publishProgress R bull now (p\<lparr>rp_currentStageProgress := 100\<rparr>) s"

definition complete :: "'s redis_ops \<Rightarrow> 's bull \<Rightarrow> int \<Rightarrow> reporter \<Rightarrow> 's \<Rightarrow> reporter \<times> 's" where
  "complete R bull now p s =
     (let (p', s1) = publishProgress R bull now
            (p\<lparr>rp_status := Completed, rp_waitingMessage := None, rp_currentStageProgress := 100,
               rp_debounceTimer := False\<rparr>) s;
          s2 = snd (r_publish R (EvCompleted (rp_jobId p) (now - rp_startedAt p)) s1)
      in (p', snd (r_pexpire R (progress_key (rp_jobId p)) (3600 * 1000) s2)))"

definition fail :: "'s redis_ops \<Rightarrow> 's bull \<Rightarrow> int \<Rightarrow> string \<Rightarrow> reporter \<Rightarrow> 's \<Rightarrow> reporter \<times> 's" where
  "fail R bull now error p s =
     (let (p', s1) = publishProgress R bull now
            (p\<lparr>rp_status := Failed, rp_waitingMessage := None, rp_debounceTimer := False\<rparr>) s;
          s2 = snd (r_publish R (EvFailed (rp_jobId p) error) s1)
      in (p', snd (r_pexpire R (progress_key (rp_jobId p)) (7200 * 1000) s2)))"

definition cleanup :: "reporter \<Rightarrow> reporter" where
  "cleanup p = p\<lparr>rp_debounceTimer := False\<rparr>"

section \<open>The scanner\<close>

definition STUCK_TIMEOUT_MS :: int where "STUCK_TIMEOUT_MS = 600000"

record scanner =
  sc_interval :: bool
  sc_scanning :: bool
  sc_scanIntervalMs :: int
  sc_stuckTimeoutMs :: int

fun scanner_start :: "scanner \<Rightarrow> scanner" where
  "scanner_start c = (if sc_interval c then c else c\<lparr>sc_interval := True\<rparr>)"

fun scanner_stop :: "scanner \<Rightarrow> scanner" where
  "scanner_stop c = (if sc_interval c then c\<lparr>sc_interval := False\<rparr> else c)"

definition getStatus :: "scanner \<Rightarrow> bool \<times> bool \<times> int \<times> int" where
  "getStatus c = (sc_interval c, sc_scanning c, sc_scanIntervalMs c, sc_stuckTimeoutMs c)"

definition markJobAsStuck :: "'s redis_ops \<Rightarrow> int \<Rightarrow> job_progress \<Rightarrow> int \<Rightarrow> ('s, unit) io" where
  "markJobAsStuck R now progress stuckDuration =
     catching
       (r_setex R (progress_key (jp_jobId progress)) (7200 * 1000)
          (RProgress (progress\<lparr>jp_status := Stuck, jp_lastProgressAt := now,
             jp_message := ''Job stuck - no progress for ''
                @ show_int (js_round (of_int stuckDuration / 1000)) @ ''s''\<rparr>)))
       (ret ())"

definition releaseLockForStuckJob :: "'s redis_ops \<Rightarrow> job_progress \<Rightarrow> ('s, unit) io" where
  "releaseLockForStuckJob R progress =
     thn (forceReleaseLock R (generateLockKey (jp_systemUnderTestId progress)
            (jp_testEnvironment progress) (jp_workload progress))) (\<lambda>_. ret ())"

definition publishStuckEvent :: "'s redis_ops \<Rightarrow> job_progress \<Rightarrow> int \<Rightarrow> ('s, unit) io" where
  "publishStuckEvent R progress stuckDuration =
     catching (r_publish R (EvStuck progress stuckDuration)) (ret ())"

definition terminal_status :: "job_status \<Rightarrow> bool" where
  "terminal_status st = (st \<in> {Completed, Failed, Stuck})"

definition checkAndHandleStuckJob :: "'s redis_ops \<Rightarrow> int \<Rightarrow> int \<Rightarrow> string \<Rightarrow> ('s, bool) io" where
  "checkAndHandleStuckJob R stuckTimeoutMs now progressKey =
     catching
       (thn (r_get R progressKey) (\<lambda>progressData.
          case progressData of None \<Rightarrow> ret False
          | Some v \<Rightarrow>
            (case parse_progress (Some v) of
               Some (Some progress) \<Rightarrow>
                 if terminal_status (jp_status progress) then ret False
                 else
                   (let timeSinceProgress = now - jp_lastProgressAt progress
                    in if timeSinceProgress < stuckTimeoutMs then ret False
                       else thn (markJobAsStuck R now progress timeSinceProgress) (\<lambda>_.
                            thn (releaseLockForStuckJob R progress) (\<lambda>_.
                            thn (publishStuckEvent R progress timeSinceProgress) (\<lambda>_. ret True))))
             | _ \<Rightarrow> throw)))
       (ret False)"

text \<open>The loop over the keys, counting the stuck jobs.\<close>

fun scan_loop :: "'s redis_ops \<Rightarrow> int \<Rightarrow> int \<Rightarrow> string list \<Rightarrow> nat \<Rightarrow> 's \<Rightarrow> nat \<times> 's" where
  "scan_loop R stuckTimeoutMs now [] stuckCount s = (stuckCount, s)"
| "scan_loop R stuckTimeoutMs now (k # ks) stuckCount s =
     (case checkAndHandleStuckJob R stuckTimeoutMs now k s of
        (Some True, s') \<Rightarrow> scan_loop R stuckTimeoutMs now ks (stuckCount + 1) s'
      | (_, s') \<Rightarrow> scan_loop R stuckTimeoutMs now ks stuckCount s')"

text \<open>
  One scan: \<open>progressKeys\<close> is what the \<open>SCAN\<close> cursor loop returns. A scan that finds another one
  running does nothing; the flag is cleared whatever happens.
\<close>

definition scan ::
  "'s redis_ops \<Rightarrow> int \<Rightarrow> ('s, string list) io \<Rightarrow> scanner \<Rightarrow> 's \<Rightarrow> nat \<times> scanner \<times> 's" where
  "scan R now progressKeys c s =
     (if sc_scanning c then (0, c, s)
      else case progressKeys s of
             (None, s1) \<Rightarrow> (0, c\<lparr>sc_scanning := False\<rparr>, s1)
           | (Some keys, s1) \<Rightarrow>
               (case scan_loop R (sc_stuckTimeoutMs c) now keys 0 s1 of
                  (n, s2) \<Rightarrow> (n, c\<lparr>sc_scanning := False\<rparr>, s2)))"

section \<open>Overall progress\<close>

lemma overall_eq:
  assumes "0 < n"
  shows "calculateOverallProgress i n sp = min 100 (js_round ((100 * of_int (i - 1) + sp) / of_int n))"
  using assms by (simp add: calculateOverallProgress_def add_divide_distrib mult.commute)

text \<open>
  The overall progress of a stage of the pipeline is a percentage, it never goes back from one
  stage to a later one or within a stage, and it is 100 when the last stage is complete.
\<close>

theorem overallProgress_sound:
  assumes "1 \<le> i" and "i \<le> n" and "0 \<le> sp" and "sp \<le> 100"
  shows "0 \<le> calculateOverallProgress i n sp \<and> calculateOverallProgress i n sp \<le> 100
     \<and> calculateOverallProgress n n 100 = 100
     \<and> (\<forall>j sq. i < j \<and> j \<le> n \<and> 0 \<le> sq \<or> i = j \<and> sp \<le> sq \<longrightarrow>
          calculateOverallProgress i n sp \<le> calculateOverallProgress j n sq)"
proof -
  have n: "0 < n" using assms by simp
  have nr: "(0 :: rat) < of_int n" using n by simp
  let ?x = "\<lambda>i sp. (100 * of_int (i - 1) + sp) / of_int n :: rat"
  have lo: "(0 :: rat) \<le> ?x i sp" using assms(1,3) nr by simp
  have "js_round 0 \<le> js_round (?x i sp)" using lo by (rule js_round_mono)
  then have "0 \<le> js_round (?x i sp)" using js_round_int [of 0] by simp
  moreover have "calculateOverallProgress n n 100 = 100"
  proof -
    have "?x n 100 = of_int 100" using nr by (simp add: field_simps)
    then have "js_round (?x n 100) = 100" using js_round_int [of 100] by simp
    then show ?thesis using n by (simp add: overall_eq)
  qed
  moreover have "calculateOverallProgress i n sp \<le> calculateOverallProgress j n sq"
    if "i < j \<and> j \<le> n \<and> 0 \<le> sq \<or> i = j \<and> sp \<le> sq" for j sq
  proof -
    have "100 * of_int (i - 1) + sp \<le> 100 * of_int (j - 1) + sq"
    proof (cases "i = j")
      case True
      then show ?thesis using that by auto
    next
      case False
      then have "i \<le> j - 1" "0 \<le> sq" using that by auto
      then have "(of_int i :: rat) \<le> of_int (j - 1)" by (simp only: of_int_le_iff)
      then show ?thesis using assms(4) \<open>0 \<le> sq\<close> by simp
    qed
    then have "?x i sp \<le> ?x j sq" using nr by (intro divide_right_mono) auto
    then have "js_round (?x i sp) \<le> js_round (?x j sq)" by (rule js_round_mono)
    then show ?thesis using n by (simp add: overall_eq)
  qed
  ultimately show ?thesis using n by (auto simp: overall_eq)
qed

theorem overallProgress_sound_witness:
  "0 \<le> calculateOverallProgress 3 11 40 \<and> calculateOverallProgress 3 11 40 \<le> calculateOverallProgress 4 11 0"
proof -
  have p: "(1 :: int) \<le> 3" "(3 :: int) \<le> 11" "(0 :: rat) \<le> 40" "(40 :: rat) \<le> 100" by simp_all
  note t = overallProgress_sound [OF p]
  then have "\<forall>j sq. 3 < j \<and> j \<le> 11 \<and> 0 \<le> sq \<or> 3 = j \<and> 40 \<le> sq \<longrightarrow>
          calculateOverallProgress 3 11 40 \<le> calculateOverallProgress j 11 sq" by blast
  then have "calculateOverallProgress 3 11 40 \<le> calculateOverallProgress 4 11 0"
    by (elim allE [of _ 4] allE [of _ 0]) simp
  with t show ?thesis by blast
qed

section \<open>What the scanner can find\<close>

text \<open>BullMQ accepts the progress; it does not touch the keys.\<close>

definition bull_up :: "'s redis_ops \<Rightarrow> 's bull \<Rightarrow> bool" where
  "bull_up R bull \<longleftrightarrow> (\<forall>n s. fst (bull n s) \<noteq> None \<and> r_view R (snd (bull n s)) = r_view R s)"

text \<open>
  What happens to the progress records, one step at a time: a reporter publishes, completes or
  fails its job, a queued job is announced (with the lifetime that \<open>QueuedJobAnnouncer\<close> gives its
  record), time passes, the scanner checks a record, or anything happens elsewhere.
\<close>

inductive job_step :: "'s redis_ops \<Rightarrow> 's bull \<Rightarrow> 's \<times> int \<Rightarrow> 's \<times> int \<Rightarrow> bool" for R bull where
  publishes: "job_step R bull (s, now) (snd (publishProgress R bull now p s), now)"
| completes: "job_step R bull (s, now) (snd (complete R bull now p s), now)"
| fails: "job_step R bull (s, now) (snd (fail R bull now err p s), now)"
| announces: "jp_lastProgressAt p = now \<Longrightarrow>
    job_step R bull (s, now) (snd (r_setex R (progress_key j) (LOCK_TTL_SECONDS * 1000) (RProgress p) s), now)"
| checks: "job_step R bull (s, now) (snd (checkAndHandleStuckJob R STUCK_TIMEOUT_MS now (progress_key j) s), now)"
| passes: "job_step R bull (s, now) (r_elapse R d s, now + int d)"
| elsewhere: "(\<And>j. r_view R s' (progress_key j) = r_view R s (progress_key j)) \<Longrightarrow>
    job_step R bull (s, now) (s', now)"

inductive_cases job_stepE: "job_step R bull c c'"

text \<open>A record of a job that has not ended was published no longer ago than it has lived.\<close>

definition fresh :: "'s redis_ops \<Rightarrow> 's \<times> int \<Rightarrow> bool" where
  "fresh R c \<longleftrightarrow> (\<forall>j p t. r_view R (fst c) (progress_key j) = Some (RProgress p, t)
     \<longrightarrow> \<not> terminal_status (jp_status p)
     \<longrightarrow> snd c - jp_lastProgressAt p + int t \<le> int (LOCK_TTL_SECONDS * 1000))"

lemma progress_key_inj [simp]: "progress_key i = progress_key j \<longleftrightarrow> i = j"
  by (simp add: progress_key_def)

lemma fresh_update:
  assumes "fresh R (s, now)" and "r_view R s' = (r_view R s)(progress_key j \<mapsto> (RProgress p, t))"
    and "terminal_status (jp_status p) \<or> now - jp_lastProgressAt p + int t \<le> int (LOCK_TTL_SECONDS * 1000)"
  shows "fresh R (s', now)"
  using assms by (auto simp: fresh_def)

lemma fresh_same:
  assumes "fresh R (s, now)" and "\<And>j. r_view R s' (progress_key j) = r_view R s (progress_key j)"
  shows "fresh R (s', now)"
  using assms by (simp add: fresh_def)

context redis
begin

text \<open>With everything up, publishing stores the record, stamped with the present time.\<close>

lemma publish_stores:
  assumes "redis_up R" and "bull_up R bull"
  shows "\<exists>p'. publishProgress R bull now p s = (p', snd (publishProgress R bull now p s))
     \<and> p' = p\<lparr>rp_lastProgressAt := now\<rparr>
     \<and> r_view R (snd (publishProgress R bull now p s))
         = (r_view R s)(progress_key (rp_jobId p) \<mapsto> (RProgress (buildProgressObject p'), LOCK_TTL_SECONDS * 1000))"
proof -
  define p' where "p' = p\<lparr>rp_lastProgressAt := now\<rparr>"
  let ?o = "buildProgressObject p'"
  obtain b s1 where b: "bull (jp_overallProgress ?o) s = (b, s1)" by fastforce
  have b': "b = Some ()" "r_view R s1 = r_view R s"
    using assms(2) b unfolding bull_up_def by (metis fst_conv option.exhaust old.unit.exhaust, metis snd_conv)
  obtain e s2 where e: "r_setex R (progress_key (rp_jobId p)) (LOCK_TTL_SECONDS * 1000) (RProgress ?o) s1 = (e, s2)"
    by fastforce
  have "e \<noteq> None" using assms(1) e unfolding redis_up_def by (metis fst_conv)
  then have e': "e = Some ()"
      "r_view R s2 = (r_view R s)(progress_key (rp_jobId p) \<mapsto> (RProgress ?o, LOCK_TTL_SECONDS * 1000))"
    using setex_view [OF e] b' by auto
  obtain q s3 where q: "r_publish R (EvProgress ?o) s2 = (q, s3)" by fastforce
  have "publishProgress R bull now p s = (p', s3)"
    using b b'(1) e e'(1) q
    by (auto simp: publishProgress_def Let_def io_defs p'_def split: option.splits)
  then show ?thesis using publish_view [OF q] e'(2) by (simp add: p'_def)
qed

lemma pexpire_up:
  assumes "redis_up R" and "r_view R s k = Some (v, t)"
  shows "r_view R (snd (r_pexpire R k u s)) = (r_view R s)(k \<mapsto> (v, u))"
proof -
  obtain r s' where r: "r_pexpire R k u s = (r, s')" by fastforce
  have "r \<noteq> None" using assms(1) r unfolding redis_up_def by (metis fst_conv)
  then show ?thesis using pexpire_view(1) [OF r] assms(2) r by auto
qed

lemma ended_record:
  assumes "redis_up R" and "bull_up R bull" and "fresh R (s, now)" and "terminal_status (rp_status p)"
    and "s1 = snd (publishProgress R bull now p s)" and "s2 = snd (r_publish R ev s1)"
  shows "fresh R (snd (r_pexpire R (progress_key (rp_jobId p)) u s2), now)"
proof -
  let ?k = "progress_key (rp_jobId p)"
  obtain o' where o: "r_view R s1 = (r_view R s)(?k \<mapsto> (RProgress o', LOCK_TTL_SECONDS * 1000))"
    and st: "jp_status o' = rp_status p"
    using publish_stores [OF assms(1,2), of now p s] assms(5)
    by (auto simp: buildProgressObject_def Let_def)
  have v2: "r_view R s2 = r_view R s1" using publish_view assms(6) by (metis prod.collapse)
  have "r_view R (snd (r_pexpire R ?k u s2)) = (r_view R s)(?k \<mapsto> (RProgress o', u))"
    using pexpire_up [OF assms(1), of s2 ?k "RProgress o'" "LOCK_TTL_SECONDS * 1000" u] o v2 by simp
  from fresh_update [OF assms(3) this] st assms(4) show ?thesis by simp
qed

text \<open>A fresh record is not stuck: the check reads it and goes on.\<close>

lemma check_fresh:
  assumes "fresh R (s, now)"
  shows "fst (checkAndHandleStuckJob R STUCK_TIMEOUT_MS now (progress_key j) s) = Some False
     \<and> r_view R (snd (checkAndHandleStuckJob R STUCK_TIMEOUT_MS now (progress_key j) s)) = r_view R s"
proof -
  let ?k = "progress_key j"
  obtain g s1 where g: "r_get R ?k s = (g, s1)" by fastforce
  note v1 = get_view(1) [OF g]
  have young: "now - jp_lastProgressAt p < STUCK_TIMEOUT_MS"
    if "g = Some (Some (RProgress p))" "\<not> terminal_status (jp_status p)" for p
  proof -
    have "\<exists>t. r_view R s ?k = Some (RProgress p, t)" using get_hit [of ?k s "RProgress p" s1] g that(1) by simp
    then obtain t where t: "r_view R s ?k = Some (RProgress p, t)" by blast
    then have "snd (s, now) - jp_lastProgressAt p + int t \<le> int (LOCK_TTL_SECONDS * 1000)"
      using assms that(2) unfolding fresh_def by (metis fst_conv)
    then show ?thesis by (simp add: STUCK_TIMEOUT_MS_def LOCK_TTL_SECONDS_def)
  qed
  have "checkAndHandleStuckJob R STUCK_TIMEOUT_MS now ?k s = (Some False, s1)"
  proof (cases "\<exists>p. g = Some (Some (RProgress p))")
    case True
    then obtain p where p: "g = Some (Some (RProgress p))" by blast
    show ?thesis
      using g young [OF p] by (simp add: checkAndHandleStuckJob_def io_defs p Let_def)
  next
    case False
    then have "g = None \<or> g = Some None \<or> (\<exists>v. g = Some (Some v) \<and> parse_progress (Some v) = None)"
      by (metis not_None_eq parse_progress.simps(3,4) rvalue.exhaust)
    then show ?thesis using g by (auto simp: checkAndHandleStuckJob_def io_defs)
  qed
  with v1 show ?thesis by simp
qed

lemma job_step_fresh:
  assumes "redis_up R" and "bull_up R bull" and "job_step R bull c c'" and "fresh R c"
  shows "fresh R c'"
  using assms(3)
proof (cases rule: job_step.cases)
  case (publishes s now p)
  let ?o = "buildProgressObject (p\<lparr>rp_lastProgressAt := now\<rparr>)"
  have f: "fresh R (s, now)" using assms(4) publishes by simp
  have v: "r_view R (snd (publishProgress R bull now p s))
      = (r_view R s)(progress_key (rp_jobId p) \<mapsto> (RProgress ?o, LOCK_TTL_SECONDS * 1000))"
    using publish_stores [OF assms(1,2), of now p s] by auto
  have "jp_lastProgressAt ?o = now" by (simp add: buildProgressObject_def Let_def)
  then show ?thesis using fresh_update [OF f v] publishes by simp
next
  case (completes s now p)
  let ?p = "p\<lparr>rp_status := Completed, rp_waitingMessage := None, rp_currentStageProgress := 100,
    rp_debounceTimer := False\<rparr>"
  have f: "fresh R (s, now)" using assms(4) completes by simp
  have "terminal_status (rp_status ?p)" by (simp add: terminal_status_def)
  from ended_record [OF assms(1,2) f this refl refl]
  show ?thesis by (simp add: completes complete_def case_prod_beta Let_def)
next
  case (fails s now err p)
  let ?p = "p\<lparr>rp_status := Failed, rp_waitingMessage := None, rp_debounceTimer := False\<rparr>"
  have f: "fresh R (s, now)" using assms(4) fails by simp
  have "terminal_status (rp_status ?p)" by (simp add: terminal_status_def)
  from ended_record [OF assms(1,2) f this refl refl]
  show ?thesis by (simp add: fails fail_def case_prod_beta Let_def)
next
  case (announces p now s j)
  obtain r s' where r: "r_setex R (progress_key j) (LOCK_TTL_SECONDS * 1000) (RProgress p) s = (r, s')"
    by fastforce
  have "r \<noteq> None" using assms(1) r unfolding redis_up_def by (metis fst_conv)
  then have "r_view R s' = (r_view R s)(progress_key j \<mapsto> (RProgress p, LOCK_TTL_SECONDS * 1000))"
    using setex_view [OF r] by blast
  with announces assms(4) r show ?thesis by (auto intro: fresh_update)
next
  case (checks s now j)
  then show ?thesis using check_fresh [of s now j] assms(4) by (auto intro: fresh_same)
next
  case (passes s now d)
  then show ?thesis
    using assms(4) by (fastforce simp: fresh_def elapse_view split: option.splits if_splits)
next
  case (elsewhere s' s now)
  then show ?thesis using assms(4) by (auto intro: fresh_same)
qed

end

text \<open>
  C26: with Redis and BullMQ up, the scanner finds no stuck job. From a server without progress
  records, through any sequence of reports, completions, failures, announcements and delays, every
  check of every record answers false and changes no key: a record lives for 5 minutes after its
  last publication and the scanner waits for 10 minutes without one, so the record of a job that
  has died is gone before it can be judged.
\<close>

theorem scanner_never_fires:
  assumes "redis_laws R" and "redis_up R" and "bull_up R bull"
    and "\<forall>j. r_view R s0 (progress_key j) = None"
    and "(job_step R bull)\<^sup>*\<^sup>* (s0, now0) (s, now)"
  shows "fst (checkAndHandleStuckJob R STUCK_TIMEOUT_MS now (progress_key j) s) = Some False
     \<and> r_view R (snd (checkAndHandleStuckJob R STUCK_TIMEOUT_MS now (progress_key j) s)) = r_view R s"
proof -
  note loc = redis.intro [OF assms(1)]
  have "fresh R (s0, now0)" using assms(4) by (simp add: fresh_def)
  with assms(5) have "fresh R (s, now)"
    by (induction rule: rtranclp_induct) (auto intro: redis.job_step_fresh [OF loc assms(2,3)])
  then show ?thesis by (rule redis.check_fresh [OF loc])
qed

definition demo_reporter :: reporter where
  "demo_reporter = newReporter ''7'' (''r'', ''s'', ''e'', ''w'') Analyze [''adapt-analysis''] 0"

definition bull_ok :: "mem bull" where "bull_ok n s = (Some (), s)"

definition bull_down :: "mem bull" where "bull_down n s = (None, s)"

theorem scanner_never_fires_witness:
  "fst (checkAndHandleStuckJob mem_redis STUCK_TIMEOUT_MS 299999 (progress_key ''7'')
      (r_elapse mem_redis 299999 (snd (publishProgress mem_redis bull_ok 0 demo_reporter empty_mem))))
   = Some False"
proof -
  let ?s = "snd (publishProgress mem_redis bull_ok 0 demo_reporter empty_mem)"
  have up: "redis_up mem_redis" "bull_up mem_redis bull_ok"
    by (auto simp: redis_up_def mem_redis_def bull_up_def bull_ok_def)
  have e: "\<forall>j. r_view mem_redis empty_mem (progress_key j) = None"
    by (simp add: mem_redis_def empty_mem_def)
  have "job_step mem_redis bull_ok (empty_mem, 0) (?s, 0)" by (rule publishes)
  moreover have "job_step mem_redis bull_ok (?s, 0) (r_elapse mem_redis 299999 ?s, 0 + int 299999)"
    by (rule passes)
  ultimately have "(job_step mem_redis bull_ok)\<^sup>*\<^sup>* (empty_mem, 0) (r_elapse mem_redis 299999 ?s, 0 + int 299999)"
    by (meson converse_rtranclp_into_rtranclp rtranclp.rtrancl_refl)
  from scanner_never_fires [OF mem_redis_laws up e this, of "''7''"] show ?thesis by simp
qed

text \<open>
  The scanner does fire when BullMQ refuses the final progress of a job: \<open>complete\<close> then leaves the
  active record in place and still extends it to an hour. Ten minutes later the finished job is
  marked stuck and the lock of its scope is deleted, whoever holds it by then.
\<close>

definition successor_state :: mem where
  "successor_state =
     snd (complete mem_redis bull_down 1 demo_reporter
       (snd (publishProgress mem_redis bull_ok 0 demo_reporter
          (empty_mem\<lparr>m_store := [generateLockKey ''s'' ''e'' ''w''
              \<mapsto> (RLock (request_metadata (demo_request ''8'') 0), 900000)]\<rparr>))))"

lemma completed_job_marked_stuck:
  "fst (checkAndHandleStuckJob mem_redis STUCK_TIMEOUT_MS 600000 (progress_key ''7'')
          (r_elapse mem_redis 600000 successor_state)) = Some True
   \<and> r_view mem_redis (r_elapse mem_redis 600000 successor_state) (generateLockKey ''s'' ''e'' ''w'') \<noteq> None
   \<and> r_view mem_redis (snd (checkAndHandleStuckJob mem_redis STUCK_TIMEOUT_MS 600000 (progress_key ''7'')
          (r_elapse mem_redis 600000 successor_state))) (generateLockKey ''s'' ''e'' ''w'') = None"
  by (simp add: successor_state_def mem_redis_def complete_def publishProgress_def bull_ok_def bull_down_def
      Let_def io_defs demo_reporter_def newReporter_def empty_mem_def checkAndHandleStuckJob_def
      buildProgressObject_def terminal_status_def STUCK_TIMEOUT_MS_def LOCK_TTL_SECONDS_def
      markJobAsStuck_def releaseLockForStuckJob_def publishStuckEvent_def forceReleaseLock_def
      progress_key_def PROGRESS_PREFIX_def generateLockKey_def LOCK_PREFIX_def)

end
