(* ===== verification/Benchmarks.thy ===== *)
theory Benchmarks
  imports Prelude
begin

text \<open>
  Matching SLO benchmarks to a test run (\<open>pipelines/checks/BenchmarkMatcher.ts\<close>). A query of the
  \<open>benchmarks\<close> table is a filter over a list of its rows: the \<open>WHERE\<close> clause the code builds, with
  SQL's comparisons (a null column satisfies none). A column is an option, \<open>None\<close> its null. Of the
  JSONB column \<open>configuration\<close> the keys that the checks read are kept.
\<close>

record test_run =
  tr_test_run_id :: string
  tr_system_under_test_id :: string
  tr_test_environment :: string
  tr_workload :: string
  tr_organization_id :: "string option"
  tr_team_id :: "string option"
  tr_start_time :: "int option"
  tr_end_time :: "int option"
  tr_ramp_up :: "rat option"

record bench_config =
  cf_id :: "int option"
  cf_type :: "string option"
  cf_yAxesFormat :: "string option"
  cf_matchPattern :: "string option"
  cf_invertMatchPattern :: bool

definition empty_config :: bench_config where
  "empty_config = \<lparr>cf_id = None, cf_type = None, cf_yAxesFormat = None, cf_matchPattern = None,
     cf_invertMatchPattern = False\<rparr>"

record bench_row =
  br_id :: string
  br_system_under_test_id :: string
  br_test_environment :: string
  br_workload :: string
  br_dashboard_uid :: string
  br_dashboard_label :: string
  br_application_dashboard_id :: string
  br_configuration :: "bench_config option"
  br_match_pattern :: "string option"
  br_requirement_operator :: "string option"
  br_requirement_value :: "jsval option"
  br_validate_with_default_if_no_data :: "bool option"
  br_validate_with_default_if_no_data_value :: "jsnum option"
  br_average_all :: "bool option"
  br_exclude_ramp_up_time :: "bool option"
  br_panel_title :: "string option"
  br_evaluate_type :: "string option"
  br_metric_unit :: "string option"
  br_valid :: "bool option"
  br_enabled :: "bool option"
  br_benchmark_type :: "string option"
  br_transaction_name :: "string option"
  br_apdex_threshold_ms :: "rat option"
  br_min_apdex_score :: "jsval option"
  br_include_failed_requests :: "bool option"
  br_apdex_min_samples :: "jsval option"
  br_aggregate_metric :: "string option"
  br_aggregate_stat :: "string option"
  br_organization_id :: "string option"

record benchmark =
  bm_id :: string
  bm_system_under_test_id :: string
  bm_test_environment :: string
  bm_workload :: string
  bm_dashboard_uid :: string
  bm_dashboard_label :: string
  bm_application_dashboard_id :: string
  bm_configuration :: "bench_config option"
  bm_requirement_operator :: "string option"
  bm_requirement_value :: "jsval option"
  bm_validate_with_default_if_no_data :: bool
  bm_validate_with_default_if_no_data_value :: "jsnum option"
  bm_average_all :: bool
  bm_exclude_ramp_up_time :: bool
  bm_panel_title :: "string option"
  bm_evaluate_type :: "string option"
  bm_metric_unit :: "string option"
  bm_valid :: bool
  bm_enabled :: bool
  bm_benchmark_type :: string
  bm_transaction_name :: "string option"
  bm_apdex_threshold_ms :: "rat option"
  bm_min_apdex_score :: "jsnum option"
  bm_include_failed_requests :: bool
  bm_apdex_min_samples :: jsnum
  bm_aggregate_metric :: "string option"
  bm_aggregate_stat :: "string option"

text \<open>Truthiness of a string, and of a value that is a number or a string.\<close>

definition truthy_str :: "string option \<Rightarrow> bool" where
  "truthy_str x = (case x of None \<Rightarrow> False | Some s \<Rightarrow> s \<noteq> [])"

definition truthy_num :: "jsnum \<Rightarrow> bool" where
  "truthy_num n = (n \<noteq> JNaN \<and> n \<noteq> JFin 0)"

definition truthy_val :: "jsval option \<Rightarrow> bool" where
  "truthy_val x = (case x of None \<Rightarrow> False | Some (VNum n) \<Rightarrow> truthy_num n | Some (VStr s) \<Rightarrow> s \<noteq> [])"

definition or_str :: "string option \<Rightarrow> string \<Rightarrow> string" where
  "or_str x d = (case x of None \<Rightarrow> d | Some s \<Rightarrow> if s = [] then d else s)"

text \<open>The match pattern of the column, unless the configuration has its own.\<close>

definition withColumnMatchPattern :: "bench_row \<Rightarrow> bench_config option" where
  "withColumnMatchPattern row =
     (let config = (case br_configuration row of None \<Rightarrow> empty_config | Some c \<Rightarrow> c);
          column = br_match_pattern row
      in if column = None \<or> column = Some [] \<or> truthy_str (cf_matchPattern config)
         then br_configuration row
         else Some (config\<lparr>cf_matchPattern := column\<rparr>))"

record metric_filter =
  mf_applicationDashboardId :: "string option"
  mf_panelId :: "int option"
  mf_metricName :: "string option"

text \<open>The clause on the kinds of benchmark.\<close>

definition type_clause :: "bench_row \<Rightarrow> bool" where
  "type_clause r =
     ((case br_benchmark_type r of None \<Rightarrow> ''metric'' | Some t \<Rightarrow> t) = ''metric''
        \<and> (br_requirement_operator r \<noteq> None \<or> br_requirement_value r \<noteq> None)
      \<or> br_benchmark_type r = Some ''apdex'' \<and> br_min_apdex_score r \<noteq> None
      \<or> br_benchmark_type r = Some ''aggregated'' \<and> br_aggregate_metric r \<noteq> None
        \<and> br_requirement_value r \<noteq> None)"

definition where_clause :: "test_run \<Rightarrow> metric_filter option \<Rightarrow> bench_row \<Rightarrow> bool" where
  "where_clause run mf r =
     (br_system_under_test_id r = tr_system_under_test_id run
      \<and> br_test_environment r = tr_test_environment run
      \<and> br_workload r = tr_workload run
      \<and> br_valid r = Some True \<and> br_enabled r = Some True
      \<and> type_clause r
      \<and> (truthy_str (tr_organization_id run) \<longrightarrow>
           br_organization_id r = tr_organization_id run \<or> br_organization_id r = None)
      \<and> (case mf of None \<Rightarrow> True
         | Some f \<Rightarrow>
             (truthy_str (mf_applicationDashboardId f) \<longrightarrow>
                Some (br_application_dashboard_id r) = mf_applicationDashboardId f)
             \<and> (mf_panelId f \<noteq> None \<longrightarrow>
                  (case br_configuration r of None \<Rightarrow> False
                   | Some c \<Rightarrow> cf_id c \<noteq> None \<and> cf_id c = mf_panelId f))))"

text \<open>\<open>parseFloat(String(v))\<close> of a truthy column.\<close>

definition row_to_benchmark :: "bench_row \<Rightarrow> benchmark" where
  "row_to_benchmark r =
     \<lparr>bm_id = br_id r, bm_system_under_test_id = br_system_under_test_id r,
      bm_test_environment = br_test_environment r, bm_workload = br_workload r,
      bm_dashboard_uid = br_dashboard_uid r, bm_dashboard_label = br_dashboard_label r,
      bm_application_dashboard_id = br_application_dashboard_id r,
      bm_configuration = withColumnMatchPattern r,
      bm_requirement_operator = br_requirement_operator r,
      bm_requirement_value = br_requirement_value r,
      bm_validate_with_default_if_no_data = (br_validate_with_default_if_no_data r = Some True),
      bm_validate_with_default_if_no_data_value = br_validate_with_default_if_no_data_value r,
      bm_average_all = (br_average_all r = Some True),
      bm_exclude_ramp_up_time = (br_exclude_ramp_up_time r \<noteq> Some False),
      bm_panel_title = br_panel_title r, bm_evaluate_type = br_evaluate_type r,
      bm_metric_unit = br_metric_unit r,
      bm_valid = (br_valid r \<noteq> Some False), bm_enabled = (br_enabled r \<noteq> Some False),
      bm_benchmark_type = or_str (br_benchmark_type r) ''metric'',
      bm_transaction_name = br_transaction_name r, bm_apdex_threshold_ms = br_apdex_threshold_ms r,
      bm_min_apdex_score = (if truthy_val (br_min_apdex_score r)
                            then map_option val_parseFloat (br_min_apdex_score r) else None),
      bm_include_failed_requests = (br_include_failed_requests r = Some True),
      bm_apdex_min_samples = (case br_apdex_min_samples r of None \<Rightarrow> JFin 50 | Some v \<Rightarrow> val_Number v),
      bm_aggregate_metric = br_aggregate_metric r, bm_aggregate_stat = br_aggregate_stat r\<rparr>"

text \<open>
  A column that is null is null, never \<open>undefined\<close>: the test \<open>requirement_value === undefined\<close> of
  the aggregated branch is false for every row.
\<close>

definition isBenchmarkValid :: "benchmark \<Rightarrow> bool" where
  "isBenchmarkValid b =
     (if \<not> bm_valid b then False
      else if bm_benchmark_type b = ''apdex'' then bm_min_apdex_score b \<noteq> None
      else if bm_benchmark_type b = ''aggregated'' then truthy_str (bm_aggregate_metric b)
      else \<not> (\<not> truthy_str (bm_requirement_operator b) \<and> bm_requirement_value b = None))"

datatype match_error = BenchmarkNotFoundError string string string

definition findMatchingBenchmarks ::
  "bench_row list \<Rightarrow> test_run \<Rightarrow> metric_filter option \<Rightarrow> match_error + benchmark list" where
  "findMatchingBenchmarks benchmarks run mf =
     (let result = filter (where_clause run mf) benchmarks
      in if result = [] then
           Inl (BenchmarkNotFoundError (tr_system_under_test_id run) (tr_test_environment run)
                  (tr_workload run))
         else Inr (filter isBenchmarkValid (map row_to_benchmark result)))"

definition findBenchmarkById :: "bench_row list \<Rightarrow> string \<Rightarrow> benchmark option" where
  "findBenchmarkById benchmarks benchmarkId =
     (case filter (\<lambda>r. br_id r = benchmarkId) benchmarks of
        [] \<Rightarrow> None | row # _ \<Rightarrow> Some (row_to_benchmark row))"

section \<open>Properties\<close>

text \<open>
  \<open>findMatchingBenchmarks\<close> returns only benchmarks that belong to the run: same system,
  environment and workload, enabled and valid, from a row that the run's organization may see, and
  each carries what its kind is judged by (a requirement, an Apdex score or an aggregate metric).
\<close>

theorem findMatchingBenchmarks_sound:
  assumes "findMatchingBenchmarks rows run mf = Inr bs" and "b \<in> set bs"
  shows "bm_system_under_test_id b = tr_system_under_test_id run
     \<and> bm_test_environment b = tr_test_environment run \<and> bm_workload b = tr_workload run
     \<and> bm_valid b \<and> bm_enabled b
     \<and> (\<exists>r \<in> set rows. b = row_to_benchmark r
          \<and> (br_organization_id r = None \<or> \<not> truthy_str (tr_organization_id run)
             \<or> br_organization_id r = tr_organization_id run))
     \<and> (if bm_benchmark_type b = ''apdex'' then bm_min_apdex_score b \<noteq> None
        else if bm_benchmark_type b = ''aggregated''
             then truthy_str (bm_aggregate_metric b) \<and> bm_requirement_value b \<noteq> None
        else bm_benchmark_type b = ''metric''
             \<and> (truthy_str (bm_requirement_operator b) \<or> bm_requirement_value b \<noteq> None))"
proof -
  obtain r where r: "r \<in> set rows" "where_clause run mf r" "b = row_to_benchmark r" "isBenchmarkValid b"
    using assms by (auto simp: findMatchingBenchmarks_def Let_def split: if_splits)
  have t: "type_clause r" using r(2) by (simp add: where_clause_def)
  have k: "if bm_benchmark_type b = ''apdex'' then bm_min_apdex_score b \<noteq> None
        else if bm_benchmark_type b = ''aggregated''
             then truthy_str (bm_aggregate_metric b) \<and> bm_requirement_value b \<noteq> None
        else bm_benchmark_type b = ''metric''
             \<and> (truthy_str (bm_requirement_operator b) \<or> bm_requirement_value b \<noteq> None)"
    using t r(3,4)
    by (auto simp: type_clause_def isBenchmarkValid_def row_to_benchmark_def or_str_def
        split: option.splits if_splits)
  have o: "br_organization_id r = None \<or> \<not> truthy_str (tr_organization_id run)
             \<or> br_organization_id r = tr_organization_id run"
    using r(2) by (auto simp: where_clause_def)
  have "bm_system_under_test_id b = tr_system_under_test_id run"
    "bm_test_environment b = tr_test_environment run" "bm_workload b = tr_workload run"
    "bm_valid b" "bm_enabled b"
    using r(2,3) by (auto simp: where_clause_def row_to_benchmark_def)
  with k o r(1,3) show ?thesis by blast
qed

definition demo_row :: bench_row where
  "demo_row = \<lparr>br_id = ''b'', br_system_under_test_id = ''s'', br_test_environment = ''e'',
     br_workload = ''w'', br_dashboard_uid = ''u'', br_dashboard_label = ''l'',
     br_application_dashboard_id = ''d'', br_configuration = None, br_match_pattern = Some ''x'',
     br_requirement_operator = Some ''lt'', br_requirement_value = Some (VStr ''5''),
     br_validate_with_default_if_no_data = None, br_validate_with_default_if_no_data_value = None,
     br_average_all = None, br_exclude_ramp_up_time = None, br_panel_title = None,
     br_evaluate_type = None, br_metric_unit = None, br_valid = Some True, br_enabled = Some True,
     br_benchmark_type = None, br_transaction_name = None, br_apdex_threshold_ms = None,
     br_min_apdex_score = None, br_include_failed_requests = None, br_apdex_min_samples = None,
     br_aggregate_metric = None, br_aggregate_stat = None, br_organization_id = None\<rparr>"

definition demo_run :: test_run where
  "demo_run = \<lparr>tr_test_run_id = ''r'', tr_system_under_test_id = ''s'', tr_test_environment = ''e'',
     tr_workload = ''w'', tr_organization_id = Some ''o'', tr_team_id = None, tr_start_time = None,
     tr_end_time = None, tr_ramp_up = None\<rparr>"

theorem findMatchingBenchmarks_sound_witness:
  "\<exists>b. findMatchingBenchmarks [demo_row, demo_row\<lparr>br_enabled := Some False\<rparr>] demo_run None = Inr [b]
     \<and> bm_workload b = ''w'' \<and> bm_configuration b = Some (empty_config\<lparr>cf_matchPattern := Some ''x''\<rparr>)"
proof -
  have f: "findMatchingBenchmarks [demo_row, demo_row\<lparr>br_enabled := Some False\<rparr>] demo_run None
      = Inr [row_to_benchmark demo_row]"
    by (simp add: findMatchingBenchmarks_def where_clause_def type_clause_def demo_row_def demo_run_def
        isBenchmarkValid_def row_to_benchmark_def truthy_str_def or_str_def)
  have "bm_workload (row_to_benchmark demo_row) = ''w''"
    using findMatchingBenchmarks_sound [OF f, of "row_to_benchmark demo_row"] by (simp add: demo_run_def)
  moreover have "bm_configuration (row_to_benchmark demo_row) = Some (empty_config\<lparr>cf_matchPattern := Some ''x''\<rparr>)"
    by (simp add: row_to_benchmark_def withColumnMatchPattern_def demo_row_def empty_config_def truthy_str_def)
  ultimately show ?thesis using f by blast
qed

end
