(* ===== verification/Requirement.thy ===== *)
theory Requirement
  imports Benchmarks
begin

text \<open>
  Judging the values of a check against the requirement of its SLO:
  \<open>pipelines/checks/requirement-operator.ts\<close> and \<open>pipelines/checks/RequirementChecker.ts\<close>.

  The check of a match pattern (\<open>validateRegexPattern\<close> of the shared package, then \<open>RegExp.test\<close>)
  is an argument: it maps a pattern to its test, or to \<open>None\<close> when the pattern is rejected.
  \<open>saveCheckResult\<close> is part of the checks pipeline. Messages are ASCII: a long dash is a hyphen.
\<close>

section \<open>Operators\<close>

definition evaluateRequirement :: "jsval \<Rightarrow> string \<Rightarrow> jsval \<Rightarrow> bool option" where
  "evaluateRequirement value operator threshold =
     (let v = val_Number value; t = val_Number threshold in
      if \<not> js_isFinite v \<or> \<not> js_isFinite t then None
      else
        let op = toLowerCase (js_trim operator) in
        if op \<in> {''lt'', ''<''} then Some (js_lt v t)
        else if op \<in> {''lte'', ''le'', ''<=''} then Some (js_le v t)
        else if op \<in> {''gt'', ''>''} then Some (js_gt v t)
        else if op \<in> {''gte'', ''ge'', ''>=''} then Some (js_ge v t)
        else if op \<in> {''eq'', ''='', ''==''} then Some (js_eq v t)
        else if op \<in> {''ne'', ''!='', ''<>''} then Some (\<not> js_eq v t)
        else None)"

section \<open>The checker\<close>

record metric_target =
  mt_target :: string
  mt_value :: "jsnum option"
  mt_isArtificial :: bool
  mt_weakTrend :: bool
  mt_trendCorr :: "jsnum option option"

record aggregation_result =
  ar_panel_average :: "jsnum option"
  ar_targets :: "metric_target list"

record check_target =
  ct_target :: string
  ct_value :: "jsnum option"
  ct_meets_requirement :: "bool option"
  ct_is_artificial :: bool
  ct_weak_trend :: bool
  ct_trend_corr :: "jsnum option option"

text \<open>\<open>cr_requirement\<close> and \<open>cr_invert_match_pattern\<close> are the two parts of the requirement JSON.\<close>

record check_result =
  cr_system_under_test_id :: string
  cr_organization_id :: string
  cr_team_id :: "string option"
  cr_test_environment :: string
  cr_workload :: string
  cr_test_run_id :: string
  cr_dashboard_label :: string
  cr_dashboard_uid :: string
  cr_application_dashboard_id :: string
  cr_panel_title :: string
  cr_panel_id :: "int option"
  cr_panel_type :: string
  cr_panel_y_axes_format :: "string option"
  cr_metric_unit :: "string option"
  cr_benchmark_id :: string
  cr_status :: string
  cr_message :: string
  cr_average_all :: bool
  cr_evaluate_type :: string
  cr_exclude_ramp_up_time :: bool
  cr_ramp_up :: rat
  cr_match_pattern :: "string option"
  cr_requirement :: "(string \<times> jsnum) option"
  cr_invert_match_pattern :: bool
  cr_panel_average :: "jsnum option"
  cr_meets_requirement :: "bool option"
  cr_targets :: "check_target list"
  cr_validate_with_default_if_no_data :: bool
  cr_validate_with_default_if_no_data_value :: jsnum

definition hasValidRequirement :: "benchmark \<Rightarrow> bool" where
  "hasValidRequirement b = (bm_requirement_operator b \<noteq> None \<or> bm_requirement_value b \<noteq> None)"

definition checkRequirement :: "jsnum \<Rightarrow> benchmark \<Rightarrow> bool" where
  "checkRequirement value b =
     (if \<not> hasValidRequirement b then True
      else if \<not> truthy_str (bm_requirement_operator b) \<or> bm_requirement_value b = None then True
      else
        let thresholdFloat = val_parseFloat (the (bm_requirement_value b)) in
        if thresholdFloat = JNaN then True
        else case evaluateRequirement (VNum value) (the (bm_requirement_operator b)) (VNum thresholdFloat) of
               None \<Rightarrow> True
             | Some met \<Rightarrow> met)"

definition createTargetResult :: "metric_target \<Rightarrow> benchmark \<Rightarrow> check_target" where
  "createTargetResult t b =
     \<lparr>ct_target = mt_target t, ct_value = mt_value t,
      ct_meets_requirement =
        (if mt_weakTrend t then Some True
         else if mt_value t \<noteq> None \<and> hasValidRequirement b
         then Some (checkRequirement (the (mt_value t)) b) else None),
      ct_is_artificial = False, ct_weak_trend = mt_weakTrend t, ct_trend_corr = mt_trendCorr t\<rparr>"

definition convertRequirement :: "benchmark \<Rightarrow> (string \<times> jsnum) option" where
  "convertRequirement b =
     (if \<not> hasValidRequirement b then None
      else if \<not> truthy_str (bm_requirement_operator b) \<or> bm_requirement_value b = None then None
      else Some (the (bm_requirement_operator b), val_parseFloat (the (bm_requirement_value b))))"

definition generateStatusMessage :: "bool \<Rightarrow> check_target list \<Rightarrow> string" where
  "generateStatusMessage meetsRequirement targets =
     (if targets = [] then ''No targets found for processing''
      else if meetsRequirement then ''All '' @ show_nat (length targets) @ '' targets meet requirements''
      else show_nat (length (filter (\<lambda>t. ct_meets_requirement t = Some False) targets)) @ '' of ''
             @ show_nat (length targets) @ '' targets failed requirements'')"

definition stripPanelTitlePrefix :: "string \<Rightarrow> string" where
  "stripPanelTitlePrefix title =
     (if title = [] then title
      else if CHR ''-'' \<in> set title then
        (let p = js_trim (take 2 (split_on CHR ''-'' title) ! 1) in if p = [] then title else p)
      else title)"

text \<open>The loop over the targets: the results so far and whether all of them hold.\<close>

fun judge_targets ::
  "(string \<Rightarrow> bool) option \<Rightarrow> bool \<Rightarrow> benchmark \<Rightarrow> metric_target list \<Rightarrow> check_target list \<times> bool
     \<Rightarrow> check_target list \<times> bool" where
  "judge_targets regex invert b [] acc = acc"
| "judge_targets regex invert b (t # ts) (results, overall) =
     (let r0 = createTargetResult t b;
          r1 = (case regex of
                  Some test \<Rightarrow> if test (mt_target t) = invert then r0\<lparr>ct_meets_requirement := None\<rparr> else r0
                | None \<Rightarrow> r0);
          r2 = (if mt_isArtificial t then r1\<lparr>ct_is_artificial := True\<rparr> else r1)
      in judge_targets regex invert b ts
           (results @ [r2], if ct_meets_requirement r2 = Some False then False else overall))"

definition config_matchPattern :: "benchmark \<Rightarrow> string option" where
  "config_matchPattern b = (case bm_configuration b of None \<Rightarrow> None | Some c \<Rightarrow> cf_matchPattern c)"

definition config_invert :: "benchmark \<Rightarrow> bool" where
  "config_invert b = (case bm_configuration b of None \<Rightarrow> False | Some c \<Rightarrow> cf_invertMatchPattern c)"

definition pattern_test :: "(string \<Rightarrow> (string \<Rightarrow> bool) option) \<Rightarrow> benchmark \<Rightarrow> (string \<Rightarrow> bool) option" where
  "pattern_test validateRegexPattern b =
     (if truthy_str (config_matchPattern b) then validateRegexPattern (the (config_matchPattern b))
      else None)"

datatype check_error = RequirementCheckError string

definition createCheckResult ::
  "(string \<Rightarrow> (string \<Rightarrow> bool) option) \<Rightarrow> test_run \<Rightarrow> benchmark \<Rightarrow> aggregation_result
     \<Rightarrow> check_error + check_result option" where
  "createCheckResult validateRegexPattern run b agg =
     (if \<not> hasValidRequirement b then Inr None
      else
        let config = bm_configuration b;
            matchPattern = config_matchPattern b;
            invert = config_invert b;
            regex = pattern_test validateRegexPattern b;
            (results, overall0) = judge_targets regex invert b (ar_targets agg) ([], True);
            panelMeets = (if bm_average_all b \<and> ar_panel_average agg \<noteq> None \<and> hasValidRequirement b
                          then Some (checkRequirement (the (ar_panel_average agg)) b) else None);
            overall = (if panelMeets = Some False then False else overall0);
            anyJudged = ((\<exists>t \<in> set results. ct_meets_requirement t \<noteq> None) \<or> panelMeets \<noteq> None);
            message = (if anyJudged \<or> results = [] then generateStatusMessage overall results
                       else ''None of the '' @ show_nat (length results) @ '' targets could be evaluated'')
        in if \<not> truthy_str (tr_organization_id run) then
             Inl (RequirementCheckError (''Failed to create check result for benchmark '' @ bm_id b
               @ '': Error: test run '' @ tr_test_run_id run
               @ '' has no organization_id - backfill test_runs before re-evaluating checks''))
           else Inr (Some
             \<lparr>cr_system_under_test_id = tr_system_under_test_id run,
              cr_organization_id = the (tr_organization_id run), cr_team_id = tr_team_id run,
              cr_test_environment = tr_test_environment run, cr_workload = tr_workload run,
              cr_test_run_id = tr_test_run_id run, cr_dashboard_label = bm_dashboard_label b,
              cr_dashboard_uid = bm_dashboard_uid b,
              cr_application_dashboard_id = bm_application_dashboard_id b,
              cr_panel_title = stripPanelTitlePrefix (or_str (bm_panel_title b) []),
              cr_panel_id = (case config of None \<Rightarrow> None | Some c \<Rightarrow> cf_id c),
              cr_panel_type = (case config of None \<Rightarrow> ''graph'' | Some c \<Rightarrow> or_str (cf_type c) ''graph''),
              cr_panel_y_axes_format = (case config of None \<Rightarrow> None | Some c \<Rightarrow> cf_yAxesFormat c),
              cr_metric_unit = (if truthy_str (bm_metric_unit b) then bm_metric_unit b else None),
              cr_benchmark_id = bm_id b,
              cr_status = (if results = [] then ''ERROR'' else ''COMPLETE''),
              cr_message = message, cr_average_all = bm_average_all b,
              cr_evaluate_type = or_str (bm_evaluate_type b) ''mean'',
              cr_exclude_ramp_up_time = bm_exclude_ramp_up_time b,
              cr_ramp_up = (case tr_ramp_up run of None \<Rightarrow> 0 | Some x \<Rightarrow> x),
              cr_match_pattern = (if truthy_str matchPattern then matchPattern else None),
              cr_requirement = convertRequirement b, cr_invert_match_pattern = invert,
              cr_panel_average = ar_panel_average agg,
              cr_meets_requirement = (if results \<noteq> [] \<and> anyJudged then Some overall else None),
              cr_targets = results,
              cr_validate_with_default_if_no_data = bm_validate_with_default_if_no_data b,
              cr_validate_with_default_if_no_data_value =
                (case bm_validate_with_default_if_no_data_value b of
                   Some n \<Rightarrow> if truthy_num n then n else JFin 0 | None \<Rightarrow> JFin 0)\<rparr>))"

section \<open>Lemmas\<close>

definition judge_one :: "(string \<Rightarrow> bool) option \<Rightarrow> bool \<Rightarrow> benchmark \<Rightarrow> metric_target \<Rightarrow> check_target" where
  "judge_one regex invert b t =
     (createTargetResult t b)
       \<lparr>ct_meets_requirement :=
          (case regex of
             None \<Rightarrow> ct_meets_requirement (createTargetResult t b)
           | Some test \<Rightarrow> if test (mt_target t) = invert then None
                         else ct_meets_requirement (createTargetResult t b)),
        ct_is_artificial := mt_isArtificial t\<rparr>"

lemma judge_targets_map:
  "judge_targets regex invert b ts (acc, ov) =
     (acc @ map (judge_one regex invert b) ts,
      ov \<and> (\<forall>t \<in> set ts. ct_meets_requirement (judge_one regex invert b t) \<noteq> Some False))"
proof (induction ts arbitrary: acc ov)
  case Nil
  then show ?case by simp
next
  case (Cons t ts)
  have "(let r0 = createTargetResult t b;
          r1 = (case regex of
                  Some test \<Rightarrow> if test (mt_target t) = invert then r0\<lparr>ct_meets_requirement := None\<rparr> else r0
                | None \<Rightarrow> r0)
      in if mt_isArtificial t then r1\<lparr>ct_is_artificial := True\<rparr> else r1) = judge_one regex invert b t"
    by (cases regex) (auto simp: judge_one_def createTargetResult_def Let_def)
  then show ?case by (auto simp: Let_def Cons.IH)
qed

lemma toLowerCase_cons [simp]: "toLowerCase (c # s) = lower c # toLowerCase s" "toLowerCase [] = []"
  by (simp_all add: toLowerCase_def)

text \<open>The twelve known spellings of the six operators.\<close>

datatype cmp = CLt | CLe | CGt | CGe | CEq | CNe

definition cmp_of :: "string \<Rightarrow> cmp option" where
  "cmp_of operator = map_of
     [(''lt'', CLt), (''<'', CLt), (''lte'', CLe), (''le'', CLe), (''<='', CLe), (''gt'', CGt), (''>'', CGt),
      (''gte'', CGe), (''ge'', CGe), (''>='', CGe), (''eq'', CEq), (''='', CEq), (''=='', CEq),
      (''ne'', CNe), (''!='', CNe), (''<>'', CNe)] (toLowerCase (js_trim operator))"

fun cmp_sem :: "cmp \<Rightarrow> rat \<Rightarrow> rat \<Rightarrow> bool" where
  "cmp_sem CLt v t = (v < t)"
| "cmp_sem CLe v t = (v \<le> t)"
| "cmp_sem CGt v t = (t < v)"
| "cmp_sem CGe v t = (t \<le> v)"
| "cmp_sem CEq v t = (v = t)"
| "cmp_sem CNe v t = (v \<noteq> t)"

text \<open>The fields of a result that carry the verdict.\<close>

definition panel_verdict :: "benchmark \<Rightarrow> aggregation_result \<Rightarrow> bool option" where
  "panel_verdict b agg =
     (if bm_average_all b \<and> ar_panel_average agg \<noteq> None
      then Some (checkRequirement (the (ar_panel_average agg)) b) else None)"

definition judged_targets ::
  "(string \<Rightarrow> (string \<Rightarrow> bool) option) \<Rightarrow> benchmark \<Rightarrow> aggregation_result \<Rightarrow> check_target list" where
  "judged_targets validate b agg =
     map (judge_one (pattern_test validate b) (config_invert b) b) (ar_targets agg)"

lemma createCheckResult_exists:
  assumes "hasValidRequirement b" and "truthy_str (tr_organization_id run)"
  shows "\<exists>cr. createCheckResult validate run b agg = Inr (Some cr)"
  using assms by (simp add: createCheckResult_def Let_def judge_targets_map)

lemma createCheckResult_fields:
  assumes "createCheckResult validate run b agg = Inr (Some cr)"
  shows "cr_targets cr = judged_targets validate b agg"
    and "cr_status cr = (if ar_targets agg = [] then ''ERROR'' else ''COMPLETE'')"
    and "cr_meets_requirement cr =
      (if ar_targets agg \<noteq> []
          \<and> ((\<exists>t \<in> set (judged_targets validate b agg). ct_meets_requirement t \<noteq> None)
             \<or> panel_verdict b agg \<noteq> None)
       then Some (panel_verdict b agg \<noteq> Some False
          \<and> (\<forall>t \<in> set (judged_targets validate b agg). ct_meets_requirement t \<noteq> Some False))
       else None)"
proof -
  have v: "hasValidRequirement b" and o: "truthy_str (tr_organization_id run)"
    using assms by (auto simp: createCheckResult_def Let_def split: if_splits prod.splits)
  note get = arg_cong [OF assms, of "\<lambda>x. f (the (projr x))" for f]
  show "cr_targets cr = judged_targets validate b agg"
    using get [of cr_targets] v o
    by (simp add: createCheckResult_def Let_def judge_targets_map judged_targets_def)
  show "cr_status cr = (if ar_targets agg = [] then ''ERROR'' else ''COMPLETE'')"
    using get [of cr_status] v o by (simp add: createCheckResult_def Let_def judge_targets_map)
  define ov where "ov = (\<forall>t \<in> set (ar_targets agg).
    ct_meets_requirement (judge_one (pattern_test validate b) (config_invert b) b t) \<noteq> Some False)"
  define an where "an = (\<exists>t \<in> set (ar_targets agg).
    ct_meets_requirement (judge_one (pattern_test validate b) (config_invert b) b t) \<noteq> None)"
  have "cr_meets_requirement cr =
      (if ar_targets agg \<noteq> [] \<and> (an \<or> panel_verdict b agg \<noteq> None)
       then Some (if panel_verdict b agg = Some False then False else ov) else None)"
    using get [of cr_meets_requirement] v o
    by (simp add: createCheckResult_def Let_def judge_targets_map an_def ov_def panel_verdict_def
        cong: if_cong split del: if_split)
  then show "cr_meets_requirement cr =
      (if ar_targets agg \<noteq> []
          \<and> ((\<exists>t \<in> set (judged_targets validate b agg). ct_meets_requirement t \<noteq> None)
             \<or> panel_verdict b agg \<noteq> None)
       then Some (panel_verdict b agg \<noteq> Some False
          \<and> (\<forall>t \<in> set (judged_targets validate b agg). ct_meets_requirement t \<noteq> Some False))
       else None)"
    by (auto simp: ov_def an_def judged_targets_def)
qed

section \<open>Properties\<close>

text \<open>
  \<open>evaluateRequirement\<close> decides exactly the six comparisons. It answers for a finite value, a
  finite threshold and a known spelling of an operator, whether the two come as numbers or as the
  strings that NUMERIC columns are read as, and its answer is the comparison of the two numbers;
  in every other case it answers null.
\<close>

theorem evaluateRequirement_spec:
  "evaluateRequirement value operator threshold =
     (case (val_Number value, cmp_of operator, val_Number threshold) of
        (JFin v, Some c, JFin t) \<Rightarrow> Some (cmp_sem c v t)
      | _ \<Rightarrow> None)"
proof (cases "js_isFinite (val_Number value) \<and> js_isFinite (val_Number threshold)")
  case True
  then obtain v t where vt: "val_Number value = JFin v" "val_Number threshold = JFin t"
    by (auto simp: js_isFinite_iff)
  show ?thesis
    unfolding evaluateRequirement_def cmp_of_def Let_def vt
    by (auto simp: js_isFinite_iff)
next
  case False
  then show ?thesis
    by (cases "val_Number value"; cases "val_Number threshold")
      (auto simp: evaluateRequirement_def Let_def split: option.splits)
qed

text \<open>
  C19: the verdict of a check. It is null exactly when there are no targets or nothing was judged, it is
  false exactly when there are targets and a judged target, or the judged panel average, fails,
  and a target that the match pattern filters out is never judged.
\<close>

theorem createCheckResult_verdict:
  assumes "createCheckResult validate run b agg = Inr (Some cr)"
  shows "(cr_meets_requirement cr = None \<longleftrightarrow>
            ar_targets agg = []
            \<or> (\<forall>t \<in> set (cr_targets cr). ct_meets_requirement t = None)
              \<and> (\<not> bm_average_all b \<or> ar_panel_average agg = None))
       \<and> (cr_meets_requirement cr = Some False \<longleftrightarrow>
            ar_targets agg \<noteq> []
            \<and> ((\<exists>t \<in> set (cr_targets cr). ct_meets_requirement t = Some False)
               \<or> bm_average_all b \<and> (\<exists>a. ar_panel_average agg = Some a \<and> \<not> checkRequirement a b)))
       \<and> (cr_status cr = ''ERROR'' \<longleftrightarrow> ar_targets agg = [])
       \<and> map ct_target (cr_targets cr) = map mt_target (ar_targets agg)
       \<and> (\<forall>c p test t. bm_configuration b = Some c \<longrightarrow> cf_matchPattern c = Some p \<longrightarrow> p \<noteq> [] \<longrightarrow>
            validate p = Some test \<longrightarrow> t \<in> set (cr_targets cr) \<longrightarrow>
            test (ct_target t) = cf_invertMatchPattern c \<longrightarrow> ct_meets_requirement t = None)"
proof -
  note f = createCheckResult_fields [OF assms]
  have names: "map ct_target (judged_targets validate b agg) = map mt_target (ar_targets agg)"
    by (simp add: judged_targets_def judge_one_def createTargetResult_def)
  have excl: "ct_meets_requirement t = None"
    if "bm_configuration b = Some c" "cf_matchPattern c = Some p" "p \<noteq> []" "validate p = Some test"
      "t \<in> set (judged_targets validate b agg)" "test (ct_target t) = cf_invertMatchPattern c" for c p test t
    using that
    by (auto simp: judged_targets_def judge_one_def createTargetResult_def pattern_test_def
        config_matchPattern_def config_invert_def truthy_str_def)
  show ?thesis
    unfolding f panel_verdict_def using names excl by auto
qed

definition demo_target :: "string \<Rightarrow> rat \<Rightarrow> metric_target" where
  "demo_target n v = \<lparr>mt_target = n, mt_value = Some (JFin v), mt_isArtificial = False, mt_weakTrend = False,
     mt_trendCorr = None\<rparr>"

theorem createCheckResult_verdict_witness:
  "\<exists>cr. createCheckResult (\<lambda>p. Some (\<lambda>s. s = p)) demo_run (row_to_benchmark demo_row)
          \<lparr>ar_panel_average = Some (JFin 4), ar_targets = [demo_target ''x'' 9, demo_target ''y'' 8]\<rparr>
        = Inr (Some cr)
     \<and> cr_meets_requirement cr = Some False \<and> map ct_meets_requirement (cr_targets cr) = [Some False, None]"
proof -
  let ?b = "row_to_benchmark demo_row"
  let ?agg = "\<lparr>ar_panel_average = Some (JFin 4), ar_targets = [demo_target ''x'' 9, demo_target ''y'' 8]\<rparr>"
  have "hasValidRequirement ?b" "truthy_str (tr_organization_id demo_run)"
    by (simp_all add: hasValidRequirement_def row_to_benchmark_def demo_row_def demo_run_def truthy_str_def)
  then obtain cr where c: "createCheckResult (\<lambda>p. Some (\<lambda>s. s = p)) demo_run ?b ?agg = Inr (Some cr)"
    using createCheckResult_exists by blast
  have "map ct_meets_requirement (judged_targets (\<lambda>p. Some (\<lambda>s. s = p)) ?b ?agg) = [Some False, None]"
    by code_simp
  then have m: "map ct_meets_requirement (cr_targets cr) = [Some False, None]"
    by (simp only: createCheckResult_fields(1) [OF c])
  then have "Some False \<in> ct_meets_requirement ` set (cr_targets cr)"
    by (metis list.set_intros(1) list.set_map)
  with createCheckResult_verdict [OF c] c m show ?thesis by auto
qed

text \<open>The part of a panel title after its second hyphen is lost.\<close>

lemma stripPanelTitlePrefix_example:
  "stripPanelTitlePrefix ''101-Response-time p95'' = ''Response''"
  by (simp add: stripPanelTitlePrefix_def js_trim_def trim_start_def is_space_def code_def)

end
