(* ===== verification/RunWindow.thy ===== *)
theory RunWindow
  imports Prelude
begin

text \<open>
  Time bounds for reading a run's raw samples (\<open>packages/shared/src/database/run-window.ts\<close>):
  the analysis window of a run, the span of several runs, the SQL predicate, and the widening to
  chunk boundaries with its cache. A \<open>Date\<close> is its epoch milliseconds; the catalog query is an
  argument that may throw.
\<close>

section \<open>Bounds of a run\<close>

definition RUN_WINDOW_PAD_MS :: int where "RUN_WINDOW_PAD_MS = 60 * 60 * 1000"

record times_row =
  tw_start_time :: "int option"
  tw_end_time :: "int option"
  tw_ramp_up :: "jsval option"
  tw_ramp_down :: "jsval option"

record bounds =
  startCutoff :: "int option"
  endCutoff :: "int option"
  endExclusive :: bool

text \<open>\<open>parseInt(s, 10)\<close>.\<close>

definition js_parseInt :: "string \<Rightarrow> jsnum" where
  "js_parseInt s =
     (let t = trim_start s;
          (neg, r) = (case t of c # cs \<Rightarrow> if c = CHR ''-'' then (True, cs)
                                          else if c = CHR ''+'' then (False, cs) else (False, t)
                      | [] \<Rightarrow> (False, []));
          ds = takeWhile is_digit r
      in if ds = [] then JNaN
         else if neg then js_neg (to_double (of_int (int (digits_val ds))))
         else to_double (of_int (int (digits_val ds))))"

definition seconds :: "jsval option \<Rightarrow> rat" where
  "seconds v =
     (let n = (case v of Some (VNum x) \<Rightarrow> x | Some (VStr s) \<Rightarrow> js_parseInt s | None \<Rightarrow> JNaN)
      in case n of JFin q \<Rightarrow> if 0 < q then q else 0 | _ \<Rightarrow> 0)"

text \<open>A \<open>Date\<close> built from a fraction of a millisecond truncates it.\<close>

definition js_trunc :: "rat \<Rightarrow> int" where
  "js_trunc q = (if 0 \<le> q then \<lfloor>q\<rfloor> else \<lceil>q\<rceil>)"

definition analysisBoundsFromRow :: "times_row option \<Rightarrow> bool \<Rightarrow> bounds" where
  "analysisBoundsFromRow row excludeRampUp =
     (let startTime = (case row of None \<Rightarrow> None | Some r \<Rightarrow> tw_start_time r);
          endTime = (case row of None \<Rightarrow> None | Some r \<Rightarrow> tw_end_time r);
          s0 = map_option (\<lambda>t. t - RUN_WINDOW_PAD_MS) startTime;
          e0 = map_option (\<lambda>t. t + RUN_WINDOW_PAD_MS) endTime
      in if excludeRampUp then
           (let rampUp = seconds (case row of None \<Rightarrow> None | Some r \<Rightarrow> tw_ramp_up r);
                rampDown = seconds (case row of None \<Rightarrow> None | Some r \<Rightarrow> tw_ramp_down r)
            in \<lparr>startCutoff = (case startTime of
                    Some t \<Rightarrow> if 0 < rampUp then Some (js_trunc (of_int t + rampUp * 1000)) else s0
                  | None \<Rightarrow> s0),
                endCutoff = (case endTime of
                    Some t \<Rightarrow> if 0 < rampDown then Some (js_trunc (of_int t - rampDown * 1000)) else e0
                  | None \<Rightarrow> e0),
                endExclusive = False\<rparr>)
         else \<lparr>startCutoff = s0, endCutoff = e0, endExclusive = False\<rparr>)"

text \<open>The entity names the same four columns differently.\<close>

record times_entity =
  te_startTime :: "int option"
  te_endTime :: "int option"
  te_analysisStartOffset :: "jsval option"
  te_analysisEndOffset :: "jsval option"

definition analysisBoundsFromEntity :: "times_entity option \<Rightarrow> bool \<Rightarrow> bounds" where
  "analysisBoundsFromEntity run excludeRampUp =
     analysisBoundsFromRow
       (Some (case run of
          None \<Rightarrow> \<lparr>tw_start_time = None, tw_end_time = None, tw_ramp_up = None, tw_ramp_down = None\<rparr>
        | Some e \<Rightarrow> \<lparr>tw_start_time = te_startTime e, tw_end_time = te_endTime e,
                     tw_ramp_up = te_analysisStartOffset e, tw_ramp_down = te_analysisEndOffset e\<rparr>))
       excludeRampUp"

section \<open>Span of several runs\<close>

fun span_start :: "bounds list \<Rightarrow> int option \<Rightarrow> int option option" where
  "span_start [] acc = Some acc"
| "span_start (b # bs) acc =
     (case startCutoff b of
        None \<Rightarrow> None
      | Some s \<Rightarrow> span_start bs (case acc of None \<Rightarrow> Some s | Some a \<Rightarrow> if s < a then Some s else Some a))"

fun span_end :: "bounds list \<Rightarrow> int option \<Rightarrow> int option option" where
  "span_end [] acc = Some acc"
| "span_end (b # bs) acc =
     (case endCutoff b of
        None \<Rightarrow> None
      | Some e \<Rightarrow> span_end bs (case acc of None \<Rightarrow> Some e | Some a \<Rightarrow> if a < e then Some e else Some a))"

definition open_bounds :: bounds where
  "open_bounds = \<lparr>startCutoff = None, endCutoff = None, endExclusive = False\<rparr>"

definition spanBounds :: "bounds list \<Rightarrow> bounds" where
  "spanBounds all =
     (if all = [] then open_bounds
      else case span_start all None of
             None \<Rightarrow> open_bounds
           | Some s \<Rightarrow>
               (case span_end all None of
                  None \<Rightarrow> \<lparr>startCutoff = s, endCutoff = None, endExclusive = False\<rparr>
                | Some e \<Rightarrow> \<lparr>startCutoff = s, endCutoff = e, endExclusive = False\<rparr>))"

section \<open>The predicate\<close>

text \<open>The rows that the emitted conditions keep.\<close>

definition in_bounds :: "bounds \<Rightarrow> int \<Rightarrow> bool" where
  "in_bounds b t =
     ((case startCutoff b of None \<Rightarrow> True | Some s \<Rightarrow> s \<le> t)
      \<and> (case endCutoff b of None \<Rightarrow> True
         | Some e \<Rightarrow> if endExclusive b then t < e else t \<le> e))"

definition timeBoundsSql :: "bounds \<Rightarrow> string \<Rightarrow> nat \<Rightarrow> string \<times> int list \<times> nat" where
  "timeBoundsSql b column startIndex =
     (let (conditions1, params1, idx1) =
            (case startCutoff b of
               Some s \<Rightarrow> ([column @ '' >= $'' @ show_nat startIndex @ ''::timestamptz''], [s], startIndex + 1)
             | None \<Rightarrow> ([], [], startIndex));
          (conditions2, params2, idx2) =
            (case endCutoff b of
               Some e \<Rightarrow> (conditions1 @ [column @ '' '' @ (if endExclusive b then ''<'' else ''<='')
                            @ '' $'' @ show_nat idx1 @ ''::timestamptz''], params1 @ [e], idx1 + 1)
             | None \<Rightarrow> (conditions1, params1, idx1))
      in (if conditions2 = [] then [] else ''AND '' @ join_with '' AND '' conditions2, params2, idx2))"

section \<open>Chunk alignment\<close>

record chunk_range =
  ck_start :: int
  ck_end :: int

definition CHUNK_CACHE_TTL_MS :: int where "CHUNK_CACHE_TTL_MS = 60000"

record cache_entry =
  ce_at :: int
  ce_ranges :: "chunk_range list"

type_synonym chunk_cache = "string \<Rightarrow> cache_entry option"

text \<open>A catalog row with a null end is skipped.\<close>

definition ranges_of_rows :: "(int option \<times> int option) list \<Rightarrow> chunk_range list" where
  "ranges_of_rows rows =
     map (\<lambda>(s, e). \<lparr>ck_start = the s, ck_end = the e\<rparr>) (filter (\<lambda>(s, e). s \<noteq> None \<and> e \<noteq> None) rows)"

definition touched_chunks :: "bounds \<Rightarrow> chunk_range list \<Rightarrow> chunk_range list" where
  "touched_chunks b ranges =
     filter (\<lambda>c. (case endCutoff b of None \<Rightarrow> True | Some hi \<Rightarrow> ck_start c \<le> hi)
               \<and> (case startCutoff b of None \<Rightarrow> True | Some lo \<Rightarrow> lo < ck_end c)) ranges"

definition snap_to :: "bounds \<Rightarrow> chunk_range list \<Rightarrow> bounds" where
  "snap_to b ranges =
     (let touched = touched_chunks b ranges
      in if touched = [] then b
         else
           (let maxChunkEnd = Max (set (map ck_end touched));
                snappedEnd = map_option (\<lambda>hi. max hi maxChunkEnd) (endCutoff b)
            in \<lparr>startCutoff = map_option (\<lambda>lo. min lo (Min (set (map ck_start touched)))) (startCutoff b),
                endCutoff = snappedEnd, endExclusive = (snappedEnd = Some maxChunkEnd)\<rparr>))"

definition snapBoundsToChunks ::
  "(string \<Rightarrow> (int option \<times> int option) list option) \<Rightarrow> string \<Rightarrow> bounds \<Rightarrow> int \<Rightarrow> chunk_cache
     \<Rightarrow> bounds \<times> chunk_cache" where
  "snapBoundsToChunks query hypertable b now cache =
     (if startCutoff b = None \<and> endCutoff b = None then (b, cache)
      else
        (let stale = (case cache hypertable of None \<Rightarrow> True
                      | Some e \<Rightarrow> CHUNK_CACHE_TTL_MS < now - ce_at e)
         in if stale then
              (case query hypertable of
                 None \<Rightarrow> (b, cache)
               | Some rows \<Rightarrow>
                   (snap_to b (ranges_of_rows rows),
                    cache(hypertable \<mapsto> \<lparr>ce_at = now, ce_ranges = ranges_of_rows rows\<rparr>)))
            else (snap_to b (ce_ranges (the (cache hypertable))), cache)))"

section \<open>Properties\<close>

text \<open>
  The analysis window. Without the ramp-up toggle it reaches an hour beyond the run on both
  sides, so it keeps every row of the run; with the toggle it keeps, of the rows of the run itself,
  exactly those at or after the end of the ramp-up and at or before the start of the ramp-down.
\<close>

theorem analysisBounds_window:
  assumes "tw_start_time r = Some st" and "tw_end_time r = Some en" and "st \<le> t" and "t \<le> en"
    and "seconds (tw_ramp_up r) = of_int up" and "seconds (tw_ramp_down r) = of_int down"
  shows "in_bounds (analysisBoundsFromRow (Some r) False) t
     \<and> (in_bounds (analysisBoundsFromRow (Some r) True) t
          \<longleftrightarrow> (0 < up \<longrightarrow> st + up * 1000 \<le> t) \<and> (0 < down \<longrightarrow> t \<le> en - down * 1000))"
proof -
  have trunc: "js_trunc (of_int k) = k" for k by (simp add: js_trunc_def)
  have u: "of_int st + of_int up * 1000 = (of_int (st + up * 1000) :: rat)"
    and d: "of_int en - of_int down * 1000 = (of_int (en - down * 1000) :: rat)" by simp_all
  have p: "(0 :: rat) < of_int up \<longleftrightarrow> 0 < up" "(0 :: rat) < of_int down \<longleftrightarrow> 0 < down" by simp_all
  show ?thesis
    using assms(3,4)
    by (simp add: analysisBoundsFromRow_def in_bounds_def assms(1,2,5,6) Let_def u d p trunc
        RUN_WINDOW_PAD_MS_def del: of_int_add of_int_diff of_int_mult of_int_0_less_iff)
qed

theorem analysisBounds_window_witness:
  "in_bounds (analysisBoundsFromRow (Some \<lparr>tw_start_time = Some 0, tw_end_time = Some 100000,
      tw_ramp_up = Some (VStr ''30''), tw_ramp_down = None\<rparr>) True) 40000"
proof -
  let ?r = "\<lparr>tw_start_time = Some 0, tw_end_time = Some 100000,
      tw_ramp_up = Some (VStr ''30''), tw_ramp_down = None\<rparr>"
  have "seconds (tw_ramp_up ?r) = of_int 30" by code_simp
  moreover have "seconds (tw_ramp_down ?r) = of_int 0" by (simp add: seconds_def)
  ultimately show ?thesis using analysisBounds_window [of ?r 0 100000 40000 30 0] by simp
qed

lemma span_start_le:
  "span_start bs acc = Some s \<Longrightarrow>
     (\<forall>b \<in> set bs. \<exists>x y. startCutoff b = Some x \<and> s = Some y \<and> y \<le> x)
     \<and> (\<forall>a. acc = Some a \<longrightarrow> (\<exists>y. s = Some y \<and> y \<le> a))"
proof (induction bs arbitrary: acc)
  case Nil
  then show ?case by simp
next
  case (Cons b bs)
  then show ?case by (fastforce split: option.splits if_splits)
qed

lemma span_end_ge:
  "span_end bs acc = Some s \<Longrightarrow>
     (\<forall>b \<in> set bs. \<exists>x y. endCutoff b = Some x \<and> s = Some y \<and> x \<le> y)
     \<and> (\<forall>a. acc = Some a \<longrightarrow> (\<exists>y. s = Some y \<and> a \<le> y))"
proof (induction bs arbitrary: acc)
  case Nil
  then show ?case by simp
next
  case (Cons b bs)
  then show ?case by (fastforce split: option.splits if_splits)
qed

text \<open>One window for several runs keeps every row that the window of any of them keeps.\<close>

theorem spanBounds_covers:
  assumes "b \<in> set all" and "in_bounds b t"
  shows "in_bounds (spanBounds all) t"
proof -
  have ne: "all \<noteq> []" using assms(1) by auto
  show ?thesis
  proof (cases "span_start all None")
    case None
    then show ?thesis using ne by (simp add: spanBounds_def open_bounds_def in_bounds_def)
  next
    case (Some s)
    have lo: "case s of None \<Rightarrow> True | Some y \<Rightarrow> y \<le> t"
      using span_start_le [OF Some] assms by (fastforce simp: in_bounds_def split: option.splits)
    have hi: "case e of None \<Rightarrow> True | Some y \<Rightarrow> t \<le> y" if "span_end all None = Some e" for e
      using span_end_ge [OF that] assms
      by (fastforce simp: in_bounds_def split: option.splits if_splits)
    show ?thesis
      using lo hi Some ne by (auto simp: spanBounds_def in_bounds_def split: option.splits)
  qed
qed

theorem spanBounds_covers_witness:
  "in_bounds (spanBounds [\<lparr>startCutoff = Some 5, endCutoff = Some 9, endExclusive = False\<rparr>,
                          \<lparr>startCutoff = Some 1, endCutoff = Some 3, endExclusive = True\<rparr>]) 2"
  by (rule spanBounds_covers [of "\<lparr>startCutoff = Some 1, endCutoff = Some 3, endExclusive = True\<rparr>"])
    (simp_all add: in_bounds_def)

lemma touched_bounds:
  assumes "touched_chunks b ranges \<noteq> []"
  shows "c \<in> set (touched_chunks b ranges) \<Longrightarrow> ck_end c \<le> Max (set (map ck_end (touched_chunks b ranges)))"
    and "c \<in> set (touched_chunks b ranges) \<Longrightarrow> Min (set (map ck_start (touched_chunks b ranges))) \<le> ck_start c"
    and "\<exists>c \<in> set (touched_chunks b ranges). ck_end c = Max (set (map ck_end (touched_chunks b ranges)))"
    and "\<exists>c \<in> set (touched_chunks b ranges). ck_start c = Min (set (map ck_start (touched_chunks b ranges)))"
proof -
  let ?T = "set (touched_chunks b ranges)"
  have fin: "finite (ck_end ` ?T)" "finite (ck_start ` ?T)" by simp_all
  have ne: "ck_end ` ?T \<noteq> {}" "ck_start ` ?T \<noteq> {}" using assms by auto
  show "c \<in> ?T \<Longrightarrow> ck_end c \<le> Max (set (map ck_end (touched_chunks b ranges)))"
    using fin(1) by simp
  show "c \<in> ?T \<Longrightarrow> Min (set (map ck_start (touched_chunks b ranges))) \<le> ck_start c"
    using fin(2) by simp
  show "\<exists>c \<in> ?T. ck_end c = Max (set (map ck_end (touched_chunks b ranges)))"
    using Max_in [OF fin(1) ne(1)] by (metis (no_types, lifting) imageE set_map)
  show "\<exists>c \<in> ?T. ck_start c = Min (set (map ck_start (touched_chunks b ranges)))"
    using Min_in [OF fin(2) ne(2)] by (metis (no_types, lifting) imageE set_map)
qed

lemma snap_to_superset:
  assumes "in_bounds b t"
    and "(\<exists>c \<in> set ranges. ck_start c \<le> t \<and> t < ck_end c) \<or> endCutoff b \<noteq> Some t"
  shows "in_bounds (snap_to b ranges) t"
proof (cases "touched_chunks b ranges = []")
  case True
  then show ?thesis using assms(1) by (simp add: snap_to_def)
next
  case False
  define M where "M = Max (set (map ck_end (touched_chunks b ranges)))"
  define m where "m = Min (set (map ck_start (touched_chunks b ranges)))"
  have lo: "case startCutoff b of None \<Rightarrow> True | Some lo \<Rightarrow> min lo m \<le> t"
    using assms(1) by (auto simp: in_bounds_def split: option.splits)
  have hi: "case endCutoff b of None \<Rightarrow> True | Some hi \<Rightarrow> if max hi M = M then t < max hi M else t \<le> max hi M"
  proof (cases "endCutoff b")
    case None
    then show ?thesis by simp
  next
    case (Some hi)
    have le: "t \<le> hi" using assms(1) Some by (auto simp: in_bounds_def split: if_splits)
    have "t < M" if eq: "max hi M = M"
    proof (rule ccontr)
      assume "\<not> t < M"
      then have t: "t = hi" "t = M" using eq le by auto
      then obtain c where c: "c \<in> set ranges" "ck_start c \<le> t" "t < ck_end c" using assms(2) Some by auto
      have "case startCutoff b of None \<Rightarrow> True | Some lo \<Rightarrow> lo \<le> t" using assms(1) by (simp add: in_bounds_def)
      then have "c \<in> set (touched_chunks b ranges)"
        using c t(1) Some by (auto simp: touched_chunks_def split: option.splits)
      then have "ck_end c \<le> M" unfolding M_def using touched_bounds(1) [OF False] by blast
      then show False using c(3) t(2) by simp
    qed
    with le Some show ?thesis by auto
  qed
  have "snap_to b ranges = \<lparr>startCutoff = map_option (\<lambda>lo. min lo m) (startCutoff b),
      endCutoff = map_option (\<lambda>hi. max hi M) (endCutoff b),
      endExclusive = (map_option (\<lambda>hi. max hi M) (endCutoff b) = Some M)\<rparr>"
    using False by (simp add: snap_to_def Let_def M_def m_def)
  then show ?thesis
    using lo hi by (cases "startCutoff b"; cases "endCutoff b") (simp_all add: in_bounds_def)
qed

text \<open>The ranges that a call of \<open>snapBoundsToChunks\<close> works with.\<close>

definition known_ranges ::
  "(string \<Rightarrow> (int option \<times> int option) list option) \<Rightarrow> string \<Rightarrow> int \<Rightarrow> chunk_cache \<Rightarrow> chunk_range list" where
  "known_ranges query hypertable now cache =
     (case cache hypertable of
        Some e \<Rightarrow> if CHUNK_CACHE_TTL_MS < now - ce_at e
                  then (case query hypertable of None \<Rightarrow> [] | Some rows \<Rightarrow> ranges_of_rows rows)
                  else ce_ranges e
      | None \<Rightarrow> (case query hypertable of None \<Rightarrow> [] | Some rows \<Rightarrow> ranges_of_rows rows))"

lemma snapBounds_cases:
  "fst (snapBoundsToChunks query h b now cache) = b
   \<or> fst (snapBoundsToChunks query h b now cache) = snap_to b (known_ranges query h now cache)"
  by (auto simp: snapBoundsToChunks_def known_ranges_def Let_def split: option.splits)

text \<open>
  Widening never drops a row of a known chunk. Whether the ranges come from the cache or from
  the catalog, and also when the catalog read fails, a row that the original window keeps is kept by
  the widened one, provided that its time lies in one of the known ranges or is not the very end
  of the original window.
\<close>

theorem snapBounds_superset:
  assumes "in_bounds b t"
    and "(\<exists>c \<in> set (known_ranges query h now cache). ck_start c \<le> t \<and> t < ck_end c)
         \<or> endCutoff b \<noteq> Some t"
  shows "in_bounds (fst (snapBoundsToChunks query h b now cache)) t"
  using snapBounds_cases [of query h b now cache] snap_to_superset [OF assms] assms(1) by auto

theorem snapBounds_superset_witness:
  "in_bounds (fst (snapBoundsToChunks (\<lambda>_. Some [(Some 0, Some 10), (Some 10, Some 20)]) ''t''
      \<lparr>startCutoff = Some 5, endCutoff = Some 12, endExclusive = False\<rparr> 0 Map.empty)) 12"
  by (rule snapBounds_superset) (simp_all add: in_bounds_def known_ranges_def ranges_of_rows_def)

text \<open>
  The proviso is needed: a chunk created since the ranges were cached is not in them, and a row at
  the end of the window that is the start of the new chunk is lost.
\<close>

lemma snap_stale_drops_row:
  "in_bounds \<lparr>startCutoff = Some 5, endCutoff = Some 10, endExclusive = False\<rparr> 10
   \<and> \<not> in_bounds (snap_to \<lparr>startCutoff = Some 5, endCutoff = Some 10, endExclusive = False\<rparr>
                    [\<lparr>ck_start = 0, ck_end = 10\<rparr>]) 10"
  by (simp add: in_bounds_def snap_to_def touched_chunks_def)

definition reaches :: "bounds \<Rightarrow> chunk_range \<Rightarrow> bool" where
  "reaches b c = ((case endCutoff b of None \<Rightarrow> True
                   | Some hi \<Rightarrow> if endExclusive b then ck_start c < hi else ck_start c \<le> hi)
                  \<and> (case startCutoff b of None \<Rightarrow> True | Some lo \<Rightarrow> lo < ck_end c))"

text \<open>
  Widening locks no further chunk. When the chunk ranges do not overlap, every chunk that the
  widened window reaches into is one the original window already touched.
\<close>

theorem snap_same_chunks:
  assumes "\<forall>c \<in> set ranges. \<forall>d \<in> set ranges. c = d \<or> ck_end c \<le> ck_start d \<or> ck_end d \<le> ck_start c"
    and "\<forall>c \<in> set ranges. ck_start c < ck_end c"
    and "c \<in> set ranges" and "reaches (snap_to b ranges) c" and "touched_chunks b ranges \<noteq> []"
  shows "c \<in> set (touched_chunks b ranges)"
proof -
  let ?T = "touched_chunks b ranges"
  let ?M = "Max (set (map ck_end ?T))" and ?m = "Min (set (map ck_start ?T))"
  obtain e where e: "e \<in> set ?T" "ck_end e = ?M" using touched_bounds(3) [OF assms(5)] by blast
  obtain d where d: "d \<in> set ?T" "ck_start d = ?m" using touched_bounds(4) [OF assms(5)] by blast
  have er: "e \<in> set ranges" and dr: "d \<in> set ranges" using e d by (simp_all add: touched_chunks_def)
  have hi: "ck_start c \<le> hi" if h: "endCutoff b = Some hi" for hi
  proof (cases "max hi ?M = ?M")
    case True
    have "ck_start c < ?M" using assms(4,5) h True by (simp add: reaches_def snap_to_def Let_def)
    moreover have "ck_start e \<le> hi" using e(1) h by (simp add: touched_chunks_def)
    moreover have "c = e \<or> ck_end c \<le> ck_start e \<or> ck_end e \<le> ck_start c" using assms(1,3) er by blast
    moreover have "ck_start c < ck_end c" using assms(2,3) by blast
    ultimately show ?thesis using e(2) by auto
  next
    case False
    then show ?thesis using assms(4,5) h by (auto simp: reaches_def snap_to_def Let_def split: if_splits)
  qed
  have lo: "lo < ck_end c" if l: "startCutoff b = Some lo" for lo
  proof -
    have "min lo ?m < ck_end c" using assms(4,5) l by (simp add: reaches_def snap_to_def Let_def)
    moreover have "lo < ck_end d" using d(1) l by (simp add: touched_chunks_def)
    moreover have "c = d \<or> ck_end c \<le> ck_start d \<or> ck_end d \<le> ck_start c" using assms(1,3) dr by blast
    moreover have "ck_start c < ck_end c" using assms(2,3) by blast
    ultimately show ?thesis using d(2) by (auto simp: min_def split: if_splits)
  qed
  show ?thesis using hi lo assms(3) by (auto simp: touched_chunks_def split: option.splits)
qed

theorem snap_same_chunks_witness:
  "\<lparr>ck_start = 0, ck_end = 10\<rparr> \<in> set (touched_chunks
      \<lparr>startCutoff = Some 5, endCutoff = Some 8, endExclusive = False\<rparr>
      [\<lparr>ck_start = 0, ck_end = 10\<rparr>, \<lparr>ck_start = 10, ck_end = 20\<rparr>])"
  by (rule snap_same_chunks)
    (auto simp: reaches_def snap_to_def touched_chunks_def)

end
