(* ===== verification/Aggregation.thy ===== *)
theory Aggregation
  imports Requirement PerfAggregations RunWindow
begin

text \<open>
  Producing the values that a check judges: \<open>pipelines/checks/DataAggregator.ts\<close> (metric SLOs, from
  the statistics rows of a panel) and \<open>pipelines/checks/AggregatedBenchmarkEvaluator.ts\<close> (one
  statistic over all samples of a run). Tables are lists of rows and a query is the filter and
  the aggregate its SQL states. NUMERIC and float results are exact rationals.
\<close>

section \<open>Arithmetic of JavaScript numbers\<close>

fun js_add :: "jsnum \<Rightarrow> jsnum \<Rightarrow> jsnum" where
  "js_add (JFin a) (JFin b) = JFin (a + b)"
| "js_add JNaN _ = JNaN"
| "js_add _ JNaN = JNaN"
| "js_add JPosInf JNegInf = JNaN"
| "js_add JNegInf JPosInf = JNaN"
| "js_add JPosInf _ = JPosInf"
| "js_add JNegInf _ = JNegInf"
| "js_add _ JPosInf = JPosInf"
| "js_add _ JNegInf = JNegInf"

fun js_div_pos :: "jsnum \<Rightarrow> nat \<Rightarrow> jsnum" where
  "js_div_pos (JFin a) n = JFin (a / of_nat n)"
| "js_div_pos x n = x"

section \<open>Statistics rows\<close>

record metric_statistic =
  ms_metric_name :: string
  ms_mean :: "jsnum option"
  ms_median :: "jsnum option"
  ms_min_value :: "jsnum option"
  ms_max_value :: "jsnum option"
  ms_std_dev :: "jsnum option"
  ms_q10 :: "jsnum option"
  ms_q25 :: "jsnum option"
  ms_q75 :: "jsnum option"
  ms_q90 :: "jsnum option"
  ms_q95 :: "jsnum option"
  ms_q99 :: "jsnum option"
  ms_last_value :: "jsnum option"
  ms_trend_pct_per_hour :: "jsnum option"
  ms_trend_corr :: "jsnum option"
  ms_count :: jsval
  ms_is_constant :: bool
  ms_dashboard_label :: "string option"

record stat_row =
  sr_test_run_id :: string
  sr_application_dashboard_id :: string
  sr_panel_id :: int
  sr_stat :: metric_statistic

text \<open>The rollup tables of transactions and samplers hold one row per group and ramp-up variant.\<close>

record rollup_row =
  rr_test_run_id :: string
  rr_ramp_up_excluded :: bool
  rr_scenario_name :: string
  rr_transaction_name :: "string option"
  rr_sampler_name :: string
  rr_failed_count :: int
  rr_total_count :: int
  rr_avg_response_time :: rat
  rr_max :: rat

record source_row =
  so_source_type :: string
  so_system_under_test_id :: string
  so_test_environment :: string
  so_external_ref :: string

record checks_db =
  db_statistics :: "stat_row list"
  db_dashboards :: "(string \<times> string option) list"
  db_dynatrace :: "(string \<times> string option) list"
  db_transaction_stats :: "rollup_row list"
  db_sampler_stats :: "rollup_row list"
  db_metrics_sources :: "source_row list"

section \<open>DataAggregator\<close>

definition TXN_ERROR_RATE :: int where "TXN_ERROR_RATE = 105"
definition REQ_ERROR_RATE :: int where "REQ_ERROR_RATE = 205"
definition TREND_MIN_CORR :: rat where "TREND_MIN_CORR = 1 / 2"
definition TREND_MIN_POINTS :: rat where "TREND_MIN_POINTS = 10"
definition ALL_AGGREGATED_SCENARIO :: string where "ALL_AGGREGATED_SCENARIO = ''all aggregated''"
definition ALL_AGGREGATED_METRIC :: string where "ALL_AGGREGATED_METRIC = ''All aggregated''"

definition generateScenarioDashboardLabel :: "string \<Rightarrow> string" where
  "generateScenarioDashboardLabel scenarioName = ''Performance test metrics '' @ scenarioName"

definition samplerMetricNameSql :: "string option \<Rightarrow> string \<Rightarrow> string" where
  "samplerMetricNameSql txn sampler =
     (case txn of None \<Rightarrow> sampler
      | Some t \<Rightarrow> if t \<in> {[], ''overall''} \<or> t = sampler then sampler else t @ ''.'' @ sampler)"

definition mapAggregationTypeToField :: "string \<Rightarrow> string" where
  "mapAggregationTypeToField aggregationType =
     (case map_of [(''mean'', ''mean''), (''avg'', ''mean''), (''min'', ''min_value''),
        (''max'', ''max_value''), (''median'', ''median''), (''q50'', ''median''), (''q10'', ''q10''),
        (''q25'', ''q25''), (''q75'', ''q75''), (''q90'', ''q90''), (''q95'', ''q95''), (''q99'', ''q99''),
        (''last'', ''last_value''), (''trend'', ''trend_pct_per_hour''), (''std'', ''std_dev'')]
        (toLowerCase aggregationType) of Some f \<Rightarrow> f | None \<Rightarrow> ''mean'')"

definition getFieldValue :: "metric_statistic \<Rightarrow> string \<Rightarrow> jsnum option" where
  "getFieldValue m fieldName =
     (if fieldName = ''mean'' then ms_mean m
      else if fieldName = ''median'' then ms_median m
      else if fieldName = ''min_value'' then ms_min_value m
      else if fieldName = ''max_value'' then ms_max_value m
      else if fieldName = ''std_dev'' then ms_std_dev m
      else if fieldName = ''q10'' then ms_q10 m
      else if fieldName = ''q25'' then ms_q25 m
      else if fieldName = ''q75'' then ms_q75 m
      else if fieldName = ''q90'' then ms_q90 m
      else if fieldName = ''q95'' then ms_q95 m
      else if fieldName = ''q99'' then ms_q99 m
      else if fieldName = ''last_value'' then ms_last_value m
      else if fieldName = ''trend_pct_per_hour'' then ms_trend_pct_per_hour m
      else ms_mean m)"

text \<open>\<open>ROUND(x, 2)\<close> of a non-negative value.\<close>

definition round2 :: "rat \<Rightarrow> rat" where
  "round2 q = of_int (js_round (q * 100)) / 100"

definition pool_pct :: "rollup_row list \<Rightarrow> rat option" where
  "pool_pct rows =
     (let total = sum_list (map rr_total_count rows); failed = sum_list (map rr_failed_count rows)
      in if total = 0 then None else Some (round2 (of_int failed / of_int total * 100)))"

text \<open>
  The pooled error rates by series name: an association list in the order of the groups, without
  the groups whose rate is null.
\<close>

definition pooledErrorRates ::
  "checks_db \<Rightarrow> test_run \<Rightarrow> benchmark \<Rightarrow> int \<Rightarrow> string \<Rightarrow> (string \<times> rat) list" where
  "pooledErrorRates db run b panelId dashboardLabel =
     (let isSampler = (panelId = REQ_ERROR_RATE); prefix = generateScenarioDashboardLabel []
      in if \<not> startsWith dashboardLabel prefix then []
         else
           (let scenario = drop (length prefix) dashboardLabel;
                allAggregated = (scenario = ALL_AGGREGATED_SCENARIO);
                exists_source = (\<exists>s \<in> set (db_metrics_sources db).
                   so_source_type s = ''performance_test''
                   \<and> so_system_under_test_id s = bm_system_under_test_id b
                   \<and> so_test_environment s = bm_test_environment b
                   \<and> so_external_ref s = bm_dashboard_uid b);
                rows = filter (\<lambda>r. rr_test_run_id r = tr_test_run_id run \<and> rr_ramp_up_excluded r
                          \<and> (allAggregated \<or> rr_scenario_name r = scenario
                             \<or> scenario = ''default'' \<and> rr_scenario_name r = [])
                          \<and> exists_source)
                        (if isSampler then db_sampler_stats db else db_transaction_stats db);
                name = (\<lambda>r. if allAggregated then ALL_AGGREGATED_METRIC
                            else if isSampler then samplerMetricNameSql (rr_transaction_name r) (rr_sampler_name r)
                            else (case rr_transaction_name r of None \<Rightarrow> [] | Some t \<Rightarrow> t))
            in List.map_filter (\<lambda>n. map_option (\<lambda>p. (n, p)) (pool_pct (filter (\<lambda>r. name r = n) rows)))
                 (remdups (map name rows))))"

datatype agg_error = DataAggregationError string

text \<open>The rows a caller of the run's organization may read.\<close>

definition visible_dashboard :: "checks_db \<Rightarrow> test_run \<Rightarrow> string \<Rightarrow> bool" where
  "visible_dashboard db run d =
     (\<exists>(i, org) \<in> set (db_dashboards db) \<union> set (db_dynatrace db).
        i = d \<and> (truthy_str (tr_organization_id run) \<longrightarrow> org = tr_organization_id run \<or> org = None))"

definition fetch_statistics ::
  "checks_db \<Rightarrow> test_run \<Rightarrow> benchmark \<Rightarrow> int \<Rightarrow> string option \<Rightarrow> metric_statistic list" where
  "fetch_statistics db run b panelId metricNameFilter =
     map sr_stat (filter (\<lambda>r. sr_test_run_id r = tr_test_run_id run
         \<and> sr_application_dashboard_id r = bm_application_dashboard_id b \<and> sr_panel_id r = panelId
         \<and> (truthy_str metricNameFilter \<longrightarrow> Some (ms_metric_name (sr_stat r)) = metricNameFilter)
         \<and> visible_dashboard db run (sr_application_dashboard_id r)) (db_statistics db))"

text \<open>The upsert of the artificial row: update the row of the key, or insert it.\<close>

definition artificial_statistic :: "benchmark \<Rightarrow> jsnum \<Rightarrow> metric_statistic" where
  "artificial_statistic b v =
     \<lparr>ms_metric_name = ''default'', ms_mean = Some v, ms_median = Some v, ms_min_value = Some v,
      ms_max_value = Some v, ms_std_dev = Some (JFin 0), ms_q10 = Some v, ms_q25 = Some v, ms_q75 = Some v,
      ms_q90 = Some v, ms_q95 = Some v, ms_q99 = Some v, ms_last_value = Some v,
      ms_trend_pct_per_hour = None, ms_trend_corr = None, ms_count = VNum (JFin 1),
      ms_is_constant = True, ms_dashboard_label = Some (bm_dashboard_label b)\<rparr>"

definition same_key :: "stat_row \<Rightarrow> stat_row \<Rightarrow> bool" where
  "same_key r q = (sr_test_run_id r = sr_test_run_id q
     \<and> sr_application_dashboard_id r = sr_application_dashboard_id q
     \<and> sr_panel_id r = sr_panel_id q \<and> ms_metric_name (sr_stat r) = ms_metric_name (sr_stat q))"

text \<open>On conflict every column but the two trend columns is overwritten.\<close>

definition overwrite_statistic :: "metric_statistic \<Rightarrow> metric_statistic \<Rightarrow> metric_statistic" where
  "overwrite_statistic old new =
     new\<lparr>ms_trend_pct_per_hour := ms_trend_pct_per_hour old, ms_trend_corr := ms_trend_corr old\<rparr>"

definition createArtificialMetricStatistic ::
  "checks_db \<Rightarrow> test_run \<Rightarrow> benchmark \<Rightarrow> int \<Rightarrow> jsnum \<Rightarrow> checks_db" where
  "createArtificialMetricStatistic db run b panelId defaultValue =
     (let new = \<lparr>sr_test_run_id = tr_test_run_id run,
                 sr_application_dashboard_id = bm_application_dashboard_id b, sr_panel_id = panelId,
                 sr_stat = artificial_statistic b defaultValue\<rparr>
      in db\<lparr>db_statistics :=
           (if \<exists>r \<in> set (db_statistics db). same_key r new
            then map (\<lambda>r. if same_key r new then new\<lparr>sr_stat := overwrite_statistic (sr_stat r) (sr_stat new)\<rparr> else r)
                   (db_statistics db)
            else db_statistics db @ [new])\<rparr>)"

text \<open>The mean of a pooled panel is replaced by the pooled rate, where there is one.\<close>

definition apply_pooled :: "(string \<times> rat) list \<Rightarrow> metric_statistic list \<Rightarrow> metric_statistic list" where
  "apply_pooled pooled stats =
     map (\<lambda>m. case map_of pooled (ms_metric_name m) of
                Some p \<Rightarrow> m\<lparr>ms_mean := Some (JFin p)\<rparr> | None \<Rightarrow> m) stats"

definition weak_trend :: "metric_statistic \<Rightarrow> bool" where
  "weak_trend m =
     (case ms_trend_corr m of
        None \<Rightarrow> True
      | Some r \<Rightarrow> (case r of JFin q \<Rightarrow> \<bar>q\<bar> < TREND_MIN_CORR | _ \<Rightarrow> True)
               \<or> js_lt (val_Number (ms_count m)) (JFin TREND_MIN_POINTS))"

text \<open>The target of one statistics row, if it has a value.\<close>

definition stat_target :: "string \<Rightarrow> metric_statistic \<Rightarrow> metric_target option" where
  "stat_target fieldName m =
     (let isDefaultRow = (ms_is_constant m \<and> ms_metric_name m = ''default'');
          trend = (fieldName = ''trend_pct_per_hour'');
          value = (if trend \<and> isDefaultRow then ms_mean m else getFieldValue m fieldName)
      in if value \<noteq> None \<and> ms_metric_name m \<noteq> []
         then Some \<lparr>mt_target = ms_metric_name m, mt_value = value, mt_isArtificial = ms_is_constant m,
                    mt_weakTrend = (trend \<and> \<not> isDefaultRow \<and> weak_trend m),
                    mt_trendCorr = (if trend \<and> \<not> isDefaultRow then Some (ms_trend_corr m) else None)\<rparr>
         else None)"

text \<open>The loop over the rows: the targets, and the values that count for the panel average.\<close>

fun collect_targets ::
  "string \<Rightarrow> metric_statistic list \<Rightarrow> metric_target list \<times> jsnum list \<Rightarrow> metric_target list \<times> jsnum list" where
  "collect_targets f [] acc = acc"
| "collect_targets f (m # ms) (targets, values) =
     (case stat_target f m of
        None \<Rightarrow> collect_targets f ms (targets, values)
      | Some t \<Rightarrow> collect_targets f ms
          (targets @ [t], if mt_weakTrend t then values else values @ [the (mt_value t)]))"

definition average :: "jsnum list \<Rightarrow> jsnum" where
  "average vs = js_div_pos (foldl js_add (JFin 0) vs) (length vs)"

definition aggregate_statistics :: "benchmark \<Rightarrow> string \<Rightarrow> metric_statistic list \<Rightarrow> aggregation_result" where
  "aggregate_statistics b fieldName stats =
     (if length stats = 1 \<and> ms_is_constant (stats ! 0) \<and> fieldName \<noteq> ''trend_pct_per_hour'' then
        \<lparr>ar_panel_average = ms_mean (stats ! 0),
         ar_targets = [\<lparr>mt_target = ''default'', mt_value = ms_mean (stats ! 0), mt_isArtificial = True,
                        mt_weakTrend = False, mt_trendCorr = None\<rparr>]\<rparr>
      else
        (let (targets, values) = collect_targets fieldName stats ([], [])
         in if targets = [] then \<lparr>ar_panel_average = None, ar_targets = []\<rparr>
            else \<lparr>ar_panel_average =
                    (if values = [] then None
                     else if bm_average_all b then Some (average values) else Some (values ! 0)),
                  ar_targets = targets\<rparr>))"

definition default_value :: "benchmark \<Rightarrow> jsnum" where
  "default_value b =
     (case bm_validate_with_default_if_no_data_value b of
        Some n \<Rightarrow> if truthy_num n then n else JFin 0 | None \<Rightarrow> JFin 0)"

text \<open>
  \<open>rollup_ok\<close> tells whether the read of the rollup succeeds: when it throws, the code logs and goes
  on with the stored means.
\<close>

definition aggregateMetricsForBenchmark ::
  "checks_db \<Rightarrow> test_run \<Rightarrow> benchmark \<Rightarrow> string option \<Rightarrow> bool
     \<Rightarrow> agg_error + (aggregation_result \<times> checks_db)" where
  "aggregateMetricsForBenchmark db run b metricNameFilter rollup_ok =
     (case (case bm_configuration b of None \<Rightarrow> None | Some c \<Rightarrow> cf_id c) of
        None \<Rightarrow> Inl (DataAggregationError (bm_id b))
      | Some panelId \<Rightarrow>
          if panelId = 0 then Inl (DataAggregationError (bm_id b))
          else
            (let stats = fetch_statistics db run b panelId metricNameFilter
             in if stats = [] then
                  (if bm_validate_with_default_if_no_data b then
                     Inr (\<lparr>ar_panel_average = Some (default_value b),
                           ar_targets = [\<lparr>mt_target = ''default'', mt_value = Some (default_value b),
                              mt_isArtificial = True, mt_weakTrend = False, mt_trendCorr = None\<rparr>]\<rparr>,
                          createArtificialMetricStatistic db run b panelId (default_value b))
                   else Inr (\<lparr>ar_panel_average = None, ar_targets = []\<rparr>, db))
                else
                  (let fieldName = mapAggregationTypeToField (or_str (bm_evaluate_type b) ''mean'');
                       stats' = (if fieldName = ''mean'' \<and> panelId \<in> {TXN_ERROR_RATE, REQ_ERROR_RATE} \<and> rollup_ok
                                 then apply_pooled (pooledErrorRates db run b panelId
                                        (case ms_dashboard_label (stats ! 0) of None \<Rightarrow> [] | Some l \<Rightarrow> l)) stats
                                 else stats)
                   in Inr (aggregate_statistics b fieldName stats', db))))"

section \<open>AggregatedBenchmarkEvaluator\<close>

text \<open>A sample of one of the raw tables \<open>transactions\<close> and \<open>requests_raw\<close>.\<close>

record sample =
  sa_test_run_id :: string
  sa_time :: int
  sa_response_time :: rat
  sa_success :: bool

record samples_db =
  sd_transactions :: "sample list"
  sd_requests_raw :: "sample list"
  sd_transaction_stats :: "rollup_row list"
  sd_sampler_stats :: "rollup_row list"

record aggregated_benchmark =
  ab_id :: string
  ab_aggregate_metric :: string
  ab_aggregate_stat :: "string option"
  ab_requirement_operator :: string
  ab_requirement_value :: jsval
  ab_exclude_ramp_up_time :: bool

datatype agg_status = AggComplete | AggNoData | AggError

record aggregated_result =
  ag_benchmark_id :: string
  ag_test_run_id :: string
  ag_actual_value :: "jsnum option"
  ag_meets_requirement :: "bool option"
  ag_status :: agg_status

definition STAT_SQL :: "string \<Rightarrow> (rat list \<Rightarrow> jsnum) option" where
  "STAT_SQL stat =
     (let pc = (\<lambda>p xs. percentile_at (sort xs) (p * of_int (int (length xs) - 1)))
      in map_of [(''avg'', \<lambda>xs. JFin (sum_list xs / of_int (int (length xs)))),
                 (''p50'', pc (50 / 100)), (''p90'', pc (90 / 100)), (''p95'', pc (95 / 100)),
                 (''p99'', pc (99 / 100)), (''max'', \<lambda>xs. JFin (Max (set xs)))] stat)"

text \<open>The two statistics that the rollup answers; the outer option is a null result.\<close>

definition ROLLUP_STAT_SQL :: "string \<Rightarrow> (rollup_row list \<Rightarrow> jsnum option) option" where
  "ROLLUP_STAT_SQL stat =
     map_of [(''avg'', \<lambda>rs. let n = sum_list (map rr_total_count rs) in
                 if n = 0 then None
                 else Some (JFin (sum_list (map (\<lambda>r. rr_avg_response_time r * of_int (rr_total_count r)) rs)
                                  / of_int n))),
             (''max'', \<lambda>rs. if rs = [] then None else Some (JFin (Max (set (map rr_max rs)))))] stat"

definition effective_stat :: "aggregated_benchmark \<Rightarrow> string" where
  "effective_stat b =
     (case ab_aggregate_stat b of
        Some s \<Rightarrow> if s \<noteq> [] \<and> STAT_SQL s \<noteq> None then s else ''avg''
      | None \<Rightarrow> ''avg'')"

definition run_bounds :: "test_run \<Rightarrow> aggregated_benchmark \<Rightarrow> bounds" where
  "run_bounds run b =
     analysisBoundsFromRow
       (Some \<lparr>tw_start_time = tr_start_time run, tw_end_time = tr_end_time run,
              tw_ramp_up = map_option (\<lambda>q. VNum (JFin q)) (tr_ramp_up run), tw_ramp_down = None\<rparr>)
       (ab_exclude_ramp_up_time b)"

definition raw_samples :: "test_run \<Rightarrow> aggregated_benchmark \<Rightarrow> sample list \<Rightarrow> sample list" where
  "raw_samples run b table =
     filter (\<lambda>x. sa_test_run_id x = tr_test_run_id run \<and> in_bounds (run_bounds run b) (sa_time x)) table"

definition rollup_rows :: "test_run \<Rightarrow> aggregated_benchmark \<Rightarrow> rollup_row list \<Rightarrow> rollup_row list" where
  "rollup_rows run b table =
     filter (\<lambda>r. rr_test_run_id r = tr_test_run_id run
                 \<and> rr_ramp_up_excluded r = ab_exclude_ramp_up_time b) table"

definition raw_error_pct :: "sample list \<Rightarrow> jsnum option" where
  "raw_error_pct xs =
     (if xs = [] then None
      else Some (JFin (of_int (int (length (filter (\<lambda>x. \<not> sa_success x) xs)))
                       / of_int (int (length xs)) * 100)))"

definition rollup_error_pct :: "rollup_row list \<Rightarrow> jsnum option" where
  "rollup_error_pct rs =
     (let n = sum_list (map rr_total_count rs)
      in if n = 0 then None
         else Some (JFin (of_int (sum_list (map rr_failed_count rs)) / of_int n * 100)))"

definition computeMetric :: "samples_db \<Rightarrow> test_run \<Rightarrow> aggregated_benchmark \<Rightarrow> jsnum option" where
  "computeMetric db run b =
     (if ab_aggregate_metric b = ''error_percentage'' then
        (let rollup = rollup_rows run b (sd_sampler_stats db)
         in if rollup \<noteq> [] then rollup_error_pct rollup
            else raw_error_pct (raw_samples run b (sd_requests_raw db)))
      else
        (let stat = effective_stat b;
             rollup = (if ab_aggregate_metric b = ''transaction_response_time'' then sd_transaction_stats db
                       else if ab_aggregate_metric b = ''request_response_time'' then sd_sampler_stats db
                       else []);
             rows = rollup_rows run b rollup;
             table = (if ab_aggregate_metric b = ''transaction_response_time'' then sd_transactions db
                      else sd_requests_raw db);
             raw = (let xs = map sa_response_time (raw_samples run b table)
                    in if xs = [] then None else map_option (\<lambda>f. f xs) (STAT_SQL stat))
         in case ROLLUP_STAT_SQL stat of
              Some f \<Rightarrow> if rows \<noteq> [] then f rows else raw
            | None \<Rightarrow> raw))"

definition applyOperator :: "jsnum \<Rightarrow> string \<Rightarrow> jsval \<Rightarrow> bool" where
  "applyOperator actual operator threshold =
     (case evaluateRequirement (VNum actual) operator threshold of None \<Rightarrow> True | Some met \<Rightarrow> met)"

text \<open>\<open>queries_ok\<close>: no query throws; the texts of the messages are left out.\<close>

definition evaluate :: "samples_db \<Rightarrow> bool \<Rightarrow> test_run \<Rightarrow> aggregated_benchmark \<Rightarrow> aggregated_result" where
  "evaluate db queries_ok run b =
     (if \<not> queries_ok then
        \<lparr>ag_benchmark_id = ab_id b, ag_test_run_id = tr_test_run_id run, ag_actual_value = None,
         ag_meets_requirement = None, ag_status = AggError\<rparr>
      else case computeMetric db run b of
             None \<Rightarrow> \<lparr>ag_benchmark_id = ab_id b, ag_test_run_id = tr_test_run_id run, ag_actual_value = None,
                      ag_meets_requirement = None, ag_status = AggNoData\<rparr>
           | Some v \<Rightarrow> \<lparr>ag_benchmark_id = ab_id b, ag_test_run_id = tr_test_run_id run,
                        ag_actual_value = Some v,
                        ag_meets_requirement = Some (applyOperator v (ab_requirement_operator b)
                                                       (ab_requirement_value b)),
                        ag_status = AggComplete\<rparr>)"

section \<open>Properties of the aggregation\<close>

lemma collect_targets_eq:
  "collect_targets f ms (ts, vs) =
     (let new = List.map_filter (stat_target f) ms
      in (ts @ new, vs @ map (the \<circ> mt_value) (filter (\<lambda>t. \<not> mt_weakTrend t) new)))"
  by (induction ms arbitrary: ts vs) (auto simp: Let_def map_filter_simps split: option.splits)

lemma average_bounds:
  fixes qs :: "rat list"
  assumes "qs \<noteq> []" and "\<forall>q \<in> set qs. lo \<le> q \<and> q \<le> hi"
  shows "\<exists>a. average (map JFin qs) = JFin a \<and> lo \<le> a \<and> a \<le> hi"
proof -
  have s: "foldl js_add (JFin c) (map JFin qs) = JFin (c + sum_list qs)" for c
    by (induction qs arbitrary: c) (simp_all add: add.assoc)
  have n: "(0 :: rat) < of_nat (length qs)" using assms(1) by simp
  have "of_nat (length qs) * lo \<le> sum_list qs \<and> sum_list qs \<le> of_nat (length qs) * hi"
    using assms(2) by (induction qs) (auto simp: algebra_simps)
  then have "lo \<le> sum_list qs / of_nat (length qs) \<and> sum_list qs / of_nat (length qs) \<le> hi"
    using n by (simp add: pos_le_divide_eq pos_divide_le_eq mult.commute)
  then show ?thesis using s [of 0] by (simp add: average_def)
qed

text \<open>
  The panel average of an averaging SLO. It is computed from the targets whose trend is not
  weak: without one it is null, and otherwise, when the values are finite, it lies between any
  bounds of those values, whatever the slopes of the weak series are.
\<close>

theorem panel_average_of_strong:
  assumes "bm_average_all b" and "length stats \<noteq> 1"
    and "ar = aggregate_statistics b f stats"
    and "\<forall>t \<in> set (ar_targets ar). \<not> mt_weakTrend t \<longrightarrow> (\<exists>q. mt_value t = Some (JFin q) \<and> lo \<le> q \<and> q \<le> hi)"
  shows "if \<forall>t \<in> set (ar_targets ar). mt_weakTrend t then ar_panel_average ar = None
         else \<exists>a. ar_panel_average ar = Some (JFin a) \<and> lo \<le> a \<and> a \<le> hi"
proof -
  define new where "new = List.map_filter (stat_target f) stats"
  define strong where "strong = filter (\<lambda>t. \<not> mt_weakTrend t) new"
  have ar: "ar_targets ar = new"
    "ar_panel_average ar = (if strong = [] then None else Some (average (map (the \<circ> mt_value) strong)))"
    using assms(1-3)
    by (auto simp: aggregate_statistics_def collect_targets_eq Let_def new_def strong_def)
  show ?thesis
  proof (cases "strong = []")
    case True
    then have "\<forall>t \<in> set new. mt_weakTrend t" by (auto simp: strong_def filter_empty_conv)
    with ar True show ?thesis by simp
  next
    case False
    then have n: "\<not> (\<forall>t \<in> set new. mt_weakTrend t)" by (auto simp: strong_def filter_empty_conv)
    have q: "\<exists>q. mt_value t = Some (JFin q) \<and> lo \<le> q \<and> q \<le> hi" if "t \<in> set strong" for t
      using assms(4) that ar(1) by (auto simp: strong_def)
    define val where "val t = (case mt_value t of Some (JFin q) \<Rightarrow> q | _ \<Rightarrow> 0)" for t :: metric_target
    have b: "lo \<le> val t \<and> val t \<le> hi" if "t \<in> set strong" for t
      using q [OF that] by (auto simp: val_def)
    have "the (mt_value t) = JFin (val t)" if "t \<in> set strong" for t
      using q [OF that] by (auto simp: val_def)
    then have v: "map (the \<circ> mt_value) strong = map JFin (map val strong)" by simp
    have "\<exists>a. average (map JFin (map val strong)) = JFin a \<and> lo \<le> a \<and> a \<le> hi"
      by (rule average_bounds) (use False b in auto)
    then have "\<exists>a. average (map (the \<circ> mt_value) strong) = JFin a \<and> lo \<le> a \<and> a \<le> hi"
      by (simp only: v)
    with ar False n show ?thesis by simp
  qed
qed

definition demo_stat :: "string \<Rightarrow> rat \<Rightarrow> rat \<Rightarrow> metric_statistic" where
  "demo_stat n slope r =
     (artificial_statistic (row_to_benchmark demo_row) (JFin 0))
       \<lparr>ms_metric_name := n, ms_is_constant := False, ms_count := VNum (JFin 20),
        ms_trend_pct_per_hour := Some (JFin slope), ms_trend_corr := Some (JFin r)\<rparr>"

lemma demo_stat_target:
  assumes "n \<noteq> []"
  shows "stat_target ''trend_pct_per_hour'' (demo_stat n slope r) =
    Some \<lparr>mt_target = n, mt_value = Some (JFin slope), mt_isArtificial = False,
          mt_weakTrend = (\<bar>r\<bar> < 1 / 2), mt_trendCorr = Some (Some (JFin r))\<rparr>"
proof -
  have m: "ms_metric_name (demo_stat n slope r) = n" "\<not> ms_is_constant (demo_stat n slope r)"
    "ms_count (demo_stat n slope r) = VNum (JFin 20)" "ms_trend_corr (demo_stat n slope r) = Some (JFin r)"
    "ms_trend_pct_per_hour (demo_stat n slope r) = Some (JFin slope)"
    by (simp_all add: demo_stat_def)
  have "getFieldValue (demo_stat n slope r) ''trend_pct_per_hour'' = Some (JFin slope)"
    by (simp add: getFieldValue_def m)
  then show ?thesis
    using assms
    by (simp add: stat_target_def m weak_trend_def TREND_MIN_CORR_def TREND_MIN_POINTS_def)
qed

theorem panel_average_of_strong_witness:
  "\<exists>a. ar_panel_average (aggregate_statistics ((row_to_benchmark demo_row)\<lparr>bm_average_all := True\<rparr>)
        ''trend_pct_per_hour'' [demo_stat ''x'' 4 (9 / 10), demo_stat ''y'' 900 (1 / 10)]) = Some (JFin a)
     \<and> 1 \<le> a \<and> a \<le> 5"
proof -
  let ?b = "(row_to_benchmark demo_row)\<lparr>bm_average_all := True\<rparr>"
  let ?stats = "[demo_stat ''x'' 4 (9 / 10), demo_stat ''y'' 900 (1 / 10)]"
  define ar where "ar = aggregate_statistics ?b ''trend_pct_per_hour'' ?stats"
  define g where "g = (\<lambda>t :: metric_target. (mt_weakTrend t, mt_value t))"
  have m: "map g (ar_targets ar) = [(False, Some (JFin 4)), (True, Some (JFin 900))]"
    by (simp add: ar_def g_def aggregate_statistics_def demo_stat_target)
  have "(False, Some (JFin 4)) \<in> set (map g (ar_targets ar))" unfolding m by simp
  then have w: "\<not> (\<forall>t \<in> set (ar_targets ar). mt_weakTrend t)" by (auto simp: g_def)
  have "\<not> mt_weakTrend t \<longrightarrow> (\<exists>q. mt_value t = Some (JFin q) \<and> 1 \<le> q \<and> q \<le> 5)"
    if t: "t \<in> set (ar_targets ar)" for t
  proof -
    have "g t \<in> set (map g (ar_targets ar))" using t by simp
    then show ?thesis unfolding m by (auto simp: g_def)
  qed
  then have "if \<forall>t \<in> set (ar_targets ar). mt_weakTrend t then ar_panel_average ar = None
         else \<exists>a. ar_panel_average ar = Some (JFin a) \<and> 1 \<le> a \<and> a \<le> 5"
    by (intro panel_average_of_strong [OF _ _ ar_def]) simp_all
  with w show ?thesis unfolding ar_def [symmetric] by (simp only: if_False)
qed

lemma fetch_append:
  "fetch_statistics (db\<lparr>db_statistics := xs @ ys\<rparr>) run b p f =
     fetch_statistics (db\<lparr>db_statistics := xs\<rparr>) run b p f
     @ fetch_statistics (db\<lparr>db_statistics := ys\<rparr>) run b p f"
  by (simp add: fetch_statistics_def visible_dashboard_def)

text \<open>
  Backfilling is idempotent. When a panel has no data and the benchmark has a default, the
  aggregation answers with the default and stores an artificial row; run again on the stored
  data, it reads that row back and answers the same, for every kind of aggregation, trends included.
\<close>

theorem backfill_idempotent:
  assumes "bm_configuration b = Some c" and "cf_id c = Some p" and "p \<noteq> 0"
    and "p \<notin> {TXN_ERROR_RATE, REQ_ERROR_RATE}"
    and "bm_validate_with_default_if_no_data b"
    and "visible_dashboard db run (bm_application_dashboard_id b)"
    and "fetch_statistics db run b p None = []"
    and "aggregateMetricsForBenchmark db run b None ok = Inr (ar, db')"
  shows "ar_panel_average ar = Some (default_value b)
     \<and> fetch_statistics db' run b p None = [artificial_statistic b (default_value b)]
     \<and> aggregateMetricsForBenchmark db' run b None ok = Inr (ar, db')"
proof -
  let ?v = "default_value b"
  let ?m = "artificial_statistic b ?v"
  let ?new = "\<lparr>sr_test_run_id = tr_test_run_id run,
     sr_application_dashboard_id = bm_application_dashboard_id b, sr_panel_id = p, sr_stat = ?m\<rparr>"
  have ar: "ar = \<lparr>ar_panel_average = Some ?v, ar_targets = [\<lparr>mt_target = ''default'', mt_value = Some ?v,
      mt_isArtificial = True, mt_weakTrend = False, mt_trendCorr = None\<rparr>]\<rparr>"
    and db': "db' = createArtificialMetricStatistic db run b p ?v"
    using assms by (auto simp: aggregateMetricsForBenchmark_def)
  have none: "\<not> (\<exists>r \<in> set (db_statistics db). same_key r ?new)"
  proof
    assume "\<exists>r \<in> set (db_statistics db). same_key r ?new"
    then obtain r where r: "r \<in> set (db_statistics db)" "same_key r ?new" by blast
    have "\<not> truthy_str None" by (simp add: truthy_str_def)
    with r assms(6) have "sr_stat r \<in> set (fetch_statistics db run b p None)"
      by (auto simp: fetch_statistics_def same_key_def)
    with assms(7) show False by simp
  qed
  have db2: "db' = db\<lparr>db_statistics := db_statistics db @ [?new]\<rparr>"
    using none by (simp add: db' createArtificialMetricStatistic_def)
  have vis: "visible_dashboard (db\<lparr>db_statistics := xs\<rparr>) run (bm_application_dashboard_id b)" for xs
    using assms(6) by (simp add: visible_dashboard_def)
  have f: "fetch_statistics db' run b p None = [?m]"
    unfolding db2 fetch_append using assms(7) vis
    by (simp add: fetch_statistics_def truthy_str_def)
  have name: "ms_metric_name ?m = ''default''" "ms_is_constant ?m" "ms_mean ?m = Some ?v"
    by (simp_all add: artificial_statistic_def)
  have one: "average [?v] = ?v"
    by (cases ?v) (simp_all add: average_def)
  have "aggregate_statistics b fn [?m] = ar" for fn
    by (simp add: aggregate_statistics_def collect_targets_eq Let_def map_filter_simps stat_target_def
        name one ar)
  then show ?thesis
    using f ar assms(1-4) by (simp add: aggregateMetricsForBenchmark_def Let_def)
qed

definition demo_trend_benchmark :: benchmark where
  "demo_trend_benchmark = (row_to_benchmark demo_row)
     \<lparr>bm_configuration := Some (empty_config\<lparr>cf_id := Some 7\<rparr>), bm_evaluate_type := Some ''trend'',
      bm_validate_with_default_if_no_data := True,
      bm_validate_with_default_if_no_data_value := Some (JFin 3)\<rparr>"

definition demo_db :: checks_db where
  "demo_db = \<lparr>db_statistics = [], db_dashboards = [(''d'', None)], db_dynatrace = [],
     db_transaction_stats = [], db_sampler_stats = [], db_metrics_sources = []\<rparr>"

theorem backfill_idempotent_witness:
  "\<exists>ar db'. aggregateMetricsForBenchmark demo_db demo_run demo_trend_benchmark None True = Inr (ar, db')
     \<and> db' \<noteq> demo_db
     \<and> aggregateMetricsForBenchmark db' demo_run demo_trend_benchmark None True = Inr (ar, db')"
proof -
  let ?b = demo_trend_benchmark
  have c: "bm_configuration ?b = Some (empty_config\<lparr>cf_id := Some 7\<rparr>)"
    "bm_validate_with_default_if_no_data ?b" by (simp_all add: demo_trend_benchmark_def)
  have i: "cf_id (empty_config\<lparr>cf_id := Some 7\<rparr>) = Some 7" by simp
  have vis: "visible_dashboard demo_db demo_run (bm_application_dashboard_id ?b)"
    by (simp add: visible_dashboard_def demo_db_def demo_trend_benchmark_def row_to_benchmark_def demo_row_def)
  have f: "fetch_statistics demo_db demo_run ?b 7 None = []"
    by (simp add: fetch_statistics_def demo_db_def)
  obtain ar db' where a: "aggregateMetricsForBenchmark demo_db demo_run ?b None True = Inr (ar, db')"
    using c i f by (simp add: aggregateMetricsForBenchmark_def)
  note t = backfill_idempotent [OF c(1) i _ _ c(2) vis f a]
  have p: "(7 :: int) \<notin> {TXN_ERROR_RATE, REQ_ERROR_RATE}" by (simp add: TXN_ERROR_RATE_def REQ_ERROR_RATE_def)
  have "db' \<noteq> demo_db" using t p f by auto
  with t p a show ?thesis by auto
qed

text \<open>
  A single constant series loses its name: its target is called \<open>default\<close> and marked artificial,
  although its data are real.
\<close>

lemma constant_series_renamed:
  assumes "ms_is_constant m" and "f \<noteq> ''trend_pct_per_hour''"
  shows "map (\<lambda>t. (mt_target t, mt_isArtificial t)) (ar_targets (aggregate_statistics b f [m]))
           = [(''default'', True)]"
  using assms by (simp add: aggregate_statistics_def)

section \<open>The rollup answers for the raw samples\<close>

text \<open>What the rollup stores for a group of samples.\<close>

definition rolls_up :: "rollup_row \<Rightarrow> sample list \<Rightarrow> bool" where
  "rolls_up r xs \<longleftrightarrow> xs \<noteq> [] \<and> rr_total_count r = int (length xs)
     \<and> rr_failed_count r = int (length (filter (\<lambda>x. \<not> sa_success x) xs))
     \<and> rr_avg_response_time r = sum_list (map sa_response_time xs) / of_int (int (length xs))
     \<and> rr_max r = Max (set (map sa_response_time xs))"

lemma rolls_up_sums:
  assumes "list_all2 rolls_up rs groups"
  shows "sum_list (map rr_total_count rs) = int (length (concat groups))"
    and "sum_list (map rr_failed_count rs) = int (length (filter (\<lambda>x. \<not> sa_success x) (concat groups)))"
    and "sum_list (map (\<lambda>r. rr_avg_response_time r * of_int (rr_total_count r)) rs)
          = sum_list (map sa_response_time (concat groups))"
    and "rs \<noteq> [] \<Longrightarrow> Max (set (map rr_max rs)) = Max (set (map sa_response_time (concat groups)))"
  using assms
proof (induction rule: list_all2_induct)
  case Nil
  {
    case 1 then show ?case by simp
  next
    case 2 then show ?case by simp
  next
    case 3 then show ?case by simp
  next
    case 4 then show ?case by simp
  }
next
  case (Cons r rs xs gs)
  have n: "(of_int (int (length xs)) :: rat) \<noteq> 0" using Cons(1) by (simp add: rolls_up_def)
  {
    case 1 then show ?case using Cons by (simp add: rolls_up_def)
  next
    case 2 then show ?case using Cons by (simp add: rolls_up_def)
  next
    case 3 then show ?case using Cons n by (simp add: rolls_up_def)
  next
    case 4
    show ?case
    proof (cases "rs = []")
      case True
      with Cons(2) have "gs = []" by simp
      with True Cons(1) show ?thesis by (simp add: rolls_up_def)
    next
      case False
      then have ih: "Max (set (map rr_max rs)) = Max (set (map sa_response_time (concat gs)))"
        using Cons by blast
      obtain y ys where gs: "gs = y # ys" "y \<noteq> []"
        using Cons(2) False by (cases gs; cases rs) (auto simp: rolls_up_def)
      have "Max (set (map rr_max (r # rs))) = max (rr_max r) (Max (set (map rr_max rs)))"
        using False by simp
      also have "\<dots> = max (Max (set (map sa_response_time xs))) (Max (set (map sa_response_time (concat gs))))"
        using Cons(1) ih by (simp add: rolls_up_def)
      also have "\<dots> = Max (set (map sa_response_time xs) \<union> set (map sa_response_time (concat gs)))"
        using Cons(1) gs by (intro Max_Un [symmetric]) (auto simp: rolls_up_def)
      finally show ?thesis by (simp add: image_Un)
    qed
  }
qed

text \<open>
  Reading the rollup refines reading the samples. When the rollup rows of a run are the exact
  statistics of a partition of the samples in the run's window, every aggregated metric and
  statistic has the same value with the rollup as without it: the error percentage, the average and
  the maximum are computed from it exactly, and percentiles do not use it at all.
\<close>

theorem rollup_refines_raw:
  assumes "ab_aggregate_metric b \<in> {''error_percentage'', ''request_response_time''}"
    and "list_all2 rolls_up (rollup_rows run b (sd_sampler_stats db)) groups"
    and "concat groups = raw_samples run b (sd_requests_raw db)"
  shows "computeMetric db run b = computeMetric (db\<lparr>sd_sampler_stats := []\<rparr>) run b"
proof (cases "rollup_rows run b (sd_sampler_stats db) = []")
  case True
  then show ?thesis
    by (simp add: computeMetric_def rollup_rows_def Let_def split: option.splits)
next
  case False
  let ?rs = "rollup_rows run b (sd_sampler_stats db)" and ?xs = "raw_samples run b (sd_requests_raw db)"
  note sums = rolls_up_sums [OF assms(2), unfolded assms(3)]
  obtain r rs y ys where c: "?rs = r # rs" "groups = y # ys" "rolls_up r y"
    using assms(2) False by (cases ?rs; cases groups) auto
  then have ne: "?xs \<noteq> []" using assms(3) by (auto simp: rolls_up_def)
  have e: "rollup_rows run b [] = []" by (simp add: rollup_rows_def)
  show ?thesis
  proof (cases "ab_aggregate_metric b = ''error_percentage''")
    case True
    have "rollup_error_pct ?rs = raw_error_pct ?xs"
      using ne by (simp add: rollup_error_pct_def raw_error_pct_def sums(1,2) Let_def)
    then show ?thesis using True False e by (simp add: computeMetric_def Let_def raw_samples_def)
  next
    case err: False
    then have req: "ab_aggregate_metric b = ''request_response_time''" using assms(1) by simp
    have "f ?rs = map_option (\<lambda>g. g (map sa_response_time ?xs)) (STAT_SQL (effective_stat b))"
      if "ROLLUP_STAT_SQL (effective_stat b) = Some f" for f
    proof -
      from that consider (avg) "effective_stat b = ''avg''" | (max) "effective_stat b = ''max''"
        by (auto simp: ROLLUP_STAT_SQL_def split: if_splits)
      then show ?thesis
      proof cases
        case avg
        with that ne show ?thesis by (auto simp: ROLLUP_STAT_SQL_def STAT_SQL_def Let_def sums(1,3))
      next
        case max
        with that False show ?thesis
          by (auto simp: ROLLUP_STAT_SQL_def STAT_SQL_def Let_def sums(4) [OF False, unfolded set_map])
      qed
    qed
    then show ?thesis
      using req False ne e
      by (simp add: computeMetric_def Let_def raw_samples_def split: option.splits)
  qed
qed

definition demo_samples :: "sample list" where
  "demo_samples =
     [\<lparr>sa_test_run_id = ''r'', sa_time = 1, sa_response_time = 10, sa_success = True\<rparr>,
      \<lparr>sa_test_run_id = ''r'', sa_time = 2, sa_response_time = 30, sa_success = False\<rparr>]"

definition demo_rollup :: rollup_row where
  "demo_rollup = \<lparr>rr_test_run_id = ''r'', rr_ramp_up_excluded = False, rr_scenario_name = [],
     rr_transaction_name = None, rr_sampler_name = ''x'', rr_failed_count = 1, rr_total_count = 2,
     rr_avg_response_time = 20, rr_max = 30\<rparr>"

definition demo_aggregated :: aggregated_benchmark where
  "demo_aggregated = \<lparr>ab_id = ''a'', ab_aggregate_metric = ''request_response_time'',
     ab_aggregate_stat = Some ''max'', ab_requirement_operator = ''lt'',
     ab_requirement_value = VNum (JFin 40), ab_exclude_ramp_up_time = False\<rparr>"

theorem rollup_refines_raw_witness:
  "computeMetric \<lparr>sd_transactions = [], sd_requests_raw = demo_samples, sd_transaction_stats = [],
      sd_sampler_stats = [demo_rollup]\<rparr> demo_run demo_aggregated
   = computeMetric \<lparr>sd_transactions = [], sd_requests_raw = demo_samples, sd_transaction_stats = [],
      sd_sampler_stats = []\<rparr> demo_run demo_aggregated"
proof -
  let ?db = "\<lparr>sd_transactions = [], sd_requests_raw = demo_samples, sd_transaction_stats = [],
      sd_sampler_stats = [demo_rollup]\<rparr>"
  have "rollup_rows demo_run demo_aggregated [demo_rollup] = [demo_rollup]"
    by (simp add: rollup_rows_def demo_run_def demo_aggregated_def demo_rollup_def)
  moreover have "rolls_up demo_rollup demo_samples"
    by (simp add: rolls_up_def demo_rollup_def demo_samples_def)
  ultimately have "list_all2 rolls_up (rollup_rows demo_run demo_aggregated (sd_sampler_stats ?db)) [demo_samples]"
    by simp
  moreover have "concat [demo_samples] = raw_samples demo_run demo_aggregated (sd_requests_raw ?db)"
    by (simp add: raw_samples_def demo_samples_def demo_run_def run_bounds_def analysisBoundsFromRow_def
        demo_aggregated_def in_bounds_def)
  moreover have "ab_aggregate_metric demo_aggregated \<in> {''error_percentage'', ''request_response_time''}"
    by (simp add: demo_aggregated_def)
  ultimately show ?thesis using rollup_refines_raw [of demo_aggregated demo_run ?db] by simp
qed

end
