(* ===== verification/Apdex.thy ===== *)
theory Apdex
  imports Aggregation "HOL-Library.Multiset"
begin

text \<open>
  The Apdex SLOs (\<open>pipelines/checks/ApdexCalculator.ts\<close>): the raw scan of the transactions, the
  rollup fast path, the thresholds, and the verdicts on one transaction and on a workload.

  Tables are lists of rows. The quantile sketches that the rollup stores belong to the database
  toolkit: \<open>'k\<close> is their type, combining them and reading a percentile rank are arguments, and a
  rank of \<open>None\<close> is the toolkit's NaN. A statement that throws is a flag. Messages, log lines and the
  collation of \<open>ORDER BY\<close> are left out; a savepoint only separates the statements that may throw.
  The two statements of a workload that no \<open>try\<close> guards (its transactions and thresholds) are taken
  to succeed.
\<close>

record apdex_result =
  ax_transaction_name :: "string option"
  ax_satisfied :: int
  ax_tolerating :: int
  ax_frustrated :: int
  ax_total :: int
  ax_observed :: int
  ax_score :: "rat option"
  ax_threshold_ms :: rat
  ax_avg :: "rat option"

record apdex_benchmark =
  xb_id :: string
  xb_system_under_test_id :: string
  xb_test_environment :: string
  xb_workload :: string
  xb_transaction_name :: "string option"
  xb_threshold_ms :: "rat option"
  xb_min_score :: rat
  xb_include_failed :: bool
  xb_exclude_ramp_up :: bool
  xb_min_samples :: int

record tx_row =
  tx_test_run_id :: string
  tx_time :: int
  tx_name :: "string option"
  tx_scenario :: "string option"
  tx_response_time :: "rat option"
  tx_success :: bool

record 'k stats_row =
  ts_test_run_id :: string
  ts_ramp_up_excluded :: bool
  ts_name :: "string option"
  ts_scenario :: string
  ts_total :: int
  ts_passed :: int
  ts_avg :: rat
  ts_pct_agg :: 'k
  ts_pct_agg_passed :: "'k option"

record threshold_row =
  th_system_under_test_id :: string
  th_test_environment :: string
  th_workload :: string
  th_name :: string
  th_organization_id :: "string option"
  th_threshold :: "rat option"

record 'k apdex_db =
  xd_transactions :: "tx_row list"
  xd_stats :: "'k stats_row list"
  xd_tx_thresholds :: "threshold_row list"
  xd_wl_thresholds :: "threshold_row list"
  xd_runs :: "test_run list"

record 'k toolkit =
  tk_rollup :: "'k list \<Rightarrow> 'k"
  tk_rank :: "rat \<Rightarrow> 'k \<Rightarrow> rat option"

section \<open>Scores\<close>

definition score_of :: "int \<Rightarrow> int \<Rightarrow> int \<Rightarrow> rat option" where
  "score_of sat tol tot =
     (if 0 < tot
      then Some (of_int (js_round ((of_int sat + of_int tol * (1 / 2)) / of_int tot * 1000)) / 1000)
      else None)"

text \<open>An observed count that is missing falls back to the scored total.\<close>

definition parseObserved :: "int option \<Rightarrow> int \<Rightarrow> int" where
  "parseObserved raw tot = (case raw of None \<Rightarrow> tot | Some n \<Rightarrow> n)"

definition apdex_bounds :: "test_run \<Rightarrow> bool \<Rightarrow> bounds" where
  "apdex_bounds run excludeRampUp =
     analysisBoundsFromRow
       (Some \<lparr>tw_start_time = tr_start_time run, tw_end_time = tr_end_time run,
              tw_ramp_up = map_option (\<lambda>q. VNum (JFin q)) (tr_ramp_up run), tw_ramp_down = None\<rparr>)
       excludeRampUp"

definition count_rows :: "('a \<Rightarrow> bool) \<Rightarrow> 'a list \<Rightarrow> int" where
  "count_rows P xs = int (length (filter P xs))"

definition calculateApdexRaw ::
  "'k apdex_db \<Rightarrow> test_run \<Rightarrow> string option \<Rightarrow> rat \<Rightarrow> bool \<Rightarrow> bool \<Rightarrow> apdex_result" where
  "calculateApdexRaw db run transactionName threshold_ms includeFailed excludeRampUp =
     (let toleratingThreshold = threshold_ms * 4;
          rows = filter (\<lambda>r. tx_test_run_id r = tr_test_run_id run
                    \<and> (truthy_str transactionName \<longrightarrow> tx_name r = transactionName)
                    \<and> in_bounds (apdex_bounds run excludeRampUp) (tx_time r)) (xd_transactions db);
          scored = (\<lambda>r. tx_response_time r \<noteq> None \<and> (includeFailed \<or> tx_success r));
          rt = (\<lambda>r. the (tx_response_time r));
          sat = count_rows (\<lambda>r. scored r \<and> rt r \<le> threshold_ms) rows;
          tol = count_rows (\<lambda>r. scored r \<and> threshold_ms < rt r \<and> rt r \<le> toleratingThreshold) rows;
          fru = count_rows (\<lambda>r. scored r \<and> toleratingThreshold < rt r) rows;
          tot = count_rows scored rows;
          observed = parseObserved (Some (int (length rows))) tot;
          scoredTimes = map rt (filter scored rows)
      in \<lparr>ax_transaction_name = transactionName, ax_satisfied = sat, ax_tolerating = tol,
          ax_frustrated = fru, ax_total = tot, ax_observed = observed,
          ax_score = score_of sat tol tot, ax_threshold_ms = threshold_ms,
          ax_avg = (if scoredTimes = [] then None
                    else Some (round2 (sum_list scoredTimes / of_int (int (length scoredTimes)))))\<rparr>)"

text \<open>\<open>ROUND\<close> of a double rounds half to even.\<close>

definition pg_round :: "rat \<Rightarrow> int" where
  "pg_round q =
     (let f = \<lfloor>q\<rfloor>; r = q - of_int f
      in if r < 1 / 2 then f else if 1 / 2 < r then f + 1 else if even f then f else f + 1)"

text \<open>
  One group of the rollup statement: the wanted transaction and threshold, and its joined rows.
  A NaN rank is a threshold at the maximum of the sketch and counts as 1.
\<close>

definition rollup_group ::
  "'k toolkit \<Rightarrow> bool \<Rightarrow> string \<Rightarrow> rat \<Rightarrow> 'k stats_row list \<Rightarrow> apdex_result option" where
  "rollup_group tk includeFailed name thr rows =
     (let effective_total = sum_list (map (\<lambda>s. if includeFailed then ts_total s else ts_passed s) rows);
          sum_total = sum_list (map ts_total rows);
          sum_avg = sum_list (map (\<lambda>s. ts_avg s * of_int (ts_total s)) rows)
      in if rows \<noteq> [] \<and> 0 < effective_total
            \<and> (includeFailed \<or> (\<forall>s \<in> set rows. ts_pct_agg_passed s \<noteq> None))
         then
           (let pct_eff = tk_rollup tk (map (\<lambda>s. if includeFailed then ts_pct_agg s
                                                 else the (ts_pct_agg_passed s)) rows);
                rank_t = (case tk_rank tk thr pct_eff of None \<Rightarrow> 1 | Some q \<Rightarrow> q);
                rank_4t = (case tk_rank tk (thr * 4) pct_eff of None \<Rightarrow> 1 | Some q \<Rightarrow> q);
                n_t = pg_round (rank_t * of_int effective_total);
                n_4t = pg_round (rank_4t * of_int effective_total);
                sat = max n_t 0;
                tol = max (n_4t - n_t) 0;
                fru = max (effective_total - n_4t) 0
            in Some \<lparr>ax_transaction_name = Some name, ax_satisfied = sat, ax_tolerating = tol,
                 ax_frustrated = fru, ax_total = effective_total,
                 ax_observed = parseObserved (Some sum_total) effective_total,
                 ax_score = score_of sat tol effective_total, ax_threshold_ms = thr,
                 ax_avg = (if sum_total = 0 then None else Some (round2 (sum_avg / of_int sum_total)))\<rparr>)
         else None)"

text \<open>
  The rollup fast path for many transactions: each wanted pair joined with its rows. The result is
  a map; a later entry of a name replaces an earlier one.
\<close>

definition calculateApdexFromRollupBulk ::
  "'k toolkit \<Rightarrow> 'k apdex_db \<Rightarrow> string \<Rightarrow> (string \<times> rat) list \<Rightarrow> bool \<Rightarrow> bool
     \<Rightarrow> string \<Rightarrow> apdex_result option" where
  "calculateApdexFromRollupBulk tk db testRunId transactions includeFailed excludeRampUp =
     (let joined = concat (map (\<lambda>w. map (Pair w)
            (filter (\<lambda>s. ts_test_run_id s = testRunId \<and> ts_ramp_up_excluded s = excludeRampUp
                     \<and> ts_name s = Some (fst w)) (xd_stats db))) transactions);
          groups = remdups (map fst joined)
      in foldl (\<lambda>hits w. case rollup_group tk includeFailed (fst w) (snd w)
                               (map snd (filter (\<lambda>j. fst j = w) joined)) of
                           None \<Rightarrow> hits
                           | Some a \<Rightarrow> hits(fst w \<mapsto> a\<lparr>ax_threshold_ms :=
                               (case map_of (rev transactions) (fst w) of None \<Rightarrow> snd w | Some t \<Rightarrow> t)\<rparr>))
         Map.empty groups)"

definition calculateApdex ::
  "'k toolkit \<Rightarrow> 'k apdex_db \<Rightarrow> test_run \<Rightarrow> string option \<Rightarrow> rat \<Rightarrow> bool \<Rightarrow> bool \<Rightarrow> apdex_result" where
  "calculateApdex tk db run transactionName threshold_ms includeFailed excludeRampUp =
     (case (case transactionName of None \<Rightarrow> None
            | Some n \<Rightarrow> calculateApdexFromRollupBulk tk db (tr_test_run_id run) [(n, threshold_ms)]
                          includeFailed excludeRampUp n) of
        Some fastPath \<Rightarrow> fastPath
      | None \<Rightarrow> calculateApdexRaw db run transactionName threshold_ms includeFailed excludeRampUp)"

section \<open>Thresholds\<close>

definition threshold_scope :: "apdex_benchmark \<Rightarrow> string option \<Rightarrow> threshold_row \<Rightarrow> bool" where
  "threshold_scope b org r =
     (th_system_under_test_id r = xb_system_under_test_id b \<and> th_test_environment r = xb_test_environment b
      \<and> th_workload r = xb_workload b
      \<and> (truthy_str org \<longrightarrow> th_organization_id r = org \<or> th_organization_id r = None))"

definition truthy_rat :: "rat option \<Rightarrow> bool" where
  "truthy_rat x = (x \<noteq> None \<and> x \<noteq> Some 0)"

definition per_transaction :: "threshold_row list \<Rightarrow> string \<Rightarrow> rat option" where
  "per_transaction rows =
     foldl (\<lambda>m r. if truthy_rat (th_threshold r) then m(th_name r := th_threshold r) else m) Map.empty rows"

definition loadThresholdResolver ::
  "'k apdex_db \<Rightarrow> apdex_benchmark \<Rightarrow> string list \<Rightarrow> string option \<Rightarrow> string option \<Rightarrow> rat" where
  "loadThresholdResolver db b transactionNames org =
     (let perTransaction = per_transaction (filter (\<lambda>r. threshold_scope b org r
                              \<and> th_name r \<in> set transactionNames) (xd_tx_thresholds db));
          wl = filter (threshold_scope b org) (xd_wl_thresholds db);
          workloadLevel = (if xb_threshold_ms b \<noteq> None then None
                           else case wl of [] \<Rightarrow> None
                                | r # _ \<Rightarrow> if truthy_rat (th_threshold r) then th_threshold r else None)
      in (\<lambda>transactionName.
            case (if truthy_str transactionName then perTransaction (the transactionName) else None) of
              Some specific \<Rightarrow> specific
            | None \<Rightarrow> (case xb_threshold_ms b of Some t \<Rightarrow> t
                      | None \<Rightarrow> (case workloadLevel of Some t \<Rightarrow> t | None \<Rightarrow> 500))))"

definition resolveThreshold :: "'k apdex_db \<Rightarrow> apdex_benchmark \<Rightarrow> string option \<Rightarrow> string option \<Rightarrow> rat" where
  "resolveThreshold db b transactionName org =
     loadThresholdResolver db b (if truthy_str transactionName then [the transactionName] else []) org
       transactionName"

definition default_threshold :: "apdex_benchmark \<Rightarrow> rat" where
  "default_threshold b = (if truthy_rat (xb_threshold_ms b) then the (xb_threshold_ms b) else 500)"

section \<open>Verdicts\<close>

datatype apdex_status = ApComplete | ApError | ApNoData

record tx_result =
  tq_name :: string
  tq_scenario :: string
  tq_score :: "rat option"
  tq_threshold_ms :: rat
  tq_meets :: "bool option"
  tq_below_min :: bool
  tq_satisfied :: int
  tq_tolerating :: int
  tq_frustrated :: int
  tq_total :: int
  tq_avg :: "rat option"

record apdex_check =
  xc_benchmark_id :: string
  xc_test_run_id :: string
  xc_meets :: "bool option"
  xc_below_min :: "bool option"
  xc_result :: apdex_result
  xc_min_score :: rat
  xc_threshold_ms :: rat
  xc_status :: apdex_status
  xc_transactions :: "tx_result list option"

definition empty_apdex :: "string option \<Rightarrow> rat \<Rightarrow> apdex_result" where
  "empty_apdex name thr =
     \<lparr>ax_transaction_name = name, ax_satisfied = 0, ax_tolerating = 0, ax_frustrated = 0, ax_total = 0,
      ax_observed = 0, ax_score = None, ax_threshold_ms = thr, ax_avg = None\<rparr>"

definition meets_score :: "apdex_result \<Rightarrow> rat \<Rightarrow> bool" where
  "meets_score a min_score = (case ax_score a of None \<Rightarrow> False | Some s \<Rightarrow> min_score \<le> s)"

text \<open>\<open>threw\<close>: a statement of the evaluation throws.\<close>

definition evaluateSingleTransaction ::
  "'k toolkit \<Rightarrow> 'k apdex_db \<Rightarrow> bool \<Rightarrow> test_run \<Rightarrow> apdex_benchmark \<Rightarrow> string \<Rightarrow> apdex_check" where
  "evaluateSingleTransaction tk db threw run b transactionName =
     (if threw then
        \<lparr>xc_benchmark_id = xb_id b, xc_test_run_id = tr_test_run_id run, xc_meets = None,
         xc_below_min = None, xc_result = empty_apdex (Some transactionName) (default_threshold b),
         xc_min_score = xb_min_score b, xc_threshold_ms = default_threshold b, xc_status = ApError,
         xc_transactions = None\<rparr>
      else
        (let thr = resolveThreshold db b (Some transactionName) (tr_organization_id run);
             a = calculateApdex tk db run (Some transactionName) thr (xb_include_failed b) (xb_exclude_ramp_up b);
             res = (\<lambda>meets below status.
               \<lparr>xc_benchmark_id = xb_id b, xc_test_run_id = tr_test_run_id run, xc_meets = meets,
                xc_below_min = below, xc_result = a, xc_min_score = xb_min_score b, xc_threshold_ms = thr,
                xc_status = status, xc_transactions = None\<rparr>)
         in if ax_total a = 0 then res (Some False) None ApNoData
            else if ax_observed a < xb_min_samples b then res None (Some True) ApComplete
            else res (Some (meets_score a (xb_min_score b))) None ApComplete))"

text \<open>The transactions of a run with their scenarios: the rollup's, or those of the raw rows.\<close>

definition run_window :: "'k apdex_db \<Rightarrow> string \<Rightarrow> bounds" where
  "run_window db testRunId =
     (case filter (\<lambda>r. tr_test_run_id r = testRunId) (xd_runs db) of
        [] \<Rightarrow> analysisBoundsFromRow None False
      | r # _ \<Rightarrow> apdex_bounds r False)"

definition getAvailableTransactions :: "'k apdex_db \<Rightarrow> string \<Rightarrow> string list" where
  "getAvailableTransactions db testRunId =
     (let rollup = remdups (List.map_filter ts_name (filter (\<lambda>s. ts_test_run_id s = testRunId
                      \<and> \<not> ts_ramp_up_excluded s) (xd_stats db)))
      in if rollup \<noteq> [] then rollup
         else remdups (List.map_filter tx_name (filter (\<lambda>r. tx_test_run_id r = testRunId
                \<and> in_bounds (run_window db testRunId) (tx_time r)) (xd_transactions db))))"

definition getTransactionsWithScenarios :: "'k apdex_db \<Rightarrow> string \<Rightarrow> (string \<times> string) list" where
  "getTransactionsWithScenarios db testRunId =
     (let rollup = remdups (List.map_filter (\<lambda>s. map_option (\<lambda>n. (n, if ts_scenario s = [] then ''default'' else ts_scenario s)) (ts_name s))
                      (filter (\<lambda>s. ts_test_run_id s = testRunId \<and> \<not> ts_ramp_up_excluded s) (xd_stats db)))
      in if rollup \<noteq> [] then rollup
         else remdups (List.map_filter (\<lambda>r. map_option (\<lambda>n. (n, case tx_scenario r of None \<Rightarrow> ''default'' | Some s \<Rightarrow> s)) (tx_name r))
                (filter (\<lambda>r. tx_test_run_id r = testRunId
                   \<and> in_bounds (run_window db testRunId) (tx_time r)) (xd_transactions db))))"

text \<open>The state of the loop over the transactions of a workload.\<close>

record workload_acc =
  wa_allPass :: bool
  wa_anyError :: bool
  wa_satisfied :: int
  wa_tolerating :: int
  wa_frustrated :: int
  wa_total :: int
  wa_observed :: int
  wa_failed :: "string list"
  wa_below :: "string list"
  wa_results :: "tx_result list"

definition init_acc :: workload_acc where
  "init_acc = \<lparr>wa_allPass = True, wa_anyError = False, wa_satisfied = 0, wa_tolerating = 0,
     wa_frustrated = 0, wa_total = 0, wa_observed = 0, wa_failed = [], wa_below = [], wa_results = []\<rparr>"

definition record_result ::
  "rat \<Rightarrow> int \<Rightarrow> string \<Rightarrow> string \<Rightarrow> rat \<Rightarrow> apdex_result \<Rightarrow> workload_acc \<Rightarrow> workload_acc" where
  "record_result min_score min_samples name scenario thr a acc =
     (let meetsReq = meets_score a min_score;
          belowMin = (0 < ax_total a \<and> ax_observed a < min_samples);
          evaluated = (0 < ax_total a \<and> \<not> belowMin);
          failed = (\<not> belowMin \<and> evaluated \<and> \<not> meetsReq)
      in acc\<lparr>wa_below := (if belowMin then wa_below acc @ [name] else wa_below acc),
             wa_allPass := (if failed then False else wa_allPass acc),
             wa_failed := (if failed then wa_failed acc @ [name] else wa_failed acc),
             wa_satisfied := wa_satisfied acc + ax_satisfied a,
             wa_tolerating := wa_tolerating acc + ax_tolerating a,
             wa_frustrated := wa_frustrated acc + ax_frustrated a,
             wa_total := wa_total acc + ax_total a,
             wa_observed := wa_observed acc + ax_observed a,
             wa_results := wa_results acc @
               [\<lparr>tq_name = name, tq_scenario = scenario, tq_score = ax_score a, tq_threshold_ms = thr,
                 tq_meets = (if evaluated then Some meetsReq else None), tq_below_min = belowMin,
                 tq_satisfied = ax_satisfied a, tq_tolerating = ax_tolerating a,
                 tq_frustrated = ax_frustrated a, tq_total = ax_total a, tq_avg = ax_avg a\<rparr>]\<rparr>)"

text \<open>A transaction whose scan throws: recorded without counts.\<close>

definition record_error :: "rat \<Rightarrow> string \<Rightarrow> string \<Rightarrow> workload_acc \<Rightarrow> workload_acc" where
  "record_error thr name scenario acc =
     acc\<lparr>wa_anyError := True,
         wa_results := wa_results acc @
           [\<lparr>tq_name = name, tq_scenario = scenario, tq_score = None, tq_threshold_ms = thr,
             tq_meets = None, tq_below_min = False, tq_satisfied = 0, tq_tolerating = 0,
             tq_frustrated = 0, tq_total = 0, tq_avg = None\<rparr>]\<rparr>"

text \<open>
  \<open>bulk_threw\<close>: the rollup statement throws, then every transaction is a miss. \<open>scan_threw n\<close>: the
  savepoint or the raw scan of transaction \<open>n\<close> throws.
\<close>

definition workload_step ::
  "'k apdex_db \<Rightarrow> test_run \<Rightarrow> apdex_benchmark \<Rightarrow> (string option \<Rightarrow> rat) \<Rightarrow> (string \<Rightarrow> apdex_result option)
     \<Rightarrow> (string \<Rightarrow> bool) \<Rightarrow> workload_acc \<Rightarrow> string \<times> string \<Rightarrow> workload_acc" where
  "workload_step db run b resolve hits scan_threw acc tx =
     (case hits (fst tx) of
        Some a \<Rightarrow> record_result (xb_min_score b) (xb_min_samples b) (fst tx) (snd tx) (resolve (Some (fst tx))) a acc
      | None \<Rightarrow>
          if scan_threw (fst tx) then record_error (default_threshold b) (fst tx) (snd tx) acc
          else record_result (xb_min_score b) (xb_min_samples b) (fst tx) (snd tx) (resolve (Some (fst tx)))
                 (calculateApdexRaw db run (Some (fst tx)) (resolve (Some (fst tx))) (xb_include_failed b)
                    (xb_exclude_ramp_up b)) acc)"

definition workload_loop ::
  "'k toolkit \<Rightarrow> 'k apdex_db \<Rightarrow> bool \<Rightarrow> (string \<Rightarrow> bool) \<Rightarrow> test_run \<Rightarrow> apdex_benchmark
     \<Rightarrow> (string \<times> string) list \<Rightarrow> workload_acc" where
  "workload_loop tk db bulk_threw scan_threw run b txs =
     (let resolve = loadThresholdResolver db b (map fst txs) (tr_organization_id run);
          wanted = map (\<lambda>n. (n, resolve (Some n))) (remdups (map fst txs));
          hits = (if bulk_threw then Map.empty
                  else calculateApdexFromRollupBulk tk db (tr_test_run_id run) wanted (xb_include_failed b)
                         (xb_exclude_ramp_up b))
      in foldl (workload_step db run b resolve hits scan_threw) init_acc txs)"

definition workload_check ::
  "test_run \<Rightarrow> apdex_benchmark \<Rightarrow> (string \<times> string) list \<Rightarrow> workload_acc \<Rightarrow> apdex_check" where
  "workload_check run b txs acc =
     (let overall = score_of (wa_satisfied acc) (wa_tolerating acc) (wa_total acc);
          status = (if wa_anyError acc then ApError else if wa_total acc = 0 then ApNoData else ApComplete);
          nothingEvaluated = (wa_below acc \<noteq> [] \<and> length txs \<le> length (wa_below acc))
      in \<lparr>xc_benchmark_id = xb_id b, xc_test_run_id = tr_test_run_id run,
          xc_meets = (if 0 < wa_total acc
                      then (if nothingEvaluated then None else Some (wa_allPass acc)) else Some False),
          xc_below_min = Some nothingEvaluated,
          xc_result = \<lparr>ax_transaction_name = None, ax_satisfied = wa_satisfied acc,
             ax_tolerating = wa_tolerating acc, ax_frustrated = wa_frustrated acc,
             ax_total = wa_total acc, ax_observed = wa_observed acc, ax_score = overall,
             ax_threshold_ms = default_threshold b, ax_avg = None\<rparr>,
          xc_min_score = xb_min_score b, xc_threshold_ms = default_threshold b, xc_status = status,
          xc_transactions = Some (wa_results acc)\<rparr>)"

definition evaluateWorkloadLevelApdex ::
  "'k toolkit \<Rightarrow> 'k apdex_db \<Rightarrow> bool \<Rightarrow> (string \<Rightarrow> bool) \<Rightarrow> test_run \<Rightarrow> apdex_benchmark \<Rightarrow> apdex_check" where
  "evaluateWorkloadLevelApdex tk db bulk_threw scan_threw run b =
     (let txs = getTransactionsWithScenarios db (tr_test_run_id run)
      in if txs = [] then
           \<lparr>xc_benchmark_id = xb_id b, xc_test_run_id = tr_test_run_id run, xc_meets = Some False,
            xc_below_min = None, xc_result = empty_apdex None (default_threshold b),
            xc_min_score = xb_min_score b, xc_threshold_ms = default_threshold b, xc_status = ApNoData,
            xc_transactions = Some []\<rparr>
         else workload_check run b txs (workload_loop tk db bulk_threw scan_threw run b txs))"

definition evaluateApdexBenchmark ::
  "'k toolkit \<Rightarrow> 'k apdex_db \<Rightarrow> bool \<Rightarrow> bool \<Rightarrow> (string \<Rightarrow> bool) \<Rightarrow> test_run \<Rightarrow> apdex_benchmark \<Rightarrow> apdex_check" where
  "evaluateApdexBenchmark tk db threw bulk_threw scan_threw run b =
     (if \<not> truthy_str (xb_transaction_name b)
      then evaluateWorkloadLevelApdex tk db bulk_threw scan_threw run b
      else evaluateSingleTransaction tk db threw run b (the (xb_transaction_name b)))"

datatype preview_error = TestRunNotFound string

definition previewApdex ::
  "'k toolkit \<Rightarrow> 'k apdex_db \<Rightarrow> string \<Rightarrow> string option \<Rightarrow> rat \<Rightarrow> preview_error + apdex_result" where
  "previewApdex tk db testRunId transactionName threshold_ms =
     (case filter (\<lambda>r. tr_test_run_id r = testRunId) (xd_runs db) of
        [] \<Rightarrow> Inl (TestRunNotFound testRunId)
      | r # _ \<Rightarrow> Inr (calculateApdex tk db
          (r\<lparr>tr_organization_id := None, tr_team_id := None\<rparr>) transactionName threshold_ms False True))"

section \<open>Properties of one transaction\<close>

lemma count_rows_nonneg [simp]: "0 \<le> count_rows P xs"
  by (simp add: count_rows_def)

lemma count_rows_split:
  "count_rows P xs = count_rows (\<lambda>x. P x \<and> Q x) xs + count_rows (\<lambda>x. P x \<and> \<not> Q x) xs"
  by (induction xs) (auto simp: count_rows_def)

lemma count_rows_mono: "(\<And>x. P x \<Longrightarrow> Q x) \<Longrightarrow> count_rows P xs \<le> count_rows Q xs"
  by (induction xs) (auto simp: count_rows_def)

lemma score_range:
  assumes "0 \<le> s" "0 \<le> t" "s + t \<le> n" "score_of s t n = Some q"
  shows "0 \<le> q \<and> q \<le> 1 \<and> (s = n \<longrightarrow> q = 1)"
proof -
  define r :: rat where "r = (of_int s + of_int t * (1 / 2)) / of_int n * 1000"
  have n: "0 < n" and q: "q = of_int (js_round r) / 1000"
    using assms(4) by (auto simp: score_of_def r_def split: if_splits)
  have st: "of_int s + of_int t \<le> (of_int n :: rat)" "0 \<le> (of_int t :: rat)" "0 \<le> (of_int s :: rat)"
    using assms by (simp_all flip: of_int_add)
  have "r \<le> 1000" "0 \<le> r" using n st by (simp_all add: r_def divide_le_eq)
  then have "0 \<le> js_round r" "js_round r \<le> 1000"
    using js_round_mono [of "of_int 0" r, unfolded js_round_int]
      js_round_mono [of r "of_int 1000", unfolded js_round_int] by simp_all
  moreover from this have "(of_int (js_round r) :: rat) \<le> of_int 1000" by (simp only: of_int_le_iff)
  moreover have "js_round r = 1000" if "s = n"
  proof -
    have "t = 0" using that assms by simp
    then have "r = of_int 1000" using n that by (simp add: r_def)
    then show ?thesis by (simp only: js_round_int)
  qed
  ultimately show ?thesis by (auto simp: q)
qed

text \<open>The counts of an Apdex answer partition its scored total.\<close>

definition sound_counts :: "apdex_result \<Rightarrow> bool" where
  "sound_counts a \<longleftrightarrow> 0 \<le> ax_satisfied a \<and> 0 \<le> ax_tolerating a \<and> 0 \<le> ax_frustrated a
     \<and> ax_satisfied a + ax_tolerating a + ax_frustrated a = ax_total a
     \<and> (case ax_score a of None \<Rightarrow> ax_total a = 0
        | Some q \<Rightarrow> 0 < ax_total a \<and> 0 \<le> q \<and> q \<le> 1 \<and> (ax_satisfied a = ax_total a \<longrightarrow> q = 1))"

lemma sound_countsI:
  assumes "0 \<le> ax_satisfied a" "0 \<le> ax_tolerating a" "0 \<le> ax_frustrated a"
    and "ax_satisfied a + ax_tolerating a + ax_frustrated a = ax_total a"
    and "ax_score a = score_of (ax_satisfied a) (ax_tolerating a) (ax_total a)"
  shows "sound_counts a"
proof (cases "score_of (ax_satisfied a) (ax_tolerating a) (ax_total a)")
  case None
  then have "\<not> 0 < ax_total a" by (auto simp: score_of_def)
  then show ?thesis using assms None by (simp add: sound_counts_def)
next
  case (Some q)
  then have "0 < ax_total a" by (auto simp: score_of_def split: if_splits)
  then show ?thesis
    using assms Some score_range [of "ax_satisfied a" "ax_tolerating a" "ax_total a" q]
    by (simp add: sound_counts_def)
qed

lemma raw_counts_sound:
  assumes "0 \<le> thr"
  shows "sound_counts (calculateApdexRaw db run name thr incl ramp)"
    and "ax_total (calculateApdexRaw db run name thr incl ramp)
           \<le> ax_observed (calculateApdexRaw db run name thr incl ramp)"
proof -
  let ?rows = "filter (\<lambda>r. tx_test_run_id r = tr_test_run_id run
                    \<and> (truthy_str name \<longrightarrow> tx_name r = name)
                    \<and> in_bounds (apdex_bounds run ramp) (tx_time r)) (xd_transactions db)"
  let ?sc = "\<lambda>r. tx_response_time r \<noteq> None \<and> (incl \<or> tx_success r)"
  let ?rt = "\<lambda>r. the (tx_response_time r)"
  have "count_rows ?sc ?rows = count_rows (\<lambda>r. ?sc r \<and> ?rt r \<le> thr) ?rows
          + count_rows (\<lambda>r. ?sc r \<and> \<not> ?rt r \<le> thr) ?rows"
    by (rule count_rows_split)
  also have "count_rows (\<lambda>r. ?sc r \<and> \<not> ?rt r \<le> thr) ?rows
      = count_rows (\<lambda>r. (?sc r \<and> \<not> ?rt r \<le> thr) \<and> ?rt r \<le> thr * 4) ?rows
        + count_rows (\<lambda>r. (?sc r \<and> \<not> ?rt r \<le> thr) \<and> \<not> ?rt r \<le> thr * 4) ?rows"
    by (rule count_rows_split)
  also have "(\<lambda>r. (?sc r \<and> \<not> ?rt r \<le> thr) \<and> ?rt r \<le> thr * 4) = (\<lambda>r. ?sc r \<and> thr < ?rt r \<and> ?rt r \<le> thr * 4)"
    by (auto simp: fun_eq_iff)
  also have "(\<lambda>r. (?sc r \<and> \<not> ?rt r \<le> thr) \<and> \<not> ?rt r \<le> thr * 4) = (\<lambda>r. ?sc r \<and> thr * 4 < ?rt r)"
    using assms by (auto simp: fun_eq_iff)
  finally have part: "count_rows (\<lambda>r. ?sc r \<and> ?rt r \<le> thr) ?rows
      + count_rows (\<lambda>r. ?sc r \<and> thr < ?rt r \<and> ?rt r \<le> thr * 4) ?rows
      + count_rows (\<lambda>r. ?sc r \<and> thr * 4 < ?rt r) ?rows = count_rows ?sc ?rows"
    by simp
  show "sound_counts (calculateApdexRaw db run name thr incl ramp)"
    by (rule sound_countsI) (use part in \<open>simp_all add: calculateApdexRaw_def Let_def\<close>)
  have "count_rows ?sc ?rows \<le> int (length ?rows)"
    by (simp only: count_rows_def length_filter_le of_nat_le_iff)
  then show "ax_total (calculateApdexRaw db run name thr incl ramp)
           \<le> ax_observed (calculateApdexRaw db run name thr incl ramp)"
    by (simp add: calculateApdexRaw_def Let_def parseObserved_def)
qed

lemma pg_round_int [simp]: "pg_round (of_int k) = k"
  by (simp add: pg_round_def)

lemma pg_round_mono:
  assumes "a \<le> b"
  shows "pg_round a \<le> pg_round b"
proof (cases "\<lfloor>a\<rfloor> = \<lfloor>b\<rfloor>")
  case True
  then show ?thesis using assms by (auto simp: pg_round_def Let_def)
next
  case False
  then have "\<lfloor>a\<rfloor> + 1 \<le> \<lfloor>b\<rfloor>" using floor_mono [OF assms] by simp
  moreover have "pg_round a \<le> \<lfloor>a\<rfloor> + 1" "\<lfloor>b\<rfloor> \<le> pg_round b"
    by (auto simp: pg_round_def Let_def)
  ultimately show ?thesis by simp
qed

text \<open>What the toolkit documents of the rank of a value: a fraction, monotone in the value.\<close>

definition rank_law :: "'k toolkit \<Rightarrow> bool" where
  "rank_law tk \<longleftrightarrow> (\<forall>k x q. tk_rank tk x k = Some q \<longrightarrow> 0 \<le> q \<and> q \<le> 1)
     \<and> (\<forall>k x y q r. x \<le> y \<longrightarrow> tk_rank tk x k = Some q \<longrightarrow> tk_rank tk y k = Some r \<longrightarrow> q \<le> r)
     \<and> (\<forall>k x y r. x \<le> y \<longrightarrow> tk_rank tk x k = None \<longrightarrow> tk_rank tk y k = Some r \<longrightarrow> r = 1)"

lemma rank_law_clamped:
  assumes "rank_law tk" "x \<le> y"
  shows "0 \<le> (case tk_rank tk x k of None \<Rightarrow> 1 | Some q \<Rightarrow> q)"
    and "(case tk_rank tk x k of None \<Rightarrow> 1 | Some q \<Rightarrow> q) \<le> (case tk_rank tk y k of None \<Rightarrow> 1 | Some q \<Rightarrow> q)"
    and "(case tk_rank tk y k of None \<Rightarrow> 1 | Some q \<Rightarrow> q) \<le> 1"
  using assms by (fastforce simp: rank_law_def split: option.splits)+

lemma rollup_group_sound:
  assumes "rank_law tk" "0 \<le> thr" "rollup_group tk incl name thr rows = Some a"
  shows "sound_counts a" and "0 < ax_total a"
proof -
  define tot where "tot = sum_list (map (\<lambda>s. if incl then ts_total s else ts_passed s) rows)"
  define k where "k = tk_rollup tk (map (\<lambda>s. if incl then ts_pct_agg s else the (ts_pct_agg_passed s)) rows)"
  define r where "r = (case tk_rank tk thr k of None \<Rightarrow> 1 | Some q \<Rightarrow> q)"
  define r4 where "r4 = (case tk_rank tk (thr * 4) k of None \<Rightarrow> 1 | Some q \<Rightarrow> q)"
  let ?n = "pg_round (r * of_int tot)" and ?n4 = "pg_round (r4 * of_int tot)"
  have pos: "0 < tot"
    using assms(3) by (simp add: rollup_group_def tot_def Let_def split: if_splits)
  have rr: "0 \<le> r" "r \<le> r4" "r4 \<le> 1"
    using rank_law_clamped [OF assms(1), of thr "thr * 4" k] assms(2) by (simp_all add: r_def r4_def)
  have n: "0 \<le> ?n" "?n \<le> ?n4" "?n4 \<le> tot"
    using rr pos pg_round_mono [of "of_int 0" "r * of_int tot", unfolded pg_round_int]
      pg_round_mono [of "r * of_int tot" "r4 * of_int tot"]
      pg_round_mono [of "r4 * of_int tot" "of_int tot", unfolded pg_round_int]
    by (simp_all add: mult_right_mono mult_left_le_one_le)
  have fields: "ax_satisfied a = max ?n 0" "ax_tolerating a = max (?n4 - ?n) 0"
    "ax_frustrated a = max (tot - ?n4) 0" "ax_total a = tot"
    "ax_score a = score_of (max ?n 0) (max (?n4 - ?n) 0) tot"
    using assms(3) unfolding r_def r4_def k_def tot_def
    by (auto simp: rollup_group_def Let_def split: if_splits)
  show "sound_counts a" by (rule sound_countsI) (use n fields in simp_all)
  show "0 < ax_total a" using pos fields by simp
qed

lemma bulk_hits:
  assumes "calculateApdexFromRollupBulk tk db run txs incl ramp name = Some a"
  shows "\<exists>thr rows b t. (name, thr) \<in> set txs \<and> rollup_group tk incl name thr rows = Some b
           \<and> a = b\<lparr>ax_threshold_ms := t\<rparr>"
proof -
  define J where "J = concat (map (\<lambda>w. map (Pair w)
            (filter (\<lambda>s. ts_test_run_id s = run \<and> ts_ramp_up_excluded s = ramp
                     \<and> ts_name s = Some (fst w)) (xd_stats db))) txs)"
  define hit where "hit = (\<lambda>name a. \<exists>thr rows b t. (name, thr) \<in> set txs
      \<and> rollup_group tk incl name thr rows = Some b \<and> a = b\<lparr>ax_threshold_ms := t\<rparr>)"
  have hitI: "hit n (a\<lparr>ax_threshold_ms := u\<rparr>)"
    if "((n, thr), j) \<in> set J" "rollup_group tk incl n thr rs = Some a" for n thr j a u rs
  proof -
    have "(n, thr) \<in> set txs" using that(1) by (auto simp: J_def)
    then show ?thesis using that(2) unfolding hit_def by blast
  qed
  have "\<forall>name a. foldl (\<lambda>hits w. case rollup_group tk incl (fst w) (snd w) (map snd (filter (\<lambda>j. fst j = w) J)) of
                           None \<Rightarrow> hits
                         | Some a \<Rightarrow> hits(fst w \<mapsto> a\<lparr>ax_threshold_ms :=
                             (case map_of (rev txs) (fst w) of None \<Rightarrow> snd w | Some t \<Rightarrow> t)\<rparr>))
          Map.empty (remdups (map fst J)) name = Some a \<longrightarrow> hit name a"
    by (rule foldl_invariant [where P = "\<lambda>h. \<forall>name a. h name = Some a \<longrightarrow> hit name a"])
      (auto split: option.splits if_splits intro: hitI)
  then show ?thesis
    using assms by (simp add: calculateApdexFromRollupBulk_def Let_def flip: J_def) (simp add: hit_def)
qed

lemma sound_counts_threshold [simp]: "sound_counts (a\<lparr>ax_threshold_ms := t\<rparr>) = sound_counts a"
  by (cases "ax_score a") (simp_all add: sound_counts_def)

definition example_run :: test_run where
  "example_run = \<lparr>tr_test_run_id = ''r1'', tr_system_under_test_id = ''s'', tr_test_environment = ''e'',
     tr_workload = ''w'', tr_organization_id = None, tr_team_id = None, tr_start_time = None,
     tr_end_time = None, tr_ramp_up = None\<rparr>"

text \<open>
  The answer of \<open>calculateApdex\<close>, whether it comes from the rollup's sketches or from the raw
  rows: the three classes are never negative and sum to the scored total, so no request is lost or
  counted twice by the rounding of the ranks and the clamping of the counts; the score is null
  exactly without a scored request, lies between 0 and 1, and is 1 when every request satisfies.
  The threshold is not negative, and a rank of the sketch is a fraction that grows with the value.
\<close>

theorem calculateApdex_counts:
  assumes "rank_law tk" and "0 \<le> thr"
  shows "sound_counts (calculateApdex tk db run name thr incl ramp)"
proof (cases "case name of None \<Rightarrow> None
      | Some n \<Rightarrow> calculateApdexFromRollupBulk tk db (tr_test_run_id run) [(n, thr)] incl ramp n")
  case None
  then show ?thesis using raw_counts_sound [OF assms(2)] by (simp add: calculateApdex_def)
next
  case (Some a)
  then obtain n where "name = Some n"
    "calculateApdexFromRollupBulk tk db (tr_test_run_id run) [(n, thr)] incl ramp n = Some a"
    by (auto split: option.splits)
  with bulk_hits obtain rows b t where "rollup_group tk incl n thr rows = Some b"
    "a = b\<lparr>ax_threshold_ms := t\<rparr>" by fastforce
  then have "sound_counts a" using rollup_group_sound [OF assms] by simp
  then show ?thesis using Some by (simp add: calculateApdex_def)
qed

theorem calculateApdex_counts_witness:
  "sound_counts (calculateApdex \<lparr>tk_rollup = (\<lambda>ks :: unit list. ()), tk_rank = (\<lambda>x k. if x < 500 then Some (1 / 3) else None)\<rparr>
     \<lparr>xd_transactions = [],
      xd_stats = [\<lparr>ts_test_run_id = ''r1'', ts_ramp_up_excluded = True, ts_name = Some ''login'', ts_scenario = [],
        ts_total = 10, ts_passed = 9, ts_avg = 120, ts_pct_agg = (), ts_pct_agg_passed = Some ()\<rparr>],
      xd_tx_thresholds = [], xd_wl_thresholds = [], xd_runs = []\<rparr>
     example_run
     (Some ''login'') 200 False True)"
  by (rule calculateApdex_counts) (auto simp: rank_law_def split: if_splits)

section \<open>The rollup against the raw scan\<close>

definition sketch :: "bool \<Rightarrow> 'k stats_row \<Rightarrow> 'k" where
  "sketch incl s = (if incl then ts_pct_agg s else the (ts_pct_agg_passed s))"

text \<open>
  A toolkit is exact for a reading of its sketches as samples when combining sketches combines the
  samples and the rank of a value is the fraction of samples up to it; at or above the maximum it
  may also be the NaN that the statement replaces.
\<close>

definition exact_toolkit :: "'k toolkit \<Rightarrow> ('k \<Rightarrow> rat list) \<Rightarrow> bool" where
  "exact_toolkit tk samples \<longleftrightarrow>
     (\<forall>ks. mset (samples (tk_rollup tk ks)) = mset (concat (map samples ks)))
     \<and> (\<forall>x k. samples k \<noteq> [] \<longrightarrow>
          tk_rank tk x k = Some (of_int (count_rows (\<lambda>y. y \<le> x) (samples k)) / of_int (int (length (samples k))))
          \<or> tk_rank tk x k = None \<and> (\<forall>y \<in> set (samples k). y \<le> x))"

definition stats_rows :: "'k apdex_db \<Rightarrow> string \<Rightarrow> string \<Rightarrow> bool \<Rightarrow> 'k stats_row list" where
  "stats_rows db run name ramp =
     filter (\<lambda>s. ts_test_run_id s = run \<and> ts_ramp_up_excluded s = ramp \<and> ts_name s = Some name) (xd_stats db)"

definition scored_times :: "'k apdex_db \<Rightarrow> test_run \<Rightarrow> string \<Rightarrow> bool \<Rightarrow> bool \<Rightarrow> rat list" where
  "scored_times db run name incl ramp =
     map (\<lambda>r. the (tx_response_time r))
       (filter (\<lambda>r. tx_test_run_id r = tr_test_run_id run \<and> tx_name r = Some name
                  \<and> in_bounds (apdex_bounds run ramp) (tx_time r)
                  \<and> tx_response_time r \<noteq> None \<and> (incl \<or> tx_success r)) (xd_transactions db))"

text \<open>The samples of the sketch a query reads; a group without a successful sample has no sketch of them.\<close>

definition sketched :: "('k \<Rightarrow> rat list) \<Rightarrow> bool \<Rightarrow> 'k stats_row \<Rightarrow> rat list" where
  "sketched samples incl s =
     (if incl then samples (ts_pct_agg s)
      else case ts_pct_agg_passed s of None \<Rightarrow> [] | Some k \<Rightarrow> samples k)"

lemma sketched_eq: "incl \<or> ts_pct_agg_passed s \<noteq> None \<Longrightarrow> sketched samples incl s = samples (sketch incl s)"
  by (auto simp: sketched_def sketch_def)

text \<open>The rollup of a transaction stores its totals and the sketches of its scored times.\<close>

definition faithful_rollup ::
  "('k \<Rightarrow> rat list) \<Rightarrow> 'k apdex_db \<Rightarrow> test_run \<Rightarrow> string \<Rightarrow> bool \<Rightarrow> bool \<Rightarrow> bool" where
  "faithful_rollup samples db run name incl ramp \<longleftrightarrow>
     (\<forall>s \<in> set (stats_rows db (tr_test_run_id run) name ramp).
        (if incl then ts_total s else ts_passed s) = int (length (sketched samples incl s)))
     \<and> mset (concat (map (sketched samples incl) (stats_rows db (tr_test_run_id run) name ramp)))
       = mset (scored_times db run name incl ramp)"

lemma count_rows_mset: "count_rows P xs = int (size (filter_mset P (mset xs)))"
  by (simp add: count_rows_def flip: mset_filter)

lemma count_rows_map_filter: "count_rows P (map f (filter Q xs)) = count_rows (\<lambda>x. Q x \<and> P (f x)) xs"
  by (induction xs) (auto simp: count_rows_def)

lemma count_rows_filter: "count_rows P (filter Q xs) = count_rows (\<lambda>x. Q x \<and> P x) xs"
  by (induction xs) (auto simp: count_rows_def)

lemma raw_from_times:
  assumes "name \<noteq> []"
  shows "ax_satisfied (calculateApdexRaw db run (Some name) thr incl ramp)
           = count_rows (\<lambda>t. t \<le> thr) (scored_times db run name incl ramp)"
    and "ax_tolerating (calculateApdexRaw db run (Some name) thr incl ramp)
           = count_rows (\<lambda>t. thr < t \<and> t \<le> thr * 4) (scored_times db run name incl ramp)"
    and "ax_frustrated (calculateApdexRaw db run (Some name) thr incl ramp)
           = count_rows (\<lambda>t. thr * 4 < t) (scored_times db run name incl ramp)"
    and "ax_total (calculateApdexRaw db run (Some name) thr incl ramp)
           = int (length (scored_times db run name incl ramp))"
proof -
  have total: "int (length xs) = count_rows (\<lambda>_. True) xs" for xs :: "rat list"
    by (simp add: count_rows_def)
  have tr: "truthy_str (Some name)" using assms by (simp add: truthy_str_def)
  show "ax_satisfied (calculateApdexRaw db run (Some name) thr incl ramp)
           = count_rows (\<lambda>t. t \<le> thr) (scored_times db run name incl ramp)"
    "ax_tolerating (calculateApdexRaw db run (Some name) thr incl ramp)
           = count_rows (\<lambda>t. thr < t \<and> t \<le> thr * 4) (scored_times db run name incl ramp)"
    "ax_frustrated (calculateApdexRaw db run (Some name) thr incl ramp)
           = count_rows (\<lambda>t. thr * 4 < t) (scored_times db run name incl ramp)"
    "ax_total (calculateApdexRaw db run (Some name) thr incl ramp)
           = int (length (scored_times db run name incl ramp))"
    unfolding total using tr
    by (simp_all add: calculateApdexRaw_def Let_def scored_times_def count_rows_map_filter
        count_rows_filter conj_ac)
qed

lemma exact_rank:
  assumes "exact_toolkit tk samples" "samples k \<noteq> []"
  shows "pg_round ((case tk_rank tk x k of None \<Rightarrow> 1 | Some q \<Rightarrow> q) * of_int (int (length (samples k))))
           = count_rows (\<lambda>y. y \<le> x) (samples k)"
proof -
  let ?c = "count_rows (\<lambda>y. y \<le> x) (samples k)" and ?n = "int (length (samples k))"
  have "tk_rank tk x k = Some (of_int ?c / of_int ?n)
      \<or> tk_rank tk x k = None \<and> (\<forall>y \<in> set (samples k). y \<le> x)"
    using assms unfolding exact_toolkit_def by blast
  moreover have "?c = ?n" if "\<forall>y \<in> set (samples k). y \<le> x"
    using that by (simp add: count_rows_def filter_all_length)
  moreover have "of_int ?c / of_int ?n * of_int ?n = (of_int ?c :: rat)"
    using assms(2) by simp
  ultimately show ?thesis
    by (elim disjE conjE) (simp_all only: option.case mult_1 pg_round_int simp_thms)
qed

lemma faithful_samples:
  assumes "exact_toolkit tk samples" "faithful_rollup samples db run name incl ramp"
    and sk: "\<forall>s \<in> set (stats_rows db (tr_test_run_id run) name ramp). incl \<or> ts_pct_agg_passed s \<noteq> None"
    and k: "k = tk_rollup tk (map (sketch incl) (stats_rows db (tr_test_run_id run) name ramp))"
  shows "mset (samples k) = mset (scored_times db run name incl ramp)"
    and "sum_list (map (\<lambda>s. if incl then ts_total s else ts_passed s) (stats_rows db (tr_test_run_id run) name ramp))
           = int (length (samples k))"
proof -
  let ?R = "stats_rows db (tr_test_run_id run) name ramp"
  have m: "map (sketched samples incl) ?R = map (\<lambda>s. samples (sketch incl s)) ?R"
    using sk by (auto simp: sketched_eq)
  have c: "mset (samples k) = mset (concat (map (\<lambda>s. samples (sketch incl s)) ?R))"
    using assms(1) by (simp add: k exact_toolkit_def comp_def)
  then show "mset (samples k) = mset (scored_times db run name incl ramp)"
    using assms(2) by (simp add: faithful_rollup_def m)
  have "map (\<lambda>s. if incl then ts_total s else ts_passed s) ?R
          = map (\<lambda>s. int (length (samples (sketch incl s)))) ?R"
    using assms(2) sk by (auto simp: faithful_rollup_def sketched_eq)
  moreover have "sum_list (map (\<lambda>s. int (length (samples (sketch incl s)))) rs)
          = int (length (concat (map (\<lambda>s. samples (sketch incl s)) rs)))" for rs
    by (induction rs) auto
  ultimately show "sum_list (map (\<lambda>s. if incl then ts_total s else ts_passed s) ?R) = int (length (samples k))"
    using mset_eq_length [OF c] by presburger
qed

lemma rollup_group_exact:
  assumes ex: "exact_toolkit tk samples" and fr: "faithful_rollup samples db run name incl ramp"
    and thr: "0 \<le> thr"
    and hit: "rollup_group tk incl name thr (stats_rows db (tr_test_run_id run) name ramp) = Some a"
  defines "obs \<equiv> scored_times db run name incl ramp"
  shows "ax_satisfied a = count_rows (\<lambda>t. t \<le> thr) obs"
    and "ax_tolerating a = count_rows (\<lambda>t. thr < t \<and> t \<le> thr * 4) obs"
    and "ax_frustrated a = count_rows (\<lambda>t. thr * 4 < t) obs"
    and "ax_total a = int (length obs)"
    and "ax_score a = score_of (ax_satisfied a) (ax_tolerating a) (ax_total a)"
proof -
  let ?R = "stats_rows db (tr_test_run_id run) name ramp"
  define k where "k = tk_rollup tk (map (sketch incl) ?R)"
  define tot where "tot = sum_list (map (\<lambda>s. if incl then ts_total s else ts_passed s) ?R)"
  define n where "n = pg_round ((case tk_rank tk thr k of None \<Rightarrow> 1 | Some q \<Rightarrow> q) * of_int tot)"
  define n4 where "n4 = pg_round ((case tk_rank tk (thr * 4) k of None \<Rightarrow> 1 | Some q \<Rightarrow> q) * of_int tot)"
  have k': "tk_rollup tk (map (\<lambda>s. if incl then ts_pct_agg s else the (ts_pct_agg_passed s)) ?R) = k"
    by (simp add: k_def sketch_def [abs_def])
  have pos: "0 < tot" using hit by (simp add: rollup_group_def tot_def Let_def split: if_splits)
  have f: "ax_satisfied a = max n 0" "ax_tolerating a = max (n4 - n) 0" "ax_frustrated a = max (tot - n4) 0"
    "ax_total a = tot" "ax_score a = score_of (max n 0) (max (n4 - n) 0) tot"
    using hit unfolding n_def n4_def tot_def
    by (auto simp: rollup_group_def k' Let_def split: if_splits)
  have sk: "\<forall>s \<in> set ?R. incl \<or> ts_pct_agg_passed s \<noteq> None"
    using hit by (auto simp: rollup_group_def Let_def split: if_splits)
  note s = faithful_samples [OF ex fr sk k_def]
  have tot: "tot = int (length (samples k))" using s(2) by (simp add: tot_def)
  have cm: "count_rows P (samples k) = count_rows P obs" for P
    using s(1) by (simp add: count_rows_mset obs_def)
  have len: "length (samples k) = length obs" using mset_eq_length [OF s(1)] by (simp add: obs_def)
  have ne: "samples k \<noteq> []" using pos tot by auto
  have n: "n = count_rows (\<lambda>t. t \<le> thr) obs" "n4 = count_rows (\<lambda>t. t \<le> thr * 4) obs"
    using exact_rank [OF ex ne] by (simp_all add: n_def n4_def tot cm)
  have "count_rows (\<lambda>t. t \<le> thr * 4) obs
      = count_rows (\<lambda>t. t \<le> thr * 4 \<and> t \<le> thr) obs + count_rows (\<lambda>t. t \<le> thr * 4 \<and> \<not> t \<le> thr) obs"
    by (rule count_rows_split)
  also have "(\<lambda>t. t \<le> thr * 4 \<and> t \<le> thr) = (\<lambda>t. t \<le> thr)"
    using thr by (auto simp: fun_eq_iff)
  also have "(\<lambda>t. t \<le> thr * 4 \<and> \<not> t \<le> thr) = (\<lambda>t. thr < t \<and> t \<le> thr * 4)"
    by (auto simp: fun_eq_iff)
  finally have tol: "n4 - n = count_rows (\<lambda>t. thr < t \<and> t \<le> thr * 4) obs" using n by simp
  have "count_rows (\<lambda>_. True) obs
      = count_rows (\<lambda>t. True \<and> t \<le> thr * 4) obs + count_rows (\<lambda>t. True \<and> \<not> t \<le> thr * 4) obs"
    by (rule count_rows_split)
  then have "int (length obs) = n4 + count_rows (\<lambda>t. thr * 4 < t) obs"
    using n by (simp add: count_rows_def not_le)
  then have fru: "tot - n4 = count_rows (\<lambda>t. thr * 4 < t) obs" using tot len by simp
  show "ax_satisfied a = count_rows (\<lambda>t. t \<le> thr) obs" using f(1) n by simp
  show "ax_tolerating a = count_rows (\<lambda>t. thr < t \<and> t \<le> thr * 4) obs" using f(2) tol by simp
  show "ax_frustrated a = count_rows (\<lambda>t. thr * 4 < t) obs" using f(3) fru by simp
  show "ax_total a = int (length obs)" using f(4) tot len by simp
  show "ax_score a = score_of (ax_satisfied a) (ax_tolerating a) (ax_total a)" using f by simp
qed

lemma raw_score:
  "ax_score (calculateApdexRaw db run name thr incl ramp)
     = score_of (ax_satisfied (calculateApdexRaw db run name thr incl ramp))
         (ax_tolerating (calculateApdexRaw db run name thr incl ramp))
         (ax_total (calculateApdexRaw db run name thr incl ramp))"
  by (simp add: calculateApdexRaw_def Let_def)

lemma single_hit:
  assumes "calculateApdexFromRollupBulk tk db (tr_test_run_id run) [(name, thr)] incl ramp name = Some a"
  shows "rollup_group tk incl name thr (stats_rows db (tr_test_run_id run) name ramp)
           = Some (a\<lparr>ax_threshold_ms := thr\<rparr>)"
proof -
  let ?R = "stats_rows db (tr_test_run_id run) name ramp"
  have "remdups (map fst (map (Pair (name, thr)) rs)) = (if rs = [] then [] else [(name, thr)])"
    for rs :: "'a stats_row list"
    by (induction rs) (auto simp: comp_def image_iff neq_Nil_conv)
  moreover have "map snd (filter (\<lambda>j. fst j = (name, thr)) (map (Pair (name, thr)) rs)) = rs" for rs :: "'a stats_row list"
    by (induction rs) auto
  moreover have "ax_threshold_ms b = thr" if "rollup_group tk incl name thr ?R = Some b" for b
    using that by (auto simp: rollup_group_def Let_def split: if_splits)
  ultimately show ?thesis
    using assms unfolding calculateApdexFromRollupBulk_def stats_rows_def
    by (auto simp: Let_def split: option.splits if_splits)
qed

lemma fast_path_exact:
  assumes "exact_toolkit tk samples" and "faithful_rollup samples db run name incl ramp"
    and "0 \<le> thr" and "name \<noteq> []"
  defines "a \<equiv> calculateApdex tk db run (Some name) thr incl ramp"
    and "r \<equiv> calculateApdexRaw db run (Some name) thr incl ramp"
  shows "ax_satisfied a = ax_satisfied r \<and> ax_tolerating a = ax_tolerating r
    \<and> ax_frustrated a = ax_frustrated r \<and> ax_total a = ax_total r \<and> ax_score a = ax_score r"
proof (cases "calculateApdexFromRollupBulk tk db (tr_test_run_id run) [(name, thr)] incl ramp name")
  case None
  then show ?thesis by (simp add: a_def r_def calculateApdex_def)
next
  case (Some h)
  then have "a = h" by (simp add: a_def calculateApdex_def)
  moreover note rollup_group_exact [OF assms(1-3) single_hit [OF Some]]
  ultimately show ?thesis
    using raw_score [of db run "Some name" thr incl ramp]
    by (simp add: r_def raw_from_times [OF assms(4)])
qed

text \<open>
  The fast path agrees with the raw scan. When the rollup rows of a transaction hold its totals
  and sketches of its scored times, and the sketches answer ranks exactly (the NaN at the maximum
  included), \<open>calculateApdex\<close> returns the counts, the total and the score that
  \<open>calculateApdexRaw\<close> computes from the rows themselves, for any threshold that is not negative.
\<close>

theorem calculateApdex_refines_raw:
  assumes "exact_toolkit tk samples" and "faithful_rollup samples db run name incl ramp"
    and "0 \<le> thr" and "name \<noteq> []"
  defines "a \<equiv> calculateApdex tk db run (Some name) thr incl ramp"
    and "r \<equiv> calculateApdexRaw db run (Some name) thr incl ramp"
  shows "ax_satisfied a = ax_satisfied r \<and> ax_tolerating a = ax_tolerating r
    \<and> ax_frustrated a = ax_frustrated r \<and> ax_total a = ax_total r \<and> ax_score a = ax_score r"
  by (simp only: a_def r_def, rule fast_path_exact [OF assms(1-4)])

definition list_toolkit :: "rat list toolkit" where
  "list_toolkit = \<lparr>tk_rollup = concat,
     tk_rank = (\<lambda>x xs. if \<forall>y \<in> set xs. y \<le> x then None
                else Some (of_int (count_rows (\<lambda>y. y \<le> x) xs) / of_int (int (length xs))))\<rparr>"

lemma list_toolkit_exact: "exact_toolkit list_toolkit id"
  by (auto simp: exact_toolkit_def list_toolkit_def)

definition example_db :: "rat list apdex_db" where
  "example_db = \<lparr>xd_transactions =
      [\<lparr>tx_test_run_id = ''r1'', tx_time = 1, tx_name = Some ''login'', tx_scenario = None,
        tx_response_time = Some 120, tx_success = True\<rparr>,
       \<lparr>tx_test_run_id = ''r1'', tx_time = 2, tx_name = Some ''login'', tx_scenario = None,
        tx_response_time = Some 700, tx_success = True\<rparr>,
       \<lparr>tx_test_run_id = ''r1'', tx_time = 3, tx_name = Some ''login'', tx_scenario = None,
        tx_response_time = Some 90, tx_success = False\<rparr>],
      xd_stats = [\<lparr>ts_test_run_id = ''r1'', ts_ramp_up_excluded = False, ts_name = Some ''login'', ts_scenario = [],
        ts_total = 3, ts_passed = 2, ts_avg = 910 / 3, ts_pct_agg = [120, 700, 90],
        ts_pct_agg_passed = Some [120, 700]\<rparr>],
      xd_tx_thresholds = [], xd_wl_thresholds = [], xd_runs = []\<rparr>"

theorem calculateApdex_refines_raw_witness:
  "ax_score (calculateApdex list_toolkit example_db example_run (Some ''login'') 200 False False)
     = ax_score (calculateApdexRaw example_db example_run (Some ''login'') 200 False False)
   \<and> ax_observed (calculateApdex list_toolkit example_db example_run (Some ''login'') 200 False False) = 3"
proof (rule conjI)
  have "faithful_rollup id example_db example_run ''login'' False False"
    by (simp add: faithful_rollup_def stats_rows_def scored_times_def example_db_def example_run_def
        sketched_def apdex_bounds_def analysisBoundsFromRow_def in_bounds_def)
  then show "ax_score (calculateApdex list_toolkit example_db example_run (Some ''login'') 200 False False)
     = ax_score (calculateApdexRaw example_db example_run (Some ''login'') 200 False False)"
    using calculateApdex_refines_raw [OF list_toolkit_exact, of example_db example_run "''login''" False False 200]
    by simp
  show "ax_observed (calculateApdex list_toolkit example_db example_run (Some ''login'') 200 False False) = 3"
    by (simp add: calculateApdex_def calculateApdexFromRollupBulk_def example_db_def example_run_def
        rollup_group_def parseObserved_def Let_def)
qed

section \<open>Thresholds and verdicts\<close>

lemma per_transaction_sound:
  "per_transaction rows n = Some t \<Longrightarrow> \<exists>r \<in> set rows. th_name r = n \<and> th_threshold r = Some t \<and> t \<noteq> 0"
proof -
  have "\<forall>n t. per_transaction rows n = Some t \<longrightarrow>
          (\<exists>r \<in> set rows. th_name r = n \<and> th_threshold r = Some t \<and> t \<noteq> 0)"
    unfolding per_transaction_def
    by (rule foldl_invariant [where P = "\<lambda>m. \<forall>n t. m n = Some t \<longrightarrow>
          (\<exists>r \<in> set rows. th_name r = n \<and> th_threshold r = Some t \<and> t \<noteq> 0)"])
      (auto simp: truthy_rat_def)
  then show "per_transaction rows n = Some t \<Longrightarrow> \<exists>r \<in> set rows. th_name r = n \<and> th_threshold r = Some t \<and> t \<noteq> 0"
    by blast
qed

lemma per_transaction_none:
  "per_transaction rows n = None \<longleftrightarrow> (\<forall>r \<in> set rows. th_name r = n \<longrightarrow> \<not> truthy_rat (th_threshold r))"
proof -
  have "foldl (\<lambda>m r. if truthy_rat (th_threshold r) then m(th_name r := th_threshold r) else m) m rows n = None
        \<longleftrightarrow> m n = None \<and> (\<forall>r \<in> set rows. th_name r = n \<longrightarrow> \<not> truthy_rat (th_threshold r))" for m
    by (induction rows arbitrary: m) (auto simp: truthy_rat_def)
  then show ?thesis by (simp add: per_transaction_def)
qed

text \<open>
  The threshold of a transaction comes from one place. A stored override for its name wins;
  without one the SLO's own threshold is used; without that the workload's; without any, 500 ms. A
  stored threshold that is used is never zero or null and belongs to the same system, environment
  and workload and to the run's organization or to none.
\<close>

theorem resolveThreshold_priority:
  fixes db :: "'k apdex_db" and b :: apdex_benchmark and org :: "string option"
  assumes "n \<noteq> []"
  defines "own \<equiv> filter (\<lambda>r. threshold_scope b org r \<and> th_name r = n \<and> truthy_rat (th_threshold r))
                    (xd_tx_thresholds db)"
    and "shared \<equiv> filter (threshold_scope b org) (xd_wl_thresholds db)"
    and "t \<equiv> resolveThreshold db b (Some n) org"
  shows "(own \<noteq> [] \<longrightarrow> Some t \<in> th_threshold ` set own \<and> t \<noteq> 0)
    \<and> (own = [] \<longrightarrow> xb_threshold_ms b \<noteq> None \<longrightarrow> xb_threshold_ms b = Some t)
    \<and> (own = [] \<longrightarrow> xb_threshold_ms b = None \<longrightarrow> shared \<noteq> [] \<longrightarrow> truthy_rat (th_threshold (hd shared))
         \<longrightarrow> th_threshold (hd shared) = Some t)
    \<and> (own = [] \<longrightarrow> xb_threshold_ms b = None \<longrightarrow> shared = [] \<or> \<not> truthy_rat (th_threshold (hd shared))
         \<longrightarrow> t = 500)"
proof -
  let ?rows = "filter (\<lambda>r. threshold_scope b org r \<and> th_name r \<in> set [n]) (xd_tx_thresholds db)"
  have own: "set own = {r \<in> set ?rows. th_name r = n \<and> truthy_rat (th_threshold r)}"
    by (auto simp: own_def)
  have tr: "truthy_str (Some n)" using assms(1) by (simp add: truthy_str_def)
  have t: "t = (case per_transaction ?rows n of Some specific \<Rightarrow> specific
            | None \<Rightarrow> (case xb_threshold_ms b of Some t \<Rightarrow> t
              | None \<Rightarrow> (case (case shared of [] \<Rightarrow> None
                 | r # _ \<Rightarrow> if truthy_rat (th_threshold r) then th_threshold r else None) of
                    Some t \<Rightarrow> t | None \<Rightarrow> 500)))"
    using tr by (simp add: t_def resolveThreshold_def loadThresholdResolver_def Let_def shared_def
        cong: if_cong split: option.splits)
  show ?thesis
  proof (cases "per_transaction ?rows n")
    case None
    then have "own = []" using per_transaction_none [of ?rows n] own by (auto simp flip: set_empty)
    moreover have "\<exists>q. x = Some q" if "truthy_rat x" for x using that by (auto simp: truthy_rat_def)
    ultimately show ?thesis using t None
      by (cases shared) (auto simp: truthy_rat_def split: option.splits)
  next
    case (Some q)
    with per_transaction_sound [OF this] have "\<exists>r \<in> set own. th_threshold r = Some q" "q \<noteq> 0"
      unfolding own by (auto simp: truthy_rat_def)
    then show ?thesis using t Some by (auto simp: image_iff intro: sym)
  qed
qed

theorem resolveThreshold_priority_witness:
  "resolveThreshold \<lparr>xd_transactions = [], xd_stats = ([] :: unit stats_row list),
      xd_tx_thresholds = [], xd_wl_thresholds = [], xd_runs = []\<rparr>
     \<lparr>xb_id = ''b'', xb_system_under_test_id = ''s'', xb_test_environment = ''e'', xb_workload = ''w'',
      xb_transaction_name = None, xb_threshold_ms = Some 250, xb_min_score = 85 / 100,
      xb_include_failed = False, xb_exclude_ramp_up = True, xb_min_samples = 0\<rparr>
     (Some ''login'') None = 250"
  using resolveThreshold_priority [of "''login''"
      "\<lparr>xb_id = ''b'', xb_system_under_test_id = ''s'', xb_test_environment = ''e'', xb_workload = ''w'',
      xb_transaction_name = None, xb_threshold_ms = Some 250, xb_min_score = 85 / 100,
      xb_include_failed = False, xb_exclude_ramp_up = True, xb_min_samples = 0\<rparr>" None
      "\<lparr>xd_transactions = [], xd_stats = ([] :: unit stats_row list),
      xd_tx_thresholds = [], xd_wl_thresholds = [], xd_runs = []\<rparr>"]
  by simp

text \<open>The loop keeps its counters in step with the results it records.\<close>

definition acc_ok :: "workload_acc \<Rightarrow> bool" where
  "acc_ok acc \<longleftrightarrow>
     wa_satisfied acc = sum_list (map tq_satisfied (wa_results acc))
     \<and> wa_tolerating acc = sum_list (map tq_tolerating (wa_results acc))
     \<and> wa_frustrated acc = sum_list (map tq_frustrated (wa_results acc))
     \<and> wa_total acc = sum_list (map tq_total (wa_results acc))
     \<and> wa_below acc = map tq_name (filter tq_below_min (wa_results acc))
     \<and> wa_failed acc = map tq_name (filter (\<lambda>q. tq_meets q = Some False) (wa_results acc))
     \<and> wa_allPass acc = (\<forall>q \<in> set (wa_results acc). tq_meets q \<noteq> Some False)
     \<and> (\<forall>q \<in> set (wa_results acc). 0 \<le> tq_total q \<and> (tq_below_min q \<longrightarrow> tq_meets q = None \<and> 0 < tq_total q)
          \<and> (tq_meets q \<noteq> None \<longrightarrow> 0 < tq_total q))"

lemma record_result_ok:
  assumes "acc_ok acc" "0 \<le> ax_total a"
  shows "acc_ok (record_result ms mn n sc thr a acc)"
  using assms by (auto simp: acc_ok_def record_result_def Let_def)

lemma record_error_ok: "acc_ok acc \<Longrightarrow> acc_ok (record_error thr n sc acc)"
  by (auto simp: acc_ok_def record_error_def)

lemma raw_total_nonneg: "0 \<le> ax_total (calculateApdexRaw db run name thr incl ramp)"
  by (simp add: calculateApdexRaw_def Let_def)

lemma rollup_total_pos: "rollup_group tk incl n thr rows = Some a \<Longrightarrow> 0 < ax_total a"
  by (auto simp: rollup_group_def Let_def split: if_splits)

lemma hit_total_pos:
  "calculateApdexFromRollupBulk tk db run txs incl ramp n = Some a \<Longrightarrow> 0 < ax_total a"
  using bulk_hits [of tk db run txs incl ramp n a] rollup_total_pos by fastforce

lemma workload_loop_ok:
  "acc_ok (workload_loop tk db bt st run b txs)"
proof -
  let ?resolve = "loadThresholdResolver db b (map fst txs) (tr_organization_id run)"
  let ?hits = "if bt then Map.empty
    else calculateApdexFromRollupBulk tk db (tr_test_run_id run)
           (map (\<lambda>n. (n, ?resolve (Some n))) (remdups (map fst txs))) (xb_include_failed b) (xb_exclude_ramp_up b)"
  have step: "acc_ok (workload_step db run b ?resolve ?hits st acc tx)" if "acc_ok acc" for acc tx
    using that hit_total_pos [THEN less_imp_le] raw_total_nonneg
    by (auto simp: workload_step_def record_error_ok split: option.splits if_splits intro!: record_result_ok)
  have "acc_ok init_acc" by (simp add: init_acc_def acc_ok_def)
  then have "acc_ok (foldl (workload_step db run b ?resolve ?hits st) init_acc txs)"
    by (rule foldl_invariant) (rule step)
  then show ?thesis unfolding workload_loop_def Let_def .
qed

lemma step_names:
  "map (\<lambda>q. (tq_name q, tq_scenario q)) (wa_results (workload_step db run b res hits st acc tx))
     = map (\<lambda>q. (tq_name q, tq_scenario q)) (wa_results acc) @ [tx]"
  by (auto simp: workload_step_def record_result_def record_error_def Let_def split: option.splits)

lemma workload_loop_names:
  "map (\<lambda>q. (tq_name q, tq_scenario q)) (wa_results (workload_loop tk db bt st run b txs)) = txs"
proof -
  have "map (\<lambda>q. (tq_name q, tq_scenario q)) (wa_results (foldl (workload_step db run b res hits st) acc txs))
          = map (\<lambda>q. (tq_name q, tq_scenario q)) (wa_results acc) @ txs" for res hits acc
    by (induction txs arbitrary: acc) (simp_all add: step_names)
  then show ?thesis by (simp add: workload_loop_def Let_def init_acc_def)
qed

lemma sum_total_ge:
  "(\<And>q. q \<in> set rs \<Longrightarrow> 0 \<le> f q) \<Longrightarrow> q \<in> set rs \<Longrightarrow> f q \<le> sum_list (map f rs)" for f :: "'a \<Rightarrow> int"
proof (induction rs)
  case (Cons r rs)
  then have "0 \<le> sum_list (map f rs)" by (auto intro!: sum_list_nonneg)
  with Cons show ?case by fastforce
qed simp

text \<open>
  C20: the verdict of a workload SLO. Every transaction of the run is in the breakdown once per
  scenario, in order, whatever throws on the way, and the totals are the sums of the breakdown. The
  SLO fails exactly when no request was scored or some judged transaction is below the minimum score;
  it is left open (null) exactly when there are requests and every transaction has too few samples;
  and a transaction is failed only on scored requests and enough samples.
\<close>

theorem workload_verdict:
  fixes tk :: "'k toolkit" and db :: "'k apdex_db" and run :: test_run and b :: apdex_benchmark
    and bulk_threw :: bool and scan_threw :: "string \<Rightarrow> bool"
  defines "txs \<equiv> getTransactionsWithScenarios db (tr_test_run_id run)"
  defines "c \<equiv> evaluateWorkloadLevelApdex tk db bulk_threw scan_threw run b"
  defines "rs \<equiv> the (xc_transactions c)"
  shows "map (\<lambda>q. (tq_name q, tq_scenario q)) rs = txs
    \<and> ax_total (xc_result c) = sum_list (map tq_total rs)
    \<and> ax_satisfied (xc_result c) = sum_list (map tq_satisfied rs)
    \<and> (xc_meets c = Some False \<longleftrightarrow> ax_total (xc_result c) = 0 \<or> (\<exists>q \<in> set rs. tq_meets q = Some False))
    \<and> (xc_meets c = None \<longleftrightarrow> 0 < ax_total (xc_result c) \<and> (\<forall>q \<in> set rs. tq_below_min q))
    \<and> (\<forall>q \<in> set rs. tq_meets q = Some False \<longrightarrow> 0 < tq_total q \<and> \<not> tq_below_min q)"
proof (cases "txs = []")
  case True
  then show ?thesis unfolding txs_def
    by (simp add: c_def rs_def evaluateWorkloadLevelApdex_def empty_apdex_def)
next
  case False
  define acc where "acc = workload_loop tk db bulk_threw scan_threw run b txs"
  have c: "c = workload_check run b txs acc"
    using False unfolding txs_def by (simp add: c_def evaluateWorkloadLevelApdex_def acc_def txs_def Let_def)
  have rs: "rs = wa_results acc" by (simp add: rs_def c workload_check_def Let_def)
  have names: "map (\<lambda>q. (tq_name q, tq_scenario q)) rs = txs"
    using workload_loop_names by (simp add: rs acc_def)
  then have len: "length txs = length rs" by (metis length_map)
  have ok: "acc_ok acc" using workload_loop_ok by (simp add: acc_def)
  then have nn: "\<And>q. q \<in> set rs \<Longrightarrow> 0 \<le> tq_total q"
    and below: "\<And>q. q \<in> set rs \<Longrightarrow> tq_below_min q \<Longrightarrow> tq_meets q = None \<and> 0 < tq_total q"
    and judged: "\<And>q. q \<in> set rs \<Longrightarrow> tq_meets q \<noteq> None \<Longrightarrow> 0 < tq_total q"
    and totals: "wa_total acc = sum_list (map tq_total rs)" "wa_satisfied acc = sum_list (map tq_satisfied rs)"
    and pass: "wa_allPass acc = (\<forall>q \<in> set rs. tq_meets q \<noteq> Some False)"
    and wb: "wa_below acc = map tq_name (filter tq_below_min rs)"
    by (auto simp: acc_ok_def rs)
  have tot: "0 \<le> wa_total acc" unfolding totals by (rule sum_list_nonneg) (use nn in auto)
  have pos: "0 < wa_total acc" if "q \<in> set rs" "0 < tq_total q" for q
    using sum_total_ge [of rs tq_total q] nn that by (simp add: totals)
  have "rs \<noteq> []" using False names by auto
  have "length rs \<le> length (filter tq_below_min rs) \<longleftrightarrow> (\<forall>q \<in> set rs. tq_below_min q)"
    using filter_all_length [of tq_below_min rs] length_filter_le [of tq_below_min rs] by linarith
  moreover have "filter tq_below_min rs \<noteq> []" if "length rs \<le> length (filter tq_below_min rs)"
    using that \<open>rs \<noteq> []\<close> by auto
  ultimately have none: "(wa_below acc \<noteq> [] \<and> length txs \<le> length (wa_below acc)) = (\<forall>q \<in> set rs. tq_below_min q)"
    by (auto simp: wb len)
  have meets: "xc_meets c = (if 0 < wa_total acc
      then (if \<forall>q \<in> set rs. tq_below_min q then None else Some (wa_allPass acc)) else Some False)"
    and res: "ax_total (xc_result c) = wa_total acc" "ax_satisfied (xc_result c) = wa_satisfied acc"
    unfolding c workload_check_def Let_def none by simp_all
  have "xc_meets c = Some False \<longleftrightarrow> wa_total acc = 0 \<or> (\<exists>q \<in> set rs. tq_meets q = Some False)"
  proof (cases "wa_total acc = 0")
    case False
    moreover have "\<not> (\<exists>q \<in> set rs. tq_meets q = Some False)" if "\<forall>q \<in> set rs. tq_below_min q"
      using that below by fastforce
    ultimately show ?thesis using tot pass unfolding meets by auto
  qed (simp add: meets)
  then show ?thesis
    using names totals res meets judged below by auto
qed

definition example_slo :: apdex_benchmark where
  "example_slo = \<lparr>xb_id = ''b'', xb_system_under_test_id = ''s'', xb_test_environment = ''e'',
     xb_workload = ''w'', xb_transaction_name = None, xb_threshold_ms = Some 200,
     xb_min_score = 85 / 100, xb_include_failed = False, xb_exclude_ramp_up = False, xb_min_samples = 2\<rparr>"

theorem workload_verdict_witness:
  "xc_meets (evaluateWorkloadLevelApdex list_toolkit example_db False (\<lambda>_. False) example_run example_slo) = Some False
   \<and> ax_total (xc_result (evaluateWorkloadLevelApdex list_toolkit example_db False (\<lambda>_. False) example_run example_slo)) = 2"
proof -
  let ?c = "evaluateWorkloadLevelApdex list_toolkit example_db False (\<lambda>_. False) example_run example_slo"
  have "map tq_meets (the (xc_transactions ?c)) = [Some False] \<and> ax_total (xc_result ?c) = 2"
    by code_simp
  then show ?thesis
    using workload_verdict [where tk = list_toolkit and db = example_db and run = example_run and bulk_threw = False
        and scan_threw = "\<lambda>_. False" and b = example_slo] by auto
qed

text \<open>
  Not every green workload was judged: one transaction whose requests all failed (none is scored)
  beside one with too few samples passes, although no transaction was evaluated.
\<close>

definition unjudged_db :: "rat list apdex_db" where
  "unjudged_db = \<lparr>xd_transactions =
      [\<lparr>tx_test_run_id = ''r1'', tx_time = 1, tx_name = Some ''login'', tx_scenario = None,
        tx_response_time = Some 120, tx_success = True\<rparr>,
       \<lparr>tx_test_run_id = ''r1'', tx_time = 2, tx_name = Some ''pay'', tx_scenario = None,
        tx_response_time = Some 700, tx_success = False\<rparr>],
      xd_stats = [], xd_tx_thresholds = [], xd_wl_thresholds = [], xd_runs = []\<rparr>"

lemma workload_green_unjudged:
  "xc_meets (evaluateWorkloadLevelApdex list_toolkit unjudged_db False (\<lambda>_. False) example_run example_slo) = Some True
   \<and> map tq_meets (the (xc_transactions
        (evaluateWorkloadLevelApdex list_toolkit unjudged_db False (\<lambda>_. False) example_run example_slo))) = [None, None]"
  by code_simp

text \<open>A transaction of two scenarios is pooled by name and counted once per scenario.\<close>

lemma workload_counts_twice:
  "ax_total (xc_result (evaluateWorkloadLevelApdex list_toolkit
     (unjudged_db\<lparr>xd_transactions :=
        [\<lparr>tx_test_run_id = ''r1'', tx_time = 1, tx_name = Some ''login'', tx_scenario = Some ''a'',
          tx_response_time = Some 120, tx_success = True\<rparr>,
         \<lparr>tx_test_run_id = ''r1'', tx_time = 2, tx_name = Some ''login'', tx_scenario = Some ''b'',
          tx_response_time = Some 700, tx_success = True\<rparr>]\<rparr>)
     False (\<lambda>_. False) example_run example_slo)) = 4"
  by code_simp

end
