(* ===== verification/UrlValidator.thy ===== *)
theory UrlValidator
  imports Prelude
begin

text \<open>
  The SSRF-safe URL validator (\<open>packages/shared/src/security/url-validator.ts\<close>). The platform's
  \<open>URL\<close> class is an argument: \<open>parse\<close> gives the parts of a URL that the code reads, or \<open>None\<close>
  where the constructor throws.
\<close>

section \<open>Addresses\<close>

text \<open>\<open>ip.replace(/^::ffff:/i, '')\<close>\<close>

definition strip_mapped :: "string \<Rightarrow> string" where
  "strip_mapped ip = (if startsWith (toLowerCase (take 7 ip)) ''::ffff:'' then drop 7 ip else ip)"

definition strip_brackets :: "string \<Rightarrow> string" where
  "strip_brackets s = filter (\<lambda>c. c \<noteq> CHR ''['' \<and> c \<noteq> CHR '']'') s"

text \<open>The decision on the four octets, in the order of the code.\<close>

definition private_octets :: "jsnum \<Rightarrow> jsnum \<Rightarrow> jsnum \<Rightarrow> bool" where
  "private_octets first second third =
     (let is = (\<lambda>x n. js_eq x (JFin n)); ge = (\<lambda>x n. js_ge x (JFin n)); le = (\<lambda>x n. js_le x (JFin n))
      in if is first 0 then True
         else if is first 10 then True
         else if is first 100 \<and> ge second 64 \<and> le second 127 then True
         else if is first 127 then True
         else if is first 169 \<and> is second 254 then True
         else if is first 172 \<and> ge second 16 \<and> le second 31 then True
         else if is first 192 \<and> is second 0 \<and> is third 0 then True
         else if is first 192 \<and> is second 0 \<and> is third 2 then True
         else if is first 192 \<and> is second 168 then True
         else if is first 198 \<and> (is second 18 \<or> is second 19) then True
         else if is first 198 \<and> is second 51 \<and> is third 100 then True
         else if is first 203 \<and> is second 0 \<and> is third 113 then True
         else if ge first 224 \<and> le first 239 then True
         else if ge first 240 \<and> le first 255 then True
         else False)"

definition bad_octet :: "jsnum \<Rightarrow> bool" where
  "bad_octet x = (x = JNaN \<or> js_lt x (JFin 0) \<or> js_gt x (JFin 255))"

text \<open>
  \<open>isPrivateIP\<close> and \<open>isPrivateIPv6\<close> call each other: the latter on an IPv4-mapped address without
  its prefix, which is shorter.
\<close>

lemma toLowerCase_length [simp]: "length (toLowerCase s) = length s"
  by (simp add: toLowerCase_def)

lemma strip_brackets_length: "length (strip_brackets s) \<le> length s"
  by (simp add: strip_brackets_def)

definition normalize6 :: "string \<Rightarrow> string" where
  "normalize6 ip = strip_brackets (toLowerCase ip)"

lemma normalize6_shorter:
  assumes "startsWith (normalize6 ip) ''::ffff:''"
  shows "length (drop 7 (normalize6 ip)) < length ip"
proof -
  have "7 \<le> length (normalize6 ip)"
    using assms by (auto simp: startsWith_iff dest: prefix_length_le)
  moreover have "length (normalize6 ip) \<le> length ip"
    using strip_brackets_length [of "toLowerCase ip"] by (simp add: normalize6_def)
  ultimately show ?thesis by simp
qed

function isPrivateIP :: "string \<Rightarrow> bool" and isPrivateIPv6 :: "string \<Rightarrow> bool" where
  "isPrivateIP ip =
     (let parts = split_on CHR ''.'' (strip_mapped ip)
      in if length parts \<noteq> 4 then isPrivateIPv6 ip
         else
           (let octets = map js_Number parts
            in if \<exists>x \<in> set octets. bad_octet x then False
               else private_octets (octets ! 0) (octets ! 1) (octets ! 2)))"
| "isPrivateIPv6 ip =
     (let normalizedIP = normalize6 ip
      in if normalizedIP = ''::1'' \<or> normalizedIP = ''0:0:0:0:0:0:0:1'' then True
         else if normalizedIP = ''::'' \<or> normalizedIP = ''0:0:0:0:0:0:0:0'' then True
         else if startsWith normalizedIP ''fe80:'' then True
         else if startsWith normalizedIP ''fc'' \<or> startsWith normalizedIP ''fd'' then True
         else if startsWith normalizedIP ''::ffff:'' then isPrivateIP (drop 7 normalizedIP)
         else False)"
  by pat_completeness auto
termination
  by (relation "measure (\<lambda>x. case x of Inl ip \<Rightarrow> 2 * length ip + 1 | Inr ip \<Rightarrow> 2 * length ip)")
    (use normalize6_shorter in fastforce)+

declare isPrivateIP.simps [simp del] isPrivateIPv6.simps [simp del]

section \<open>Validation\<close>

record url =
  u_protocol :: string
  u_hostname :: string
  u_origin :: string
  u_without_credentials :: string

record url_options =
  uo_blockedHosts :: "string list"
  uo_allowedHosts :: "string list"
  uo_allowHttp :: bool
  uo_requireHttps :: bool

definition default_options :: url_options where
  "default_options = \<lparr>uo_blockedHosts = [], uo_allowedHosts = [], uo_allowHttp = True, uo_requireHttps = False\<rparr>"

datatype url_error =
  UrlRequired | UrlEmpty | UrlFormat | UrlProtocol string "string list" | UrlLocalhost | UrlMetadata
| UrlKubernetes | UrlBlocked | UrlPrivate | UrlOrigin string

text \<open>The result: the error message, or the parsed URL.\<close>

type_synonym url_result = "url_error + url"

definition BLOCKED_LOCALHOST_HOSTS :: "string list" where
  "BLOCKED_LOCALHOST_HOSTS =
     [''localhost'', ''localhost.localdomain'', ''127.0.0.1'', ''0.0.0.0'', ''::1'', ''[::1]'',
      ''0000:0000:0000:0000:0000:0000:0000:0001'', ''0:0:0:0:0:0:0:1'']"

definition BLOCKED_METADATA_HOSTS :: "string list" where
  "BLOCKED_METADATA_HOSTS =
     [''169.254.169.254'', ''metadata.google.internal'', ''metadata.goog'', ''169.254.169.254'',
      ''169.254.169.254'', ''169.254.169.254'']"

definition BLOCKED_K8S_SUFFIXES :: "string list" where
  "BLOCKED_K8S_SUFFIXES =
     [''.svc'', ''.svc.cluster.local'', ''.cluster.local'', ''.pod.cluster.local'', ''.internal'']"

definition ALLOWED_PROTOCOLS :: "string list" where
  "ALLOWED_PROTOCOLS = [''http:'', ''https:'']"

definition isBlockedHostname :: "string \<Rightarrow> bool" where
  "isBlockedHostname hostname =
     (let normalizedHost = toLowerCase hostname
      in if normalizedHost \<in> set BLOCKED_LOCALHOST_HOSTS then True
         else if normalizedHost \<in> set BLOCKED_METADATA_HOSTS then True
         else (\<exists>suffix \<in> set BLOCKED_K8S_SUFFIXES. endsWith normalizedHost suffix))"

definition validateUrl :: "(string \<Rightarrow> url option) \<Rightarrow> string \<Rightarrow> url_options \<Rightarrow> url_result" where
  "validateUrl parse urlString opts =
     (if urlString = [] then Inl UrlRequired
      else if js_trim urlString = [] then Inl UrlEmpty
      else case parse (js_trim urlString) of
             None \<Rightarrow> Inl UrlFormat
           | Some url \<Rightarrow>
               (let allowedProtocols = (if uo_requireHttps opts then [''https:'']
                       else if uo_allowHttp opts then ALLOWED_PROTOCOLS else [''https:'']);
                    hostname = toLowerCase (u_hostname url)
                in if u_protocol url \<notin> set allowedProtocols then Inl (UrlProtocol (u_protocol url) allowedProtocols)
                   else if \<exists>allowed \<in> set (uo_allowedHosts opts). hostname = toLowerCase allowed then Inr url
                   else if hostname \<in> set BLOCKED_LOCALHOST_HOSTS then Inl UrlLocalhost
                   else if hostname \<in> set BLOCKED_METADATA_HOSTS then Inl UrlMetadata
                   else if \<exists>suffix \<in> set BLOCKED_K8S_SUFFIXES. endsWith hostname suffix then Inl UrlKubernetes
                   else if \<exists>blocked \<in> set (uo_blockedHosts opts). hostname = toLowerCase blocked
                        then Inl UrlBlocked
                   else if isPrivateIP hostname then Inl UrlPrivate
                   else Inr url))"

definition isValidUrl :: "(string \<Rightarrow> url option) \<Rightarrow> string \<Rightarrow> url_options \<Rightarrow> bool" where
  "isValidUrl parse urlString opts = (case validateUrl parse urlString opts of Inl _ \<Rightarrow> False | Inr _ \<Rightarrow> True)"

text \<open>\<open>assertValidUrl\<close> throws what \<open>validateUrl\<close> reports.\<close>

definition assertValidUrl :: "(string \<Rightarrow> url option) \<Rightarrow> string \<Rightarrow> url_options \<Rightarrow> url_result" where
  "assertValidUrl parse urlString opts =
     (case validateUrl parse urlString opts of Inl e \<Rightarrow> Inl e | Inr u \<Rightarrow> Inr u)"

text \<open>
  The search of the origin list stops at the first match and throws, which is \<open>None\<close>, at an
  entry before it that is not a URL.
\<close>

fun some_origin :: "(string \<Rightarrow> url option) \<Rightarrow> string \<Rightarrow> string list \<Rightarrow> bool option" where
  "some_origin parse origin [] = Some False"
| "some_origin parse origin (a # as) =
     (case parse a of
        None \<Rightarrow> None
      | Some u \<Rightarrow> if origin = u_origin u then Some True else some_origin parse origin as)"

definition validateIframeUrl :: "(string \<Rightarrow> url option) \<Rightarrow> string \<Rightarrow> string list \<Rightarrow> url_result option" where
  "validateIframeUrl parse urlString allowedOrigins =
     (case validateUrl parse urlString (default_options\<lparr>uo_requireHttps := True\<rparr>) of
        Inl e \<Rightarrow> Some (Inl e)
      | Inr url \<Rightarrow>
          (case some_origin parse (u_origin url) allowedOrigins of
             None \<Rightarrow> None
           | Some ok \<Rightarrow> Some (if ok then Inr url else Inl (UrlOrigin (u_origin url)))))"

definition extractOrigin :: "(string \<Rightarrow> url option) \<Rightarrow> string \<Rightarrow> string option" where
  "extractOrigin parse urlString = map_option u_origin (parse urlString)"

definition sanitizeUrl :: "(string \<Rightarrow> url option) \<Rightarrow> string \<Rightarrow> string option" where
  "sanitizeUrl parse urlString = map_option u_without_credentials (parse urlString)"

definition validateUrls :: "(string \<Rightarrow> url option) \<Rightarrow> string list \<Rightarrow> url_options \<Rightarrow> url_result list" where
  "validateUrls parse urls opts = map (\<lambda>u. validateUrl parse u opts) urls"

section \<open>Reserved blocks\<close>

text \<open>A dotted address, its 32-bit value, and a block of addresses with a common prefix.\<close>

definition dotted :: "nat \<Rightarrow> nat \<Rightarrow> nat \<Rightarrow> nat \<Rightarrow> string" where
  "dotted a b c d = show_nat a @ ''.'' @ show_nat b @ ''.'' @ show_nat c @ ''.'' @ show_nat d"

definition ip_value :: "nat \<Rightarrow> nat \<Rightarrow> nat \<Rightarrow> nat \<Rightarrow> nat" where
  "ip_value a b c d = a * 16777216 + b * 65536 + c * 256 + d"

definition in_block :: "nat \<Rightarrow> nat \<times> nat \<Rightarrow> bool" where
  "in_block v blk = (v div 2 ^ (32 - snd blk) = fst blk div 2 ^ (32 - snd blk))"

definition reserved_blocks :: "(nat \<times> nat) list" where
  "reserved_blocks =
     [(ip_value 0 0 0 0, 8), (ip_value 10 0 0 0, 8), (ip_value 100 64 0 0, 10), (ip_value 127 0 0 0, 8),
      (ip_value 169 254 0 0, 16), (ip_value 172 16 0 0, 12), (ip_value 192 0 0 0, 24),
      (ip_value 192 0 2 0, 24), (ip_value 192 168 0 0, 16), (ip_value 198 18 0 0, 15),
      (ip_value 198 51 100 0, 24), (ip_value 203 0 113 0, 24), (ip_value 224 0 0 0, 4),
      (ip_value 240 0 0 0, 4)]"

lemma dotted_parts: "split_on CHR ''.'' (dotted a b c d) = [show_nat a, show_nat b, show_nat c, show_nat d]"
  by (simp add: dotted_def split_on_app split_on_none digits_no_dot)

lemma dotted_not_mapped: "strip_mapped (dotted a b c d) = dotted a b c d"
proof -
  obtain x xs where x: "show_nat a = x # xs" by (cases "show_nat a") auto
  then have "is_digit x" using show_nat_digits [of a] by simp
  then have l: "lower x = x" "x \<noteq> CHR '':''" by (auto simp: digit_facts is_digit_def code_def)
  have "\<not> startsWith (toLowerCase (take 7 (dotted a b c d))) ''::ffff:''"
    using l by (simp add: dotted_def x toLowerCase_def startsWith_def)
  then show ?thesis by (simp add: strip_mapped_def)
qed

lemma isPrivateIP_dotted:
  assumes "a < 256" "b < 256" "c < 256" "d < 256"
  shows "isPrivateIP (dotted a b c d)
    = private_octets (JFin (of_int (int a))) (JFin (of_int (int b))) (JFin (of_int (int c)))"
proof -
  have o: "js_Number (show_nat n) = JFin (of_int (int n))" if "n < 256" for n
    using that by (simp add: js_Number_show_nat)
  have "(of_int (int n) :: rat) \<le> of_int 255" if "n < 256" for n
    using that by (simp only: of_int_le_iff)
  then have ok: "\<not> bad_octet (JFin (of_int (int n)))" if "n < 256" for n
    using that by (simp add: bad_octet_def)
  show ?thesis
    unfolding isPrivateIP.simps dotted_not_mapped dotted_parts Let_def
    using assms by (simp add: o ok del: of_int_of_nat_eq)
qed

lemma private_octets_nat:
  "private_octets (JFin (of_int (int a))) (JFin (of_int (int b))) (JFin (of_int (int c))) \<longleftrightarrow>
     a = 0 \<or> a = 10 \<or> (a = 100 \<and> 64 \<le> b \<and> b \<le> 127) \<or> a = 127 \<or> (a = 169 \<and> b = 254)
     \<or> (a = 172 \<and> 16 \<le> b \<and> b \<le> 31) \<or> (a = 192 \<and> b = 0 \<and> c = 0) \<or> (a = 192 \<and> b = 0 \<and> c = 2)
     \<or> (a = 192 \<and> b = 168) \<or> (a = 198 \<and> (b = 18 \<or> b = 19)) \<or> (a = 198 \<and> b = 51 \<and> c = 100)
     \<or> (a = 203 \<and> b = 0 \<and> c = 113) \<or> (224 \<le> a \<and> a \<le> 239) \<or> (240 \<le> a \<and> a \<le> 255)"
  by (simp add: private_octets_def Let_def)

lemma div_eq_range:
  fixes n :: nat
  assumes "0 < n"
  shows "m div n = k \<longleftrightarrow> n * k \<le> m \<and> m < n * k + n"
proof
  assume "m div n = k"
  then have "m = n * k + m mod n" using div_mult_mod_eq [of m n] by (simp add: mult.commute)
  moreover have "m mod n < n" using assms by simp
  ultimately show "n * k \<le> m \<and> m < n * k + n" by linarith
next
  assume "n * k \<le> m \<and> m < n * k + n"
  then show "m div n = k" by (intro div_nat_eqI) (simp_all add: add.commute)
qed

lemma base_digits:
  fixes n :: nat
  assumes "y < n" "l < n"
  shows "n * x + y = n * k + l \<longleftrightarrow> x = k \<and> y = l"
proof
  assume e: "n * x + y = n * k + l"
  have "(n * x + y) div n = x" "(n * x + y) mod n = y" "(n * k + l) div n = k" "(n * k + l) mod n = l"
    using assms by simp_all
  with e show "x = k \<and> y = l" by metis
qed simp

text \<open>The leading bits of an address, for the prefix lengths of the table.\<close>

lemma prefix_bits:
  assumes "b < 256" "c < 256" "d < 256"
  shows "ip_value a b c d div 16777216 = a"
    and "ip_value a b c d div 4194304 = 4 * a + b div 64"
    and "ip_value a b c d div 1048576 = 16 * a + b div 16"
    and "ip_value a b c d div 131072 = 128 * a + b div 2"
    and "ip_value a b c d div 65536 = 256 * a + b"
    and "ip_value a b c d div 256 = 65536 * a + 256 * b + c"
    and "ip_value a b c d div 268435456 = a div 16"
  using assms by (simp_all add: ip_value_def)

lemma blocks_nat:
  assumes "a < 256" "b < 256" "c < 256" "d < 256"
  shows "(\<exists>blk \<in> set reserved_blocks. in_block (ip_value a b c d) blk) \<longleftrightarrow>
     a = 0 \<or> a = 10 \<or> (a = 100 \<and> 64 \<le> b \<and> b \<le> 127) \<or> a = 127 \<or> (a = 169 \<and> b = 254)
     \<or> (a = 172 \<and> 16 \<le> b \<and> b \<le> 31) \<or> (a = 192 \<and> b = 0 \<and> c = 0) \<or> (a = 192 \<and> b = 0 \<and> c = 2)
     \<or> (a = 192 \<and> b = 168) \<or> (a = 198 \<and> (b = 18 \<or> b = 19)) \<or> (a = 198 \<and> b = 51 \<and> c = 100)
     \<or> (a = 203 \<and> b = 0 \<and> c = 113) \<or> (224 \<le> a \<and> a \<le> 239) \<or> (240 \<le> a \<and> a \<le> 255)"
proof -
  note p = prefix_bits [OF assms(2-4)]
  have small: "b div 64 < 4" "b div 16 < 16" "b div 2 < 128" using assms(2) by simp_all
  have b: "b div 64 = 1 \<longleftrightarrow> 64 \<le> b \<and> b \<le> 127" "b div 16 = 1 \<longleftrightarrow> 16 \<le> b \<and> b \<le> 31"
    "b div 2 = 9 \<longleftrightarrow> b = 18 \<or> b = 19" by (auto simp: div_eq_range)
  have e:
    "4 * a + b div 64 = 401 \<longleftrightarrow> a = 100 \<and> 64 \<le> b \<and> b \<le> 127"
    "16 * a + b div 16 = 2753 \<longleftrightarrow> a = 172 \<and> 16 \<le> b \<and> b \<le> 31"
    "128 * a + b div 2 = 25353 \<longleftrightarrow> a = 198 \<and> (b = 18 \<or> b = 19)"
    "256 * a + b = 43518 \<longleftrightarrow> a = 169 \<and> b = 254"
    "256 * a + b = 49320 \<longleftrightarrow> a = 192 \<and> b = 168"
    using base_digits [of "b div 64" 4 1 a 100] base_digits [of "b div 16" 16 1 a 172]
      base_digits [of "b div 2" 128 9 a 198] base_digits [of b 256 254 a 169]
      base_digits [of b 256 168 a 192] small assms(2)
    by (simp_all add: b del: One_nat_def)
  have w: "65536 * a + 256 * b + c = 256 * (256 * a + b) + c" by simp
  have f:
    "65536 * a + 256 * b + c = 12582912 \<longleftrightarrow> a = 192 \<and> b = 0 \<and> c = 0"
    "65536 * a + 256 * b + c = 12582914 \<longleftrightarrow> a = 192 \<and> b = 0 \<and> c = 2"
    "65536 * a + 256 * b + c = 12989284 \<longleftrightarrow> a = 198 \<and> b = 51 \<and> c = 100"
    "65536 * a + 256 * b + c = 13303921 \<longleftrightarrow> a = 203 \<and> b = 0 \<and> c = 113"
    unfolding w
    using base_digits [of c 256 0 "256 * a + b" 49152] base_digits [of c 256 2 "256 * a + b" 49152]
      base_digits [of c 256 100 "256 * a + b" 50739] base_digits [of c 256 113 "256 * a + b" 51968]
      base_digits [of b 256 0 a 192] base_digits [of b 256 51 a 198] base_digits [of b 256 0 a 203] assms(2,3)
    by simp_all
  have g: "a div 16 = 14 \<longleftrightarrow> 224 \<le> a \<and> a \<le> 239" "a div 16 = 15 \<longleftrightarrow> 240 \<le> a \<and> a \<le> 255"
    by (auto simp: div_eq_range)
  have k: "ip_value 0 0 0 0 = 0" "ip_value 10 0 0 0 = 167772160" "ip_value 100 64 0 0 = 1681915904"
    "ip_value 127 0 0 0 = 2130706432" "ip_value 169 254 0 0 = 2851995648"
    "ip_value 172 16 0 0 = 2886729728" "ip_value 192 0 0 0 = 3221225472"
    "ip_value 192 0 2 0 = 3221225984" "ip_value 192 168 0 0 = 3232235520"
    "ip_value 198 18 0 0 = 3323068416" "ip_value 198 51 100 0 = 3325256704"
    "ip_value 203 0 113 0 = 3405803776" "ip_value 224 0 0 0 = 3758096384"
    "ip_value 240 0 0 0 = 4026531840"
    by (simp_all add: ip_value_def)
  have blk:
    "in_block (ip_value a b c d) (ip_value 0 0 0 0, 8) \<longleftrightarrow> a = 0"
    "in_block (ip_value a b c d) (ip_value 10 0 0 0, 8) \<longleftrightarrow> a = 10"
    "in_block (ip_value a b c d) (ip_value 100 64 0 0, 10) \<longleftrightarrow> a = 100 \<and> 64 \<le> b \<and> b \<le> 127"
    "in_block (ip_value a b c d) (ip_value 127 0 0 0, 8) \<longleftrightarrow> a = 127"
    "in_block (ip_value a b c d) (ip_value 169 254 0 0, 16) \<longleftrightarrow> a = 169 \<and> b = 254"
    "in_block (ip_value a b c d) (ip_value 172 16 0 0, 12) \<longleftrightarrow> a = 172 \<and> 16 \<le> b \<and> b \<le> 31"
    "in_block (ip_value a b c d) (ip_value 192 0 0 0, 24) \<longleftrightarrow> a = 192 \<and> b = 0 \<and> c = 0"
    "in_block (ip_value a b c d) (ip_value 192 0 2 0, 24) \<longleftrightarrow> a = 192 \<and> b = 0 \<and> c = 2"
    "in_block (ip_value a b c d) (ip_value 192 168 0 0, 16) \<longleftrightarrow> a = 192 \<and> b = 168"
    "in_block (ip_value a b c d) (ip_value 198 18 0 0, 15) \<longleftrightarrow> a = 198 \<and> (b = 18 \<or> b = 19)"
    "in_block (ip_value a b c d) (ip_value 198 51 100 0, 24) \<longleftrightarrow> a = 198 \<and> b = 51 \<and> c = 100"
    "in_block (ip_value a b c d) (ip_value 203 0 113 0, 24) \<longleftrightarrow> a = 203 \<and> b = 0 \<and> c = 113"
    "in_block (ip_value a b c d) (ip_value 224 0 0 0, 4) \<longleftrightarrow> 224 \<le> a \<and> a \<le> 239"
    "in_block (ip_value a b c d) (ip_value 240 0 0 0, 4) \<longleftrightarrow> 240 \<le> a \<and> a \<le> 255"
    unfolding in_block_def k fst_conv snd_conv by (simp_all add: p e f g)
  show ?thesis
    by (simp only: reserved_blocks_def list.set bex_simps blk disj_assoc simp_thms)
qed

section \<open>Properties\<close>

text \<open>
  The octet tests are the reserved blocks. On every dotted IPv4 address \<open>isPrivateIP\<close> answers
  whether its 32-bit value lies in one of the fourteen blocks that the comments of the code name,
  no more and no less.
\<close>

theorem isPrivateIP_blocks:
  assumes "a < 256" "b < 256" "c < 256" "d < 256"
  shows "isPrivateIP (dotted a b c d) \<longleftrightarrow> (\<exists>blk \<in> set reserved_blocks. in_block (ip_value a b c d) blk)"
  by (simp only: isPrivateIP_dotted [OF assms] private_octets_nat blocks_nat [OF assms])

theorem isPrivateIP_blocks_witness:
  "isPrivateIP (dotted 172 31 255 255) \<and> \<not> isPrivateIP (dotted 172 32 0 0)"
proof -
  have "\<exists>blk \<in> set reserved_blocks. in_block (ip_value 172 31 255 255) blk"
    "\<not> (\<exists>blk \<in> set reserved_blocks. in_block (ip_value 172 32 0 0) blk)"
    by (simp_all add: reserved_blocks_def in_block_def ip_value_def)
  then show ?thesis
    using isPrivateIP_blocks [of 172 31 255 255] isPrivateIP_blocks [of 172 32 0 0] by simp
qed

text \<open>
  C24: what a valid URL is. When \<open>validateUrl\<close> accepts, the URL parses, its protocol is one the
  options allow, and its host is either in the caller's list of allowed hosts or passes every
  block list; in particular it is not a dotted address of a reserved block.
\<close>

theorem validateUrl_safe:
  assumes "validateUrl parse s opts = Inr u"
  shows "parse (js_trim s) = Some u
     \<and> u_protocol u \<in> {''http:'', ''https:''}
     \<and> (uo_requireHttps opts \<or> \<not> uo_allowHttp opts \<longrightarrow> u_protocol u = ''https:'')
     \<and> ((\<exists>h \<in> set (uo_allowedHosts opts). toLowerCase (u_hostname u) = toLowerCase h)
        \<or> \<not> isBlockedHostname (u_hostname u)
          \<and> (\<forall>h \<in> set (uo_blockedHosts opts). toLowerCase (u_hostname u) \<noteq> toLowerCase h)
          \<and> (\<forall>a b c d. toLowerCase (u_hostname u) = dotted a b c d \<longrightarrow>
               a < 256 \<longrightarrow> b < 256 \<longrightarrow> c < 256 \<longrightarrow> d < 256 \<longrightarrow>
               \<not> (\<exists>blk \<in> set reserved_blocks. in_block (ip_value a b c d) blk)))"
proof -
  have p: "parse (js_trim s) = Some u"
    and pr: "u_protocol u \<in> set (if uo_requireHttps opts then [''https:'']
                       else if uo_allowHttp opts then ALLOWED_PROTOCOLS else [''https:''])"
    using assms by (auto simp: validateUrl_def Let_def split: if_splits option.splits)
  have pr1: "u_protocol u \<in> {''http:'', ''https:''}"
    and pr2: "uo_requireHttps opts \<or> \<not> uo_allowHttp opts \<longrightarrow> u_protocol u = ''https:''"
    using pr by (auto simp: ALLOWED_PROTOCOLS_def split: if_splits)
  show ?thesis
  proof (cases "\<exists>h \<in> set (uo_allowedHosts opts). toLowerCase (u_hostname u) = toLowerCase h")
    case True
    with p pr1 pr2 show ?thesis by blast
  next
    case False
    have blk: "\<not> isBlockedHostname (u_hostname u)"
      and cu: "\<forall>h \<in> set (uo_blockedHosts opts). toLowerCase (u_hostname u) \<noteq> toLowerCase h"
      and ip: "\<not> isPrivateIP (toLowerCase (u_hostname u))"
      using assms False p
      by (auto simp: validateUrl_def isBlockedHostname_def Let_def split: if_splits)
    have "\<not> (\<exists>blk \<in> set reserved_blocks. in_block (ip_value a b c d) blk)"
      if "toLowerCase (u_hostname u) = dotted a b c d" "a < 256" "b < 256" "c < 256" "d < 256" for a b c d
      using ip that(1) isPrivateIP_dotted [OF that(2-5)] private_octets_nat blocks_nat [OF that(2-5)] by simp
    with p pr1 pr2 blk cu show ?thesis by blast
  qed
qed

definition demo_parse :: "string \<Rightarrow> url option" where
  "demo_parse s =
     (if s = ''https://8.8.8.8/'' then
        Some \<lparr>u_protocol = ''https:'', u_hostname = ''8.8.8.8'', u_origin = ''https://8.8.8.8'',
              u_without_credentials = s\<rparr>
      else if s = ''https://fda.gov/'' then
        Some \<lparr>u_protocol = ''https:'', u_hostname = ''fda.gov'', u_origin = ''https://fda.gov'',
              u_without_credentials = s\<rparr>
      else if s = ''http://[::ffff:127.0.0.1]/'' then
        Some \<lparr>u_protocol = ''http:'', u_hostname = ''[::ffff:7f00:1]'', u_origin = ''http://[::ffff:7f00:1]'',
              u_without_credentials = s\<rparr>
      else None)"

theorem validateUrl_safe_witness:
  "\<exists>u. validateUrl demo_parse '' https://8.8.8.8/'' default_options = Inr u
     \<and> u_protocol u \<in> {''http:'', ''https:''} \<and> \<not> isBlockedHostname (u_hostname u)"
proof -
  define u where "u = the (demo_parse ''https://8.8.8.8/'')"
  have u: "validateUrl demo_parse '' https://8.8.8.8/'' default_options = Inr u"
    unfolding u_def by code_simp
  from validateUrl_safe [OF u] u show ?thesis by (auto simp: default_options_def)
qed

text \<open>
  Host names that merely start with \<open>fc\<close> or \<open>fd\<close> are rejected as unique local IPv6 addresses, and a
  loopback address mapped to IPv6, in the form that the platform prints, is accepted.
\<close>

lemma validateUrl_fd_host: "validateUrl demo_parse ''https://fda.gov/'' default_options = Inl UrlPrivate"
  by code_simp

lemma validateUrl_mapped_loopback: "isValidUrl demo_parse ''http://[::ffff:127.0.0.1]/'' default_options"
  by code_simp

lemma some_origin_true:
  "some_origin parse org as = Some True \<Longrightarrow> \<exists>a \<in> set as. \<exists>v. parse a = Some v \<and> u_origin v = org"
  by (induction as) (auto split: option.splits if_splits)

text \<open>
  Embedding in a frame. \<open>validateIframeUrl\<close> accepts only an HTTPS URL whose origin is that of
  a URL in the list, on a host that is not blocked; the allowed-host exemption does not apply.
\<close>

theorem validateIframeUrl_safe:
  assumes "validateIframeUrl parse s origins = Some (Inr u)"
  shows "u_protocol u = ''https:'' \<and> \<not> isBlockedHostname (u_hostname u)
     \<and> \<not> isPrivateIP (toLowerCase (u_hostname u))
     \<and> (\<exists>a \<in> set origins. \<exists>v. parse a = Some v \<and> u_origin v = u_origin u)"
proof -
  have v: "validateUrl parse s (default_options\<lparr>uo_requireHttps := True\<rparr>) = Inr u"
    and o: "some_origin parse (u_origin u) origins = Some True"
    using assms by (auto simp: validateIframeUrl_def split: sum.splits option.splits if_splits)
  have "u_protocol u = ''https:''" "\<not> isBlockedHostname (u_hostname u)"
    "\<not> isPrivateIP (toLowerCase (u_hostname u))"
    using v by (auto simp: validateUrl_def isBlockedHostname_def default_options_def Let_def
        split: option.splits if_splits)
  with some_origin_true [OF o] show ?thesis by blast
qed

theorem validateIframeUrl_safe_witness:
  "\<exists>u. validateIframeUrl demo_parse ''https://8.8.8.8/'' [''https://8.8.8.8/''] = Some (Inr u)
     \<and> u_protocol u = ''https:''"
proof -
  define u where "u = the (demo_parse ''https://8.8.8.8/'')"
  have u: "validateIframeUrl demo_parse ''https://8.8.8.8/'' [''https://8.8.8.8/''] = Some (Inr u)"
    unfolding u_def by code_simp
  from validateIframeUrl_safe [OF u] u show ?thesis by blast
qed

end
