(* ===== verification/CollectionStatus.thy ===== *)
theory CollectionStatus
  imports Benchmarks
begin

text \<open>
  The bookkeeping of metric collection (\<open>ds_metric_collection_status\<close>): the operations of
  \<open>common/database.service.ts\<close> on its rows, which ranges a source has collected and which failed.

  The table is the list of its rows in the order of \<open>created_at\<close>; a time is its epoch milliseconds;
  \<open>now\<close> is the clock. The unique index on run, source type and source id is what \<open>ON CONFLICT\<close>
  refers to. \<open>created_at\<close>, \<open>updated_at\<close> and the log lines are left out, as are the retries of the
  database connection.
\<close>

record time_range =
  rg_from :: int
  rg_to :: int

record failed_range = time_range +
  fr_attempts :: int
  fr_last_error :: string

record collection_status =
  cs_test_run_id :: string
  cs_source_type :: string
  cs_source_id :: string
  cs_collected_ranges :: "time_range list"
  cs_failed_ranges :: "failed_range list"
  cs_is_complete :: bool
  cs_total_data_points :: int
  cs_last_collected_at :: "int option"
  cs_organization_id :: "string option"
  cs_team_id :: "string option"

record coll_db =
  cb_statuses :: "collection_status list"
  cb_runs :: "test_run list"

datatype coll_error = StatusNotFound string string string | RunNotFound string

section \<open>Reading\<close>

definition or_empty :: "string option \<Rightarrow> string" where
  "or_empty sid = (case sid of None \<Rightarrow> [] | Some s \<Rightarrow> s)"

definition is_source :: "string \<Rightarrow> string \<Rightarrow> string \<Rightarrow> collection_status \<Rightarrow> bool" where
  "is_source rid ty sid s = (cs_test_run_id s = rid \<and> cs_source_type s = ty \<and> cs_source_id s = sid)"

definition getTestRunByTestRunId :: "coll_db \<Rightarrow> string \<Rightarrow> test_run option" where
  "getTestRunByTestRunId db rid = find (\<lambda>r. tr_test_run_id r = rid) (cb_runs db)"

definition getCollectionStatus :: "coll_db \<Rightarrow> string \<Rightarrow> string \<Rightarrow> string option \<Rightarrow> collection_status option" where
  "getCollectionStatus db rid ty sid = find (is_source rid ty (or_empty sid)) (cb_statuses db)"

definition getAllCollectionStatuses :: "coll_db \<Rightarrow> string \<Rightarrow> collection_status list" where
  "getAllCollectionStatuses db rid = filter (\<lambda>s. cs_test_run_id s = rid) (cb_statuses db)"

definition getIncompleteCollectionStatuses :: "coll_db \<Rightarrow> string \<Rightarrow> collection_status list" where
  "getIncompleteCollectionStatuses db rid =
     filter (\<lambda>s. cs_test_run_id s = rid \<and> \<not> cs_is_complete s) (cb_statuses db)"

fun max_to :: "int option \<Rightarrow> time_range list \<Rightarrow> int option" where
  "max_to m [] = m"
| "max_to m (r # rs) =
     max_to (case m of None \<Rightarrow> Some (rg_to r) | Some t \<Rightarrow> if t < rg_to r then Some (rg_to r) else Some t) rs"

definition getLastCollectedTime :: "coll_db \<Rightarrow> string \<Rightarrow> string \<Rightarrow> string option \<Rightarrow> int option" where
  "getLastCollectedTime db rid ty sid =
     (case getCollectionStatus db rid ty sid of
        None \<Rightarrow> None
      | Some s \<Rightarrow> if cs_collected_ranges s = [] then None else max_to None (cs_collected_ranges s))"

section \<open>Writing\<close>

text \<open>A fresh row takes the organization and the team of its run.\<close>

definition fresh_status :: "coll_db \<Rightarrow> string \<Rightarrow> string \<Rightarrow> string \<Rightarrow> collection_status" where
  "fresh_status db rid ty sid =
     \<lparr>cs_test_run_id = rid, cs_source_type = ty, cs_source_id = sid, cs_collected_ranges = [],
      cs_failed_ranges = [], cs_is_complete = False, cs_total_data_points = 0, cs_last_collected_at = None,
      cs_organization_id = Option.bind (getTestRunByTestRunId db rid) tr_organization_id,
      cs_team_id = Option.bind (getTestRunByTestRunId db rid) tr_team_id\<rparr>"

definition ensure_status :: "coll_db \<Rightarrow> string \<Rightarrow> string \<Rightarrow> string \<Rightarrow> coll_db" where
  "ensure_status db rid ty sid =
     (if \<exists>s \<in> set (cb_statuses db). is_source rid ty sid s then db
      else db\<lparr>cb_statuses := cb_statuses db @ [fresh_status db rid ty sid]\<rparr>)"

definition update_status ::
  "string \<Rightarrow> string \<Rightarrow> string \<Rightarrow> (collection_status \<Rightarrow> collection_status) \<Rightarrow> coll_db \<Rightarrow> coll_db" where
  "update_status rid ty sid f db =
     db\<lparr>cb_statuses := map (\<lambda>s. if is_source rid ty sid s then f s else s) (cb_statuses db)\<rparr>"

record status_update =
  up_collected_ranges :: "time_range list option"
  up_failed_ranges :: "failed_range list option"
  up_is_complete :: "bool option"
  up_total_data_points :: "int option"
  up_last_collected_at :: "int option"

definition given :: "'a option \<Rightarrow> 'a \<Rightarrow> 'a" where
  "given v old = (case v of None \<Rightarrow> old | Some x \<Rightarrow> x)"

definition apply_update :: "status_update \<Rightarrow> collection_status \<Rightarrow> collection_status" where
  "apply_update u s = s\<lparr>
     cs_collected_ranges := given (up_collected_ranges u) (cs_collected_ranges s),
     cs_failed_ranges := given (up_failed_ranges u) (cs_failed_ranges s),
     cs_is_complete := given (up_is_complete u) (cs_is_complete s),
     cs_total_data_points := given (up_total_data_points u) (cs_total_data_points s),
     cs_last_collected_at := (case up_last_collected_at u of None \<Rightarrow> cs_last_collected_at s | Some t \<Rightarrow> Some t)\<rparr>"

definition upsertCollectionStatus ::
  "coll_db \<Rightarrow> string \<Rightarrow> string \<Rightarrow> string option \<Rightarrow> status_update \<Rightarrow> coll_error + (collection_status option \<times> coll_db)" where
  "upsertCollectionStatus db rid ty sid u =
     (let db1 = ensure_status db rid ty (or_empty sid)
      in case getCollectionStatus db1 rid ty sid of
           None \<Rightarrow> Inl (StatusNotFound rid ty (or_empty sid))
         | Some _ \<Rightarrow>
             (let db2 = update_status rid ty (or_empty sid) (apply_update u) db1
              in Inr (getCollectionStatus db2 rid ty sid, db2)))"

text \<open>A failed range stays unless one of the collected ranges contains it.\<close>

definition contained :: "time_range list \<Rightarrow> failed_range \<Rightarrow> bool" where
  "contained ranges fr = (\<exists>cr \<in> set ranges. rg_from cr \<le> rg_from fr \<and> rg_to fr \<le> rg_to cr)"

definition add_collected ::
  "int \<Rightarrow> time_range \<Rightarrow> string option \<Rightarrow> string option \<Rightarrow> collection_status \<Rightarrow> collection_status" where
  "add_collected now r org team s =
     (let ranges = cs_collected_ranges s @ [r]
      in s\<lparr>cs_collected_ranges := ranges,
           cs_failed_ranges := filter (\<lambda>fr. \<not> contained ranges fr) (cs_failed_ranges s),
           cs_last_collected_at := Some now,
           cs_organization_id := (case cs_organization_id s of None \<Rightarrow> org | Some x \<Rightarrow> Some x),
           cs_team_id := (case cs_team_id s of None \<Rightarrow> team | Some x \<Rightarrow> Some x)\<rparr>)"

definition updateCollectedRanges ::
  "coll_db \<Rightarrow> int \<Rightarrow> string \<Rightarrow> string \<Rightarrow> string option \<Rightarrow> time_range \<Rightarrow> coll_db" where
  "updateCollectedRanges db now rid ty sid r =
     (let k = or_empty sid; new = fresh_status db rid ty k
      in if \<exists>s \<in> set (cb_statuses db). is_source rid ty k s
         then update_status rid ty k (add_collected now r (cs_organization_id new) (cs_team_id new)) db
         else db\<lparr>cb_statuses := cb_statuses db @
                [new\<lparr>cs_collected_ranges := [r], cs_last_collected_at := Some now\<rparr>]\<rparr>)"

fun bump_failed :: "time_range \<Rightarrow> string \<Rightarrow> failed_range list \<Rightarrow> failed_range list" where
  "bump_failed r err [] = [\<lparr>rg_from = rg_from r, rg_to = rg_to r, fr_attempts = 1, fr_last_error = err\<rparr>]"
| "bump_failed r err (f # fs) =
     (if rg_from f = rg_from r \<and> rg_to f = rg_to r
      then \<lparr>rg_from = rg_from r, rg_to = rg_to r, fr_attempts = fr_attempts f + 1, fr_last_error = err\<rparr> # fs
      else f # bump_failed r err fs)"

definition recordFailedRange ::
  "coll_db \<Rightarrow> string \<Rightarrow> string \<Rightarrow> string option \<Rightarrow> time_range \<Rightarrow> string \<Rightarrow> coll_error + coll_db" where
  "recordFailedRange db rid ty sid r err =
     (let db1 = ensure_status db rid ty (or_empty sid)
      in case getCollectionStatus db1 rid ty (Some (or_empty sid)) of
           None \<Rightarrow> Inl (StatusNotFound rid ty (or_empty sid))
         | Some s \<Rightarrow> Inr (update_status rid ty (or_empty sid)
                     (\<lambda>t. t\<lparr>cs_failed_ranges := bump_failed r err (cs_failed_ranges s)\<rparr>) db1))"

text \<open>The full window of the run, for a source that has no range of its own.\<close>

definition full_window :: "coll_db \<Rightarrow> string \<Rightarrow> time_range list option" where
  "full_window db rid =
     (case getTestRunByTestRunId db rid of
        None \<Rightarrow> None
      | Some run \<Rightarrow> (case (tr_start_time run, tr_end_time run) of
           (Some a, Some b) \<Rightarrow> Some [\<lparr>rg_from = a, rg_to = b\<rparr>] | _ \<Rightarrow> None))"

definition markCollectionComplete ::
  "coll_db \<Rightarrow> int \<Rightarrow> string \<Rightarrow> string \<Rightarrow> string option \<Rightarrow> coll_error + coll_db" where
  "markCollectionComplete db now rid ty sid =
     (case getCollectionStatus db rid ty sid of
        None \<Rightarrow> Inl (StatusNotFound rid ty (or_empty sid))
      | Some s \<Rightarrow> Inr (update_status rid ty (or_empty sid)
           (\<lambda>t. t\<lparr>cs_is_complete := True, cs_failed_ranges := [], cs_last_collected_at := Some now,
                 cs_collected_ranges := (if cs_collected_ranges s = []
                   then given (full_window db rid) (cs_collected_ranges t) else cs_collected_ranges t)\<rparr>) db))"

definition resetCollectionStatus :: "coll_db \<Rightarrow> string \<Rightarrow> string \<Rightarrow> string option \<Rightarrow> coll_db" where
  "resetCollectionStatus db rid ty sid =
     (case getCollectionStatus db rid ty sid of
        None \<Rightarrow> db
      | Some _ \<Rightarrow> update_status rid ty (or_empty sid)
           (\<lambda>t. t\<lparr>cs_collected_ranges := [], cs_failed_ranges := [], cs_is_complete := False\<rparr>) db)"

definition removeCollectionStatus :: "coll_db \<Rightarrow> string \<Rightarrow> string \<Rightarrow> string option \<Rightarrow> coll_db" where
  "removeCollectionStatus db rid ty sid =
     db\<lparr>cb_statuses := filter (\<lambda>s. \<not> is_source rid ty (or_empty sid) s) (cb_statuses db)\<rparr>"

section \<open>The table as a state machine\<close>

datatype coll_op =
    Upsert string string "string option" status_update
  | Collected int string string "string option" time_range
  | Failed string string "string option" time_range string
  | Complete int string string "string option"
  | Reset string string "string option"
  | Remove string string "string option"

text \<open>An operation that throws leaves the table as it is.\<close>

fun run_op :: "coll_op \<Rightarrow> coll_db \<Rightarrow> coll_db" where
  "run_op (Upsert rid ty sid u) db =
     (case upsertCollectionStatus db rid ty sid u of Inl _ \<Rightarrow> db | Inr (_, db') \<Rightarrow> db')"
| "run_op (Collected now rid ty sid r) db = updateCollectedRanges db now rid ty sid r"
| "run_op (Failed rid ty sid r err) db =
     (case recordFailedRange db rid ty sid r err of Inl _ \<Rightarrow> db | Inr db' \<Rightarrow> db')"
| "run_op (Complete now rid ty sid) db =
     (case markCollectionComplete db now rid ty sid of Inl _ \<Rightarrow> db | Inr db' \<Rightarrow> db')"
| "run_op (Reset rid ty sid) db = resetCollectionStatus db rid ty sid"
| "run_op (Remove rid ty sid) db = removeCollectionStatus db rid ty sid"

definition status_key :: "collection_status \<Rightarrow> string \<times> string \<times> string" where
  "status_key s = (cs_test_run_id s, cs_source_type s, cs_source_id s)"

definition keys_unique :: "coll_db \<Rightarrow> bool" where
  "keys_unique db = distinct (map status_key (cb_statuses db))"

definition windows_ok :: "failed_range list \<Rightarrow> bool" where
  "windows_ok fs = (distinct (map (\<lambda>f. (rg_from f, rg_to f)) fs) \<and> (\<forall>f \<in> set fs. 1 \<le> fr_attempts f))"

definition failures_ok :: "coll_db \<Rightarrow> bool" where
  "failures_ok db = (\<forall>s \<in> set (cb_statuses db). windows_ok (cs_failed_ranges s))"

lemma is_source_key: "is_source rid ty sid s \<longleftrightarrow> status_key s = (rid, ty, sid)"
  by (simp add: is_source_def status_key_def)

lemma keys_update:
  assumes "\<And>s. status_key (f s) = status_key s"
  shows "keys_unique (update_status rid ty sid f db) = keys_unique db"
proof -
  have "status_key \<circ> (\<lambda>s. if is_source rid ty sid s then f s else s) = status_key"
    using assms by (auto simp: fun_eq_iff)
  then show ?thesis by (simp add: keys_unique_def update_status_def)
qed

lemma keys_append:
  assumes "keys_unique db" "\<not> (\<exists>s \<in> set (cb_statuses db). is_source rid ty sid s)" "status_key n = (rid, ty, sid)"
  shows "keys_unique (db\<lparr>cb_statuses := cb_statuses db @ [n]\<rparr>)"
  using assms by (auto simp: keys_unique_def is_source_key)

lemma fresh_key [simp]: "status_key (fresh_status db rid ty sid) = (rid, ty, sid)"
  by (simp add: fresh_status_def status_key_def)

lemma keys_ensure: "keys_unique db \<Longrightarrow> keys_unique (ensure_status db rid ty sid)"
  using keys_append by (simp add: ensure_status_def)

lemma keys_op:
  assumes "keys_unique db"
  shows "keys_unique (run_op op db)"
proof (cases op)
  case (Upsert rid ty sid u)
  then show ?thesis using assms keys_ensure [OF assms]
    by (auto simp: upsertCollectionStatus_def Let_def keys_update apply_update_def status_key_def split: option.splits)
next
  case (Collected now rid ty sid r)
  have "keys_unique (db\<lparr>cb_statuses := cb_statuses db @
      [(fresh_status db rid ty (or_empty sid))\<lparr>cs_collected_ranges := [r], cs_last_collected_at := Some now\<rparr>]\<rparr>)"
    if "\<not> (\<exists>s \<in> set (cb_statuses db). is_source rid ty (or_empty sid) s)"
    by (rule keys_append [OF assms that]) (simp add: fresh_status_def status_key_def)
  then show ?thesis using assms Collected
    by (auto simp: updateCollectedRanges_def Let_def keys_update add_collected_def status_key_def)
next
  case (Failed rid ty sid r err)
  then show ?thesis using assms keys_ensure [OF assms]
    by (auto simp: recordFailedRange_def Let_def keys_update status_key_def split: option.splits)
next
  case (Complete now rid ty sid)
  then show ?thesis using assms
    by (auto simp: markCollectionComplete_def keys_update status_key_def split: option.splits)
next
  case (Reset rid ty sid)
  then show ?thesis using assms
    by (auto simp: resetCollectionStatus_def keys_update status_key_def split: option.splits)
next
  case (Remove rid ty sid)
  then show ?thesis using assms
    by (simp add: removeCollectionStatus_def keys_unique_def distinct_map_filter)
qed

lemma windows_bump:
  assumes "windows_ok fs"
  shows "windows_ok (bump_failed r err fs)
    \<and> (\<lambda>f. (rg_from f, rg_to f)) ` set (bump_failed r err fs)
        = insert (rg_from r, rg_to r) ((\<lambda>f. (rg_from f, rg_to f)) ` set fs)"
  using assms by (induction fs) (auto simp: windows_ok_def image_iff)

lemma windows_filter: "windows_ok fs \<Longrightarrow> windows_ok (filter P fs)"
  by (auto simp: windows_ok_def distinct_map_filter)

lemma windows_Nil [simp]: "windows_ok []"
  by (simp add: windows_ok_def)

lemma failures_update:
  assumes "failures_ok db" "\<And>s. s \<in> set (cb_statuses db) \<Longrightarrow> windows_ok (cs_failed_ranges s) \<Longrightarrow> windows_ok (cs_failed_ranges (f s))"
  shows "failures_ok (update_status rid ty sid f db)"
  using assms by (auto simp: failures_ok_def update_status_def)

lemma failures_ensure: "failures_ok db \<Longrightarrow> failures_ok (ensure_status db rid ty sid)"
  by (auto simp: failures_ok_def ensure_status_def fresh_status_def)

lemma find_in: "find P xs = Some x \<Longrightarrow> x \<in> set xs \<and> P x"
  by (metis find_Some_iff nth_mem)

fun upsert_ok :: "coll_op \<Rightarrow> bool" where
  "upsert_ok (Upsert rid ty sid u) = windows_ok (given (up_failed_ranges u) [])"
| "upsert_ok _ = True"

lemma failures_op:
  assumes "failures_ok db" "upsert_ok op"
  shows "failures_ok (run_op op db)"
proof (cases op)
  case (Upsert rid ty sid u)
  then have "windows_ok (cs_failed_ranges (apply_update u s))" if "windows_ok (cs_failed_ranges s)" for s
    using that assms(2) by (auto simp: apply_update_def given_def split: option.splits)
  then show ?thesis using Upsert failures_ensure [OF assms(1)] assms(1)
    by (auto simp: upsertCollectionStatus_def Let_def intro: failures_update split: option.splits)
next
  case (Collected now rid ty sid r)
  then show ?thesis using assms(1)
    by (auto simp: updateCollectedRanges_def Let_def add_collected_def windows_filter intro!: failures_update)
      (auto simp: failures_ok_def fresh_status_def)
next
  case (Failed rid ty sid r err)
  let ?db = "ensure_status db rid ty (or_empty sid)"
  have "windows_ok (bump_failed r err (cs_failed_ranges s))"
    if "getCollectionStatus ?db rid ty (Some (or_empty sid)) = Some s" for s
    using failures_ensure [OF assms(1)] that windows_bump find_in
    by (fastforce simp: failures_ok_def getCollectionStatus_def)
  then show ?thesis using Failed assms(1) failures_ensure [OF assms(1)]
    by (auto simp: recordFailedRange_def Let_def intro!: failures_update split: option.splits)
next
  case (Complete now rid ty sid)
  then show ?thesis using assms(1)
    by (auto simp: markCollectionComplete_def intro!: failures_update split: option.splits)
next
  case (Reset rid ty sid)
  then show ?thesis using assms(1)
    by (auto simp: resetCollectionStatus_def intro!: failures_update split: option.splits)
next
  case (Remove rid ty sid)
  then show ?thesis using assms(1) by (auto simp: removeCollectionStatus_def failures_ok_def)
qed

text \<open>
  Whatever sequence of operations runs, and whatever they throw, a run has at most one row per
  source, so the upserts and the average of the coverage never see a source twice; and the failed
  ranges of a row are distinct windows with at least one attempt each. An upsert that sets failed
  ranges itself must set such a list.
\<close>

theorem collection_invariant:
  assumes "\<forall>op \<in> set ops. upsert_ok op"
  shows "keys_unique (fold run_op ops \<lparr>cb_statuses = [], cb_runs = runs\<rparr>)
    \<and> failures_ok (fold run_op ops \<lparr>cb_statuses = [], cb_runs = runs\<rparr>)"
proof -
  have "keys_unique (fold run_op ops db) \<and> failures_ok (fold run_op ops db)"
    if "keys_unique db" "failures_ok db" for db
    using that assms
  proof (induction ops arbitrary: db)
    case (Cons op ops)
    have "failures_ok (run_op op db)" by (rule failures_op) (use Cons.prems in auto)
    with Cons.IH [of "run_op op db"] keys_op [OF Cons.prems(1)] Cons.prems(3) show ?case by auto
  qed simp
  moreover have "keys_unique \<lparr>cb_statuses = [], cb_runs = runs\<rparr>" "failures_ok \<lparr>cb_statuses = [], cb_runs = runs\<rparr>"
    by (simp_all add: keys_unique_def failures_ok_def)
  ultimately show ?thesis by blast
qed

theorem collection_invariant_witness:
  "keys_unique (fold run_op [Failed ''r'' ''grafana'' None \<lparr>rg_from = 0, rg_to = 9\<rparr> ''x'',
       Collected 5 ''r'' ''grafana'' (Some []) \<lparr>rg_from = 0, rg_to = 4\<rparr>] \<lparr>cb_statuses = [], cb_runs = []\<rparr>)"
  using collection_invariant [of "[Failed ''r'' ''grafana'' None \<lparr>rg_from = 0, rg_to = 9\<rparr> ''x'',
       Collected 5 ''r'' ''grafana'' (Some []) \<lparr>rg_from = 0, rg_to = 4\<rparr>]" "[]"] by auto

section \<open>The cursor of a source\<close>

lemma max_to_snoc: "max_to m (rs @ [r]) = Some (case max_to m rs of None \<Rightarrow> rg_to r | Some t \<Rightarrow> max t (rg_to r))"
  by (induction rs arbitrary: m) (auto simp: max_def split: option.splits)

lemma max_to_empty: "max_to None rs = None \<longleftrightarrow> rs = []"
proof -
  have "max_to (Some t) xs \<noteq> None" for t xs by (induction xs arbitrary: t) auto
  then show ?thesis by (cases rs) auto
qed

lemma find_map_key:
  assumes "\<And>s. status_key (f s) = status_key s"
  shows "find (is_source rid ty sid) (map (\<lambda>s. if is_source rid' ty' sid' s then f s else s) xs)
    = map_option (\<lambda>s. if is_source rid' ty' sid' s then f s else s) (find (is_source rid ty sid) xs)"
  using assms by (induction xs) (auto simp: is_source_key)

lemma get_update:
  assumes "\<And>s. status_key (f s) = status_key s"
  shows "getCollectionStatus (update_status rid' ty' sid' f db) rid ty sid
    = map_option (\<lambda>s. if (rid', ty', sid') = (rid, ty, or_empty sid) then f s else s) (getCollectionStatus db rid ty sid)"
proof -
  have "is_source rid' ty' sid' s \<longleftrightarrow> (rid', ty', sid') = (rid, ty, or_empty sid)"
    if "find (is_source rid ty (or_empty sid)) (cb_statuses db) = Some s" for s
    using find_in [OF that] by (auto simp: is_source_key)
  then show ?thesis
    using find_map_key [where f = f, OF assms]
    by (cases "find (is_source rid ty (or_empty sid)) (cb_statuses db)")
      (auto simp: getCollectionStatus_def update_status_def)
qed

lemma get_none: "getCollectionStatus db rid ty sid = None
    \<longleftrightarrow> \<not> (\<exists>s \<in> set (cb_statuses db). is_source rid ty (or_empty sid) s)"
  by (auto simp: getCollectionStatus_def find_None_iff)

lemma find_append: "find P (xs @ ys) = (case find P xs of None \<Rightarrow> find P ys | Some x \<Rightarrow> Some x)"
  by (induction xs) auto

lemma add_collected_key [simp]: "status_key (add_collected now r org team s) = status_key s"
  by (simp add: add_collected_def status_key_def Let_def)

lemma get_collected:
  "\<exists>s. getCollectionStatus (updateCollectedRanges db now rid ty sid r) rid ty sid = Some s
     \<and> cs_collected_ranges s = (case getCollectionStatus db rid ty sid of None \<Rightarrow> [r]
                               | Some t \<Rightarrow> cs_collected_ranges t @ [r])
     \<and> (\<forall>f \<in> set (cs_failed_ranges s). \<not> contained (cs_collected_ranges s) f)"
proof (cases "getCollectionStatus db rid ty sid")
  case None
  let ?n = "(fresh_status db rid ty (or_empty sid))\<lparr>cs_collected_ranges := [r], cs_last_collected_at := Some now\<rparr>"
  have "updateCollectedRanges db now rid ty sid r = db\<lparr>cb_statuses := cb_statuses db @ [?n]\<rparr>"
    using None by (simp only: get_none updateCollectedRanges_def Let_def if_False)
  moreover have "is_source rid ty (or_empty sid) ?n" by (simp add: is_source_def fresh_status_def)
  ultimately show ?thesis using None
    by (simp add: getCollectionStatus_def find_append fresh_status_def)
next
  case (Some t)
  then have "\<exists>s \<in> set (cb_statuses db). is_source rid ty (or_empty sid) s"
    using get_none [of db rid ty sid] by auto
  then show ?thesis using Some
    by (simp add: updateCollectedRanges_def get_update Let_def) (simp add: add_collected_def Let_def)
qed

lemma get_collected_other:
  assumes "(rid', ty', or_empty sid') \<noteq> (rid, ty, or_empty sid)"
  shows "getCollectionStatus (updateCollectedRanges db now rid ty sid r) rid' ty' sid' = getCollectionStatus db rid' ty' sid'"
proof -
  have new: "is_source rid' ty' (or_empty sid')
      ((fresh_status db rid ty (or_empty sid))\<lparr>cs_collected_ranges := [r], cs_last_collected_at := Some now\<rparr>) = False"
    using assms by (auto simp: is_source_def fresh_status_def)
  show ?thesis
  proof (cases "\<exists>s \<in> set (cb_statuses db). is_source rid ty (or_empty sid) s")
    case True
    then show ?thesis using assms
      by (auto simp: updateCollectedRanges_def Let_def get_update option.map_ident)
  next
    case False
    then show ?thesis using new
      by (auto simp: updateCollectedRanges_def Let_def getCollectionStatus_def find_append split: option.splits)
  qed
qed

text \<open>
  Recording a collected range moves the cursor of its source, and only of its source, to the
  later of the old cursor and the end of the range, so the next incremental job never starts before
  data that was already collected; and no failed range of the row is left inside a collected one.
\<close>

theorem updateCollectedRanges_cursor:
  "getLastCollectedTime (updateCollectedRanges db now rid ty sid r) rid ty sid
      = Some (case getLastCollectedTime db rid ty sid of None \<Rightarrow> rg_to r | Some t \<Rightarrow> max t (rg_to r))
    \<and> ((rid', ty', or_empty sid') \<noteq> (rid, ty, or_empty sid)
         \<longrightarrow> getLastCollectedTime (updateCollectedRanges db now rid ty sid r) rid' ty' sid'
             = getLastCollectedTime db rid' ty' sid')
    \<and> (\<forall>s. getCollectionStatus (updateCollectedRanges db now rid ty sid r) rid ty sid = Some s
         \<longrightarrow> (\<forall>f \<in> set (cs_failed_ranges s). \<not> contained (cs_collected_ranges s) f))"
proof -
  obtain s where s: "getCollectionStatus (updateCollectedRanges db now rid ty sid r) rid ty sid = Some s"
    "cs_collected_ranges s = (case getCollectionStatus db rid ty sid of None \<Rightarrow> [r]
                               | Some t \<Rightarrow> cs_collected_ranges t @ [r])"
    "\<forall>f \<in> set (cs_failed_ranges s). \<not> contained (cs_collected_ranges s) f"
    using get_collected [of db now rid ty sid r] by blast
  have "getLastCollectedTime (updateCollectedRanges db now rid ty sid r) rid ty sid
      = Some (case getLastCollectedTime db rid ty sid of None \<Rightarrow> rg_to r | Some t \<Rightarrow> max t (rg_to r))"
    using s(1,2) max_to_empty
    by (auto simp: getLastCollectedTime_def max_to_snoc split: option.splits)
  then show ?thesis using s get_collected_other [of rid' ty' sid' rid ty sid db now r]
    by (simp add: getLastCollectedTime_def)
qed

theorem updateCollectedRanges_cursor_witness:
  "getLastCollectedTime (updateCollectedRanges (updateCollectedRanges \<lparr>cb_statuses = [], cb_runs = []\<rparr> 1 ''r'' ''grafana'' (Some ''g'')
       \<lparr>rg_from = 0, rg_to = 60\<rparr>) 2 ''r'' ''dynatrace'' (Some ''d'') \<lparr>rg_from = 0, rg_to = 90\<rparr>) ''r'' ''grafana'' (Some ''g'')
     = Some 60"
  using updateCollectedRanges_cursor [of _ 1 "''r''" "''grafana''" "Some ''g''" "\<lparr>rg_from = 0, rg_to = 60\<rparr>"]
    updateCollectedRanges_cursor [of _ 2 "''r''" "''dynatrace''" "Some ''d''" "\<lparr>rg_from = 0, rg_to = 90\<rparr>"
      "''r''" "''grafana''" "Some ''g''"]
  by (simp add: getLastCollectedTime_def [of "\<lparr>cb_statuses = [], cb_runs = []\<rparr>"] getCollectionStatus_def)

end
