(* ===== verification/CollectionGaps.thy ===== *)
theory CollectionGaps
  imports CollectionStatus
begin

text \<open>
  Gaps in collected data (\<open>services/MetricCollectionGapService.ts\<close>) and how the end of a run closes
  them (\<open>checkAndFillMetricGaps\<close> of \<open>services/PipelineOrchestrator.ts\<close>, with the source keys of
  \<open>services/collectable-sources.ts\<close>).
\<close>

section \<open>Missing ranges\<close>

fun merge_from :: "time_range \<Rightarrow> time_range list \<Rightarrow> time_range list" where
  "merge_from current [] = [current]"
| "merge_from current (nxt # rest) =
     (if rg_from nxt \<le> rg_to current + 1000
      then merge_from (current\<lparr>rg_to := max (rg_to current) (rg_to nxt)\<rparr>) rest
      else current # merge_from nxt rest)"

definition mergeOverlappingRanges :: "time_range list \<Rightarrow> time_range list" where
  "mergeOverlappingRanges ranges = (case ranges of [] \<Rightarrow> [] | r # rs \<Rightarrow> merge_from r rs)"

fun between_ranges :: "int \<Rightarrow> int \<Rightarrow> time_range list \<Rightarrow> time_range list" where
  "between_ranges lo hi (a # b # rest) =
     (if rg_to a < rg_from b
      then \<lparr>rg_from = max (rg_to a) lo, rg_to = min (rg_from b) hi\<rparr> # between_ranges lo hi (b # rest)
      else between_ranges lo hi (b # rest))"
| "between_ranges lo hi _ = []"

definition findMissingRanges :: "int \<Rightarrow> int \<Rightarrow> time_range list \<Rightarrow> time_range list" where
  "findMissingRanges expectedStart expectedEnd collectedRanges =
     (if collectedRanges = [] then [\<lparr>rg_from = expectedStart, rg_to = expectedEnd\<rparr>]
      else
        (let merged = mergeOverlappingRanges (sort_key rg_from collectedRanges);
             before = (if expectedStart < rg_from (hd merged)
                       then [\<lparr>rg_from = expectedStart, rg_to = min (rg_from (hd merged)) expectedEnd\<rparr>] else []);
             inner = between_ranges expectedStart expectedEnd merged;
             after = (if rg_to (last merged) < expectedEnd
                      then [\<lparr>rg_from = max (rg_to (last merged)) expectedStart, rg_to = expectedEnd\<rparr>] else [])
         in filter (\<lambda>r. rg_from r < rg_to r \<and> rg_from r < expectedEnd \<and> expectedStart < rg_to r)
              (before @ inner @ after)))"

section \<open>The gap service\<close>

record collection_gap =
  gp_source_type :: string
  gp_source_id :: string
  gp_missing_ranges :: "time_range list"
  gp_failed_ranges :: "failed_range list"

definition perf_test :: string where
  "perf_test = ''performance_test''"

definition gap_of :: "int \<Rightarrow> int \<Rightarrow> collection_status \<Rightarrow> collection_gap option" where
  "gap_of lo hi s =
     (if cs_source_type s = perf_test then None
      else
        (let missing = findMissingRanges lo hi (cs_collected_ranges s);
             retriable = filter (\<lambda>r. fr_attempts r < 5) (cs_failed_ranges s)
         in if missing \<noteq> [] \<or> retriable \<noteq> []
            then Some \<lparr>gp_source_type = cs_source_type s, gp_source_id = cs_source_id s,
                       gp_missing_ranges = missing, gp_failed_ranges = retriable\<rparr>
            else None))"

definition detectGaps :: "coll_db \<Rightarrow> string \<Rightarrow> coll_error + collection_gap list" where
  "detectGaps db rid =
     (case getTestRunByTestRunId db rid of
        None \<Rightarrow> Inl (RunNotFound rid)
      | Some run \<Rightarrow>
          (case (tr_start_time run, tr_end_time run) of
             (Some lo, Some hi) \<Rightarrow> Inr (List.map_filter (gap_of lo hi) (getAllCollectionStatuses db rid))
           | _ \<Rightarrow> Inr []))"

definition isCollectionComplete :: "coll_db \<Rightarrow> string \<Rightarrow> bool" where
  "isCollectionComplete db rid =
     (let statuses = getAllCollectionStatuses db rid
      in if statuses = [] then False
         else (\<forall>s \<in> set (filter (\<lambda>s. cs_source_type s \<noteq> perf_test) statuses). cs_is_complete s))"

record incomplete_source =
  is_source_type :: string
  is_source_id :: string
  is_failed_ranges :: "failed_range list"
  is_last_collected_at :: "int option"

definition getIncompleteSources :: "coll_db \<Rightarrow> string \<Rightarrow> incomplete_source list" where
  "getIncompleteSources db rid =
     map (\<lambda>s. \<lparr>is_source_type = cs_source_type s, is_source_id = cs_source_id s,
                is_failed_ranges = cs_failed_ranges s, is_last_collected_at = cs_last_collected_at s\<rparr>)
       (getIncompleteCollectionStatuses db rid)"

definition markSourceComplete :: "coll_db \<Rightarrow> int \<Rightarrow> string \<Rightarrow> string \<Rightarrow> string option \<Rightarrow> coll_error + coll_db" where
  "markSourceComplete db now rid ty sid = markCollectionComplete db now rid ty sid"

text \<open>Division and \<open>Math.min(100, _)\<close> on numbers.\<close>

definition js_div :: "rat \<Rightarrow> rat \<Rightarrow> jsnum" where
  "js_div a b =
     (if b \<noteq> 0 then JFin (a / b) else if a = 0 then JNaN else if 0 < a then JPosInf else JNegInf)"

fun at_most_100 :: "jsnum \<Rightarrow> jsnum" where
  "at_most_100 (JFin q) = JFin (min 100 (q * 100))"
| "at_most_100 JPosInf = JFin 100"
| "at_most_100 x = x"

definition ranges_duration :: "time_range list \<Rightarrow> int" where
  "ranges_duration rs = sum_list (map (\<lambda>r. rg_to r - rg_from r) rs)"

definition calculateCoverage :: "coll_db \<Rightarrow> string \<Rightarrow> jsnum" where
  "calculateCoverage db rid =
     (case getTestRunByTestRunId db rid of
        None \<Rightarrow> JFin 0
      | Some run \<Rightarrow>
          (case (tr_start_time run, tr_end_time run) of
             (Some lo, Some hi) \<Rightarrow>
               (let allStatuses = getAllCollectionStatuses db rid;
                    statuses = filter (\<lambda>s. cs_source_type s \<noteq> perf_test) allStatuses;
                    covered = sum_list (map (\<lambda>s. ranges_duration (mergeOverlappingRanges (cs_collected_ranges s))) statuses)
                in if allStatuses = [] then JFin 0
                   else if statuses = [] then JFin 100
                   else at_most_100 (js_div (of_int covered) (of_int ((hi - lo) * int (length statuses)))))
           | _ \<Rightarrow> JFin 0))"

record collection_summary =
  sm_totalSources :: int
  sm_completeSources :: int
  sm_incompleteSources :: int
  sm_coverage :: jsnum
  sm_gaps :: int
  sm_failedRanges :: int

definition getCollectionSummary :: "coll_db \<Rightarrow> string \<Rightarrow> coll_error + collection_summary" where
  "getCollectionSummary db rid =
     (let statuses = getAllCollectionStatuses db rid
      in case detectGaps db rid of
           Inl e \<Rightarrow> Inl e
         | Inr gaps \<Rightarrow>
             (let complete = int (length (filter cs_is_complete statuses))
              in Inr \<lparr>sm_totalSources = int (length statuses), sm_completeSources = complete,
                      sm_incompleteSources = int (length statuses) - complete,
                      sm_coverage = calculateCoverage db rid, sm_gaps = int (length gaps),
                      sm_failedRanges = sum_list (map (\<lambda>s. int (length (cs_failed_ranges s))) statuses)\<rparr>))"

section \<open>What the missing ranges are\<close>

text \<open>A time is collected when a range contains it.\<close>

definition covers :: "time_range list \<Rightarrow> int \<Rightarrow> bool" where
  "covers rs t = (\<exists>r \<in> set rs. rg_from r \<le> t \<and> t \<le> rg_to r)"

text \<open>A time inside a hole of at most a second between two collected ranges.\<close>

definition tolerated :: "time_range list \<Rightarrow> int \<Rightarrow> bool" where
  "tolerated rs t = (\<exists>a \<in> set rs. \<exists>b \<in> set rs. rg_to a < t \<and> t < rg_from b \<and> rg_from b \<le> rg_to a + 1000)"

definition proper :: "time_range list \<Rightarrow> bool" where
  "proper rs = (\<forall>r \<in> set rs. rg_from r \<le> rg_to r)"

abbreviation gapped :: "time_range list \<Rightarrow> bool" where
  "gapped \<equiv> sorted_wrt (\<lambda>a b. rg_to a + 1000 < rg_from b)"

lemma proper_Nil [simp]: "proper []"
  by (simp add: proper_def)

lemma proper_Cons [simp]: "proper (r # rs) \<longleftrightarrow> rg_from r \<le> rg_to r \<and> proper rs"
  by (simp add: proper_def)

lemma covers_Cons [simp]: "covers (r # rs) t \<longleftrightarrow> rg_from r \<le> t \<and> t \<le> rg_to r \<or> covers rs t"
  by (auto simp: covers_def)

lemma merge_hd: "merge_from c rs \<noteq> [] \<and> rg_from (hd (merge_from c rs)) = rg_from c"
  by (induction c rs rule: merge_from.induct) auto

lemma merge_from_ok:
  assumes "proper (c # rs)" "sorted (map rg_from (c # rs))"
  shows "proper (merge_from c rs) \<and> gapped (merge_from c rs)
    \<and> (\<forall>m \<in> set (merge_from c rs). rg_from c \<le> rg_from m)"
  using assms
proof (induction c rs rule: merge_from.induct)
  case (1 c)
  then show ?case by (simp add: proper_def)
next
  case (2 c nxt rest)
  show ?case
  proof (cases "rg_from nxt \<le> rg_to c + 1000")
    case True
    have "proper (c\<lparr>rg_to := max (rg_to c) (rg_to nxt)\<rparr> # rest)"
      "sorted (map rg_from (c\<lparr>rg_to := max (rg_to c) (rg_to nxt)\<rparr> # rest))"
      using 2(3,4) by (auto simp: max_def)
    then show ?thesis using 2(1) True by simp
  next
    case False
    have "proper (nxt # rest)" "sorted (map rg_from (nxt # rest))" using 2(3,4) by auto
    from 2(2) [OF False this] False 2(3,4) show ?thesis by fastforce
  qed
qed

lemma merge_from_covers:
  assumes "proper (c # rs)" "sorted (map rg_from (c # rs))" "covers (c # rs) t"
  shows "covers (merge_from c rs) t"
  using assms
proof (induction c rs rule: merge_from.induct)
  case (2 c nxt rest)
  show ?case
  proof (cases "rg_from nxt \<le> rg_to c + 1000")
    case True
    let ?c = "c\<lparr>rg_to := max (rg_to c) (rg_to nxt)\<rparr>"
    have "proper (?c # rest)" "sorted (map rg_from (?c # rest))" "covers (?c # rest) t"
      using 2(3-5) by (auto simp: max_def)
    from 2(1) [OF True this] show ?thesis using True by simp
  next
    case False
    have "proper (nxt # rest)" "sorted (map rg_from (nxt # rest))" using 2(3,4) by auto
    from 2(2) [OF False this] show ?thesis using False 2(5) by auto
  qed
qed simp

text \<open>
  Merging adds only holes of at most a second. While it runs, the current range ends where one of
  the ranges merged into it ends.
\<close>

lemma merge_from_tolerance:
  assumes "covers (merge_from c rs) t" "proper rs" "sorted (map rg_from (c # rs))"
    and "\<exists>e \<in> set used. rg_to e = rg_to c"
  shows "covers (c # rs) t \<or> tolerated (used @ rs) t"
  using assms
proof (induction c rs arbitrary: used rule: merge_from.induct)
  case (2 c nxt rest)
  from 2(6) obtain e where e: "e \<in> set used" "rg_to e = rg_to c" by blast
  show ?case
  proof (cases "rg_from nxt \<le> rg_to c + 1000")
    case True
    let ?c = "c\<lparr>rg_to := max (rg_to c) (rg_to nxt)\<rparr>"
    have "covers (merge_from ?c rest) t" "proper rest" "sorted (map rg_from (?c # rest))"
      "\<exists>x \<in> set (nxt # used). rg_to x = rg_to ?c"
      using 2(3-6) True e by (auto simp: max_def)
    from 2(1) [OF True this] have "covers (?c # rest) t \<or> tolerated (nxt # used @ rest) t" by simp
    moreover have "tolerated (used @ nxt # rest) t" if "rg_to c < t" "t < rg_from nxt"
      unfolding tolerated_def using that e True
      by (intro bexI [of _ e] bexI [of _ nxt]) auto
    moreover have "tolerated (nxt # used @ rest) t = tolerated (used @ nxt # rest) t"
      by (simp add: tolerated_def)
    ultimately show ?thesis by (fastforce simp: max_def split: if_splits)
  next
    case False
    have r: "proper rest" "sorted (map rg_from (nxt # rest))" using 2(4,5) by auto
    show ?thesis
    proof (cases "rg_from c \<le> t \<and> t \<le> rg_to c")
      case f: False
      then have "covers (merge_from nxt rest) t" using 2(3) False by auto
      from 2(2) [OF False this r, of "nxt # used"] show ?thesis
        by (auto simp: tolerated_def)
    qed simp
  qed
qed simp

abbreviation neighbours :: "'a list \<Rightarrow> ('a \<times> 'a) set" where
  "neighbours xs \<equiv> set (zip xs (tl xs))"

lemma between_iff:
  "r \<in> set (between_ranges lo hi M) \<longleftrightarrow>
     (\<exists>a b. (a, b) \<in> neighbours M \<and> rg_to a < rg_from b
        \<and> r = \<lparr>rg_from = max (rg_to a) lo, rg_to = min (rg_from b) hi\<rparr>)"
  by (induction lo hi M rule: between_ranges.induct) auto

lemma neighbours_gap:
  assumes "gapped M" "proper M" "(a, b) \<in> neighbours M" "m \<in> set M"
  shows "(rg_to m \<le> rg_to a \<or> rg_from b \<le> rg_from m) \<and> a \<in> set M \<and> b \<in> set M \<and> rg_to a < rg_from b"
  using assms
proof (induction M arbitrary: m rule: induct_list012)
  case (3 x y ys)
  have tail: "gapped (y # ys)" "proper (y # ys)" using 3 by auto
  show ?case
  proof (cases "(a, b) = (x, y)")
    case True
    then show ?thesis using 3(3-6) by (auto simp: proper_def)
  next
    case False
    then have ab: "(a, b) \<in> neighbours (y # ys)" using 3(5) by auto
    have a: "a \<in> set (y # ys)" using ab by (auto dest: set_zip_leftD)
    from 3(2) [OF tail ab] have "(rg_to y \<le> rg_to a \<or> rg_from b \<le> rg_from y)" "rg_to a < rg_from b"
      "b \<in> set (y # ys)" by auto
    moreover have "rg_to x \<le> rg_to a" using a 3(3,4) by (fastforce simp: proper_def)
    ultimately show ?thesis using 3(2) [OF tail ab, of m] 3(6) a by auto
  qed
qed auto

text \<open>Where a time lies that no range of the merged list contains.\<close>

lemma uncovered_position:
  assumes "M \<noteq> []" "\<not> covers M t"
  shows "t < rg_from (hd M) \<or> rg_to (last M) < t
    \<or> (\<exists>a b. (a, b) \<in> neighbours M \<and> rg_to a < t \<and> t < rg_from b)"
  using assms
proof (induction M rule: induct_list012)
  case (3 a b ys)
  then consider "t < rg_from b" | "rg_to (last (b # ys)) < t"
    | c d where "(c, d) \<in> neighbours (b # ys)" "rg_to c < t" "t < rg_from d" by auto
  then show ?case
  proof cases
    case 1
    then have "t < rg_from a \<or> rg_to a < t" using 3(4) by auto
    then show ?thesis using 1 by auto
  qed auto
qed auto

lemma covers_sort [simp]: "covers (sort_key f rs) t = covers rs t" "tolerated (sort_key f rs) t = tolerated rs t"
  by (simp_all add: covers_def tolerated_def)

lemma merged_ranges:
  assumes "proper rs" "rs \<noteq> []"
  defines "M \<equiv> mergeOverlappingRanges (sort_key rg_from rs)"
  shows "M \<noteq> []" "proper M" "gapped M" "covers rs t \<Longrightarrow> covers M t" "covers M t \<Longrightarrow> covers rs t \<or> tolerated rs t"
proof -
  obtain c cs where s: "sort_key rg_from rs = c # cs"
    using assms(2) by (cases "sort_key rg_from rs") (auto dest: arg_cong [of _ _ length])
  have M: "M = merge_from c cs" by (simp add: M_def mergeOverlappingRanges_def s)
  have p: "proper (c # cs)" using assms(1) by (simp add: proper_def flip: s)
  have srt: "sorted (map rg_from (c # cs))" by (metis s sorted_sort_key)
  show "M \<noteq> []" using merge_hd [of c cs] by (simp add: M)
  show "proper M" "gapped M" using merge_from_ok [OF p srt] by (simp_all add: M)
  show "covers M t" if "covers rs t"
    using merge_from_covers [OF p srt] that covers_sort(1) [of rg_from rs t] by (simp add: M s)
  show "covers rs t \<or> tolerated rs t" if "covers M t"
  proof -
    have "covers (c # cs) t \<or> tolerated ([c] @ cs) t"
      using merge_from_tolerance [of c cs t "[c]"] that p srt by (simp add: M)
    then show ?thesis using covers_sort [of rg_from rs t] by (auto simp: s)
  qed
qed

lemma missing_merged:
  assumes "lo < hi" and "proper rs" and "rs \<noteq> []"
  defines "M \<equiv> mergeOverlappingRanges (sort_key rg_from rs)"
  shows "r \<in> set (findMissingRanges lo hi rs) \<Longrightarrow> lo \<le> rg_from r \<and> rg_from r < rg_to r \<and> rg_to r \<le> hi
      \<and> (\<forall>m \<in> set M. rg_to m \<le> rg_from r \<or> rg_to r \<le> rg_from m)"
    and "lo \<le> t \<Longrightarrow> t \<le> hi \<Longrightarrow> covers M t \<or> covers (findMissingRanges lo hi rs) t"
proof -
  note m = merged_ranges [OF assms(2,3), folded M_def]
  define cand where "cand = (if lo < rg_from (hd M) then [\<lparr>rg_from = lo, rg_to = min (rg_from (hd M)) hi\<rparr>] else [])
      @ between_ranges lo hi M
      @ (if rg_to (last M) < hi then [\<lparr>rg_from = max (rg_to (last M)) lo, rg_to = hi\<rparr>] else [])"
  have miss: "findMissingRanges lo hi rs
      = filter (\<lambda>r. rg_from r < rg_to r \<and> rg_from r < hi \<and> lo < rg_to r) cand"
    using assms(3) by (simp add: findMissingRanges_def Let_def cand_def flip: M_def)
  have hd: "rg_from (hd M) \<le> rg_from r" if "r \<in> set M" for r
    using m(1-3) that by (cases M) (auto simp: proper_def)
  have last: "rg_to r \<le> rg_to (last M)" if "r \<in> set M" for r
    using m(1-3) that by (cases M rule: rev_cases) (auto simp: proper_def sorted_wrt_append)
  have inside: "rg_to m \<le> rg_from r \<or> rg_to r \<le> rg_from m" if "r \<in> set cand" "m \<in> set M" for r m
  proof -
    from that(1) consider "rg_to r = min (rg_from (hd M)) hi" | "rg_from r = max (rg_to (last M)) lo"
      | a b where "(a, b) \<in> neighbours M" "rg_from r = max (rg_to a) lo" "rg_to r = min (rg_from b) hi"
      by (auto simp: cand_def between_iff split: if_splits)
    then show ?thesis
    proof cases
      case 1
      then show ?thesis using hd [OF that(2)] by auto
    next
      case 2
      then show ?thesis using last [OF that(2)] by auto
    next
      case 3
      then show ?thesis using neighbours_gap [OF m(3,2) 3(1) that(2)] by auto
    qed
  qed
  have within: "lo \<le> rg_from r \<and> rg_to r \<le> hi" if "r \<in> set cand" for r
    using that by (auto simp: cand_def between_iff split: if_splits)
  have complete: "covers M t \<or> covers (findMissingRanges lo hi rs) t" if t: "lo \<le> t" "t \<le> hi" for t
  proof (cases "covers M t")
    case False
    have "\<exists>r \<in> set cand. rg_from r \<le> t \<and> t \<le> rg_to r \<and> rg_from r < rg_to r"
      using uncovered_position [OF m(1) False]
    proof (elim disjE exE conjE)
      fix a b assume "(a, b) \<in> neighbours M" "rg_to a < t" "t < rg_from b"
      then have "\<lparr>rg_from = max (rg_to a) lo, rg_to = min (rg_from b) hi\<rparr> \<in> set (between_ranges lo hi M)"
        unfolding between_iff by (intro exI [of _ a] exI [of _ b]) simp
      then have "\<lparr>rg_from = max (rg_to a) lo, rg_to = min (rg_from b) hi\<rparr> \<in> set cand"
        by (simp add: cand_def)
      then show ?thesis using \<open>rg_to a < t\<close> \<open>t < rg_from b\<close> t assms(1) by (auto intro!: bexI)
    qed (use t assms(1) in \<open>auto simp: cand_def\<close>)
    then show ?thesis using within assms(1) by (fastforce simp: miss covers_def)
  qed simp
  show "lo \<le> rg_from r \<and> rg_from r < rg_to r \<and> rg_to r \<le> hi
      \<and> (\<forall>m \<in> set M. rg_to m \<le> rg_from r \<or> rg_to r \<le> rg_from m)"
    if "r \<in> set (findMissingRanges lo hi rs)"
    using that within inside by (auto simp: miss)
  show "covers M t \<or> covers (findMissingRanges lo hi rs) t" if "lo \<le> t" "t \<le> hi"
    by (rule complete [OF that])
qed

lemma findMissingRanges_exact_core:
  assumes "lo < hi" and "proper rs"
  shows "(\<forall>r \<in> set (findMissingRanges lo hi rs). lo \<le> rg_from r \<and> rg_from r < rg_to r \<and> rg_to r \<le> hi
            \<and> (\<forall>t. rg_from r < t \<and> t < rg_to r \<longrightarrow> \<not> covers rs t))
    \<and> (\<forall>t. lo \<le> t \<and> t \<le> hi \<longrightarrow> covers rs t \<or> covers (findMissingRanges lo hi rs) t \<or> tolerated rs t)"
proof (cases "rs = []")
  case True
  then show ?thesis using assms(1) by (auto simp: findMissingRanges_def covers_def)
next
  case False
  note m = merged_ranges [OF assms(2) False] and c = missing_merged [OF assms False]
  have "\<not> covers rs t" if "r \<in> set (findMissingRanges lo hi rs)" "rg_from r < t" "t < rg_to r" for r t
    using c(1) [OF that(1)] m(4) [of t] that(2,3) by (fastforce simp: covers_def)
  moreover have "covers rs t \<or> covers (findMissingRanges lo hi rs) t \<or> tolerated rs t"
    if "lo \<le> t" "t \<le> hi" for t
    using c(2) [OF that] m(5) [of t] by blast
  ultimately show ?thesis using c(1) by auto
qed



text \<open>The documented example: two collected quarters leave the second quarter and the last one.\<close>

lemma findMissingRanges_example:
  "findMissingRanges 0 60000 [\<lparr>rg_from = 0, rg_to = 15000\<rparr>, \<lparr>rg_from = 30000, rg_to = 45000\<rparr>]
     = [\<lparr>rg_from = 15000, rg_to = 30000\<rparr>, \<lparr>rg_from = 45000, rg_to = 60000\<rparr>]"
  by (simp add: findMissingRanges_def mergeOverlappingRanges_def Let_def)

section \<open>Coverage\<close>

lemma full_single:
  assumes "lo < hi" "proper rs" "findMissingRanges lo hi rs = []"
  shows "\<exists>m \<in> set (mergeOverlappingRanges (sort_key rg_from rs)). rg_from m \<le> lo \<and> hi \<le> rg_to m"
proof -
  have ne: "rs \<noteq> []" using assms(3) by (auto simp: findMissingRanges_def)
  define M where "M = mergeOverlappingRanges (sort_key rg_from rs)"
  note m = merged_ranges [OF assms(2) ne, folded M_def]
  have cov: "covers M t" if "lo \<le> t" "t \<le> hi" for t
    using missing_merged(2) [OF assms(1,2) ne that] assms(3) by (simp add: M_def covers_def)
  from cov [of lo] assms(1) obtain x where x: "x \<in> set M" "rg_from x \<le> lo" "lo \<le> rg_to x"
    by (auto simp: covers_def)
  have "hi \<le> rg_to x"
  proof (rule ccontr)
    assume "\<not> hi \<le> rg_to x"
    then obtain y where y: "y \<in> set M" "rg_from y \<le> rg_to x + 1" "rg_to x + 1 \<le> rg_to y"
      using cov [of "rg_to x + 1"] x by (auto simp: covers_def)
    then have "rg_to x + 1000 < rg_from y \<or> rg_to y + 1000 < rg_from x \<or> x = y"
      using m(3) x(1) by (metis (no_types, lifting) sorted_wrt_iff_nth_less in_set_conv_nth linorder_neqE_nat)
    then show False using y x by auto
  qed
  then show ?thesis using x by (auto simp: M_def)
qed

lemma merge_from_proper: "proper (c # rs) \<Longrightarrow> proper (merge_from c rs)"
  by (induction c rs rule: merge_from.induct) (auto simp: max_def proper_def)

lemma duration_nonneg: "proper rs \<Longrightarrow> 0 \<le> ranges_duration rs"
  unfolding ranges_duration_def by (rule sum_list_nonneg) (auto simp: proper_def)

lemma merged_duration_nonneg: "proper rs \<Longrightarrow> 0 \<le> ranges_duration (mergeOverlappingRanges rs)"
  using merge_from_proper by (auto simp: mergeOverlappingRanges_def duration_nonneg split: list.splits)

lemma duration_ge:
  assumes "proper M" "m \<in> set M"
  shows "rg_to m - rg_from m \<le> ranges_duration M"
  using assms
proof (induction M)
  case (Cons x M)
  then show ?case using duration_nonneg [of M] by (fastforce simp: ranges_duration_def)
qed simp

definition collected_statuses :: "coll_db \<Rightarrow> string \<Rightarrow> collection_status list" where
  "collected_statuses db rid = filter (\<lambda>s. cs_source_type s \<noteq> perf_test) (getAllCollectionStatuses db rid)"

lemma coverage_value:
  assumes "getTestRunByTestRunId db rid = Some run" "tr_start_time run = Some lo" "tr_end_time run = Some hi"
    and "lo < hi" "collected_statuses db rid \<noteq> []"
  shows "calculateCoverage db rid = JFin (min 100
     (of_int (sum_list (map (\<lambda>s. ranges_duration (mergeOverlappingRanges (cs_collected_ranges s))) (collected_statuses db rid)))
      / of_int ((hi - lo) * int (length (collected_statuses db rid))) * 100))"
proof -
  have "getAllCollectionStatuses db rid \<noteq> []" using assms(5) by (auto simp: collected_statuses_def)
  then show ?thesis
    using assms by (simp add: calculateCoverage_def Let_def js_div_def flip: collected_statuses_def)
qed

text \<open>
  The two algorithms of the service agree. The coverage of a run is a percentage, and when no
  source has a missing range and each recorded its ranges in the order of their start, it is 100, so
  a source that \<open>detectGaps\<close> finds nothing to fetch for cannot fail the coverage check.
\<close>

theorem coverage_agrees:
  assumes "getTestRunByTestRunId db rid = Some run" "tr_start_time run = Some lo" "tr_end_time run = Some hi"
    and "lo < hi" "collected_statuses db rid \<noteq> []"
    and proper: "\<forall>s \<in> set (collected_statuses db rid). proper (cs_collected_ranges s)"
  shows "(\<exists>q. calculateCoverage db rid = JFin q \<and> 0 \<le> q \<and> q \<le> 100)
    \<and> ((\<forall>s \<in> set (collected_statuses db rid). sorted (map rg_from (cs_collected_ranges s))
          \<and> findMissingRanges lo hi (cs_collected_ranges s) = [])
       \<longrightarrow> calculateCoverage db rid = JFin 100)"
proof (intro conjI impI)
  let ?S = "collected_statuses db rid"
  let ?d = "\<lambda>s. ranges_duration (mergeOverlappingRanges (cs_collected_ranges s))"
  note val = coverage_value [OF assms(1-5)]
  have n: "0 < (hi - lo) * int (length ?S)" using assms(4,5) by simp
  have "0 \<le> sum_list (map ?d ?S)"
    using proper merged_duration_nonneg by (intro sum_list_nonneg) auto
  then show "\<exists>q. calculateCoverage db rid = JFin q \<and> 0 \<le> q \<and> q \<le> 100"
    unfolding val using assms(4) by (simp add: zero_le_divide_iff zero_le_mult_iff)
  assume full: "\<forall>s \<in> set ?S. sorted (map rg_from (cs_collected_ranges s))
          \<and> findMissingRanges lo hi (cs_collected_ranges s) = []"
  have ge: "hi - lo \<le> ?d s" if s: "s \<in> set ?S" for s
  proof -
    let ?M = "mergeOverlappingRanges (cs_collected_ranges s)"
    have srt: "sort_key rg_from (cs_collected_ranges s) = cs_collected_ranges s"
      using full s by (simp add: sorted_sort_id sort_key_id_if_sorted)
    obtain m where "m \<in> set ?M" "rg_from m \<le> lo" "hi \<le> rg_to m"
      using full_single [OF assms(4)] full proper s srt by metis
    moreover have "proper ?M"
      using merge_from_proper proper s by (auto simp: mergeOverlappingRanges_def split: list.splits)
    ultimately show ?thesis using duration_ge [of ?M m] by simp
  qed
  have "(hi - lo) * int (length xs) \<le> sum_list (map ?d xs)" if "set xs \<subseteq> set ?S" for xs
    using that
  proof (induction xs)
    case (Cons x xs)
    then show ?case using ge [of x] by (simp add: algebra_simps)
  qed simp
  then have "(of_int ((hi - lo) * int (length ?S)) :: rat) \<le> of_int (sum_list (map ?d ?S))"
    by (simp only: of_int_le_iff order_refl)
  then have ratio: "1 \<le> (of_int (sum_list (map ?d ?S)) :: rat) / of_int ((hi - lo) * int (length ?S))"
    using n by (simp only: le_divide_eq_1_pos of_int_0_less_iff)
  have "min 100 (x * 100) = 100" if "1 \<le> x" for x :: rat using that by simp
  from this [OF ratio] show "calculateCoverage db rid = JFin 100" unfolding val by (simp only:)
qed

definition example_status :: "time_range list \<Rightarrow> collection_status" where
  "example_status rs = \<lparr>cs_test_run_id = ''r1'', cs_source_type = ''grafana'', cs_source_id = ''g'',
     cs_collected_ranges = rs, cs_failed_ranges = [], cs_is_complete = False, cs_total_data_points = 0,
     cs_last_collected_at = None, cs_organization_id = None, cs_team_id = None\<rparr>"

definition example_coll_db :: "time_range list \<Rightarrow> coll_db" where
  "example_coll_db rs = \<lparr>cb_statuses = [example_status rs],
     cb_runs = [\<lparr>tr_test_run_id = ''r1'', tr_system_under_test_id = ''s'', tr_test_environment = ''e'',
       tr_workload = ''w'', tr_organization_id = None, tr_team_id = None, tr_start_time = Some 0,
       tr_end_time = Some 60000, tr_ramp_up = None\<rparr>]\<rparr>"

lemma example_collected: "collected_statuses (example_coll_db rs) ''r1'' = [example_status rs]"
  by (simp add: collected_statuses_def getAllCollectionStatuses_def example_coll_db_def example_status_def perf_test_def)

theorem coverage_agrees_witness:
  "calculateCoverage (example_coll_db [\<lparr>rg_from = 0, rg_to = 30000\<rparr>, \<lparr>rg_from = 30500, rg_to = 61000\<rparr>]) ''r1'' = JFin 100"
proof -
  let ?rs = "[\<lparr>rg_from = 0, rg_to = 30000\<rparr>, \<lparr>rg_from = 30500, rg_to = 61000\<rparr>]"
  have "findMissingRanges 0 60000 ?rs = []"
    by (simp add: findMissingRanges_def mergeOverlappingRanges_def)
  then show ?thesis
    using coverage_agrees [of "example_coll_db ?rs" "''r1''" "hd (cb_runs (example_coll_db ?rs))" 0 60000]
    unfolding example_collected
    by (simp add: example_coll_db_def example_status_def getTestRunByTestRunId_def)
qed

text \<open>
  The order matters, because the coverage merges the ranges as they were recorded. A source whose
  first half was fetched after its second half has no missing range and half the coverage.
\<close>

lemma coverage_unsorted:
  "detectGaps (example_coll_db [\<lparr>rg_from = 30000, rg_to = 60000\<rparr>, \<lparr>rg_from = 0, rg_to = 30000\<rparr>]) ''r1'' = Inr []
   \<and> calculateCoverage (example_coll_db [\<lparr>rg_from = 30000, rg_to = 60000\<rparr>, \<lparr>rg_from = 0, rg_to = 30000\<rparr>]) ''r1'' = JFin 50"
  by (simp add: detectGaps_def calculateCoverage_def example_coll_db_def example_status_def
      getTestRunByTestRunId_def getAllCollectionStatuses_def gap_of_def findMissingRanges_def
      mergeOverlappingRanges_def perf_test_def Let_def js_div_def ranges_duration_def List.map_filter_def)

end
