(* ===== verification/CollectionSources.thy ===== *)
theory CollectionSources
  imports CollectionStatus
begin

text \<open>
  Which metric sources a test run has (\<open>services/collectable-sources.ts\<close>): the Grafana instances of
  its collectable dashboards, its enabled Dynatrace configurations, and the performance test itself;
  and the sweep that removes the bookkeeping of a source that is no longer one of them.

  Tables are lists of rows. The statement that looks up the artificial and tagged dashboards may
  throw, which is \<open>None\<close>.
\<close>

record app_dashboard =
  ad_id :: string
  ad_system_under_test_id :: string
  ad_test_environment :: string
  ad_grafana_dashboard_id :: "string option"
  ad_grafana_instance_id :: "string option"

record grafana_dashboard_row =
  gd_id :: string
  gd_has_json :: bool
  gd_tags :: "string list option"

record dynatrace_query_row =
  dq_system_under_test_id :: string
  dq_test_environment :: string
  dq_workload :: string
  dq_config_id :: "string option"
  dq_enabled :: bool

record source_tables =
  st_app_dashboards :: "app_dashboard list"
  st_grafana_dashboards :: "grafana_dashboard_row list option"
  st_dynatrace_queries :: "dynatrace_query_row list"

definition NO_ANOMALY_DETECTION_MARKER :: string where
  "NO_ANOMALY_DETECTION_MARKER = ''no-anomaly-detection''"

definition uncollectable :: "grafana_dashboard_row \<Rightarrow> bool" where
  "uncollectable g = (\<not> gd_has_json g \<or> NO_ANOMALY_DETECTION_MARKER \<in> set (case gd_tags g of None \<Rightarrow> [] | Some ts \<Rightarrow> ts))"

definition findUncollectableDashboardIds :: "source_tables \<Rightarrow> string list \<Rightarrow> string list option" where
  "findUncollectableDashboardIds db ids =
     map_option (\<lambda>rows. map gd_id (filter (\<lambda>g. gd_id g \<in> set ids \<and> uncollectable g) rows)) (st_grafana_dashboards db)"

definition some_nonempty :: "string option \<Rightarrow> bool" where
  "some_nonempty s = (s \<noteq> None \<and> s \<noteq> Some [])"

definition filterCollectableGrafanaDashboards :: "source_tables \<Rightarrow> app_dashboard list \<Rightarrow> app_dashboard list" where
  "filterCollectableGrafanaDashboards db dashboards =
     (let dashboardIds = map the (filter some_nonempty (map ad_grafana_dashboard_id dashboards))
      in if dashboardIds = [] then dashboards
         else (case findUncollectableDashboardIds db dashboardIds of
                 None \<Rightarrow> dashboards
               | Some excluded \<Rightarrow>
                   if excluded = [] then dashboards
                   else filter (\<lambda>d. \<not> (some_nonempty (ad_grafana_dashboard_id d)
                                   \<and> the (ad_grafana_dashboard_id d) \<in> set excluded)) dashboards))"

definition collectionSourceKey :: "string \<Rightarrow> string option \<Rightarrow> string" where
  "collectionSourceKey ty sid = ty @ ''::'' @ or_empty sid"

definition dynatrace_configs :: "source_tables \<Rightarrow> string \<Rightarrow> string \<Rightarrow> string \<Rightarrow> string list" where
  "dynatrace_configs db sut env wl =
     remdups (List.map_filter dq_config_id (filter (\<lambda>q. dq_system_under_test_id q = sut \<and> dq_test_environment q = env
        \<and> dq_workload q = wl \<and> dq_enabled q) (st_dynatrace_queries db)))"

definition dashboards_of :: "source_tables \<Rightarrow> string \<Rightarrow> string \<Rightarrow> app_dashboard list" where
  "dashboards_of db sut env =
     filter (\<lambda>d. ad_system_under_test_id d = sut \<and> ad_test_environment d = env) (st_app_dashboards db)"

definition getConfiguredSourceKeys :: "source_tables \<Rightarrow> string \<Rightarrow> string \<Rightarrow> string \<Rightarrow> string list" where
  "getConfiguredSourceKeys db sut env wl =
     collectionSourceKey ''performance_test'' (Some [])
     # map (collectionSourceKey ''grafana'')
         (filter some_nonempty (map ad_grafana_instance_id
            (filterCollectableGrafanaDashboards db (dashboards_of db sut env))))
     @ map (\<lambda>c. collectionSourceKey ''dynatrace'' (Some c)) (dynatrace_configs db sut env wl)"

section \<open>The sweep\<close>

definition sweep_step :: "string \<Rightarrow> string list \<Rightarrow> collection_status list \<times> coll_db \<Rightarrow> collection_status
    \<Rightarrow> collection_status list \<times> coll_db" where
  "sweep_step rid configured acc s =
     (if collectionSourceKey (cs_source_type s) (Some (cs_source_id s)) \<in> set configured
      then (fst acc @ [s], snd acc)
      else (fst acc, removeCollectionStatus (snd acc) rid (cs_source_type s) (Some (cs_source_id s))))"

definition removeOrphanedCollectionSources ::
  "source_tables \<Rightarrow> coll_db \<Rightarrow> string \<Rightarrow> collection_status list \<Rightarrow> collection_status list \<times> coll_db" where
  "removeOrphanedCollectionSources tabs db rid statuses =
     (case getTestRunByTestRunId db rid of
        None \<Rightarrow> (statuses, db)
      | Some run \<Rightarrow>
          foldl (sweep_step rid (getConfiguredSourceKeys tabs (tr_system_under_test_id run)
                   (tr_test_environment run) (tr_workload run))) ([], db) statuses)"

section \<open>Properties\<close>

lemma source_key_eq:
  assumes "CHR '':'' \<notin> set ty" "CHR '':'' \<notin> set ty'"
  shows "collectionSourceKey ty sid = collectionSourceKey ty' sid' \<longleftrightarrow> ty = ty' \<and> or_empty sid = or_empty sid'"
  using first_piece [OF assms, of "CHR '':'' # or_empty sid" "CHR '':'' # or_empty sid'"]
  by (auto simp: collectionSourceKey_def)

lemma or_empty_Some [simp]: "or_empty (Some x) = x"
  by (simp add: or_empty_def)

text \<open>
  The key of a source names it: two sources whose types have no colon, as the three types of the
  program, have the same key only when both the type and the id agree, a missing id being the empty
  one.
\<close>

theorem collectionSourceKey_inj:
  assumes "CHR '':'' \<notin> set ty" and "CHR '':'' \<notin> set ty'"
  shows "collectionSourceKey ty sid = collectionSourceKey ty' sid' \<longleftrightarrow> ty = ty' \<and> or_empty sid = or_empty sid'"
  by (rule source_key_eq [OF assms])

theorem collectionSourceKey_inj_witness:
  "collectionSourceKey ''grafana'' (Some ''x::y'') \<noteq> collectionSourceKey ''dynatrace'' (Some ''x::y'')"
  using collectionSourceKey_inj [of "''grafana''" "''dynatrace''" "Some ''x::y''" "Some ''x::y''"] by simp

lemma filter_collectable_iff:
  "d \<in> set (filterCollectableGrafanaDashboards db ds) \<longleftrightarrow> d \<in> set ds \<and>
     (\<forall>rows. st_grafana_dashboards db = Some rows \<longrightarrow>
        \<not> (\<exists>g \<in> set rows. ad_grafana_dashboard_id d = Some (gd_id g) \<and> gd_id g \<noteq> [] \<and> uncollectable g))"
proof -
  define ids where "ids = map the (filter some_nonempty (map ad_grafana_dashboard_id ds))"
  have ids: "the (ad_grafana_dashboard_id e) \<in> set ids" if "e \<in> set ds" "some_nonempty (ad_grafana_dashboard_id e)" for e
    using that by (auto simp: ids_def)
  show ?thesis
  proof (cases "st_grafana_dashboards db")
    case None
    then show ?thesis by (simp add: filterCollectableGrafanaDashboards_def findUncollectableDashboardIds_def Let_def)
  next
    case (Some rows)
    define ex where "ex = map gd_id (filter (\<lambda>g. gd_id g \<in> set ids \<and> uncollectable g) rows)"
    define keep where "keep = (\<lambda>d :: app_dashboard. \<not> (some_nonempty (ad_grafana_dashboard_id d) \<and> the (ad_grafana_dashboard_id d) \<in> set ex))"
    have sub: "set ex \<subseteq> set ids" by (auto simp: ex_def)
    have "filter keep ds = ds" if "ids = [] \<or> ex = []"
      by (rule filter_True) (use that sub in \<open>auto simp: keep_def\<close>)
    then have eq: "filterCollectableGrafanaDashboards db ds = filter keep ds"
      using Some by (auto simp: filterCollectableGrafanaDashboards_def findUncollectableDashboardIds_def Let_def
          keep_def simp flip: ids_def ex_def)
    have "(some_nonempty (ad_grafana_dashboard_id d) \<and> the (ad_grafana_dashboard_id d) \<in> set ex)
        \<longleftrightarrow> (\<exists>g \<in> set rows. ad_grafana_dashboard_id d = Some (gd_id g) \<and> gd_id g \<noteq> [] \<and> uncollectable g)"
      if "d \<in> set ds"
      using ids [OF that] by (cases "ad_grafana_dashboard_id d") (auto simp: ex_def some_nonempty_def)
    then show ?thesis using Some by (auto simp: eq keep_def)
  qed
qed

text \<open>
  The sources of a run. The performance test is always one; a Grafana instance is one exactly
  when a dashboard of the system and environment is on it that is not an artificial or tagged one,
  and when that question cannot be answered, any dashboard counts; a Dynatrace configuration is one
  exactly when the workload has an enabled query of it.
\<close>

theorem getConfiguredSourceKeys_exact:
  shows "collectionSourceKey ''performance_test'' None \<in> set (getConfiguredSourceKeys db sut env wl)
    \<and> (i \<noteq> [] \<longrightarrow> (collectionSourceKey ''grafana'' (Some i) \<in> set (getConfiguredSourceKeys db sut env wl) \<longleftrightarrow>
         (\<exists>d \<in> set (st_app_dashboards db). ad_system_under_test_id d = sut \<and> ad_test_environment d = env
            \<and> ad_grafana_instance_id d = Some i
            \<and> (\<forall>rows. st_grafana_dashboards db = Some rows \<longrightarrow>
                 \<not> (\<exists>g \<in> set rows. ad_grafana_dashboard_id d = Some (gd_id g) \<and> gd_id g \<noteq> [] \<and> uncollectable g)))))
    \<and> (collectionSourceKey ''dynatrace'' (Some c) \<in> set (getConfiguredSourceKeys db sut env wl) \<longleftrightarrow>
         (\<exists>q \<in> set (st_dynatrace_queries db). dq_system_under_test_id q = sut \<and> dq_test_environment q = env
            \<and> dq_workload q = wl \<and> dq_enabled q \<and> dq_config_id q = Some c))"
proof -
  have ne: "collectionSourceKey ''grafana'' x \<noteq> collectionSourceKey ''dynatrace'' y"
    "collectionSourceKey ''grafana'' x \<noteq> collectionSourceKey ''performance_test'' y"
    "collectionSourceKey ''dynatrace'' x \<noteq> collectionSourceKey ''performance_test'' y" for x y
    by (simp_all add: collectionSourceKey_def)
  have same: "collectionSourceKey ty x = collectionSourceKey ty y \<longleftrightarrow> or_empty x = or_empty y" for ty x y
    by (simp add: collectionSourceKey_def)
  let ?K = "getConfiguredSourceKeys db sut env wl"
  let ?D = "filterCollectableGrafanaDashboards db (dashboards_of db sut env)"
  have pt: "collectionSourceKey ''performance_test'' None \<in> set ?K"
    by (simp add: getConfiguredSourceKeys_def same or_empty_def)
  have "collectionSourceKey ''grafana'' (Some i) \<in> set ?K \<longleftrightarrow> (\<exists>d \<in> set ?D. ad_grafana_instance_id d = Some i)"
    if "i \<noteq> []"
  proof -
    have "collectionSourceKey ''grafana'' (Some i) \<in> set ?K \<longleftrightarrow>
        (\<exists>d \<in> set ?D. some_nonempty (ad_grafana_instance_id d) \<and> or_empty (ad_grafana_instance_id d) = i)"
      using ne by (auto simp: getConfiguredSourceKeys_def image_iff same or_empty_def)
    also have "\<dots> \<longleftrightarrow> (\<exists>d \<in> set ?D. ad_grafana_instance_id d = Some i)"
      using that by (intro bex_cong refl) (auto simp: some_nonempty_def or_empty_def split: option.splits)
    finally show ?thesis .
  qed
  moreover have "collectionSourceKey ''dynatrace'' (Some c) \<in> set ?K \<longleftrightarrow> c \<in> set (dynatrace_configs db sut env wl)"
    using ne [THEN not_sym] ne(3) by (auto simp: getConfiguredSourceKeys_def image_iff same or_empty_def)
  moreover have "c \<in> set (dynatrace_configs db sut env wl) \<longleftrightarrow> (\<exists>q \<in> set (st_dynatrace_queries db).
      dq_system_under_test_id q = sut \<and> dq_test_environment q = env \<and> dq_workload q = wl \<and> dq_enabled q \<and> dq_config_id q = Some c)"
    by (auto simp: dynatrace_configs_def List.map_filter_def image_iff)
  moreover have "(\<exists>d \<in> set ?D. ad_grafana_instance_id d = Some i) \<longleftrightarrow>
      (\<exists>d \<in> set (st_app_dashboards db). ad_system_under_test_id d = sut \<and> ad_test_environment d = env
            \<and> ad_grafana_instance_id d = Some i
            \<and> (\<forall>rows. st_grafana_dashboards db = Some rows \<longrightarrow>
                 \<not> (\<exists>g \<in> set rows. ad_grafana_dashboard_id d = Some (gd_id g) \<and> gd_id g \<noteq> [] \<and> uncollectable g)))"
    unfolding Bex_def filter_collectable_iff by (intro ex_cong1) (auto simp: dashboards_of_def)
  ultimately show ?thesis using pt by blast
qed

definition example_tables :: source_tables where
  "example_tables = \<lparr>
     st_app_dashboards = [
       \<lparr>ad_id = ''a1'', ad_system_under_test_id = ''s'', ad_test_environment = ''e'',
        ad_grafana_dashboard_id = Some ''g1'', ad_grafana_instance_id = Some ''i1''\<rparr>,
       \<lparr>ad_id = ''a2'', ad_system_under_test_id = ''s'', ad_test_environment = ''e'',
        ad_grafana_dashboard_id = Some ''g2'', ad_grafana_instance_id = Some ''i2''\<rparr>],
     st_grafana_dashboards = Some [
       \<lparr>gd_id = ''g1'', gd_has_json = True, gd_tags = None\<rparr>,
       \<lparr>gd_id = ''g2'', gd_has_json = False, gd_tags = Some []\<rparr>],
     st_dynatrace_queries = [\<lparr>dq_system_under_test_id = ''s'', dq_test_environment = ''e'',
       dq_workload = ''w'', dq_config_id = Some ''d1'', dq_enabled = False\<rparr>]\<rparr>"

theorem getConfiguredSourceKeys_exact_witness:
  "collectionSourceKey ''grafana'' (Some ''i1'') \<in> set (getConfiguredSourceKeys example_tables ''s'' ''e'' ''w'')
   \<and> collectionSourceKey ''grafana'' (Some ''i2'') \<notin> set (getConfiguredSourceKeys example_tables ''s'' ''e'' ''w'')
   \<and> collectionSourceKey ''dynatrace'' (Some ''d1'') \<notin> set (getConfiguredSourceKeys example_tables ''s'' ''e'' ''w'')"
  using getConfiguredSourceKeys_exact [of example_tables "''s''" "''e''" "''w''" "''i1''" "''d1''"]
    getConfiguredSourceKeys_exact [of example_tables "''s''" "''e''" "''w''" "''i2''" "''d1''"]
  by (simp add: example_tables_def uncollectable_def)

text \<open>What the sweep leaves.\<close>

lemma sweep_list: "fst (foldl (sweep_step rid K) acc ss)
    = fst acc @ filter (\<lambda>s. collectionSourceKey (cs_source_type s) (Some (cs_source_id s)) \<in> set K) ss"
  by (induction ss arbitrary: acc) (auto simp: sweep_step_def)

lemma sweep_db: "cb_statuses (snd (foldl (sweep_step rid K) acc ss))
    = filter (\<lambda>s. \<not> (\<exists>t \<in> set ss. collectionSourceKey (cs_source_type t) (Some (cs_source_id t)) \<notin> set K
                        \<and> is_source rid (cs_source_type t) (cs_source_id t) s)) (cb_statuses (snd acc))
    \<and> cb_runs (snd (foldl (sweep_step rid K) acc ss)) = cb_runs (snd acc)"
proof (induction ss arbitrary: acc)
  case (Cons x ss)
  show ?case
    by (simp add: Cons.IH sweep_step_def [of rid K acc x] removeCollectionStatus_def or_empty_def)
qed simp

lemma sweep_exact:
  assumes "getTestRunByTestRunId db rid = Some run"
    and "removeOrphanedCollectionSources tabs db rid (getAllCollectionStatuses db rid) = (rest, db2)"
  defines "K \<equiv> getConfiguredSourceKeys tabs (tr_system_under_test_id run) (tr_test_environment run) (tr_workload run)"
  shows "rest = getAllCollectionStatuses db2 rid"
    and "rest = filter (\<lambda>s. collectionSourceKey (cs_source_type s) (Some (cs_source_id s)) \<in> set K)
                 (getAllCollectionStatuses db rid)"
    and "filter (\<lambda>s. cs_test_run_id s \<noteq> rid) (cb_statuses db2) = filter (\<lambda>s. cs_test_run_id s \<noteq> rid) (cb_statuses db)"
    and "cb_runs db2 = cb_runs db" and "keys_unique db \<Longrightarrow> keys_unique db2"
proof -
  have f: "foldl (sweep_step rid K) ([], db) (getAllCollectionStatuses db rid) = (rest, db2)"
    using assms(1,2) by (simp add: removeOrphanedCollectionSources_def K_def)
  have st: "cb_statuses db2 = filter (\<lambda>s. \<not> (cs_test_run_id s = rid
      \<and> collectionSourceKey (cs_source_type s) (Some (cs_source_id s)) \<notin> set K)) (cb_statuses db)"
    using sweep_db [of rid K "([], db)" "getAllCollectionStatuses db rid"] unfolding f
    by (auto simp: getAllCollectionStatuses_def is_source_def intro!: filter_cong)
  show r: "rest = filter (\<lambda>s. collectionSourceKey (cs_source_type s) (Some (cs_source_id s)) \<in> set K)
                 (getAllCollectionStatuses db rid)"
    using sweep_list [of rid K "([], db)" "getAllCollectionStatuses db rid"] unfolding f by simp
  show "rest = getAllCollectionStatuses db2 rid"
    unfolding r by (auto simp: getAllCollectionStatuses_def st intro!: filter_cong)
  show "filter (\<lambda>s. cs_test_run_id s \<noteq> rid) (cb_statuses db2) = filter (\<lambda>s. cs_test_run_id s \<noteq> rid) (cb_statuses db)"
    by (auto simp: st intro!: filter_cong)
  show "keys_unique db2" if "keys_unique db"
    using that by (simp add: keys_unique_def st distinct_map_filter)
  show "cb_runs db2 = cb_runs db"
    using sweep_db [of rid K "([], db)" "getAllCollectionStatuses db rid"] unfolding f by simp
qed

end
