(* ===== verification/CollectionFill.thy ===== *)
theory CollectionFill
  imports CollectionGaps CollectionSources
begin

text \<open>
  How the end of a run closes the gaps of its collection: \<open>checkAndFillMetricGaps\<close> and
  \<open>retryCollectionForRange\<close> of \<open>services/PipelineOrchestrator.ts\<close>, over the gap service and the sweep.

  The pipeline that fetches the metrics of one range is code outside this part: \<open>fetch n ty sid r\<close>
  tells whether its \<open>n\<close>-th call succeeds, for a source and a range. What it writes to the metrics
  tables is not part of the bookkeeping. \<open>now\<close> is the clock of the call.
\<close>

datatype fill_warning =
    MaxRetries string string time_range
  | RetryFailed string string time_range
  | CollectFailed string string time_range
  | StillIncomplete int int jsnum
  | GapProcessFailed

type_synonym fetcher = "nat \<Rightarrow> string \<Rightarrow> string \<Rightarrow> time_range \<Rightarrow> bool"

record fill_state =
  fl_db :: coll_db
  fl_calls :: nat
  fl_warnings :: "fill_warning list"
  fl_errors :: bool

definition retryCollectionForRange ::
  "fetcher \<Rightarrow> int \<Rightarrow> string \<Rightarrow> string \<Rightarrow> string \<Rightarrow> time_range \<Rightarrow> fill_state \<Rightarrow> bool \<times> fill_state" where
  "retryCollectionForRange fetch now rid ty sid r st =
     (let st1 = st\<lparr>fl_calls := fl_calls st + 1\<rparr>
      in if fetch (fl_calls st) ty sid r
         then (True, st1\<lparr>fl_db := updateCollectedRanges (fl_db st) now rid ty (Some sid) r\<rparr>)
         else (False, st1))"

definition window_of :: "failed_range \<Rightarrow> time_range" where
  "window_of f = \<lparr>rg_from = rg_from f, rg_to = rg_to f\<rparr>"

definition retry_failed :: "fetcher \<Rightarrow> int \<Rightarrow> string \<Rightarrow> collection_gap \<Rightarrow> fill_state \<Rightarrow> failed_range \<Rightarrow> fill_state" where
  "retry_failed fetch now rid g st f =
     (if 5 \<le> fr_attempts f
      then st\<lparr>fl_warnings := fl_warnings st @ [MaxRetries (gp_source_type g) (gp_source_id g) (window_of f)],
              fl_errors := True\<rparr>
      else (case retryCollectionForRange fetch now rid (gp_source_type g) (gp_source_id g) (window_of f) st of
              (True, st1) \<Rightarrow> st1
            | (False, st1) \<Rightarrow> st1\<lparr>fl_warnings := fl_warnings st1 @
                 [RetryFailed (gp_source_type g) (gp_source_id g) (window_of f)], fl_errors := True\<rparr>))"

definition fill_missing :: "fetcher \<Rightarrow> int \<Rightarrow> string \<Rightarrow> collection_gap \<Rightarrow> fill_state \<Rightarrow> time_range \<Rightarrow> fill_state" where
  "fill_missing fetch now rid g st r =
     (case retryCollectionForRange fetch now rid (gp_source_type g) (gp_source_id g) r st of
        (True, st1) \<Rightarrow> st1
      | (False, st1) \<Rightarrow> st1\<lparr>fl_warnings := fl_warnings st1 @
           [CollectFailed (gp_source_type g) (gp_source_id g) r], fl_errors := True\<rparr>)"

text \<open>An error while marking a source is logged only.\<close>

definition mark_or_log :: "int \<Rightarrow> string \<Rightarrow> string \<Rightarrow> string \<Rightarrow> coll_db \<Rightarrow> coll_db" where
  "mark_or_log now rid ty sid db =
     (case markSourceComplete db now rid ty (Some sid) of Inl _ \<Rightarrow> db | Inr db' \<Rightarrow> db')"

definition fill_gap :: "fetcher \<Rightarrow> int \<Rightarrow> string \<Rightarrow> fill_state \<Rightarrow> collection_gap \<Rightarrow> fill_state" where
  "fill_gap fetch now rid st g =
     (let st1 = foldl (retry_failed fetch now rid g) (st\<lparr>fl_errors := False\<rparr>) (gp_failed_ranges g);
          st2 = foldl (fill_missing fetch now rid g) st1 (gp_missing_ranges g)
      in if fl_errors st2 then st2
         else st2\<lparr>fl_db := mark_or_log now rid (gp_source_type g) (gp_source_id g) (fl_db st2)\<rparr>)"

text \<open>The sources without a gap are certified, except the performance test's own row.\<close>

definition certify_step :: "int \<Rightarrow> string \<Rightarrow> string list \<Rightarrow> coll_db \<Rightarrow> collection_status \<Rightarrow> coll_db" where
  "certify_step now rid sourcesWithGaps db s =
     (if cs_is_complete s \<or> cs_source_type s = perf_test
         \<or> collectionSourceKey (cs_source_type s) (Some (cs_source_id s)) \<in> set sourcesWithGaps
      then db else mark_or_log now rid (cs_source_type s) (cs_source_id s) db)"

record fill_result =
  fr_skipCollection :: bool
  fr_warnings :: "fill_warning list"
  fr_db :: coll_db

definition fill_all :: "fetcher \<Rightarrow> int \<Rightarrow> string \<Rightarrow> collection_status list \<Rightarrow> collection_gap list \<Rightarrow> coll_db \<Rightarrow> fill_state" where
  "fill_all fetch now rid statuses gaps db =
     (let keys = map (\<lambda>g. collectionSourceKey (gp_source_type g) (Some (gp_source_id g))) gaps;
          db1 = foldl (certify_step now rid keys) db statuses
      in foldl (fill_gap fetch now rid) \<lparr>fl_db = db1, fl_calls = 0, fl_warnings = [], fl_errors = False\<rparr> gaps)"

definition checkAndFillMetricGaps ::
  "source_tables \<Rightarrow> fetcher \<Rightarrow> int \<Rightarrow> coll_db \<Rightarrow> string \<Rightarrow> fill_result" where
  "checkAndFillMetricGaps tabs fetch now db rid =
     (let statuses0 = getAllCollectionStatuses db rid
      in if statuses0 = [] then \<lparr>fr_skipCollection = False, fr_warnings = [], fr_db = db\<rparr>
         else
           (let (statuses, db1) = removeOrphanedCollectionSources tabs db rid statuses0
            in if statuses = [] then \<lparr>fr_skipCollection = False, fr_warnings = [], fr_db = db1\<rparr>
               else if isCollectionComplete db1 rid
                    then \<lparr>fr_skipCollection = True, fr_warnings = [], fr_db = db1\<rparr>
                    else
                      (case detectGaps db1 rid of
                         Inl _ \<Rightarrow> \<lparr>fr_skipCollection = True, fr_warnings = [GapProcessFailed], fr_db = db1\<rparr>
                       | Inr gaps \<Rightarrow>
                           (let st = fill_all fetch now rid statuses gaps db1;
                                warnings =
                                  (if isCollectionComplete (fl_db st) rid then fl_warnings st
                                   else (case getCollectionSummary (fl_db st) rid of
                                           Inl _ \<Rightarrow> fl_warnings st @ [GapProcessFailed]
                                         | Inr sm \<Rightarrow> fl_warnings st @
                                             [StillIncomplete (sm_completeSources sm) (sm_totalSources sm) (sm_coverage sm)]))
                            in \<lparr>fr_skipCollection = True, fr_warnings = warnings, fr_db = fl_db st\<rparr>))))"

section \<open>What one pass does to a row\<close>

definition accounted :: "int \<Rightarrow> int \<Rightarrow> time_range list \<Rightarrow> bool" where
  "accounted lo hi rs = (\<forall>t. lo \<le> t \<and> t \<le> hi \<longrightarrow> covers rs t \<or> tolerated rs t)"

text \<open>
  A row after some steps against the row before: the same source, no range lost, still complete if it
  was, and newly complete only when its window is accounted for.
\<close>

definition row_step :: "int \<Rightarrow> int \<Rightarrow> collection_status \<Rightarrow> collection_status \<Rightarrow> bool" where
  "row_step lo hi a b \<longleftrightarrow> status_key b = status_key a
     \<and> set (cs_collected_ranges a) \<subseteq> set (cs_collected_ranges b)
     \<and> (cs_is_complete a \<longrightarrow> cs_is_complete b)
     \<and> (cs_is_complete b \<longrightarrow> cs_is_complete a \<or> accounted lo hi (cs_collected_ranges b))"

definition rows_step :: "int \<Rightarrow> int \<Rightarrow> coll_db \<Rightarrow> coll_db \<Rightarrow> bool" where
  "rows_step lo hi db db' \<longleftrightarrow> list_all2 (row_step lo hi) (cb_statuses db) (cb_statuses db') \<and> cb_runs db' = cb_runs db"

lemma accounted_mono: "accounted lo hi rs \<Longrightarrow> set rs \<subseteq> set rs' \<Longrightarrow> accounted lo hi rs'"
  unfolding accounted_def covers_def tolerated_def by blast

lemma row_step_refl: "row_step lo hi a a"
  by (simp add: row_step_def)

lemma row_step_trans: "row_step lo hi a b \<Longrightarrow> row_step lo hi b c \<Longrightarrow> row_step lo hi a c"
  by (auto simp: row_step_def intro: accounted_mono)

lemma rows_step_refl [simp]: "rows_step lo hi db db"
  by (simp add: rows_step_def list_all2_same row_step_refl)

lemma rows_step_trans: "rows_step lo hi a b \<Longrightarrow> rows_step lo hi b c \<Longrightarrow> rows_step lo hi a c"
  using list_all2_trans [of "row_step lo hi" "row_step lo hi" "row_step lo hi", OF row_step_trans] unfolding rows_step_def by fastforce

lemma statuses_update:
  "cb_statuses (update_status rid ty sid f db) = map (\<lambda>s. if is_source rid ty sid s then f s else s) (cb_statuses db)"
  by (simp add: update_status_def)

lemma rows_update:
  assumes "\<And>s. s \<in> set (cb_statuses db) \<Longrightarrow> is_source rid ty sid s \<Longrightarrow> row_step lo hi s (f s)"
  shows "rows_step lo hi db (update_status rid ty sid f db)"
  using assms by (auto simp: rows_step_def update_status_def list.rel_map list_all2_same row_step_refl)

abbreviation has_row :: "coll_db \<Rightarrow> string \<Rightarrow> string \<Rightarrow> string \<Rightarrow> bool" where
  "has_row db rid ty sid \<equiv> \<exists>s \<in> set (cb_statuses db). is_source rid ty sid s"

lemma rows_key:
  assumes "rows_step lo hi db db'" "s' \<in> set (cb_statuses db')"
  shows "\<exists>s \<in> set (cb_statuses db). row_step lo hi s s'"
  using assms unfolding rows_step_def by (metis in_set_conv_nth list_all2_conv_all_nth)

lemma rows_key':
  assumes "rows_step lo hi db db'" "s \<in> set (cb_statuses db)"
  shows "\<exists>s' \<in> set (cb_statuses db'). row_step lo hi s s'"
  using assms unfolding rows_step_def by (metis in_set_conv_nth list_all2_conv_all_nth)

lemma rows_has_row: "rows_step lo hi db db' \<Longrightarrow> has_row db' rid ty sid = has_row db rid ty sid"
  using rows_key rows_key' by (fastforce simp: is_source_key row_step_def)

lemma collected_step:
  assumes "has_row db rid ty sid"
  shows "rows_step lo hi db (updateCollectedRanges db now rid ty (Some sid) r)
    \<and> (\<forall>s \<in> set (cb_statuses (updateCollectedRanges db now rid ty (Some sid) r)).
          is_source rid ty sid s \<longrightarrow> r \<in> set (cs_collected_ranges s))"
proof -
  let ?f = "add_collected now r (cs_organization_id (fresh_status db rid ty sid)) (cs_team_id (fresh_status db rid ty sid))"
  have eq: "updateCollectedRanges db now rid ty (Some sid) r = update_status rid ty sid ?f db"
    using assms by (simp add: updateCollectedRanges_def or_empty_def Let_def)
  have "row_step lo hi s (?f s)" for s
    by (auto simp: row_step_def add_collected_def Let_def status_key_def)
  moreover have "r \<in> set (cs_collected_ranges (?f s))" for s by (simp add: add_collected_def Let_def)
  ultimately show ?thesis
    unfolding eq using rows_update [of db rid ty sid lo hi ?f] by (auto simp: update_status_def is_source_key)
qed

lemma mark_step:
  assumes "\<And>s. s \<in> set (cb_statuses db) \<Longrightarrow> is_source rid ty sid s \<Longrightarrow> accounted lo hi (cs_collected_ranges s)"
    and "lo \<le> hi"
  shows "rows_step lo hi db (mark_or_log now rid ty sid db)
    \<and> (\<forall>s \<in> set (cb_statuses (mark_or_log now rid ty sid db)). is_source rid ty sid s \<longrightarrow> cs_is_complete s)"
proof (cases "getCollectionStatus db rid ty (Some sid)")
  case None
  then have "mark_or_log now rid ty sid db = db"
    by (simp add: mark_or_log_def markSourceComplete_def markCollectionComplete_def)
  then show ?thesis
    using None unfolding get_none or_empty_def by auto
next
  case (Some s)
  then have s: "s \<in> set (cb_statuses db)" "is_source rid ty sid s"
    using find_in by (fastforce simp: getCollectionStatus_def or_empty_def)+
  have "accounted lo hi (cs_collected_ranges s)" by (rule assms(1) [OF s])
  then have ne: "cs_collected_ranges s \<noteq> []"
    using assms(2) by (auto simp: accounted_def covers_def tolerated_def)
  let ?f = "\<lambda>t. t\<lparr>cs_is_complete := True, cs_failed_ranges := [], cs_last_collected_at := Some now,
                 cs_collected_ranges := cs_collected_ranges t\<rparr>"
  have eq: "mark_or_log now rid ty sid db = update_status rid ty sid ?f db"
    using Some ne by (simp add: mark_or_log_def markSourceComplete_def markCollectionComplete_def or_empty_def)
  have "row_step lo hi t (?f t)" if "t \<in> set (cb_statuses db)" "is_source rid ty sid t" for t
    using assms(1) [OF that] by (simp add: row_step_def status_key_def)
  then have "rows_step lo hi db (update_status rid ty sid ?f db)" by (rule rows_update)
  moreover have "cs_is_complete u" if u: "u \<in> set (cb_statuses (update_status rid ty sid ?f db))" "is_source rid ty sid u" for u
  proof -
    obtain t where "u = (if is_source rid ty sid t then ?f t else t)"
      using u(1) unfolding statuses_update set_map by blast
    then show ?thesis using u(2) by (cases "is_source rid ty sid t") auto
  qed
  ultimately show ?thesis unfolding eq by blast
qed

lemma fill_missing_step:
  assumes "has_row (fl_db st) rid (gp_source_type g) (gp_source_id g)"
  shows "rows_step lo hi (fl_db st) (fl_db (fill_missing fetch now rid g st r))
    \<and> (fl_errors st \<longrightarrow> fl_errors (fill_missing fetch now rid g st r))
    \<and> (\<not> fl_errors (fill_missing fetch now rid g st r) \<longrightarrow>
          (\<forall>s \<in> set (cb_statuses (fl_db (fill_missing fetch now rid g st r))).
             is_source rid (gp_source_type g) (gp_source_id g) s \<longrightarrow> r \<in> set (cs_collected_ranges s)))"
  using collected_step [OF assms, of lo hi now r] rows_step_refl [of lo hi "fl_db st"]
  by (auto simp: fill_missing_def retryCollectionForRange_def Let_def)

lemma retry_failed_step:
  assumes "has_row (fl_db st) rid (gp_source_type g) (gp_source_id g)"
  shows "rows_step lo hi (fl_db st) (fl_db (retry_failed fetch now rid g st f))"
  using collected_step [OF assms, of lo hi now "window_of f"] rows_step_refl [of lo hi "fl_db st"]
  by (auto simp: retry_failed_def retryCollectionForRange_def Let_def)

lemma retry_all:
  assumes "has_row (fl_db st) rid (gp_source_type g) (gp_source_id g)"
  shows "rows_step lo hi (fl_db st) (fl_db (foldl (retry_failed fetch now rid g) st fs))"
  using assms
proof (induction fs arbitrary: st)
  case (Cons f fs)
  have "rows_step lo hi (fl_db st) (fl_db (retry_failed fetch now rid g st f))"
    by (rule retry_failed_step [OF Cons.prems])
  moreover from this have "has_row (fl_db (retry_failed fetch now rid g st f)) rid (gp_source_type g) (gp_source_id g)"
    using Cons.prems rows_has_row by blast
  ultimately show ?case using Cons.IH rows_step_trans by (metis foldl_Cons)
qed simp

lemma fill_all_missing:
  assumes "has_row (fl_db st) rid (gp_source_type g) (gp_source_id g)"
  shows "rows_step lo hi (fl_db st) (fl_db (foldl (fill_missing fetch now rid g) st rs))
    \<and> (fl_errors st \<longrightarrow> fl_errors (foldl (fill_missing fetch now rid g) st rs))
    \<and> (\<not> fl_errors (foldl (fill_missing fetch now rid g) st rs) \<longrightarrow> (\<forall>s \<in> set (cb_statuses (fl_db (foldl (fill_missing fetch now rid g) st rs))).
             is_source rid (gp_source_type g) (gp_source_id g) s \<longrightarrow> set rs \<subseteq> set (cs_collected_ranges s)))"
  using assms
proof (induction rs rule: rev_induct)
  case (snoc r rs)
  let ?a = "foldl (fill_missing fetch now rid g) st rs" and ?b = "foldl (fill_missing fetch now rid g) st (rs @ [r])"
  have b: "?b = fill_missing fetch now rid g ?a r" by simp
  note IH = snoc.IH [OF snoc.prems]
  have "has_row (fl_db ?a) rid (gp_source_type g) (gp_source_id g)"
    using snoc.prems IH rows_has_row by blast
  note step = fill_missing_step [OF this, of lo hi fetch now r, folded b]
  have "set (rs @ [r]) \<subseteq> set (cs_collected_ranges s)"
    if s: "\<not> fl_errors ?b" "s \<in> set (cb_statuses (fl_db ?b))" "is_source rid (gp_source_type g) (gp_source_id g) s" for s
  proof -
    obtain s0 where s0: "s0 \<in> set (cb_statuses (fl_db ?a))" "row_step lo hi s0 s"
      using rows_key [of lo hi "fl_db ?a" "fl_db ?b" s] step s(2) by blast
    have "\<not> fl_errors ?a" using step s(1) by blast
    then have "set rs \<subseteq> set (cs_collected_ranges s0)"
      using IH s(3) s0 unfolding is_source_key row_step_def by metis
    moreover have "r \<in> set (cs_collected_ranges s)" using step s by blast
    ultimately show ?thesis using s0(2) by (auto simp: row_step_def)
  qed
  then show ?case using step IH rows_step_trans by blast
qed simp

text \<open>A gap belongs to a source when filling its missing ranges accounts for the window.\<close>

definition gap_closes :: "int \<Rightarrow> int \<Rightarrow> string \<Rightarrow> coll_db \<Rightarrow> collection_gap \<Rightarrow> bool" where
  "gap_closes lo hi rid db g \<longleftrightarrow> has_row db rid (gp_source_type g) (gp_source_id g)
     \<and> (\<forall>s \<in> set (cb_statuses db). is_source rid (gp_source_type g) (gp_source_id g) s
          \<longrightarrow> accounted lo hi (cs_collected_ranges s @ gp_missing_ranges g))"

lemma gap_closes_step: "gap_closes lo hi rid db g \<Longrightarrow> rows_step lo hi db db' \<Longrightarrow> gap_closes lo hi rid db' g"
proof -
  assume g: "gap_closes lo hi rid db g" and step: "rows_step lo hi db db'"
  have "accounted lo hi (cs_collected_ranges s' @ gp_missing_ranges g)"
    if s': "s' \<in> set (cb_statuses db')" "is_source rid (gp_source_type g) (gp_source_id g) s'" for s'
  proof -
    obtain s where s: "s \<in> set (cb_statuses db)" "row_step lo hi s s'" using rows_key [OF step s'(1)] by blast
    then have "accounted lo hi (cs_collected_ranges s @ gp_missing_ranges g)"
      using g s'(2) by (auto simp: gap_closes_def is_source_key row_step_def)
    then show ?thesis by (rule accounted_mono) (use s(2) in \<open>auto simp: row_step_def\<close>)
  qed
  then show ?thesis using g rows_has_row [OF step] by (auto simp: gap_closes_def)
qed

lemma fill_gap_step:
  assumes "gap_closes lo hi rid (fl_db st) g" "lo \<le> hi"
  shows "rows_step lo hi (fl_db st) (fl_db (fill_gap fetch now rid st g))
    \<and> (\<not> fl_errors (fill_gap fetch now rid st g) \<longrightarrow>
        (\<forall>s \<in> set (cb_statuses (fl_db (fill_gap fetch now rid st g))).
           is_source rid (gp_source_type g) (gp_source_id g) s \<longrightarrow> cs_is_complete s))"
proof -
  define st1 where "st1 = foldl (retry_failed fetch now rid g) (st\<lparr>fl_errors := False\<rparr>) (gp_failed_ranges g)"
  define st2 where "st2 = foldl (fill_missing fetch now rid g) st1 (gp_missing_ranges g)"
  have row: "has_row (fl_db st) rid (gp_source_type g) (gp_source_id g)"
    using assms(1) by (simp add: gap_closes_def)
  have s1: "rows_step lo hi (fl_db st) (fl_db st1)"
    using retry_all [of "st\<lparr>fl_errors := False\<rparr>" rid g] row by (simp add: st1_def)
  then have row1: "has_row (fl_db st1) rid (gp_source_type g) (gp_source_id g)" using row rows_has_row by blast
  note s2 = fill_all_missing [OF row1, of lo hi fetch now "gp_missing_ranges g", folded st2_def]
  have step: "rows_step lo hi (fl_db st) (fl_db st2)" using s1 s2 rows_step_trans by blast
  show ?thesis
  proof (cases "fl_errors st2")
    case True
    then have "fill_gap fetch now rid st g = st2" by (simp add: fill_gap_def Let_def flip: st1_def st2_def)
    then show ?thesis using step True by simp
  next
    case False
    have eq: "fill_gap fetch now rid st g
        = st2\<lparr>fl_db := mark_or_log now rid (gp_source_type g) (gp_source_id g) (fl_db st2)\<rparr>"
      using False by (simp add: fill_gap_def Let_def flip: st1_def st2_def)
    have acc: "accounted lo hi (cs_collected_ranges s)"
      if s: "s \<in> set (cb_statuses (fl_db st2))" "is_source rid (gp_source_type g) (gp_source_id g) s" for s
    proof (rule accounted_mono)
      show "accounted lo hi (cs_collected_ranges s @ gp_missing_ranges g)"
        using gap_closes_step [OF assms(1) step] s by (auto simp: gap_closes_def)
      show "set (cs_collected_ranges s @ gp_missing_ranges g) \<subseteq> set (cs_collected_ranges s)"
        using s2 False s by auto
    qed
    define db3 where "db3 = mark_or_log now rid (gp_source_type g) (gp_source_id g) (fl_db st2)"
    have m: "rows_step lo hi (fl_db st2) db3" "\<forall>s \<in> set (cb_statuses db3).
        is_source rid (gp_source_type g) (gp_source_id g) s \<longrightarrow> cs_is_complete s"
      using mark_step [where db = "fl_db st2" and rid = rid and ty = "gp_source_type g" and sid = "gp_source_id g"
          and lo = lo and hi = hi and now = now, OF acc assms(2)] by (simp_all add: db3_def)
    have "rows_step lo hi (fl_db st) db3" by (rule rows_step_trans [OF step m(1)])
    with m(2) show ?thesis unfolding eq db3_def [symmetric] by simp
  qed
qed

lemma certify_row:
  assumes "lo \<le> hi" "\<And>t. t \<in> set (cb_statuses db) \<Longrightarrow> is_source rid (cs_source_type s) (cs_source_id s) t \<Longrightarrow>
      collectionSourceKey (cs_source_type s) (Some (cs_source_id s)) \<notin> set K \<Longrightarrow> cs_source_type s \<noteq> perf_test
      \<Longrightarrow> \<not> cs_is_complete s \<Longrightarrow> accounted lo hi (cs_collected_ranges t)"
  shows "rows_step lo hi db (certify_step now rid K db s)"
  using mark_step [where lo = lo and hi = hi and db = db and rid = rid and ty = "cs_source_type s" and sid = "cs_source_id s" and now = now]
    assms rows_step_refl [of lo hi db]
  by (auto simp: certify_step_def)

lemma certify_done:
  assumes "lo \<le> hi" "\<And>t. t \<in> set (cb_statuses db) \<Longrightarrow> is_source rid (cs_source_type s) (cs_source_id s) t \<Longrightarrow>
      accounted lo hi (cs_collected_ranges t)"
    and "collectionSourceKey (cs_source_type s) (Some (cs_source_id s)) \<notin> set K" "cs_source_type s \<noteq> perf_test"
    and "\<not> cs_is_complete s"
    and "t \<in> set (cb_statuses (certify_step now rid K db s))" "is_source rid (cs_source_type s) (cs_source_id s) t"
  shows "cs_is_complete t"
  using mark_step [where now = now, OF assms(2,1)] assms(3-7) by (auto simp: certify_step_def)

section \<open>The whole pass\<close>

text \<open>A set of certified keys grows with the steps.\<close>

definition done_key :: "coll_db \<Rightarrow> string \<times> string \<times> string \<Rightarrow> bool" where
  "done_key db k \<longleftrightarrow> (\<forall>s \<in> set (cb_statuses db). status_key s = k \<longrightarrow> cs_is_complete s)"

lemma done_key_step: "done_key db k \<Longrightarrow> rows_step lo hi db db' \<Longrightarrow> done_key db' k"
  unfolding done_key_def using rows_key [of lo hi db db'] by (fastforce simp: row_step_def)

lemma certify_all:
  assumes "lo \<le> hi" and "\<And>s t. s \<in> set ss \<Longrightarrow> t \<in> set (cb_statuses db) \<Longrightarrow>
      status_key t = (rid, cs_source_type s, cs_source_id s) \<Longrightarrow> cs_source_type s \<noteq> perf_test \<Longrightarrow>
      collectionSourceKey (cs_source_type s) (Some (cs_source_id s)) \<notin> set K \<Longrightarrow> accounted lo hi (cs_collected_ranges t)"
  shows "rows_step lo hi db (foldl (certify_step now rid K) db ss)
    \<and> (\<forall>s \<in> set ss. cs_source_type s \<noteq> perf_test \<longrightarrow> \<not> cs_is_complete s \<longrightarrow>
         collectionSourceKey (cs_source_type s) (Some (cs_source_id s)) \<notin> set K \<longrightarrow>
         done_key (foldl (certify_step now rid K) db ss) (rid, cs_source_type s, cs_source_id s))"
  using assms(2)
proof (induction ss rule: rev_induct)
  case (snoc x ss)
  let ?a = "foldl (certify_step now rid K) db ss"
  have IH: "rows_step lo hi db ?a" "\<forall>s \<in> set ss. cs_source_type s \<noteq> perf_test \<longrightarrow> \<not> cs_is_complete s \<longrightarrow>
         collectionSourceKey (cs_source_type s) (Some (cs_source_id s)) \<notin> set K \<longrightarrow>
         done_key ?a (rid, cs_source_type s, cs_source_id s)"
    using snoc by auto
  have acc: "accounted lo hi (cs_collected_ranges t)"
    if t: "t \<in> set (cb_statuses ?a)" "is_source rid (cs_source_type x) (cs_source_id x) t"
      "collectionSourceKey (cs_source_type x) (Some (cs_source_id x)) \<notin> set K" "cs_source_type x \<noteq> perf_test" for t
  proof -
    obtain u where u: "u \<in> set (cb_statuses db)" "row_step lo hi u t" using rows_key [OF IH(1) t(1)] by blast
    then have "accounted lo hi (cs_collected_ranges u)"
      using snoc.prems [of x u] t(2-4) by (simp add: is_source_key row_step_def)
    then show ?thesis by (rule accounted_mono) (use u(2) in \<open>simp add: row_step_def\<close>)
  qed
  have step: "rows_step lo hi ?a (certify_step now rid K ?a x)"
    by (rule certify_row [OF assms(1)]) (use acc in blast)
  have "done_key (certify_step now rid K ?a x) (rid, cs_source_type x, cs_source_id x)"
    if "cs_source_type x \<noteq> perf_test" "\<not> cs_is_complete x"
      "collectionSourceKey (cs_source_type x) (Some (cs_source_id x)) \<notin> set K"
    unfolding done_key_def
    using certify_done [OF assms(1) acc] that unfolding is_source_key by blast
  moreover have "rows_step lo hi db (certify_step now rid K ?a x)" by (rule rows_step_trans [OF IH(1) step])
  ultimately show ?case using IH(2) done_key_step [OF _ step] by auto
qed simp

lemma fill_gaps_all:
  assumes "lo \<le> hi" and "\<And>g. g \<in> set gs \<Longrightarrow> gap_closes lo hi rid (fl_db st) g"
  shows "rows_step lo hi (fl_db st) (fl_db (foldl (fill_gap fetch now rid) st gs))"
  using assms(2)
proof (induction gs rule: rev_induct)
  case (snoc g gs)
  let ?a = "foldl (fill_gap fetch now rid) st gs"
  have IH: "rows_step lo hi (fl_db st) (fl_db ?a)" using snoc by auto
  have "gap_closes lo hi rid (fl_db ?a) g" by (rule gap_closes_step [OF _ IH]) (use snoc.prems in auto)
  from rows_step_trans [OF IH conjunct1 [OF fill_gap_step [OF this assms(1), of fetch now]]] show ?case by simp
qed simp

text \<open>When every fetch succeeds, nothing is logged as a warning and every gap is certified.\<close>

lemma fetch_ok_no_errors:
  assumes "\<And>n ty sid r. fetch n ty sid r" and "\<forall>f \<in> set (gp_failed_ranges g). fr_attempts f < 5"
  shows "\<not> fl_errors (fill_gap fetch now rid st g) \<and> fl_warnings (fill_gap fetch now rid st g) = fl_warnings st"
proof -
  have "fl_errors (foldl (retry_failed fetch now rid g) s fs) = fl_errors s
      \<and> fl_warnings (foldl (retry_failed fetch now rid g) s fs) = fl_warnings s"
    if "\<forall>f \<in> set fs. fr_attempts f < 5" for s fs
    using that by (induction fs arbitrary: s)
      (auto simp: retry_failed_def retryCollectionForRange_def Let_def assms(1))
  moreover have "fl_errors (foldl (fill_missing fetch now rid g) s rs) = fl_errors s
      \<and> fl_warnings (foldl (fill_missing fetch now rid g) s rs) = fl_warnings s" for s rs
    by (induction rs arbitrary: s) (auto simp: fill_missing_def retryCollectionForRange_def Let_def assms(1))
  ultimately show ?thesis using assms(2) by (simp add: fill_gap_def Let_def)
qed

lemma fill_gaps_done:
  assumes "lo \<le> hi" and "\<And>g. g \<in> set gs \<Longrightarrow> gap_closes lo hi rid (fl_db st) g"
    and "\<And>n ty sid r. fetch n ty sid r" and "\<And>g. g \<in> set gs \<Longrightarrow> \<forall>f \<in> set (gp_failed_ranges g). fr_attempts f < 5"
  shows "fl_warnings (foldl (fill_gap fetch now rid) st gs) = fl_warnings st
    \<and> (\<forall>g \<in> set gs. done_key (fl_db (foldl (fill_gap fetch now rid) st gs)) (rid, gp_source_type g, gp_source_id g))"
  using assms(2,4)
proof (induction gs rule: rev_induct)
  case (snoc g gs)
  let ?a = "foldl (fill_gap fetch now rid) st gs"
  have IH: "fl_warnings ?a = fl_warnings st \<and> (\<forall>g \<in> set gs. done_key (fl_db ?a) (rid, gp_source_type g, gp_source_id g))"
    by (rule snoc.IH) (use snoc.prems in auto)
  have step: "rows_step lo hi (fl_db st) (fl_db ?a)" by (rule fill_gaps_all [OF assms(1)]) (use snoc.prems in auto)
  have "gap_closes lo hi rid (fl_db ?a) g" by (rule gap_closes_step [OF _ step]) (use snoc.prems in auto)
  note f = fill_gap_step [OF this assms(1), of fetch now]
  have ok: "\<not> fl_errors (fill_gap fetch now rid ?a g)" "fl_warnings (fill_gap fetch now rid ?a g) = fl_warnings ?a"
    using fetch_ok_no_errors [OF assms(3), of g] snoc.prems(2) [of g] by auto
  have "done_key (fl_db (fill_gap fetch now rid ?a g)) (rid, gp_source_type g, gp_source_id g)"
    using f ok(1) by (auto simp: done_key_def is_source_key)
  moreover have "done_key (fl_db (fill_gap fetch now rid ?a g)) (rid, gp_source_type h, gp_source_id h)" if "h \<in> set gs" for h
    by (rule done_key_step [OF _ conjunct1 [OF f]]) (use IH that in blast)
  ultimately show ?case using IH ok by auto
qed simp

lemma unique_row:
  assumes "keys_unique db" "s \<in> set (cb_statuses db)" "t \<in> set (cb_statuses db)" "status_key s = status_key t"
  shows "s = t"
  using assms by (auto simp: keys_unique_def distinct_map inj_on_def)

lemma missing_accounted:
  assumes "lo < hi" "proper rs"
  shows "accounted lo hi (rs @ findMissingRanges lo hi rs)"
  using findMissingRanges_exact_core [OF assms] by (auto simp: accounted_def covers_def tolerated_def)

lemma gaps_found:
  assumes "keys_unique db" "lo < hi" "\<And>s. s \<in> set (getAllCollectionStatuses db rid) \<Longrightarrow> proper (cs_collected_ranges s)"
    and "gs = List.map_filter (gap_of lo hi) (getAllCollectionStatuses db rid)"
  shows "g \<in> set gs \<Longrightarrow> gap_closes lo hi rid db g \<and> (\<forall>f \<in> set (gp_failed_ranges g). fr_attempts f < 5)"
    and "s \<in> set (getAllCollectionStatuses db rid) \<Longrightarrow> cs_source_type s \<noteq> perf_test \<Longrightarrow>
      \<not> (\<exists>g \<in> set gs. gp_source_type g = cs_source_type s \<and> gp_source_id g = cs_source_id s) \<Longrightarrow>
      accounted lo hi (cs_collected_ranges s)"
proof -
  have all: "s \<in> set (getAllCollectionStatuses db rid) \<longleftrightarrow> s \<in> set (cb_statuses db) \<and> cs_test_run_id s = rid" for s
    by (auto simp: getAllCollectionStatuses_def)
  show "gap_closes lo hi rid db g \<and> (\<forall>f \<in> set (gp_failed_ranges g). fr_attempts f < 5)" if gap: "g \<in> set gs"
  proof -
    obtain s where s: "s \<in> set (getAllCollectionStatuses db rid)" "gap_of lo hi s = Some g"
      using gap assms(4) by (auto simp: List.map_filter_def)
    then have g: "gp_source_type g = cs_source_type s" "gp_source_id g = cs_source_id s"
      "gp_missing_ranges g = findMissingRanges lo hi (cs_collected_ranges s)"
      "gp_failed_ranges g = filter (\<lambda>r. fr_attempts r < 5) (cs_failed_ranges s)"
      by (auto simp: gap_of_def Let_def split: if_splits)
    have "t = s" if "t \<in> set (cb_statuses db)" "is_source rid (cs_source_type s) (cs_source_id s) t" for t
      using unique_row [OF assms(1) that(1), of s] s(1) that(2) by (simp add: all status_key_def is_source_def)
    moreover have "accounted lo hi (cs_collected_ranges s @ findMissingRanges lo hi (cs_collected_ranges s))"
      by (rule missing_accounted [OF assms(2) assms(3) [OF s(1)]])
    ultimately show ?thesis using s(1) by (auto simp: gap_closes_def g all is_source_def)
  qed
  show "accounted lo hi (cs_collected_ranges s)"
    if "s \<in> set (getAllCollectionStatuses db rid)" "cs_source_type s \<noteq> perf_test"
      "\<not> (\<exists>g \<in> set gs. gp_source_type g = cs_source_type s \<and> gp_source_id g = cs_source_id s)"
  proof -
    have "gap_of lo hi s = None"
    proof (rule ccontr)
      assume "gap_of lo hi s \<noteq> None"
      then obtain g where g: "gap_of lo hi s = Some g" by auto
      then have "g \<in> set gs" using that(1) by (auto simp: assms(4) List.map_filter_def image_iff intro!: bexI [of _ s])
      moreover have "gp_source_type g = cs_source_type s" "gp_source_id g = cs_source_id s"
        using g by (auto simp: gap_of_def Let_def split: if_splits)
      ultimately show False using that(3) by blast
    qed
    then have "findMissingRanges lo hi (cs_collected_ranges s) = []"
      using that(2) by (auto simp: gap_of_def Let_def split: if_splits)
    then show ?thesis using missing_accounted [OF assms(2) assms(3) [OF that(1)]] by simp
  qed
qed

lemma fill_all_ok:
  assumes "keys_unique db" "lo < hi" "\<And>s. s \<in> set (getAllCollectionStatuses db rid) \<Longrightarrow> proper (cs_collected_ranges s)"
    and gs: "gs = List.map_filter (gap_of lo hi) (getAllCollectionStatuses db rid)"
  defines "st fetch now \<equiv> fill_all fetch now rid (getAllCollectionStatuses db rid) gs db"
  shows "rows_step lo hi db (fl_db (st fetch now))"
    and "(\<And>n ty sid r. fetch n ty sid r) \<Longrightarrow>
      (\<And>s. s \<in> set (getAllCollectionStatuses db rid) \<Longrightarrow> CHR '':'' \<notin> set (cs_source_type s)) \<Longrightarrow> fl_warnings (st fetch now) = []
      \<and> (\<forall>s \<in> set (getAllCollectionStatuses (fl_db (st fetch now)) rid). cs_source_type s \<noteq> perf_test \<longrightarrow> cs_is_complete s)"
proof -
  let ?K = "map (\<lambda>g. collectionSourceKey (gp_source_type g) (Some (gp_source_id g))) gs"
  let ?S = "getAllCollectionStatuses db rid"
  define db1 where "db1 = foldl (certify_step now rid ?K) db ?S"
  let ?st0 = "\<lparr>fl_db = db1, fl_calls = 0, fl_warnings = [], fl_errors = False\<rparr>"
  have st: "st fetch now = foldl (fill_gap fetch now rid) ?st0 gs" by (simp add: st_def fill_all_def Let_def db1_def)
  have le: "lo \<le> hi" using assms(2) by simp
  note found = gaps_found [where rid = rid, OF assms(1-3) gs, simplified]
  have all: "s \<in> set ?S \<longleftrightarrow> s \<in> set (cb_statuses db) \<and> cs_test_run_id s = rid" for s
    by (auto simp: getAllCollectionStatuses_def)
  have acc: "accounted lo hi (cs_collected_ranges t)"
    if "s \<in> set ?S" "t \<in> set (cb_statuses db)" "status_key t = (rid, cs_source_type s, cs_source_id s)"
      "cs_source_type s \<noteq> perf_test" "collectionSourceKey (cs_source_type s) (Some (cs_source_id s)) \<notin> set ?K" for s t
  proof -
    have "t = s" using unique_row [OF assms(1) that(2), of s] that(1,3) by (simp add: all status_key_def)
    moreover have "\<not> (\<exists>g \<in> set gs. gp_source_type g = cs_source_type s \<and> gp_source_id g = cs_source_id s)"
      using that(5) by (auto simp: image_iff)
    ultimately show ?thesis using found(2) that(1,4) by blast
  qed
  have cert: "rows_step lo hi db db1
    \<and> (\<forall>s \<in> set ?S. cs_source_type s \<noteq> perf_test \<longrightarrow> \<not> cs_is_complete s \<longrightarrow>
         collectionSourceKey (cs_source_type s) (Some (cs_source_id s)) \<notin> set ?K \<longrightarrow>
         done_key db1 (rid, cs_source_type s, cs_source_id s))"
    unfolding db1_def by (rule certify_all [OF le]) (rule acc)
  have closes: "gap_closes lo hi rid (fl_db ?st0) g" if "g \<in> set gs" for g
    using gap_closes_step [OF conjunct1 [OF found(1) [OF that]] conjunct1 [OF cert]] by simp
  have step: "rows_step lo hi db1 (fl_db (st fetch now))"
    using fill_gaps_all [where st = ?st0, OF le closes] by (simp add: st)
  show rows: "rows_step lo hi db (fl_db (st fetch now))"
    by (rule rows_step_trans [OF conjunct1 [OF cert] step])
  assume ok: "\<And>n ty sid r. fetch n ty sid r"
    and plain: "\<And>s. s \<in> set ?S \<Longrightarrow> CHR '':'' \<notin> set (cs_source_type s)"
  have gap_row: "\<exists>s \<in> set ?S. gp_source_type g = cs_source_type s" if "g \<in> set gs" for g
    using found(1) [OF that] unfolding gap_closes_def is_source_def all Bex_def by metis
  have finished: "fl_warnings (st fetch now) = []
      \<and> (\<forall>g \<in> set gs. done_key (fl_db (st fetch now)) (rid, gp_source_type g, gp_source_id g))"
    unfolding st using fill_gaps_done [where st = ?st0 and now = now and fetch = fetch and gs = gs and rid = rid, OF le]
      closes ok found(1) by simp
  have "cs_is_complete s'" if s': "s' \<in> set (getAllCollectionStatuses (fl_db (st fetch now)) rid)" "cs_source_type s' \<noteq> perf_test" for s'
  proof -
    have in': "s' \<in> set (cb_statuses (fl_db (st fetch now)))" "cs_test_run_id s' = rid"
      using s'(1) by (auto simp: getAllCollectionStatuses_def)
    obtain s where s: "s \<in> set (cb_statuses db)" "row_step lo hi s s'" using rows_key [OF rows in'(1)] by blast
    then have key: "status_key s = status_key s'" by (simp add: row_step_def)
    then have S: "s \<in> set ?S" using in'(2) s(1) by (simp add: status_key_def getAllCollectionStatuses_def)
    show ?thesis
    proof (cases "\<exists>g \<in> set gs. gp_source_type g = cs_source_type s \<and> gp_source_id g = cs_source_id s")
      case True
      then have "done_key (fl_db (st fetch now)) (status_key s')"
        using finished key in'(2) by (auto simp: status_key_def)
      then show ?thesis using in'(1) by (simp add: done_key_def)
    next
      case False
      have "collectionSourceKey (cs_source_type s) (Some (cs_source_id s))
          \<noteq> collectionSourceKey (gp_source_type g) (Some (gp_source_id g))" if "g \<in> set gs" for g
        using source_key_eq [of "cs_source_type s" "gp_source_type g"] plain [OF S] plain gap_row [OF that] False that
        by (metis or_empty_Some)
      then have K: "collectionSourceKey (cs_source_type s) (Some (cs_source_id s)) \<notin> set ?K" by auto
      show ?thesis
      proof (cases "cs_is_complete s")
        case True
        then show ?thesis using s(2) by (simp add: row_step_def)
      next
        case False
        have "done_key db1 (rid, cs_source_type s, cs_source_id s)"
          using cert S K False s'(2) key by (auto simp: status_key_def)
        then have "done_key (fl_db (st fetch now)) (status_key s')"
          using done_key_step [OF _ step] key in'(2) by (simp add: status_key_def)
        then show ?thesis using in'(1) by (simp add: done_key_def)
      qed
    qed
  qed
  then show "fl_warnings (st fetch now) = []
      \<and> (\<forall>s \<in> set (getAllCollectionStatuses (fl_db (st fetch now)) rid). cs_source_type s \<noteq> perf_test \<longrightarrow> cs_is_complete s)"
    using finished by simp
qed

lemma getRun_statuses: "cb_runs db' = cb_runs db \<Longrightarrow> getTestRunByTestRunId db' rid = getTestRunByTestRunId db rid"
  by (simp add: getTestRunByTestRunId_def)

text \<open>The pass after the sweep, when there is something left and the run has a window.\<close>

lemma pass_cases:
  fixes tabs :: source_tables and fetch :: fetcher and now :: int and db :: coll_db and rid :: string
  assumes run: "getTestRunByTestRunId db rid = Some run" "tr_start_time run = Some lo" "tr_end_time run = Some hi"
    and "keys_unique db"
  defines "out \<equiv> checkAndFillMetricGaps tabs fetch now db rid"
  obtains (empty) "fr_skipCollection out = False" "getAllCollectionStatuses (fr_db out) rid = []"
    | (complete) "fr_skipCollection out = True" "fr_warnings out = []" "isCollectionComplete (fr_db out) rid"
      "set (getAllCollectionStatuses (fr_db out) rid) \<subseteq> set (getAllCollectionStatuses db rid)"
    | (filled) db1 where "fr_skipCollection out = True" "keys_unique db1" "getAllCollectionStatuses db1 rid \<noteq> []"
      "set (getAllCollectionStatuses db1 rid) \<subseteq> set (getAllCollectionStatuses db rid)"
      "fr_db out = fl_db (fill_all fetch now rid (getAllCollectionStatuses db1 rid)
                (List.map_filter (gap_of lo hi) (getAllCollectionStatuses db1 rid)) db1)"
      "isCollectionComplete (fr_db out) rid \<Longrightarrow>
         fr_warnings out = fl_warnings (fill_all fetch now rid (getAllCollectionStatuses db1 rid)
                (List.map_filter (gap_of lo hi) (getAllCollectionStatuses db1 rid)) db1)"
proof -
  obtain rest db1 where sw: "removeOrphanedCollectionSources tabs db rid (getAllCollectionStatuses db rid) = (rest, db1)"
    by (cases "removeOrphanedCollectionSources tabs db rid (getAllCollectionStatuses db rid)")
  note ex = sweep_exact [OF run(1) sw]
  have sub: "set (getAllCollectionStatuses db1 rid) \<subseteq> set (getAllCollectionStatuses db rid)"
    unfolding ex(1) [symmetric] ex(2) by auto
  consider "rest = []" | "rest \<noteq> []" "isCollectionComplete db1 rid" | "rest \<noteq> []" "\<not> isCollectionComplete db1 rid"
    by blast
  then show ?thesis
  proof cases
    case 1
    then have "out = \<lparr>fr_skipCollection = False, fr_warnings = [], fr_db = if getAllCollectionStatuses db rid = [] then db else db1\<rparr>"
      using sw by (simp add: out_def checkAndFillMetricGaps_def Let_def)
    then show ?thesis using empty ex(1) 1 by simp
  next
    case 2
    then have "getAllCollectionStatuses db rid \<noteq> []" using ex(2) by auto
    then have "out = \<lparr>fr_skipCollection = True, fr_warnings = [], fr_db = db1\<rparr>"
      using sw 2 by (simp add: out_def checkAndFillMetricGaps_def Let_def)
    then show ?thesis using complete sub 2(2) by simp
  next
    case 3
    have ne: "getAllCollectionStatuses db rid \<noteq> []" using ex(2) 3 by auto
    have "detectGaps db1 rid = Inr (List.map_filter (gap_of lo hi) (getAllCollectionStatuses db1 rid))"
      using run getRun_statuses [OF ex(4)] by (simp add: detectGaps_def)
    then show ?thesis
      using filled [of db1] ne 3 ex(1) ex(5) [OF assms(4)] sub sw
      by (simp add: out_def checkAndFillMetricGaps_def Let_def)
  qed
qed

definition half_collected :: coll_db where
  "half_collected = example_coll_db [\<lparr>rg_from = 0, rg_to = 30000\<rparr>]"

definition one_instance :: source_tables where
  "one_instance = \<lparr>st_app_dashboards = [
       \<lparr>ad_id = ''a1'', ad_system_under_test_id = ''s'', ad_test_environment = ''e'',
        ad_grafana_dashboard_id = Some ''g1'', ad_grafana_instance_id = Some ''g''\<rparr>],
     st_grafana_dashboards = Some [\<lparr>gd_id = ''g1'', gd_has_json = True, gd_tags = None\<rparr>],
     st_dynatrace_queries = []\<rparr>"

definition filled_row :: collection_status where
  "filled_row = (example_status [\<lparr>rg_from = 0, rg_to = 30000\<rparr>, \<lparr>rg_from = 30000, rg_to = 60000\<rparr>])
     \<lparr>cs_is_complete := True, cs_last_collected_at := Some 7\<rparr>"

lemma half_collected_filled:
  "getAllCollectionStatuses (fr_db (checkAndFillMetricGaps one_instance (\<lambda>_ _ _ _. True) 7 half_collected ''r1'')) ''r1''
     = [filled_row]"
  by code_simp

text \<open>
  C22: the pass never certifies data it does not have. Whatever the fetches return, a source of the
  run is complete afterwards only if it was complete before or every time of the run's window lies in
  a recorded range of the source or in a hole of at most a second between two of them; the
  performance test's own row is never certified by it. The run's rows are keyed uniquely and hold
  ranges that do not run backwards.
\<close>

theorem fill_certifies_only_collected:
  assumes "getTestRunByTestRunId db rid = Some run" "tr_start_time run = Some lo" "tr_end_time run = Some hi"
    and "lo < hi" and "keys_unique db"
    and "\<forall>s \<in> set (getAllCollectionStatuses db rid). proper (cs_collected_ranges s)"
    and "s \<in> set (getAllCollectionStatuses (fr_db (checkAndFillMetricGaps tabs fetch now db rid)) rid)"
    and "cs_is_complete s"
  shows "(\<exists>old \<in> set (getAllCollectionStatuses db rid). status_key old = status_key s \<and> cs_is_complete old)
    \<or> accounted lo hi (cs_collected_ranges s)"
proof (rule pass_cases [OF assms(1-3,5), of tabs fetch now])
  fix db1
  let ?out = "checkAndFillMetricGaps tabs fetch now db rid"
  assume f: "keys_unique db1" "set (getAllCollectionStatuses db1 rid) \<subseteq> set (getAllCollectionStatuses db rid)"
    "fr_db ?out = fl_db (fill_all fetch now rid (getAllCollectionStatuses db1 rid)
                (List.map_filter (gap_of lo hi) (getAllCollectionStatuses db1 rid)) db1)"
  have "rows_step lo hi db1 (fr_db ?out)"
    unfolding f(3) by (rule fill_all_ok(1) [OF f(1) assms(4) _ refl]) (use f(2) assms(6) in auto)
  from rows_key [OF this, of s] assms(7) obtain old where old: "old \<in> set (cb_statuses db1)" "row_step lo hi old s"
    by (auto simp: getAllCollectionStatuses_def)
  then have "old \<in> set (getAllCollectionStatuses db1 rid)"
    using assms(7) by (auto simp: getAllCollectionStatuses_def row_step_def status_key_def)
  then show ?thesis using f(2) old(2) assms(8) by (auto simp: row_step_def)
qed (use assms(7,8) in auto)

lemma half_collected_facts:
  "getTestRunByTestRunId half_collected ''r1'' = Some (hd (cb_runs half_collected))"
  "tr_start_time (hd (cb_runs half_collected)) = Some 0" "tr_end_time (hd (cb_runs half_collected)) = Some 60000"
  "keys_unique half_collected"
  "\<forall>s \<in> set (getAllCollectionStatuses half_collected ''r1'').
     proper (cs_collected_ranges s) \<and> CHR '':'' \<notin> set (cs_source_type s)"
  by (simp_all add: half_collected_def example_coll_db_def example_status_def getTestRunByTestRunId_def
      keys_unique_def getAllCollectionStatuses_def proper_def)

theorem fill_certifies_only_collected_witness: "accounted 0 60000 (cs_collected_ranges filled_row)"
proof -
  have "(\<exists>old \<in> set (getAllCollectionStatuses half_collected ''r1''). status_key old = status_key filled_row \<and> cs_is_complete old)
    \<or> accounted 0 60000 (cs_collected_ranges filled_row)"
    by (rule fill_certifies_only_collected [OF half_collected_facts(1-3) _ half_collected_facts(4),
          of filled_row one_instance "\<lambda>_ _ _ _. True" 7])
      (use half_collected_facts(5) in \<open>auto simp: half_collected_filled filled_row_def\<close>)
  then show ?thesis by (simp add: half_collected_def example_coll_db_def example_status_def getAllCollectionStatuses_def)
qed

text \<open>
  When every fetch succeeds, the pass finishes the job: either the run has no source left, or
  the collection stages are skipped, there is no warning, and the collection of the run is complete.
\<close>

theorem fill_completes:
  fixes tabs :: source_tables and fetch :: fetcher and now :: int and db :: coll_db and rid :: string
  assumes "getTestRunByTestRunId db rid = Some run" "tr_start_time run = Some lo" "tr_end_time run = Some hi"
    and "lo < hi" and "keys_unique db"
    and "\<forall>s \<in> set (getAllCollectionStatuses db rid). proper (cs_collected_ranges s) \<and> CHR '':'' \<notin> set (cs_source_type s)"
    and "\<And>n ty sid r. fetch n ty sid r"
  defines "out \<equiv> checkAndFillMetricGaps tabs fetch now db rid"
  shows "\<not> fr_skipCollection out \<and> getAllCollectionStatuses (fr_db out) rid = []
    \<or> fr_skipCollection out \<and> fr_warnings out = [] \<and> isCollectionComplete (fr_db out) rid"
proof (rule pass_cases [OF assms(1-3,5), of tabs fetch now, folded out_def])
  fix db1
  let ?st = "fill_all fetch now rid (getAllCollectionStatuses db1 rid)
                (List.map_filter (gap_of lo hi) (getAllCollectionStatuses db1 rid)) db1"
  assume f: "fr_skipCollection out = True" "keys_unique db1" "getAllCollectionStatuses db1 rid \<noteq> []"
    "set (getAllCollectionStatuses db1 rid) \<subseteq> set (getAllCollectionStatuses db rid)"
    "fr_db out = fl_db ?st" "isCollectionComplete (fr_db out) rid \<Longrightarrow> fr_warnings out = fl_warnings ?st"
  have ok: "\<And>s. s \<in> set (getAllCollectionStatuses db1 rid) \<Longrightarrow> proper (cs_collected_ranges s)"
    "\<And>s. s \<in> set (getAllCollectionStatuses db1 rid) \<Longrightarrow> CHR '':'' \<notin> set (cs_source_type s)"
    using f(4) assms(6) by auto
  have rows: "rows_step lo hi db1 (fl_db ?st)" by (rule fill_all_ok(1) [OF f(2) assms(4) ok(1) refl])
  have fin: "fl_warnings ?st = [] \<and> (\<forall>s \<in> set (getAllCollectionStatuses (fl_db ?st) rid).
      cs_source_type s \<noteq> perf_test \<longrightarrow> cs_is_complete s)"
    by (rule fill_all_ok(2) [OF f(2) assms(4) ok(1) refl assms(7) ok(2)])
  obtain s where s: "s \<in> set (cb_statuses db1)" "cs_test_run_id s = rid"
    using f(3) by (auto simp: getAllCollectionStatuses_def filter_empty_conv)
  obtain s' where "s' \<in> set (cb_statuses (fl_db ?st))" "row_step lo hi s s'"
    using rows_key' [OF rows s(1)] by blast
  then have "s' \<in> set (getAllCollectionStatuses (fl_db ?st) rid)"
    using s(2) by (simp add: getAllCollectionStatuses_def row_step_def status_key_def)
  then have "getAllCollectionStatuses (fl_db ?st) rid \<noteq> []" by auto
  then have "isCollectionComplete (fr_db out) rid"
    using fin by (simp add: isCollectionComplete_def Let_def f(5))
  with f(6) fin have "fr_warnings out = []" by simp
  then show ?thesis using f(1) \<open>isCollectionComplete (fr_db out) rid\<close> by simp
qed auto

theorem fill_completes_witness:
  "isCollectionComplete (fr_db (checkAndFillMetricGaps one_instance (\<lambda>_ _ _ _. True) 7 half_collected ''r1'')) ''r1''"
proof -
  let ?out = "checkAndFillMetricGaps one_instance (\<lambda>_ _ _ _. True) 7 half_collected ''r1''"
  have "\<not> fr_skipCollection ?out \<and> getAllCollectionStatuses (fr_db ?out) ''r1'' = []
    \<or> fr_skipCollection ?out \<and> fr_warnings ?out = [] \<and> isCollectionComplete (fr_db ?out) ''r1''"
    by (rule fill_completes [OF half_collected_facts(1-3) _ half_collected_facts(4,5)]) simp_all
  then show ?thesis by (simp add: half_collected_filled)
qed

end
