(* ===== verification/CollectionScheduler.thy ===== *)
theory CollectionScheduler
  imports CollectionSources
begin

text \<open>
  The scheduler of incremental collection (\<open>schedulers/IncrementalCollectionScheduler.ts\<close>): every
  minute it submits one job per metric source of every run in progress, unless the source backs off
  after failures or still has a job in flight.

  The four maps of the class are the fields of \<open>sched\<close>. The queue is BullMQ: \<open>add n id job\<close> is the
  answer to the \<open>n\<close>-th call of \<open>queue.add\<close>, which may throw; its completion events are separate
  operations. One clock value stands for all the readings of the clock in one tick, and a source is
  enqueued in one step: the events that may arrive between its guard and its submission only remove
  entries of other jobs. Failures of the database statements, the lazy construction of the queue
  connection and the log lines are left out.
\<close>

section \<open>Failure tracking\<close>

definition MAX_BACKOFF_MS :: int where "MAX_BACKOFF_MS = 600000"
definition BASE_BACKOFF_MS :: int where "BASE_BACKOFF_MS = 60000"
definition FAILURE_STOP_THRESHOLD :: nat where "FAILURE_STOP_THRESHOLD = 5"

record sched =
  sc_failureCounts :: "string \<rightharpoonup> nat"
  sc_lastFailureTime :: "string \<rightharpoonup> int"
  sc_jobIdToSourceKey :: "string \<rightharpoonup> string"
  sc_inFlightJobs :: "string set"
  sc_isRunning :: bool

definition initial_sched :: sched where
  "initial_sched = \<lparr>sc_failureCounts = Map.empty, sc_lastFailureTime = Map.empty,
     sc_jobIdToSourceKey = Map.empty, sc_inFlightJobs = {}, sc_isRunning = False\<rparr>"

definition buildSourceKey :: "string \<Rightarrow> string \<Rightarrow> string option \<Rightarrow> string" where
  "buildSourceKey rid ty sid = rid @ ''::'' @ ty @ ''::'' @ (case sid of None \<Rightarrow> ''null'' | Some s \<Rightarrow> s)"

definition colon_to_dot :: "string \<Rightarrow> string" where
  "colon_to_dot s = map (\<lambda>c. if c = CHR '':'' then CHR ''.'' else c) s"

definition buildDedupJobId :: "int \<Rightarrow> string \<Rightarrow> string \<Rightarrow> string option \<Rightarrow> string" where
  "buildDedupJobId now rid ty sid =
     colon_to_dot (''incremental.'' @ rid @ ''.'' @ ty @ ''.'' @ or_empty sid @ ''.'' @ show_nat (nat (now div 60000)))"

definition failure_count :: "sched \<Rightarrow> string \<Rightarrow> nat" where
  "failure_count s key = (case sc_failureCounts s key of None \<Rightarrow> 0 | Some n \<Rightarrow> n)"

definition backoff_ms :: "nat \<Rightarrow> int" where
  "backoff_ms failureCount = min (BASE_BACKOFF_MS * 2 ^ failureCount) MAX_BACKOFF_MS"

definition shouldSkipDueToBackoff :: "int \<Rightarrow> sched \<Rightarrow> string \<Rightarrow> bool" where
  "shouldSkipDueToBackoff now s key =
     (let failureCount = failure_count s key
      in if failureCount = 0 then False
         else if FAILURE_STOP_THRESHOLD \<le> failureCount then True
         else (case sc_lastFailureTime s key of
                 None \<Rightarrow> False
               | Some t \<Rightarrow> if t = 0 then False else now - t < backoff_ms failureCount))"

definition recordFailure :: "int \<Rightarrow> string \<Rightarrow> sched \<Rightarrow> sched" where
  "recordFailure now key s =
     s\<lparr>sc_failureCounts := (sc_failureCounts s)(key \<mapsto> failure_count s key + 1),
       sc_lastFailureTime := (sc_lastFailureTime s)(key \<mapsto> now)\<rparr>"

definition recordSuccess :: "string \<Rightarrow> sched \<Rightarrow> sched" where
  "recordSuccess key s =
     (if sc_failureCounts s key = None then s
      else s\<lparr>sc_failureCounts := (sc_failureCounts s)(key := None),
             sc_lastFailureTime := (sc_lastFailureTime s)(key := None)\<rparr>)"

definition release_job :: "string \<Rightarrow> string \<Rightarrow> sched \<Rightarrow> sched" where
  "release_job jobId key s =
     s\<lparr>sc_inFlightJobs := sc_inFlightJobs s - {key},
       sc_jobIdToSourceKey := (sc_jobIdToSourceKey s)(jobId := None)\<rparr>"

text \<open>The two event handlers; an empty key is falsy.\<close>

definition on_completed :: "string \<Rightarrow> sched \<Rightarrow> sched" where
  "on_completed jobId s =
     (case sc_jobIdToSourceKey s jobId of
        None \<Rightarrow> s
      | Some key \<Rightarrow> if key = [] then s else release_job jobId key (recordSuccess key s))"

definition on_failed :: "int \<Rightarrow> string \<Rightarrow> sched \<Rightarrow> sched" where
  "on_failed now jobId s =
     (case sc_jobIdToSourceKey s jobId of
        None \<Rightarrow> s
      | Some key \<Rightarrow> if key = [] then s else release_job jobId key (recordFailure now key s))"

definition cleanupTestRun :: "string \<Rightarrow> sched \<Rightarrow> sched" where
  "cleanupTestRun rid s =
     (let pfx = rid @ ''::''
      in s\<lparr>sc_failureCounts := (\<lambda>k. if startsWith k pfx then None else sc_failureCounts s k),
           sc_lastFailureTime := (\<lambda>k. if startsWith k pfx \<and> sc_failureCounts s k \<noteq> None
                                      then None else sc_lastFailureTime s k),
           sc_inFlightJobs := {k \<in> sc_inFlightJobs s. \<not> startsWith k pfx},
           sc_jobIdToSourceKey := (\<lambda>j. case sc_jobIdToSourceKey s j of
                None \<Rightarrow> None | Some k \<Rightarrow> if startsWith k pfx then None else Some k)\<rparr>)"

section \<open>One tick\<close>

record live_run = test_run +
  lv_completed :: "bool option"
  lv_is_stale :: "bool option"
  lv_created_at :: int

record incremental_job =
  ij_testRunId :: string
  ij_sourceType :: string
  ij_sourceId :: "string option"
  ij_applicationDashboardIds :: "string list"
  ij_fromTime :: int
  ij_toTime :: int
  ij_attempt :: int
  ij_maxAttempts :: int

datatype add_result = AddThrows | Added "string option"

type_synonym adder = "nat \<Rightarrow> string \<Rightarrow> incremental_job \<Rightarrow> add_result"

fun add_to_group :: "string \<Rightarrow> 'a \<Rightarrow> (string \<times> 'a list) list \<Rightarrow> (string \<times> 'a list) list" where
  "add_to_group key d [] = [(key, [d])]"
| "add_to_group key d ((k, ds) # gs) = (if k = key then (k, ds @ [d]) # gs else (k, ds) # add_to_group key d gs)"

definition groupDashboardsBySource :: "app_dashboard list \<Rightarrow> (string \<times> app_dashboard list) list" where
  "groupDashboardsBySource dashboards =
     foldl (\<lambda>gs d. if some_nonempty (ad_grafana_instance_id d)
                   then add_to_group (''grafana:'' @ the (ad_grafana_instance_id d)) d gs else gs) [] dashboards"

definition parseSourceKey :: "string \<Rightarrow> string \<times> string option" where
  "parseSourceKey sourceKey =
     (case split_on (CHR '':'') sourceKey of
        ty # sid # _ \<Rightarrow> (ty, if sid = ''null'' then None else Some sid)
      | ty # [] \<Rightarrow> (ty, None)
      | [] \<Rightarrow> ([], None))"

text \<open>The sources of a run, in the order the tick visits them, with the dashboards of each.\<close>

definition tick_sources :: "source_tables \<Rightarrow> live_run \<Rightarrow> (string \<times> string option \<times> string list) list" where
  "tick_sources tabs run =
     map (\<lambda>(k, ds). (fst (parseSourceKey k), snd (parseSourceKey k), map ad_id ds))
       (groupDashboardsBySource (filterCollectableGrafanaDashboards tabs
          (dashboards_of tabs (tr_system_under_test_id run) (tr_test_environment run))))
     @ map (\<lambda>c. (''dynatrace'', Some c, []))
         (dynatrace_configs tabs (tr_system_under_test_id run) (tr_test_environment run) (tr_workload run))
     @ [(''performance_test'', None, [])]"

definition test_start :: "live_run \<Rightarrow> int" where
  "test_start run = (case tr_start_time run of Some t \<Rightarrow> t | None \<Rightarrow> lv_created_at run)"

record tick_state =
  tk_sched :: sched
  tk_calls :: nat
  tk_jobs :: "(string \<times> incremental_job) list"
  tk_failed :: bool

definition make_job ::
  "int \<Rightarrow> int \<Rightarrow> coll_db \<Rightarrow> live_run \<Rightarrow> string \<times> string option \<times> string list \<Rightarrow> incremental_job" where
  "make_job maxAttempts toTime db run = (\<lambda>(ty, sid, ds).
     \<lparr>ij_testRunId = tr_test_run_id run, ij_sourceType = ty, ij_sourceId = sid, ij_applicationDashboardIds = ds,
      ij_fromTime = (case getLastCollectedTime db (tr_test_run_id run) ty sid of
                       Some t \<Rightarrow> t | None \<Rightarrow> test_start run),
      ij_toTime = toTime, ij_attempt = 1, ij_maxAttempts = maxAttempts\<rparr>)"

definition source_of_job :: "incremental_job \<Rightarrow> string" where
  "source_of_job j = buildSourceKey (ij_testRunId j) (ij_sourceType j) (ij_sourceId j)"

definition enqueue_job :: "adder \<Rightarrow> int \<Rightarrow> incremental_job \<Rightarrow> tick_state \<Rightarrow> tick_state" where
  "enqueue_job add now j ts =
     (let jid = buildDedupJobId now (ij_testRunId j) (ij_sourceType j) (ij_sourceId j);
          ts1 = ts\<lparr>tk_calls := tk_calls ts + 1\<rparr>
      in case add (tk_calls ts) jid j of
           AddThrows \<Rightarrow> ts1\<lparr>tk_failed := True\<rparr>
         | Added i \<Rightarrow>
             (if some_nonempty i
              then ts1\<lparr>tk_jobs := tk_jobs ts1 @ [(jid, j)],
                       tk_sched := (tk_sched ts1)\<lparr>
                         sc_jobIdToSourceKey := (sc_jobIdToSourceKey (tk_sched ts1))(the i \<mapsto> source_of_job j),
                         sc_inFlightJobs := insert (source_of_job j) (sc_inFlightJobs (tk_sched ts1))\<rparr>\<rparr>
              else ts1\<lparr>tk_jobs := tk_jobs ts1 @ [(jid, j)]\<rparr>))"

definition enqueue_source ::
  "adder \<Rightarrow> int \<Rightarrow> int \<Rightarrow> coll_db \<Rightarrow> live_run \<Rightarrow> tick_state \<Rightarrow> string \<times> string option \<times> string list \<Rightarrow> tick_state" where
  "enqueue_source add maxAttempts now db run ts src =
     (let key = buildSourceKey (tr_test_run_id run) (fst src) (fst (snd src))
      in if tk_failed ts then ts
         else if shouldSkipDueToBackoff now (tk_sched ts) key then ts
         else if key \<in> sc_inFlightJobs (tk_sched ts) then ts
         else enqueue_job add now (make_job maxAttempts now db run src) ts)"

text \<open>An exception ends the loop over the sources of this run only.\<close>

definition enqueueCollectionJobs ::
  "source_tables \<Rightarrow> adder \<Rightarrow> int \<Rightarrow> int \<Rightarrow> coll_db \<Rightarrow> tick_state \<Rightarrow> live_run \<Rightarrow> tick_state" where
  "enqueueCollectionJobs tabs add maxAttempts now db ts run =
     (foldl (enqueue_source add maxAttempts now db run) ts (tick_sources tabs run))\<lparr>tk_failed := False\<rparr>"

definition findInProgressTestRuns :: "int \<Rightarrow> int \<Rightarrow> live_run list \<Rightarrow> live_run list" where
  "findInProgressTestRuns heartbeatThresholdSeconds now runs =
     (let cutoff = now - heartbeatThresholdSeconds * 1000
      in sort_key (\<lambda>r. - the (tr_end_time r))
           (filter (\<lambda>r. (case tr_end_time r of None \<Rightarrow> False | Some t \<Rightarrow> cutoff < t)
                      \<and> lv_completed r = Some False \<and> lv_is_stale r = Some False) runs))"

record incremental_config =
  ic_enabled :: bool
  ic_intervalSeconds :: int
  ic_maxRetries :: int
  ic_heartbeatThresholdSeconds :: int
  ic_batchSize :: int

text \<open>
  The tick: it does nothing while another one runs, or when the feature is off. \<open>isRunning\<close> is
  cleared on every way out.
\<close>

definition handleCron ::
  "bool \<Rightarrow> incremental_config \<Rightarrow> source_tables \<Rightarrow> adder \<Rightarrow> int \<Rightarrow> live_run list \<Rightarrow> coll_db \<Rightarrow> sched
     \<Rightarrow> (string \<times> incremental_job) list \<times> sched" where
  "handleCron dbReady config tabs add now runs db s =
     (if \<not> dbReady \<or> sc_isRunning s \<or> \<not> ic_enabled config then ([], s)
      else
        (let ts = foldl (enqueueCollectionJobs tabs add (ic_maxRetries config) now db)
                    \<lparr>tk_sched = s\<lparr>sc_isRunning := True\<rparr>, tk_calls = 0, tk_jobs = [], tk_failed = False\<rparr>
                    (findInProgressTestRuns (ic_heartbeatThresholdSeconds config) now runs)
         in (tk_jobs ts, (tk_sched ts)\<lparr>sc_isRunning := False\<rparr>)))"

section \<open>Keys and sources\<close>

definition plain_id :: "string \<Rightarrow> bool" where
  "plain_id i = (CHR '':'' \<notin> set i \<and> CHR ''.'' \<notin> set i \<and> i \<noteq> ''null'')"

definition valid_source :: "string \<Rightarrow> string option \<Rightarrow> bool" where
  "valid_source ty sid = (ty = ''performance_test'' \<and> sid = None
     \<or> (ty = ''grafana'' \<or> ty = ''dynatrace'') \<and> (\<exists>i. sid = Some i \<and> plain_id i))"

lemma colon_to_dot_id: "CHR '':'' \<notin> set s \<Longrightarrow> colon_to_dot s = s"
  unfolding colon_to_dot_def by (rule map_idI) auto

lemma valid_source_plain:
  assumes "valid_source ty sid"
  shows "CHR '':'' \<notin> set ty" "CHR ''.'' \<notin> set ty" "CHR '':'' \<notin> set (or_empty sid)" "CHR ''.'' \<notin> set (or_empty sid)"
  using assms by (auto simp: valid_source_def plain_id_def or_empty_def)

lemma buildDedupJobId_plain:
  assumes "CHR '':'' \<notin> set rid" "valid_source ty sid"
  shows "buildDedupJobId now rid ty sid
    = (''incremental.'' @ ((rid @ CHR ''.'' # ty) @ CHR ''.'' # or_empty sid)) @ CHR ''.'' # show_nat (nat (now div 60000))"
  unfolding buildDedupJobId_def using assms valid_source_plain [OF assms(2)] digits_no_dot
  by (subst colon_to_dot_id) auto

lemma buildDedupJobId_inj:
  assumes "CHR '':'' \<notin> set rid" "valid_source ty sid" "CHR '':'' \<notin> set rid'" "valid_source ty' sid'"
    and eq: "buildDedupJobId now rid ty sid = buildDedupJobId now' rid' ty' sid'"
  shows "rid = rid' \<and> ty = ty' \<and> sid = sid' \<and> nat (now div 60000) = nat (now' div 60000)"
proof -
  note v = valid_source_plain [OF assms(2)] valid_source_plain [OF assms(4)]
  have "(''incremental.'' @ ((rid @ CHR ''.'' # ty) @ CHR ''.'' # or_empty sid))
      = (''incremental.'' @ ((rid' @ CHR ''.'' # ty') @ CHR ''.'' # or_empty sid'))
    \<and> show_nat (nat (now div 60000)) = show_nat (nat (now' div 60000))"
    using eq unfolding buildDedupJobId_plain [OF assms(1,2)] buildDedupJobId_plain [OF assms(3,4)]
    by (rule last_piece [rotated 2]) (rule digits_no_dot)+
  then have 1: "(rid @ CHR ''.'' # ty) @ CHR ''.'' # or_empty sid = (rid' @ CHR ''.'' # ty') @ CHR ''.'' # or_empty sid'"
    and 2: "nat (now div 60000) = nat (now' div 60000)" using show_nat_inj by auto
  from last_piece [OF v(4) v(8) 1] have 3: "rid @ CHR ''.'' # ty = rid' @ CHR ''.'' # ty'" "or_empty sid = or_empty sid'"
    by blast+
  from last_piece [OF v(2) v(6) 3(1)] have 4: "rid = rid'" "ty = ty'" by blast+
  have "sid = sid'" using assms(2,4) 3(2) 4(2) by (auto simp: valid_source_def or_empty_def)
  with 2 4 show ?thesis by blast
qed

lemma parse_grafana: "CHR '':'' \<notin> set i \<Longrightarrow> i \<noteq> ''null'' \<Longrightarrow> parseSourceKey (''grafana:'' @ i) = (''grafana'', Some i)"
  using split_on_app [of "CHR '':''" "''grafana''" i]
  by (simp add: parseSourceKey_def split_on_none)

lemma add_to_group_keys:
  "set (map fst (add_to_group k d gs)) = insert k (set (map fst gs))"
  by (induction k d gs rule: add_to_group.induct) auto

lemma add_to_group_distinct: "distinct (map fst gs) \<Longrightarrow> distinct (map fst (add_to_group k d gs))"
  by (induction k d gs rule: add_to_group.induct) (simp_all add: add_to_group_keys del: set_map, blast)

lemma groups_keys:
  "fst ` set (groupDashboardsBySource ds) = {''grafana:'' @ i |i. i \<noteq> [] \<and> Some i \<in> ad_grafana_instance_id ` set ds}"
  "distinct (map fst (groupDashboardsBySource ds))"
proof (induction ds rule: rev_induct)
  case Nil
  { case 1 show ?case by (simp add: groupDashboardsBySource_def) }
  { case 2 show ?case by (simp add: groupDashboardsBySource_def) }
next
  case (snoc d ds)
  have step: "groupDashboardsBySource (ds @ [d]) = (if some_nonempty (ad_grafana_instance_id d)
      then add_to_group (''grafana:'' @ the (ad_grafana_instance_id d)) d (groupDashboardsBySource ds)
      else groupDashboardsBySource ds)" by (simp add: groupDashboardsBySource_def)
  { case 1
    show ?case unfolding step
      by (cases "ad_grafana_instance_id d") (auto simp: add_to_group_keys [unfolded set_map] snoc(1) some_nonempty_def) }
  { case 2 show ?case unfolding step by (simp add: add_to_group_distinct snoc(2)) }
qed

definition plain_tables :: "source_tables \<Rightarrow> bool" where
  "plain_tables tabs = ((\<forall>d \<in> set (st_app_dashboards tabs). \<forall>i. ad_grafana_instance_id d = Some i \<longrightarrow> plain_id i)
     \<and> (\<forall>q \<in> set (st_dynatrace_queries tabs). \<forall>c. dq_config_id q = Some c \<longrightarrow> plain_id c))"

definition run_dashboards :: "source_tables \<Rightarrow> 'a test_run_scheme \<Rightarrow> app_dashboard list" where
  "run_dashboards tabs run = filterCollectableGrafanaDashboards tabs
     (dashboards_of tabs (tr_system_under_test_id run) (tr_test_environment run))"

lemma run_dashboards_subset: "set (run_dashboards tabs run) \<subseteq> set (st_app_dashboards tabs)"
  by (auto simp: run_dashboards_def filterCollectableGrafanaDashboards_def dashboards_of_def Let_def
      split: option.splits if_splits)

definition src_key :: "string \<times> string option \<times> string list \<Rightarrow> string \<times> string option" where
  "src_key src = (fst src, fst (snd src))"

lemma tick_keys:
  assumes "plain_tables tabs"
  shows "src_key ` set (tick_sources tabs run)
      = {(''grafana'', Some i) |i. i \<noteq> [] \<and> Some i \<in> ad_grafana_instance_id ` set (run_dashboards tabs run)}
        \<union> {(''dynatrace'', Some c) |c. c \<in> set (dynatrace_configs tabs (tr_system_under_test_id run)
              (tr_test_environment run) (tr_workload run))}
        \<union> {(''performance_test'', None)}"
    and "distinct (map src_key (tick_sources tabs run))"
proof -
  let ?G = "groupDashboardsBySource (run_dashboards tabs run)"
  let ?C = "dynatrace_configs tabs (tr_system_under_test_id run) (tr_test_environment run) (tr_workload run)"
  have plain: "plain_id i" if "Some i \<in> ad_grafana_instance_id ` set (run_dashboards tabs run)" for i
    using that assms run_dashboards_subset by (fastforce simp: plain_tables_def)
  have keys: "map src_key (tick_sources tabs run) = map parseSourceKey (map fst ?G)
      @ map (\<lambda>c. (''dynatrace'', Some c)) ?C @ [(''performance_test'', None)]"
    by (auto simp: tick_sources_def run_dashboards_def src_key_def split: prod.splits)
  have parse: "parseSourceKey ` fst ` set ?G
      = {(''grafana'', Some i) |i. i \<noteq> [] \<and> Some i \<in> ad_grafana_instance_id ` set (run_dashboards tabs run)}"
    unfolding groups_keys(1) using plain parse_grafana by (fastforce simp: image_def plain_id_def)
  show "src_key ` set (tick_sources tabs run)
      = {(''grafana'', Some i) |i. i \<noteq> [] \<and> Some i \<in> ad_grafana_instance_id ` set (run_dashboards tabs run)}
        \<union> {(''dynatrace'', Some c) |c. c \<in> set ?C} \<union> {(''performance_test'', None)}"
    using arg_cong [OF keys, of set] unfolding parse [symmetric] by (auto simp: image_image)
  have "inj_on parseSourceKey (fst ` set ?G)"
  proof (rule inj_onI)
    fix x y assume "x \<in> fst ` set ?G" "y \<in> fst ` set ?G" "parseSourceKey x = parseSourceKey y"
    then obtain i j where "x = ''grafana:'' @ i" "y = ''grafana:'' @ j" "plain_id i" "plain_id j"
      "parseSourceKey x = parseSourceKey y" unfolding groups_keys(1) using plain by blast
    then show "x = y" using parse_grafana [of i] parse_grafana [of j] by (simp add: plain_id_def)
  qed
  then have "distinct (map parseSourceKey (map fst ?G))"
    using groups_keys(2) [of "run_dashboards tabs run"] by (simp add: distinct_map comp_inj_on)
  moreover have "distinct ?C" by (simp add: dynatrace_configs_def)
  ultimately show "distinct (map src_key (tick_sources tabs run))"
    unfolding keys using parse by (auto simp: distinct_map inj_on_def image_image)
qed

lemma tick_sources_valid:
  assumes "plain_tables tabs" "src \<in> set (tick_sources tabs run)"
  shows "valid_source (fst src) (fst (snd src))"
proof -
  have "plain_id i" if "Some i \<in> ad_grafana_instance_id ` set (run_dashboards tabs run)" for i
    using that assms(1) run_dashboards_subset by (fastforce simp: plain_tables_def)
  moreover have "plain_id c" if "c \<in> set (dynatrace_configs tabs (tr_system_under_test_id run)
              (tr_test_environment run) (tr_workload run))" for c
    using that assms(1) by (auto simp: plain_tables_def dynatrace_configs_def List.map_filter_def)
  ultimately show ?thesis
    using tick_keys(1) [OF assms(1), of run] imageI [OF assms(2), of src_key]
    by (auto simp: src_key_def valid_source_def)
qed

lemma buildSourceKey_inj:
  assumes "valid_source ty sid" "valid_source ty' sid'" "buildSourceKey rid ty sid = buildSourceKey rid ty' sid'"
  shows "ty = ty' \<and> sid = sid'"
proof -
  have eq: "ty @ CHR '':'' # ('':'' @ (case sid of None \<Rightarrow> ''null'' | Some s \<Rightarrow> s))
    = ty' @ CHR '':'' # ('':'' @ (case sid' of None \<Rightarrow> ''null'' | Some s \<Rightarrow> s))"
    using assms(3) by (simp add: buildSourceKey_def)
  have "ty = ty' \<and> '':'' @ (case sid of None \<Rightarrow> ''null'' | Some s \<Rightarrow> s)
      = '':'' @ (case sid' of None \<Rightarrow> ''null'' | Some s \<Rightarrow> s)"
    by (rule first_piece [OF _ _ eq]) (use valid_source_plain assms(1,2) in auto)
  then show ?thesis using assms(1,2)
    by (auto simp: valid_source_def plain_id_def split: option.splits)
qed

lemma some_instances:
  "{x \<in> f ` A. some_nonempty x} = Some ` {i. i \<noteq> [] \<and> Some i \<in> f ` A}"
  unfolding some_nonempty_def by (auto simp: image_iff) (metis option.inject)

lemma tick_distinct:
  assumes "plain_tables tabs"
  shows "distinct (map (\<lambda>src. buildSourceKey rid (fst src) (fst (snd src))) (tick_sources tabs run))"
proof -
  let ?S = "map src_key (tick_sources tabs run)"
  have "inj_on (\<lambda>k. buildSourceKey rid (fst k) (snd k)) (set ?S)"
  proof (rule inj_onI)
    fix k k' assume "k \<in> set ?S" "k' \<in> set ?S" and eq: "buildSourceKey rid (fst k) (snd k) = buildSourceKey rid (fst k') (snd k')"
    then have "valid_source (fst k) (snd k)" "valid_source (fst k') (snd k')"
      using tick_sources_valid [OF assms] by (auto simp: src_key_def)
    from buildSourceKey_inj [OF this eq] show "k = k'" by (simp add: prod_eq_iff)
  qed
  then have "distinct (map (\<lambda>k. buildSourceKey rid (fst k) (snd k)) ?S)"
    using tick_keys(2) [OF assms] by (simp only: distinct_map)
  then show ?thesis by (simp add: src_key_def comp_def)
qed

definition example_live_run :: live_run where
  "example_live_run = \<lparr>tr_test_run_id = ''r1'', tr_system_under_test_id = ''s'', tr_test_environment = ''e'',
     tr_workload = ''w'', tr_organization_id = None, tr_team_id = None, tr_start_time = Some 60000,
     tr_end_time = Some 590000, tr_ramp_up = None, lv_completed = Some False, lv_is_stale = Some False,
     lv_created_at = 50000\<rparr>"

text \<open>
  The scheduler and the sweep agree on what the sources of a run are. When instance and
  configuration ids have no colon and no dot, the sources a tick visits are, as source keys, exactly
  the configured sources of the run, each visited once; so no bookkeeping row that a job of the
  scheduler creates is swept as an orphan, and no configured source is left without a job.
\<close>

theorem scheduler_sources_agree:
  assumes "plain_tables tabs"
  shows "(\<lambda>src. collectionSourceKey (fst src) (fst (snd src))) ` set (tick_sources tabs run)
      = set (getConfiguredSourceKeys tabs (tr_system_under_test_id run) (tr_test_environment run) (tr_workload run))
    \<and> distinct (map (\<lambda>src. buildSourceKey (tr_test_run_id run) (fst src) (fst (snd src))) (tick_sources tabs run))"
proof
  have "(\<lambda>src. collectionSourceKey (fst src) (fst (snd src))) ` set (tick_sources tabs run)
      = (\<lambda>k. collectionSourceKey (fst k) (snd k)) ` src_key ` set (tick_sources tabs run)"
    by (simp add: image_image src_key_def)
  also have "\<dots> = set (getConfiguredSourceKeys tabs (tr_system_under_test_id run) (tr_test_environment run) (tr_workload run))"
    unfolding tick_keys(1) [OF assms] getConfiguredSourceKeys_def setcompr_eq_image
    by (simp add: image_Un image_image some_instances run_dashboards_def [symmetric]
        collectionSourceKey_def [of _ None] collectionSourceKey_def [of _ "Some []"] or_empty_def [of None])
  finally show "(\<lambda>src. collectionSourceKey (fst src) (fst (snd src))) ` set (tick_sources tabs run)
      = set (getConfiguredSourceKeys tabs (tr_system_under_test_id run) (tr_test_environment run) (tr_workload run))" .
  show "distinct (map (\<lambda>src. buildSourceKey (tr_test_run_id run) (fst src) (fst (snd src))) (tick_sources tabs run))"
    by (rule tick_distinct [OF assms])
qed

theorem scheduler_sources_agree_witness:
  "collectionSourceKey ''performance_test'' None
     \<in> (\<lambda>src. collectionSourceKey (fst src) (fst (snd src))) ` set (tick_sources example_tables example_live_run)
   \<and> collectionSourceKey ''grafana'' (Some ''i2'')
     \<notin> (\<lambda>src. collectionSourceKey (fst src) (fst (snd src))) ` set (tick_sources example_tables example_live_run)"
proof -
  have "plain_tables example_tables" by (simp add: plain_tables_def plain_id_def example_tables_def)
  from scheduler_sources_agree [OF this, of example_live_run] show ?thesis
    by (simp add: example_live_run_def getConfiguredSourceKeys_def collectionSourceKey_def or_empty_def
        dynatrace_configs_def example_tables_def dashboards_of_def filterCollectableGrafanaDashboards_def
        findUncollectableDashboardIds_def some_nonempty_def uncollectable_def List.map_filter_def Let_def)
qed

section \<open>What a tick submits\<close>

text \<open>The queue is up: it takes every job under the id it is given.\<close>

definition queue_up :: "adder \<Rightarrow> bool" where
  "queue_up add = (\<forall>n i j. add n i j = Added (Some i))"

definition due :: "int \<Rightarrow> sched \<Rightarrow> string \<Rightarrow> bool" where
  "due now s key = (\<not> shouldSkipDueToBackoff now s key \<and> key \<notin> sc_inFlightJobs s)"

lemma skip_same_failures:
  "sc_failureCounts s = sc_failureCounts s' \<Longrightarrow> sc_lastFailureTime s = sc_lastFailureTime s'
     \<Longrightarrow> shouldSkipDueToBackoff now s key = shouldSkipDueToBackoff now s' key"
  by (simp add: shouldSkipDueToBackoff_def failure_count_def)

lemma job_id_ne: "buildDedupJobId now rid ty sid \<noteq> []"
  by (simp add: buildDedupJobId_def colon_to_dot_def)

lemma make_job_key [simp]:
  "ij_testRunId (make_job m now db run src) = tr_test_run_id run"
  "ij_sourceType (make_job m now db run src) = fst src" "ij_sourceId (make_job m now db run src) = fst (snd src)"
  by (simp_all add: make_job_def split: prod.split)

definition run_key :: "live_run \<Rightarrow> string \<times> string option \<times> string list \<Rightarrow> string" where
  "run_key run src = buildSourceKey (tr_test_run_id run) (fst src) (fst (snd src))"

definition submission :: "int \<Rightarrow> int \<Rightarrow> coll_db \<Rightarrow> live_run \<Rightarrow> string \<times> string option \<times> string list \<Rightarrow> string \<times> incremental_job" where
  "submission m now db run src =
     (buildDedupJobId now (tr_test_run_id run) (fst src) (fst (snd src)), make_job m now db run src)"

lemma enqueue_source_up:
  assumes "queue_up add" "\<not> tk_failed ts"
  shows "enqueue_source add m now db run ts src =
    (if due now (tk_sched ts) (run_key run src)
     then ts\<lparr>tk_calls := tk_calls ts + 1, tk_jobs := tk_jobs ts @ [submission m now db run src],
             tk_sched := (tk_sched ts)\<lparr>
               sc_jobIdToSourceKey := (sc_jobIdToSourceKey (tk_sched ts))(fst (submission m now db run src) \<mapsto> run_key run src),
               sc_inFlightJobs := insert (run_key run src) (sc_inFlightJobs (tk_sched ts))\<rparr>\<rparr>
     else ts)"
  using assms job_id_ne
  by (simp add: enqueue_source_def enqueue_job_def due_def run_key_def submission_def queue_up_def
      source_of_job_def some_nonempty_def Let_def)

lemma enqueue_all:
  assumes up: "queue_up add" and "\<not> tk_failed ts" "distinct (map (run_key run) srcs)"
  shows "\<not> tk_failed (foldl (enqueue_source add m now db run) ts srcs)
    \<and> tk_jobs (foldl (enqueue_source add m now db run) ts srcs)
       = tk_jobs ts @ map (submission m now db run) (filter (due now (tk_sched ts) \<circ> run_key run) srcs)
    \<and> sc_inFlightJobs (tk_sched (foldl (enqueue_source add m now db run) ts srcs))
       = sc_inFlightJobs (tk_sched ts) \<union> run_key run ` {src \<in> set srcs. due now (tk_sched ts) (run_key run src)}"
  using assms(2,3)
proof (induction srcs arbitrary: ts)
  case (Cons src srcs)
  let ?ts1 = "enqueue_source add m now db run ts src"
  let ?due = "\<lambda>s. due now (tk_sched ts) (run_key run s)"
  note step = enqueue_source_up [OF up Cons.prems(1), of m now db run src]
  have ok: "\<not> tk_failed ?ts1" using Cons.prems(1) by (simp add: step)
  have jobs: "tk_jobs ?ts1 = tk_jobs ts @ (if ?due src then [submission m now db run src] else [])"
    by (simp add: step)
  have flight: "sc_inFlightJobs (tk_sched ?ts1)
      = sc_inFlightJobs (tk_sched ts) \<union> (if ?due src then {run_key run src} else {})"
    by (simp add: step)
  have same: "sc_failureCounts (tk_sched ?ts1) = sc_failureCounts (tk_sched ts)"
    "sc_lastFailureTime (tk_sched ?ts1) = sc_lastFailureTime (tk_sched ts)"
    by (simp_all add: step)
  have due: "due now (tk_sched ?ts1) (run_key run s) = ?due s" if "s \<in> set srcs" for s
  proof -
    have "run_key run s \<noteq> run_key run src" using Cons.prems(2) imageI [OF that, of "run_key run"] by auto
    then show ?thesis using skip_same_failures [OF same] by (simp add: due_def flight)
  qed
  have filt: "filter (due now (tk_sched ?ts1) \<circ> run_key run) srcs = filter (due now (tk_sched ts) \<circ> run_key run) srcs"
    by (rule filter_cong) (use due in auto)
  have "{s \<in> set srcs. due now (tk_sched ?ts1) (run_key run s)} = {s \<in> set srcs. ?due s}"
    using due by (intro Collect_cong) blast
  then have more: "run_key run ` {s \<in> set (src # srcs). ?due s}
      = (if ?due src then {run_key run src} else {}) \<union> run_key run ` {s \<in> set srcs. due now (tk_sched ?ts1) (run_key run s)}"
    by (simp add: conj_disj_distribR Collect_disj_eq image_Un) (simp add: conj_commute cong: conj_cong)
  have IH: "\<not> tk_failed (foldl (enqueue_source add m now db run) ?ts1 srcs)
    \<and> tk_jobs (foldl (enqueue_source add m now db run) ?ts1 srcs)
       = tk_jobs ?ts1 @ map (submission m now db run) (filter (due now (tk_sched ?ts1) \<circ> run_key run) srcs)
    \<and> sc_inFlightJobs (tk_sched (foldl (enqueue_source add m now db run) ?ts1 srcs))
       = sc_inFlightJobs (tk_sched ?ts1) \<union> run_key run ` {s \<in> set srcs. due now (tk_sched ?ts1) (run_key run s)}"
    by (rule Cons.IH [OF ok]) (use Cons.prems(2) in simp)
  then show ?case unfolding foldl_Cons more filt jobs flight by (simp add: Un_assoc comp_def)
qed simp



section \<open>Backoff\<close>

text \<open>
  How long a failing source rests. After its first, second, third and fourth consecutive failure
  it rests two, four, eight and ten minutes, after the fifth for good; the first success ends the
  count, and failures of a source never hold back another one.
\<close>

theorem backoff_schedule:
  assumes "t \<noteq> 0" "failure_count s key = k" "key' \<noteq> key"
  shows "shouldSkipDueToBackoff now (recordFailure t key s) key
      = (4 \<le> k \<or> now < t + [120000, 240000, 480000, 600000] ! k)
    \<and> \<not> shouldSkipDueToBackoff now (recordSuccess key s) key
    \<and> shouldSkipDueToBackoff now (recordFailure t key s) key' = shouldSkipDueToBackoff now s key'
    \<and> shouldSkipDueToBackoff now (recordSuccess key s) key' = shouldSkipDueToBackoff now s key'"
proof (intro conjI)
  have "shouldSkipDueToBackoff now (recordFailure t key s) key = (4 \<le> k \<or> now - t < backoff_ms (Suc k))"
    using assms(1,2) by (auto simp: shouldSkipDueToBackoff_def recordFailure_def FAILURE_STOP_THRESHOLD_def failure_count_def)
  moreover have "backoff_ms (Suc k) = [120000, 240000, 480000, 600000] ! k" if "k < 4"
    using that by (auto simp: backoff_ms_def BASE_BACKOFF_MS_def MAX_BACKOFF_MS_def numeral_eq_Suc less_Suc_eq)
  ultimately show "shouldSkipDueToBackoff now (recordFailure t key s) key
      = (4 \<le> k \<or> now < t + [120000, 240000, 480000, 600000] ! k)"
    by (cases "k < 4") auto
  show "\<not> shouldSkipDueToBackoff now (recordSuccess key s) key"
    by (simp add: shouldSkipDueToBackoff_def recordSuccess_def failure_count_def)
  show "shouldSkipDueToBackoff now (recordFailure t key s) key' = shouldSkipDueToBackoff now s key'"
    "shouldSkipDueToBackoff now (recordSuccess key s) key' = shouldSkipDueToBackoff now s key'"
    using assms(3) by (simp_all add: shouldSkipDueToBackoff_def recordFailure_def recordSuccess_def failure_count_def)
qed

theorem backoff_schedule_witness:
  "shouldSkipDueToBackoff 719999 (recordFailure 600000 ''a'' initial_sched) ''a''
   \<and> \<not> shouldSkipDueToBackoff 720000 (recordFailure 600000 ''a'' initial_sched) ''a''"
  using backoff_schedule [of 600000 initial_sched "''a''" 0 "''b''" 719999]
    backoff_schedule [of 600000 initial_sched "''a''" 0 "''b''" 720000]
  by (simp add: failure_count_def initial_sched_def)

section \<open>The scheduler as a state machine\<close>

text \<open>
  Between two ticks the events of the queue arrive, a run may be cleaned up, and the worker process
  may restart with empty maps. The runs of a tick have ids without a colon.
\<close>

inductive sched_step :: "source_tables \<Rightarrow> adder \<Rightarrow> sched \<Rightarrow> sched \<Rightarrow> bool" for tabs add where
  tick: "(\<And>r. r \<in> set runs \<Longrightarrow> CHR '':'' \<notin> set (tr_test_run_id r))
     \<Longrightarrow> sched_step tabs add s (snd (handleCron ready config tabs add now runs db s))"
| completed: "sched_step tabs add s (on_completed jobId s)"
| failed: "sched_step tabs add s (on_failed now jobId s)"
| cleanup: "sched_step tabs add s (cleanupTestRun rid s)"
| restart: "sched_step tabs add s initial_sched"

inductive sched_reachable :: "source_tables \<Rightarrow> adder \<Rightarrow> sched \<Rightarrow> bool" for tabs add where
  init: "sched_reachable tabs add initial_sched"
| step: "sched_reachable tabs add s \<Longrightarrow> sched_step tabs add s s' \<Longrightarrow> sched_reachable tabs add s'"

inductive_cases sched_stepE: "sched_step tabs add s s'"

text \<open>The queue takes a job under the id it is given, or throws.\<close>

definition keeps_ids :: "adder \<Rightarrow> bool" where
  "keeps_ids add = (\<forall>n i j. add n i j = AddThrows \<or> add n i j = Added (Some i))"

text \<open>Every entry of the job map was made for a source of a run, under the id built from it.\<close>

definition labelled :: "string \<Rightarrow> string \<Rightarrow> bool" where
  "labelled jobId key = (\<exists>now rid ty sid. CHR '':'' \<notin> set rid \<and> valid_source ty sid
     \<and> jobId = buildDedupJobId now rid ty sid \<and> key = buildSourceKey rid ty sid)"

lemma labelled_unique: "labelled jobId key \<Longrightarrow> labelled jobId key' \<Longrightarrow> key = key'"
  unfolding labelled_def using buildDedupJobId_inj by metis

definition sched_inv :: "sched \<Rightarrow> bool" where
  "sched_inv s = ((\<forall>key \<in> sc_inFlightJobs s. \<exists>jobId. sc_jobIdToSourceKey s jobId = Some key)
     \<and> (\<forall>jobId key. sc_jobIdToSourceKey s jobId = Some key \<longrightarrow> labelled jobId key)
     \<and> (\<forall>key. (sc_lastFailureTime s key = None) = (sc_failureCounts s key = None))
     \<and> (\<forall>key n. sc_failureCounts s key = Some n \<longrightarrow> 0 < n))"

lemma inv_initial: "sched_inv initial_sched"
  by (simp add: sched_inv_def initial_sched_def)

lemma inv_success: "sched_inv s \<Longrightarrow> sched_inv (recordSuccess key s)"
  by (auto simp: sched_inv_def recordSuccess_def)

lemma inv_failure: "sched_inv s \<Longrightarrow> sched_inv (recordFailure now key s)"
  by (auto simp: sched_inv_def recordFailure_def)

lemma inv_release: "sched_inv s \<Longrightarrow> sc_jobIdToSourceKey s jobId = Some key \<Longrightarrow> sched_inv (release_job jobId key s)"
  unfolding sched_inv_def release_job_def by auto (metis option.inject)

lemma inv_events: "sched_inv s \<Longrightarrow> sched_inv (on_completed jobId s)" "sched_inv s \<Longrightarrow> sched_inv (on_failed now jobId s)"
proof -
  assume inv: "sched_inv s"
  have same: "sc_jobIdToSourceKey (recordSuccess key s) = sc_jobIdToSourceKey s"
    "sc_jobIdToSourceKey (recordFailure now key s) = sc_jobIdToSourceKey s" for key
    by (simp_all add: recordSuccess_def recordFailure_def)
  show "sched_inv (on_completed jobId s)"
    using inv inv_release [OF inv_success [OF inv]] by (auto simp: on_completed_def same split: option.split)
  show "sched_inv (on_failed now jobId s)"
    using inv inv_release [OF inv_failure [OF inv]] by (auto simp: on_failed_def same split: option.split)
qed

lemma inv_cleanup:
  assumes "sched_inv s"
  shows "sched_inv (cleanupTestRun rid s)"
proof -
  let ?c = "\<lambda>k. startsWith k (rid @ ''::'')"
  have jobs: "sc_jobIdToSourceKey (cleanupTestRun rid s) j = Some k
      \<longleftrightarrow> sc_jobIdToSourceKey s j = Some k \<and> \<not> ?c k" for j k
    by (auto simp: cleanupTestRun_def Let_def split: option.splits)
  have "\<exists>j. sc_jobIdToSourceKey (cleanupTestRun rid s) j = Some k"
    if "k \<in> sc_inFlightJobs (cleanupTestRun rid s)" for k
    using that assms unfolding jobs by (auto simp: cleanupTestRun_def Let_def sched_inv_def)
  moreover have "labelled j k" if "sc_jobIdToSourceKey (cleanupTestRun rid s) j = Some k" for j k
    using that assms unfolding jobs by (auto simp: sched_inv_def)
  moreover have "(sc_lastFailureTime (cleanupTestRun rid s) k = None) = (sc_failureCounts (cleanupTestRun rid s) k = None)"
    "sc_failureCounts (cleanupTestRun rid s) k = Some n \<Longrightarrow> 0 < n" for k n
    using assms by (auto simp: cleanupTestRun_def Let_def sched_inv_def split: if_splits)
  ultimately show ?thesis unfolding sched_inv_def by blast
qed

lemma inv_enqueue:
  assumes "keeps_ids add" "plain_tables tabs" "CHR '':'' \<notin> set (tr_test_run_id run)"
    and "src \<in> set (tick_sources tabs run)" "sched_inv (tk_sched ts)"
  shows "sched_inv (tk_sched (enqueue_source add m now db run ts src))"
proof -
  let ?j = "make_job m now db run src"
  let ?i = "buildDedupJobId now (tr_test_run_id run) (fst src) (fst (snd src))"
  let ?k = "run_key run src"
  have lab: "labelled ?i ?k"
    unfolding labelled_def run_key_def using assms(3) tick_sources_valid [OF assms(2,4)] by blast
  have "sched_inv ((tk_sched ts)\<lparr>sc_jobIdToSourceKey := (sc_jobIdToSourceKey (tk_sched ts))(?i \<mapsto> ?k),
      sc_inFlightJobs := insert ?k (sc_inFlightJobs (tk_sched ts))\<rparr>)"
    using assms(5) lab labelled_unique unfolding sched_inv_def by (auto simp: fun_upd_def) metis
  moreover have "add (tk_calls ts) ?i ?j = AddThrows \<or> add (tk_calls ts) ?i ?j = Added (Some ?i)"
    using assms(1) by (simp add: keeps_ids_def)
  ultimately show ?thesis using assms(5)
    by (auto simp: enqueue_source_def enqueue_job_def Let_def some_nonempty_def job_id_ne source_of_job_def run_key_def)
qed

lemma inv_tick:
  assumes "keeps_ids add" "plain_tables tabs" "\<And>r. r \<in> set runs \<Longrightarrow> CHR '':'' \<notin> set (tr_test_run_id r)" "sched_inv s"
  shows "sched_inv (snd (handleCron ready config tabs add now runs db s))"
proof -
  have run: "sched_inv (tk_sched (enqueueCollectionJobs tabs add m now db ts r))"
    if "sched_inv (tk_sched ts)" "CHR '':'' \<notin> set (tr_test_run_id r)" for ts r m
  proof -
    have "sched_inv (tk_sched (foldl (enqueue_source add m now db r) ts (tick_sources tabs r)))"
      by (rule foldl_invariant [where P = "\<lambda>a. sched_inv (tk_sched a)"])
        (use that inv_enqueue [OF assms(1,2)] in auto)
    then show ?thesis by (simp add: enqueueCollectionJobs_def)
  qed
  have flag: "sched_inv (s\<lparr>sc_isRunning := b\<rparr>) = sched_inv s" for s b by (simp add: sched_inv_def)
  let ?ts0 = "\<lparr>tk_sched = s\<lparr>sc_isRunning := True\<rparr>, tk_calls = 0, tk_jobs = [], tk_failed = False\<rparr>"
  have "sched_inv (tk_sched (foldl (enqueueCollectionJobs tabs add (ic_maxRetries config) now db) ?ts0
      (findInProgressTestRuns (ic_heartbeatThresholdSeconds config) now runs)))"
    by (rule foldl_invariant [where P = "\<lambda>a. sched_inv (tk_sched a)"])
      (use assms(3,4) run flag in \<open>auto simp: findInProgressTestRuns_def Let_def\<close>)
  then show ?thesis using assms(4) flag by (simp add: handleCron_def Let_def)
qed

text \<open>
  The maps of the scheduler stay consistent over any interleaving of ticks, completion and failure
  events of any job, clean-ups and restarts. Every source in flight has a job whose completion or
  failure will release it, every job is mapped to the source it was submitted for, and a source has
  a last failure exactly when it has a positive count of failures.
\<close>

theorem scheduler_invariant:
  assumes "keeps_ids add" "plain_tables tabs" "sched_reachable tabs add s"
  shows "(\<forall>key \<in> sc_inFlightJobs s. \<exists>jobId. sc_jobIdToSourceKey s jobId = Some key
           \<and> key \<notin> sc_inFlightJobs (on_completed jobId s) \<and> key \<notin> sc_inFlightJobs (on_failed now jobId s))
    \<and> (\<forall>jobId key. sc_jobIdToSourceKey s jobId = Some key \<longrightarrow> labelled jobId key)
    \<and> (\<forall>key. (sc_lastFailureTime s key = None) = (failure_count s key = 0))"
proof -
  have inv: "sched_inv s"
    using assms(3)
  proof induction
    case init
    show ?case by (rule inv_initial)
  next
    case (step s s')
    from step(2) show ?case
      by (cases rule: sched_stepE)
        (use step(3) inv_events inv_cleanup inv_initial inv_tick [OF assms(1,2)] in auto)
  qed
  have ne: "key \<noteq> []" if "labelled jobId key" for jobId key
    using that by (auto simp: labelled_def buildSourceKey_def)
  have "\<exists>jobId. sc_jobIdToSourceKey s jobId = Some key
           \<and> key \<notin> sc_inFlightJobs (on_completed jobId s) \<and> key \<notin> sc_inFlightJobs (on_failed now jobId s)"
    if "key \<in> sc_inFlightJobs s" for key
  proof -
    obtain jobId where j: "sc_jobIdToSourceKey s jobId = Some key" using inv \<open>key \<in> sc_inFlightJobs s\<close>
      by (auto simp: sched_inv_def)
    then have "key \<noteq> []" using inv ne [of jobId key] by (auto simp: sched_inv_def)
    with j show ?thesis by (auto simp: on_completed_def on_failed_def release_job_def)
  qed
  moreover have "(sc_lastFailureTime s key = None) = (failure_count s key = 0)" for key
    using inv by (cases "sc_failureCounts s key") (auto simp: sched_inv_def failure_count_def)
  ultimately show ?thesis using inv by (auto simp: sched_inv_def)
qed

theorem scheduler_invariant_witness:
  "\<exists>s. sc_inFlightJobs s \<noteq> {} \<and> (\<forall>key. (sc_lastFailureTime s key = None) = (failure_count s key = 0))"
proof -
  let ?add = "\<lambda>_ i _. Added (Some i)"
  let ?config = "\<lparr>ic_enabled = True, ic_intervalSeconds = 60, ic_maxRetries = 5,
    ic_heartbeatThresholdSeconds = 30, ic_batchSize = 20\<rparr>"
  let ?s = "snd (handleCron True ?config example_tables ?add 600000 [example_live_run] \<lparr>cb_statuses = [], cb_runs = []\<rparr> initial_sched)"
  have "sched_step example_tables ?add initial_sched ?s"
    by (rule sched_step.tick) (simp add: example_live_run_def)
  then have r: "sched_reachable example_tables ?add ?s" using sched_reachable.init sched_reachable.step by metis
  have "keeps_ids ?add" "plain_tables example_tables"
    by (simp_all add: keeps_ids_def plain_tables_def plain_id_def example_tables_def)
  from scheduler_invariant [OF this r] have "\<forall>key. (sc_lastFailureTime ?s key = None) = (failure_count ?s key = 0)" by blast
  moreover have "''r1::performance_test::null'' \<in> sc_inFlightJobs ?s" by code_simp
  ultimately show ?thesis by blast
qed

end
