(* ===== verification/IncrementalWorker.thy ===== *)
theory IncrementalWorker
  imports CollectionScheduler CollectionFill Locks
begin

text \<open>
  The worker of incremental collection (\<open>workers/incremental-metrics.ts\<close>) and the loop it forms with
  the scheduler: a tick submits jobs from the cursor of each source, the worker fetches them, extends
  the collected ranges of the source, and thereby moves its cursor.

  The pipeline that fetches metrics is code outside this part: a call of it is given by its answer,
  \<open>pipe_result\<close>. Redis is the parameter of the lock service.
\<close>

section \<open>The three collectors\<close>

datatype pipe_result =
    PipeThrows string
  | PipeFails "string option"
  | PipeOk "int option" "int option" "int option"

record collection_result =
  cr_success :: bool
  cr_dataPoints :: "int option"
  cr_error :: "string option"
  cr_maxDataTimestamp :: "int option"

definition collection_failed :: "string \<Rightarrow> collection_result" where
  "collection_failed e = \<lparr>cr_success = False, cr_dataPoints = None, cr_error = Some e, cr_maxDataTimestamp = None\<rparr>"

definition collection_ok :: "int \<Rightarrow> int option \<Rightarrow> collection_result" where
  "collection_ok n ts = \<lparr>cr_success = True, cr_dataPoints = Some n, cr_error = None, cr_maxDataTimestamp = ts\<rparr>"

text \<open>\<open>own ?? total ?? 0\<close>\<close>

definition data_points :: "int option \<Rightarrow> int option \<Rightarrow> int" where
  "data_points own tot = (case own of Some n \<Rightarrow> n | None \<Rightarrow> (case tot of Some n \<Rightarrow> n | None \<Rightarrow> 0))"

definition collectGrafanaMetrics :: "pipe_result \<Rightarrow> collection_result" where
  "collectGrafanaMetrics r = (case r of
     PipeThrows e \<Rightarrow> collection_failed e
   | PipeFails e \<Rightarrow> collection_failed (case e of Some m \<Rightarrow> m | None \<Rightarrow> ''Grafana metrics collection failed'')
   | PipeOk own tot _ \<Rightarrow> collection_ok (data_points own tot) None)"

definition collectDynatraceMetrics :: "pipe_result \<Rightarrow> collection_result" where
  "collectDynatraceMetrics r = (case r of
     PipeThrows e \<Rightarrow> collection_failed e
   | PipeFails e \<Rightarrow> collection_failed (case e of Some m \<Rightarrow> m | None \<Rightarrow> ''Dynatrace metrics collection failed'')
   | PipeOk own tot ts \<Rightarrow> collection_ok (data_points own tot) ts)"

definition perf_test_result :: "pipe_result \<Rightarrow> collection_result" where
  "perf_test_result r = (case r of
     PipeThrows e \<Rightarrow> collection_failed e
   | PipeFails e \<Rightarrow> collection_failed (case e of Some m \<Rightarrow> m | None \<Rightarrow> ''Performance test metrics collection failed'')
   | PipeOk own tot _ \<Rightarrow> collection_ok (data_points own tot) None)"

text \<open>
  A tick of the performance test runs under the lock of its run. While the pipeline runs, the server
  may be changed by others: \<open>during\<close>; \<open>env\<close> is the gap inside the release. An answer of the pool or of
  the lock that throws is the result of the catch; the error texts of the client are \<open>redisError\<close>.
\<close>

definition collectPerformanceTestMetrics ::
  "'s redis_ops \<Rightarrow> bool \<Rightarrow> string \<Rightarrow> ('s \<Rightarrow> 's) \<Rightarrow> ('s \<Rightarrow> 's) \<Rightarrow> string \<Rightarrow> string \<Rightarrow> pipe_result \<Rightarrow> 's
     \<Rightarrow> collection_result \<times> 's" where
  "collectPerformanceTestMetrics R connects redisError during env testRunId token r s =
     (if \<not> connects then (collection_failed redisError, s)
      else (case acquireKeyLock R (perfTestTickLockKey testRunId) token PERF_TEST_TICK_LOCK_TTL_SECONDS s of
              (None, s1) \<Rightarrow> (collection_failed redisError, s1)
            | (Some False, s1) \<Rightarrow> (collection_ok 0 None, s1)
            | (Some True, s1) \<Rightarrow>
                (perf_test_result r, snd (releaseKeyLock R env (perfTestTickLockKey testRunId) token (during s1)))))"

section \<open>The worker\<close>

datatype worker_outcome =
    WSuccess int
  | WSkippedCompleted
  | WFailedWillRetry int int
  | WThrows

text \<open>How far a successful fetch moves the cursor.\<close>

definition effectiveToTime :: "incremental_job \<Rightarrow> collection_result \<Rightarrow> int" where
  "effectiveToTime j r =
     (if cr_dataPoints r = Some 0 then ij_fromTime j
      else (case cr_maxDataTimestamp r of
              Some t \<Rightarrow> max t (ij_fromTime j)
            | None \<Rightarrow> ij_toTime j))"

definition worker_failure :: "coll_db \<Rightarrow> incremental_job \<Rightarrow> string \<Rightarrow> worker_outcome \<times> coll_db" where
  "worker_failure db j e =
     (let db1 = (case recordFailedRange db (ij_testRunId j) (ij_sourceType j) (ij_sourceId j)
                   \<lparr>rg_from = ij_fromTime j, rg_to = ij_toTime j\<rparr> e of Inl _ \<Rightarrow> db | Inr db1 \<Rightarrow> db1)
      in if ij_attempt j < ij_maxAttempts j
         then (WFailedWillRetry (ij_attempt j) (ij_maxAttempts j), db1) else (WThrows, db1))"

definition worker_result :: "int \<Rightarrow> coll_db \<Rightarrow> incremental_job \<Rightarrow> collection_result \<Rightarrow> worker_outcome \<times> coll_db" where
  "worker_result now db j r =
     (if cr_success r
      then (WSuccess (case cr_dataPoints r of None \<Rightarrow> 0 | Some n \<Rightarrow> n),
            updateCollectedRanges db now (ij_testRunId j) (ij_sourceType j) (ij_sourceId j)
              \<lparr>rg_from = ij_fromTime j, rg_to = effectiveToTime j r\<rparr>)
      else worker_failure db j (case cr_error r of Some e \<Rightarrow> if e = [] then ''Unknown error'' else e | None \<Rightarrow> ''Unknown error''))"

text \<open>The schema admits the three source types and positive attempt numbers; it throws outside the \<open>try\<close>.\<close>

definition job_valid :: "incremental_job \<Rightarrow> bool" where
  "job_valid j = (ij_sourceType j \<in> {''grafana'', ''dynatrace'', ''performance_test''}
     \<and> 1 \<le> ij_attempt j \<and> 1 \<le> ij_maxAttempts j)"

definition incrementalMetricsWorker ::
  "'s redis_ops \<Rightarrow> bool \<Rightarrow> string \<Rightarrow> ('s \<Rightarrow> 's) \<Rightarrow> ('s \<Rightarrow> 's) \<Rightarrow> int \<Rightarrow> live_run list \<Rightarrow> pipe_result
     \<Rightarrow> string \<times> incremental_job \<Rightarrow> coll_db \<times> 's \<Rightarrow> worker_outcome \<times> coll_db \<times> 's" where
  "incrementalMetricsWorker R connects redisError during env now runs r idj dbs =
     (let j = snd idj; db = fst dbs; s = snd dbs
      in if \<not> job_valid j then (WThrows, db, s)
         else if ij_sourceType j = ''performance_test''
              then (if (\<exists>run \<in> set runs. tr_test_run_id run = ij_testRunId j \<and> lv_completed run = Some True)
                    then (WSkippedCompleted, db, s)
                    else (let (c, s1) = collectPerformanceTestMetrics R connects redisError during env
                                          (ij_testRunId j) (fst idj) r s;
                              (out, db1) = worker_result now db j c
                          in (out, db1, s1)))
         else (let c = (if ij_sourceType j = ''grafana'' then collectGrafanaMetrics r else collectDynatraceMetrics r);
                   (out, db1) = worker_result now db j c
               in (out, db1, s)))"

section \<open>The rows as a store of ranges\<close>

text \<open>
  What the loop needs of the bookkeeping table: a source has a list of recorded ranges, recording one
  appends it there and changes no other source. From that alone it follows that a source whose ranges
  are seamless, without a hole between the start and the furthest recorded instant, stays so when a
  range is recorded that starts at the start or at a recorded instant.
\<close>

definition seamless :: "int \<Rightarrow> int \<Rightarrow> time_range list \<Rightarrow> bool" where
  "seamless lo clock rs = ((\<forall>r \<in> set rs. lo \<le> rg_from r \<and> rg_from r \<le> rg_to r \<and> rg_to r \<le> clock)
     \<and> (\<forall>t. lo \<le> t \<and> (\<exists>r \<in> set rs. t \<le> rg_to r) \<longrightarrow> covers rs t))"

definition resumes :: "int \<Rightarrow> time_range list \<Rightarrow> int \<Rightarrow> bool" where
  "resumes lo rs t = (t = lo \<or> (\<exists>r \<in> set rs. t \<le> rg_to r))"

locale range_store =
  fixes ranges :: "'db \<Rightarrow> 'k \<Rightarrow> time_range list"
    and append_range :: "'db \<Rightarrow> 'k \<Rightarrow> time_range \<Rightarrow> 'db"
  assumes ranges_append: "ranges (append_range db k r) k' = (if k' = k then ranges db k @ [r] else ranges db k')"
begin

definition all_seamless :: "('k \<Rightarrow> int) \<Rightarrow> int \<Rightarrow> 'db \<Rightarrow> bool" where
  "all_seamless lo clock db = (\<forall>k. seamless (lo k) clock (ranges db k))"

lemma resumes_append: "resumes (lo k) (ranges db k) t \<Longrightarrow> resumes (lo k) (ranges (append_range db k' r) k) t"
  by (auto simp: resumes_def ranges_append)

lemma seamless_append:
  assumes "all_seamless lo clock db" and "resumes (lo k) (ranges db k) (rg_from r)"
    and "lo k \<le> rg_from r" "rg_from r \<le> rg_to r" "rg_to r \<le> clock"
  shows "all_seamless lo clock (append_range db k r)"
  unfolding all_seamless_def
proof
  fix k'
  show "seamless (lo k') clock (ranges (append_range db k r) k')"
  proof (cases "k' = k")
    case True
    have old: "seamless (lo k) clock (ranges db k)" using assms(1) by (simp add: all_seamless_def)
    have "covers (ranges db k @ [r]) t" if "lo k \<le> t" "\<exists>x \<in> set (ranges db k @ [r]). t \<le> rg_to x" for t
    proof (cases "\<exists>x \<in> set (ranges db k). t \<le> rg_to x")
      case True
      then show ?thesis using old that(1) by (auto simp: seamless_def covers_def)
    next
      case False
      then have "t \<le> rg_to r" "rg_from r \<le> t" using that assms(2) by (auto simp: resumes_def)
      then show ?thesis by (auto simp: covers_def)
    qed
    then show ?thesis using True old assms(3-5) by (auto simp: ranges_append seamless_def)
  next
    case False
    then show ?thesis using assms(1) by (simp add: ranges_append all_seamless_def)
  qed
qed

lemma seamless_later: "all_seamless lo clock db \<Longrightarrow> clock \<le> clock' \<Longrightarrow> all_seamless lo clock' db"
  by (fastforce simp: all_seamless_def seamless_def)

lemma seamless_other: "(\<And>k. ranges db' k = ranges db k) \<Longrightarrow> all_seamless lo clock db' = all_seamless lo clock db"
  by (simp add: all_seamless_def)

end

type_synonym source = "string \<times> string \<times> string"

definition ranges_of :: "coll_db \<Rightarrow> source \<Rightarrow> time_range list" where
  "ranges_of db k = (case getCollectionStatus db (fst k) (fst (snd k)) (Some (snd (snd k))) of
     None \<Rightarrow> [] | Some s \<Rightarrow> cs_collected_ranges s)"

definition append_range_at :: "int \<Rightarrow> coll_db \<Rightarrow> source \<Rightarrow> time_range \<Rightarrow> coll_db" where
  "append_range_at now db k r = updateCollectedRanges db now (fst k) (fst (snd k)) (Some (snd (snd k))) r"

interpretation rows: range_store ranges_of "append_range_at now" for now
proof
  fix db k r k'
  show "ranges_of (append_range_at now db k r) k' = (if k' = k then ranges_of db k @ [r] else ranges_of db k')"
  proof (cases "k' = k")
    case True
    then show ?thesis using get_collected [of db now "fst k" "fst (snd k)" "Some (snd (snd k))" r]
      by (auto simp: ranges_of_def append_range_at_def split: option.splits)
  next
    case False
    then show ?thesis
      using get_collected_other [of "fst k'" "fst (snd k')" "Some (snd (snd k'))" "fst k" "fst (snd k)" "Some (snd (snd k))" db now r]
      by (simp add: ranges_of_def append_range_at_def prod_eq_iff)
  qed
qed

lemma update_append: "updateCollectedRanges db now rid ty sid r = append_range_at now db (rid, ty, or_empty sid) r"
  by (simp add: append_range_at_def updateCollectedRanges_def)

lemma ranges_ensure: "ranges_of (ensure_status db rid ty sid) k = ranges_of db k"
  by (auto simp: ranges_of_def ensure_status_def getCollectionStatus_def find_append fresh_status_def split: option.splits)

lemma ranges_failed:
  assumes "recordFailedRange db rid ty sid r e = Inr db'"
  shows "ranges_of db' k = ranges_of db k"
proof -
  have "ranges_of db' k = ranges_of (ensure_status db rid ty (or_empty sid)) k"
  proof (cases "getCollectionStatus (ensure_status db rid ty (or_empty sid)) rid ty (Some (or_empty sid))")
    case (Some s)
    then have "db' = update_status rid ty (or_empty sid)
        (\<lambda>t. t\<lparr>cs_failed_ranges := bump_failed r e (cs_failed_ranges s)\<rparr>) (ensure_status db rid ty (or_empty sid))"
      using assms by (simp add: recordFailedRange_def)
    then show ?thesis by (simp add: ranges_of_def get_update status_key_def split: option.split)
  qed (use assms in \<open>simp add: recordFailedRange_def\<close>)
  then show ?thesis by (simp add: ranges_ensure)
qed

lemma cursor_of:
  "getLastCollectedTime db rid ty sid = (if ranges_of db (rid, ty, or_empty sid) = [] then None
     else max_to None (ranges_of db (rid, ty, or_empty sid)))"
  by (simp add: getLastCollectedTime_def ranges_of_def getCollectionStatus_def or_empty_def split: option.split)

lemma max_to_greatest:
  assumes "rs \<noteq> []"
  shows "\<exists>t. max_to None rs = Some t \<and> (\<exists>r \<in> set rs. rg_to r = t) \<and> (\<forall>r \<in> set rs. rg_to r \<le> t)"
  using assms
proof (induction rs rule: rev_induct)
  case (snoc r rs)
  show ?case
  proof (cases "rs = []")
    case False
    then obtain t where "max_to None rs = Some t" "\<exists>x \<in> set rs. rg_to x = t" "\<forall>x \<in> set rs. rg_to x \<le> t"
      using snoc.IH by blast
    then show ?thesis by (auto simp: max_to_snoc max_def)
  qed simp
qed simp

section \<open>The loop\<close>

record collector =
  co_clock :: int
  co_sched :: sched
  co_db :: coll_db
  co_queue :: "(string \<times> incremental_job) list"

text \<open>
  Ticks, jobs and events come in any order. A tick submits its jobs, of which the queue keeps any; a
  job may be run any number of times while it is in the queue, at any later time, with any answer of
  the pipeline whose last data point is not after the end of the fetched window; the events of the
  queue may be lost, late or repeated; the process may restart. \<open>start\<close> is when a run began.
\<close>

inductive coll_step :: "source_tables \<Rightarrow> adder \<Rightarrow> 's redis_ops \<Rightarrow> (string \<Rightarrow> int) \<Rightarrow> collector \<Rightarrow> collector \<Rightarrow> bool"
  for tabs add R start where
  tick: "co_clock c \<le> now
     \<Longrightarrow> (\<And>r. r \<in> set runs \<Longrightarrow> test_start r = start (tr_test_run_id r) \<and> start (tr_test_run_id r) \<le> now)
     \<Longrightarrow> handleCron ready config tabs add now runs (co_db c) (co_sched c) = (jobs, sched')
     \<Longrightarrow> set queue' \<subseteq> set (co_queue c) \<union> set jobs
     \<Longrightarrow> coll_step tabs add R start c (c\<lparr>co_clock := now, co_sched := sched', co_queue := queue'\<rparr>)"
| work: "co_clock c \<le> now \<Longrightarrow> job \<in> set (co_queue c)
     \<Longrightarrow> (\<And>own tot t. r = PipeOk own tot (Some t) \<Longrightarrow> t \<le> ij_toTime (snd job))
     \<Longrightarrow> incrementalMetricsWorker R connects err during env now runs r job (co_db c, s) = (outc, db', s')
     \<Longrightarrow> set queue' \<subseteq> set (co_queue c)
     \<Longrightarrow> coll_step tabs add R start c (c\<lparr>co_clock := now, co_db := db', co_queue := queue'\<rparr>)"
| event: "sched' \<in> {on_completed jobId (co_sched c), on_failed (co_clock c) jobId (co_sched c),
                     cleanupTestRun rid (co_sched c), initial_sched}
     \<Longrightarrow> coll_step tabs add R start c (c\<lparr>co_sched := sched'\<rparr>)"

inductive coll_reachable :: "source_tables \<Rightarrow> adder \<Rightarrow> 's redis_ops \<Rightarrow> (string \<Rightarrow> int) \<Rightarrow> collector \<Rightarrow> bool"
  for tabs add R start where
  init: "coll_reachable tabs add R start
     \<lparr>co_clock = t0, co_sched = initial_sched, co_db = \<lparr>cb_statuses = [], cb_runs = rs\<rparr>, co_queue = []\<rparr>"
| step: "coll_reachable tabs add R start c \<Longrightarrow> coll_step tabs add R start c c' \<Longrightarrow> coll_reachable tabs add R start c'"

abbreviation seamless_db :: "(string \<Rightarrow> int) \<Rightarrow> int \<Rightarrow> coll_db \<Rightarrow> bool" where
  "seamless_db start \<equiv> rows.all_seamless (\<lambda>k. start (fst k))"

definition job_source :: "incremental_job \<Rightarrow> source" where
  "job_source j = (ij_testRunId j, ij_sourceType j, or_empty (ij_sourceId j))"

definition job_fits :: "(string \<Rightarrow> int) \<Rightarrow> int \<Rightarrow> coll_db \<Rightarrow> incremental_job \<Rightarrow> bool" where
  "job_fits start clock db j = (start (ij_testRunId j) \<le> ij_fromTime j \<and> ij_fromTime j \<le> ij_toTime j \<and> ij_toTime j \<le> clock
     \<and> resumes (start (ij_testRunId j)) (ranges_of db (job_source j)) (ij_fromTime j))"

lemma make_job_fits:
  assumes "seamless_db start clock db" "clock \<le> now" "test_start run = start (tr_test_run_id run)"
    "start (tr_test_run_id run) \<le> now"
  shows "job_fits start now db (make_job m now db run src)"
proof -
  obtain ty sid ds where src: "src = (ty, sid, ds)" by (cases src)
  let ?k = "(tr_test_run_id run, ty, or_empty sid)"
  have sl: "seamless (start (tr_test_run_id run)) clock (ranges_of db ?k)"
    using assms(1) by (auto simp: rows.all_seamless_def)
  show ?thesis
  proof (cases "ranges_of db ?k = []")
    case True
    then show ?thesis using assms(3,4)
      by (simp add: src make_job_def job_fits_def job_source_def cursor_of resumes_def)
  next
    case False
    then obtain t r where "max_to None (ranges_of db ?k) = Some t" "r \<in> set (ranges_of db ?k)" "rg_to r = t"
      using max_to_greatest by blast
    then show ?thesis using False sl assms(2)
      by (fastforce simp: src make_job_def job_fits_def job_source_def cursor_of resumes_def seamless_def)
  qed
qed

definition made_for :: "int \<Rightarrow> coll_db \<Rightarrow> live_run list \<Rightarrow> incremental_job \<Rightarrow> bool" where
  "made_for now db runs j = (\<exists>run \<in> set runs. \<exists>m src. j = make_job m now db run src)"

lemma made_forI: "run \<in> set runs \<Longrightarrow> made_for now db runs (make_job m now db run src)"
  unfolding made_for_def by blast

lemma handleCron_jobs:
  assumes "handleCron ready config tabs add now runs db s = (jobs, s')" "x \<in> set jobs"
  shows "made_for now db runs (snd x)"
proof -
  let ?m = "ic_maxRetries config"
  let ?P = "\<lambda>ts. \<forall>x \<in> set (tk_jobs ts). made_for now db runs (snd x)"
  have src: "?P (enqueue_source add ?m now db run ts a)" if "?P ts" "run \<in> set runs" for run ts a
    using that made_forI by (auto simp: enqueue_source_def enqueue_job_def Let_def split: add_result.split)
  have run: "?P (enqueueCollectionJobs tabs add ?m now db ts run)" if "?P ts" "run \<in> set runs" for run ts
    unfolding enqueueCollectionJobs_def
    using foldl_invariant [where P = ?P and f = "enqueue_source add ?m now db run" and a = ts
        and xs = "tick_sources tabs run"] src that by simp
  have "?P (foldl (enqueueCollectionJobs tabs add ?m now db)
      \<lparr>tk_sched = s\<lparr>sc_isRunning := True\<rparr>, tk_calls = 0, tk_jobs = [], tk_failed = False\<rparr>
      (findInProgressTestRuns (ic_heartbeatThresholdSeconds config) now runs))"
    by (rule foldl_invariant [where P = ?P]) (use run in \<open>auto simp: findInProgressTestRuns_def Let_def\<close>)
  then show ?thesis using assms by (auto simp: handleCron_def Let_def split: if_splits)
qed

lemma job_fits_mono:
  assumes "job_fits start clock db j" "clock \<le> clock'" "\<And>k t. resumes (start (fst k)) (ranges_of db k) t \<Longrightarrow> resumes (start (fst k)) (ranges_of db' k) t"
  shows "job_fits start clock' db' j"
  using assms(1,2) assms(3) [of "job_source j"] by (auto simp: job_fits_def job_source_def)

lemma worker_rows:
  assumes "incrementalMetricsWorker R connects err during env now runs r job (db, s) = (outc, db', s')"
    and "\<And>own tot t. r = PipeOk own tot (Some t) \<Longrightarrow> t \<le> ij_toTime (snd job)" "ij_fromTime (snd job) \<le> ij_toTime (snd job)"
  shows "(\<forall>k. ranges_of db' k = ranges_of db k)
    \<or> (\<exists>x. db' = append_range_at now db (job_source (snd job)) x \<and> rg_from x = ij_fromTime (snd job)
         \<and> rg_from x \<le> rg_to x \<and> rg_to x \<le> ij_toTime (snd job))"
proof -
  let ?j = "snd job"
  have res: "(\<forall>k. ranges_of (snd (worker_result now db ?j c)) k = ranges_of db k)
    \<or> (\<exists>x. snd (worker_result now db ?j c) = append_range_at now db (job_source ?j) x \<and> rg_from x = ij_fromTime ?j
         \<and> rg_from x \<le> rg_to x \<and> rg_to x \<le> ij_toTime ?j)"
    if "\<And>t. cr_success c \<Longrightarrow> cr_maxDataTimestamp c = Some t \<Longrightarrow> t \<le> ij_toTime ?j" for c
  proof (cases "cr_success c")
    case True
    then show ?thesis using that assms(3)
      by (auto simp: worker_result_def update_append job_source_def effectiveToTime_def split: option.split)
  next
    case False
    have "ranges_of (snd (worker_failure db ?j e)) k = ranges_of db k" for e k
      using ranges_failed by (auto simp: worker_failure_def Let_def split: sum.split)
    then show ?thesis using False by (simp add: worker_result_def)
  qed
  have ts: "t \<le> ij_toTime ?j" if "c \<in> {collectGrafanaMetrics r, collectDynatraceMetrics r, perf_test_result r,
      collection_failed err, collection_ok 0 None}" "cr_success c" "cr_maxDataTimestamp c = Some t" for c t
    using that assms(2) by (auto simp: collectGrafanaMetrics_def collectDynatraceMetrics_def perf_test_result_def
        collection_failed_def collection_ok_def split: pipe_result.splits)
  have perf: "fst (collectPerformanceTestMetrics R connects err during env rid tok r s)
      \<in> {perf_test_result r, collection_failed err, collection_ok 0 None}" for rid tok
    by (auto simp: collectPerformanceTestMetrics_def split: prod.split option.split bool.split)
  have dbs: "db' = db \<or> (\<exists>c. db' = snd (worker_result now db ?j c) \<and> c \<in> {collectGrafanaMetrics r,
      collectDynatraceMetrics r, perf_test_result r, collection_failed err, collection_ok 0 None})"
    using assms(1) perf [of "ij_testRunId ?j" "fst job"]
    by (auto simp: incrementalMetricsWorker_def Let_def split: if_splits prod.splits) (metis snd_conv)+
  then show ?thesis using res ts by metis
qed

definition coll_inv :: "(string \<Rightarrow> int) \<Rightarrow> collector \<Rightarrow> bool" where
  "coll_inv start c = (seamless_db start (co_clock c) (co_db c)
     \<and> (\<forall>x \<in> set (co_queue c). job_fits start (co_clock c) (co_db c) (snd x)))"

lemma inv_init: "coll_inv start \<lparr>co_clock = t0, co_sched = s, co_db = \<lparr>cb_statuses = [], cb_runs = rs\<rparr>, co_queue = []\<rparr>"
  by (simp add: coll_inv_def rows.all_seamless_def seamless_def ranges_of_def getCollectionStatus_def)

lemma inv_coll_tick:
  assumes "coll_inv start c" "co_clock c \<le> now"
    and "\<And>r. r \<in> set runs \<Longrightarrow> test_start r = start (tr_test_run_id r) \<and> start (tr_test_run_id r) \<le> now"
    and "handleCron ready config tabs add now runs (co_db c) (co_sched c) = (jobs, sched')"
    and "set queue' \<subseteq> set (co_queue c) \<union> set jobs"
  shows "coll_inv start (c\<lparr>co_clock := now, co_sched := sched', co_queue := queue'\<rparr>)"
proof -
  have sl: "seamless_db start (co_clock c) (co_db c)"
    and q: "x \<in> set (co_queue c) \<Longrightarrow> job_fits start (co_clock c) (co_db c) (snd x)" for x
    using assms(1) by (auto simp: coll_inv_def)
  have "job_fits start now (co_db c) (snd x)" if x: "x \<in> set queue'" for x
  proof (cases "x \<in> set (co_queue c)")
    case True
    then show ?thesis using job_fits_mono [OF q assms(2)] by blast
  next
    case False
    then have "x \<in> set jobs" using x assms(5) by blast
    from handleCron_jobs [OF assms(4) this] obtain run m src where "run \<in> set runs" "snd x = make_job m now (co_db c) run src"
      unfolding made_for_def by blast
    then show ?thesis using make_job_fits [OF sl assms(2)] assms(3) by metis
  qed
  then show ?thesis using rows.seamless_later [OF sl assms(2)] by (simp add: coll_inv_def)
qed

lemma inv_coll_work:
  assumes "coll_inv start c" "co_clock c \<le> now" "job \<in> set (co_queue c)"
    and "\<And>own tot t. r = PipeOk own tot (Some t) \<Longrightarrow> t \<le> ij_toTime (snd job)"
    and "incrementalMetricsWorker R connects err during env now runs r job (co_db c, s) = (outc, db', s')"
    and "set queue' \<subseteq> set (co_queue c)"
  shows "coll_inv start (c\<lparr>co_clock := now, co_db := db', co_queue := queue'\<rparr>)"
proof -
  have sl: "seamless_db start now (co_db c)" using assms(1,2) rows.seamless_later by (auto simp: coll_inv_def)
  have q: "job_fits start (co_clock c) (co_db c) (snd x)" if "x \<in> set (co_queue c)" for x
    using assms(1) that by (auto simp: coll_inv_def)
  have fits: "job_fits start (co_clock c) (co_db c) (snd job)" by (rule q [OF assms(3)])
  then have window: "ij_fromTime (snd job) \<le> ij_toTime (snd job)" by (simp add: job_fits_def)
  from worker_rows [OF assms(5,4) window]
  have "seamless_db start now db' \<and> (\<forall>k t. resumes (start (fst k)) (ranges_of (co_db c) k) t
      \<longrightarrow> resumes (start (fst k)) (ranges_of db' k) t)"
  proof
    assume same: "\<forall>k. ranges_of db' k = ranges_of (co_db c) k"
    then have "seamless_db start now db' = seamless_db start now (co_db c)"
      by (intro rows.seamless_other) blast
    then show ?thesis using sl same by presburger
  next
    assume "\<exists>x. db' = append_range_at now (co_db c) (job_source (snd job)) x \<and> rg_from x = ij_fromTime (snd job)
         \<and> rg_from x \<le> rg_to x \<and> rg_to x \<le> ij_toTime (snd job)"
    then obtain x where x: "db' = append_range_at now (co_db c) (job_source (snd job)) x" "rg_from x = ij_fromTime (snd job)"
      "rg_from x \<le> rg_to x" "rg_to x \<le> ij_toTime (snd job)" by blast
    have "seamless_db start now db'" unfolding x(1)
      by (rule rows.seamless_append [OF sl]) (use fits x assms(2) in \<open>auto simp: job_fits_def job_source_def\<close>)
    then show ?thesis unfolding x(1)
      using rows.resumes_append [where lo = "\<lambda>k. start (fst k)" and db = "co_db c"] by blast
  qed
  then show ?thesis using job_fits_mono [OF q assms(2)] assms(6) by (auto simp: coll_inv_def)
qed

lemma inv_reachable: "coll_reachable tabs add R start c \<Longrightarrow> coll_inv start c"
proof (induction rule: coll_reachable.induct)
  case (init t0 rs)
  show ?case by (rule inv_init)
next
  case (step c c')
  from step(2) show ?case
  proof (cases rule: coll_step.cases)
    case (tick now runs ready config jobs sched' queue')
    show ?thesis unfolding tick(1) by (rule inv_coll_tick [OF step(3) tick(2,3,4,5)])
  next
    case (work now job r connects err during env runs s outc db' s' queue')
    show ?thesis unfolding work(1) by (rule inv_coll_work [OF step(3) work(2,3,4,5,6)])
  next
    case event
    then show ?thesis using step(3) by (simp add: coll_inv_def)
  qed
qed

section \<open>No holes\<close>

lemma seamless_missing:
  assumes "seamless lo clock rs" "rs \<noteq> []" "lo < hi" "max_to None rs = Some cur"
  shows "findMissingRanges lo hi rs = (if cur < hi then [\<lparr>rg_from = cur, rg_to = hi\<rparr>] else [])"
proof -
  have pr: "proper rs" using assms(1) by (auto simp: seamless_def proper_def)
  define M where "M = mergeOverlappingRanges (sort_key rg_from rs)"
  note m = merged_ranges [OF pr assms(2), folded M_def]
  have within: "lo \<le> rg_from r" "rg_from r \<le> rg_to r" if "r \<in> set rs" for r
    using assms(1) that by (auto simp: seamless_def)
  have filled: "covers rs t" if "lo \<le> t" "r \<in> set rs" "t \<le> rg_to r" for t r
    using assms(1) that by (auto simp: seamless_def)
  have beyond: "(\<exists>r \<in> set rs. t \<le> rg_to r) \<and> lo \<le> t" if "covers M t" for t
    using m(5) [OF that]
  proof
    assume "covers rs t"
    then obtain r where "r \<in> set rs" "rg_from r \<le> t" "t \<le> rg_to r" by (auto simp: covers_def)
    then show ?thesis using within [of r] by auto
  next
    assume "tolerated rs t"
    then obtain a b where "a \<in> set rs" "b \<in> set rs" "rg_to a < t" "t < rg_from b" by (auto simp: tolerated_def)
    then show ?thesis using within [of a] within [of b] by (intro conjI bexI [of _ b]) auto
  qed
  have single: False if M2: "M = x # y # zs" for x y zs
  proof -
    have x: "rg_from x \<le> rg_to x" "rg_from y \<le> rg_to y" "rg_to x + 1000 < rg_from y"
      "\<And>z. z \<in> set zs \<Longrightarrow> rg_to x + 1000 < rg_from z"
      using m(2,3) by (auto simp: M2)
    have "lo \<le> rg_from x" using beyond [of "rg_from x"] x by (auto simp: M2)
    moreover obtain r where "r \<in> set rs" "rg_from y \<le> rg_to r" using beyond [of "rg_from y"] x by (auto simp: M2)
    ultimately have "covers rs (rg_to x + 1)" using filled [of "rg_to x + 1" r] x by linarith
    from m(4) [OF this] x show False by (fastforce simp: M2 covers_def)
  qed
  obtain x zs where "M = x # zs" using m(1) by (cases M) auto
  with single have M: "M = [x]" by (cases zs) auto
  note cur = max_to_greatest [OF assms(2), unfolded assms(4)]
  have x: "rg_from x \<le> rg_to x" using m(2) by (simp add: M)
  obtain c where c: "c \<in> set rs" "rg_to c = cur" using cur by auto
  then have "lo \<le> rg_from c" "rg_from c \<le> cur" using assms(1) by (auto simp: seamless_def)
  then have "covers rs lo" "covers rs cur" "lo \<le> cur" using filled [of lo c] filled [of cur c] c by auto
  then have "rg_from x \<le> lo" "cur \<le> rg_to x" using m(4) [of lo] m(4) [of cur] by (auto simp: M covers_def [of "[]"])
  moreover have "rg_to x \<le> cur" using beyond [of "rg_to x"] x cur by (fastforce simp: M)
  ultimately show ?thesis using assms(2,3) \<open>lo \<le> cur\<close>
    by (auto simp: findMissingRanges_def M_def [symmetric] M Let_def)
qed

text \<open>
  C21: incremental collection leaves no holes. Whatever the order of ticks, jobs, retries, failures,
  lost or repeated events and restarts, the recorded ranges of every source of a run form one
  stretch from the start of the run to the cursor of the source, which is never in the future; so
  the only missing range the gap service can report for the source is the tail after its cursor.
\<close>

theorem incremental_no_holes:
  assumes "coll_reachable tabs add R start c"
    and "getCollectionStatus (co_db c) rid ty sid = Some s" "cs_collected_ranges s \<noteq> []" "start rid < hi"
  shows "\<exists>cur. getLastCollectedTime (co_db c) rid ty sid = Some cur \<and> start rid \<le> cur \<and> cur \<le> co_clock c
    \<and> (\<forall>t. start rid \<le> t \<and> t \<le> cur \<longrightarrow> covers (cs_collected_ranges s) t)
    \<and> findMissingRanges (start rid) hi (cs_collected_ranges s)
        = (if cur < hi then [\<lparr>rg_from = cur, rg_to = hi\<rparr>] else [])"
proof -
  let ?k = "(rid, ty, or_empty sid)"
  have rs: "ranges_of (co_db c) ?k = cs_collected_ranges s"
    using assms(2) by (simp add: ranges_of_def getCollectionStatus_def)
  have sl: "seamless (start rid) (co_clock c) (cs_collected_ranges s)"
    using inv_reachable [OF assms(1)] rs unfolding coll_inv_def rows.all_seamless_def by (metis fst_conv)
  obtain cur where cur: "max_to None (cs_collected_ranges s) = Some cur" "\<exists>r \<in> set (cs_collected_ranges s). rg_to r = cur"
    using max_to_greatest [OF assms(3)] by blast
  then obtain r where "r \<in> set (cs_collected_ranges s)" "rg_to r = cur" by blast
  then have "start rid \<le> cur" "cur \<le> co_clock c"
    "\<forall>t. start rid \<le> t \<and> t \<le> cur \<longrightarrow> covers (cs_collected_ranges s) t"
    using sl by (fastforce simp: seamless_def)+
  then show ?thesis
    using seamless_missing [OF sl assms(3,4) cur(1)] cur(1) assms(3) by (simp add: cursor_of rs)
qed

theorem incremental_no_holes_witness:
  "\<exists>c. coll_reachable example_tables (\<lambda>_ i _. Added (Some i)) mem_redis (\<lambda>_. 60000) c
     \<and> getLastCollectedTime (co_db c) ''r1'' ''grafana'' (Some ''i1'') = Some 600000
     \<and> (\<forall>s. getCollectionStatus (co_db c) ''r1'' ''grafana'' (Some ''i1'') = Some s
          \<longrightarrow> findMissingRanges 60000 660000 (cs_collected_ranges s) = [\<lparr>rg_from = 600000, rg_to = 660000\<rparr>])"
proof -
  let ?add = "\<lambda>_ i _. Added (Some i)"
  let ?config = "\<lparr>ic_enabled = True, ic_intervalSeconds = 60, ic_maxRetries = 5,
    ic_heartbeatThresholdSeconds = 30, ic_batchSize = 20\<rparr>"
  let ?db0 = "\<lparr>cb_statuses = [], cb_runs = []\<rparr>"
  let ?c0 = "\<lparr>co_clock = 60000, co_sched = initial_sched, co_db = ?db0, co_queue = []\<rparr>"
  let ?tick = "handleCron True ?config example_tables ?add 600000 [example_live_run] ?db0 initial_sched"
  let ?job = "(''incremental.r1.grafana.i1.10'', \<lparr>ij_testRunId = ''r1'', ij_sourceType = ''grafana'', ij_sourceId = Some ''i1'',
        ij_applicationDashboardIds = [''a1''], ij_fromTime = 60000, ij_toTime = 600000, ij_attempt = 1, ij_maxAttempts = 5\<rparr>)"
  let ?c1 = "?c0\<lparr>co_clock := 600000, co_sched := snd ?tick, co_queue := fst ?tick\<rparr>"
  let ?db2 = "updateCollectedRanges ?db0 600000 ''r1'' ''grafana'' (Some ''i1'') \<lparr>rg_from = 60000, rg_to = 600000\<rparr>"
  let ?c2 = "?c1\<lparr>co_clock := 600000, co_db := ?db2, co_queue := []\<rparr>"
  let ?m = "\<lparr>m_store = Map.empty, m_events = []\<rparr>"
  let ?s = "hd (cb_statuses ?db2)"
  have c0: "coll_reachable example_tables ?add mem_redis (\<lambda>_. 60000) ?c0" by (rule coll_reachable.init)
  have c1: "coll_reachable example_tables ?add mem_redis (\<lambda>_. 60000) ?c1"
    by (rule coll_reachable.step [OF c0], rule coll_step.tick [where runs = "[example_live_run]" and ready = True
          and config = ?config and jobs = "fst ?tick"])
      (simp_all add: example_live_run_def test_start_def)
  have job: "?job \<in> set (fst ?tick)" by code_simp
  have c2: "coll_reachable example_tables ?add mem_redis (\<lambda>_. 60000) ?c2"
  proof (rule coll_reachable.step [OF c1], rule coll_step.work [where c = ?c1 and now = 600000 and db' = ?db2
        and queue' = "[]" and outc = "WSuccess 3" and s' = ?m and job = ?job and r = "PipeOk (Some 3) None None"
        and runs = "[example_live_run]" and connects = True and err = "[]" and during = id and env = id
        and s = ?m])
    show "incrementalMetricsWorker mem_redis True [] id id 600000 [example_live_run] (PipeOk (Some 3) None None) ?job (co_db ?c1, ?m)
      = (WSuccess 3, ?db2, ?m)"
      by (simp add: incrementalMetricsWorker_def job_valid_def collectGrafanaMetrics_def data_points_def
          collection_ok_def worker_result_def effectiveToTime_def)
  qed (use job in simp_all)
  have s: "getCollectionStatus (co_db ?c2) ''r1'' ''grafana'' (Some ''i1'') = Some ?s" "cs_collected_ranges ?s \<noteq> []"
    "getLastCollectedTime ?db2 ''r1'' ''grafana'' (Some ''i1'') = Some 600000"
    by (simp_all add: updateCollectedRanges_def getCollectionStatus_def getLastCollectedTime_def fresh_status_def is_source_def)
  from incremental_no_holes [OF c2 s(1,2), of 660000] s show ?thesis
    by (intro exI [of _ ?c2] conjI c2) auto
qed

section \<open>Failures\<close>

lemma bump_failed_window:
  "\<exists>f \<in> set (bump_failed r e fs). rg_from f = rg_from r \<and> rg_to f = rg_to r \<and> fr_last_error f = e"
  by (induction r e fs rule: bump_failed.induct) auto

lemma ensure_get: "getCollectionStatus (ensure_status db rid ty (or_empty sid)) rid ty sid \<noteq> None"
  by (auto simp: get_none ensure_status_def is_source_def fresh_status_def)

lemma get_or_empty: "getCollectionStatus db rid ty (Some (or_empty sid)) = getCollectionStatus db rid ty sid"
  by (simp add: getCollectionStatus_def)

lemma recordFailedRange_records:
  "\<exists>db' s f. recordFailedRange db rid ty sid r e = Inr db' \<and> getCollectionStatus db' rid ty sid = Some s
     \<and> f \<in> set (cs_failed_ranges s) \<and> rg_from f = rg_from r \<and> rg_to f = rg_to r \<and> fr_last_error f = e"
proof -
  let ?db1 = "ensure_status db rid ty (or_empty sid)"
  obtain s where s: "getCollectionStatus ?db1 rid ty sid = Some s" using ensure_get by fast
  let ?f = "\<lambda>t. t\<lparr>cs_failed_ranges := bump_failed r e (cs_failed_ranges s)\<rparr>"
  have "recordFailedRange db rid ty sid r e = Inr (update_status rid ty (or_empty sid) ?f ?db1)"
    by (simp add: recordFailedRange_def get_or_empty s)
  moreover have "getCollectionStatus (update_status rid ty (or_empty sid) ?f ?db1) rid ty sid = Some (?f s)"
    by (subst get_update) (simp_all add: s status_key_def)
  moreover have "cs_failed_ranges (?f s) = bump_failed r e (cs_failed_ranges s)" by simp
  ultimately show ?thesis using bump_failed_window [of r e "cs_failed_ranges s"] by (metis (no_types))
qed

text \<open>
  A failed fetch loses nothing. Whatever went wrong, the window of the job is among the failed
  ranges of its source afterwards, with the error, and no source's cursor has moved, so the next job
  starts where this one did; the worker throws exactly on the last attempt, and otherwise reports
  that it will be retried.
\<close>

theorem worker_failure_recorded:
  assumes "\<not> cr_success r" "worker_result now db j r = (out, db')"
  shows "(\<exists>s f. getCollectionStatus db' (ij_testRunId j) (ij_sourceType j) (ij_sourceId j) = Some s
      \<and> f \<in> set (cs_failed_ranges s) \<and> rg_from f = ij_fromTime j \<and> rg_to f = ij_toTime j \<and> fr_last_error f \<noteq> []
      \<and> (\<forall>e. cr_error r = Some e \<and> e \<noteq> [] \<longrightarrow> fr_last_error f = e))
    \<and> (\<forall>rid ty sid. getLastCollectedTime db' rid ty sid = getLastCollectedTime db rid ty sid)
    \<and> out = (if ij_attempt j < ij_maxAttempts j then WFailedWillRetry (ij_attempt j) (ij_maxAttempts j) else WThrows)"
proof -
  define e where "e = (case cr_error r of Some e \<Rightarrow> if e = [] then ''Unknown error'' else e | None \<Rightarrow> ''Unknown error'')"
  let ?w = "\<lparr>rg_from = ij_fromTime j, rg_to = ij_toTime j\<rparr>"
  obtain db1 s f where f: "recordFailedRange db (ij_testRunId j) (ij_sourceType j) (ij_sourceId j) ?w e = Inr db1"
    "getCollectionStatus db1 (ij_testRunId j) (ij_sourceType j) (ij_sourceId j) = Some s"
    "f \<in> set (cs_failed_ranges s)" "rg_from f = ij_fromTime j" "rg_to f = ij_toTime j" "fr_last_error f = e"
    using recordFailedRange_records [of db "ij_testRunId j" "ij_sourceType j" "ij_sourceId j" ?w e] by auto
  have "worker_failure db j e = (out, db')" using assms by (simp add: worker_result_def e_def)
  then have out: "db' = db1"
    "out = (if ij_attempt j < ij_maxAttempts j then WFailedWillRetry (ij_attempt j) (ij_maxAttempts j) else WThrows)"
    using f(1) by (auto simp: worker_failure_def Let_def split: if_splits)
  have e: "e \<noteq> []" "\<forall>m. cr_error r = Some m \<and> m \<noteq> [] \<longrightarrow> e = m" by (auto simp: e_def split: option.split)
  have "getLastCollectedTime db' rid ty sid = getLastCollectedTime db rid ty sid" for rid ty sid
    by (simp only: cursor_of out(1) ranges_failed [OF f(1)])
  with e f(2-6) out show ?thesis by blast
qed

theorem worker_failure_recorded_witness:
  "\<exists>s. getCollectionStatus (snd (worker_result 9 \<lparr>cb_statuses = [], cb_runs = []\<rparr>
        \<lparr>ij_testRunId = ''r1'', ij_sourceType = ''dynatrace'', ij_sourceId = Some ''d1'', ij_applicationDashboardIds = [],
         ij_fromTime = 3, ij_toTime = 7, ij_attempt = 1, ij_maxAttempts = 5\<rparr> (collection_failed ''401'')))
      ''r1'' ''dynatrace'' (Some ''d1'') = Some s \<and> cs_failed_ranges s \<noteq> []"
proof -
  let ?db = "\<lparr>cb_statuses = [], cb_runs = []\<rparr>"
  let ?j = "\<lparr>ij_testRunId = ''r1'', ij_sourceType = ''dynatrace'', ij_sourceId = Some ''d1'', ij_applicationDashboardIds = [],
         ij_fromTime = 3, ij_toTime = 7, ij_attempt = 1, ij_maxAttempts = 5\<rparr>"
  have "\<not> cr_success (collection_failed ''401'')" by (simp add: collection_failed_def)
  from worker_failure_recorded [OF this, of 9 ?db ?j, OF prod.collapse [symmetric]]
  show ?thesis by (auto simp: ex_in_conv)
qed

text \<open>
  Every job the scheduler submits says that it is its first attempt. As soon as more than one attempt
  is allowed, no failure of the worker is ever thrown, so the queue reports every job as completed and
  the scheduler never counts a failure.
\<close>

lemma scheduled_jobs_never_throw:
  assumes "1 < m" "j = make_job m toTime db0 run src" "job_valid j"
  shows "fst (incrementalMetricsWorker R connects err during env now runs r (jid, j) (db, s)) \<noteq> WThrows"
proof -
  have att: "ij_attempt j < ij_maxAttempts j" using assms(1,2) by (auto simp: make_job_def split: prod.split)
  have "fst (worker_result now db j c) \<noteq> WThrows" for c
    using att by (simp add: worker_result_def worker_failure_def Let_def)
  then show ?thesis using assms(3) by (auto simp: incrementalMetricsWorker_def Let_def split: prod.split)
    (metis fst_conv)+
qed

end
