(* ===== verification/AdaptConfig.thy ===== *)
theory AdaptConfig
  imports Prelude
begin

text \<open>
  Which comparison settings apply to a metric: \<open>helpers/adapt/compare-config-cache.ts\<close> and the
  \<open>with_compare_config\<close> step of \<open>helpers/adapt/results/sql-builder.ts\<close> (the same step of
  \<open>tracked-results-sql-builder.ts\<close> reads the same).

  The settings of a system travel from the table \<open>ds_compare_config\<close> through a map with string keys and a
  temporary table to the join that picks one per metric. A row carries the columns the statements read. Numbers of
  the settings are rationals, panel ids are not negative, \<open>config_data\<close> is typed as \<open>CompareConfig\<close>: a field that is
  absent, \<open>null\<close> or (for \<open>minSampleCount\<close>) not a number is \<open>None\<close>.
\<close>

section \<open>Settings\<close>

record threshold_config =
  th_percentage :: "rat option"
  th_iqr :: "rat option"
  th_absolute :: "rat option"
  th_aggregation :: "string option"
  th_minSampleCount :: "rat option"

record compare_config =
  cc_thresholds :: threshold_config
  cc_classification :: string
  cc_higherIsBetter :: "bool option"
  cc_ignore :: "bool option"
  cc_source :: string

definition DEFAULT_COMPARE_CONFIG :: compare_config where
  "DEFAULT_COMPARE_CONFIG =
     \<lparr>cc_thresholds = \<lparr>th_percentage = Some (15 / 100), th_iqr = Some 2, th_absolute = None,
                       th_aggregation = Some ''median'', th_minSampleCount = None\<rparr>,
      cc_classification = ''unclassified'', cc_higherIsBetter = None,
      cc_ignore = Some False, cc_source = ''default''\<rparr>"

section \<open>Reading the settings of a system\<close>

record config_row =
  cf_system :: string
  cf_environment :: "string option"
  cf_workload :: string
  cf_dashboard :: "string option"
  cf_panel :: "nat option"
  cf_metric :: "string option"
  cf_data :: compare_config

definition specificity :: "config_row \<Rightarrow> nat" where
  "specificity r =
     (if cf_metric r \<noteq> None then 1
      else if cf_panel r \<noteq> None then 2
      else if cf_dashboard r \<noteq> None then 3
      else if cf_environment r \<noteq> None then 4
      else 5)"

text \<open>
  The statement. Rows of the same specificity come back in the order the table is scanned, here the order of the list.
\<close>

definition select_configs :: "config_row list \<Rightarrow> string \<Rightarrow> string \<Rightarrow> string \<Rightarrow> config_row list" where
  "select_configs table systemUnderTestId testEnvironment workload =
     sort_key specificity
       (filter (\<lambda>r. cf_system r = systemUnderTestId
                  \<and> (cf_environment r = Some testEnvironment \<or> cf_environment r = None \<or> cf_environment r = Some '''')
                  \<and> cf_workload r = workload) table)"

text \<open>JavaScript truth of a nullable string and of a nullable number.\<close>

definition truthy_text :: "string option \<Rightarrow> bool" where
  "truthy_text x = (x \<noteq> None \<and> x \<noteq> Some '''')"

definition truthy_panel :: "nat option \<Rightarrow> bool" where
  "truthy_panel x = (x \<noteq> None \<and> x \<noteq> Some 0)"

definition lookup_key :: "string \<Rightarrow> string \<Rightarrow> string \<Rightarrow> string" where
  "lookup_key d p m = d @ '':'' @ p @ '':'' @ m"

definition cache_keys :: "config_row \<Rightarrow> string list" where
  "cache_keys r =
     (let d = cf_dashboard r; p = cf_panel r; m = cf_metric r in
      (if truthy_text d \<and> truthy_panel p \<and> truthy_text m then [lookup_key (the d) (show_nat (the p)) (the m)] else [])
    @ (if truthy_text d \<and> truthy_panel p \<and> \<not> truthy_text m then [lookup_key (the d) (show_nat (the p)) ''''] else [])
    @ (if truthy_text d \<and> \<not> truthy_panel p then [lookup_key (the d) '''' ''''] else [])
    @ (if \<not> truthy_text d \<and> \<not> truthy_panel p then [''global''] else []))"

text \<open>A \<open>Map\<close> is an association list in the order of insertion.\<close>

type_synonym config_cache = "(string \<times> compare_config) list"

definition cache_set :: "config_cache \<Rightarrow> string \<Rightarrow> compare_config \<Rightarrow> config_cache" where
  "cache_set cache k v =
     (if k \<in> fst ` set cache then map (\<lambda>e. if fst e = k then (k, v) else e) cache else cache @ [(k, v)])"

definition store_if_absent :: "compare_config \<Rightarrow> config_cache \<Rightarrow> string \<Rightarrow> config_cache" where
  "store_if_absent v cache k = (if k \<in> fst ` set cache then cache else cache_set cache k v)"

definition store_row :: "config_cache \<Rightarrow> config_row \<Rightarrow> config_cache" where
  "store_row cache r = foldl (store_if_absent (cf_data r)) cache (cache_keys r)"

definition fetchCompareConfigCache :: "config_row list \<Rightarrow> string \<Rightarrow> string \<Rightarrow> string \<Rightarrow> config_cache" where
  "fetchCompareConfigCache table systemUnderTestId testEnvironment workload =
     cache_set (foldl store_row [] (select_configs table systemUnderTestId testEnvironment workload))
       ''default'' DEFAULT_COMPARE_CONFIG"

section \<open>The temporary table and the join\<close>

record temp_config =
  tc_dashboard :: "string option"
  tc_panel :: "nat option"
  tc_metric :: "string option"
  tc_config :: compare_config

definition nth_part :: "string list \<Rightarrow> nat \<Rightarrow> string option" where
  "nth_part parts i = (if i < length parts \<and> parts ! i \<noteq> [] then Some (parts ! i) else None)"

definition temp_row :: "string \<times> compare_config \<Rightarrow> temp_config" where
  "temp_row e =
     (let parts = split_on CHR '':'' (fst e) in
      \<lparr>tc_dashboard = nth_part parts 0, tc_panel = map_option digits_val (nth_part parts 1),
       tc_metric = nth_part parts 2, tc_config = snd e\<rparr>)"

definition createTempConfigCache :: "config_cache \<Rightarrow> temp_config list" where
  "createTempConfigCache configCache =
     map temp_row (filter (\<lambda>e. fst e \<noteq> ''default'' \<and> fst e \<noteq> ''global'') configCache)"

text \<open>\<open>LEFT JOIN\<close>: the matching rows, or one row of nulls.\<close>

definition left_join :: "('b \<Rightarrow> bool) \<Rightarrow> 'b list \<Rightarrow> 'b option list" where
  "left_join on rows = (let ms = filter on rows in if ms = [] then [None] else map Some ms)"

definition coalesce :: "'a option list \<Rightarrow> 'a option" where
  "coalesce xs = (case dropWhile (\<lambda>x. x = None) xs of [] \<Rightarrow> None | x # _ \<Rightarrow> x)"

definition on_metric :: "string \<Rightarrow> nat \<Rightarrow> string \<Rightarrow> temp_config \<Rightarrow> bool" where
  "on_metric d p m t = (tc_dashboard t = Some d \<and> tc_panel t = Some p \<and> tc_metric t = Some m)"

definition on_panel :: "string \<Rightarrow> nat \<Rightarrow> temp_config \<Rightarrow> bool" where
  "on_panel d p t = (tc_dashboard t = Some d \<and> tc_panel t = Some p \<and> tc_metric t = None)"

definition on_dashboard :: "string \<Rightarrow> temp_config \<Rightarrow> bool" where
  "on_dashboard d t = (tc_dashboard t = Some d \<and> tc_panel t = None \<and> tc_metric t = None)"

definition on_global :: "temp_config \<Rightarrow> bool" where
  "on_global t = (tc_dashboard t = None \<and> tc_panel t = None \<and> tc_metric t = None)"

text \<open>The rows the step makes of one metric row: one per combination of matching settings.\<close>

definition with_compare_config :: "temp_config list \<Rightarrow> compare_config \<Rightarrow> string \<Rightarrow> nat \<Rightarrow> string \<Rightarrow> compare_config list" where
  "with_compare_config temp dflt d p m =
     concat (map (\<lambda>cm. concat (map (\<lambda>cp. concat (map (\<lambda>cd. map (\<lambda>cg.
         the (coalesce [map_option tc_config cm, map_option tc_config cp, map_option tc_config cd,
                        map_option tc_config cg, Some dflt]))
       (left_join on_global temp)) (left_join (on_dashboard d) temp))) (left_join (on_panel d p) temp)))
     (left_join (on_metric d p m) temp))"

text \<open>The settings a metric of a test run is compared with.\<close>

definition resolve_configs :: "config_row list \<Rightarrow> string \<Rightarrow> string \<Rightarrow> string \<Rightarrow> string \<Rightarrow> nat \<Rightarrow> string \<Rightarrow> compare_config list" where
  "resolve_configs table sut env wl d p m =
     (let cache = fetchCompareConfigCache table sut env wl;
          dflt = (case map_of cache ''default'' of Some c \<Rightarrow> c | None \<Rightarrow> DEFAULT_COMPARE_CONFIG) in
      with_compare_config (createTempConfigCache cache) dflt d p m)"

section \<open>Resolution\<close>

text \<open>
  What the comments promise, without keys and joins: the first row for the metric, else for its panel, else for its
  dashboard, else the default. There is no global level: the settings stored under \<open>global\<close> never reach the join.
\<close>

definition resolution :: "config_row list \<Rightarrow> string \<Rightarrow> nat \<Rightarrow> string \<Rightarrow> compare_config" where
  "resolution rows d p m =
     (case find (\<lambda>r. cf_dashboard r = Some d \<and> cf_panel r = Some p \<and> cf_metric r = Some m) rows of
        Some r \<Rightarrow> cf_data r
      | None \<Rightarrow>
     (case find (\<lambda>r. cf_dashboard r = Some d \<and> cf_panel r = Some p \<and> \<not> truthy_text (cf_metric r)) rows of
        Some r \<Rightarrow> cf_data r
      | None \<Rightarrow>
     (case find (\<lambda>r. cf_dashboard r = Some d \<and> \<not> truthy_panel (cf_panel r)) rows of
        Some r \<Rightarrow> cf_data r
      | None \<Rightarrow> DEFAULT_COMPARE_CONFIG)))"

definition no_colon :: "string option \<Rightarrow> bool" where
  "no_colon x = (case x of None \<Rightarrow> True | Some s \<Rightarrow> CHR '':'' \<notin> set s)"

text \<open>The first value stored under a key wins.\<close>

lemma stored: "k \<in> fst ` set xs \<longleftrightarrow> map_of xs k \<noteq> None"
  by (simp add: map_of_eq_None_iff)

lemma map_of_snoc: "map_of (xs @ [(k, v)]) k' =
  (if map_of xs k' \<noteq> None then map_of xs k' else if k' = k then Some v else None)"
  by (auto simp: map_add_def split: option.split)

lemma store_if_absent_map: "map_of (store_if_absent v cache k) k' =
  (if k' = k \<and> map_of cache k = None then Some v else map_of cache k')"
  by (simp add: store_if_absent_def cache_set_def stored map_of_snoc del: map_of_append)

lemma find_facts: "find P xs = Some x \<Longrightarrow> x \<in> set xs \<and> P x"
  by (induction xs) (auto split: if_splits)

lemma store_if_absent_distinct:
  "distinct (map fst cache) \<Longrightarrow> distinct (map fst (store_if_absent v cache k))"
  by (auto simp: store_if_absent_def cache_set_def)

lemma cache_keys_short: "cache_keys r = [] \<or> (\<exists>k. cache_keys r = [k])"
  by (auto simp: cache_keys_def Let_def)

lemma store_row_map: "map_of (store_row cache r) k =
  (if k \<in> set (cache_keys r) \<and> map_of cache k = None then Some (cf_data r) else map_of cache k)"
  using cache_keys_short [of r] by (auto simp: store_row_def store_if_absent_map)

lemma store_row_distinct: "distinct (map fst cache) \<Longrightarrow> distinct (map fst (store_row cache r))"
  using cache_keys_short [of r] by (auto simp: store_row_def intro: store_if_absent_distinct)

lemma store_rows_map: "map_of (foldl store_row cache rows) k =
  (case map_of cache k of Some c \<Rightarrow> Some c | None \<Rightarrow> map_option cf_data (find (\<lambda>r. k \<in> set (cache_keys r)) rows))"
  by (induction rows arbitrary: cache) (auto simp: store_row_map split: option.split)

lemma store_rows_distinct: "distinct (map fst cache) \<Longrightarrow> distinct (map fst (foldl store_row cache rows))"
  by (induction rows arbitrary: cache) (simp_all add: store_row_distinct)

lemma store_rows_keys:
  assumes "k \<in> fst ` set (foldl store_row [] rows)"
  shows "\<exists>r \<in> set rows. k \<in> set (cache_keys r)"
proof -
  obtain r where "find (\<lambda>r. k \<in> set (cache_keys r)) rows = Some r"
    using assms unfolding stored store_rows_map by auto
  then show ?thesis using find_facts by fastforce
qed

lemma map_of_replace: "map_of (map (\<lambda>e. if fst e = k then (k, v) else e) xs) k' =
  (if k' = k \<and> map_of xs k \<noteq> None then Some v else map_of xs k')"
  by (induction xs) auto

lemma cache_set_map: "map_of (cache_set cache k v) k' = (if k' = k then Some v else map_of cache k')"
  by (simp add: cache_set_def stored map_of_snoc map_of_replace del: map_of_append)

text \<open>A key of the cache splits into its three parts again.\<close>

lemma split_key:
  assumes "CHR '':'' \<notin> set d" "CHR '':'' \<notin> set p" "CHR '':'' \<notin> set m"
  shows "split_on CHR '':'' (lookup_key d p m) = [d, p, m]"
  using assms by (simp add: lookup_key_def split_on_app split_on_none)

lemma temp_row_key:
  assumes "CHR '':'' \<notin> set d" "CHR '':'' \<notin> set p" "CHR '':'' \<notin> set m"
  shows "temp_row (lookup_key d p m, c) =
    \<lparr>tc_dashboard = (if d = [] then None else Some d), tc_panel = (if p = [] then None else Some (digits_val p)),
     tc_metric = (if m = [] then None else Some m), tc_config = c\<rparr>"
  by (simp add: temp_row_def split_key [OF assms] nth_part_def)

definition row_key :: "string \<Rightarrow> bool" where
  "row_key k = (\<exists>d p m. k = lookup_key d p m \<and> d \<noteq> '''' \<and> CHR '':'' \<notin> set d \<and> CHR '':'' \<notin> set m
     \<and> (p = '''' \<and> m = '''' \<or> (\<exists>n > 0. p = show_nat n)))"

lemma cache_keys_row_key:
  assumes "k \<in> set (cache_keys r)" "no_colon (cf_dashboard r)" "no_colon (cf_metric r)" "k \<noteq> ''global''"
  shows "row_key k"
proof -
  have plain: "CHR '':'' \<notin> set (the (cf_dashboard r))" if "truthy_text (cf_dashboard r)"
    using that assms(2) by (auto simp: truthy_text_def no_colon_def)
  have name: "CHR '':'' \<notin> set (the (cf_metric r))" if "truthy_text (cf_metric r)"
    using that assms(3) by (auto simp: truthy_text_def no_colon_def)
  have panel: "\<exists>n > 0. show_nat (the (cf_panel r)) = show_nat n" if "truthy_panel (cf_panel r)"
    using that by (auto simp: truthy_panel_def)
  have dash: "the (cf_dashboard r) \<noteq> ''''" if "truthy_text (cf_dashboard r)"
    using that by (auto simp: truthy_text_def)
  from assms(1,4) consider
    (metric) "truthy_text (cf_dashboard r)" "truthy_panel (cf_panel r)" "truthy_text (cf_metric r)"
      "k = lookup_key (the (cf_dashboard r)) (show_nat (the (cf_panel r))) (the (cf_metric r))"
  | (panel) "truthy_text (cf_dashboard r)" "truthy_panel (cf_panel r)"
      "k = lookup_key (the (cf_dashboard r)) (show_nat (the (cf_panel r))) ''''"
  | (dashboard) "truthy_text (cf_dashboard r)" "k = lookup_key (the (cf_dashboard r)) '''' ''''"
    by (auto simp: cache_keys_def Let_def split: if_splits)
  then show ?thesis
  proof cases
    case metric
    then show ?thesis unfolding row_key_def using plain name panel dash by metis
  next
    case panel
    then show ?thesis unfolding row_key_def using plain \<open>truthy_panel (cf_panel r) \<Longrightarrow> _\<close> dash
      by (metis empty_iff empty_set)
  next
    case dashboard
    then show ?thesis unfolding row_key_def using plain dash by (metis empty_iff empty_set)
  qed
qed

text \<open>A join on a row key finds the entry stored under it, and nothing else.\<close>

lemma filter_key: "distinct (map fst xs) \<Longrightarrow>
  filter (\<lambda>e. fst e = k) xs = (case map_of xs k of None \<Rightarrow> [] | Some v \<Rightarrow> [(k, v)])"
proof (induction xs)
  case Nil
  then show ?case by simp
next
  case (Cons e xs)
  then show ?case
    by (cases e) (auto simp: stored split: option.split)
qed

lemma left_join_key:
  assumes "distinct (map fst cache)" "\<forall>e \<in> set cache. P e \<and> on (temp_row e) \<longleftrightarrow> fst e = k"
  shows "map (map_option tc_config) (left_join on (map temp_row (filter P cache))) = [map_of cache k]"
proof -
  have "filter (\<lambda>e. P e \<and> on (temp_row e)) cache = filter (\<lambda>e. fst e = k) cache"
    using assms(2) by (auto intro: filter_cong)
  then have "filter on (map temp_row (filter P cache)) = map temp_row (filter (\<lambda>e. fst e = k) cache)"
    by (simp add: filter_map comp_def conj_commute)
  then show ?thesis
    unfolding left_join_def filter_key [OF assms(1)]
    by (simp add: temp_row_def Let_def split: option.split)
qed

lemma not_reserved: "lookup_key d x y \<noteq> ''default'' \<and> lookup_key d x y \<noteq> ''global''"
proof -
  have "CHR '':'' \<in> set (lookup_key d x y)" by (simp add: lookup_key_def)
  moreover have "CHR '':'' \<notin> set ''default''" "CHR '':'' \<notin> set ''global''" by simp_all
  ultimately show ?thesis by metis
qed

lemma lookup_key_inj:
  assumes "CHR '':'' \<notin> set d" "CHR '':'' \<notin> set d'" "CHR '':'' \<notin> set p" "CHR '':'' \<notin> set p'"
  shows "lookup_key d p m = lookup_key d' p' m' \<longleftrightarrow> d = d' \<and> p = p' \<and> m = m'"
  using first_piece [of "CHR '':''" d d' "p @ CHR '':'' # m" "p' @ CHR '':'' # m'"]
    first_piece [of "CHR '':''" p p' m m'] assms
  by (auto simp: lookup_key_def)

lemma row_key_facts:
  assumes "row_key k" "d \<noteq> ''''" "CHR '':'' \<notin> set d" "m \<noteq> ''''" "0 < p"
  shows "k \<noteq> ''default'' \<and> k \<noteq> ''global''" "\<not> on_global (temp_row (k, c))"
    "on_metric d p m (temp_row (k, c)) \<longleftrightarrow> k = lookup_key d (show_nat p) m"
    "on_panel d p (temp_row (k, c)) \<longleftrightarrow> k = lookup_key d (show_nat p) ''''"
    "on_dashboard d (temp_row (k, c)) \<longleftrightarrow> k = lookup_key d '''' ''''"
proof -
  obtain d' q m' where k: "k = lookup_key d' q m'" and d': "d' \<noteq> ''''" "CHR '':'' \<notin> set d'" "CHR '':'' \<notin> set m'"
    and q: "q = '''' \<and> m' = '''' \<or> (\<exists>n > 0. q = show_nat n)"
    using assms(1) by (auto simp: row_key_def)
  have qc: "CHR '':'' \<notin> set q" using q digits_no_dot by auto
  note row = temp_row_key [OF d'(2) qc d'(3)]
  show "k \<noteq> ''default'' \<and> k \<noteq> ''global''" using not_reserved by (simp add: k)
  show "\<not> on_global (temp_row (k, c))" using d' by (simp add: k row on_global_def)
  have same: "lookup_key d' q m' = lookup_key d b e \<longleftrightarrow> d' = d \<and> q = b \<and> m' = e"
    if "CHR '':'' \<notin> set b" for b e
    using lookup_key_inj [OF d'(2) assms(3) qc that] .
  have sh: "show_nat n = show_nat p \<longleftrightarrow> n = p" for n using show_nat_inj by auto
  have ne: "[] \<noteq> show_nat p" using show_nat_ne [of p] by metis
  show "on_metric d p m (temp_row (k, c)) \<longleftrightarrow> k = lookup_key d (show_nat p) m"
    using q d' assms(2-5) unfolding k row same [OF digits_no_dot(2)]
    by (auto simp: on_metric_def digits_val_show_nat sh)
  show "on_panel d p (temp_row (k, c)) \<longleftrightarrow> k = lookup_key d (show_nat p) ''''"
    using q d' assms(2-5) unfolding k row same [OF digits_no_dot(2)]
    by (auto simp: on_panel_def digits_val_show_nat sh ne)
  show "on_dashboard d (temp_row (k, c)) \<longleftrightarrow> k = lookup_key d '''' ''''"
    using q d' assms(2-5) unfolding k row same [of "''''", simplified]
    by (auto simp: on_dashboard_def)
qed

text \<open>Which rows are stored under the three keys a metric is looked up with.\<close>

lemma stored_keys:
  assumes "no_colon (cf_dashboard r)" "d \<noteq> ''''" "CHR '':'' \<notin> set d" "m \<noteq> ''''" "0 < p"
  shows "lookup_key d (show_nat p) m \<in> set (cache_keys r)
      \<longleftrightarrow> cf_dashboard r = Some d \<and> cf_panel r = Some p \<and> cf_metric r = Some m"
    "lookup_key d (show_nat p) '''' \<in> set (cache_keys r)
      \<longleftrightarrow> cf_dashboard r = Some d \<and> cf_panel r = Some p \<and> \<not> truthy_text (cf_metric r)"
    "lookup_key d '''' '''' \<in> set (cache_keys r)
      \<longleftrightarrow> cf_dashboard r = Some d \<and> \<not> truthy_panel (cf_panel r)"
proof -
  note global = not_reserved [THEN conjunct2]
  have inj: "lookup_key d x y = lookup_key e x' y' \<longleftrightarrow> d = e \<and> x = x' \<and> y = y'"
    if "cf_dashboard r = Some e" "CHR '':'' \<notin> set x" "CHR '':'' \<notin> set x'" for e x y x' y'
    using lookup_key_inj [OF assms(3) _ that(2,3)] that(1) assms(1) by (simp add: no_colon_def)
  have sh: "show_nat n = show_nat p \<longleftrightarrow> n = p" "show_nat p = show_nat n \<longleftrightarrow> n = p" for n
    using show_nat_inj by auto
  have ne: "[] \<noteq> show_nat n" "show_nat n \<noteq> []" for n using show_nat_ne [of n] by metis+
  note simps = cache_keys_def Let_def global truthy_text_def truthy_panel_def digits_no_dot sh ne
  show "lookup_key d (show_nat p) m \<in> set (cache_keys r)
      \<longleftrightarrow> cf_dashboard r = Some d \<and> cf_panel r = Some p \<and> cf_metric r = Some m"
    using assms by (cases "cf_dashboard r") (auto simp: simps inj)
  show "lookup_key d (show_nat p) '''' \<in> set (cache_keys r)
      \<longleftrightarrow> cf_dashboard r = Some d \<and> cf_panel r = Some p \<and> \<not> truthy_text (cf_metric r)"
    using assms by (cases "cf_dashboard r") (auto simp: simps inj)
  show "lookup_key d '''' '''' \<in> set (cache_keys r)
      \<longleftrightarrow> cf_dashboard r = Some d \<and> \<not> truthy_panel (cf_panel r)"
    using assms by (cases "cf_dashboard r") (auto simp: simps inj)
qed

lemma cache_without_default:
  assumes "k \<noteq> ''default''"
  shows "map_of (fetchCompareConfigCache table sut env wl) k
    = map_option cf_data (find (\<lambda>r. k \<in> set (cache_keys r)) (select_configs table sut env wl))"
  using assms by (simp add: fetchCompareConfigCache_def cache_set_map store_rows_map split: option.split)

lemma cache_set_distinct: "distinct (map fst cache) \<Longrightarrow> distinct (map fst (cache_set cache k v))"
proof -
  have "map fst (map (\<lambda>e. if fst e = k then (k, v) else e) cache) = map fst cache"
    by (induction cache) auto
  then show "distinct (map fst cache) \<Longrightarrow> distinct (map fst (cache_set cache k v))"
    unfolding cache_set_def by (auto simp del: map_map)
qed

lemma cache_entries:
  assumes "e \<in> set (fetchCompareConfigCache table sut env wl)"
    and "\<forall>r \<in> set table. no_colon (cf_dashboard r) \<and> no_colon (cf_metric r)"
  shows "fst e = ''default'' \<or> fst e = ''global'' \<or> row_key (fst e)"
proof (cases "fst e = ''default''")
  case False
  have "fst e \<in> fst ` set (fetchCompareConfigCache table sut env wl)" using assms(1) by blast
  then obtain r where "find (\<lambda>r. fst e \<in> set (cache_keys r)) (select_configs table sut env wl) = Some r"
    unfolding stored cache_without_default [OF False] by auto
  then have "r \<in> set (select_configs table sut env wl)" "fst e \<in> set (cache_keys r)" using find_facts by fastforce+
  moreover from this(1) have "r \<in> set table" by (auto simp: select_configs_def)
  ultimately show ?thesis using cache_keys_row_key assms(2) by blast
qed simp

text \<open>The entries of a cache whose rows have no colons, and the joins on them.\<close>

definition plain_cache :: "config_cache \<Rightarrow> bool" where
  "plain_cache cache = (distinct (map fst cache)
     \<and> (\<forall>e \<in> set cache. fst e = ''default'' \<or> fst e = ''global'' \<or> row_key (fst e)))"

lemma fetched_plain:
  assumes "\<forall>r \<in> set table. no_colon (cf_dashboard r) \<and> no_colon (cf_metric r)"
  shows "plain_cache (fetchCompareConfigCache table sut env wl)"
  unfolding plain_cache_def using cache_entries [OF _ assms]
  by (simp add: fetchCompareConfigCache_def cache_set_distinct store_rows_distinct)

lemma join_lookup:
  assumes "plain_cache cache" "\<And>e. row_key (fst e) \<Longrightarrow> on (temp_row e) \<longleftrightarrow> fst e = lookup_key d x y"
  shows "map (map_option tc_config) (left_join on (createTempConfigCache cache)) = [map_of cache (lookup_key d x y)]"
  unfolding createTempConfigCache_def
proof (rule left_join_key)
  show "distinct (map fst cache)" using assms(1) by (simp add: plain_cache_def)
  show "\<forall>e \<in> set cache. (fst e \<noteq> ''default'' \<and> fst e \<noteq> ''global'') \<and> on (temp_row e) \<longleftrightarrow> fst e = lookup_key d x y"
    using assms(1,2) not_reserved [of d x y] unfolding plain_cache_def by metis
qed

lemma join_global:
  assumes "plain_cache cache"
  shows "left_join on_global (createTempConfigCache cache) = [None]"
proof -
  have "\<not> on_global (temp_row e)" if "row_key (fst e)" for e
    using row_key_facts(2) [OF that, of "''d''" "''m''" 1 "snd e"] by simp
  then have "filter on_global (createTempConfigCache cache) = []"
    using assms by (auto simp: plain_cache_def createTempConfigCache_def filter_empty_conv)
  then show ?thesis by (simp add: left_join_def)
qed

lemma with_single_matches:
  assumes "map (map_option tc_config) (left_join (on_metric d p m) temp) = [cm]"
    "map (map_option tc_config) (left_join (on_panel d p) temp) = [cp]"
    "map (map_option tc_config) (left_join (on_dashboard d) temp) = [cd]"
    "left_join on_global temp = [None]"
  shows "with_compare_config temp dflt d p m = [the (coalesce [cm, cp, cd, None, Some dflt])]"
  using assms unfolding with_compare_config_def by auto

lemma resolve_single:
  assumes "\<forall>r \<in> set table. no_colon (cf_dashboard r) \<and> no_colon (cf_metric r)"
    and "d \<noteq> ''''" "CHR '':'' \<notin> set d" "m \<noteq> ''''" "0 < p"
  shows "resolve_configs table sut env wl d p m = [resolution (select_configs table sut env wl) d p m]"
proof -
  define cache where "cache = fetchCompareConfigCache table sut env wl"
  define rows where "rows = select_configs table sut env wl"
  have plain: "plain_cache cache" unfolding cache_def by (rule fetched_plain [OF assms(1)])
  note facts = row_key_facts [OF _ assms(2-5)]
  have rows: "no_colon (cf_dashboard r)" if "r \<in> set rows" for r
    using that assms(1) by (simp add: rows_def select_configs_def)
  have found: "map_of cache (lookup_key d x y) = map_option cf_data (find P rows)"
    if P: "\<And>r. no_colon (cf_dashboard r) \<Longrightarrow> lookup_key d x y \<in> set (cache_keys r) \<longleftrightarrow> P r" for x y P
  proof -
    have "find (\<lambda>r. lookup_key d x y \<in> set (cache_keys r)) rows = find P rows"
      by (rule find_cong) (simp_all add: P rows)
    then show ?thesis
      by (simp add: cache_def rows_def cache_without_default not_reserved)
  qed
  have join: "map (map_option tc_config) (left_join on (createTempConfigCache cache)) = [map_option cf_data (find P rows)]"
    if on_key: "\<And>k c. row_key k \<Longrightarrow> on (temp_row (k, c)) \<longleftrightarrow> k = lookup_key d x y"
      and P: "\<And>r. no_colon (cf_dashboard r) \<Longrightarrow> lookup_key d x y \<in> set (cache_keys r) \<longleftrightarrow> P r" for on x y P
  proof -
    have "on (temp_row e) \<longleftrightarrow> fst e = lookup_key d x y" if "row_key (fst e)" for e
      using on_key [of "fst e" "snd e"] that by simp
    from join_lookup [OF plain this] show ?thesis using found [OF P] by simp
  qed
  note keys = stored_keys [OF _ assms(2-5)]
  note joins = join [OF facts(3) keys(1)] join [OF facts(4) keys(2)] join [OF facts(5) keys(3)]
  have "map_of cache ''default'' = Some DEFAULT_COMPARE_CONFIG"
    by (simp add: cache_def fetchCompareConfigCache_def cache_set_map)
  then show ?thesis
    unfolding resolve_configs_def Let_def cache_def [symmetric] rows_def [symmetric]
    by (simp add: with_single_matches [OF joins join_global [OF plain]] resolution_def coalesce_def split: option.split)
qed

text \<open>
  Which settings a metric is compared with. When no dashboard id and no metric name of the stored settings has a
  colon, the keys, the temporary table and the four joins come down to one answer: the first stored row for the metric
  itself, else for its panel, else for its dashboard, else the built-in default. There is always exactly one.
\<close>

theorem config_resolution:
  assumes "\<forall>r \<in> set table. no_colon (cf_dashboard r) \<and> no_colon (cf_metric r)"
    and "d \<noteq> ''''" "CHR '':'' \<notin> set d" "m \<noteq> ''''" "0 < p"
  shows "resolve_configs table sut env wl d p m = [resolution (select_configs table sut env wl) d p m]"
  by (rule resolve_single [OF assms])

definition demo_config :: "string option \<Rightarrow> rat \<Rightarrow> config_row" where
  "demo_config m pct =
     \<lparr>cf_system = ''shop'', cf_environment = Some ''acc'', cf_workload = ''load'',
      cf_dashboard = Some ''d1'', cf_panel = Some 12, cf_metric = m,
      cf_data = DEFAULT_COMPARE_CONFIG\<lparr>cc_thresholds := (cc_thresholds DEFAULT_COMPARE_CONFIG)\<lparr>th_percentage := Some pct\<rparr>\<rparr>\<rparr>"

definition demo_table :: "config_row list" where
  "demo_table = [demo_config None (1 / 2), demo_config (Some ''checkout'') (1 / 5)]"

theorem config_resolution_witness:
  "resolve_configs demo_table ''shop'' ''acc'' ''load'' ''d1'' 12 ''checkout'' = [cf_data (demo_config None (1 / 5))]
   \<and> resolve_configs demo_table ''shop'' ''acc'' ''load'' ''d1'' 12 ''cart'' = [cf_data (demo_config None (1 / 2))]
   \<and> resolve_configs demo_table ''shop'' ''acc'' ''load'' ''d1'' 7 ''cart'' = [DEFAULT_COMPARE_CONFIG]"
proof -
  note defs = demo_table_def demo_config_def no_colon_def select_configs_def specificity_def resolution_def truthy_text_def truthy_panel_def
  have "resolve_configs demo_table ''shop'' ''acc'' ''load'' ''d1'' p m
      = [resolution (select_configs demo_table ''shop'' ''acc'' ''load'') ''d1'' p m]" if "m \<noteq> ''''" "0 < p" for p m
    by (rule config_resolution [OF _ _ _ that]) (simp_all add: defs)
  then show ?thesis by (simp add: defs)
qed

text \<open>
  A metric name with a colon is cut at the colon on its way through the temporary table: settings for \<open>a:b\<close> and for
  \<open>a:c\<close> both become settings for \<open>a\<close>, and the row of metric \<open>a\<close> is doubled. Settings for a whole system are stored
  under \<open>global\<close> and dropped.
\<close>

lemma colon_doubles_row:
  "map (\<lambda>c. th_percentage (cc_thresholds c)) (resolve_configs [demo_config (Some ''a:b'') (1 / 2), demo_config (Some ''a:c'') (1 / 5)]
     ''shop'' ''acc'' ''load'' ''d1'' 12 ''a'') = [Some (1 / 2), Some (1 / 5)]"
  by code_simp

lemma global_config_dropped:
  "resolve_configs [(demo_config None (1 / 2))\<lparr>cf_dashboard := None, cf_panel := None\<rparr>] ''shop'' ''acc'' ''load'' ''d1'' 12 ''a''
     = [DEFAULT_COMPARE_CONFIG]"
  by code_simp

end
