(* ===== verification/AdaptResults.thy ===== *)
theory AdaptResults
  imports AdaptConfig
begin

text \<open>
  Comparing one metric of a test run with its control group: the statement of
  \<open>helpers/adapt/results/sql-builder.ts\<close> with the fragments of \<open>helpers/adapt/results/sql-fragments.ts\<close>.
  \<open>tracked-results-sql-builder.ts\<close> carries its own copy of the fragments, which reads the same.

  A column is an option, \<open>None\<close> the SQL null; numbers are rationals (no rounding, no infinities). The conditions of the
  statement only combine null tests and comparisons guarded by them, so they are two-valued. A JSON object is a record.
  The descriptive columns of a metric (labels, titles, units, owners, time stamps) are copied along and left out.
\<close>

section \<open>Rows\<close>

record metric_stats =
  st_mean :: "rat option"
  st_median :: "rat option"
  st_min :: "rat option"
  st_max :: "rat option"
  st_std :: "rat option"
  st_last :: "rat option"
  st_q10 :: "rat option"
  st_q25 :: "rat option"
  st_q75 :: "rat option"
  st_q90 :: "rat option"
  st_q95 :: "rat option"
  st_q99 :: "rat option"
  st_iqr :: "rat option"
  st_count :: "int option"
  st_is_constant :: "bool option"
  st_all_missing :: "bool option"

text \<open>A row of \<open>ds_metric_statistics\<close>, and one of \<open>ds_control_group_statistics\<close>.\<close>

record metric_row =
  ms_test_run_id :: string
  ms_dashboard :: string
  ms_panel :: nat
  ms_metric :: string
  ms_source :: "string option"
  ms_stats :: metric_stats

record control_row =
  cg_control_group_id :: string
  cg_panel :: nat
  cg_metric :: string
  cg_source :: "string option"
  cg_stats :: metric_stats

section \<open>The compared value and the sample floor\<close>

text \<open>\<open>adaptMinSampleCount\<close>: the environment variable, or \<open>None\<close> when it is not set.\<close>

definition adaptMinSampleCount :: "string option \<Rightarrow> rat" where
  "adaptMinSampleCount env =
     (case env of None \<Rightarrow> 2
      | Some s \<Rightarrow> (case js_Number s of JFin n \<Rightarrow> (if of_int \<lfloor>n\<rfloor> = n \<and> 1 \<le> n then n else 2) | _ \<Rightarrow> 2))"

definition sample_floor :: "rat \<Rightarrow> compare_config \<Rightarrow> rat" where
  "sample_floor env_floor c =
     max 1 (case th_minSampleCount (cc_thresholds c) of Some q \<Rightarrow> of_int \<lfloor>q\<rfloor> | None \<Rightarrow> env_floor)"

definition count_of :: "metric_stats option \<Rightarrow> int" where
  "count_of s = (case Option.bind s st_count of Some n \<Rightarrow> n | None \<Rightarrow> 0)"

text \<open>\<open>control\<close> is the joined control row, if there is one.\<close>

definition control_exists :: "rat \<Rightarrow> compare_config \<Rightarrow> metric_stats \<Rightarrow> metric_stats option \<Rightarrow> bool" where
  "control_exists env_floor c test control =
     (control \<noteq> None
      \<and> of_int (count_of (Some test)) \<ge> sample_floor env_floor c
      \<and> of_int (count_of control) \<ge> sample_floor env_floor c)"

definition stat_value :: "string option \<Rightarrow> metric_stats \<Rightarrow> rat option" where
  "stat_value aggregation s =
     (case aggregation of None \<Rightarrow> st_median s
      | Some a \<Rightarrow>
         if a = ''mean'' then st_mean s
         else if a = ''median'' then st_median s
         else if a = ''min'' then st_min s
         else if a = ''max'' then st_max s
         else if a = ''last'' then st_last s
         else if a = ''q10'' \<or> a = ''p10'' then st_q10 s
         else if a = ''q25'' \<or> a = ''p25'' then st_q25 s
         else if a = ''q75'' \<or> a = ''p75'' then st_q75 s
         else if a = ''q90'' \<or> a = ''p90'' then st_q90 s
         else if a = ''q95'' \<or> a = ''p95'' then st_q95 s
         else if a = ''q99'' \<or> a = ''p99'' then st_q99 s
         else st_median s)"

text \<open>The row of \<open>with_dynamic_statistics\<close>: what the later steps read of it.\<close>

record compared =
  cp_config :: compare_config
  cp_exists :: bool
  cp_test :: "rat option"
  cp_control :: "rat option"
  cp_control_iqr :: "rat option"

definition compared_of :: "rat \<Rightarrow> compare_config \<Rightarrow> metric_stats \<Rightarrow> metric_stats option \<Rightarrow> compared" where
  "compared_of env_floor c test control =
     (let a = th_aggregation (cc_thresholds c) in
      \<lparr>cp_config = c, cp_exists = control_exists env_floor c test control,
       cp_test = stat_value a test, cp_control = Option.bind control (stat_value a),
       cp_control_iqr = Option.bind control st_iqr\<rparr>)"

section \<open>Bands and checks\<close>

record band =
  bd_pct :: "rat option"
  bd_iqr :: "rat option"
  bd_abs :: "rat option"
  bd_constant :: rat
  bd_overall :: "rat option"

text \<open>\<open>GREATEST\<close> and \<open>LEAST\<close> skip nulls.\<close>

definition present :: "'a option list \<Rightarrow> 'a list" where
  "present xs = map the (filter (\<lambda>x. x \<noteq> None) xs)"

definition greatest :: "rat option list \<Rightarrow> rat option" where
  "greatest xs = (case present xs of [] \<Rightarrow> None | y # ys \<Rightarrow> Some (foldl max y ys))"

definition least :: "rat option list \<Rightarrow> rat option" where
  "least xs = (case present xs of [] \<Rightarrow> None | y # ys \<Rightarrow> Some (foldl min y ys))"

definition pct_threshold :: "compared \<Rightarrow> rat option" where
  "pct_threshold w = th_percentage (cc_thresholds (cp_config w))"

definition iqr_threshold :: "compared \<Rightarrow> rat option" where
  "iqr_threshold w = th_iqr (cc_thresholds (cp_config w))"

definition abs_threshold :: "compared \<Rightarrow> rat option" where
  "abs_threshold w = th_absolute (cc_thresholds (cp_config w))"

definition upper_band :: "compared \<Rightarrow> rat \<Rightarrow> band" where
  "upper_band w control =
     (let pct = map_option (\<lambda>t. control * (1 + t)) (pct_threshold w);
          iqr = (case (cp_control_iqr w, iqr_threshold w) of (Some i, Some t) \<Rightarrow> Some (control + i * t) | _ \<Rightarrow> None);
          ab = map_option (\<lambda>t. control + t) (abs_threshold w) in
      \<lparr>bd_pct = pct, bd_iqr = iqr, bd_abs = ab, bd_constant = control, bd_overall = greatest [pct, iqr, ab]\<rparr>)"

definition lower_band :: "compared \<Rightarrow> rat \<Rightarrow> band" where
  "lower_band w control =
     (let pct = map_option (\<lambda>t. control * (1 - t)) (pct_threshold w);
          iqr = (case (cp_control_iqr w, iqr_threshold w) of (Some i, Some t) \<Rightarrow> Some (control - i * t) | _ \<Rightarrow> None);
          ab = map_option (\<lambda>t. control - t) (abs_threshold w) in
      \<lparr>bd_pct = pct, bd_iqr = iqr, bd_abs = ab, bd_constant = control, bd_overall = least [pct, iqr, ab]\<rparr>)"

text \<open>\<open>None\<close> stands for the two empty objects written without a control value.\<close>

definition thresholds_json :: "compared \<Rightarrow> (band \<times> band) option" where
  "thresholds_json w = map_option (\<lambda>c. (upper_band w c, lower_band w c)) (cp_control w)"

record check =
  ck_valid :: bool
  ck_isDifference :: bool

record checks =
  cs_pct :: check
  cs_iqr :: check
  cs_abs :: check

definition pct_check :: "compared \<Rightarrow> check" where
  "pct_check w =
     (case (cp_test w, cp_control w) of
        (Some t, Some c) \<Rightarrow>
          \<lparr>ck_valid = cp_exists w,
           ck_isDifference = (case pct_threshold w of Some p \<Rightarrow> cp_exists w \<and> (t > c * (1 + p) \<or> t < c * (1 - p))
                              | None \<Rightarrow> False)\<rparr>
      | _ \<Rightarrow> \<lparr>ck_valid = False, ck_isDifference = False\<rparr>)"

definition iqr_check :: "compared \<Rightarrow> check" where
  "iqr_check w =
     (case (cp_test w, cp_control w, cp_control_iqr w) of
        (Some t, Some c, Some i) \<Rightarrow>
          \<lparr>ck_valid = (cp_exists w \<and> i \<noteq> 0),
           ck_isDifference = (case iqr_threshold w of
                                Some k \<Rightarrow> cp_exists w \<and> i \<noteq> 0 \<and> (t > c + i * k \<or> t < c - i * k)
                              | None \<Rightarrow> False)\<rparr>
      | _ \<Rightarrow> \<lparr>ck_valid = False, ck_isDifference = False\<rparr>)"

definition abs_check :: "compared \<Rightarrow> check" where
  "abs_check w =
     (case (cp_test w, cp_control w, abs_threshold w) of
        (Some t, Some c, Some a) \<Rightarrow> \<lparr>ck_valid = cp_exists w, ck_isDifference = (cp_exists w \<and> \<bar>t - c\<bar> > a)\<rparr>
      | _ \<Rightarrow> \<lparr>ck_valid = False, ck_isDifference = False\<rparr>)"

definition checks_of :: "compared \<Rightarrow> checks" where
  "checks_of w = \<lparr>cs_pct = pct_check w, cs_iqr = iqr_check w, cs_abs = abs_check w\<rparr>"

section \<open>The conclusion\<close>

datatype label =
    Incomparable | Ignored
  | Increase | Decrease | Improvement | Regression
  | PartialIncrease | PartialDecrease | PartialImprovement | PartialRegression
  | NoDifference

record conclusion =
  cn_valid :: bool
  cn_increase :: bool
  cn_decrease :: bool
  cn_partialDifference :: bool
  cn_allDifference :: bool
  cn_ignore :: bool
  cn_label :: label

definition partialDifference :: "checks \<Rightarrow> bool" where
  "partialDifference k = (ck_isDifference (cs_pct k) \<or> ck_isDifference (cs_iqr k) \<or> ck_isDifference (cs_abs k))"

definition unless_invalid :: "check \<Rightarrow> bool" where
  "unless_invalid k = (if ck_valid k then ck_isDifference k else True)"

definition allDifference :: "checks \<Rightarrow> bool" where
  "allDifference k = (ck_isDifference (cs_pct k) \<and> unless_invalid (cs_iqr k) \<and> unless_invalid (cs_abs k))"

definition ignored :: "compare_config \<Rightarrow> bool" where
  "ignored c = (cc_ignore c = Some True)"

text \<open>Comparisons of the two values; with a null the comparison is not true.\<close>

definition sql_gt :: "rat option \<Rightarrow> rat option \<Rightarrow> bool" where
  "sql_gt x y = (case (x, y) of (Some a, Some b) \<Rightarrow> a > b | _ \<Rightarrow> False)"

definition full_label :: "bool option \<Rightarrow> rat option \<Rightarrow> rat option \<Rightarrow> label" where
  "full_label higherIsBetter test control =
     (case higherIsBetter of
        None \<Rightarrow> (if sql_gt test control then Increase else Decrease)
      | Some True \<Rightarrow> (if sql_gt test control then Improvement else Regression)
      | Some False \<Rightarrow> (if sql_gt control test then Improvement else Regression))"

definition partial_label :: "bool option \<Rightarrow> rat option \<Rightarrow> rat option \<Rightarrow> label" where
  "partial_label higherIsBetter test control =
     (case higherIsBetter of
        None \<Rightarrow> (if sql_gt test control then PartialIncrease else PartialDecrease)
      | Some True \<Rightarrow> (if sql_gt test control then PartialImprovement else PartialRegression)
      | Some False \<Rightarrow> (if sql_gt control test then PartialImprovement else PartialRegression))"

definition label_of :: "compared \<Rightarrow> label" where
  "label_of w =
     (let k = checks_of w; h = cc_higherIsBetter (cp_config w) in
      if \<not> (cp_exists w \<and> cp_test w \<noteq> None) then Incomparable
      else if ignored (cp_config w) then Ignored
      else if allDifference k then full_label h (cp_test w) (cp_control w)
      else if partialDifference k then partial_label h (cp_test w) (cp_control w)
      else NoDifference)"

definition conclusion_of :: "compared \<Rightarrow> conclusion" where
  "conclusion_of w =
     \<lparr>cn_valid = (cp_exists w \<and> cp_test w \<noteq> None),
      cn_increase = sql_gt (cp_test w) (cp_control w),
      cn_decrease = sql_gt (cp_control w) (cp_test w),
      cn_partialDifference = partialDifference (checks_of w),
      cn_allDifference = allDifference (checks_of w),
      cn_ignore = ignored (cp_config w),
      cn_label = label_of w\<rparr>"

section \<open>The stored statistics\<close>

text \<open>\<open>statistic\<close> (numbers, where the column holds their text) and one column of \<open>buildStatisticsColumns\<close>.\<close>

record diff_json =
  dj_test :: "rat option"
  dj_control :: "rat option"
  dj_diff :: "rat option"
  dj_absDiff :: "rat option"
  dj_pctDiff :: "rat option"
  dj_iqrDiff :: "rat option"

definition both :: "(rat \<Rightarrow> rat \<Rightarrow> rat) \<Rightarrow> rat option \<Rightarrow> rat option \<Rightarrow> rat option" where
  "both f x y = (case (x, y) of (Some a, Some b) \<Rightarrow> Some (f a b) | _ \<Rightarrow> None)"

definition stat_column :: "rat option \<Rightarrow> rat option \<Rightarrow> rat option \<Rightarrow> diff_json" where
  "stat_column iqr test control =
     \<lparr>dj_test = test, dj_control = control,
      dj_diff = both (\<lambda>t c. t - c) test control,
      dj_absDiff = both (\<lambda>t c. \<bar>t - c\<bar>) test control,
      dj_pctDiff = (if control = Some 0 then None else both (\<lambda>t c. (t - c) / c) test control),
      dj_iqrDiff = (case iqr of None \<Rightarrow> None
                    | Some i \<Rightarrow> if i = 0 then None else both (\<lambda>t c. (t - c) / i) test control)\<rparr>"

text \<open>\<open>statistic\<close> has no \<open>iqrDiff\<close>.\<close>

definition statistic_json :: "compared \<Rightarrow> diff_json" where
  "statistic_json w = (stat_column None (cp_test w) (cp_control w))"

section \<open>What the labels mean\<close>

lemma outside_pct: "t > c * (1 + p) \<or> t < c * (1 - p) \<longleftrightarrow> \<bar>t - c\<bar> > c * p" for t c p :: rat
  by (simp add: abs_if algebra_simps) linarith

lemma outside_iqr: "t > c + i * k \<or> t < c - i * k \<longleftrightarrow> \<bar>t - c\<bar> > i * k" for t c i k :: rat
  by (simp add: abs_if) linarith

definition beyond_pct :: "compared \<Rightarrow> rat \<Rightarrow> rat \<Rightarrow> bool" where
  "beyond_pct w t c = (case pct_threshold w of Some p \<Rightarrow> \<bar>t - c\<bar> > c * p | None \<Rightarrow> False)"

definition beyond_iqr :: "compared \<Rightarrow> rat \<Rightarrow> rat \<Rightarrow> bool" where
  "beyond_iqr w t c =
     (case cp_control_iqr w of None \<Rightarrow> True
      | Some i \<Rightarrow> i = 0 \<or> (case iqr_threshold w of Some k \<Rightarrow> \<bar>t - c\<bar> > i * k | None \<Rightarrow> False))"

definition beyond_abs :: "compared \<Rightarrow> rat \<Rightarrow> rat \<Rightarrow> bool" where
  "beyond_abs w t c = (case abs_threshold w of Some a \<Rightarrow> \<bar>t - c\<bar> > a | None \<Rightarrow> True)"

lemma allDifference_iff:
  assumes "cp_test w = Some t" "cp_control w = Some c" "cp_exists w"
  shows "allDifference (checks_of w) \<longleftrightarrow> beyond_pct w t c \<and> beyond_iqr w t c \<and> beyond_abs w t c"
  using assms
  by (simp add: allDifference_def checks_of_def unless_invalid_def pct_check_def iqr_check_def abs_check_def
      beyond_pct_def beyond_iqr_def beyond_abs_def outside_pct outside_iqr split: option.split)

lemma partialDifference_iff:
  assumes "cp_test w = Some t" "cp_control w = Some c" "cp_exists w"
  shows "partialDifference (checks_of w) \<longleftrightarrow> beyond_pct w t c
     \<or> (\<exists>i k. cp_control_iqr w = Some i \<and> i \<noteq> 0 \<and> iqr_threshold w = Some k \<and> \<bar>t - c\<bar> > i * k)
     \<or> (\<exists>a. abs_threshold w = Some a \<and> \<bar>t - c\<bar> > a)"
  using assms
  by (auto simp: partialDifference_def checks_of_def pct_check_def iqr_check_def abs_check_def
      beyond_pct_def outside_pct outside_iqr split: option.split)

lemma no_values_no_difference:
  assumes "cp_test w = None \<or> cp_control w = None \<or> \<not> cp_exists w"
  shows "\<not> allDifference (checks_of w)" "\<not> partialDifference (checks_of w)"
  using assms by (auto simp: allDifference_def partialDifference_def checks_of_def pct_check_def iqr_check_def
      abs_check_def split: option.split)

lemma label_simps:
  assumes "cp_test w = Some t" "cp_control w = Some c"
  shows "label_of w = Regression \<longleftrightarrow> cp_exists w \<and> \<not> ignored (cp_config w) \<and> allDifference (checks_of w)
     \<and> (cc_higherIsBetter (cp_config w) = Some True \<and> \<not> t > c \<or> cc_higherIsBetter (cp_config w) = Some False \<and> \<not> t < c)"
  using assms by (auto simp: label_of_def full_label_def partial_label_def sql_gt_def Let_def split: option.split bool.split)


text \<open>
  The band shown to the user. For non-negative controls, ranges and thresholds with a percentage and a range
  multiple configured, a metric gets a full label exactly when its value lies outside the stored overall band, the
  widest of the three.
\<close>

theorem overall_band_verdict:
  assumes "cp_test w = Some t" "cp_control w = Some c" "cp_exists w" "pct_threshold w = Some p" "0 \<le> c" "0 \<le> p"
    and iqr: "\<forall>i. cp_control_iqr w = Some i \<longrightarrow> 0 \<le> i" "iqr_threshold w = Some k" "0 \<le> k"
    and ab: "\<forall>a. abs_threshold w = Some a \<longrightarrow> 0 \<le> a"
  shows "\<exists>hi lo u l. thresholds_json w = Some (u, l) \<and> bd_overall u = Some hi \<and> bd_overall l = Some lo
     \<and> lo \<le> c \<and> c \<le> hi \<and> (allDifference (checks_of w) \<longleftrightarrow> t > hi \<or> t < lo)"
proof -
  have pos: "0 \<le> c * p" using assms(5,6) by simp
  define wi where "wi = (case cp_control_iqr w of Some i \<Rightarrow> i * k | None \<Rightarrow> 0)"
  define wa where "wa = (case abs_threshold w of Some a \<Rightarrow> a | None \<Rightarrow> 0)"
  define m where "m = max (c * p) (max wi wa)"
  have wi: "0 \<le> wi" and wa: "0 \<le> wa"
    using iqr ab by (auto simp: wi_def wa_def split: option.split)
  have all: "allDifference (checks_of w) \<longleftrightarrow> \<bar>t - c\<bar> > m"
    unfolding allDifference_iff [OF assms(1-3)] m_def wi_def wa_def
    using pos iqr(2,3) by (auto simp: beyond_pct_def beyond_iqr_def beyond_abs_def assms(4) split: option.splits)
  have hi: "bd_overall (upper_band w c) = Some (c + m)"
    using pos wi wa unfolding m_def wi_def wa_def
    by (cases "cp_control_iqr w"; cases "abs_threshold w")
      (auto simp: upper_band_def Let_def greatest_def present_def assms(4) iqr(2) distrib_left max_def)
  have lo: "bd_overall (lower_band w c) = Some (c - m)"
    using pos wi wa unfolding m_def wi_def wa_def
    by (cases "cp_control_iqr w"; cases "abs_threshold w")
      (auto simp: lower_band_def Let_def least_def present_def assms(4) iqr(2) right_diff_distrib max_def min_def)
  have "thresholds_json w = Some (upper_band w c, lower_band w c)" by (simp add: thresholds_json_def assms(2))
  moreover have "0 \<le> m" using pos by (simp add: m_def)
  moreover have "\<bar>t - c\<bar> > m \<longleftrightarrow> t > c + m \<or> t < c - m" using \<open>0 \<le> m\<close> by (simp add: abs_if) linarith
  ultimately show ?thesis
    using hi lo all by (intro exI [of _ "c + m"] exI [of _ "c - m"] exI [of _ "upper_band w c"] exI [of _ "lower_band w c"]) simp
qed

text \<open>Widening the thresholds of a metric: each is raised, or the absolute one is added.\<close>

definition le_some :: "rat option \<Rightarrow> rat option \<Rightarrow> bool" where
  "le_some x y = (case (x, y) of (Some a, Some b) \<Rightarrow> a \<le> b | _ \<Rightarrow> False)"

definition wider :: "compared \<Rightarrow> compared \<Rightarrow> bool" where
  "wider w' w =
     (le_some (pct_threshold w) (pct_threshold w') \<and> le_some (iqr_threshold w) (iqr_threshold w')
    \<and> (abs_threshold w = None \<or> le_some (abs_threshold w) (abs_threshold w'))
    \<and> cp_test w' = cp_test w \<and> cp_control w' = cp_control w \<and> cp_control_iqr w' = cp_control_iqr w
    \<and> cp_exists w' = cp_exists w \<and> ignored (cp_config w') = ignored (cp_config w)
    \<and> cc_higherIsBetter (cp_config w') = cc_higherIsBetter (cp_config w))"

text \<open>
  Wider thresholds never create a regression. A metric that regresses under wider thresholds regresses under the
  narrower ones.
\<close>

theorem regression_monotone:
  assumes "wider w' w" "label_of w' = Regression" "cp_control w = Some c" "0 \<le> c"
    and "\<forall>i. cp_control_iqr w = Some i \<longrightarrow> 0 \<le> i"
  shows "label_of w = Regression"
proof -
  note same = assms(1) [unfolded wider_def]
  obtain p p' where p: "pct_threshold w = Some p" "pct_threshold w' = Some p'" "p \<le> p'"
    using same by (auto simp: le_some_def split: option.splits)
  obtain k k' where k: "iqr_threshold w = Some k" "iqr_threshold w' = Some k'" "k \<le> k'"
    using same by (auto simp: le_some_def split: option.splits)
  from assms(2) obtain t where t: "cp_test w' = Some t" by (auto simp: label_of_def Let_def split: if_splits)
  have w: "cp_test w = Some t" "cp_control w' = Some c" using same t assms(3) by simp_all
  have reg: "cp_exists w'" "allDifference (checks_of w')" "\<not> ignored (cp_config w')"
    using assms(2) unfolding label_simps [OF t w(2)] by simp_all
  have ex: "cp_exists w" using reg same by simp
  have beyond: "beyond_pct w' t c" "beyond_iqr w' t c" "beyond_abs w' t c"
    using reg(2) unfolding allDifference_iff [OF t w(2) reg(1)] by simp_all
  have "c * p \<le> c * p'" using p(3) assms(4) by (rule mult_left_mono)
  with beyond(1) have "beyond_pct w t c" by (simp add: beyond_pct_def p)
  moreover have "beyond_iqr w t c"
  proof (cases "cp_control_iqr w")
    case (Some i)
    then have "i * k \<le> i * k'" using k(3) assms(5) by (simp add: mult_left_mono)
    with beyond(2) Some same k show ?thesis by (auto simp: beyond_iqr_def)
  qed (simp add: beyond_iqr_def)
  moreover have "beyond_abs w t c"
    using beyond(3) same by (auto simp: beyond_abs_def le_some_def split: option.splits)
  ultimately have "allDifference (checks_of w)" using allDifference_iff [OF w(1) assms(3) ex] by simp
  then show ?thesis
    using assms(2) same ex unfolding label_simps [OF t w(2)] label_simps [OF w(1) assms(3)] by simp
qed

text \<open>Turning the direction of a metric around.\<close>

definition flip :: "compared \<Rightarrow> compared" where
  "flip w = w\<lparr>cp_config := (cp_config w)\<lparr>cc_higherIsBetter := map_option Not (cc_higherIsBetter (cp_config w))\<rparr>\<rparr>"

fun mirror :: "label \<Rightarrow> label" where
  "mirror Improvement = Regression"
| "mirror Regression = Improvement"
| "mirror PartialImprovement = PartialRegression"
| "mirror PartialRegression = PartialImprovement"
| "mirror l = l"

lemma flip_simps [simp]:
  "cp_test (flip w) = cp_test w" "cp_control (flip w) = cp_control w" "cp_exists (flip w) = cp_exists w"
  "ignored (cp_config (flip w)) = ignored (cp_config w)"
  "cc_higherIsBetter (cp_config (flip w)) = map_option Not (cc_higherIsBetter (cp_config w))"
  "cp_control_iqr (flip w) = cp_control_iqr w"
  "pct_threshold (flip w) = pct_threshold w" "iqr_threshold (flip w) = iqr_threshold w" "abs_threshold (flip w) = abs_threshold w"
  by (simp_all add: flip_def ignored_def pct_threshold_def iqr_threshold_def abs_threshold_def)

lemma flip_checks [simp]: "checks_of (flip w) = checks_of w"
  by (simp add: checks_of_def pct_check_def iqr_check_def abs_check_def split: option.split)

text \<open>
  The direction of a metric only names the change. For values that differ, turning \<open>higherIsBetter\<close> around swaps
  improvements and regressions, full and partial, and leaves every other label as it was.
\<close>

theorem direction_mirrors:
  assumes "cp_test w = Some t" "cp_control w = Some c" "t \<noteq> c"
  shows "label_of (flip w) = mirror (label_of w)"
proof -
  have "t > c \<or> t < c" "\<not> (t > c \<and> t < c)" using assms(3) by auto
  then show ?thesis
    using assms(1,2)
    by (cases "cc_higherIsBetter (cp_config w)" rule: option.exhaust)
      (auto simp: label_of_def Let_def full_label_def partial_label_def sql_gt_def split: bool.splits)
qed

text \<open>A demonstration: a response time of 120 ms against 100 ms.\<close>

definition demo_stats :: "rat \<Rightarrow> rat \<Rightarrow> metric_stats" where
  "demo_stats v i =
     \<lparr>st_mean = Some v, st_median = Some v, st_min = Some v, st_max = Some v, st_std = Some 0, st_last = Some v,
      st_q10 = Some v, st_q25 = Some v, st_q75 = Some v, st_q90 = Some v, st_q95 = Some v, st_q99 = Some v,
      st_iqr = Some i, st_count = Some 40, st_is_constant = Some False, st_all_missing = Some False\<rparr>"

definition lower_is_better :: compare_config where
  "lower_is_better = DEFAULT_COMPARE_CONFIG\<lparr>cc_higherIsBetter := Some False\<rparr>"

definition demo_compared :: "rat \<Rightarrow> rat \<Rightarrow> compared" where
  "demo_compared t c = compared_of 2 lower_is_better (demo_stats t 5) (Some (demo_stats c 5))"

lemmas demo_defs = demo_compared_def compared_of_def lower_is_better_def DEFAULT_COMPARE_CONFIG_def demo_stats_def
  stat_value_def control_exists_def count_of_def sample_floor_def ignored_def
  pct_threshold_def iqr_threshold_def abs_threshold_def


theorem overall_band_verdict_witness:
  "\<exists>hi lo u l. thresholds_json (demo_compared 120 100) = Some (u, l) \<and> bd_overall u = Some hi \<and> bd_overall l = Some lo
     \<and> lo \<le> 100 \<and> 100 \<le> hi \<and> (allDifference (checks_of (demo_compared 120 100)) \<longleftrightarrow> (120::rat) > hi \<or> 120 < lo)"
  by (rule overall_band_verdict [where p = "15 / 100" and k = 2]) (simp_all add: demo_defs Let_def)

definition with_percentage :: "rat \<Rightarrow> compared \<Rightarrow> compared" where
  "with_percentage p w = w\<lparr>cp_config := (cp_config w)\<lparr>cc_thresholds := (cc_thresholds (cp_config w))\<lparr>th_percentage := Some p\<rparr>\<rparr>\<rparr>"

theorem regression_monotone_witness: "label_of (with_percentage (1 / 10) (demo_compared 120 100)) = Regression"
proof (rule regression_monotone [where w' = "demo_compared 120 100" and c = 100])
  show "wider (demo_compared 120 100) (with_percentage (1 / 10) (demo_compared 120 100))"
    by (simp add: wider_def le_some_def with_percentage_def demo_defs Let_def)
  show "label_of (demo_compared 120 100) = Regression" by code_simp
qed (simp_all add: with_percentage_def demo_defs Let_def)

theorem direction_mirrors_witness: "label_of (flip (demo_compared 120 100)) = Improvement"
  using direction_mirrors [of "demo_compared 120 100" 120 100]
  by (simp add: demo_compared_def) code_simp

text \<open>
  Two cases the theorems exclude. For a negative control the percentage band is turned inside out, so that a value that
  did not change at all is a regression; and a metric whose settings lack a range multiple never gets a full label while
  its control has a quartile range.
\<close>

lemma unchanged_negative_value_regresses:
  "label_of (compared_of 2 lower_is_better (demo_stats (-5) 0) (Some (demo_stats (-5) 0))) = Regression"
  by code_simp

lemma no_iqr_threshold_never_full:
  assumes "iqr_threshold w = None" "cp_control_iqr w = Some i" "i \<noteq> 0"
  shows "label_of w \<noteq> Regression"
proof
  assume reg: "label_of w = Regression"
  then obtain t where t: "cp_test w = Some t" by (auto simp: label_of_def Let_def split: if_splits)
  from reg have all: "cp_exists w" "allDifference (checks_of w)"
    by (auto simp: label_of_def Let_def partial_label_def split: if_splits option.splits bool.splits)
  then obtain c where c: "cp_control w = Some c" using no_values_no_difference(1) [of w] by (cases "cp_control w") auto
  from all(2) allDifference_iff [OF t c all(1)] assms show False by (simp add: beyond_iqr_def)
qed

end
