(* ===== verification/AdaptRun.thy ===== *)
theory AdaptRun
  imports AdaptResults
begin

text \<open>
  The statements of an anomaly analysis on the tables they read and write: writing and pruning the results
  (\<open>helpers/adapt/results-processor.ts\<close> with \<open>results/sql-builder.ts\<close> and \<open>control-group-processor.ts\<close>), judging
  the regressions of earlier runs again (\<open>results/tracked-results-sql-builder.ts\<close>), the verdict of a run
  (\<open>buildConclusionSQL\<close>) and its final status (\<open>results/status-updater.ts\<close>).

  A table is the list of its rows in scan order; a statement that raises is \<open>Inl\<close> of the error. A fresh \<open>uuid\<close> is a
  number no row of the table has. Log lines, time stamps and owners are left out.
\<close>

section \<open>Tables\<close>

record run_row =
  rn_id :: string
  rn_system :: string
  rn_environment :: string
  rn_workload :: string
  rn_ramp_up :: "int option"
  rn_duration :: "int option"
  rn_mode :: "string option"
  rn_accepted :: "string option"
  rn_evaluatingAdapt :: "string option"
  rn_meetsRequirement :: "bool option"
  rn_adaptTestRunOK :: "bool option"
  rn_overall :: "bool option"

record result_row =
  ar_id :: nat
  ar_test_run_id :: string
  ar_control_group_id :: string
  ar_dashboard :: string
  ar_panel :: nat
  ar_metric :: string
  ar_source :: "string option"
  ar_compared :: compared
  ar_statistic :: diff_json
  ar_thresholds :: "(band \<times> band) option"
  ar_checks :: checks
  ar_conclusion :: conclusion

record tracked_row = result_row +
  tr_tracked_run :: string
  tr_tracked_difference :: nat
  tr_tracked_conclusion :: conclusion

datatype verdict = SKIPPED | REGRESSION | PASSED | INSUFFICIENT_DATA

datatype cause = Changepoint | RunTooShort | MetricsSourceMismatch | BaselineAggregationFailed | BaselineInsufficientData

datatype details =
    Counts (totalResults: nat) (regressionCount: nat) (improvementCount: nat) (differenceCount: nat)
      (noDifferenceCount: nat) (incomparableCount: nat) (trackedRegressionCount: nat)
  | Excluded (excluded_cause: cause) (controlRuns: "string list")

record conclusion_row =
  co_test_run_id :: string
  co_control_group_id :: string
  co_regressions :: "nat list"
  co_improvements :: "nat list"
  co_differences :: "nat list"
  co_tracked_regressions :: "nat list"
  co_conclusion :: verdict
  co_details :: details

record control_group =
  gr_id :: string
  gr_test_runs :: "string list"

record adapt_db =
  ad_runs :: "run_row list"
  ad_stats :: "metric_row list"
  ad_control :: "control_row list"
  ad_groups :: "control_group list"
  ad_changepoints :: "string list"
  ad_configs :: "config_row list"
  ad_dashboards :: "string list"
  ad_dynatrace :: "string option list"
  ad_results :: "result_row list"
  ad_tracked :: "tracked_row list"
  ad_conclusions :: "conclusion_row list"

datatype adapt_error =
    InvalidInput
  | TestRunNotFound string
  | NoTestRunInformation
  | RowAffectedTwice

definition and_then :: "'e + 'a \<Rightarrow> ('a \<Rightarrow> 'e + 'b) \<Rightarrow> 'e + 'b" where
  "and_then x f = (case x of Inl e \<Rightarrow> Inl e | Inr a \<Rightarrow> f a)"

lemma and_then_simps [simp]: "and_then (Inl e) f = Inl e" "and_then (Inr a) f = f a"
  by (simp_all add: and_then_def)

lemma and_then_Inr: "and_then x f = Inr y \<longleftrightarrow> (\<exists>a. x = Inr a \<and> f a = Inr y)"
  by (cases x) simp_all

section \<open>Upsert\<close>

text \<open>
  \<open>INSERT \<dots> ON CONFLICT (key) DO UPDATE\<close>: a statement that would touch one row twice raises. \<open>merge old new\<close> is the
  updated row, \<open>place\<close> gives a new row its id.
\<close>

definition upsert_one :: "('r \<Rightarrow> 'k) \<Rightarrow> ('r \<Rightarrow> 'r \<Rightarrow> 'r) \<Rightarrow> ('r list \<Rightarrow> 'r \<Rightarrow> 'r) \<Rightarrow> 'r list \<Rightarrow> 'r \<Rightarrow> 'r list" where
  "upsert_one key merge place table r =
     (if key r \<in> key ` set table then map (\<lambda>old. if key old = key r then merge old r else old) table
      else table @ [place table r])"

definition upsert :: "('r \<Rightarrow> 'k) \<Rightarrow> ('r \<Rightarrow> 'r \<Rightarrow> 'r) \<Rightarrow> ('r list \<Rightarrow> 'r \<Rightarrow> 'r) \<Rightarrow> 'r list \<Rightarrow> 'r list \<Rightarrow> adapt_error + 'r list" where
  "upsert key merge place table rows =
     (if distinct (map key rows) then Inr (foldl (upsert_one key merge place) table rows) else Inl RowAffectedTwice)"

text \<open>
  What the readers of an upserted table rely on: the update and the insertion keep the key of the new row. Then a
  statement adds the keys of its rows, replaces what was stored under them and leaves everything else alone.
\<close>

locale keyed_upsert =
  fixes key :: "'r \<Rightarrow> 'k" and merge :: "'r \<Rightarrow> 'r \<Rightarrow> 'r" and place :: "'r list \<Rightarrow> 'r \<Rightarrow> 'r"
  assumes key_merge: "key old = key r \<Longrightarrow> key (merge old r) = key r"
    and key_place: "key (place table r) = key r"
begin

lemma one_keys: "key ` set (upsert_one key merge place table r) = insert (key r) (key ` set table)"
proof -
  have "map key (map (\<lambda>old. if key old = key r then merge old r else old) table) = map key table"
    by (simp add: key_merge)
  from arg_cong [OF this, of set] show ?thesis
    by (auto simp: upsert_one_def key_place simp del: map_map)
qed

lemma one_other:
  "key x \<noteq> key r \<Longrightarrow> x \<in> set (upsert_one key merge place table r) \<longleftrightarrow> x \<in> set table"
  by (auto simp: upsert_one_def key_merge key_place)

lemma one_written:
  assumes "x \<in> set (upsert_one key merge place table r)" "key x = key r"
  shows "(\<exists>old. x = merge old r) \<or> (\<exists>t. x = place t r)"
proof (cases "key r \<in> key ` set table")
  case True
  then show ?thesis using assms by (auto simp: upsert_one_def split: if_splits)
next
  case False
  have "x \<notin> set table" using False assms(2) by (metis image_eqI)
  then show ?thesis using False assms(1) by (auto simp: upsert_one_def)
qed

abbreviation all :: "'r list \<Rightarrow> 'r list \<Rightarrow> 'r list" where
  "all \<equiv> foldl (upsert_one key merge place)"

lemma all_keys: "key ` set (all table rows) = key ` set table \<union> key ` set rows"
  by (induction rows arbitrary: table) (simp_all add: one_keys Un_commute)

lemma all_other: "key x \<notin> key ` set rows \<Longrightarrow> x \<in> set (all table rows) \<longleftrightarrow> x \<in> set table"
  by (induction rows arbitrary: table) (simp_all add: one_other)

lemma all_written:
  assumes "x \<in> set (all table rows)" "r \<in> set rows" "key x = key r" "distinct (map key rows)"
  shows "(\<exists>old. x = merge old r) \<or> (\<exists>t. x = place t r)"
  using assms
proof (induction rows arbitrary: table)
  case Nil
  then show ?case by simp
next
  case (Cons r' rows)
  show ?case
  proof (cases "r = r'")
    case True
    then have "key x \<notin> key ` set rows" using Cons.prems(3,4) by (simp add: image_iff)
    then have "x \<in> set (upsert_one key merge place table r)" using Cons.prems(1) True all_other by simp
    then show ?thesis using one_written Cons.prems(3) by blast
  next
    case False
    then show ?thesis using Cons.prems by (intro Cons.IH) simp_all
  qed
qed

lemma written_once:
  assumes "upsert key merge place table rows = Inr table'" "r \<in> set rows"
  shows "\<exists>x \<in> set table'. key x = key r"
    and "x \<in> set table' \<Longrightarrow> key x = key r \<Longrightarrow> (\<exists>old. x = merge old r) \<or> (\<exists>t. x = place t r)"
proof -
  have t: "table' = all table rows" "distinct (map key rows)" using assms(1) by (auto simp: upsert_def split: if_splits)
  have "key r \<in> key ` set table'" using assms(2) by (auto simp: t all_keys)
  then show "\<exists>x \<in> set table'. key x = key r" by (metis imageE)
  show "(\<exists>old. x = merge old r) \<or> (\<exists>t. x = place t r)" if "x \<in> set table'" "key x = key r"
    using all_written [OF that(1) [unfolded t] assms(2) that(2) t(2)] .
qed

lemma untouched:
  assumes "upsert key merge place table rows = Inr table'" "key x \<notin> key ` set rows"
  shows "x \<in> set table' \<longleftrightarrow> x \<in> set table"
  using assms by (auto simp: upsert_def all_other split: if_splits)

end

section \<open>Writing the results\<close>

record adapt_filter =
  mf_dashboard :: "string option"
  mf_panel :: "nat option"
  mf_metric :: "string option"

text \<open>\<open>buildMetricFilterSQL\<close>: a condition for every field that is set.\<close>

definition passes_filter :: "adapt_filter option \<Rightarrow> string \<Rightarrow> nat \<Rightarrow> string \<Rightarrow> bool" where
  "passes_filter f d p m =
     (case f of None \<Rightarrow> True
      | Some g \<Rightarrow> (truthy_text (mf_dashboard g) \<longrightarrow> mf_dashboard g = Some d)
                \<and> (truthy_panel (mf_panel g) \<longrightarrow> mf_panel g = Some p)
                \<and> (truthy_text (mf_metric g) \<longrightarrow> mf_metric g = Some m))"

definition valid_dashboard :: "adapt_db \<Rightarrow> string \<Rightarrow> bool" where
  "valid_dashboard db d = (d \<in> set (ad_dashboards db) \<or> Some d \<in> set (ad_dynatrace db))"

definition test_metrics :: "adapt_db \<Rightarrow> string list \<Rightarrow> adapt_filter option \<Rightarrow> metric_row list" where
  "test_metrics db ids f =
     filter (\<lambda>m. ms_test_run_id m \<in> set ids \<and> passes_filter f (ms_dashboard m) (ms_panel m) (ms_metric m)
               \<and> valid_dashboard db (ms_dashboard m)) (ad_stats db)"

definition on_control :: "metric_row \<Rightarrow> control_row \<Rightarrow> bool" where
  "on_control m g = (cg_control_group_id g = ms_test_run_id m \<and> cg_source g = ms_source m
     \<and> cg_panel g = ms_panel m \<and> cg_metric g = ms_metric m)"

definition result_of :: "string \<Rightarrow> metric_row \<Rightarrow> compared \<Rightarrow> result_row" where
  "result_of cgroup m w =
     \<lparr>ar_id = 0, ar_test_run_id = ms_test_run_id m, ar_control_group_id = cgroup,
      ar_dashboard = ms_dashboard m, ar_panel = ms_panel m, ar_metric = ms_metric m, ar_source = ms_source m,
      ar_compared = w, ar_statistic = statistic_json w, ar_thresholds = thresholds_json w,
      ar_checks = checks_of w, ar_conclusion = conclusion_of w\<rparr>"

text \<open>\<open>configs\<close> answers the settings of a dashboard, panel and metric: one per row of the configuration join.\<close>

type_synonym config_join = "string \<Rightarrow> nat \<Rightarrow> string \<Rightarrow> compare_config list"

definition final_results :: "rat \<Rightarrow> config_join \<Rightarrow> control_row list \<Rightarrow> metric_row \<Rightarrow> result_row list" where
  "final_results env_floor configs controls m =
     concat (map (\<lambda>g. map (\<lambda>c. result_of (ms_test_run_id m) m (compared_of env_floor c (ms_stats m) (map_option cg_stats g)))
                         (configs (ms_dashboard m) (ms_panel m) (ms_metric m)))
       (left_join (on_control m) controls))"

definition result_key :: "'a result_row_scheme \<Rightarrow> string \<times> string \<times> string \<times> nat \<times> string" where
  "result_key r = (ar_test_run_id r, ar_control_group_id r, ar_dashboard r, ar_panel r, ar_metric r)"

definition next_id :: "nat list \<Rightarrow> nat" where
  "next_id ids = Suc (foldl max 0 ids)"

definition merge_result :: "result_row \<Rightarrow> result_row \<Rightarrow> result_row" where
  "merge_result old r = r\<lparr>ar_id := ar_id old, ar_source := (if ar_source r = None then ar_source old else ar_source r)\<rparr>"

definition place_result :: "result_row list \<Rightarrow> result_row \<Rightarrow> result_row" where
  "place_result table r = r\<lparr>ar_id := next_id (map ar_id table)\<rparr>"

definition run_info :: "adapt_db \<Rightarrow> string list \<Rightarrow> run_row option" where
  "run_info db ids = find (\<lambda>r. rn_id r \<in> set ids) (ad_runs db)"

definition config_join_of :: "adapt_db \<Rightarrow> run_row \<Rightarrow> config_join" where
  "config_join_of db i = resolve_configs (ad_configs db) (rn_system i) (rn_environment i) (rn_workload i)"

text \<open>The statement answers the table and the number of rows it returns.\<close>

definition processAdaptResults ::
  "rat \<Rightarrow> adapt_db \<Rightarrow> string list \<Rightarrow> adapt_filter option \<Rightarrow> adapt_error + adapt_db \<times> nat" where
  "processAdaptResults env_floor db ids f =
     (case run_info db ids of None \<Rightarrow> Inl NoTestRunInformation
      | Some i \<Rightarrow>
         let rows = concat (map (final_results env_floor (config_join_of db i) (ad_control db)) (test_metrics db ids f)) in
         and_then (upsert result_key merge_result place_result (ad_results db) rows)
           (\<lambda>table. Inr (db\<lparr>ad_results := table\<rparr>, length rows)))"

definition has_statistics :: "adapt_db \<Rightarrow> string \<Rightarrow> bool" where
  "has_statistics db i = (\<exists>m \<in> set (ad_stats db). ms_test_run_id m = i)"

definition still_measured :: "adapt_db \<Rightarrow> result_row \<Rightarrow> bool" where
  "still_measured db r = (\<exists>m \<in> set (ad_stats db). ms_test_run_id m = ar_test_run_id r \<and> ms_dashboard m = ar_dashboard r
     \<and> ms_panel m = ar_panel r \<and> ms_metric m = ar_metric r)"

definition is_orphan :: "adapt_db \<Rightarrow> string list \<Rightarrow> adapt_filter option \<Rightarrow> result_row \<Rightarrow> bool" where
  "is_orphan db ids f r =
     (ar_test_run_id r \<in> set ids \<and> has_statistics db (ar_test_run_id r)
      \<and> passes_filter f (ar_dashboard r) (ar_panel r) (ar_metric r) \<and> \<not> still_measured db r)"

definition deleteOrphanedResults :: "adapt_db \<Rightarrow> string list \<Rightarrow> adapt_filter option \<Rightarrow> adapt_db" where
  "deleteOrphanedResults db ids f = db\<lparr>ad_results := filter (\<lambda>r. \<not> is_orphan db ids f r) (ad_results db)\<rparr>"

section \<open>Judging earlier regressions again\<close>

text \<open>The runs of a control group whose differences still count, each with the group it comes from.\<close>

record tracked_pair =
  tp_group :: string
  tp_run :: string

definition control_group_test_runs :: "adapt_db \<Rightarrow> string list \<Rightarrow> tracked_pair list" where
  "control_group_test_runs db ids =
     remdups (concat (map (\<lambda>g. map (\<lambda>r. \<lparr>tp_group = gr_id g, tp_run = r\<rparr>) (gr_test_runs g))
       (filter (\<lambda>g. gr_id g \<in> set ids) (ad_groups db))))"

definition still_tracked :: "run_row \<Rightarrow> bool" where
  "still_tracked r = (rn_accepted r \<noteq> Some ''ACCEPTED'' \<and> rn_mode r \<noteq> Some ''DEBUG'')"

definition filtered_tracked_test_runs :: "adapt_db \<Rightarrow> string list \<Rightarrow> tracked_pair list" where
  "filtered_tracked_test_runs db ids =
     concat (map (\<lambda>p. map (\<lambda>r. p) (filter (\<lambda>r. rn_id r = tp_run p \<and> still_tracked r) (ad_runs db)))
       (control_group_test_runs db ids))"

definition full_difference :: "conclusion \<Rightarrow> bool" where
  "full_difference c = (cn_label c \<in> {Increase, Decrease, Regression, Improvement} \<and> \<not> cn_ignore c)"

definition differences_of :: "adapt_db \<Rightarrow> tracked_pair \<Rightarrow> result_row list" where
  "differences_of db p = filter (\<lambda>r. ar_test_run_id r = tp_run p \<and> full_difference (ar_conclusion r)) (ad_results db)"

text \<open>The statistics of the run under analysis for a difference found earlier; a null source never matches.\<close>

definition current_metrics :: "adapt_db \<Rightarrow> string list \<Rightarrow> tracked_pair \<Rightarrow> result_row \<Rightarrow> metric_row list" where
  "current_metrics db ids p r =
     filter (\<lambda>m. ms_test_run_id m = tp_group p \<and> ms_source m \<noteq> None \<and> ms_source m = ar_source r
               \<and> ms_panel m = ar_panel r \<and> ms_metric m = ar_metric r \<and> ms_test_run_id m \<in> set ids) (ad_stats db)"

definition on_historical_control :: "string \<Rightarrow> metric_row \<Rightarrow> control_row \<Rightarrow> bool" where
  "on_historical_control grp m g = (cg_control_group_id g = grp \<and> ms_source m \<noteq> None \<and> cg_source g = ms_source m
     \<and> cg_panel g = ms_panel m \<and> cg_metric g = ms_metric m)"

definition tracked_of :: "tracked_pair \<Rightarrow> result_row \<Rightarrow> metric_row \<Rightarrow> compared \<Rightarrow> tracked_row" where
  "tracked_of p r m w =
     result_row.extend (result_of (ar_control_group_id r) m w)
       \<lparr>tr_tracked_run = tp_run p, tr_tracked_difference = ar_id r, tr_tracked_conclusion = ar_conclusion r\<rparr>"

definition final_tracked_results ::
  "rat \<Rightarrow> config_join \<Rightarrow> adapt_db \<Rightarrow> string list \<Rightarrow> tracked_pair \<Rightarrow> result_row \<Rightarrow> tracked_row list" where
  "final_tracked_results env_floor configs db ids p r =
     concat (map (\<lambda>m. concat (map (\<lambda>g.
         map (\<lambda>c. tracked_of p r m (compared_of env_floor c (ms_stats m) (map_option cg_stats g)))
           (configs (ms_dashboard m) (ms_panel m) (ms_metric m)))
       (left_join (on_historical_control (ar_control_group_id r) m) (ad_control db))))
     (current_metrics db ids p r))"

definition tracked_key :: "tracked_row \<Rightarrow> string \<times> string \<times> nat \<times> string \<times> string" where
  "tracked_key t = (ar_test_run_id t, ar_dashboard t, ar_panel t, ar_metric t, tr_tracked_run t)"

text \<open>The update leaves the group and the difference of the old row.\<close>

definition merge_tracked :: "tracked_row \<Rightarrow> tracked_row \<Rightarrow> tracked_row" where
  "merge_tracked old t =
     t\<lparr>ar_id := ar_id old, ar_control_group_id := ar_control_group_id old, tr_tracked_difference := tr_tracked_difference old,
       ar_source := (if ar_source t = None then ar_source old else ar_source t)\<rparr>"

definition place_tracked :: "tracked_row list \<Rightarrow> tracked_row \<Rightarrow> tracked_row" where
  "place_tracked table t = t\<lparr>ar_id := next_id (map ar_id table)\<rparr>"

definition tracked_results :: "rat \<Rightarrow> config_join \<Rightarrow> adapt_db \<Rightarrow> string list \<Rightarrow> tracked_row list" where
  "tracked_results env_floor configs db ids =
     concat (map (\<lambda>p. concat (map (final_tracked_results env_floor configs db ids p) (differences_of db p)))
       (filtered_tracked_test_runs db ids))"

definition storeTrackedResults :: "rat \<Rightarrow> adapt_db \<Rightarrow> string list \<Rightarrow> adapt_error + adapt_db \<times> nat" where
  "storeTrackedResults env_floor db ids =
     (case run_info db ids of None \<Rightarrow> Inr (db, 0)
      | Some i \<Rightarrow>
         let rows = tracked_results env_floor (config_join_of db i) db ids in
         and_then (upsert tracked_key merge_tracked place_tracked (ad_tracked db) rows)
           (\<lambda>table. Inr (db\<lparr>ad_tracked := table\<rparr>, length rows)))"

section \<open>The verdict of a run\<close>

definition not_ignored :: "'a result_row_scheme \<Rightarrow> bool" where
  "not_ignored r = (\<not> cn_ignore (ar_conclusion r))"

definition ids_with :: "label set \<Rightarrow> 'a result_row_scheme list \<Rightarrow> nat list" where
  "ids_with ls rows = map ar_id (filter (\<lambda>r. cn_label (ar_conclusion r) \<in> ls \<and> not_ignored r) rows)"

definition difference_labels :: "label set" where
  "difference_labels = {Increase, Decrease, PartialIncrease, PartialDecrease, PartialImprovement, PartialRegression}"

definition verdict_of :: "nat \<Rightarrow> nat \<Rightarrow> nat \<Rightarrow> verdict" where
  "verdict_of comparable regressions tracked =
     (if comparable = 0 then SKIPPED else if regressions > 0 \<or> tracked > 0 then REGRESSION else PASSED)"

definition conclusion_for :: "tracked_row list \<Rightarrow> string \<Rightarrow> string \<Rightarrow> result_row list \<Rightarrow> conclusion_row" where
  "conclusion_for tracked_table run grp rows =
     (let regressions = ids_with {Regression} rows; improvements = ids_with {Improvement} rows;
          differences = ids_with difference_labels rows;
          comparable = length (filter not_ignored rows);
          tracked = ids_with {Regression} (filter (\<lambda>t. ar_test_run_id t = run) tracked_table) in
      \<lparr>co_test_run_id = run, co_control_group_id = grp, co_regressions = regressions, co_improvements = improvements,
       co_differences = differences, co_tracked_regressions = tracked,
       co_conclusion = verdict_of comparable (length regressions) (length tracked),
       co_details = Counts comparable (length regressions) (length improvements) (length differences)
         (length (ids_with {NoDifference} rows)) (length (ids_with {Incomparable} rows)) (length tracked)\<rparr>)"

text \<open>One group per run and control group.\<close>

definition result_groups :: "adapt_db \<Rightarrow> string list \<Rightarrow> tracked_pair list" where
  "result_groups db ids =
     remdups (map (\<lambda>r. \<lparr>tp_group = ar_control_group_id r, tp_run = ar_test_run_id r\<rparr>)
       (filter (\<lambda>r. ar_test_run_id r \<in> set ids) (ad_results db)))"

definition categorized :: "adapt_db \<Rightarrow> string list \<Rightarrow> conclusion_row list" where
  "categorized db ids =
     map (\<lambda>p. conclusion_for (ad_tracked db) (tp_run p) (tp_group p)
            (filter (\<lambda>r. ar_test_run_id r = tp_run p \<and> ar_control_group_id r = tp_group p) (ad_results db)))
       (result_groups db ids)"

definition generateConclusions :: "adapt_db \<Rightarrow> string list \<Rightarrow> adapt_error + adapt_db \<times> nat" where
  "generateConclusions db ids =
     and_then (upsert co_test_run_id (\<lambda>old c. c) (\<lambda>table c. c) (ad_conclusions db) (categorized db ids))
       (\<lambda>table. Inr (db\<lparr>ad_conclusions := table\<rparr>, length (categorized db ids)))"

section \<open>The final status\<close>

definition concluded_regression :: "adapt_db \<Rightarrow> string \<Rightarrow> bool" where
  "concluded_regression db i = (\<exists>c \<in> set (ad_conclusions db). co_test_run_id c = i \<and> co_conclusion c = REGRESSION)"

definition adapt_ok :: "adapt_db \<Rightarrow> run_row \<Rightarrow> bool" where
  "adapt_ok db r =
     ((case rn_mode r of None \<Rightarrow> ''COMPARISON'' | Some m \<Rightarrow> m) = ''BASELINE'' \<or> \<not> concluded_regression db (rn_id r))"

definition final_status :: "adapt_db \<Rightarrow> run_row \<Rightarrow> run_row" where
  "final_status db r =
     r\<lparr>rn_evaluatingAdapt := Some ''COMPLETED'', rn_adaptTestRunOK := Some (adapt_ok db r),
       rn_overall :=
         (if rn_accepted r = Some ''ACCEPTED'' then rn_overall r
          else Some ((case rn_meetsRequirement r of None \<Rightarrow> True | Some b \<Rightarrow> b) \<and> adapt_ok db r))\<rparr>"

definition on_runs :: "(run_row \<Rightarrow> run_row) \<Rightarrow> string list \<Rightarrow> adapt_db \<Rightarrow> adapt_db" where
  "on_runs f ids db = db\<lparr>ad_runs := map (\<lambda>r. if rn_id r \<in> set ids then f r else r) (ad_runs db)\<rparr>"

definition updateFinalStatus :: "adapt_db \<Rightarrow> string list \<Rightarrow> adapt_db" where
  "updateFinalStatus db ids = on_runs (final_status db) ids db"

section \<open>The tables as keyed upserts\<close>

lemma result_key_merge [simp]: "result_key (merge_result old r) = result_key r"
  by (simp add: result_key_def merge_result_def)

lemma result_key_place [simp]: "result_key (place_result table r) = result_key r"
  by (simp add: result_key_def place_result_def)

lemma tracked_key_merge [simp]: "tracked_key (merge_tracked old t) = tracked_key t"
  by (simp add: tracked_key_def merge_tracked_def)

lemma tracked_key_place [simp]: "tracked_key (place_tracked table t) = tracked_key t"
  by (simp add: tracked_key_def place_tracked_def)

interpretation results: keyed_upsert result_key merge_result place_result
  by unfold_locales simp_all

interpretation tracked: keyed_upsert tracked_key merge_tracked place_tracked
  by unfold_locales simp_all

interpretation verdicts: keyed_upsert co_test_run_id "\<lambda>old c. c" "\<lambda>table c. c"
  by unfold_locales simp_all

text \<open>What an upsert keeps of a new row.\<close>

lemma merge_result_simps [simp]:
  "ar_conclusion (merge_result old r) = ar_conclusion r" "ar_compared (merge_result old r) = ar_compared r"
  "ar_conclusion (place_result table r) = ar_conclusion r" "ar_compared (place_result table r) = ar_compared r"
  by (simp_all add: merge_result_def place_result_def)

lemma merge_tracked_simps [simp]:
  "ar_conclusion (merge_tracked old t) = ar_conclusion t" "tr_tracked_conclusion (merge_tracked old t) = tr_tracked_conclusion t"
  "ar_conclusion (place_tracked table t) = ar_conclusion t" "tr_tracked_conclusion (place_tracked table t) = tr_tracked_conclusion t"
  by (simp_all add: merge_tracked_def place_tracked_def)

section \<open>The statement against a reference\<close>

definition metric_key :: "metric_row \<Rightarrow> string \<times> string \<times> nat \<times> string" where
  "metric_key m = (ms_test_run_id m, ms_dashboard m, ms_panel m, ms_metric m)"

text \<open>The index of \<open>ds_metric_statistics\<close>, one baseline per metric, and names that survive the lookup keys.\<close>

definition one_baseline :: "adapt_db \<Rightarrow> bool" where
  "one_baseline db = (distinct (map metric_key (ad_stats db))
     \<and> (\<forall>m \<in> set (ad_stats db). length (filter (on_control m) (ad_control db)) \<le> 1))"

definition plain_names :: "adapt_db \<Rightarrow> bool" where
  "plain_names db = ((\<forall>r \<in> set (ad_configs db). no_colon (cf_dashboard r) \<and> no_colon (cf_metric r))
     \<and> (\<forall>m \<in> set (ad_stats db). ms_dashboard m \<noteq> '''' \<and> CHR '':'' \<notin> set (ms_dashboard m)
          \<and> ms_metric m \<noteq> '''' \<and> 0 < ms_panel m))"

text \<open>How a metric is judged, without a statement: its settings, its baseline, the comparison.\<close>

definition judged :: "rat \<Rightarrow> adapt_db \<Rightarrow> run_row \<Rightarrow> metric_row \<Rightarrow> compared" where
  "judged env_floor db i m =
     compared_of env_floor
       (resolution (select_configs (ad_configs db) (rn_system i) (rn_environment i) (rn_workload i))
          (ms_dashboard m) (ms_panel m) (ms_metric m))
       (ms_stats m) (map_option cg_stats (find (on_control m) (ad_control db)))"

lemma left_join_unique:
  assumes "length (filter P xs) \<le> 1"
  shows "left_join P xs = [find P xs]"
proof (cases "filter P xs")
  case Nil
  then have "find P xs = None" by (auto simp: find_None_iff filter_empty_conv)
  with Nil show ?thesis by (simp add: left_join_def)
next
  case (Cons y ys)
  then have one: "filter P xs = [y]" using assms by simp
  then have "find P xs = Some y" by (induction xs) (auto split: if_splits)
  with one show ?thesis by (simp add: left_join_def)
qed

lemma final_result_single:
  assumes "one_baseline db" "plain_names db" "m \<in> set (ad_stats db)"
  shows "final_results env_floor (config_join_of db i) (ad_control db) m
    = [result_of (ms_test_run_id m) m (judged env_floor db i m)]"
proof -
  have "config_join_of db i (ms_dashboard m) (ms_panel m) (ms_metric m)
      = [resolution (select_configs (ad_configs db) (rn_system i) (rn_environment i) (rn_workload i))
          (ms_dashboard m) (ms_panel m) (ms_metric m)]"
    unfolding config_join_of_def
    by (rule resolve_single) (use assms(2,3) in \<open>simp_all add: plain_names_def\<close>)
  moreover have "left_join (on_control m) (ad_control db) = [find (on_control m) (ad_control db)]"
    using assms(1,3) by (intro left_join_unique) (simp add: one_baseline_def)
  ultimately show ?thesis by (simp add: final_results_def judged_def)
qed

definition key_of_metric :: "metric_row \<Rightarrow> string \<times> string \<times> string \<times> nat \<times> string" where
  "key_of_metric m = (ms_test_run_id m, ms_test_run_id m, ms_dashboard m, ms_panel m, ms_metric m)"

lemma result_key_of [simp]: "result_key (result_of (ms_test_run_id m) m w) = key_of_metric m"
  by (simp add: result_key_def result_of_def key_of_metric_def)

lemma concat_singles:
  assumes "\<And>x. x \<in> set xs \<Longrightarrow> f x = [g x]"
  shows "concat (map f xs) = map g xs"
  using assms by (induction xs) simp_all

lemma distinct_keys_of:
  assumes "distinct (map metric_key ms)"
  shows "distinct (map key_of_metric ms)"
proof -
  have "inj_on (\<lambda>k. (fst k, k)) X" for X :: "(string \<times> string \<times> nat \<times> string) set" by (auto intro: inj_onI)
  moreover have "map key_of_metric ms = map (\<lambda>k. (fst k, k)) (map metric_key ms)"
    by (simp add: key_of_metric_def metric_key_def)
  ultimately show ?thesis using assms by (simp only: distinct_map)
qed


section \<open>Verdicts\<close>

text \<open>The rows of the tables are written by \<open>result_of\<close>: their conclusions are computed by \<open>conclusion_of\<close>.\<close>

definition computed :: "'a result_row_scheme \<Rightarrow> bool" where
  "computed r = (\<exists>w. ar_conclusion r = conclusion_of w)"

lemma ignored_label: "cn_label (conclusion_of w) = Ignored \<Longrightarrow> cn_ignore (conclusion_of w)"
  by (auto simp: conclusion_of_def label_of_def Let_def full_label_def partial_label_def split: if_splits option.splits bool.splits)

text \<open>
  The stored counts add up. The regressions, improvements, other differences, unchanged and incomparable metrics of
  a run sum to the number of metrics that are not ignored: every one of them falls in one category.
\<close>

theorem counts_add_up:
  assumes "\<forall>r \<in> set rows. computed r" "co_details (conclusion_for tracked i g rows) = Counts n a b c d e t"
  shows "a + b + c + d + e = n \<and> n = length (filter not_ignored rows)"
proof -
  have len: "n = length (filter not_ignored rows)" "a = length (ids_with {Regression} rows)"
    "b = length (ids_with {Improvement} rows)" "c = length (ids_with difference_labels rows)"
    "d = length (ids_with {NoDifference} rows)" "e = length (ids_with {Incomparable} rows)"
    using assms(2) by (simp_all add: conclusion_for_def Let_def)
  have "length (ids_with {Regression} rows) + length (ids_with {Improvement} rows) + length (ids_with difference_labels rows)
      + length (ids_with {NoDifference} rows) + length (ids_with {Incomparable} rows) = length (filter not_ignored rows)"
    using assms(1)
  proof (induction rows)
    case Nil
    then show ?case by (simp add: ids_with_def)
  next
    case (Cons r rows)
    from Cons.prems obtain w where w: "ar_conclusion r = conclusion_of w" by (auto simp: computed_def)
    have "cn_label (ar_conclusion r) \<noteq> Ignored" if "not_ignored r"
      using that ignored_label [of w] by (auto simp: w not_ignored_def)
    with Cons show ?case
      by (cases "cn_label (ar_conclusion r)") (auto simp: ids_with_def difference_labels_def)
  qed
  then show ?thesis by (simp add: len)
qed

definition regressed :: "'a result_row_scheme list \<Rightarrow> string \<Rightarrow> bool" where
  "regressed rows i = (\<exists>r \<in> set rows. ar_test_run_id r = i \<and> cn_label (ar_conclusion r) = Regression \<and> not_ignored r)"

definition comparable :: "adapt_db \<Rightarrow> string \<Rightarrow> bool" where
  "comparable db i = (\<exists>r \<in> set (ad_results db). ar_test_run_id r = i \<and> not_ignored r)"

lemma ids_with_empty: "ids_with ls rows = [] \<longleftrightarrow> \<not> (\<exists>r \<in> set rows. cn_label (ar_conclusion r) \<in> ls \<and> not_ignored r)"
  by (auto simp: ids_with_def filter_empty_conv)

lemma concluded:
  assumes "generateConclusions db ids = Inr (db', n)" "i \<in> set ids" "\<exists>r \<in> set (ad_results db). ar_test_run_id r = i"
  shows "\<exists>g. \<forall>c \<in> set (ad_conclusions db'). co_test_run_id c = i
      \<longrightarrow> c = conclusion_for (ad_tracked db) i g (filter (\<lambda>r. ar_test_run_id r = i) (ad_results db))"
    "\<exists>c \<in> set (ad_conclusions db'). co_test_run_id c = i"
proof -
  obtain table where t: "upsert co_test_run_id (\<lambda>old c. c) (\<lambda>table c. c) (ad_conclusions db) (categorized db ids) = Inr table"
    and db': "db' = db\<lparr>ad_conclusions := table\<rparr>"
    using assms(1) by (auto simp: generateConclusions_def and_then_Inr)
  obtain r where r: "r \<in> set (ad_results db)" "ar_test_run_id r = i" using assms(3) by blast
  define p where "p = \<lparr>tp_group = ar_control_group_id r, tp_run = i\<rparr>"
  have p: "p \<in> set (result_groups db ids)" using r assms(2) by (auto simp: result_groups_def p_def)
  have "distinct (map tp_run (result_groups db ids))"
    using t by (auto simp: upsert_def categorized_def conclusion_for_def Let_def comp_def split: if_splits)
  then have "inj_on tp_run (set (result_groups db ids))" by (simp add: distinct_map)
  from inj_onD [OF this _ _ p] have one: "q = p" if "q \<in> set (result_groups db ids)" "tp_run q = i" for q
    using that by (simp add: p_def)
  have all: "ar_control_group_id r' = ar_control_group_id r" if "r' \<in> set (ad_results db)" "ar_test_run_id r' = i" for r'
  proof -
    have "\<lparr>tp_group = ar_control_group_id r', tp_run = i\<rparr> \<in> set (result_groups db ids)"
      using that assms(2) by (auto simp: result_groups_def)
    from one [OF this] show ?thesis by (simp add: p_def)
  qed
  define c where "c = conclusion_for (ad_tracked db) i (ar_control_group_id r) (filter (\<lambda>r. ar_test_run_id r = i) (ad_results db))"
  have "filter (\<lambda>r'. ar_test_run_id r' = tp_run p \<and> ar_control_group_id r' = tp_group p) (ad_results db)
      = filter (\<lambda>r. ar_test_run_id r = i) (ad_results db)"
    using all by (auto simp: p_def intro: filter_cong)
  then have c: "c \<in> set (categorized db ids)"
    using p by (force simp: categorized_def c_def p_def)
  have "co_test_run_id c = i" by (simp add: c_def conclusion_for_def Let_def)
  with verdicts.written_once [OF t c] show
    "\<exists>g. \<forall>c \<in> set (ad_conclusions db'). co_test_run_id c = i
      \<longrightarrow> c = conclusion_for (ad_tracked db) i g (filter (\<lambda>r. ar_test_run_id r = i) (ad_results db))"
    "\<exists>c \<in> set (ad_conclusions db'). co_test_run_id c = i"
    unfolding c_def db' by auto
qed

text \<open>
  C2: the verdict of a run with results. There is a conclusion; it says \<open>SKIPPED\<close> when every result is ignored,
  \<open>REGRESSION\<close> when one of the others or an earlier regression that still holds is a regression, and \<open>PASSED\<close> otherwise.
\<close>

theorem verdict_exact:
  assumes "generateConclusions db ids = Inr (db', n)" "i \<in> set ids" "\<exists>r \<in> set (ad_results db). ar_test_run_id r = i"
  shows "(\<exists>c \<in> set (ad_conclusions db'). co_test_run_id c = i)
    \<and> (\<forall>c \<in> set (ad_conclusions db'). co_test_run_id c = i \<longrightarrow> co_conclusion c =
        (if \<not> comparable db i then SKIPPED
         else if regressed (ad_results db) i \<or> regressed (ad_tracked db) i then REGRESSION else PASSED))"
proof -
  have "co_conclusion (conclusion_for (ad_tracked db) i g (filter (\<lambda>r. ar_test_run_id r = i) (ad_results db)))
      = (if \<not> comparable db i then SKIPPED
         else if regressed (ad_results db) i \<or> regressed (ad_tracked db) i then REGRESSION else PASSED)" for g
    by (auto simp: conclusion_for_def Let_def verdict_of_def comparable_def regressed_def ids_with_empty filter_empty_conv)
  with concluded [OF assms] show ?thesis by metis
qed

section \<open>Earlier regressions\<close>

text \<open>Where a tracked row comes from: the earlier difference, the run that shows it and the baseline of that time.\<close>

definition judged_by :: "rat \<Rightarrow> adapt_db \<Rightarrow> string \<Rightarrow> metric_row \<Rightarrow> conclusion \<Rightarrow> bool" where
  "judged_by env_floor db grp m k =
     (\<exists>c. \<exists>h \<in> insert None (Some ` {g \<in> set (ad_control db). cg_control_group_id g = grp}).
        k = conclusion_of (compared_of env_floor c (ms_stats m) (map_option cg_stats h)))"

definition tracks :: "rat \<Rightarrow> adapt_db \<Rightarrow> tracked_row \<Rightarrow> result_row \<Rightarrow> bool" where
  "tracks env_floor db t r =
     (full_difference (ar_conclusion r) \<and> ar_test_run_id r = tr_tracked_run t \<and> tr_tracked_conclusion t = ar_conclusion r
      \<and> (\<exists>x \<in> set (ad_runs db). rn_id x = tr_tracked_run t \<and> still_tracked x)
      \<and> (\<exists>g \<in> set (ad_groups db). gr_id g = ar_test_run_id t \<and> tr_tracked_run t \<in> set (gr_test_runs g))
      \<and> (\<exists>m \<in> set (ad_stats db). ms_test_run_id m = ar_test_run_id t \<and> ms_metric m = ar_metric r \<and> ms_panel m = ar_panel r
           \<and> judged_by env_floor db (ar_control_group_id r) m (ar_conclusion t)))"

lemma left_join_mem: "x \<in> set (left_join P xs) \<Longrightarrow> x = None \<or> (\<exists>y \<in> set xs. P y \<and> x = Some y)"
  by (auto simp: left_join_def Let_def split: if_splits)

lemma pairs_tracked:
  assumes "p \<in> set (filtered_tracked_test_runs db ids)"
  shows "(\<exists>x \<in> set (ad_runs db). rn_id x = tp_run p \<and> still_tracked x)
    \<and> (\<exists>g \<in> set (ad_groups db). gr_id g = tp_group p \<and> tp_run p \<in> set (gr_test_runs g))"
  using assms by (auto simp: filtered_tracked_test_runs_def control_group_test_runs_def)

lemma tracked_of_simps [simp]:
  "ar_test_run_id (tracked_of p r m w) = ms_test_run_id m" "tr_tracked_run (tracked_of p r m w) = tp_run p"
  "ar_conclusion (tracked_of p r m w) = conclusion_of w" "tr_tracked_conclusion (tracked_of p r m w) = ar_conclusion r"
  by (simp_all add: tracked_of_def result_of_def result_row.extend_def)

lemma tracked_results_from:
  assumes "t \<in> set (tracked_results env_floor configs db ids)"
  shows "\<exists>r \<in> set (ad_results db). tracks env_floor db t r"
proof -
  from assms obtain p r where p: "p \<in> set (filtered_tracked_test_runs db ids)" and r: "r \<in> set (differences_of db p)"
    and t: "t \<in> set (final_tracked_results env_floor configs db ids p r)"
    by (auto simp: tracked_results_def)
  from t obtain m h c where m: "m \<in> set (current_metrics db ids p r)"
    and h: "h \<in> set (left_join (on_historical_control (ar_control_group_id r) m) (ad_control db))"
    and t': "t = tracked_of p r m (compared_of env_floor c (ms_stats m) (map_option cg_stats h))"
    by (auto simp: final_tracked_results_def)
  have "h \<in> insert None (Some ` {g \<in> set (ad_control db). cg_control_group_id g = ar_control_group_id r})"
    using left_join_mem [OF h] by (auto simp: on_historical_control_def)
  then have "judged_by env_floor db (ar_control_group_id r) m (ar_conclusion t)"
    unfolding judged_by_def t' by (intro exI [of _ c] bexI [of _ h]) simp_all
  moreover have "m \<in> set (ad_stats db)" "ms_test_run_id m = tp_group p" "ms_metric m = ar_metric r" "ms_panel m = ar_panel r"
    using m by (auto simp: current_metrics_def)
  moreover have "full_difference (ar_conclusion r)" "ar_test_run_id r = tp_run p" "r \<in> set (ad_results db)"
    using r by (auto simp: differences_of_def)
  ultimately have "tracks env_floor db t r"
    using pairs_tracked [OF p] unfolding tracks_def t' by (auto intro!: bexI [of _ m])
  with \<open>r \<in> set (ad_results db)\<close> show ?thesis by blast
qed

text \<open>
  Earlier regressions are judged by the baseline of their time. Whatever the analysis stores as a tracked result of
  its runs goes back to a full, not ignored difference of a run in the control group, a run that is neither accepted nor
  a debug run; and the current statistics are compared with a row of the control group in which the difference was found
  (or with none).
\<close>

theorem tracked_sound:
  assumes "storeTrackedResults env_floor db ids = Inr (db', n)"
    and "\<forall>t \<in> set (ad_tracked db). ar_test_run_id t \<notin> set ids"
    and "t \<in> set (ad_tracked db')" "ar_test_run_id t \<in> set ids"
  shows "\<exists>r \<in> set (ad_results db). tracks env_floor db t r"
proof (cases "run_info db ids")
  case None
  with assms show ?thesis by (auto simp: storeTrackedResults_def)
next
  case (Some i)
  define rows where "rows = tracked_results env_floor (config_join_of db i) db ids"
  obtain table where table: "upsert tracked_key merge_tracked place_tracked (ad_tracked db) rows = Inr table"
    and db': "db' = db\<lparr>ad_tracked := table\<rparr>"
    using assms(1) Some by (auto simp: storeTrackedResults_def and_then_Inr rows_def Let_def)
  have t: "t \<in> set table" using assms(3) db' by simp
  have "tracked_key t \<in> tracked_key ` set rows"
    using tracked.untouched [OF table, of t] t assms(2,4) by blast
  then obtain u where u: "u \<in> set rows" "tracked_key t = tracked_key u" by auto
  obtain r where r: "r \<in> set (ad_results db)" "tracks env_floor db u r"
    using tracked_results_from u(1) unfolding rows_def by blast
  from tracked.written_once(2) [OF table u(1) t u(2)]
  have "ar_conclusion t = ar_conclusion u" "tr_tracked_conclusion t = tr_tracked_conclusion u" by auto
  moreover have "ar_test_run_id t = ar_test_run_id u" "tr_tracked_run t = tr_tracked_run u"
    using u(2) by (simp_all add: tracked_key_def)
  ultimately have "tracks env_floor db t r" using r(2) by (simp add: tracks_def)
  with r(1) show ?thesis by blast
qed

section \<open>A demonstration\<close>

text \<open>
  Run \<open>r0\<close> regressed from 100 to 120 ms and then became the baseline of run \<open>r1\<close>, which takes 121 ms: unchanged against
  its baseline, still a regression against the old one.
\<close>

definition shop_run :: "string \<Rightarrow> run_row" where
  "shop_run i = \<lparr>rn_id = i, rn_system = ''shop'', rn_environment = ''acc'', rn_workload = ''load'', rn_ramp_up = Some 60,
     rn_duration = Some 600, rn_mode = None, rn_accepted = None, rn_evaluatingAdapt = None, rn_meetsRequirement = Some True,
     rn_adaptTestRunOK = None, rn_overall = None\<rparr>"

definition demo_metric :: "string \<Rightarrow> rat \<Rightarrow> metric_row" where
  "demo_metric i v = \<lparr>ms_test_run_id = i, ms_dashboard = ''d1'', ms_panel = 12, ms_metric = ''checkout'',
     ms_source = Some ''s1'', ms_stats = demo_stats v 5\<rparr>"

definition demo_baseline :: "string \<Rightarrow> rat \<Rightarrow> control_row" where
  "demo_baseline i v = \<lparr>cg_control_group_id = i, cg_panel = 12, cg_metric = ''checkout'', cg_source = Some ''s1'',
     cg_stats = demo_stats v 5\<rparr>"

definition demo_settings :: config_row where
  "demo_settings = (demo_config (Some ''checkout'') 0)\<lparr>cf_data := lower_is_better\<rparr>"

definition shop_db :: adapt_db where
  "shop_db = \<lparr>ad_runs = [shop_run ''r0'', shop_run ''r1''], ad_stats = [demo_metric ''r0'' 120, demo_metric ''r1'' 121],
     ad_control = [demo_baseline ''r0'' 100, demo_baseline ''r1'' 120],
     ad_groups = [\<lparr>gr_id = ''r1'', gr_test_runs = [''r0'']\<rparr>], ad_changepoints = [], ad_configs = [demo_settings],
     ad_dashboards = [''d1''], ad_dynatrace = [],
     ad_results = [(result_of ''r0'' (demo_metric ''r0'' 120) (demo_compared 120 100))\<lparr>ar_id := 1\<rparr>],
     ad_tracked = [], ad_conclusions = []\<rparr>"

definition after :: "adapt_error + adapt_db \<times> nat \<Rightarrow> adapt_db" where
  "after x = (case x of Inr (db, n) \<Rightarrow> db | Inl e \<Rightarrow> shop_db)"

definition shop_db1 :: adapt_db where
  "shop_db1 = after (processAdaptResults 2 shop_db [''r1''] None)"

definition shop_db2 :: adapt_db where
  "shop_db2 = after (storeTrackedResults 2 shop_db1 [''r1''])"

lemma after_ok: "\<not> isl x \<Longrightarrow> \<exists>n. x = Inr (after x, n)"
  by (cases x) (auto simp: after_def)

lemma demo_plain: "run_info shop_db [''r1''] = Some (shop_run ''r1'')" "one_baseline shop_db" "plain_names shop_db"
  by (simp add: run_info_def shop_db_def shop_run_def)
    (simp_all add: one_baseline_def plain_names_def shop_db_def demo_metric_def demo_baseline_def demo_settings_def
      demo_config_def metric_key_def on_control_def no_colon_def)


theorem counts_add_up_witness:
  "(1::nat) + 0 + 0 + 0 + 0 = length (filter not_ignored (ad_results shop_db))"
proof -
  have rows: "\<forall>r \<in> set (ad_results shop_db). computed r"
    by (auto simp: shop_db_def computed_def result_of_def)
  have "co_details (conclusion_for [] ''r0'' ''r0'' (ad_results shop_db)) = Counts 1 1 0 0 0 0 0" by code_simp
  from counts_add_up [OF rows this] show ?thesis by simp
qed

theorem verdict_exact_witness:
  "\<exists>db n. generateConclusions shop_db2 [''r1''] = Inr (db, n)
     \<and> (\<forall>c \<in> set (ad_conclusions db). co_test_run_id c = ''r1'' \<longrightarrow> co_conclusion c = REGRESSION)"
proof -
  have "\<not> isl (generateConclusions shop_db2 [''r1''])" by code_simp
  from after_ok [OF this] obtain n where
    gen: "generateConclusions shop_db2 [''r1''] = Inr (after (generateConclusions shop_db2 [''r1'']), n)" by blast
  have "\<exists>r \<in> set (ad_results shop_db2). ar_test_run_id r = ''r1''" by code_simp
  moreover have "comparable shop_db2 ''r1''" by code_simp
  moreover have "regressed (ad_tracked shop_db2) ''r1''" by code_simp
  ultimately have "\<forall>c \<in> set (ad_conclusions (after (generateConclusions shop_db2 [''r1'']))).
      co_test_run_id c = ''r1'' \<longrightarrow> co_conclusion c = REGRESSION"
    using verdict_exact [OF gen, of "''r1''"] by simp
  with gen show ?thesis by blast
qed

theorem tracked_sound_witness:
  "\<exists>t \<in> set (ad_tracked shop_db2). cn_label (ar_conclusion t) = Regression
     \<and> (\<exists>r \<in> set (ad_results shop_db1). tracks 2 shop_db1 t r)"
proof -
  have "\<not> isl (storeTrackedResults 2 shop_db1 [''r1''])" by code_simp
  from after_ok [OF this] obtain n where
    st: "storeTrackedResults 2 shop_db1 [''r1''] = Inr (shop_db2, n)" by (auto simp: shop_db2_def)
  have old: "\<forall>t \<in> set (ad_tracked shop_db1). ar_test_run_id t \<notin> set [''r1'']" by code_simp
  have "\<exists>t \<in> set (ad_tracked shop_db2). ar_test_run_id t = ''r1'' \<and> cn_label (ar_conclusion t) = Regression" by code_simp
  then show ?thesis using tracked_sound [OF st old] by auto
qed

end
