(* ===== verification/AdaptPipeline.thy ===== *)
theory AdaptPipeline
  imports AdaptRun
begin

text \<open>
  The anomaly analysis of a batch of test runs: \<open>pipelines/AdaptPipeline.ts\<close> and
  \<open>helpers/adapt/adapt-validator.ts\<close>.

  The analysis runs in one transaction: when a statement raises, the tables are as before and the failure is recorded on
  the runs in a statement of its own. The connection check, timings, log lines and the message to the browsers are left
  out, and of the explanation stored for an excluded run its \<open>cause\<close> and the runs to repair are kept, not its English
  sentence.
\<close>

section \<open>Input\<close>

text \<open>What the pipeline looks at of an untyped job payload; an element \<open>None\<close> of the ids is not a string.\<close>

datatype raw_ids = NotAnArray | AnArray "string option list"

record raw_input =
  ri_is_object :: bool
  ri_testRunIds :: raw_ids
  ri_updateResults :: "bool option"
  ri_updateConclusion :: "bool option"
  ri_updateTrackedResults :: "bool option"
  ri_filter :: adapt_filter

record adapt_input =
  ai_testRunIds :: "string list"
  ai_updateResults :: bool
  ai_updateConclusion :: bool
  ai_updateTrackedResults :: bool
  ai_filter :: adapt_filter

definition validateInput :: "raw_input \<Rightarrow> adapt_input option" where
  "validateInput r =
     (if \<not> ri_is_object r then None
      else case ri_testRunIds r of
        NotAnArray \<Rightarrow> None
      | AnArray xs \<Rightarrow>
          if xs = [] \<or> None \<in> set xs then None
          else Some \<lparr>ai_testRunIds = map the xs,
                     ai_updateResults = (ri_updateResults r \<noteq> Some False),
                     ai_updateConclusion = (ri_updateConclusion r \<noteq> Some False),
                     ai_updateTrackedResults = (ri_updateTrackedResults r \<noteq> Some False),
                     ai_filter = ri_filter r\<rparr>)"

section \<open>Which runs can be analysed\<close>

definition set_evaluating :: "string \<Rightarrow> run_row \<Rightarrow> run_row" where
  "set_evaluating s r = r\<lparr>rn_evaluatingAdapt := Some s\<rparr>"

definition updateEvaluationStatus :: "adapt_db \<Rightarrow> string list \<Rightarrow> string \<Rightarrow> adapt_db" where
  "updateEvaluationStatus db ids status = on_runs (set_evaluating status) ids db"

text \<open>The three checks answer the excluded runs and mark them.\<close>

definition no_baselines :: "adapt_db \<Rightarrow> string list \<Rightarrow> adapt_db" where
  "no_baselines db ids = on_runs (set_evaluating ''NO_BASELINES_FOUND'') ids db"

definition checkForChangepoints :: "adapt_db \<Rightarrow> string list \<Rightarrow> adapt_db \<times> string list" where
  "checkForChangepoints db ids =
     (let found = remdups (filter (\<lambda>i. i \<in> set ids) (ad_changepoints db)) in (no_baselines db found, found))"

definition too_short :: "run_row \<Rightarrow> bool" where
  "too_short r = (case (rn_ramp_up r, rn_duration r) of (Some u, Some d) \<Rightarrow> u \<ge> d | _ \<Rightarrow> False)"

definition checkTooShortTestRuns :: "adapt_db \<Rightarrow> string list \<Rightarrow> adapt_db \<times> string list" where
  "checkTooShortTestRuns db ids =
     (let found = map rn_id (filter (\<lambda>r. rn_id r \<in> set ids \<and> too_short r) (ad_runs db)) in (no_baselines db found, found))"

text \<open>The runs with statistics on a known dashboard none of which has a control row.\<close>

definition known_metrics :: "adapt_db \<Rightarrow> string \<Rightarrow> metric_row list" where
  "known_metrics db i = filter (\<lambda>m. ms_test_run_id m = i \<and> valid_dashboard db (ms_dashboard m)) (ad_stats db)"

definition has_control :: "adapt_db \<Rightarrow> metric_row \<Rightarrow> bool" where
  "has_control db m = (\<exists>g \<in> set (ad_control db). on_control m g)"

definition empty_control_group :: "adapt_db \<Rightarrow> string \<Rightarrow> bool" where
  "empty_control_group db i = (known_metrics db i \<noteq> [] \<and> \<not> (\<exists>m \<in> set (known_metrics db i). has_control db m))"

definition checkEmptyControlGroups :: "adapt_db \<Rightarrow> string list \<Rightarrow> adapt_db \<times> string list" where
  "checkEmptyControlGroups db ids =
     (let found = filter (empty_control_group db) (remdups (filter (\<lambda>i. i \<in> set ids) (map ms_test_run_id (ad_stats db)))) in
      (no_baselines db found, found))"

record validation =
  va_changepoints :: "string list"
  va_tooShort :: "string list"
  va_emptyControlGroups :: "string list"
  va_processable :: "string list"

definition without :: "string list \<Rightarrow> string list \<Rightarrow> string list" where
  "without xs ys = filter (\<lambda>x. x \<notin> set ys) xs"

definition runPreProcessingValidation :: "adapt_db \<Rightarrow> string list \<Rightarrow> adapt_db \<times> validation" where
  "runPreProcessingValidation db0 ids =
     (let (db1, changepoints) = checkForChangepoints db0 ids;
          nonChangepoint = without ids changepoints;
          (db2, tooShort) = checkTooShortTestRuns db1 nonChangepoint;
          candidates = without nonChangepoint tooShort;
          (db3, empties) = checkEmptyControlGroups db2 candidates in
      (db3, \<lparr>va_changepoints = changepoints, va_tooShort = tooShort, va_emptyControlGroups = empties,
             va_processable = without candidates empties\<rparr>))"

section \<open>Explaining an exclusion\<close>

definition control_runs :: "adapt_db \<Rightarrow> string list \<Rightarrow> string \<Rightarrow> string list" where
  "control_runs db empties i =
     (if i \<in> set empties then (case filter (\<lambda>g. gr_id g = i) (ad_groups db) of [] \<Rightarrow> [] | gs \<Rightarrow> gr_test_runs (last gs)) else [])"

definition control_stat_count :: "adapt_db \<Rightarrow> string list \<Rightarrow> string \<Rightarrow> nat" where
  "control_stat_count db empties i =
     (if i \<in> set empties then length (filter (\<lambda>g. cg_control_group_id g = i) (ad_control db)) else 0)"

definition metric_stat_count :: "adapt_db \<Rightarrow> string list \<Rightarrow> string \<Rightarrow> nat" where
  "metric_stat_count db empties i =
     (if i \<in> set empties then
        sum_list (map (\<lambda>g. length (filter (\<lambda>m. ms_test_run_id m \<in> set (gr_test_runs g)) (ad_stats db)))
          (filter (\<lambda>g. gr_id g = i) (ad_groups db)))
      else 0)"

definition exclusion_details :: "adapt_db \<Rightarrow> validation \<Rightarrow> string \<Rightarrow> details" where
  "exclusion_details db v i =
     (if i \<in> set (va_changepoints v) then Excluded Changepoint []
      else if i \<in> set (va_tooShort v) then Excluded RunTooShort []
      else if control_stat_count db (va_emptyControlGroups v) i > 0 then Excluded MetricsSourceMismatch []
      else if metric_stat_count db (va_emptyControlGroups v) i > 0
           then Excluded BaselineAggregationFailed (control_runs db (va_emptyControlGroups v) i)
      else Excluded BaselineInsufficientData [])"

definition exclusion_row :: "adapt_db \<Rightarrow> validation \<Rightarrow> string \<Rightarrow> conclusion_row" where
  "exclusion_row db v i =
     \<lparr>co_test_run_id = i, co_control_group_id = i, co_regressions = [], co_improvements = [], co_differences = [],
      co_tracked_regressions = [], co_conclusion = INSUFFICIENT_DATA, co_details = exclusion_details db v i\<rparr>"

text \<open>The update replaces the verdict and its explanation only.\<close>

definition merge_exclusion :: "conclusion_row \<Rightarrow> conclusion_row \<Rightarrow> conclusion_row" where
  "merge_exclusion old c = old\<lparr>co_conclusion := co_conclusion c, co_details := co_details c\<rparr>"

definition writeExclusionConclusions :: "adapt_db \<Rightarrow> validation \<Rightarrow> adapt_db" where
  "writeExclusionConclusions db v =
     db\<lparr>ad_conclusions :=
       foldl (upsert_one co_test_run_id merge_exclusion (\<lambda>table c. c)) (ad_conclusions db)
         (map (exclusion_row db v) (va_changepoints v @ va_tooShort v @ va_emptyControlGroups v))\<rparr>"

definition updateFailureStatus :: "adapt_db \<Rightarrow> string list \<Rightarrow> adapt_db" where
  "updateFailureStatus db ids =
     on_runs (\<lambda>r. (set_evaluating ''FAILED'' r)\<lparr>rn_adaptTestRunOK := Some False\<rparr>) ids db"

section \<open>The pipeline\<close>

text \<open>The steps on the runs that can be analysed, each behind its flag; the count is \<open>processedRows\<close>.\<close>

definition metricFilter :: "adapt_input \<Rightarrow> adapt_filter option" where
  "metricFilter inp =
     (let f = ai_filter inp in
      if truthy_text (mf_dashboard f) \<or> truthy_panel (mf_panel f) \<or> truthy_text (mf_metric f) then Some f else None)"

definition results_step :: "rat \<Rightarrow> adapt_input \<Rightarrow> string list \<Rightarrow> adapt_db \<times> nat \<Rightarrow> adapt_error + adapt_db \<times> nat" where
  "results_step env_floor inp ids st =
     (if ai_updateResults inp then
        and_then (processAdaptResults env_floor (fst st) ids (metricFilter inp))
          (\<lambda>(db, n). Inr (deleteOrphanedResults db ids (metricFilter inp), snd st + n))
      else Inr st)"

definition delete_tracked :: "adapt_db \<Rightarrow> string list \<Rightarrow> adapt_db" where
  "delete_tracked db ids = db\<lparr>ad_tracked := filter (\<lambda>t. ar_test_run_id t \<notin> set ids) (ad_tracked db)\<rparr>"

definition tracked_step :: "rat \<Rightarrow> adapt_input \<Rightarrow> string list \<Rightarrow> adapt_db \<times> nat \<Rightarrow> adapt_error + adapt_db \<times> nat" where
  "tracked_step env_floor inp ids st =
     (if ai_updateTrackedResults inp then
        and_then (storeTrackedResults env_floor (delete_tracked (fst st) ids) ids) (\<lambda>(db, n). Inr (db, snd st + n))
      else Inr st)"

definition conclusions_step :: "adapt_input \<Rightarrow> string list \<Rightarrow> adapt_db \<times> nat \<Rightarrow> adapt_error + adapt_db \<times> nat" where
  "conclusions_step inp ids st =
     (if ai_updateConclusion inp then
        and_then (generateConclusions (fst st) ids) (\<lambda>(db, n). Inr (db, snd st + n))
      else Inr st)"

definition analyse :: "rat \<Rightarrow> adapt_input \<Rightarrow> string list \<Rightarrow> adapt_db \<Rightarrow> adapt_error + adapt_db \<times> nat" where
  "analyse env_floor inp ids db =
     and_then (results_step env_floor inp ids (db, 0)) (\<lambda>st.
     and_then (tracked_step env_floor inp ids st) (\<lambda>st.
     conclusions_step inp ids st))"

definition transaction :: "rat \<Rightarrow> adapt_input \<Rightarrow> adapt_db \<Rightarrow> adapt_error + adapt_db \<times> nat" where
  "transaction env_floor inp db =
     (case find (\<lambda>i. i \<notin> rn_id ` set (ad_runs db)) (ai_testRunIds inp) of
        Some i \<Rightarrow> Inl (TestRunNotFound i)
      | None \<Rightarrow>
         let (db1, v) = runPreProcessingValidation (updateEvaluationStatus db (ai_testRunIds inp) ''IN_PROGRESS'') (ai_testRunIds inp) in
         if va_processable v = [] then
           Inr (if ai_updateConclusion inp then writeExclusionConclusions db1 v else db1, 0)
         else
           and_then (analyse env_floor inp (va_processable v) db1)
             (\<lambda>(db2, n). Inr (updateFinalStatus db2 (ai_testRunIds inp), n)))"

text \<open>The tables afterwards and the answer: the rows processed, or the error.\<close>

definition execute :: "rat \<Rightarrow> raw_input \<Rightarrow> adapt_db \<Rightarrow> adapt_db \<times> (adapt_error + nat)" where
  "execute env_floor input db =
     (case validateInput input of None \<Rightarrow> (db, Inl InvalidInput)
      | Some inp \<Rightarrow>
         (case transaction env_floor inp db of
            Inr (db', n) \<Rightarrow> (db', Inr n)
          | Inl e \<Rightarrow> (updateFailureStatus db (ai_testRunIds inp), Inl e)))"

section \<open>Marking runs\<close>

text \<open>The checks touch nothing but the status of runs: forgetting it, the tables are the same.\<close>

definition unmark :: "run_row \<Rightarrow> run_row" where
  "unmark r = r\<lparr>rn_evaluatingAdapt := None\<rparr>"

definition unmarked :: "adapt_db \<Rightarrow> adapt_db" where
  "unmarked db = db\<lparr>ad_runs := map unmark (ad_runs db)\<rparr>"

lemma unmarked_on_runs [simp]: "unmarked (on_runs (set_evaluating s) ids db) = unmarked db"
  by (simp add: unmarked_def on_runs_def set_evaluating_def unmark_def)

lemma unmarked_tables:
  assumes "unmarked db' = unmarked db"
  shows "ad_stats db' = ad_stats db" "ad_control db' = ad_control db" "ad_groups db' = ad_groups db"
    "ad_changepoints db' = ad_changepoints db" "ad_configs db' = ad_configs db" "ad_dashboards db' = ad_dashboards db"
    "ad_dynatrace db' = ad_dynatrace db" "ad_results db' = ad_results db" "ad_tracked db' = ad_tracked db"
    "ad_conclusions db' = ad_conclusions db" "map unmark (ad_runs db') = map unmark (ad_runs db)"
  using arg_cong [OF assms, of ad_stats] arg_cong [OF assms, of ad_control] arg_cong [OF assms, of ad_groups]
    arg_cong [OF assms, of ad_changepoints] arg_cong [OF assms, of ad_configs] arg_cong [OF assms, of ad_dashboards]
    arg_cong [OF assms, of ad_dynatrace] arg_cong [OF assms, of ad_results] arg_cong [OF assms, of ad_tracked]
    arg_cong [OF assms, of ad_conclusions] arg_cong [OF assms, of ad_runs]
  by (simp_all add: unmarked_def)

lemma unmark_same:
  assumes "unmark r' = unmark r"
  shows "rn_id r' = rn_id r" "rn_mode r' = rn_mode r" "rn_accepted r' = rn_accepted r" "rn_overall r' = rn_overall r"
    "rn_meetsRequirement r' = rn_meetsRequirement r" "too_short r' = too_short r"
  using arg_cong [OF assms, of rn_id] arg_cong [OF assms, of rn_mode] arg_cong [OF assms, of rn_accepted]
    arg_cong [OF assms, of rn_overall] arg_cong [OF assms, of rn_meetsRequirement] arg_cong [OF assms, of too_short]
  by (simp_all add: unmark_def too_short_def)

lemma unmarked_run:
  assumes "unmarked db' = unmarked db" "r' \<in> set (ad_runs db')"
  shows "\<exists>r \<in> set (ad_runs db). unmark r' = unmark r"
proof -
  have "unmark r' \<in> set (map unmark (ad_runs db))"
    using assms(2) unmarked_tables(11) [OF assms(1)] by (metis image_eqI list.set_map)
  then show ?thesis by auto
qed

definition run_too_short :: "adapt_db \<Rightarrow> string \<Rightarrow> bool" where
  "run_too_short db i = (\<exists>r \<in> set (ad_runs db). rn_id r = i \<and> too_short r)"

lemma unmarked_checks:
  assumes "unmarked db' = unmarked db"
  shows "run_too_short db' = run_too_short db" "empty_control_group db' = empty_control_group db"
proof -
  show "run_too_short db' = run_too_short db"
    unfolding run_too_short_def fun_eq_iff
    using unmarked_run [OF assms] unmarked_run [OF assms [symmetric]] unmark_same by metis
  show "empty_control_group db' = empty_control_group db"
    by (simp add: empty_control_group_def known_metrics_def valid_dashboard_def has_control_def
        unmarked_tables [OF assms] fun_eq_iff)
qed

section \<open>Who is analysed\<close>

definition analysable :: "adapt_db \<Rightarrow> string \<Rightarrow> bool" where
  "analysable db i = (i \<notin> set (ad_changepoints db) \<and> \<not> run_too_short db i \<and> \<not> empty_control_group db i)"

lemma set_too_short:
  "set (snd (checkTooShortTestRuns db ids)) = {i \<in> set ids. run_too_short db i}"
  by (auto simp: checkTooShortTestRuns_def Let_def run_too_short_def)

lemma set_empties:
  "set (snd (checkEmptyControlGroups db ids)) = {i \<in> set ids. empty_control_group db i}"
proof -
  have "i \<in> ms_test_run_id ` set (ad_stats db)" if "empty_control_group db i" for i
    using that by (fastforce simp: empty_control_group_def known_metrics_def filter_empty_conv)
  then show ?thesis by (auto simp: checkEmptyControlGroups_def Let_def)
qed

lemma set_without [simp]: "set (without xs ys) = set xs - set ys"
  by (auto simp: without_def)

lemma validation_sets:
  assumes "runPreProcessingValidation db ids = (db', v)"
  shows "set (va_changepoints v) = {i \<in> set ids. i \<in> set (ad_changepoints db)}"
    "set (va_tooShort v) = {i \<in> set ids. i \<notin> set (ad_changepoints db) \<and> run_too_short db i}"
    "set (va_emptyControlGroups v) = {i \<in> set ids. i \<notin> set (ad_changepoints db) \<and> \<not> run_too_short db i \<and> empty_control_group db i}"
    "set (va_processable v) = {i \<in> set ids. analysable db i}"
    "unmarked db' = unmarked db"
proof -
  obtain db1 c where 1: "checkForChangepoints db ids = (db1, c)" by (metis surj_pair)
  obtain db2 t where 2: "checkTooShortTestRuns db1 (without ids c) = (db2, t)" by (metis surj_pair)
  obtain db3 e where 3: "checkEmptyControlGroups db2 (without (without ids c) t) = (db3, e)" by (metis surj_pair)
  have v: "db' = db3" "v = \<lparr>va_changepoints = c, va_tooShort = t, va_emptyControlGroups = e,
      va_processable = without (without (without ids c) t) e\<rparr>"
    using assms by (simp_all add: runPreProcessingValidation_def 1 2 3)
  have u1: "unmarked db1 = unmarked db" using 1 by (auto simp: checkForChangepoints_def no_baselines_def Let_def)
  have u2: "unmarked db2 = unmarked db" using 2 u1 by (auto simp: checkTooShortTestRuns_def no_baselines_def Let_def)
  show "unmarked db' = unmarked db" using 3 u2 v by (auto simp: checkEmptyControlGroups_def no_baselines_def Let_def)
  have c: "set c = {i \<in> set ids. i \<in> set (ad_changepoints db)}"
    using 1 by (auto simp: checkForChangepoints_def Let_def)
  have t: "set t = {i \<in> set ids. i \<notin> set (ad_changepoints db) \<and> run_too_short db i}"
    using set_too_short [of db1 "without ids c"] 2 c unmarked_checks(1) [OF u1] by auto
  have e: "set e = {i \<in> set ids. i \<notin> set (ad_changepoints db) \<and> \<not> run_too_short db i \<and> empty_control_group db i}"
    using set_empties [of db2 "without (without ids c) t"] 3 c t unmarked_checks(2) [OF u2] by auto
  show "set (va_changepoints v) = {i \<in> set ids. i \<in> set (ad_changepoints db)}"
    "set (va_tooShort v) = {i \<in> set ids. i \<notin> set (ad_changepoints db) \<and> run_too_short db i}"
    "set (va_emptyControlGroups v) = {i \<in> set ids. i \<notin> set (ad_changepoints db) \<and> \<not> run_too_short db i \<and> empty_control_group db i}"
    "set (va_processable v) = {i \<in> set ids. analysable db i}"
    using c t e by (auto simp: v analysable_def)
qed

text \<open>
  The checks sort the batch. Every run of the batch is a changepoint, too short, without a baseline, or analysed,
  and only one of the four; it is analysed exactly when no changepoint is recorded for it, its ramp-up is below its
  duration, and it has no measured metric of a known dashboard or one of them has a baseline.
\<close>

theorem validation_partition:
  assumes "runPreProcessingValidation db ids = (db', v)"
  shows "set ids = set (va_changepoints v) \<union> set (va_tooShort v) \<union> set (va_emptyControlGroups v) \<union> set (va_processable v)
    \<and> set (va_changepoints v) \<inter> set (va_tooShort v) = {}
    \<and> (set (va_changepoints v) \<union> set (va_tooShort v)) \<inter> set (va_emptyControlGroups v) = {}
    \<and> (set (va_changepoints v) \<union> set (va_tooShort v) \<union> set (va_emptyControlGroups v)) \<inter> set (va_processable v) = {}
    \<and> set (va_processable v) = {i \<in> set ids. i \<notin> set (ad_changepoints db)
        \<and> \<not> (\<exists>r \<in> set (ad_runs db). rn_id r = i \<and> too_short r)
        \<and> (known_metrics db i = [] \<or> (\<exists>m \<in> set (known_metrics db i). has_control db m))}"
  unfolding validation_sets [OF assms]
  by (auto simp: analysable_def run_too_short_def empty_control_group_def)

section \<open>The whole analysis\<close>

lemma results_step_keeps:
  assumes "results_step env_floor inp ids st = Inr st'"
  shows "ad_runs (fst st') = ad_runs (fst st)" "ad_conclusions (fst st') = ad_conclusions (fst st)"
  using assms
  by (auto simp: results_step_def and_then_Inr processAdaptResults_def deleteOrphanedResults_def Let_def
      split: if_splits option.splits)

lemma tracked_step_keeps:
  assumes "tracked_step env_floor inp ids st = Inr st'"
  shows "ad_runs (fst st') = ad_runs (fst st)" "ad_conclusions (fst st') = ad_conclusions (fst st)"
    "ad_results (fst st') = ad_results (fst st)" "ad_stats (fst st') = ad_stats (fst st)"
  using assms
  by (auto simp: tracked_step_def and_then_Inr storeTrackedResults_def delete_tracked_def Let_def
      split: if_splits option.splits)

lemma conclusions_keeps:
  assumes "generateConclusions db ids = Inr (db', n)"
  shows "ad_runs db' = ad_runs db" "ad_results db' = ad_results db" "ad_tracked db' = ad_tracked db" "ad_stats db' = ad_stats db"
  using assms by (auto simp: generateConclusions_def and_then_Inr)

lemma final_status_row:
  assumes "r' \<in> set (ad_runs (updateFinalStatus db ids))" "rn_id r' \<in> set ids"
  shows "\<exists>r \<in> set (ad_runs db). r' = final_status db r \<and> rn_id r = rn_id r'"
  using assms by (auto simp: updateFinalStatus_def on_runs_def final_status_def split: if_splits)

text \<open>A successful analysis that reaches a run: its steps, and the tables between them.\<close>

lemma execute_steps:
  assumes "execute env_floor input db = (db', Inr n)" "validateInput input = Some inp"
    and "i \<in> set (ai_testRunIds inp)" "analysable db i"
  obtains ids db1 st1 st2 mid k where "set ids = {i \<in> set (ai_testRunIds inp). analysable db i}"
    "unmarked db1 = unmarked db" "results_step env_floor inp ids (db1, 0) = Inr st1"
    "tracked_step env_floor inp ids st1 = Inr st2" "conclusions_step inp ids st2 = Inr (mid, k)"
    "db' = updateFinalStatus mid (ai_testRunIds inp)"
proof -
  obtain db1 v where v: "runPreProcessingValidation (updateEvaluationStatus db (ai_testRunIds inp) ''IN_PROGRESS'')
      (ai_testRunIds inp) = (db1, v)" by (metis surj_pair)
  note sets = validation_sets [OF v]
  have start: "unmarked (updateEvaluationStatus db (ai_testRunIds inp) ''IN_PROGRESS'') = unmarked db"
    by (simp add: updateEvaluationStatus_def)
  have an: "analysable (updateEvaluationStatus db (ai_testRunIds inp) ''IN_PROGRESS'') = analysable db"
    by (simp add: analysable_def fun_eq_iff unmarked_checks [OF start] unmarked_tables [OF start])
  have ids: "set (va_processable v) = {i \<in> set (ai_testRunIds inp). analysable db i}" by (simp add: sets(4) an)
  then have ne: "va_processable v \<noteq> []" using assms(3,4) by auto
  obtain mid k where an_ok: "analyse env_floor inp (va_processable v) db1 = Inr (mid, k)"
    and db': "db' = updateFinalStatus mid (ai_testRunIds inp)"
    using assms(1,2) v ne
    by (auto simp: execute_def transaction_def and_then_Inr Let_def split: sum.splits option.splits)
  then obtain st1 st2 where steps: "results_step env_floor inp (va_processable v) (db1, 0) = Inr st1"
    "tracked_step env_floor inp (va_processable v) st1 = Inr st2" "conclusions_step inp (va_processable v) st2 = Inr (mid, k)"
    by (auto simp: analyse_def and_then_Inr)
  show thesis using that [OF ids _ steps db'] sets(5) start by simp
qed

text \<open>The tables of a successful analysis: those the conclusions were computed from, with the final status.\<close>

lemma execute_tables:
  assumes "execute env_floor input db = (db', Inr n)" "validateInput input = Some inp" "ai_updateConclusion inp"
    and "i \<in> set (ai_testRunIds inp)" "analysable db i"
  obtains ids mid before k where "i \<in> set ids" "generateConclusions before ids = Inr (mid, k)"
    "db' = updateFinalStatus mid (ai_testRunIds inp)" "map unmark (ad_runs mid) = map unmark (ad_runs db)"
proof -
  obtain ids db1 st1 st2 mid k where ids: "set ids = {i \<in> set (ai_testRunIds inp). analysable db i}"
    and db1: "unmarked db1 = unmarked db" and r: "results_step env_floor inp ids (db1, 0) = Inr st1"
    and t: "tracked_step env_floor inp ids st1 = Inr st2" and c: "conclusions_step inp ids st2 = Inr (mid, k)"
    and db': "db' = updateFinalStatus mid (ai_testRunIds inp)"
    by (rule execute_steps [OF assms(1,2,4,5)])
  obtain k' where gen: "generateConclusions (fst st2) ids = Inr (mid, k')"
    using c assms(3) by (auto simp: conclusions_step_def and_then_Inr)
  have "ad_runs mid = ad_runs db1"
    using conclusions_keeps(1) [OF gen] tracked_step_keeps(1) [OF t] results_step_keeps(1) [OF r] by simp
  then have "map unmark (ad_runs mid) = map unmark (ad_runs db)" using unmarked_tables(11) [OF db1] by simp
  then show thesis using that [OF _ gen db'] ids assms(4,5) by simp
qed

text \<open>
  C1: what a test run's record says after an analysis. A run of the batch that can be analysed and has results ends
  \<open>COMPLETED\<close>; it is in order when it is a baseline run, or when no result that counts, new or tracked, is a regression
  (a run whose results are all ignored is in order). Its overall result is the conjunction with its requirements, unless
  the user accepted the differences: then it stays.
\<close>

theorem execute_verdict:
  assumes "execute env_floor input db = (db', Inr n)" "validateInput input = Some inp" "ai_updateConclusion inp"
    and "i \<in> set (ai_testRunIds inp)" "analysable db i" "\<exists>x \<in> set (ad_results db'). ar_test_run_id x = i"
    and "r' \<in> set (ad_runs db')" "rn_id r' = i"
  defines "fine \<equiv> rn_mode r' = Some ''BASELINE'' \<or> \<not> comparable db' i
      \<or> \<not> regressed (ad_results db') i \<and> \<not> regressed (ad_tracked db') i"
  shows "rn_evaluatingAdapt r' = Some ''COMPLETED'' \<and> rn_adaptTestRunOK r' = Some fine
    \<and> (\<exists>r \<in> set (ad_runs db). rn_id r = i \<and> rn_overall r' =
         (if rn_accepted r = Some ''ACCEPTED'' then rn_overall r else Some (rn_meetsRequirement r \<noteq> Some False \<and> fine)))"
proof -
  obtain ids mid before k where mid: "i \<in> set ids" "generateConclusions before ids = Inr (mid, k)"
    "db' = updateFinalStatus mid (ai_testRunIds inp)" "map unmark (ad_runs mid) = map unmark (ad_runs db)"
    by (rule execute_tables [OF assms(1-5)]) blast
  note keeps = conclusions_keeps [OF mid(2)]
  have same: "ad_results db' = ad_results before" "ad_tracked db' = ad_tracked before"
    by (simp_all add: mid(3) updateFinalStatus_def on_runs_def keeps)
  have there: "\<exists>x \<in> set (ad_results before). ar_test_run_id x = i" using assms(6) by (simp add: same)
  have comp: "comparable before i = comparable db' i" by (simp add: comparable_def same)
  have "concluded_regression mid i
      \<longleftrightarrow> comparable db' i \<and> (regressed (ad_results db') i \<or> regressed (ad_tracked db') i)"
    using verdict_exact [OF mid(2,1) there] unfolding concluded_regression_def same comp by (auto split: if_splits)
  moreover obtain s where s: "s \<in> set (ad_runs mid)" "r' = final_status mid s" "rn_id s = i"
    using final_status_row [of r' mid "ai_testRunIds inp"] assms(4,7,8) mid(3) by auto
  moreover have "rn_mode s = Some ''BASELINE'' \<longleftrightarrow> (case rn_mode s of None \<Rightarrow> ''COMPARISON'' | Some m \<Rightarrow> m) = ''BASELINE''"
    by (simp split: option.split)
  ultimately have ok: "adapt_ok mid s = fine"
    by (auto simp: adapt_ok_def fine_def final_status_def)
  have "unmark s \<in> set (map unmark (ad_runs db))" using s(1) mid(4) by (metis image_eqI list.set_map)
  then obtain r where r: "r \<in> set (ad_runs db)" "unmark s = unmark r" by auto
  have meets: "(case m of None \<Rightarrow> True | Some b \<Rightarrow> b) \<longleftrightarrow> m \<noteq> Some False" for m by (cases m) auto
  show ?thesis
    using r s ok unmark_same [OF r(2)] by (auto simp: final_status_def meets intro!: bexI [of _ r])
qed

lemma conclusions_step_keeps:
  "conclusions_step inp ids st = Inr st' \<Longrightarrow> ad_results (fst st') = ad_results (fst st)"
  by (auto simp: conclusions_step_def and_then_Inr conclusions_keeps split: if_splits)

lemma results_step_clean:
  assumes "results_step env_floor inp ids st = Inr st'" "ai_updateResults inp" "metricFilter inp = None"
    and "r \<in> set (ad_results (fst st'))" "ar_test_run_id r \<in> set ids" "has_statistics (fst st) (ar_test_run_id r)"
  shows "still_measured (fst st) r"
proof -
  obtain db n where "processAdaptResults env_floor (fst st) ids None = Inr (db, n)" "fst st' = deleteOrphanedResults db ids None"
    using assms(1-3) by (auto simp: results_step_def and_then_Inr)
  moreover from this(1) have "ad_stats db = ad_stats (fst st)"
    by (auto simp: processAdaptResults_def and_then_Inr Let_def split: option.splits)
  ultimately show ?thesis
    using assms(4-6) by (auto simp: deleteOrphanedResults_def is_orphan_def still_measured_def has_statistics_def passes_filter_def)
qed


section \<open>A demonstration\<close>

definition demo_input :: "string list \<Rightarrow> raw_input" where
  "demo_input ids = \<lparr>ri_is_object = True, ri_testRunIds = AnArray (map Some ids), ri_updateResults = None,
     ri_updateConclusion = None, ri_updateTrackedResults = None,
     ri_filter = \<lparr>mf_dashboard = None, mf_panel = None, mf_metric = None\<rparr>\<rparr>"

definition demo_parsed :: "string list \<Rightarrow> adapt_input" where
  "demo_parsed ids = \<lparr>ai_testRunIds = ids, ai_updateResults = True, ai_updateConclusion = True,
     ai_updateTrackedResults = True, ai_filter = \<lparr>mf_dashboard = None, mf_panel = None, mf_metric = None\<rparr>\<rparr>"

definition demo_done :: adapt_db where
  "demo_done = fst (execute 2 (demo_input [''r1'']) shop_db)"

lemma demo_executed: "\<exists>n. execute 2 (demo_input [''r1'']) shop_db = (demo_done, Inr n)"
proof -
  have "\<not> isl (snd (execute 2 (demo_input [''r1'']) shop_db))" by code_simp
  then obtain n where "snd (execute 2 (demo_input [''r1'']) shop_db) = Inr n"
    by (metis isl_def old.sum.exhaust)
  then have "execute 2 (demo_input [''r1'']) shop_db = (demo_done, Inr n)"
    unfolding demo_done_def by (metis prod.collapse)
  then show ?thesis by blast
qed

lemma demo_valid: "validateInput (demo_input [''r1'']) = Some (demo_parsed [''r1''])"
  by (simp add: validateInput_def demo_input_def demo_parsed_def)

theorem validation_partition_witness:
  "set (va_processable (snd (runPreProcessingValidation shop_db [''r1'']))) = {''r1''}"
proof -
  obtain db v where v: "runPreProcessingValidation shop_db [''r1''] = (db, v)" by (metis surj_pair)
  have base: "\<exists>m \<in> set (known_metrics shop_db ''r1''). has_control shop_db m" by code_simp
  have long: "\<not> (\<exists>r \<in> set (ad_runs shop_db). rn_id r = ''r1'' \<and> too_short r)" by code_simp
  have fresh: "''r1'' \<notin> set (ad_changepoints shop_db)" by code_simp
  have "set (va_processable v) = {i \<in> set [''r1'']. i \<notin> set (ad_changepoints shop_db)
        \<and> \<not> (\<exists>r \<in> set (ad_runs shop_db). rn_id r = i \<and> too_short r)
        \<and> (known_metrics shop_db i = [] \<or> (\<exists>m \<in> set (known_metrics shop_db i). has_control shop_db m))}"
    by (rule validation_partition [OF v, THEN conjunct2, THEN conjunct2, THEN conjunct2, THEN conjunct2])
  also have "\<dots> = {''r1''}" using base long fresh by (intro set_eqI iffI) (simp_all del: bex_simps)
  finally show ?thesis by (simp add: v)
qed

theorem execute_verdict_witness:
  "\<exists>r \<in> set (ad_runs demo_done). rn_id r = ''r1'' \<and> rn_evaluatingAdapt r = Some ''COMPLETED''
     \<and> rn_adaptTestRunOK r = Some False"
proof -
  obtain n where ex: "execute 2 (demo_input [''r1'']) shop_db = (demo_done, Inr n)" using demo_executed by blast
  have an: "analysable shop_db ''r1''" by code_simp
  have res: "\<exists>x \<in> set (ad_results demo_done). ar_test_run_id x = ''r1''" by code_simp
  have row: "\<exists>r \<in> set (ad_runs demo_done). rn_id r = ''r1'' \<and> rn_mode r = None" by code_simp
  have reg: "comparable demo_done ''r1''" "regressed (ad_tracked demo_done) ''r1''" by code_simp+
  from row obtain r where r: "r \<in> set (ad_runs demo_done)" "rn_id r = ''r1''" "rn_mode r = None" by blast
  from execute_verdict [OF ex demo_valid _ _ an res r(1,2)] r reg show ?thesis
    by (auto simp: demo_parsed_def intro!: bexI [of _ r])
qed


text \<open>
  Three batches that end otherwise than the messages say. A run without any statistics is not recognised as a run
  without a baseline: it is in order although nothing was compared. A run whose metrics are all incomparable passes, though
  its verdict is described as \<open>SKIPPED\<close> then. And a run excluded next to one that is analysed ends \<open>COMPLETED\<close> and in
  order, without an explanation.
\<close>

definition verdict_in :: "string \<Rightarrow> adapt_db \<Rightarrow> verdict list" where
  "verdict_in i db = map co_conclusion (filter (\<lambda>c. co_test_run_id c = i) (ad_conclusions db))"

definition status_in :: "string \<Rightarrow> adapt_db \<Rightarrow> (string option \<times> bool option) list" where
  "status_in i db = map (\<lambda>r. (rn_evaluatingAdapt r, rn_adaptTestRunOK r)) (filter (\<lambda>r. rn_id r = i) (ad_runs db))"

lemma nothing_measured_is_fine:
  "status_in ''r1'' (fst (execute 2 (demo_input [''r1'']) (shop_db\<lparr>ad_stats := []\<rparr>))) = [(Some ''COMPLETED'', Some True)]"
  "verdict_in ''r1'' (fst (execute 2 (demo_input [''r1'']) (shop_db\<lparr>ad_stats := []\<rparr>))) = []"
  by code_simp+

lemma all_incomparable_passes:
  "verdict_in ''r1'' (fst (execute 50 (demo_input [''r1'']) shop_db)) = [PASSED]"
  "map (\<lambda>r. cn_label (ar_conclusion r)) (filter (\<lambda>r. ar_test_run_id r = ''r1'')
     (ad_results (fst (execute 50 (demo_input [''r1'']) shop_db)))) = [Incomparable]"
  by code_simp+

lemma excluded_beside_analysed:
  "status_in ''r2'' (fst (execute 2 (demo_input [''r2'']) (shop_db\<lparr>ad_runs := ad_runs shop_db @ [shop_run ''r2''],
     ad_changepoints := [''r2'']\<rparr>))) = [(Some ''NO_BASELINES_FOUND'', None)]"
  "status_in ''r2'' (fst (execute 2 (demo_input [''r1'', ''r2'']) (shop_db\<lparr>ad_runs := ad_runs shop_db @ [shop_run ''r2''],
     ad_changepoints := [''r2'']\<rparr>))) = [(Some ''COMPLETED'', Some True)]"
  "verdict_in ''r2'' (fst (execute 2 (demo_input [''r1'', ''r2'']) (shop_db\<lparr>ad_runs := ad_runs shop_db @ [shop_run ''r2''],
     ad_changepoints := [''r2'']\<rparr>))) = []"
  by code_simp+

end
