(* ===== verification/Statistics.thy ===== *)
theory Statistics
  imports AdaptRun "HOL-Library.Char_ord" "HOL-Library.List_Lexorder"
begin

text \<open>
  The statistics of a test run: \<open>pipelines/StatisticsPipeline.ts\<close> with the statement of
  \<open>pipelines/helpers/statistics-sql.ts\<close>.

  The pipeline first brings the flag that marks a sample as outside the analysis window up to date, then replaces the
  statistics of the runs that still have samples. Values are rationals. The database toolkit's quantile sketch is a
  parameter (its type \<open>'s\<close>, building, combining and reading it), as is the square root of the database. Rules that group
  series are taken to be absent (\<open>NO_SERIES_GROUPING\<close>): \<open>series-grouping-plan.ts\<close> is not modelled. Decompression,
  time budgets and log lines are left out.
\<close>

section \<open>Rows\<close>

text \<open>A run with its time columns; times are milliseconds, offsets seconds.\<close>

record timed_run = run_row +
  tn_start_time :: "int option"
  tn_end_time :: "int option"
  tn_ramp_down :: "int option"
  tn_organization :: "string option"

record metric_point =
  mp_run :: string
  mp_dashboard :: string
  mp_panel :: nat
  mp_metric :: string
  mp_time :: int
  mp_value :: "rat option"
  mp_ramp_up :: "bool option"
  mp_source :: "string option"
  mp_dashboard_uid :: string

record 's statistics_row = metric_row +
  sr_sum :: "rat option"
  sr_sum_sq :: "rat option"
  sr_sketch :: "'s option"
  sr_n_missing :: nat
  sr_n_non_zero :: nat
  sr_dashboard_uid :: string
  sr_trend :: "rat option"
  sr_trend_corr :: "rat option"

record dashboard_row =
  db_dashboard :: "string option"
  db_organization :: "string option"

record 's stats_db =
  sd_runs :: "timed_run list"
  sd_points :: "metric_point list"
  sd_stats :: "'s statistics_row list"
  sd_dashboards :: "dashboard_row list"
  sd_dynatrace :: "dashboard_row list"

text \<open>What the pipeline uses of the database toolkit.\<close>

record 's quantiles =
  qt_agg :: "rat list \<Rightarrow> 's"
  qt_rollup :: "'s list \<Rightarrow> 's"
  qt_percentile :: "rat \<Rightarrow> 's \<Rightarrow> rat"

section \<open>The analysis window\<close>

definition or_zero :: "int option \<Rightarrow> rat" where
  "or_zero x = (case x of None \<Rightarrow> 0 | Some k \<Rightarrow> of_int k)"

definition epoch :: "int \<Rightarrow> int \<Rightarrow> rat" where
  "epoch later earlier = of_int (later - earlier) / 1000"

text \<open>\<open>RAMP_UP_EXPR\<close> for a run with a start and an end.\<close>

definition outside_window :: "timed_run \<Rightarrow> int \<Rightarrow> int \<Rightarrow> int \<Rightarrow> bool" where
  "outside_window r s e t =
     (epoch e s > or_zero (rn_ramp_up r) + or_zero (tn_ramp_down r)
      \<and> (epoch t s < or_zero (rn_ramp_up r)
         \<or> or_zero (tn_ramp_down r) > 0 \<and> epoch t s > epoch e s - or_zero (tn_ramp_down r)))"

definition run_named :: "timed_run list \<Rightarrow> string \<Rightarrow> timed_run option" where
  "run_named runs i = find (\<lambda>r. rn_id r = i) runs"

text \<open>The flag the current offsets ask for; \<open>None\<close> for a run without a start or an end, which is left as it is.\<close>

definition wanted_flag :: "timed_run list \<Rightarrow> metric_point \<Rightarrow> bool option" where
  "wanted_flag runs p =
     (case run_named runs (mp_run p) of None \<Rightarrow> None
      | Some r \<Rightarrow> (case (tn_start_time r, tn_end_time r) of
                     (Some s, Some e) \<Rightarrow> Some (outside_window r s e (mp_time p))
                   | _ \<Rightarrow> None))"

definition stale_flag :: "timed_run list \<Rightarrow> metric_point \<Rightarrow> bool" where
  "stale_flag runs p = (wanted_flag runs p \<noteq> None \<and> mp_ramp_up p \<noteq> wanted_flag runs p)"

record stale_run =
  sl_run :: string
  sl_from :: int
  sl_to :: int

definition stale_times :: "'s stats_db \<Rightarrow> string \<Rightarrow> int list" where
  "stale_times db i = map mp_time (filter (\<lambda>p. mp_run p = i \<and> stale_flag (sd_runs db) p) (sd_points db))"

definition findRunsWithStaleRampUpFlags :: "'s stats_db \<Rightarrow> string list \<Rightarrow> stale_run list" where
  "findRunsWithStaleRampUpFlags db ids =
     map (\<lambda>i. \<lparr>sl_run = i, sl_from = foldl min (hd (stale_times db i)) (stale_times db i),
             sl_to = foldl max (hd (stale_times db i)) (stale_times db i)\<rparr>)
       (filter (\<lambda>i. stale_times db i \<noteq> []) (remdups ids))"

text \<open>The \<open>UPDATE\<close> of one run.\<close>

definition refresh_run :: "timed_run list \<Rightarrow> metric_point list \<Rightarrow> stale_run \<Rightarrow> metric_point list" where
  "refresh_run runs points s =
     map (\<lambda>p. if mp_run p = sl_run s \<and> sl_from s \<le> mp_time p \<and> mp_time p \<le> sl_to s \<and> stale_flag runs p
             then p\<lparr>mp_ramp_up := wanted_flag runs p\<rparr> else p) points"

definition refreshRampUpFlags :: "'s stats_db \<Rightarrow> stale_run list \<Rightarrow> 's stats_db" where
  "refreshRampUpFlags db stale = db\<lparr>sd_points := foldl (refresh_run (sd_runs db)) (sd_points db) stale\<rparr>"

section \<open>One series\<close>

definition avg :: "rat list \<Rightarrow> rat" where
  "avg vs = sum_list vs / of_nat (length vs)"

definition square :: "rat \<Rightarrow> rat" where
  "square x = x * x"

text \<open>\<open>VAR_POP\<close>; the square root of the database is \<open>sq\<close>.\<close>

definition variance :: "rat list \<Rightarrow> rat" where
  "variance vs = avg (map (\<lambda>v. square (v - avg vs)) vs)"

fun latest :: "metric_point list \<Rightarrow> metric_point option" where
  "latest [] = None"
| "latest (p # ps) = (case latest ps of None \<Rightarrow> Some p | Some q \<Rightarrow> if mp_time p > mp_time q then Some p else Some q)"

text \<open>\<open>regr_slope\<close> and \<open>corr\<close> of the values against the time in seconds.\<close>

definition sxy :: "rat list \<Rightarrow> rat list \<Rightarrow> rat" where
  "sxy xs ys = sum_list (map2 (\<lambda>x y. (x - avg xs) * (y - avg ys)) xs ys)"

definition regr_slope :: "rat list \<Rightarrow> rat list \<Rightarrow> rat option" where
  "regr_slope ys xs = (if sxy xs xs = 0 then None else Some (sxy xs ys / sxy xs xs))"

definition corr :: "(rat \<Rightarrow> rat) \<Rightarrow> rat list \<Rightarrow> rat list \<Rightarrow> rat option" where
  "corr sq ys xs = (if sxy xs xs = 0 \<or> sxy ys ys = 0 then None else Some (sxy xs ys / sq (sxy xs xs * sxy ys ys)))"

definition trend_pct_per_hour :: "rat list \<Rightarrow> rat list \<Rightarrow> rat option" where
  "trend_pct_per_hour vs ts =
     (if avg vs \<noteq> 0 then map_option (\<lambda>b. b * 3600 / \<bar>avg vs\<bar> * 100) (regr_slope vs ts)
      else if Min (set vs) = Max (set vs) then Some 0 else None)"

definition min_text :: "string option list \<Rightarrow> string option" where
  "min_text xs = (case present xs of [] \<Rightarrow> None | y # ys \<Rightarrow> Some (foldl min y ys))"

text \<open>The statistics of the points of one series, which is not empty; no value is missing.\<close>

definition series_stats :: "'s quantiles \<Rightarrow> (rat \<Rightarrow> rat) \<Rightarrow> metric_point list \<Rightarrow> metric_stats" where
  "series_stats qt sq ps =
     (let vs = map (\<lambda>p. the (mp_value p)) ps; k = qt_agg qt vs; q = (\<lambda>r. qt_percentile qt r k) in
      \<lparr>st_mean = Some (avg vs), st_median = Some (q (1 / 2)), st_min = Some (Min (set vs)), st_max = Some (Max (set vs)),
       st_std = Some (sq (variance vs)), st_last = Option.bind (latest ps) mp_value,
       st_q10 = Some (q (1 / 10)), st_q25 = Some (q (1 / 4)), st_q75 = Some (q (3 / 4)), st_q90 = Some (q (9 / 10)),
       st_q95 = Some (q (19 / 20)), st_q99 = Some (q (99 / 100)), st_iqr = Some (q (3 / 4) - q (1 / 4)),
       st_count = Some (int (length vs)), st_is_constant = Some (Min (set vs) = Max (set vs)),
       st_all_missing = Some (length vs = 0)\<rparr>)"

record series_key =
  sk_run :: string
  sk_dashboard :: string
  sk_panel :: nat
  sk_metric :: string

definition key_of_point :: "metric_point \<Rightarrow> series_key" where
  "key_of_point p = \<lparr>sk_run = mp_run p, sk_dashboard = mp_dashboard p, sk_panel = mp_panel p, sk_metric = mp_metric p\<rparr>"

definition stat_of :: "'s quantiles \<Rightarrow> (rat \<Rightarrow> rat) \<Rightarrow> series_key \<Rightarrow> metric_point list \<Rightarrow> 's statistics_row" where
  "stat_of qt sq k ps =
     (let vs = map (\<lambda>p. the (mp_value p)) ps; ts = map (\<lambda>p. of_int (mp_time p) / 1000) ps in
      \<lparr>ms_test_run_id = sk_run k, ms_dashboard = sk_dashboard k, ms_panel = sk_panel k, ms_metric = sk_metric k,
       ms_source = min_text (map mp_source ps), ms_stats = series_stats qt sq ps,
       sr_sum = Some (sum_list vs), sr_sum_sq = Some (sum_list (map square vs)), sr_sketch = Some (qt_agg qt vs),
       sr_n_missing = 0, sr_n_non_zero = length (filter (\<lambda>v. v > 0) vs),
       sr_dashboard_uid = foldl min (mp_dashboard_uid (hd ps)) (map mp_dashboard_uid ps),
       sr_trend = trend_pct_per_hour vs ts, sr_trend_corr = corr sq vs ts\<rparr>)"

section \<open>The pipeline\<close>

text \<open>The dashboards of the organizations of the runs, and those without an organization.\<close>

definition allowed_dashboard :: "'s stats_db \<Rightarrow> string list \<Rightarrow> string \<Rightarrow> bool" where
  "allowed_dashboard db ids d =
     (let orgs = map tn_organization (filter (\<lambda>r. rn_id r \<in> set ids) (sd_runs db)) in
      \<exists>a \<in> set (sd_dashboards db @ sd_dynatrace db). db_dashboard a = Some d
        \<and> (db_organization a = None \<or> db_organization a \<in> set orgs))"

definition steady :: "metric_point \<Rightarrow> bool" where
  "steady p = (mp_ramp_up p = Some False \<and> mp_value p \<noteq> None)"

definition metrics_filtered :: "'s stats_db \<Rightarrow> string list \<Rightarrow> metric_point list" where
  "metrics_filtered db ids =
     filter (\<lambda>p. mp_run p \<in> set ids \<and> mp_run p \<in> rn_id ` set (sd_runs db) \<and> steady p \<and> allowed_dashboard db ids (mp_dashboard p))
       (sd_points db)"

definition grouped :: "('a \<Rightarrow> 'k) \<Rightarrow> ('k \<Rightarrow> 'a list \<Rightarrow> 'b) \<Rightarrow> 'a list \<Rightarrow> 'b list" where
  "grouped key f xs = map (\<lambda>k. f k (filter (\<lambda>x. key x = k) xs)) (remdups (map key xs))"

definition aggregateMetricStatistics :: "'s quantiles \<Rightarrow> (rat \<Rightarrow> rat) \<Rightarrow> 's stats_db \<Rightarrow> string list \<Rightarrow> 's stats_db" where
  "aggregateMetricStatistics qt sq db ids =
     db\<lparr>sd_stats := filter (\<lambda>s. ms_test_run_id s \<notin> set ids) (sd_stats db)
                   @ grouped key_of_point (stat_of qt sq) (metrics_filtered db ids)\<rparr>"

definition filterRunsWithMetrics :: "'s stats_db \<Rightarrow> string list \<Rightarrow> string list" where
  "filterRunsWithMetrics db ids = filter (\<lambda>i. i \<in> mp_run ` set (sd_points db)) ids"

text \<open>The tables afterwards, and the number of records the pipeline reports.\<close>

definition calculateStatistics :: "'s quantiles \<Rightarrow> (rat \<Rightarrow> rat) \<Rightarrow> 's stats_db \<Rightarrow> string list \<Rightarrow> 's stats_db \<times> nat" where
  "calculateStatistics qt sq db testRunIds =
     (let runIds = filterRunsWithMetrics db testRunIds in
      if runIds = [] then (db, 0)
      else
        let db' = aggregateMetricStatistics qt sq (refreshRampUpFlags db (findRunsWithStaleRampUpFlags db runIds)) runIds in
        (db', length (filter (\<lambda>s. ms_test_run_id s \<in> set runIds) (sd_stats db'))))"


text \<open>\<open>execute\<close> with its input check.\<close>

definition executeStatistics :: "'s quantiles \<Rightarrow> (rat \<Rightarrow> rat) \<Rightarrow> 's stats_db \<Rightarrow> string list \<Rightarrow> 's stats_db \<times> (adapt_error + nat)" where
  "executeStatistics qt sq db testRunIds =
     (if testRunIds = [] then (db, Inl InvalidInput)
      else let (db', n) = calculateStatistics qt sq db testRunIds in (db', Inr n))"

section \<open>Bringing the flags up to date\<close>

lemma foldl_map_points: "foldl (\<lambda>ps s. map (f s) ps) ps ss = map (\<lambda>p. foldl (\<lambda>q s. f s q) p ss) ps"
  by (induction ss arbitrary: ps) simp_all

lemma foldl_min_lower: "foldl min a xs \<le> a \<and> (\<forall>x \<in> set xs. foldl min a xs \<le> x)" for a :: "'a :: linorder"
  by (induction xs arbitrary: a) (simp_all, metis min.bounded_iff min.coboundedI1)

lemma foldl_max_upper: "a \<le> foldl max a xs \<and> (\<forall>x \<in> set xs. x \<le> foldl max a xs)" for a :: "'a :: linorder"
  by (induction xs arbitrary: a) (simp_all, metis max.bounded_iff max.coboundedI1)

text \<open>Whether and when a sample is outside the window depends on its run and its time only.\<close>

lemma wanted_flag_update [simp]: "wanted_flag runs (p\<lparr>mp_ramp_up := b\<rparr>) = wanted_flag runs p"
  by (simp add: wanted_flag_def split: option.split)

lemma stale_flag_fresh [simp]: "\<not> stale_flag runs (p\<lparr>mp_ramp_up := wanted_flag runs p\<rparr>)"
  by (simp add: stale_flag_def)

definition spans_sample :: "stale_run \<Rightarrow> metric_point \<Rightarrow> bool" where
  "spans_sample s p = (mp_run p = sl_run s \<and> sl_from s \<le> mp_time p \<and> mp_time p \<le> sl_to s)"

definition refresh_point :: "timed_run list \<Rightarrow> stale_run \<Rightarrow> metric_point \<Rightarrow> metric_point" where
  "refresh_point runs s p = (if spans_sample s p \<and> stale_flag runs p then p\<lparr>mp_ramp_up := wanted_flag runs p\<rparr> else p)"

lemma same_flag: "mp_ramp_up p = f \<Longrightarrow> p\<lparr>mp_ramp_up := f\<rparr> = p"
  by (cases p) simp

lemma refresh_run_points: "refresh_run runs points s = map (refresh_point runs s) points"
  by (simp add: refresh_run_def refresh_point_def spans_sample_def)

lemma refresh_fresh [simp]: "\<not> stale_flag runs p \<Longrightarrow> foldl (\<lambda>q s. refresh_point runs s q) p ss = p"
  by (induction ss) (simp_all add: refresh_point_def)

lemma refresh_points:
  "foldl (\<lambda>q s. refresh_point runs s q) p ss
     = (if (\<exists>s \<in> set ss. spans_sample s p) \<and> stale_flag runs p then p\<lparr>mp_ramp_up := wanted_flag runs p\<rparr> else p)"
proof (induction ss)
  case (Cons s ss)
  show ?case by (cases "spans_sample s p \<and> stale_flag runs p") (use Cons.IH in \<open>auto simp: refresh_point_def [of runs s]\<close>)
qed simp

definition refreshed :: "timed_run list \<Rightarrow> string list \<Rightarrow> metric_point \<Rightarrow> metric_point" where
  "refreshed runs ids p = (if mp_run p \<in> set ids \<and> wanted_flag runs p \<noteq> None then p\<lparr>mp_ramp_up := wanted_flag runs p\<rparr> else p)"

lemma stale_covered:
  assumes "p \<in> set (sd_points db)" "stale_flag (sd_runs db) p"
  shows "(\<exists>s \<in> set (findRunsWithStaleRampUpFlags db ids). spans_sample s p) \<longleftrightarrow> mp_run p \<in> set ids"
proof -
  let ?ts = "stale_times db (mp_run p)"
  have t: "mp_time p \<in> set ?ts" using assms by (auto simp: stale_times_def)
  then have ne: "?ts \<noteq> []" by auto
  have "foldl min (hd ?ts) ?ts \<le> mp_time p" "mp_time p \<le> foldl max (hd ?ts) ?ts"
    using t foldl_min_lower [of "hd ?ts" ?ts] foldl_max_upper [of "hd ?ts" ?ts] by auto
  then show ?thesis using ne by (auto simp: findRunsWithStaleRampUpFlags_def spans_sample_def)
qed

text \<open>
  The updates, each bounded to one run and to the time span of its stale samples, equal recomputing the flag of every sample
  of the runs. A sample of a run without a start or an end keeps its flag.
\<close>

lemma refresh_exact:
  "sd_points (refreshRampUpFlags db (findRunsWithStaleRampUpFlags db ids)) = map (refreshed (sd_runs db) ids) (sd_points db)"
proof -
  let ?ss = "findRunsWithStaleRampUpFlags db ids" and ?r = "sd_runs db"
  have "foldl (refresh_run ?r) (sd_points db) ?ss = map (\<lambda>p. foldl (\<lambda>q s. refresh_point ?r s q) p ?ss) (sd_points db)"
    by (simp add: refresh_run_points [abs_def] foldl_map_points)
  also have "\<dots> = map (refreshed ?r ids) (sd_points db)"
  proof (rule map_cong [OF refl])
    fix p assume p: "p \<in> set (sd_points db)"
    show "foldl (\<lambda>q s. refresh_point ?r s q) p ?ss = refreshed ?r ids p"
    proof (cases "stale_flag ?r p")
      case True
      then show ?thesis using stale_covered [OF p True, of ids] by (auto simp: refresh_points refreshed_def stale_flag_def)
    next
      case False
      then show ?thesis by (auto simp: refreshed_def stale_flag_def same_flag)
    qed
  qed
  finally show ?thesis by (simp add: refreshRampUpFlags_def)
qed

section \<open>The statistics of a series\<close>

definition stat_key :: "'s statistics_row \<Rightarrow> series_key" where
  "stat_key s = \<lparr>sk_run = ms_test_run_id s, sk_dashboard = ms_dashboard s, sk_panel = ms_panel s, sk_metric = ms_metric s\<rparr>"

lemma stat_of_key [simp]: "stat_key (stat_of qt sq k ps) = k" "ms_test_run_id (stat_of qt sq k ps) = sk_run k"
  by (simp_all add: stat_key_def stat_of_def Let_def)

text \<open>The flag is not read again once the samples of a series are chosen.\<close>

lemma latest_map: "(\<And>p. mp_time (f p) = mp_time p) \<Longrightarrow> latest (map f ps) = map_option f (latest ps)"
  by (induction ps) (auto split: option.split)

lemma stat_of_map:
  assumes "\<And>p. mp_time (f p) = mp_time p" "\<And>p. mp_value (f p) = mp_value p" "\<And>p. mp_source (f p) = mp_source p"
    "\<And>p. mp_dashboard_uid (f p) = mp_dashboard_uid p"
  shows "stat_of qt sq k (map f ps) = stat_of qt sq k ps"
proof (cases ps)
  case (Cons q qs)
  have "Option.bind (latest (map f ps)) mp_value = Option.bind (latest ps) mp_value"
    by (simp add: latest_map [of f] assms) (cases "latest ps"; simp add: assms)
  then show ?thesis by (simp add: stat_of_def series_stats_def Let_def assms o_def Cons)
qed simp

text \<open>Whether a sample belongs to the analysis under the offsets of its run: the stored flag decides only for a run whose
  window is unknown.\<close>

definition analysed :: "timed_run list \<Rightarrow> metric_point \<Rightarrow> bool" where
  "analysed runs p = (mp_value p \<noteq> None
     \<and> (case wanted_flag runs p of None \<Rightarrow> mp_ramp_up p = Some False | Some outside \<Rightarrow> \<not> outside))"

definition series_points :: "'s stats_db \<Rightarrow> series_key \<Rightarrow> metric_point list" where
  "series_points db k = filter (\<lambda>p. key_of_point p = k \<and> analysed (sd_runs db) p) (sd_points db)"

definition series_row :: "'s quantiles \<Rightarrow> (rat \<Rightarrow> rat) \<Rightarrow> 's stats_db \<Rightarrow> series_key \<Rightarrow> 's statistics_row list" where
  "series_row qt sq db k = (if series_points db k = [] then [] else [stat_of qt sq k (series_points db k)])"

lemma refreshed_simps [simp]:
  "mp_run (refreshed runs ids p) = mp_run p" "mp_time (refreshed runs ids p) = mp_time p"
  "mp_value (refreshed runs ids p) = mp_value p" "mp_source (refreshed runs ids p) = mp_source p"
  "mp_dashboard (refreshed runs ids p) = mp_dashboard p" "mp_dashboard_uid (refreshed runs ids p) = mp_dashboard_uid p"
  "mp_panel (refreshed runs ids p) = mp_panel p" "mp_metric (refreshed runs ids p) = mp_metric p"
  "key_of_point (refreshed runs ids p) = key_of_point p"
  by (simp_all add: refreshed_def key_of_point_def)

lemma steady_refreshed: "mp_run p \<in> set ids \<Longrightarrow> steady (refreshed runs ids p) = analysed runs p"
  by (cases "wanted_flag runs p") (auto simp: steady_def analysed_def refreshed_def)

lemma refresh_tables [simp]:
  "sd_runs (refreshRampUpFlags db ss) = sd_runs db" "sd_stats (refreshRampUpFlags db ss) = sd_stats db"
  "sd_dashboards (refreshRampUpFlags db ss) = sd_dashboards db" "sd_dynatrace (refreshRampUpFlags db ss) = sd_dynatrace db"
  "allowed_dashboard (refreshRampUpFlags db ss) ids d = allowed_dashboard db ids d"
  by (simp_all add: refreshRampUpFlags_def allowed_dashboard_def)

lemma filter_singleton: "distinct xs \<Longrightarrow> filter (\<lambda>x. x = k) xs = (if k \<in> set xs then [k] else [])"
  by (induction xs) auto

lemma grouped_at:
  assumes "\<And>k xs. key' (f k xs) = k"
  shows "filter (\<lambda>r. key' r = k) (grouped key f xs)
           = (let ys = filter (\<lambda>x. key x = k) xs in if ys = [] then [] else [f k ys])"
proof -
  have "filter (\<lambda>r. key' r = k) (grouped key f xs)
          = map (\<lambda>k. f k (filter (\<lambda>x. key x = k) xs)) (filter (\<lambda>j. j = k) (remdups (map key xs)))"
    by (simp add: grouped_def filter_map o_def assms)
  also have "\<dots> = (if k \<in> key ` set xs then [f k (filter (\<lambda>x. key x = k) xs)] else [])"
    by (simp add: filter_singleton)
  finally show ?thesis by (auto simp: Let_def filter_empty_conv)
qed

definition sampled :: "'s stats_db \<Rightarrow> string \<Rightarrow> bool" where
  "sampled db i = (i \<in> mp_run ` set (sd_points db))"

text \<open>Whether the pipeline called for the runs \<open>ids\<close> computes the statistics of a series.\<close>

definition series_allowed :: "'s stats_db \<Rightarrow> string list \<Rightarrow> series_key \<Rightarrow> bool" where
  "series_allowed db ids k = (sk_run k \<in> rn_id ` set (sd_runs db) \<and> allowed_dashboard db (filterRunsWithMetrics db ids) (sk_dashboard k))"

lemma in_runs_with_metrics: "i \<in> set (filterRunsWithMetrics db ids) \<longleftrightarrow> i \<in> set ids \<and> sampled db i"
  by (simp add: filterRunsWithMetrics_def sampled_def)

lemma filtered_series:
  assumes "sk_run k \<in> set runIds"
  shows "filter (\<lambda>p. key_of_point p = k) (metrics_filtered (refreshRampUpFlags db (findRunsWithStaleRampUpFlags db runIds)) runIds)
           = (if sk_run k \<in> rn_id ` set (sd_runs db) \<and> allowed_dashboard db runIds (sk_dashboard k)
              then map (refreshed (sd_runs db) runIds) (series_points db k) else [])"
proof -
  let ?f = "refreshed (sd_runs db) runIds" and ?ok = "sk_run k \<in> rn_id ` set (sd_runs db) \<and> allowed_dashboard db runIds (sk_dashboard k)"
  have "filter (\<lambda>p. key_of_point p = k) (metrics_filtered (refreshRampUpFlags db (findRunsWithStaleRampUpFlags db runIds)) runIds)
          = map ?f (filter (\<lambda>p. ?ok \<and> key_of_point p = k \<and> analysed (sd_runs db) p) (sd_points db))"
    using assms unfolding metrics_filtered_def refresh_exact filter_map filter_filter o_def
    by (intro arg_cong [where f = "map ?f"] filter_cong [OF refl]) (auto simp: steady_refreshed key_of_point_def)
  then show ?thesis by (cases ?ok) (auto simp: series_points_def filter_empty_conv)
qed

lemma series_row_of_refreshed:
  "stat_of qt sq k (map (refreshed runs ids) ps) = stat_of qt sq k ps"
  by (rule stat_of_map) simp_all

lemma replaced_rows:
  "filter (\<lambda>s. ms_test_run_id s \<notin> set ids \<and> stat_key s = k) xs = (if sk_run k \<in> set ids then [] else filter (\<lambda>s. stat_key s = k) xs)"
  by (induction xs) (auto simp: stat_key_def)

lemma grouped_other:
  assumes "\<And>x. x \<in> set xs \<Longrightarrow> key x \<noteq> k" "\<And>k xs. key' (f k xs) = k"
  shows "filter (\<lambda>r. key' r = k) (grouped key f xs) = []"
  using assms by (auto simp: grouped_def filter_empty_conv)

lemma aggregated_at:
  "filter (\<lambda>s. stat_key s = k) (sd_stats (aggregateMetricStatistics qt sq db runIds))
     = (if sk_run k \<in> set runIds
        then let ps = filter (\<lambda>p. key_of_point p = k) (metrics_filtered db runIds) in if ps = [] then [] else [stat_of qt sq k ps]
        else filter (\<lambda>s. stat_key s = k) (sd_stats db))"
proof (cases "sk_run k \<in> set runIds")
  case True
  then show ?thesis
    by (simp add: aggregateMetricStatistics_def replaced_rows grouped_at [where key' = stat_key])
next
  case False
  have "filter (\<lambda>s. stat_key s = k) (grouped key_of_point (stat_of qt sq) (metrics_filtered db runIds)) = []"
    by (rule grouped_other) (use False in \<open>auto simp: metrics_filtered_def key_of_point_def\<close>)
  then show ?thesis using False by (simp add: aggregateMetricStatistics_def replaced_rows)
qed

lemma calculated_tables [simp]:
  "sd_runs (fst (calculateStatistics qt sq db ids)) = sd_runs db"
  "sd_dashboards (fst (calculateStatistics qt sq db ids)) = sd_dashboards db"
  "sd_dynatrace (fst (calculateStatistics qt sq db ids)) = sd_dynatrace db"
  by (simp_all add: calculateStatistics_def Let_def aggregateMetricStatistics_def)

text \<open>What the pipeline leaves of a series.\<close>

lemma statistics_rows:
  "filter (\<lambda>s. stat_key s = k) (sd_stats (fst (calculateStatistics qt sq db ids)))
     = (if sk_run k \<in> set ids \<and> sampled db (sk_run k)
        then (if series_allowed db ids k then series_row qt sq db k else [])
        else filter (\<lambda>s. stat_key s = k) (sd_stats db))"
proof -
  define runIds where "runIds = filterRunsWithMetrics db ids"
  have mem: "sk_run k \<in> set runIds \<longleftrightarrow> sk_run k \<in> set ids \<and> sampled db (sk_run k)"
    by (simp add: runIds_def in_runs_with_metrics)
  show ?thesis
  proof (cases "runIds = []")
    case True
    then have "\<not> (sk_run k \<in> set ids \<and> sampled db (sk_run k))" using mem by simp
    moreover have "fst (calculateStatistics qt sq db ids) = db"
      using True by (simp add: calculateStatistics_def Let_def runIds_def)
    ultimately show ?thesis by auto
  next
    case False
    then have "fst (calculateStatistics qt sq db ids)
        = aggregateMetricStatistics qt sq (refreshRampUpFlags db (findRunsWithStaleRampUpFlags db runIds)) runIds"
      by (simp add: calculateStatistics_def Let_def runIds_def)
    then have step: "filter (\<lambda>s. stat_key s = k) (sd_stats (fst (calculateStatistics qt sq db ids)))
        = (if sk_run k \<in> set runIds
           then (if series_allowed db ids k then series_row qt sq db k else []) else filter (\<lambda>s. stat_key s = k) (sd_stats db))"
      using filtered_series [of k runIds db]
      by (auto simp: aggregated_at series_allowed_def series_row_def Let_def runIds_def [symmetric] series_row_of_refreshed)
    show ?thesis unfolding step mem ..
  qed
qed

text \<open>The flags of the analysed runs are up to date afterwards; samples are neither added nor removed.\<close>

lemma calculated_points:
  "sd_points (fst (calculateStatistics qt sq db ids)) = map (refreshed (sd_runs db) (filterRunsWithMetrics db ids)) (sd_points db)"
proof (cases "filterRunsWithMetrics db ids = []")
  case True
  have "refreshed (sd_runs db) [] = id" by (rule ext) (simp add: refreshed_def)
  then show ?thesis using True by (simp add: calculateStatistics_def Let_def)
next
  case False
  then show ?thesis by (simp add: calculateStatistics_def Let_def aggregateMetricStatistics_def refresh_exact)
qed


end
