(* ===== verification/Baseline.thy ===== *)
theory Baseline
  imports Statistics TimeBuckets "HOL-Library.Multiset"
begin

text \<open>
  The baseline of a run: \<open>pipelines/ControlGroupStatisticsPipeline.ts\<close>.

  The pipeline pools the samples of all control runs of a group into one row per metric. It does so from the statistics and
  sketches stored per run when all of them are there (the fast path) and from the samples otherwise (the legacy path), after
  rebuilding missing sketches with the statistics pipeline. A failure of that rebuild is a parameter, the set of batches on
  which it fails. Time budgets, log lines, the descriptive columns and the warning about grouped series are left out.
\<close>

section \<open>Tables\<close>

record group_row = control_group +
  gr_organization :: "string option"

record base_row = control_row +
  bs_dashboard :: string
  bs_dashboard_uid :: string
  bs_n_missing :: int
  bs_n_non_zero :: int

record 's baseline_db =
  bl_db :: "'s stats_db"
  bl_groups :: "group_row list"
  bl_baselines :: "base_row list"

record base_key =
  bk_dashboard :: string
  bk_panel :: nat
  bk_metric :: string

definition base_of_point :: "metric_point \<Rightarrow> base_key" where
  "base_of_point p = \<lparr>bk_dashboard = mp_dashboard p, bk_panel = mp_panel p, bk_metric = mp_metric p\<rparr>"

definition base_of_stat :: "'s statistics_row \<Rightarrow> base_key" where
  "base_of_stat s = \<lparr>bk_dashboard = ms_dashboard s, bk_panel = ms_panel s, bk_metric = ms_metric s\<rparr>"

section \<open>The organization of a group\<close>

definition scope :: "'s stats_db \<Rightarrow> group_row \<Rightarrow> string option" where
  "scope db g = (case gr_organization g of Some o1 \<Rightarrow> Some o1
     | None \<Rightarrow> (case find (\<lambda>r. rn_id r \<in> set (gr_test_runs g)) (sd_runs db) of None \<Rightarrow> None | Some r \<Rightarrow> tn_organization r))"

definition scoped_dashboard :: "'s stats_db \<Rightarrow> group_row \<Rightarrow> string \<Rightarrow> bool" where
  "scoped_dashboard db g d = (case scope db g of None \<Rightarrow> False
     | Some org \<Rightarrow> (\<exists>a \<in> set (sd_dashboards db @ sd_dynatrace db). db_dashboard a = Some d \<and> db_organization a = Some org))"

section \<open>Pooling\<close>

text \<open>\<open>SUM\<close>, which skips missing values, and one row of \<open>raw_metrics_aggregated\<close>. The two flags are read with \<open>COALESCE(_, false)\<close>.\<close>

definition sum_of :: "rat option list \<Rightarrow> rat option" where
  "sum_of xs = (if present xs = [] then None else Some (sum_list (present xs)))"

definition avg_of :: "rat option list \<Rightarrow> rat option" where
  "avg_of xs = (if present xs = [] then None else Some (avg (present xs)))"

record 's pooled =
  po_mean :: "rat option"
  po_min :: "rat option"
  po_max :: "rat option"
  po_std :: "rat option"
  po_sketch :: 's
  po_is_constant :: bool
  po_all_missing :: bool

definition control_stats :: "'s stats_db \<Rightarrow> group_row \<Rightarrow> 's statistics_row list" where
  "control_stats db g = filter (\<lambda>s. ms_test_run_id s \<in> set (gr_test_runs g) \<and> scoped_dashboard db g (ms_dashboard s)) (sd_stats db)"

text \<open>The fast path for the rows of one metric.\<close>

definition pooled_square_mean :: "rat option \<Rightarrow> rat option \<Rightarrow> rat \<Rightarrow> rat option" where
  "pooled_square_mean tsum tsq n =
     greatest [(case (tsum, tsq) of (Some s, Some q) \<Rightarrow> Some (q / n - square (s / n)) | _ \<Rightarrow> None), Some 0]"

definition fast_pooled :: "'s quantiles \<Rightarrow> (rat \<Rightarrow> rat) \<Rightarrow> 's statistics_row list \<Rightarrow> 's pooled" where
  "fast_pooled qt sq rs =
     (let tsum = sum_of (map sr_sum rs); tsq = sum_of (map sr_sum_sq rs);
          n = sum_of (map (\<lambda>s. map_option of_int (st_count (ms_stats s))) rs);
          some = (case n of None \<Rightarrow> False | Some k \<Rightarrow> k > 0);
          deviation = sq (the (pooled_square_mean tsum tsq (the n))) in
      \<lparr>po_mean = (if some then map_option (\<lambda>s. s / the n) tsum else None),
       po_min = least (map (\<lambda>s. st_min (ms_stats s)) rs), po_max = greatest (map (\<lambda>s. st_max (ms_stats s)) rs),
       po_std = Some (if some then deviation else 0), po_sketch = qt_rollup qt (map (\<lambda>s. the (sr_sketch s)) rs),
       po_is_constant = (some \<and> deviation < 1 / 10000), po_all_missing = (n = Some 0)\<rparr>)"

definition per_run_pooled :: "'s quantiles \<Rightarrow> (rat \<Rightarrow> rat) \<Rightarrow> 's stats_db \<Rightarrow> group_row \<Rightarrow> (base_key \<times> 's pooled) list" where
  "per_run_pooled qt sq db g =
     grouped base_of_stat (\<lambda>k rs. (k, fast_pooled qt sq rs)) (filter (\<lambda>s. sr_sketch s \<noteq> None) (control_stats db g))"

text \<open>The legacy path for the samples of one metric, which is not empty.\<close>

definition legacy_pooled :: "'s quantiles \<Rightarrow> (rat \<Rightarrow> rat) \<Rightarrow> metric_point list \<Rightarrow> 's pooled" where
  "legacy_pooled qt sq ps =
     (let vs = map (\<lambda>p. the (mp_value p)) ps in
      \<lparr>po_mean = Some (avg vs), po_min = Some (Min (set vs)), po_max = Some (Max (set vs)), po_std = Some (sq (variance vs)),
       po_sketch = qt_agg qt vs, po_is_constant = (sq (variance vs) < 1 / 10000), po_all_missing = (length vs = 0)\<rparr>)"

definition control_points :: "'s stats_db \<Rightarrow> group_row \<Rightarrow> metric_point list" where
  "control_points db g = filter (\<lambda>p. mp_run p \<in> set (gr_test_runs g) \<and> steady p \<and> scoped_dashboard db g (mp_dashboard p)) (sd_points db)"

definition raw_metrics :: "'s quantiles \<Rightarrow> (rat \<Rightarrow> rat) \<Rightarrow> 's stats_db \<Rightarrow> group_row \<Rightarrow> (base_key \<times> 's pooled) list" where
  "raw_metrics qt sq db g = grouped base_of_point (\<lambda>k ps. (k, legacy_pooled qt sq ps)) (control_points db g)"

section \<open>The stored row\<close>

text \<open>Rounding when a numeric is stored in an integer column.\<close>

definition pg_integer :: "rat \<Rightarrow> int" where
  "pg_integer x = (if 0 \<le> x then \<lfloor>x + 1 / 2\<rfloor> else - \<lfloor>- x + 1 / 2\<rfloor>)"

text \<open>\<open>control_metrics_metadata\<close>: of the rows with the least dashboard uid the least source, missing sources last.\<close>

definition metadata_uid :: "'s statistics_row list \<Rightarrow> string" where
  "metadata_uid ms = foldl min (sr_dashboard_uid (hd ms)) (map sr_dashboard_uid ms)"

definition metadata_source :: "'s statistics_row list \<Rightarrow> string option" where
  "metadata_source ms = min_text (map ms_source (filter (\<lambda>s. sr_dashboard_uid s = metadata_uid ms) ms))"

definition or_0 :: "rat option \<Rightarrow> rat" where
  "or_0 x = (case x of None \<Rightarrow> 0 | Some v \<Rightarrow> v)"

definition base_stats :: "'s quantiles \<Rightarrow> 's statistics_row list \<Rightarrow> 's pooled \<Rightarrow> metric_stats" where
  "base_stats qt ms r =
     (let q = (\<lambda>x. qt_percentile qt x (po_sketch r)) in
      \<lparr>st_mean = Some (or_0 (po_mean r)), st_median = Some (q (1 / 2)), st_min = Some (or_0 (po_min r)), st_max = Some (or_0 (po_max r)),
       st_std = Some (or_0 (po_std r)), st_last = avg_of (map (\<lambda>s. st_last (ms_stats s)) ms),
       st_q10 = Some (q (1 / 10)), st_q25 = Some (q (1 / 4)), st_q75 = Some (q (3 / 4)), st_q90 = Some (q (9 / 10)),
       st_q95 = Some (q (19 / 20)), st_q99 = Some (q (99 / 100)), st_iqr = Some (q (3 / 4) - q (1 / 4)),
       st_count = Some (pg_integer (or_0 (avg_of (map (\<lambda>s. map_option of_int (st_count (ms_stats s))) ms)))),
       st_is_constant = Some (po_is_constant r), st_all_missing = Some (po_all_missing r)\<rparr>)"

definition base_row_of :: "'s quantiles \<Rightarrow> string \<Rightarrow> 's statistics_row list \<Rightarrow> base_key \<Rightarrow> 's pooled \<Rightarrow> base_row" where
  "base_row_of qt gid ms k r =
     \<lparr>cg_control_group_id = gid, cg_panel = bk_panel k, cg_metric = bk_metric k, cg_source = metadata_source ms, cg_stats = base_stats qt ms r,
      bs_dashboard = bk_dashboard k, bs_dashboard_uid = metadata_uid ms,
      bs_n_missing = pg_integer (avg (map (\<lambda>s. of_nat (sr_n_missing s)) ms)),
      bs_n_non_zero = pg_integer (avg (map (\<lambda>s. of_nat (sr_n_non_zero s)) ms))\<rparr>"

text \<open>\<open>final_stats\<close>: a metric without a statistics row of a control run is dropped by the join.\<close>

definition final_stats :: "'s quantiles \<Rightarrow> 's stats_db \<Rightarrow> group_row \<Rightarrow> (base_key \<times> 's pooled) list \<Rightarrow> base_row list" where
  "final_stats qt db g raw =
     concat (map (\<lambda>(k, r). let ms = filter (\<lambda>s. base_of_stat s = k) (control_stats db g) in
                           if ms = [] then [] else [base_row_of qt (gr_id g) ms k r]) raw)"

definition missing_sketch :: "'s statistics_row \<Rightarrow> bool" where
  "missing_sketch s = (sr_sketch s = None)"

definition useFastPath :: "'s stats_db \<Rightarrow> group_row \<Rightarrow> bool" where
  "useFastPath db g = (\<forall>s \<in> set (sd_stats db). ms_test_run_id s \<in> set (gr_test_runs g) \<longrightarrow> \<not> missing_sketch s)"

definition baseline_rows :: "'s quantiles \<Rightarrow> (rat \<Rightarrow> rat) \<Rightarrow> bool \<Rightarrow> 's stats_db \<Rightarrow> group_row \<Rightarrow> base_row list" where
  "baseline_rows qt sq fast db g = final_stats qt db g (if fast then per_run_pooled qt sq db g else raw_metrics qt sq db g)"

definition base_row_key :: "base_row \<Rightarrow> string \<times> base_key" where
  "base_row_key b = (cg_control_group_id b, \<lparr>bk_dashboard = bs_dashboard b, bk_panel = cg_panel b, bk_metric = cg_metric b\<rparr>)"

definition merge_base :: "base_row \<Rightarrow> base_row \<Rightarrow> base_row" where
  "merge_base old b = b\<lparr>cg_source := (case cg_source b of None \<Rightarrow> cg_source old | Some s \<Rightarrow> Some s)\<rparr>"

section \<open>The pipeline\<close>

definition calculateStatisticsForControlGroup ::
  "'s quantiles \<Rightarrow> (rat \<Rightarrow> rat) \<Rightarrow> 's baseline_db \<Rightarrow> string \<Rightarrow> adapt_error + 's baseline_db \<times> nat" where
  "calculateStatisticsForControlGroup qt sq db gid =
     (case find (\<lambda>g. gr_id g = gid) (bl_groups db) of
        None \<Rightarrow> Inr (db, 0)
      | Some g \<Rightarrow>
          if gr_test_runs g = [] then Inr (db, 0)
          else if filter (\<lambda>s. ms_test_run_id s \<in> set (gr_test_runs g)) (sd_stats (bl_db db)) = [] then Inr (db, 0)
          else let rows = baseline_rows qt sq (useFastPath (bl_db db) g) (bl_db db) g in
               and_then (upsert base_row_key merge_base (\<lambda>table b. b) (bl_baselines db) rows)
                 (\<lambda>table. Inr (db\<lparr>bl_baselines := table\<rparr>, length rows)))"

text \<open>\<open>backfillMissingSketches\<close>; \<open>fails\<close> holds of a batch on which the statistics pipeline reports an error.\<close>

definition runs_missing_sketches :: "'s baseline_db \<Rightarrow> string list \<Rightarrow> string list" where
  "runs_missing_sketches db gids =
     (let members = concat (map gr_test_runs (filter (\<lambda>g. gr_id g \<in> set gids) (bl_groups db))) in
      remdups (map ms_test_run_id (filter (\<lambda>s. missing_sketch s \<and> ms_test_run_id s \<in> set members) (sd_stats (bl_db db)))))"

fun backfill_chunks :: "'s quantiles \<Rightarrow> (rat \<Rightarrow> rat) \<Rightarrow> (string list \<Rightarrow> bool) \<Rightarrow> 's stats_db \<Rightarrow> string list list \<Rightarrow> 's stats_db" where
  "backfill_chunks qt sq fails db [] = db"
| "backfill_chunks qt sq fails db (c # cs) =
     (if fails c then db else backfill_chunks qt sq fails (fst (calculateStatistics qt sq db c)) cs)"

definition backfillMissingSketches ::
  "'s quantiles \<Rightarrow> (rat \<Rightarrow> rat) \<Rightarrow> (string list \<Rightarrow> bool) \<Rightarrow> nat \<Rightarrow> 's baseline_db \<Rightarrow> string list \<Rightarrow> 's baseline_db" where
  "backfillMissingSketches qt sq fails batch db gids =
     (case chunkTestRunIds (runs_missing_sketches db gids) batch of
        None \<Rightarrow> db
      | Some chunks \<Rightarrow> db\<lparr>bl_db := backfill_chunks qt sq fails (bl_db db) chunks\<rparr>)"

record group_input =
  gi_controlGroupIds :: "string list option"
  gi_testRunIds :: "string list option"

definition validGroupInput :: "group_input \<Rightarrow> bool" where
  "validGroupInput i = (\<exists>xs \<in> set [gi_controlGroupIds i, gi_testRunIds i]. xs \<noteq> None \<and> xs \<noteq> Some [])"

text \<open>An empty array is not falsy, so it hides the test runs.\<close>

definition groupIds :: "group_input \<Rightarrow> string list" where
  "groupIds i = (case gi_controlGroupIds i of Some ids \<Rightarrow> ids
     | None \<Rightarrow> (case gi_testRunIds i of Some ids \<Rightarrow> ids | None \<Rightarrow> []))"

fun calculate_groups :: "'s quantiles \<Rightarrow> (rat \<Rightarrow> rat) \<Rightarrow> 's baseline_db \<Rightarrow> nat \<Rightarrow> string list \<Rightarrow> adapt_error + 's baseline_db \<times> nat" where
  "calculate_groups qt sq db n [] = Inr (db, n)"
| "calculate_groups qt sq db n (g # gs) =
     and_then (calculateStatisticsForControlGroup qt sq db g) (\<lambda>(db', k). calculate_groups qt sq db' (n + k) gs)"

text \<open>The tables after the pipeline and the number of rows it reports; an error in the transaction takes the baselines back.\<close>

definition executeBaseline ::
  "'s quantiles \<Rightarrow> (rat \<Rightarrow> rat) \<Rightarrow> (string list \<Rightarrow> bool) \<Rightarrow> nat \<Rightarrow> 's baseline_db \<Rightarrow> group_input \<Rightarrow> 's baseline_db \<times> (adapt_error + nat)" where
  "executeBaseline qt sq fails batch db i =
     (if \<not> validGroupInput i then (db, Inl InvalidInput)
      else let db' = backfillMissingSketches qt sq fails batch db (groupIds i) in
           case calculate_groups qt sq db' 0 (groupIds i) of
             Inl e \<Rightarrow> (db', Inl e)
           | Inr (db'', n) \<Rightarrow> (db'', Inr n))"

interpretation baselines: keyed_upsert base_row_key merge_base "\<lambda>table b. b"
  by unfold_locales (simp_all add: base_row_key_def merge_base_def)


section \<open>Minima and maxima of parts\<close>

lemma foldl_max_Max: "foldl max y ys = Max (insert y (set ys))" for y :: "'a :: linorder"
proof (induction ys arbitrary: y)
  case (Cons a ys)
  show ?case by (cases "ys = []") (simp_all add: Cons.IH max.assoc max.commute max.left_commute)
qed simp

lemma foldl_min_Min: "foldl min y ys = Min (insert y (set ys))" for y :: "'a :: linorder"
proof (induction ys arbitrary: y)
  case (Cons a ys)
  show ?case by (cases "ys = []") (simp_all add: Cons.IH min.assoc min.commute min.left_commute)
qed simp

lemma Max_of_parts:
  fixes A :: "'i \<Rightarrow> 'a :: linorder set"
  assumes "finite I" "I \<noteq> {}" "\<And>i. i \<in> I \<Longrightarrow> finite (A i) \<and> A i \<noteq> {}"
  shows "Max ((\<lambda>i. Max (A i)) ` I) = Max (\<Union>i \<in> I. A i)"
proof (rule Max_eqI [symmetric])
  let ?m = "Max ((\<lambda>i. Max (A i)) ` I)"
  show "finite (\<Union>i \<in> I. A i)" using assms by simp
  have "?m \<in> (\<lambda>i. Max (A i)) ` I" using assms by (intro Max_in) auto
  then show "?m \<in> (\<Union>i \<in> I. A i)" using assms(3) Max_in by fastforce
  fix y assume "y \<in> (\<Union>i \<in> I. A i)"
  then obtain i where i: "i \<in> I" "y \<in> A i" by blast
  then have "y \<le> Max (A i)" using assms(3) by simp
  also have "\<dots> \<le> ?m" using i assms by (intro Max_ge) auto
  finally show "y \<le> ?m" .
qed

lemma Min_of_parts:
  fixes A :: "'i \<Rightarrow> 'a :: linorder set"
  assumes "finite I" "I \<noteq> {}" "\<And>i. i \<in> I \<Longrightarrow> finite (A i) \<and> A i \<noteq> {}"
  shows "Min ((\<lambda>i. Min (A i)) ` I) = Min (\<Union>i \<in> I. A i)"
proof (rule Min_eqI [symmetric])
  let ?m = "Min ((\<lambda>i. Min (A i)) ` I)"
  show "finite (\<Union>i \<in> I. A i)" using assms by simp
  have "?m \<in> (\<lambda>i. Min (A i)) ` I" using assms by (intro Min_in) auto
  then show "?m \<in> (\<Union>i \<in> I. A i)" using assms(3) Min_in by fastforce
  fix y assume "y \<in> (\<Union>i \<in> I. A i)"
  then obtain i where i: "i \<in> I" "y \<in> A i" by blast
  have "?m \<le> Min (A i)" using i assms by (intro Min_le) auto
  also have "\<dots> \<le> y" using i assms(3) by simp
  finally show "?m \<le> y" .
qed

section \<open>Moments of a pooled distribution\<close>

lemma sum_squares_about:
  "sum_list (map (\<lambda>v. square (v - c)) vs) = sum_list (map square vs) - 2 * c * sum_list vs + of_nat (length vs) * square c" for c :: rat
  by (induction vs) (simp_all add: square_def algebra_simps)

text \<open>The population variance from the two stored moments.\<close>

lemma variance_moments:
  assumes "vs \<noteq> []"
  shows "variance vs = sum_list (map square vs) / of_nat (length vs) - square (sum_list vs / of_nat (length vs))"
proof -
  let ?n = "of_nat (length vs) :: rat" and ?s = "sum_list vs" and ?q = "sum_list (map square vs)"
  have n: "?n \<noteq> 0" using assms by simp
  have "variance vs = (?q - 2 * (?s / ?n) * ?s + ?n * square (?s / ?n)) / ?n"
    by (simp add: variance_def avg_def sum_squares_about)
  also have "\<dots> = ?q / ?n - square (?s / ?n)" using n by (simp add: square_def field_simps)
  finally show ?thesis .
qed

lemma variance_ge0: "0 \<le> variance vs"
proof -
  have "0 \<le> sum_list (map (\<lambda>v. square (v - avg vs)) vs)" by (rule sum_list_nonneg) (auto simp: square_def)
  then show ?thesis unfolding variance_def avg_def [of "map _ _"] by (intro divide_nonneg_nonneg) simp_all
qed

lemma present_Some [simp]: "present (map (\<lambda>x. Some (f x)) xs) = map f xs"
  by (induction xs) (simp_all add: present_def)

lemma sum_of_Some: "xs \<noteq> [] \<Longrightarrow> sum_of (map (\<lambda>x. Some (f x)) xs) = Some (sum_list (map f xs))"
  by (simp add: sum_of_def)

lemma greatest_Some: "xs \<noteq> [] \<Longrightarrow> greatest (map (\<lambda>x. Some (f x)) xs) = Some (Max (f ` set xs))"
  using present_Some [of f xs] by (cases xs) (simp_all add: greatest_def foldl_max_Max)

lemma least_Some: "xs \<noteq> [] \<Longrightarrow> least (map (\<lambda>x. Some (f x)) xs) = Some (Min (f ` set xs))"
  using present_Some [of f xs] by (cases xs) (simp_all add: least_def foldl_min_Min)


section \<open>The fast path computes the legacy path\<close>

text \<open>
  What the pipeline relies on of the database toolkit: combining the sketches of the parts of a sample gives the sketch of
  the sample, in whatever order the values come.
\<close>

definition mergeable :: "'s quantiles \<Rightarrow> bool" where
  "mergeable qt = (\<forall>xss ys. xss \<noteq> [] \<and> [] \<notin> set xss \<and> mset ys = mset (concat xss)
     \<longrightarrow> qt_rollup qt (map (qt_agg qt) xss) = qt_agg qt ys)"

lemma mergeableD:
  "mergeable qt \<Longrightarrow> xss \<noteq> [] \<Longrightarrow> [] \<notin> set xss \<Longrightarrow> mset ys = mset (concat xss) \<Longrightarrow> qt_rollup qt (map (qt_agg qt) xss) = qt_agg qt ys"
  unfolding mergeable_def by blast

abbreviation point_values :: "metric_point list \<Rightarrow> rat list" where
  "point_values ps \<equiv> map (\<lambda>p. the (mp_value p)) ps"

lemma stat_of_fields [simp]:
  "sr_sum (stat_of qt sq k ps) = Some (sum_list (point_values ps))"
  "sr_sum_sq (stat_of qt sq k ps) = Some (sum_list (map square (point_values ps)))"
  "sr_sketch (stat_of qt sq k ps) = Some (qt_agg qt (point_values ps))"
  "st_count (ms_stats (stat_of qt sq k ps)) = Some (int (length ps))"
  "st_min (ms_stats (stat_of qt sq k ps)) = Some (Min (set (point_values ps)))"
  "st_max (ms_stats (stat_of qt sq k ps)) = Some (Max (set (point_values ps)))"
  "base_of_stat (stat_of qt sq k ps) = \<lparr>bk_dashboard = sk_dashboard k, bk_panel = sk_panel k, bk_metric = sk_metric k\<rparr>"
  by (simp_all add: stat_of_def series_stats_def base_of_stat_def Let_def)

lemma count_parts: "(\<Sum>i\<leftarrow>I. of_nat (length (P i)) :: rat) = of_nat (length (concat (map P I)))"
  by (induction I) simp_all

lemma sum_concat: "sum_list (concat xss) = sum_list (map sum_list xss)" for xss :: "rat list list"
  by (induction xss) simp_all

lemma sum_list_parts: "mset ys = mset (concat xss) \<Longrightarrow> sum_list ys = sum_list (map sum_list xss)" for ys :: "rat list"
proof -
  assume "mset ys = mset (concat xss)"
  then have "sum_list ys = sum_list (concat xss)" by (metis sum_mset_sum_list)
  then show ?thesis by (simp add: sum_concat)
qed

lemma pooled_eq:
  assumes qt: "mergeable qt" and ne: "I \<noteq> []" "\<And>i. i \<in> set I \<Longrightarrow> P i \<noteq> []"
    and parts: "mset ps = mset (concat (map P I))"
  shows "fast_pooled qt sq (map (\<lambda>i. stat_of qt sq (f i) (P i)) I) = legacy_pooled qt sq ps"
proof -
  define V where "V = (\<lambda>i. point_values (P i))"
  let ?vs = "point_values ps" and ?rs = "map (\<lambda>i. stat_of qt sq (f i) (P i)) I"
  have mv: "mset ?vs = mset (concat (map V I))"
    using arg_cong [OF parts, of "image_mset (\<lambda>p. the (mp_value p))"]
    by (simp add: V_def map_concat o_def flip: mset_map)
  have Vne: "V i \<noteq> []" if "i \<in> set I" for i using ne(2) [OF that] by (simp add: V_def)
  have Vi: "point_values (P i) = V i" for i by (simp add: V_def)
  have vs: "?vs \<noteq> []" "set ?vs = (\<Union>i \<in> set I. set (V i))"
    using mv ne(1) Vne mset_eq_setD [OF mv] by (auto simp del: mset_map)
  have s: "sum_of (map sr_sum ?rs) = Some (sum_list ?vs)"
    using sum_list_parts [OF mv] ne(1) by (simp add: o_def sum_of_Some V_def)
  have "mset (map square ?vs) = mset (concat (map (\<lambda>i. map square (V i)) I))"
    using arg_cong [OF mv, of "image_mset square"] by (simp add: map_concat o_def flip: mset_map)
  from sum_list_parts [OF this] have q: "sum_of (map sr_sum_sq ?rs) = Some (sum_list (map square ?vs))"
    using ne(1) by (simp add: o_def sum_of_Some V_def)
  have "length ps = length (concat (map P I))" using arg_cong [OF parts, of size] by simp
  then have n: "sum_of (map (\<lambda>s. map_option of_int (st_count (ms_stats s))) ?rs) = Some (of_nat (length ps))"
    using ne(1) by (simp add: o_def sum_of_Some count_parts)
  have mx: "greatest (map (\<lambda>s. st_max (ms_stats s)) ?rs) = Some (Max (set ?vs))"
    using ne(1) Vne Max_of_parts [of "set I" "\<lambda>i. set (V i)"] by (simp add: o_def greatest_Some vs(2) Vi del: set_map)
  have mn: "least (map (\<lambda>s. st_min (ms_stats s)) ?rs) = Some (Min (set ?vs))"
    using ne(1) Vne Min_of_parts [of "set I" "\<lambda>i. set (V i)"] by (simp add: o_def least_Some vs(2) Vi del: set_map)
  have sk: "qt_rollup qt (map (\<lambda>s. the (sr_sketch s)) ?rs) = qt_agg qt ?vs"
    using mergeableD [OF qt, of "map V I" ?vs] mv ne(1) Vne by (auto simp: o_def V_def)
  have "pooled_square_mean (Some (sum_list ?vs)) (Some (sum_list (map square ?vs))) (of_nat (length ps)) = Some (variance ?vs)"
    using variance_moments [OF vs(1)] variance_ge0 [of ?vs] by (simp add: pooled_square_mean_def greatest_def present_def)
  moreover have "length ps > 0" using vs(1) by simp
  ultimately show ?thesis
    unfolding fast_pooled_def legacy_pooled_def s q n mx mn sk Let_def by (simp add: avg_def)
qed

text \<open>The statistics of the control runs are those of their samples under the stored flags, which the statistics pipeline
  establishes.\<close>

definition current_points :: "'s stats_db \<Rightarrow> series_key \<Rightarrow> metric_point list" where
  "current_points db k = filter (\<lambda>p. key_of_point p = k \<and> steady p) (sd_points db)"

definition fresh_series :: "'s quantiles \<Rightarrow> (rat \<Rightarrow> rat) \<Rightarrow> 's stats_db \<Rightarrow> series_key \<Rightarrow> bool" where
  "fresh_series qt sq db k =
     (filter (\<lambda>s. stat_key s = k) (sd_stats db)
        = (if current_points db k = [] then [] else [stat_of qt sq k (current_points db k)]))"

definition fresh_statistics :: "'s quantiles \<Rightarrow> (rat \<Rightarrow> rat) \<Rightarrow> 's stats_db \<Rightarrow> group_row \<Rightarrow> bool" where
  "fresh_statistics qt sq db g =
     (\<forall>k. sk_run k \<in> set (gr_test_runs g) \<and> scoped_dashboard db g (sk_dashboard k) \<longrightarrow> fresh_series qt sq db k)"

definition series_in :: "base_key \<Rightarrow> string \<Rightarrow> series_key" where
  "series_in b i = \<lparr>sk_run = i, sk_dashboard = bk_dashboard b, sk_panel = bk_panel b, sk_metric = bk_metric b\<rparr>"

lemma series_in_iff:
  "key_of_point p = series_in b i \<longleftrightarrow> mp_run p = i \<and> base_of_point p = b"
  "stat_key s = series_in b i \<longleftrightarrow> ms_test_run_id s = i \<and> base_of_stat s = b"
  by (cases b; auto simp: key_of_point_def base_of_point_def stat_key_def base_of_stat_def series_in_def)+

lemma series_in_simps [simp]: "sk_run (series_in b i) = i" "sk_dashboard (series_in b i) = bk_dashboard b"
  by (simp_all add: series_in_def)

definition metric_rows :: "'s stats_db \<Rightarrow> group_row \<Rightarrow> base_key \<Rightarrow> 's statistics_row list" where
  "metric_rows db g b = filter (\<lambda>s. base_of_stat s = b) (control_stats db g)"

definition metric_pool :: "'s stats_db \<Rightarrow> group_row \<Rightarrow> base_key \<Rightarrow> metric_point list" where
  "metric_pool db g b = filter (\<lambda>p. base_of_point p = b) (control_points db g)"

lemma distinct_by_filter: "(\<And>i. length (filter (\<lambda>x. f x = i) xs) \<le> 1) \<Longrightarrow> distinct (map f xs)"
proof (induction xs)
  case (Cons x xs)
  have "length (filter (\<lambda>y. f y = i) xs) \<le> 1" for i using Cons.prems [of i] by (simp split: if_splits)
  moreover have "f x \<notin> f ` set xs" using Cons.prems [of "f x"] by (auto simp: filter_empty_conv)
  ultimately show ?case using Cons.IH by simp
qed simp

lemma mset_by_class:
  "distinct I \<Longrightarrow> mset (filter (\<lambda>x. f x \<in> set I \<and> Q x) xs) = mset (concat (map (\<lambda>i. filter (\<lambda>x. f x = i \<and> Q x) xs) I))"
proof (induction I)
  case (Cons i I)
  have "mset (filter (\<lambda>x. f x \<in> set (i # I) \<and> Q x) xs)
      = mset (filter (\<lambda>x. f x = i \<and> Q x) xs) + mset (filter (\<lambda>x. f x \<in> set I \<and> Q x) xs)"
    using Cons.prems by (induction xs) auto
  then show ?case using Cons by simp
qed simp

lemma rows_of_run:
  "filter (\<lambda>s. ms_test_run_id s = i) (metric_rows db g b)
     = (if i \<in> set (gr_test_runs g) \<and> scoped_dashboard db g (bk_dashboard b)
        then filter (\<lambda>s. stat_key s = series_in b i) (sd_stats db) else [])"
  by (auto simp: metric_rows_def control_stats_def series_in_iff base_of_stat_def filter_empty_conv intro!: filter_cong)

lemma rows_and_points:
  assumes "fresh_statistics qt sq db g"
  obtains I where "metric_rows db g b = map (\<lambda>i. stat_of qt sq (series_in b i) (current_points db (series_in b i))) I"
    and "\<And>i. i \<in> set I \<Longrightarrow> current_points db (series_in b i) \<noteq> []"
    and "mset (metric_pool db g b) = mset (concat (map (\<lambda>i. current_points db (series_in b i)) I))"
proof
  define I where "I = map ms_test_run_id (metric_rows db g b)"
  let ?P = "\<lambda>i. current_points db (series_in b i)"
  have at: "filter (\<lambda>s. ms_test_run_id s = i) (metric_rows db g b)
      = (if i \<in> set (gr_test_runs g) \<and> scoped_dashboard db g (bk_dashboard b) \<and> ?P i \<noteq> [] then [stat_of qt sq (series_in b i) (?P i)] else [])" for i
    using assms by (auto simp: rows_of_run fresh_statistics_def fresh_series_def)
  have in_I: "i \<in> set I \<longleftrightarrow> i \<in> set (gr_test_runs g) \<and> scoped_dashboard db g (bk_dashboard b) \<and> ?P i \<noteq> []" for i
    
  proof -
    have "i \<in> set I \<longleftrightarrow> filter (\<lambda>s. ms_test_run_id s = i) (metric_rows db g b) \<noteq> []" by (auto simp: I_def filter_empty_conv)
    then show ?thesis unfolding at by simp
  qed
  have "s = stat_of qt sq (series_in b (ms_test_run_id s)) (?P (ms_test_run_id s))" if "s \<in> set (metric_rows db g b)" for s
  proof -
    have "s \<in> set (filter (\<lambda>t. ms_test_run_id t = ms_test_run_id s) (metric_rows db g b))" using that by simp
    then show ?thesis unfolding at by (simp split: if_splits)
  qed
  then show "metric_rows db g b = map (\<lambda>i. stat_of qt sq (series_in b i) (?P i)) I"
    by (simp add: I_def o_def map_idI)
  show "?P i \<noteq> []" if "i \<in> set I" for i using that in_I by blast
  have "distinct I" unfolding I_def by (rule distinct_by_filter) (simp add: at)
  have "metric_pool db g b = filter (\<lambda>p. mp_run p \<in> set I \<and> (base_of_point p = b \<and> steady p)) (sd_points db)"
    unfolding metric_pool_def control_points_def filter_filter
  proof (rule filter_cong [OF refl])
    fix p assume "p \<in> set (sd_points db)"
    then show "((mp_run p \<in> set (gr_test_runs g) \<and> steady p \<and> scoped_dashboard db g (mp_dashboard p)) \<and> base_of_point p = b)
        = (mp_run p \<in> set I \<and> base_of_point p = b \<and> steady p)"
      by (auto simp: in_I current_points_def filter_empty_conv series_in_iff base_of_point_def)
  qed
  then show "mset (metric_pool db g b) = mset (concat (map ?P I))"
    using mset_by_class [OF \<open>distinct I\<close>, of mp_run "\<lambda>p. base_of_point p = b \<and> steady p" "sd_points db"]
    by (simp add: current_points_def series_in_iff conj_assoc)
qed

lemma stored_at:
  "filter (\<lambda>r. base_row_key r = (gr_id g, b)) (final_stats qt db g raw)
     = (if metric_rows db g b = [] then []
        else map (\<lambda>(k, r). base_row_of qt (gr_id g) (metric_rows db g b) b r) (filter (\<lambda>(k, r). k = b) raw))"
proof -
  have "base_row_key (base_row_of qt gid ms k r) = (gid, k)" for gid ms k r
    by (simp add: base_row_key_def base_row_of_def)
  then show ?thesis
    by (induction raw) (auto simp: final_stats_def metric_rows_def [symmetric] Let_def)
qed

lemma grouped_pair_at:
  "filter (\<lambda>(k, r). k = b) (grouped key (\<lambda>k xs. (k, f xs)) xs)
     = (let ys = filter (\<lambda>x. key x = b) xs in if ys = [] then [] else [(b, f ys)])"
  using grouped_at [of fst "\<lambda>k xs. (k, f xs)" b key xs] by (simp add: case_prod_unfold)

text \<open>
  Fast path or legacy path, a group gets one baseline per metric, and it is the one of all samples of all its control runs put
  together.
\<close>

lemma baseline_pools:
  assumes "mergeable qt" "fresh_statistics qt sq db g"
  shows "filter (\<lambda>r. base_row_key r = (gr_id g, b)) (baseline_rows qt sq fast db g)
     = (if metric_pool db g b = [] then []
        else [base_row_of qt (gr_id g) (metric_rows db g b) b (legacy_pooled qt sq (metric_pool db g b))])"
proof -
  obtain I where rows: "metric_rows db g b = map (\<lambda>i. stat_of qt sq (series_in b i) (current_points db (series_in b i))) I"
    and ne: "\<And>i. i \<in> set I \<Longrightarrow> current_points db (series_in b i) \<noteq> []"
    and pool: "mset (metric_pool db g b) = mset (concat (map (\<lambda>i. current_points db (series_in b i)) I))"
    using rows_and_points [OF assms(2), of b] by blast
  have "metric_pool db g b = [] \<longleftrightarrow> concat (map (\<lambda>i. current_points db (series_in b i)) I) = []"
    using pool by (metis mset_zero_iff)
  then have empty: "metric_pool db g b = [] \<longleftrightarrow> I = []" using ne by (cases I) auto
  have sketched: "filter (\<lambda>s. base_of_stat s = b) (filter (\<lambda>s. sr_sketch s \<noteq> None) (control_stats db g)) = metric_rows db g b"
  proof -
    have "filter (\<lambda>s. sr_sketch s \<noteq> None) (metric_rows db g b) = metric_rows db g b" by (simp add: rows filter_id_conv)
    then show ?thesis by (simp add: metric_rows_def conj_commute)
  qed
  show ?thesis
  proof (cases "I = []")
    case True
    then show ?thesis using empty rows by (simp add: baseline_rows_def stored_at)
  next
    case False
    have "fast_pooled qt sq (metric_rows db g b) = legacy_pooled qt sq (metric_pool db g b)"
      unfolding rows by (rule pooled_eq [OF assms(1) False ne pool])
    moreover have "filter (\<lambda>(k, r). k = b) (per_run_pooled qt sq db g) = [(b, fast_pooled qt sq (metric_rows db g b))]"
      unfolding per_run_pooled_def grouped_pair_at sketched using False by (simp add: rows)
    moreover have "filter (\<lambda>(k, r). k = b) (raw_metrics qt sq db g) = [(b, legacy_pooled qt sq (metric_pool db g b))]"
      unfolding raw_metrics_def grouped_pair_at metric_pool_def [symmetric] using False empty by simp
    ultimately show ?thesis using False empty rows by (cases fast) (simp_all add: baseline_rows_def stored_at)
  qed
qed

section \<open>After the statistics pipeline\<close>

lemma scoped_calculated [simp]:
  "scope (fst (calculateStatistics qt sq db ids)) g = scope db g"
  "scoped_dashboard (fst (calculateStatistics qt sq db ids)) g d = scoped_dashboard db g d"
  by (simp_all add: scoped_dashboard_def scope_def split: option.split)

lemma steady_calculated:
  "sampled db (mp_run p) \<Longrightarrow> mp_run p \<in> set ids \<Longrightarrow> steady (refreshed (sd_runs db) (filterRunsWithMetrics db ids) p) = analysed (sd_runs db) p"
  by (rule steady_refreshed) (simp add: in_runs_with_metrics)

lemma current_calculated:
  assumes "sk_run k \<in> set ids"
  shows "current_points (fst (calculateStatistics qt sq db ids)) k
    = map (refreshed (sd_runs db) (filterRunsWithMetrics db ids)) (series_points db k)"
  unfolding current_points_def calculated_points filter_map series_points_def o_def
  using assms
  by (intro arg_cong [where f = "map _"] filter_cong [OF refl])
    (auto simp: key_of_point_def steady_calculated sampled_def)

text \<open>The samples of the control runs inside the analysis window of their run.\<close>

definition analysed_pool :: "'s stats_db \<Rightarrow> group_row \<Rightarrow> base_key \<Rightarrow> metric_point list" where
  "analysed_pool db g b = filter (\<lambda>p. mp_run p \<in> set (gr_test_runs g) \<and> analysed (sd_runs db) p
     \<and> scoped_dashboard db g (mp_dashboard p) \<and> base_of_point p = b) (sd_points db)"

lemma base_of_refreshed [simp]: "base_of_point (refreshed runs ids p) = base_of_point p"
  by (simp add: base_of_point_def)

lemma pool_calculated:
  assumes "set (gr_test_runs g) \<subseteq> set ids"
  shows "metric_pool (fst (calculateStatistics qt sq db ids)) g b
    = map (refreshed (sd_runs db) (filterRunsWithMetrics db ids)) (analysed_pool db g b)"
  unfolding metric_pool_def control_points_def calculated_points filter_map filter_filter analysed_pool_def o_def
  using assms
  by (intro arg_cong [where f = "map _"] filter_cong [OF refl])
    (auto simp: steady_calculated sampled_def)

lemma legacy_pooled_refreshed [simp]: "legacy_pooled qt sq (map (refreshed runs ids) ps) = legacy_pooled qt sq ps"
  by (simp add: legacy_pooled_def o_def)

text \<open>What ties a group to the tables: its runs are known, have samples, and one of them is of the organization of the group.\<close>

definition rooted :: "'s stats_db \<Rightarrow> group_row \<Rightarrow> bool" where
  "rooted db g = ((\<forall>i \<in> set (gr_test_runs g). i \<in> rn_id ` set (sd_runs db) \<and> sampled db i)
     \<and> (\<exists>r \<in> set (sd_runs db). rn_id r \<in> set (gr_test_runs g) \<and> tn_organization r = scope db g))"

lemma fresh_calculated:
  assumes "rooted db g" "set (gr_test_runs g) \<subseteq> set ids"
  shows "fresh_statistics qt sq (fst (calculateStatistics qt sq db ids)) g"
  unfolding fresh_statistics_def
proof (intro allI impI)
  fix k :: series_key
  assume k: "sk_run k \<in> set (gr_test_runs g) \<and> scoped_dashboard (fst (calculateStatistics qt sq db ids)) g (sk_dashboard k)"
  obtain r where r: "r \<in> set (sd_runs db)" "rn_id r \<in> set (gr_test_runs g)" "tn_organization r = scope db g"
    using assms(1) by (auto simp: rooted_def)
  have "rn_id r \<in> set (filterRunsWithMetrics db ids)" using r(2) assms by (auto simp: in_runs_with_metrics rooted_def)
  moreover obtain a where "a \<in> set (sd_dashboards db @ sd_dynatrace db)" "db_dashboard a = Some (sk_dashboard k)" "db_organization a = scope db g"
    using k by (auto simp: scoped_dashboard_def split: option.splits)
  ultimately have "allowed_dashboard db (filterRunsWithMetrics db ids) (sk_dashboard k)"
    unfolding allowed_dashboard_def Let_def using r(1,3) by (intro bexI [of _ a]) (auto intro!: rev_image_eqI)
  then have "series_allowed db ids k" using k assms(1) by (simp add: series_allowed_def rooted_def)
  moreover have "sk_run k \<in> set ids \<and> sampled db (sk_run k)" using k assms by (auto simp: rooted_def)
  ultimately show "fresh_series qt sq (fst (calculateStatistics qt sq db ids)) k"
    by (simp add: fresh_series_def statistics_rows series_row_def current_calculated series_row_of_refreshed)
qed


section \<open>Rebuilding sketches\<close>

definition misses :: "'s stats_db \<Rightarrow> string \<Rightarrow> bool" where
  "misses db i = (\<exists>s \<in> set (sd_stats db). ms_test_run_id s = i \<and> missing_sketch s)"

lemma sampled_calculated [simp]: "sampled (fst (calculateStatistics qt sq db ids)) i = sampled db i"
  by (auto simp: sampled_def calculated_points image_iff)

lemma misses_calculated:
  assumes "misses (fst (calculateStatistics qt sq db ids)) i"
  shows "misses db i \<and> \<not> (i \<in> set ids \<and> sampled db i)"
proof -
  obtain s where s: "s \<in> set (sd_stats (fst (calculateStatistics qt sq db ids)))" "ms_test_run_id s = i" "missing_sketch s"
    using assms by (auto simp: misses_def)
  then have "s \<in> set (filter (\<lambda>t. stat_key t = stat_key s) (sd_stats (fst (calculateStatistics qt sq db ids))))" by simp
  moreover have "sk_run (stat_key s) = i" using s(2) by (simp add: stat_key_def)
  moreover have "\<not> missing_sketch t" if "t \<in> set (series_row qt sq db k)" for t k
    using that by (auto simp: series_row_def missing_sketch_def split: if_splits)
  ultimately show ?thesis using s by (auto simp: statistics_rows misses_def split: if_splits)
qed

lemma backfilled:
  assumes "\<And>c. c \<in> set cs \<Longrightarrow> \<not> fails c" "misses (backfill_chunks qt sq fails db cs) i"
  shows "misses db i \<and> \<not> (i \<in> set (concat cs) \<and> sampled db i)"
  using assms
proof (induction cs arbitrary: db)
  case (Cons c cs)
  let ?db = "fst (calculateStatistics qt sq db c)"
  have "misses (backfill_chunks qt sq fails ?db cs) i" using Cons.prems by simp
  then have "misses ?db i \<and> \<not> (i \<in> set (concat cs) \<and> sampled ?db i)" by (rule Cons.IH [rotated]) (use Cons.prems(1) in simp)
  then show ?case using misses_calculated [of qt sq db c i] by auto
qed simp

text \<open>
  When no batch of the repair fails and the control runs without a sketch still have samples, every group takes the fast
  path afterwards.
\<close>

theorem backfill_enables_fast_path:
  assumes "0 < batch" "\<And>c. \<not> fails c" "\<And>i. i \<in> set (runs_missing_sketches db gids) \<Longrightarrow> sampled (bl_db db) i"
    "g \<in> set (bl_groups db)" "gr_id g \<in> set gids"
  shows "useFastPath (bl_db (backfillMissingSketches qt sq fails batch db gids)) g"
proof -
  let ?ids = "runs_missing_sketches db gids"
  have "chunkTestRunIds ?ids batch \<noteq> None \<and> (\<forall>cs. chunkTestRunIds ?ids batch = Some cs \<longrightarrow> concat cs = ?ids)"
    using chunk_loop_correct [OF assms(1), of ?ids 0 "[]"] by (auto simp: chunkTestRunIds_def)
  then obtain cs where cs: "chunkTestRunIds ?ids batch = Some cs" "concat cs = ?ids" by auto
  have "\<not> misses (backfill_chunks qt sq fails (bl_db db) cs) i" if i: "i \<in> set (gr_test_runs g)" for i
  proof
    assume "misses (backfill_chunks qt sq fails (bl_db db) cs) i"
    then have m: "misses (bl_db db) i" "i \<notin> set ?ids \<or> \<not> sampled (bl_db db) i"
      using backfilled [of cs fails] assms(2) cs(2) by auto
    then have "i \<in> set ?ids" using i assms(4,5) by (auto simp: misses_def runs_missing_sketches_def Let_def)
    then show False using m(2) assms(3) by blast
  qed
  then show ?thesis
    by (auto simp: backfillMissingSketches_def cs(1) useFastPath_def misses_def)
qed

section \<open>Storing\<close>

lemma row_of_group: "r \<in> set (baseline_rows qt sq fast db g) \<Longrightarrow> fst (base_row_key r) = gr_id g"
  by (auto simp: baseline_rows_def final_stats_def base_row_of_def base_row_key_def Let_def split: if_splits)

lemma stored_once: "distinct (map base_row_key (baseline_rows qt sq fast db g))"
proof (rule distinct_by_filter)
  fix j :: "string \<times> base_key"
  obtain gid b where j: "j = (gid, b)" by (cases j)
  show "length (filter (\<lambda>r. base_row_key r = j) (baseline_rows qt sq fast db g)) \<le> 1"
  proof (cases "gid = gr_id g")
    case True
    then show ?thesis
      by (simp add: j baseline_rows_def stored_at per_run_pooled_def raw_metrics_def grouped_pair_at Let_def split: if_split)
  next
    case False
    then have "filter (\<lambda>r. base_row_key r = j) (baseline_rows qt sq fast db g) = []"
      unfolding filter_empty_conv j by (metis fst_conv row_of_group)
    then show ?thesis by simp
  qed
qed

lemma find_group: "find (\<lambda>g. gr_id g = gid) gs = Some g \<Longrightarrow> gr_id g = gid"
  by (auto simp: find_Some_iff)

text \<open>One group: no statement touches a row twice, other groups and the tables it reads stay as they are.\<close>

lemma one_group:
  obtains db' n where "calculateStatisticsForControlGroup qt sq db gid = Inr (db', n)" "bl_db db' = bl_db db" "bl_groups db' = bl_groups db"
    "\<And>x. fst (base_row_key x) \<noteq> gid \<Longrightarrow> x \<in> set (bl_baselines db') \<longleftrightarrow> x \<in> set (bl_baselines db)"
proof (cases "find (\<lambda>g. gr_id g = gid) (bl_groups db)")
  case None
  then show thesis using that by (simp add: calculateStatisticsForControlGroup_def)
next
  case (Some g)
  define rows where "rows = baseline_rows qt sq (useFastPath (bl_db db) g) (bl_db db) g"
  obtain table where up: "upsert base_row_key merge_base (\<lambda>table b. b) (bl_baselines db) rows = Inr table"
    by (simp add: upsert_def rows_def stored_once)
  have keys: "fst ` base_row_key ` set rows \<subseteq> {gid}"
    using row_of_group find_group [OF Some] by (fastforce simp: rows_def)
  have other: "x \<in> set table \<longleftrightarrow> x \<in> set (bl_baselines db)" if "fst (base_row_key x) \<noteq> gid" for x
    by (rule baselines.untouched [OF up]) (use keys that in auto)
  show thesis
  proof (cases "gr_test_runs g = [] \<or> filter (\<lambda>s. ms_test_run_id s \<in> set (gr_test_runs g)) (sd_stats (bl_db db)) = []")
    case True
    then show thesis using Some that by (auto simp: calculateStatisticsForControlGroup_def)
  next
    case False
    then show thesis
      using Some up other that [of "db\<lparr>bl_baselines := table\<rparr>" "length rows"]
      by (simp add: calculateStatisticsForControlGroup_def rows_def [symmetric])
  qed
qed

lemma other_groups:
  obtains db' n where "calculate_groups qt sq db m gs = Inr (db', n)" "bl_db db' = bl_db db" "bl_groups db' = bl_groups db"
    "\<And>x. fst (base_row_key x) \<notin> set gs \<Longrightarrow> x \<in> set (bl_baselines db') \<longleftrightarrow> x \<in> set (bl_baselines db)"
proof (induction gs arbitrary: db m thesis)
  case Nil
  then show thesis by simp
next
  case (Cons gid gs)
  obtain db1 n1 where 1: "calculateStatisticsForControlGroup qt sq db gid = Inr (db1, n1)" "bl_db db1 = bl_db db" "bl_groups db1 = bl_groups db"
    "\<And>x. fst (base_row_key x) \<noteq> gid \<Longrightarrow> x \<in> set (bl_baselines db1) \<longleftrightarrow> x \<in> set (bl_baselines db)"
    using one_group [of qt sq db gid] by blast
  obtain db2 n2 where "calculate_groups qt sq db1 (m + n1) gs = Inr (db2, n2)" "bl_db db2 = bl_db db1" "bl_groups db2 = bl_groups db1"
    "\<And>x. fst (base_row_key x) \<notin> set gs \<Longrightarrow> x \<in> set (bl_baselines db2) \<longleftrightarrow> x \<in> set (bl_baselines db1)"
    using Cons.IH [of db1 "m + n1"] by blast
  then show thesis using 1 by (intro Cons.prems [of db2 n2]) auto
qed

definition baseline_is :: "'s quantiles \<Rightarrow> (rat \<Rightarrow> rat) \<Rightarrow> 's baseline_db \<Rightarrow> group_row \<Rightarrow> base_key \<Rightarrow> bool" where
  "baseline_is qt sq db g b =
     ((\<exists>x \<in> set (bl_baselines db). base_row_key x = (gr_id g, b))
      \<and> (\<forall>x \<in> set (bl_baselines db). base_row_key x = (gr_id g, b) \<longrightarrow>
           cg_stats x = base_stats qt (metric_rows (bl_db db) g b) (legacy_pooled qt sq (metric_pool (bl_db db) g b))))"

lemma group_stored:
  assumes "mergeable qt" "fresh_statistics qt sq (bl_db db) g" "find (\<lambda>g. gr_id g = gid) (bl_groups db) = Some g"
    "metric_pool (bl_db db) g b \<noteq> []" "calculateStatisticsForControlGroup qt sq db gid = Inr (db', n)"
  shows "baseline_is qt sq db' g b"
proof -
  define rows where "rows = baseline_rows qt sq (useFastPath (bl_db db) g) (bl_db db) g"
  define r where "r = base_row_of qt (gr_id g) (metric_rows (bl_db db) g b) b (legacy_pooled qt sq (metric_pool (bl_db db) g b))"
  have "filter (\<lambda>r. base_row_key r = (gr_id g, b)) rows = [r]"
    using assms(4) by (simp add: rows_def r_def baseline_pools [OF assms(1,2)])
  then have r: "r \<in> set rows" "base_row_key r = (gr_id g, b)" by (auto simp: filter_eq_Cons_iff)
  have "gr_test_runs g \<noteq> []" using assms(4) by (auto simp: metric_pool_def control_points_def)
  moreover have "metric_rows (bl_db db) g b \<noteq> []"
  proof
    assume "metric_rows (bl_db db) g b = []"
    then have "filter (\<lambda>r. base_row_key r = (gr_id g, b)) rows = []" by (simp add: rows_def baseline_rows_def stored_at)
    then show False using r by (simp add: filter_empty_conv)
  qed
  then have "filter (\<lambda>s. ms_test_run_id s \<in> set (gr_test_runs g)) (sd_stats (bl_db db)) \<noteq> []"
    by (auto simp: metric_rows_def control_stats_def filter_empty_conv)
  ultimately obtain table where t: "upsert base_row_key merge_base (\<lambda>table b. b) (bl_baselines db) rows = Inr table" "db' = db\<lparr>bl_baselines := table\<rparr>"
    using assms(3,5) by (auto simp: calculateStatisticsForControlGroup_def rows_def [symmetric] and_then_Inr)
  have "cg_stats x = cg_stats r" if "x \<in> set table" "base_row_key x = (gr_id g, b)" for x
    using baselines.written_once(2) [OF t(1) r(1) that(1)] that(2) r(2) by (auto simp: merge_base_def)
  then show ?thesis
    using baselines.written_once(1) [OF t(1) r(1)] r(2) by (simp add: baseline_is_def t(2)) (simp add: r_def base_row_of_def)
qed

lemma baseline_is_kept:
  assumes "baseline_is qt sq db1 g b" "bl_db db2 = bl_db db1"
    "\<And>x. fst (base_row_key x) = gr_id g \<Longrightarrow> x \<in> set (bl_baselines db2) \<longleftrightarrow> x \<in> set (bl_baselines db1)"
  shows "baseline_is qt sq db2 g b"
  using assms by (fastforce simp: baseline_is_def)

lemma groups_stored:
  assumes "mergeable qt" "fresh_statistics qt sq (bl_db db) g" "find (\<lambda>g. gr_id g = gid) (bl_groups db) = Some g"
    "metric_pool (bl_db db) g b \<noteq> []" "calculate_groups qt sq db m gs = Inr (db', n)" "gid \<in> set gs"
  shows "baseline_is qt sq db' g b"
  using assms(2-)
proof (induction gs arbitrary: db m)
  case (Cons h gs)
  obtain db1 n1 where 1: "calculateStatisticsForControlGroup qt sq db h = Inr (db1, n1)" "bl_db db1 = bl_db db" "bl_groups db1 = bl_groups db"
    using one_group [of qt sq db h] by blast
  have rest: "calculate_groups qt sq db1 (m + n1) gs = Inr (db', n)" using Cons.prems(4) 1(1) by simp
  show ?case
  proof (cases "gid \<in> set gs")
    case True
    then show ?thesis using Cons.IH [OF _ _ _ rest] Cons.prems 1 by simp
  next
    case False
    then have h: "h = gid" using Cons.prems(5) by simp
    have here: "baseline_is qt sq db1 g b" by (rule group_stored [OF assms(1) Cons.prems(1,2,3) 1(1) [unfolded h]])
    obtain db2 n2 where 2: "calculate_groups qt sq db1 (m + n1) gs = Inr (db2, n2)" "bl_db db2 = bl_db db1"
      "\<And>x. fst (base_row_key x) \<notin> set gs \<Longrightarrow> x \<in> set (bl_baselines db2) \<longleftrightarrow> x \<in> set (bl_baselines db1)"
      using other_groups [of qt sq db1 "m + n1" gs] by blast
    have "db' = db2" using rest 2(1) by simp
    then show ?thesis using baseline_is_kept [OF here 2(2)] 2(3) False find_group [OF Cons.prems(2)] by simp
  qed
qed simp

lemma backfill_groups [simp]: "bl_groups (backfillMissingSketches qt sq fails batch db gids) = bl_groups db"
  by (simp add: backfillMissingSketches_def split: option.split)

text \<open>
  The pipeline never fails on a valid input, and afterwards every group it was called for has, for every metric with a
  sample of a control run, one stored baseline value: that of the pooled samples, over whatever was stored before. It
  presumes that the statistics of the control runs are current once the repair of the sketches is over.
\<close>

theorem baseline_stored:
  assumes "mergeable qt" "validGroupInput i" "executeBaseline qt sq fails batch db i = (db', out)" "gid \<in> set (groupIds i)"
    "find (\<lambda>g. gr_id g = gid) (bl_groups db) = Some g" "fresh_statistics qt sq (bl_db db') g" "metric_pool (bl_db db') g b \<noteq> []"
  shows "baseline_is qt sq db' g b \<and> \<not> isl out"
proof -
  define db1 where "db1 = backfillMissingSketches qt sq fails batch db (groupIds i)"
  obtain db2 n where 2: "calculate_groups qt sq db1 0 (groupIds i) = Inr (db2, n)" "bl_db db2 = bl_db db1"
    using other_groups [of qt sq db1 0 "groupIds i"] by blast
  have "db' = db2" "out = Inr n" using assms(2,3) 2(1) by (auto simp: executeBaseline_def db1_def [symmetric] Let_def)
  then show ?thesis
    using groups_stored [OF assms(1) _ _ _ 2(1) assms(4)] assms(5-7) 2(2) by (simp add: db1_def)
qed

text \<open>What happens to the baseline of a group without control runs, for instance after its only control run was denied: it
  stays, and the comparison goes on reading it.\<close>

lemma emptied_group_keeps_baseline:
  assumes "find (\<lambda>g. gr_id g = gid) (bl_groups db) = Some g" "gr_test_runs g = []"
  shows "calculateStatisticsForControlGroup qt sq db gid = Inr (db, 0)"
  using assms by (simp add: calculateStatisticsForControlGroup_def)

lemma empty_group_list_hides_runs:
  "executeBaseline qt sq (\<lambda>_. False) 5 db \<lparr>gi_controlGroupIds = Some [], gi_testRunIds = Some [i]\<rparr> = (db, Inr 0)"
  by (simp add: executeBaseline_def validGroupInput_def groupIds_def backfillMissingSketches_def runs_missing_sketches_def chunkTestRunIds_def)

section \<open>An example\<close>

text \<open>Quantiles of the sorted values.\<close>

definition list_quantiles :: "rat list quantiles" where
  "list_quantiles = \<lparr>qt_agg = sort, qt_rollup = \<lambda>xss. sort (concat xss), qt_percentile = \<lambda>r s. s ! nat \<lfloor>r * of_nat (length s - 1)\<rfloor>\<rparr>"

lemma mergeable_list: "mergeable list_quantiles"
proof -
  have "mset (concat (map sort xss)) = mset (concat xss)" for xss :: "rat list list"
    by (induction xss) simp_all
  then show ?thesis by (auto simp: mergeable_def list_quantiles_def intro!: properties_for_sort)
qed

definition base_demo_run :: "string \<Rightarrow> timed_run" where
  "base_demo_run i = run_row.extend (shop_run i)
     (timed_run.fields (Some 0) (Some 100000) (Some 10) (Some ''org''))"

definition base_demo_point :: "string \<Rightarrow> int \<Rightarrow> rat \<Rightarrow> metric_point" where
  "base_demo_point i t v = \<lparr>mp_run = i, mp_dashboard = ''d'', mp_panel = 1, mp_metric = ''cpu'', mp_time = t, mp_value = Some v,
     mp_ramp_up = Some False, mp_source = Some ''s'', mp_dashboard_uid = ''u''\<rparr>"

definition base_demo_stats :: "rat list stats_db" where
  "base_demo_stats = \<lparr>sd_runs = [base_demo_run ''c1'', base_demo_run ''c2''],
     sd_points = [base_demo_point ''c1'' 65000 10, base_demo_point ''c1'' 75000 12, base_demo_point ''c1'' 95000 99, base_demo_point ''c2'' 70000 20],
     sd_stats = [], sd_dashboards = [\<lparr>db_dashboard = Some ''d'', db_organization = Some ''org''\<rparr>], sd_dynatrace = []\<rparr>"

definition base_demo_group :: group_row where
  "base_demo_group = \<lparr>gr_id = ''g'', gr_test_runs = [''c1'', ''c2''], gr_organization = None\<rparr>"

definition base_demo_key :: base_key where
  "base_demo_key = \<lparr>bk_dashboard = ''d'', bk_panel = 1, bk_metric = ''cpu''\<rparr>"

definition after_statistics :: "rat list stats_db" where
  "after_statistics = fst (calculateStatistics list_quantiles id base_demo_stats [''c1'', ''c2''])"

lemmas base_demo_defs = base_demo_stats_def base_demo_run_def base_demo_point_def base_demo_group_def base_demo_key_def shop_run_def run_row.defs timed_run.defs

lemma base_demo_rooted: "rooted base_demo_stats base_demo_group"
  by (simp add: rooted_def sampled_def scope_def base_demo_defs)

lemma base_demo_pool: "analysed_pool base_demo_stats base_demo_group base_demo_key = [base_demo_point ''c1'' 65000 10, base_demo_point ''c1'' 75000 12, base_demo_point ''c2'' 70000 20]"
  by (simp add: analysed_pool_def analysed_def wanted_flag_def run_named_def outside_window_def epoch_def or_zero_def
      scoped_dashboard_def scope_def base_of_point_def base_demo_defs)


definition base_demo_db :: "rat list baseline_db" where
  "base_demo_db = \<lparr>bl_db = after_statistics, bl_groups = [base_demo_group], bl_baselines = []\<rparr>"

definition base_demo_input :: group_input where
  "base_demo_input = \<lparr>gi_controlGroupIds = None, gi_testRunIds = Some [''g'']\<rparr>"

lemma after_statistics_fresh: "fresh_statistics list_quantiles id after_statistics base_demo_group"
  unfolding after_statistics_def by (rule fresh_calculated [OF base_demo_rooted]) (simp add: base_demo_group_def)

lemma after_statistics_sketches: "\<not> misses after_statistics i"
  using misses_calculated [of list_quantiles id base_demo_stats "[''c1'', ''c2'']" i]
  by (auto simp: after_statistics_def misses_def base_demo_stats_def)

lemma base_demo_backfill: "bl_db (backfillMissingSketches list_quantiles id (\<lambda>_. False) 5 base_demo_db [''g'']) = after_statistics"
proof -
  have "runs_missing_sketches base_demo_db [''g''] = []"
    using after_statistics_sketches
    by (auto simp: runs_missing_sketches_def misses_def base_demo_db_def Let_def filter_empty_conv)
  then show ?thesis by (simp add: backfillMissingSketches_def chunkTestRunIds_def base_demo_db_def)
qed

lemma execute_keeps_samples:
  assumes "validGroupInput i"
  shows "bl_db (fst (executeBaseline qt sq fails batch db i)) = bl_db (backfillMissingSketches qt sq fails batch db (groupIds i))"
proof -
  let ?db = "backfillMissingSketches qt sq fails batch db (groupIds i)"
  obtain db2 n where "calculate_groups qt sq ?db 0 (groupIds i) = Inr (db2, n)" "bl_db db2 = bl_db ?db"
    using other_groups [of qt sq ?db 0 "groupIds i"] by blast
  then show ?thesis using assms by (simp add: executeBaseline_def Let_def)
qed

theorem baseline_stored_witness:
  "baseline_is list_quantiles id (fst (executeBaseline list_quantiles id (\<lambda>_. False) 5 base_demo_db base_demo_input)) base_demo_group base_demo_key
   \<and> \<not> isl (snd (executeBaseline list_quantiles id (\<lambda>_. False) 5 base_demo_db base_demo_input))"
proof (rule baseline_stored [OF mergeable_list])
  show v: "validGroupInput base_demo_input" by (simp add: validGroupInput_def base_demo_input_def)
  show "executeBaseline list_quantiles id (\<lambda>_. False) 5 base_demo_db base_demo_input
    = (fst (executeBaseline list_quantiles id (\<lambda>_. False) 5 base_demo_db base_demo_input), snd (executeBaseline list_quantiles id (\<lambda>_. False) 5 base_demo_db base_demo_input))" by simp
  show "''g'' \<in> set (groupIds base_demo_input)" by (simp add: base_demo_input_def groupIds_def)
  show "find (\<lambda>g. gr_id g = ''g'') (bl_groups base_demo_db) = Some base_demo_group" by (simp add: base_demo_db_def base_demo_group_def)
  have db: "bl_db (fst (executeBaseline list_quantiles id (\<lambda>_. False) 5 base_demo_db base_demo_input)) = after_statistics"
    using base_demo_backfill by (simp add: execute_keeps_samples [OF v]) (simp add: base_demo_input_def groupIds_def)
  show "fresh_statistics list_quantiles id (bl_db (fst (executeBaseline list_quantiles id (\<lambda>_. False) 5 base_demo_db base_demo_input))) base_demo_group"
    unfolding db by (rule after_statistics_fresh)
  show "metric_pool (bl_db (fst (executeBaseline list_quantiles id (\<lambda>_. False) 5 base_demo_db base_demo_input))) base_demo_group base_demo_key \<noteq> []"
    unfolding db after_statistics_def by (subst pool_calculated) (simp_all add: base_demo_pool, simp add: base_demo_group_def)
qed

definition old_stats :: "rat list stats_db" where
  "old_stats = after_statistics\<lparr>sd_stats := map (\<lambda>s. s\<lparr>sr_sketch := None\<rparr>) (sd_stats after_statistics)\<rparr>"

lemma base_demo_row: "filter (\<lambda>s. stat_key s = series_in base_demo_key ''c1'') (sd_stats after_statistics) \<noteq> []"
proof -
  have "series_allowed base_demo_stats [''c1'', ''c2''] (series_in base_demo_key ''c1'')"
    by (simp add: series_allowed_def allowed_dashboard_def filterRunsWithMetrics_def base_demo_defs)
  moreover have "base_demo_point ''c1'' 65000 10 \<in> set (series_points base_demo_stats (series_in base_demo_key ''c1''))"
    by (simp add: series_points_def analysed_def wanted_flag_def run_named_def outside_window_def epoch_def or_zero_def
        series_in_iff base_of_point_def base_demo_defs)
  moreover have "sampled base_demo_stats ''c1''" by (simp add: sampled_def base_demo_defs)
  ultimately show ?thesis by (auto simp: after_statistics_def statistics_rows series_row_def)
qed

lemma old_sampled: "i \<in> set (runs_missing_sketches (base_demo_db\<lparr>bl_db := old_stats\<rparr>) [''g'']) \<Longrightarrow> sampled old_stats i"
proof -
  assume "i \<in> set (runs_missing_sketches (base_demo_db\<lparr>bl_db := old_stats\<rparr>) [''g''])"
  then have "i \<in> {''c1'', ''c2''}" by (auto simp: runs_missing_sketches_def base_demo_db_def base_demo_group_def Let_def)
  then have "sampled base_demo_stats i" by (auto simp: sampled_def base_demo_defs)
  then have "sampled after_statistics i" by (simp add: after_statistics_def)
  then show ?thesis by (simp add: old_stats_def sampled_def)
qed

theorem backfill_enables_fast_path_witness:
  "\<not> useFastPath old_stats base_demo_group
   \<and> useFastPath (bl_db (backfillMissingSketches list_quantiles id (\<lambda>_. False) 5 (base_demo_db\<lparr>bl_db := old_stats\<rparr>) [''g''])) base_demo_group"
proof
  obtain s where s: "s \<in> set (sd_stats after_statistics)" "ms_test_run_id s = ''c1''"
    using base_demo_row by (auto simp: filter_empty_conv series_in_iff)
  then have "s\<lparr>sr_sketch := None\<rparr> \<in> set (sd_stats old_stats)" by (simp add: old_stats_def)
  then show "\<not> useFastPath old_stats base_demo_group"
    using s(2) by (auto simp: useFastPath_def missing_sketch_def base_demo_group_def intro!: bexI [of _ "s\<lparr>sr_sketch := None\<rparr>"])
  show "useFastPath (bl_db (backfillMissingSketches list_quantiles id (\<lambda>_. False) 5 (base_demo_db\<lparr>bl_db := old_stats\<rparr>) [''g''])) base_demo_group"
  proof (rule backfill_enables_fast_path)
    show "sampled (bl_db (base_demo_db\<lparr>bl_db := old_stats\<rparr>)) i" if "i \<in> set (runs_missing_sketches (base_demo_db\<lparr>bl_db := old_stats\<rparr>) [''g''])" for i
      using old_sampled [OF that] by simp
  qed (simp_all add: base_demo_db_def base_demo_group_def)
qed

end
