(* ===== verification/ControlGroups.thy ===== *)
theory ControlGroups
  imports Baseline
begin

text \<open>
  The control group of a run: \<open>pipelines/ControlGroupsPipeline.ts\<close>.

  For every run of a batch the pipeline picks the earlier runs it is compared with, after waiting until the evaluation of
  the batch is over. What other clients write between two polls is a parameter, as is the time a poll takes. The status of
  a run is a JSON object, kept with the keys the pipeline uses; a key that holds a JSON null counts as absent.
\<close>

section \<open>Tables\<close>

record run_status =
  us_evaluatingChecks :: "string option"
  us_evaluatingComparisons :: "string option"
  us_evaluatingAdapt :: "string option"
  us_lastUpdate :: "int option"

text \<open>A row of \<open>test_runs\<close> with its whole status, which may be \<open>NULL\<close>.\<close>

record status_run = timed_run +
  ss_status :: "run_status option"

record change_point =
  pt_run :: string
  pt_system :: string
  pt_workload :: string
  pt_environment :: string
  pt_organization :: "string option"

record group_entry = group_row +
  ge_system :: string
  ge_workload :: string
  ge_environment :: string
  ge_n_test_runs :: nat
  ge_change_point :: "(string \<times> int) option"
  ge_first :: "int option"
  ge_last :: "int option"

record group_db =
  gd_runs :: "status_run list"
  gd_change_points :: "change_point list"
  gd_groups :: "group_entry list"

datatype group_error = NoRunIds | NotReady | UnknownRun string

section \<open>Stuck statuses\<close>

definition in_progress :: "string option \<Rightarrow> bool" where
  "in_progress s = (s = Some ''IN_PROGRESS'')"

definition stuck_since :: "int \<Rightarrow> run_status \<Rightarrow> bool" where
  "stuck_since now s = (case us_lastUpdate s of None \<Rightarrow> False | Some t \<Rightarrow> t < now - 600000)"

definition failed_if :: "bool \<Rightarrow> string option \<Rightarrow> string option" where
  "failed_if stuck s = (if in_progress s \<and> stuck then Some ''FAILED'' else s)"

text \<open>\<open>jsonb_set\<close> gives \<open>NULL\<close> when the new value is \<open>NULL\<close>.\<close>

definition reset_status :: "int \<Rightarrow> run_status \<Rightarrow> run_status option" where
  "reset_status now s =
     (let stuck = stuck_since now s in
      case (failed_if stuck (us_evaluatingAdapt s), failed_if stuck (us_evaluatingComparisons s)) of
        (Some a, Some c) \<Rightarrow> Some (s\<lparr>us_evaluatingAdapt := Some a, us_evaluatingComparisons := Some c, us_lastUpdate := Some now\<rparr>)
      | _ \<Rightarrow> None)"

definition to_reset :: "int \<Rightarrow> string list \<Rightarrow> status_run \<Rightarrow> bool" where
  "to_reset now ids r =
     (rn_id r \<in> set ids
      \<and> (case ss_status r of None \<Rightarrow> False
         | Some s \<Rightarrow> stuck_since now s \<and> (in_progress (us_evaluatingAdapt s) \<or> in_progress (us_evaluatingComparisons s))))"

definition resetStuckInProgressStatuses :: "int \<Rightarrow> string list \<Rightarrow> group_db \<Rightarrow> group_db" where
  "resetStuckInProgressStatuses now ids db =
     db\<lparr>gd_runs := map (\<lambda>r. if to_reset now ids r then r\<lparr>ss_status := Option.bind (ss_status r) (reset_status now)\<rparr> else r) (gd_runs db)\<rparr>"

section \<open>Waiting\<close>

definition checks_done :: "string option \<Rightarrow> bool" where
  "checks_done c = (case c of None \<Rightarrow> True | Some t \<Rightarrow> t \<in> {'''', ''COMPLETED'', ''ERROR'', ''NOT_CONFIGURED''})"

definition ready :: "status_run \<Rightarrow> bool" where
  "ready r = (case ss_status r of None \<Rightarrow> True
     | Some s \<Rightarrow> checks_done (us_evaluatingChecks s) \<and> \<not> in_progress (us_evaluatingComparisons s) \<and> \<not> in_progress (us_evaluatingAdapt s))"

definition notReadyRuns :: "string list \<Rightarrow> group_db \<Rightarrow> status_run list" where
  "notReadyRuns ids db = filter (\<lambda>r. rn_id r \<in> set ids \<and> \<not> ready r) (gd_runs db)"

text \<open>\<open>others k\<close> is what other clients do before poll \<open>k\<close>, \<open>took k\<close> how long the poll takes; all times are milliseconds.\<close>

function waiting :: "(nat \<Rightarrow> group_db \<Rightarrow> group_db) \<Rightarrow> (nat \<Rightarrow> nat) \<Rightarrow> string list \<Rightarrow> nat \<Rightarrow> nat \<Rightarrow> nat \<Rightarrow> group_db \<Rightarrow> (group_error + nat) \<times> group_db" where
  "waiting others took ids maxWait k elapsed db =
     (if elapsed < maxWait then
        let db' = others k db in
        if notReadyRuns ids db' = [] then (Inr k, db')
        else waiting others took ids maxWait (Suc k) (elapsed + took k + 5000) db'
      else (Inl NotReady, db))"
  by pat_completeness auto

termination by (relation "measure (\<lambda>(others, took, ids, maxWait, k, elapsed, db). maxWait - elapsed)") auto

declare waiting.simps [simp del]

definition waitForTestRunsReady :: "(nat \<Rightarrow> group_db \<Rightarrow> group_db) \<Rightarrow> (nat \<Rightarrow> nat) \<Rightarrow> int \<Rightarrow> string list \<Rightarrow> group_db \<Rightarrow> (group_error + nat) \<times> group_db" where
  "waitForTestRunsReady others took now ids db = waiting others took ids 120000 0 0 (resetStuckInProgressStatuses now ids db)"

section \<open>Picking the control runs\<close>

definition truthy_org :: "string option \<Rightarrow> string option" where
  "truthy_org o1 = (if o1 = Some '''' then None else o1)"

text \<open>The organization filter of the statements: none for a run without an organization.\<close>

definition same_org :: "status_run \<Rightarrow> string option \<Rightarrow> bool" where
  "same_org t o1 = (case truthy_org (tn_organization t) of None \<Rightarrow> True | Some org \<Rightarrow> o1 = Some org \<or> o1 = None)"

definition newest :: "('a \<Rightarrow> int) \<Rightarrow> 'a list \<Rightarrow> 'a list" where
  "newest start xs = sort_key (\<lambda>x. - start x) xs"

definition change_points_before :: "group_db \<Rightarrow> status_run \<Rightarrow> (string \<times> int) list" where
  "change_points_before db t =
     concat (map (\<lambda>p. concat (map (\<lambda>r. case (tn_start_time r, tn_start_time t) of
            (Some s, Some s') \<Rightarrow> (if s \<le> s' then [(pt_run p, s)] else []) | _ \<Rightarrow> [])
          (filter (\<lambda>r. rn_id r = pt_run p) (gd_runs db))))
       (filter (\<lambda>p. pt_system p = rn_system t \<and> pt_workload p = rn_workload t \<and> pt_environment p = rn_environment t
                  \<and> same_org t (pt_organization p)) (gd_change_points db)))"

definition detectChangePoint :: "group_db \<Rightarrow> status_run \<Rightarrow> (string \<times> int) option" where
  "detectChangePoint db t = (case newest snd (change_points_before db t) of [] \<Rightarrow> None | p # ps \<Rightarrow> Some p)"

text \<open>Whether a run can be a control: not denied, and its objectives met, not configured, or a baseline run.\<close>

definition good_control :: "status_run \<Rightarrow> bool" where
  "good_control r = (rn_accepted r \<noteq> Some ''DENIED'' \<and> (rn_meetsRequirement r \<noteq> Some False \<or> rn_mode r = Some ''BASELINE''))"

definition earlier :: "status_run \<Rightarrow> status_run \<Rightarrow> bool" where
  "earlier r t = (case (tn_start_time r, tn_start_time t) of (Some s, Some s') \<Rightarrow> s < s' | _ \<Rightarrow> False)"

definition since :: "(string \<times> int) option \<Rightarrow> status_run \<Rightarrow> bool" where
  "since cp r = (case cp of None \<Rightarrow> True
     | Some (i, s') \<Rightarrow> (case tn_start_time r of None \<Rightarrow> False | Some s \<Rightarrow> s' \<le> s))"

definition control_candidate :: "status_run \<Rightarrow> (string \<times> int) option \<Rightarrow> status_run \<Rightarrow> bool" where
  "control_candidate t cp r =
     (rn_system r = rn_system t \<and> rn_workload r = rn_workload t \<and> rn_environment r = rn_environment t \<and> rn_id r \<noteq> rn_id t
      \<and> earlier r t \<and> tn_end_time r \<noteq> None \<and> since cp r \<and> same_org t (tn_organization r) \<and> good_control r)"

definition findDefaultControlTestRuns :: "group_db \<Rightarrow> status_run \<Rightarrow> (string \<times> int) option \<Rightarrow> string list" where
  "findDefaultControlTestRuns db t cp =
     (let rows = remdups (map (\<lambda>r. (rn_id r, the (tn_start_time r))) (filter (control_candidate t cp) (gd_runs db)));
          found = map fst (take 10 (newest snd rows)) in
      if map_option fst cp = Some (rn_id t) then [] else found)"

definition start_times :: "group_db \<Rightarrow> string list \<Rightarrow> int list" where
  "start_times db ids = present (map tn_start_time (filter (\<lambda>r. rn_id r \<in> set ids) (gd_runs db)))"

definition extreme :: "(int \<Rightarrow> int \<Rightarrow> int) \<Rightarrow> int list \<Rightarrow> int option" where
  "extreme f xs = (case xs of [] \<Rightarrow> None | y # ys \<Rightarrow> Some (foldl f y ys))"

definition group_of :: "group_db \<Rightarrow> status_run \<Rightarrow> group_entry" where
  "group_of db t =
     (let cp = detectChangePoint db t; controls = findDefaultControlTestRuns db t cp in
      \<lparr>gr_id = rn_id t, gr_test_runs = controls, gr_organization = truthy_org (tn_organization t),
       ge_system = rn_system t, ge_workload = rn_workload t, ge_environment = rn_environment t, ge_n_test_runs = length controls,
       ge_change_point = cp, ge_first = extreme min (start_times db controls), ge_last = extreme max (start_times db controls)\<rparr>)"

text \<open>An existing group keeps its system, workload and environment.\<close>

definition merge_group :: "group_entry \<Rightarrow> group_entry \<Rightarrow> group_entry" where
  "merge_group old g = g\<lparr>ge_system := ge_system old, ge_workload := ge_workload old, ge_environment := ge_environment old\<rparr>"

definition createControlGroupForTestRun :: "group_db \<Rightarrow> string \<Rightarrow> group_error + group_db" where
  "createControlGroupForTestRun db i =
     (case find (\<lambda>r. rn_id r = i) (gd_runs db) of
        None \<Rightarrow> Inl (UnknownRun i)
      | Some t \<Rightarrow> Inr (db\<lparr>gd_groups := upsert_one gr_id merge_group (\<lambda>table g. g) (gd_groups db) (group_of db t)\<rparr>))"

fun create_groups :: "group_db \<Rightarrow> string list \<Rightarrow> group_error + group_db" where
  "create_groups db [] = Inr db"
| "create_groups db (i # ids) = (case createControlGroupForTestRun db i of Inl e \<Rightarrow> Inl e | Inr db' \<Rightarrow> create_groups db' ids)"

text \<open>The tables after the pipeline, taken back on an error, and the number of groups.\<close>

definition executeControlGroups :: "(nat \<Rightarrow> group_db \<Rightarrow> group_db) \<Rightarrow> (nat \<Rightarrow> nat) \<Rightarrow> int \<Rightarrow> string list \<Rightarrow> group_db \<Rightarrow> group_db \<times> (group_error + nat)" where
  "executeControlGroups others took now ids db =
     (if ids = [] then (db, Inl NoRunIds)
      else case waitForTestRunsReady others took now ids db of
        (Inl e, db') \<Rightarrow> (db, Inl e)
      | (Inr k, db') \<Rightarrow>
          (case create_groups db' ids of Inl e \<Rightarrow> (db, Inl e) | Inr db'' \<Rightarrow> (db'', Inr (length ids))))"


section \<open>The wait\<close>

lemma waiting_ready:
  "waiting others took ids maxWait k elapsed db = (Inr j, db') \<Longrightarrow>
     notReadyRuns ids db' = [] \<and> k \<le> j \<and> elapsed + 5000 * (j - k) < maxWait"
proof (induction others took ids maxWait k elapsed db rule: waiting.induct)
  case (1 others took ids maxWait k elapsed db)
  show ?case
  proof (cases "elapsed < maxWait \<and> notReadyRuns ids (others k db) \<noteq> []")
    case True
    then have "waiting others took ids maxWait (Suc k) (elapsed + took k + 5000) (others k db) = (Inr j, db')"
      using "1.prems" by (simp add: waiting.simps [of others took ids maxWait k elapsed db] Let_def)
    with True "1.IH" [OF _ refl] have "notReadyRuns ids db' = [] \<and> Suc k \<le> j \<and> elapsed + took k + 5000 + 5000 * (j - Suc k) < maxWait"
      by simp
    moreover obtain d where "j = Suc k + d" using calculation le_Suc_ex by blast
    ultimately show ?thesis by simp
  next
    case False
    then show ?thesis
      using "1.prems" by (auto simp: waiting.simps [of others took ids maxWait k elapsed db] Let_def split: if_splits)
  qed
qed

text \<open>
  The wait ends after at most 24 polls, whatever other clients do in the meantime: either every run of the batch is ready
  at that moment, or the pipeline gives up.
\<close>

theorem wait_returns:
  "case waitForTestRunsReady others took now ids db of
     (Inr k, db') \<Rightarrow> k < 24 \<and> notReadyRuns ids db' = []
   | (Inl e, db') \<Rightarrow> e = NotReady"
proof -
  have gives_up: "fst (waiting others took ids m k elapsed db0) = Inl e \<Longrightarrow> e = NotReady" for m k elapsed db0 e
    by (induction others took ids m k elapsed db0 rule: waiting.induct)
      (subst (asm) (2) waiting.simps, simp add: Let_def split: if_splits)
  show ?thesis
    using waiting_ready [of others took ids 120000 0 0 "resetStuckInProgressStatuses now ids db"]
      gives_up [of 120000 0 0 "resetStuckInProgressStatuses now ids db"]
    by (auto simp: waitForTestRunsReady_def split: prod.split sum.split) 
qed

section \<open>The newest ten\<close>

text \<open>What a list of control runs should be: at most ten candidates, none twice, and every candidate left out is no newer.\<close>

definition start_of :: "status_run \<Rightarrow> int" where
  "start_of r = the (tn_start_time r)"

definition newest_controls :: "group_db \<Rightarrow> status_run \<Rightarrow> string list \<Rightarrow> bool" where
  "newest_controls db t C =
     (let cand = control_candidate t (detectChangePoint db t) in
      distinct C \<and> length C \<le> 10
      \<and> (\<forall>c \<in> set C. \<exists>r \<in> set (gd_runs db). rn_id r = c \<and> cand r)
      \<and> (\<forall>r \<in> set (gd_runs db). cand r \<and> rn_id r \<notin> set C \<longrightarrow>
           length C = 10 \<and> (\<forall>r' \<in> set (gd_runs db). rn_id r' \<in> set C \<longrightarrow> start_of r \<le> start_of r')))"

lemma take_newest:
  assumes "x \<in> set (take n (newest f xs))" "y \<in> set xs" "y \<notin> set (take n (newest f xs))"
  shows "f y \<le> f x"
proof -
  have sorted: "sorted (map (\<lambda>x. - f x) (newest f xs))" by (simp add: newest_def)
  have "y \<in> set (newest f xs)" using assms(2) by (simp add: newest_def)
  then have "y \<in> set (drop n (newest f xs))" using assms(3) by (metis append_take_drop_id Un_iff set_append)
  moreover have "sorted (map (\<lambda>x. - f x) (take n (newest f xs) @ drop n (newest f xs)))" using sorted by simp
  ultimately show ?thesis using assms(1) by (auto simp: sorted_append simp del: append_take_drop_id)
qed

lemma start_candidate: "control_candidate t cp r \<Longrightarrow> tn_start_time r = Some (start_of r)"
  by (auto simp: control_candidate_def earlier_def start_of_def split: option.splits)

lemma unique_run: "distinct (map rn_id (gd_runs db)) \<Longrightarrow> r \<in> set (gd_runs db) \<Longrightarrow> r' \<in> set (gd_runs db) \<Longrightarrow> rn_id r = rn_id r' \<Longrightarrow> r = r'"
  by (metis distinct_map inj_on_def)

lemma newest_found:
  assumes "distinct (map rn_id (gd_runs db))"
  shows "newest_controls db t (map fst (take 10 (newest snd (remdups (map (\<lambda>r. (rn_id r, the (tn_start_time r)))
           (filter (control_candidate t (detectChangePoint db t)) (gd_runs db)))))))"
proof -
  define cand where "cand = control_candidate t (detectChangePoint db t)"
  define rows where "rows = remdups (map (\<lambda>r. (rn_id r, start_of r)) (filter cand (gd_runs db)))"
  define top where "top = take 10 (newest snd rows)"
  have rows: "p \<in> set rows \<longleftrightarrow> (\<exists>r \<in> set (gd_runs db). cand r \<and> p = (rn_id r, start_of r))" for p
    by (auto simp: rows_def)
  have sub: "set top \<subseteq> set rows" using set_take_subset [of 10 "newest snd rows"] by (simp add: top_def newest_def)
  have "distinct (newest snd rows)" by (simp add: newest_def rows_def)
  then have d: "distinct top" by (simp add: top_def)
  have inj: "p = q" if pq: "p \<in> set rows" "q \<in> set rows" "fst p = fst q" for p q
  proof -
    obtain r r' where "r \<in> set (gd_runs db)" "p = (rn_id r, start_of r)" "r' \<in> set (gd_runs db)" "q = (rn_id r', start_of r')"
      using pq(1,2) rows by blast
    then show ?thesis using unique_run [OF assms, of r r'] pq(3) by simp
  qed
  then have "inj_on fst (set top)" using sub by (meson inj_onI subsetD)
  then have "distinct (map fst top)" using d by (simp add: distinct_map)
  moreover have "length (map fst top) \<le> 10" by (simp add: top_def)
  moreover have "\<exists>r \<in> set (gd_runs db). rn_id r = c \<and> cand r" if "c \<in> set (map fst top)" for c
    using that sub rows by fastforce
  moreover have "length (map fst top) = 10 \<and> (\<forall>r' \<in> set (gd_runs db). rn_id r' \<in> set (map fst top) \<longrightarrow> start_of r \<le> start_of r')"
    if r: "r \<in> set (gd_runs db)" "cand r" "rn_id r \<notin> set (map fst top)" for r
  proof -
    have in_rows: "(rn_id r, start_of r) \<in> set rows" using r rows by blast
    have out: "(rn_id r, start_of r) \<notin> set top" using r(3) by force
    have "length (newest snd rows) > 10"
    proof (rule ccontr)
      assume "\<not> 10 < length (newest snd rows)"
      then have "top = newest snd rows" by (simp add: top_def)
      then show False using in_rows out by (simp add: newest_def)
    qed
    then have "length top = 10" by (simp add: top_def)
    moreover have "start_of r \<le> start_of r'" if r': "r' \<in> set (gd_runs db)" "rn_id r' \<in> set (map fst top)" for r'
    proof -
      obtain p where p: "p \<in> set top" "fst p = rn_id r'" using r'(2) by auto
      then obtain r0 where "r0 \<in> set (gd_runs db)" "p = (rn_id r0, start_of r0)" using sub rows by blast
      then have "p = (rn_id r', start_of r')" using unique_run [OF assms, of r0 r'] r'(1) p(2) by simp
      then show ?thesis using take_newest [of p 10 snd rows "(rn_id r, start_of r)"] p(1) in_rows out by (simp add: top_def)
    qed
    ultimately show ?thesis by simp
  qed
  ultimately show ?thesis
    unfolding newest_controls_def cand_def [symmetric] Let_def start_of_def [symmetric] rows_def [symmetric] top_def [symmetric] by blast
qed

text \<open>A change point run has no candidates, so leaving its group empty loses nothing.\<close>

lemma change_point_run:
  assumes "distinct (map rn_id (gd_runs db))" "t \<in> set (gd_runs db)" "detectChangePoint db t = Some (rn_id t, s)"
  shows "\<not> control_candidate t (Some (rn_id t, s)) r"
proof -
  have "set (newest snd (change_points_before db t)) = set (change_points_before db t)" by (simp add: newest_def)
  then have "(rn_id t, s) \<in> set (change_points_before db t)"
    using assms(3) by (auto simp: detectChangePoint_def split: list.splits)
  then obtain r' where "r' \<in> set (gd_runs db)" "rn_id r' = rn_id t" "tn_start_time r' = Some s"
    by (auto simp: change_points_before_def split: option.splits if_splits)
  then have "tn_start_time t = Some s" using unique_run [OF assms(1) _ assms(2)] by metis
  then show ?thesis by (auto simp: control_candidate_def since_def earlier_def split: option.splits)
qed

lemma found_newest:
  assumes "distinct (map rn_id (gd_runs db))" "t \<in> set (gd_runs db)"
  shows "newest_controls db t (findDefaultControlTestRuns db t (detectChangePoint db t))"
proof (cases "map_option fst (detectChangePoint db t) = Some (rn_id t)")
  case True
  then obtain s where cp: "detectChangePoint db t = Some (rn_id t, s)" by auto
  then show ?thesis using change_point_run [OF assms cp]
    by (simp add: findDefaultControlTestRuns_def newest_controls_def)
next
  case False
  then show ?thesis using newest_found [OF assms(1)] by (simp add: findDefaultControlTestRuns_def)
qed

interpretation groups: keyed_upsert gr_id merge_group "\<lambda>table g. g"
  by unfold_locales (simp_all add: merge_group_def)

definition has_group :: "group_db \<Rightarrow> status_run \<Rightarrow> bool" where
  "has_group db t = ((\<exists>g \<in> set (gd_groups db). gr_id g = rn_id t)
     \<and> (\<forall>g \<in> set (gd_groups db). gr_id g = rn_id t \<longrightarrow> newest_controls db t (gr_test_runs g) \<and> ge_n_test_runs g = length (gr_test_runs g)))"

lemma controls_of_groups [simp]: "newest_controls (db\<lparr>gd_groups := gs\<rparr>) t C = newest_controls db t C"
  by (simp add: newest_controls_def detectChangePoint_def change_points_before_def cong: option.case_cong)

lemma created_group:
  assumes "createControlGroupForTestRun db i = Inr db'" "distinct (map rn_id (gd_runs db))"
  obtains t where "t \<in> set (gd_runs db)" "rn_id t = i" "has_group db' t" "gd_runs db' = gd_runs db" "gd_change_points db' = gd_change_points db"
    "\<And>g. gr_id g \<noteq> i \<Longrightarrow> g \<in> set (gd_groups db') \<longleftrightarrow> g \<in> set (gd_groups db)"
proof -
  obtain t where t: "find (\<lambda>r. rn_id r = i) (gd_runs db) = Some t"
    and db': "db' = db\<lparr>gd_groups := upsert_one gr_id merge_group (\<lambda>table g. g) (gd_groups db) (group_of db t)\<rparr>"
    using assms(1) by (auto simp: createControlGroupForTestRun_def split: option.splits)
  have mem: "t \<in> set (gd_runs db)" "rn_id t = i" using t by (auto simp: find_Some_iff)
  have key: "gr_id (group_of db t) = rn_id t" by (simp add: group_of_def Let_def)
  have "gr_id ` set (gd_groups db') = insert (rn_id t) (gr_id ` set (gd_groups db))"
    using groups.one_keys [of "gd_groups db" "group_of db t"] by (simp add: db' key)
  then have ex: "\<exists>g \<in> set (gd_groups db'). gr_id g = rn_id t" by (metis imageE insertI1)
  have "newest_controls db t (gr_test_runs g) \<and> ge_n_test_runs g = length (gr_test_runs g)"
    if "g \<in> set (gd_groups db')" "gr_id g = rn_id t" for g
    using groups.one_written [of g "gd_groups db" "group_of db t"] that found_newest [OF assms(2) mem(1)]
    by (auto simp: db' key merge_group_def group_of_def Let_def)
  then have "has_group db' t" using ex by (simp add: has_group_def db')
  moreover have "g \<in> set (gd_groups db') \<longleftrightarrow> g \<in> set (gd_groups db)" if "gr_id g \<noteq> i" for g
    using groups.one_other [of g "group_of db t"] that key mem(2) by (simp add: db')
  ultimately show thesis using that mem by (simp add: db')
qed

lemma has_group_kept:
  assumes "has_group db t" "gd_runs db' = gd_runs db" "gd_change_points db' = gd_change_points db"
    "\<And>g. gr_id g = rn_id t \<Longrightarrow> g \<in> set (gd_groups db') \<longleftrightarrow> g \<in> set (gd_groups db)"
  shows "has_group db' t"
proof -
  have "newest_controls db' t C = newest_controls db t C" for C
    using assms(2,3) by (simp add: newest_controls_def detectChangePoint_def change_points_before_def cong: option.case_cong)
  then show ?thesis using assms by (fastforce simp: has_group_def)
qed

lemma created_groups:
  assumes "create_groups db ids = Inr db'" "distinct (map rn_id (gd_runs db))"
  shows "gd_runs db' = gd_runs db \<and> gd_change_points db' = gd_change_points db
    \<and> (\<forall>g. gr_id g \<notin> set ids \<longrightarrow> (g \<in> set (gd_groups db') \<longleftrightarrow> g \<in> set (gd_groups db)))
    \<and> (\<forall>i \<in> set ids. \<exists>t \<in> set (gd_runs db). rn_id t = i \<and> has_group db' t)"
  using assms
proof (induction ids arbitrary: db)
  case (Cons i ids)
  obtain db1 where 1: "createControlGroupForTestRun db i = Inr db1" "create_groups db1 ids = Inr db'"
    using Cons.prems(1) by (auto split: sum.splits)
  obtain t where t: "t \<in> set (gd_runs db)" "rn_id t = i" "has_group db1 t" "gd_runs db1 = gd_runs db" "gd_change_points db1 = gd_change_points db"
    "\<And>g. gr_id g \<noteq> i \<Longrightarrow> g \<in> set (gd_groups db1) \<longleftrightarrow> g \<in> set (gd_groups db)"
    using created_group [OF 1(1) Cons.prems(2)] by blast
  have IH: "gd_runs db' = gd_runs db1 \<and> gd_change_points db' = gd_change_points db1
    \<and> (\<forall>g. gr_id g \<notin> set ids \<longrightarrow> (g \<in> set (gd_groups db') \<longleftrightarrow> g \<in> set (gd_groups db1)))
    \<and> (\<forall>i \<in> set ids. \<exists>t \<in> set (gd_runs db1). rn_id t = i \<and> has_group db' t)"
    using Cons.IH [OF 1(2)] Cons.prems(2) t(4) by simp
  have "\<exists>t \<in> set (gd_runs db). rn_id t = i \<and> has_group db' t"
  proof (cases "i \<in> set ids")
    case True
    then show ?thesis using IH t(4) by auto
  next
    case False
    then have "has_group db' t" using IH t(2) by (intro has_group_kept [OF t(3)]) auto
    then show ?thesis using t(1,2) by blast
  qed
  then show ?case using IH t by auto
qed simp


section \<open>Examples\<close>

definition group_demo_run :: "string \<Rightarrow> int \<Rightarrow> string option \<Rightarrow> status_run" where
  "group_demo_run i s accepted = timed_run.extend (base_demo_run i\<lparr>tn_start_time := Some s, rn_accepted := accepted\<rparr>)
     (status_run.fields (Some \<lparr>us_evaluatingChecks = Some ''COMPLETED'', us_evaluatingComparisons = None, us_evaluatingAdapt = None, us_lastUpdate = Some 0\<rparr>))"

definition group_demo :: group_db where
  "group_demo = \<lparr>gd_runs = [group_demo_run ''r1'' 1 None, group_demo_run ''r2'' 2 None, group_demo_run ''r3'' 3 (Some ''DENIED''), group_demo_run ''r4'' 4 None],
     gd_change_points = [\<lparr>pt_run = ''r2'', pt_system = ''shop'', pt_workload = ''load'', pt_environment = ''acc'', pt_organization = None\<rparr>],
     gd_groups = []\<rparr>"


text \<open>Resetting a run whose status has no key \<open>evaluatingComparisons\<close>, a key that nothing writes, erases its whole status.\<close>

lemma reset_erases_status:
  "reset_status 1000000 \<lparr>us_evaluatingChecks = Some ''COMPLETED'', us_evaluatingComparisons = None,
     us_evaluatingAdapt = Some ''IN_PROGRESS'', us_lastUpdate = Some 0\<rparr> = None"
  by (simp add: reset_status_def failed_if_def stuck_since_def in_progress_def)
end
