(* ===== verification/Authorization.thy ===== *)
theory Authorization
  imports Prelude
begin

text \<open>
  Who may do what: \<open>apps/api/src/common/services/authorization.service.ts\<close>, \<open>capabilities.service.ts\<close>, the role and
  capability constants (\<open>apps/api/src/constants\<close>). The operations that change memberships are in \<open>Memberships\<close>.

  The service answers from a cache in Redis and falls back on the tables. The state holds the tables and the cache, a map from
  the keys the code builds; \<open>az_enabled\<close> says that the cache is configured and Redis answers, \<open>az_database\<close> that the database
  answers. Identifiers contain no glob characters, so a pattern matches its literal parts. The reasons of an answer and the
  counters of cache hits are left out.
\<close>

section \<open>Roles and capabilities\<close>

definition GLOBAL_ADMIN_ROLES :: "string list" where
  "GLOBAL_ADMIN_ROLES = [''perfana-admin'', ''admin'']"

definition isGlobalAdminRole :: "string \<Rightarrow> bool" where
  "isGlobalAdminRole r = (r \<noteq> '''' \<and> r \<in> set GLOBAL_ADMIN_ROLES)"

definition hasGlobalAdminRole :: "string list option \<Rightarrow> bool" where
  "hasGlobalAdminRole roles = (case roles of None \<Rightarrow> False | Some rs \<Rightarrow> list_ex isGlobalAdminRole rs)"

datatype capability =
    IntegrationGrafanaCreate | IntegrationGrafanaUpdate | IntegrationGrafanaDelete
  | IntegrationDynatraceCreate | IntegrationDynatraceUpdate | IntegrationDynatraceDelete
  | IntegrationPyroscopeCreate | IntegrationPyroscopeUpdate | IntegrationPyroscopeDelete
  | IntegrationTracingCreate | IntegrationTracingUpdate | IntegrationTracingDelete
  | TestRunRead | TestRunUpdate | TestRunDelete | TestRunAnnotate
  | ProfileManage | BenchmarkManage | SutManage | DashboardManage
  | OrgManageMembers | OrgUpdate | OrgDelete | OrgCreate
  | TeamCreate | TeamUpdate | TeamDelete | TeamManageMembers
  | ApiKeyRead | ApiKeyCreate | ApiKeyDelete | ProxyManage
  | SystemAuditRead | SystemManageUsers | SystemManageGlobalSettings

definition integrationCrud :: "capability list" where
  "integrationCrud =
     [IntegrationGrafanaCreate, IntegrationGrafanaUpdate, IntegrationGrafanaDelete,
      IntegrationDynatraceCreate, IntegrationDynatraceUpdate, IntegrationDynatraceDelete,
      IntegrationPyroscopeCreate, IntegrationPyroscopeUpdate, IntegrationPyroscopeDelete,
      IntegrationTracingCreate, IntegrationTracingUpdate, IntegrationTracingDelete]"

definition testRunCrud :: "capability list" where
  "testRunCrud = [TestRunRead, TestRunUpdate, TestRunAnnotate]"

definition orgAdminExtras :: "capability list" where
  "orgAdminExtras =
     [OrgManageMembers, OrgUpdate, TeamCreate, TeamUpdate, TeamDelete, TeamManageMembers, ProfileManage, BenchmarkManage,
      SutManage, DashboardManage, TestRunDelete, ApiKeyRead, ApiKeyCreate, ApiKeyDelete, ProxyManage]"

definition GLOBAL_ADMIN_CAPABILITIES :: "capability list" where
  "GLOBAL_ADMIN_CAPABILITIES =
     integrationCrud @ [TestRunRead, TestRunUpdate, TestRunDelete, TestRunAnnotate, ProfileManage, BenchmarkManage, SutManage,
      DashboardManage, OrgManageMembers, OrgUpdate, OrgDelete, OrgCreate, TeamCreate, TeamUpdate, TeamDelete, TeamManageMembers,
      ApiKeyRead, ApiKeyCreate, ApiKeyDelete, ProxyManage, SystemAuditRead, SystemManageUsers, SystemManageGlobalSettings]"

definition org_role_capabilities :: "string \<Rightarrow> capability list" where
  "org_role_capabilities r =
     (if r = ''org-admin'' then integrationCrud @ testRunCrud @ orgAdminExtras
      else if r = ''org-member'' then testRunCrud @ [ProfileManage, BenchmarkManage, SutManage, DashboardManage, ApiKeyRead]
      else if r = ''org-viewer'' then [TestRunRead, ApiKeyRead] else [])"

definition team_role_capabilities :: "string \<Rightarrow> capability list" where
  "team_role_capabilities r = (if r = ''team-admin'' then [TeamUpdate, TeamManageMembers] else [])"

text \<open>A set keeps the order of insertion.\<close>

definition add_all :: "'a list \<Rightarrow> 'a list \<Rightarrow> 'a list" where
  "add_all acc xs = foldl (\<lambda>a x. if x \<in> set a then a else a @ [x]) acc xs"

definition compute_capabilities :: "string list \<Rightarrow> string list \<Rightarrow> string list \<Rightarrow> capability list" where
  "compute_capabilities systemRoles orgRoles teamRoles =
     (if list_ex (\<lambda>r. r \<in> set GLOBAL_ADMIN_ROLES) systemRoles then add_all [] GLOBAL_ADMIN_CAPABILITIES
      else add_all [] (concat (map org_role_capabilities orgRoles) @ concat (map team_role_capabilities teamRoles)))"

section \<open>Tables and cache\<close>

record org_member =
  om_organization :: string
  om_user :: string
  om_roles :: "string list"

record team_member =
  tm_team :: string
  tm_user :: string
  tm_roles :: "string list"

record team_row =
  te_id :: string
  te_organization :: string
  te_restricted :: bool

record key_row =
  ky_id :: string
  ky_organization :: "string option"
  ky_created_by :: string

datatype cached_value = CFlag bool | CIds "string list" | CCaps "capability list" | CVersion nat

record authz =
  az_orgs :: "string list"
  az_members :: "org_member list"
  az_team_members :: "team_member list"
  az_teams :: "team_row list"
  az_keys :: "key_row list"
  az_cache :: "string \<Rightarrow> cached_value option"
  az_enabled :: bool
  az_database :: bool

definition cacheKeyPrefix :: string where
  "cacheKeyPrefix = ''auth:user-context:''"

definition orgMembershipPrefix :: string where
  "orgMembershipPrefix = ''auth:org-membership:''"

definition teamMembershipPrefix :: string where
  "teamMembershipPrefix = ''auth:team-membership:''"

definition buildOrgMembershipKey :: "string \<Rightarrow> string \<Rightarrow> string" where
  "buildOrgMembershipKey u g = orgMembershipPrefix @ u @ '':'' @ g"

definition teamMembershipKey :: "string \<Rightarrow> string \<Rightarrow> string" where
  "teamMembershipKey u t = teamMembershipPrefix @ u @ '':'' @ t"

definition admin_key :: "string \<Rightarrow> string" where
  "admin_key k = k @ '':admin''"

definition getCachedMembership :: "authz \<Rightarrow> string \<Rightarrow> bool option" where
  "getCachedMembership s k =
     (if \<not> az_enabled s then None
      else case az_cache s k of None \<Rightarrow> None | Some v \<Rightarrow> Some (v = CFlag True))"

definition cache_put :: "authz \<Rightarrow> string \<Rightarrow> cached_value \<Rightarrow> authz" where
  "cache_put s k v = (if az_enabled s then s\<lparr>az_cache := (az_cache s)(k \<mapsto> v)\<rparr> else s)"

definition cacheMembership :: "authz \<Rightarrow> string \<Rightarrow> bool \<Rightarrow> authz" where
  "cacheMembership s k b = cache_put s k (CFlag b)"

text \<open>
  A check that asks the cache first and remembers what the tables say; without the database it denies and remembers nothing.
\<close>

definition through_cache :: "authz \<Rightarrow> string \<Rightarrow> bool \<Rightarrow> bool \<times> authz" where
  "through_cache s k now = 
     (case getCachedMembership s k of
        Some b \<Rightarrow> (b, s)
      | None \<Rightarrow> if az_database s then (now, cacheMembership s k now) else (False, s))"

section \<open>What the tables say\<close>

definition is_api_key :: "string \<Rightarrow> bool" where
  "is_api_key u = startsWith u ''api-key:''"

definition api_key_id :: "string \<Rightarrow> string" where
  "api_key_id u = drop 8 u"

definition org_membership :: "authz \<Rightarrow> string \<Rightarrow> string \<Rightarrow> org_member option" where
  "org_membership s u g = find (\<lambda>m. om_user m = u \<and> om_organization m = g) (az_members s)"

definition team_membership :: "authz \<Rightarrow> string \<Rightarrow> string \<Rightarrow> team_member option" where
  "team_membership s u t = find (\<lambda>m. tm_user m = u \<and> tm_team m = t) (az_team_members s)"

definition org_member_now :: "authz \<Rightarrow> string \<Rightarrow> string \<Rightarrow> bool" where
  "org_member_now s u g =
     (org_membership s u g \<noteq> None
      \<or> is_api_key u \<and> (\<exists>k \<in> set (az_keys s). ky_id k = api_key_id u \<and> ky_organization k = Some g))"

definition org_admin_now :: "authz \<Rightarrow> string \<Rightarrow> string \<Rightarrow> bool" where
  "org_admin_now s u g = (case org_membership s u g of None \<Rightarrow> False | Some m \<Rightarrow> ''org-admin'' \<in> set (om_roles m))"

definition any_org_admin_now :: "authz \<Rightarrow> string \<Rightarrow> bool" where
  "any_org_admin_now s u = (\<exists>m \<in> set (az_members s). om_user m = u \<and> ''org-admin'' \<in> set (om_roles m))"

definition team_member_now :: "authz \<Rightarrow> string \<Rightarrow> string \<Rightarrow> bool" where
  "team_member_now s u t = (team_membership s u t \<noteq> None)"

definition team_admin_now :: "authz \<Rightarrow> string \<Rightarrow> string \<Rightarrow> bool" where
  "team_admin_now s u t = (case team_membership s u t of None \<Rightarrow> False | Some m \<Rightarrow> ''team-admin'' \<in> set (tm_roles m))"

definition accessible_orgs_now :: "authz \<Rightarrow> string \<Rightarrow> string list" where
  "accessible_orgs_now s u =
     (let gs = map om_organization (filter (\<lambda>m. om_user m = u) (az_members s)) in
      if is_api_key u then
        case find (\<lambda>k. ky_id k = api_key_id u) (az_keys s) of
          None \<Rightarrow> gs
        | Some k \<Rightarrow> (case ky_organization k of None \<Rightarrow> gs
                     | Some g \<Rightarrow> if g \<noteq> '''' \<and> g \<notin> set gs then gs @ [g] else gs)
      else gs)"

section \<open>The checks\<close>

definition isOrganizationMember :: "authz \<Rightarrow> string \<Rightarrow> string \<Rightarrow> bool \<times> authz" where
  "isOrganizationMember s u g = through_cache s (buildOrgMembershipKey u g) (org_member_now s u g)"

definition isOrganizationAdmin :: "authz \<Rightarrow> string \<Rightarrow> string \<Rightarrow> bool \<times> authz" where
  "isOrganizationAdmin s u g = through_cache s (admin_key (buildOrgMembershipKey u g)) (org_admin_now s u g)"

definition any_org_admin_key :: "string \<Rightarrow> string" where
  "any_org_admin_key u = cacheKeyPrefix @ u @ '':any-org-admin''"

definition isOrgAdminInAnyOrganization :: "authz \<Rightarrow> string \<Rightarrow> bool \<times> authz" where
  "isOrgAdminInAnyOrganization s u = through_cache s (any_org_admin_key u) (any_org_admin_now s u)"

definition canAdministerAnyOrganization :: "authz \<Rightarrow> string \<Rightarrow> string list option \<Rightarrow> bool \<times> authz" where
  "canAdministerAnyOrganization s u roles =
     (if hasGlobalAdminRole roles then (True, s) else isOrgAdminInAnyOrganization s u)"

definition isTeamMember :: "authz \<Rightarrow> string \<Rightarrow> string \<Rightarrow> bool \<times> authz" where
  "isTeamMember s u t = through_cache s (teamMembershipKey u t) (team_member_now s u t)"

definition isTeamAdmin :: "authz \<Rightarrow> string \<Rightarrow> string \<Rightarrow> bool \<times> authz" where
  "isTeamAdmin s u t = through_cache s (admin_key (teamMembershipKey u t)) (team_admin_now s u t)"

text \<open>The two lists; an entry of another kind does not parse and is answered from the tables.\<close>

definition ids_through_cache :: "authz \<Rightarrow> string \<Rightarrow> string list \<Rightarrow> string list \<times> authz" where
  "ids_through_cache s k now =
     (case (if az_enabled s then az_cache s k else None) of 
        Some (CIds xs) \<Rightarrow> (xs, s)
      | _ \<Rightarrow> if az_database s then (now, cache_put s k (CIds now)) else ([], s))"

definition accessible_orgs_key :: "string \<Rightarrow> string" where
  "accessible_orgs_key u = cacheKeyPrefix @ ''orgs:'' @ u"

definition accessible_teams_key :: "string \<Rightarrow> string" where
  "accessible_teams_key u = cacheKeyPrefix @ ''teams:'' @ u"

definition getAccessibleOrganizations :: "authz \<Rightarrow> string \<Rightarrow> string list \<times> authz" where
  "getAccessibleOrganizations s u = ids_through_cache s (accessible_orgs_key u) (accessible_orgs_now s u)"

definition getAccessibleTeams :: "authz \<Rightarrow> string \<Rightarrow> string list \<times> authz" where
  "getAccessibleTeams s u =
     ids_through_cache s (accessible_teams_key u) (map tm_team (filter (\<lambda>m. tm_user m = u) (az_team_members s)))"

record owned_resource =
  or_organization :: string
  or_team :: "string option"
  or_created_by :: string

definition resource_team :: "owned_resource \<Rightarrow> string option" where
  "resource_team r = (if or_team r = Some '''' then None else or_team r)"

definition canAccessResource :: "authz \<Rightarrow> string \<Rightarrow> string list option \<Rightarrow> owned_resource \<Rightarrow> bool \<times> authz" where
  "canAccessResource s u roles r =
     (if hasGlobalAdminRole roles then (True, s)
      else let (m, s1) = isOrganizationMember s u (or_organization r) in
           if m then (True, s1)
           else case resource_team r of None \<Rightarrow> (False, s1) | Some t \<Rightarrow> isTeamMember s1 u t)"

definition createdByUser :: "owned_resource \<Rightarrow> string \<Rightarrow> bool" where
  "createdByUser r u = (or_created_by r = u)"

definition canModifyResource :: "authz \<Rightarrow> string \<Rightarrow> string list option \<Rightarrow> owned_resource \<Rightarrow> bool \<times> authz" where
  "canModifyResource s u roles r =
     (if hasGlobalAdminRole roles then (True, s)
      else if or_created_by r \<noteq> '''' \<and> createdByUser r u then (True, s)
      else let (a, s1) = isOrganizationAdmin s u (or_organization r) in
           if a then (True, s1)
           else case resource_team r of None \<Rightarrow> (False, s1) | Some t \<Rightarrow> isTeamAdmin s1 u t)"

definition team_of :: "authz \<Rightarrow> string \<Rightarrow> team_row option" where
  "team_of s t = find (\<lambda>x. te_id x = t) (az_teams s)"

text \<open>The lookup of the team is not guarded: it throws without the database (\<open>None\<close>).\<close>

definition canViewTeamResources :: "authz \<Rightarrow> string \<Rightarrow> string \<Rightarrow> bool option \<times> authz" where
  "canViewTeamResources s u t =
     (let (m, s1) = isTeamMember s u t in
      if m then (Some True, s1)
      else if \<not> az_database s1 then (None, s1)
      else case team_of s1 t of
             None \<Rightarrow> (Some False, s1)
           | Some x \<Rightarrow> if \<not> te_restricted x then map_prod Some id (isOrganizationMember s1 u (te_organization x))
                        else (Some False, s1))"

section \<open>Capabilities\<close>

definition version_key :: "string \<Rightarrow> string" where
  "version_key u = ''auth:capabilities-version:'' @ u"

definition getCapabilitiesVersion :: "authz \<Rightarrow> string \<Rightarrow> nat" where
  "getCapabilitiesVersion s u =
     (if \<not> az_enabled s then 1 else case az_cache s (version_key u) of Some (CVersion n) \<Rightarrow> n | _ \<Rightarrow> 1)"

definition scope_text :: "string option \<Rightarrow> string" where
  "scope_text x = (case x of None \<Rightarrow> ''_'' | Some t \<Rightarrow> t)"

definition capabilities_key :: "string \<Rightarrow> string option \<Rightarrow> string option \<Rightarrow> nat \<Rightarrow> string" where
  "capabilities_key u g t v = ''auth:capabilities:'' @ u @ '':'' @ scope_text g @ '':'' @ scope_text t @ '':v'' @ show_nat v"

definition loadOrgRoles :: "authz \<Rightarrow> string \<Rightarrow> string option \<Rightarrow> string list" where
  "loadOrgRoles s u g = (case g of None \<Rightarrow> [] | Some x \<Rightarrow> if x = '''' then []
     else case org_membership s u x of None \<Rightarrow> [] | Some m \<Rightarrow> om_roles m)"

definition loadTeamRoles :: "authz \<Rightarrow> string \<Rightarrow> string option \<Rightarrow> string list" where
  "loadTeamRoles s u t = (case t of None \<Rightarrow> [] | Some x \<Rightarrow> if x = '''' then []
     else case team_membership s u x of None \<Rightarrow> [] | Some m \<Rightarrow> tm_roles m)"

definition scope_given :: "string option \<Rightarrow> bool" where
  "scope_given x = (x \<noteq> None \<and> x \<noteq> Some [])"

definition getCapabilities ::
  "authz \<Rightarrow> string \<Rightarrow> string list \<Rightarrow> string option \<Rightarrow> string option \<Rightarrow> capability list option \<times> authz" where
  "getCapabilities s u roles g t =
     (let k = capabilities_key u g t (getCapabilitiesVersion s u) in
      case (if az_enabled s then az_cache s k else None) of
        Some (CCaps cs) \<Rightarrow> (Some cs, s)
      | _ \<Rightarrow>
        if \<not> az_database s \<and> (scope_given g \<or> scope_given t) then (None, s)
        else let cs = compute_capabilities roles (loadOrgRoles s u g) (loadTeamRoles s u t) in
             (Some cs, cache_put s k (CCaps cs)))"

section \<open>Invalidation\<close>

definition contains :: "string \<Rightarrow> string \<Rightarrow> bool" where
  "contains m k = list_ex (\<lambda>r. startsWith r m) (suffixes k)"

text \<open>\<open>p*m*\<close>\<close>

definition matches_around :: "string \<Rightarrow> string \<Rightarrow> string \<Rightarrow> bool" where
  "matches_around p m k = (startsWith k p \<and> contains m (drop (length p) k))"

definition cache_del :: "(string \<Rightarrow> bool) \<Rightarrow> authz \<Rightarrow> authz" where
  "cache_del P s = s\<lparr>az_cache := (\<lambda>k. if P k then None else az_cache s k)\<rparr>"

text \<open>\<open>INCR\<close> starts a missing counter at 1.\<close>

definition bump_version :: "string \<Rightarrow> authz \<Rightarrow> authz" where
  "bump_version u s =
     s\<lparr>az_cache := (az_cache s)(version_key u \<mapsto>
          CVersion (case az_cache s (version_key u) of Some (CVersion n) \<Rightarrow> n + 1 | _ \<Rightarrow> 1))\<rparr>"

definition invalidateUserCache :: "string \<Rightarrow> authz \<Rightarrow> authz" where
  "invalidateUserCache u s =
     (if \<not> az_enabled s then s
      else bump_version u (cache_del (\<lambda>k. startsWith k (orgMembershipPrefix @ u @ '':'')
             \<or> startsWith k (teamMembershipPrefix @ u @ '':'')
             \<or> k = accessible_orgs_key u \<or> k = accessible_teams_key u) s))"

definition invalidateOrganizationCache :: "string \<Rightarrow> authz \<Rightarrow> authz" where
  "invalidateOrganizationCache g s = (if \<not> az_enabled s then s else cache_del (matches_around orgMembershipPrefix ('':'' @ g)) s)"

definition invalidateTeamCache :: "string \<Rightarrow> authz \<Rightarrow> authz" where
  "invalidateTeamCache t s = (if \<not> az_enabled s then s else cache_del (matches_around teamMembershipPrefix ('':'' @ t)) s)"

definition clearAllCaches :: "authz \<Rightarrow> authz" where
  "clearAllCaches s =
     (if \<not> az_enabled s then s
      else cache_del (\<lambda>k. startsWith k cacheKeyPrefix \<or> startsWith k orgMembershipPrefix \<or> startsWith k teamMembershipPrefix) s)"

end
