(* ===== verification/Memberships.thy ===== *)
theory Memberships
  imports Authorization
begin

text \<open>
  The operations that change who belongs to what, each with the invalidation of the authorization cache the code performs:
  \<open>modules/organizations/organization-members.service.ts\<close>, \<open>modules/organizations/organizations.service.ts\<close>,
  \<open>modules/teams/team-members.service.ts\<close>, \<open>modules/teams/teams.service.ts\<close> and the rows of API keys. The theory then lets them
  interleave with the checks of \<open>Authorization\<close>, with entries that expire and with a database that comes and goes, and proves that
  a granted request is one the tables grant.

  A membership has one row per user and organization (or team), so the operations by the id of the row are those by the pair.
  Names, descriptions and the audit log are left out. An operation is atomic.
\<close>

section \<open>Operations\<close>

datatype member_error = NotFound | Conflict | Forbidden | DatabaseError

type_synonym outcome = "member_error option \<times> authz"

definition invalidate_org :: "string \<Rightarrow> string \<Rightarrow> authz \<Rightarrow> authz" where
  "invalidate_org u g s = invalidateOrganizationCache g (invalidateUserCache u s)"

definition invalidate_team :: "string \<Rightarrow> string \<Rightarrow> authz \<Rightarrow> authz" where
  "invalidate_team u t s = invalidateTeamCache t (invalidateUserCache u s)"

definition add_org_member :: "string \<Rightarrow> string \<Rightarrow> string list \<Rightarrow> authz \<Rightarrow> outcome" where
  "add_org_member g u roles s =
     (if \<not> az_database s then (Some DatabaseError, s)
      else if g \<notin> set (az_orgs s) then (Some NotFound, s)
      else if org_membership s u g \<noteq> None then (Some Conflict, s)
      else (None, invalidate_org u g
             (s\<lparr>az_members := az_members s @ [\<lparr>om_organization = g, om_user = u, om_roles = roles\<rparr>]\<rparr>)))"

definition is_org_row :: "string \<Rightarrow> string \<Rightarrow> org_member \<Rightarrow> bool" where
  "is_org_row u g m = (om_user m = u \<and> om_organization m = g)"

definition is_team_row :: "string \<Rightarrow> string \<Rightarrow> team_member \<Rightarrow> bool" where
  "is_team_row u t m = (tm_user m = u \<and> tm_team m = t)"

definition update_org_roles :: "string \<Rightarrow> string \<Rightarrow> string list \<Rightarrow> authz \<Rightarrow> outcome" where
  "update_org_roles g u roles s =
     (if \<not> az_database s then (Some DatabaseError, s)
      else if org_membership s u g = None then (Some NotFound, s)
      else (None, invalidate_org u g
             (s\<lparr>az_members := map (\<lambda>m. if is_org_row u g m then m\<lparr>om_roles := roles\<rparr> else m) (az_members s)\<rparr>)))"

text \<open>The API keys the user made for the organization are deleted with the membership.\<close>

definition revokeApiKeysForUser :: "string \<Rightarrow> string \<Rightarrow> authz \<Rightarrow> authz" where
  "revokeApiKeysForUser u g s = s\<lparr>az_keys := filter (\<lambda>k. \<not> (ky_created_by k = u \<and> ky_organization k = Some g)) (az_keys s)\<rparr>"

definition remove_org_member :: "string \<Rightarrow> string \<Rightarrow> authz \<Rightarrow> outcome" where
  "remove_org_member g u s =
     (if \<not> az_database s then (Some DatabaseError, s)
      else if org_membership s u g = None then (Some NotFound, s)
      else (None, invalidate_org u g (revokeApiKeysForUser u g
             (s\<lparr>az_members := filter (\<lambda>m. \<not> is_org_row u g m) (az_members s)\<rparr>))))"

definition add_team_member :: "string \<Rightarrow> string \<Rightarrow> string list \<Rightarrow> authz \<Rightarrow> outcome" where
  "add_team_member t u roles s =
     (if \<not> az_database s then (Some DatabaseError, s)
      else if team_of s t = None then (Some NotFound, s)
      else if team_membership s u t \<noteq> None then (Some Conflict, s)
      else (None, s\<lparr>az_team_members := az_team_members s @ [\<lparr>tm_team = t, tm_user = u, tm_roles = roles\<rparr>]\<rparr>))"

definition update_team_roles :: "string \<Rightarrow> string \<Rightarrow> string list \<Rightarrow> authz \<Rightarrow> outcome" where
  "update_team_roles t u roles s =
     (if \<not> az_database s then (Some DatabaseError, s)
      else if team_membership s u t = None then (Some NotFound, s)
      else (None, invalidate_team u t
             (s\<lparr>az_team_members := map (\<lambda>m. if is_team_row u t m then m\<lparr>tm_roles := roles\<rparr> else m) (az_team_members s)\<rparr>)))"

definition remove_team_member :: "string \<Rightarrow> string \<Rightarrow> authz \<Rightarrow> outcome" where
  "remove_team_member t u s =
     (if \<not> az_database s then (Some DatabaseError, s)
      else if team_membership s u t = None then (Some NotFound, s)
      else (None, invalidate_team u t
             (s\<lparr>az_team_members := filter (\<lambda>m. \<not> is_team_row u t m) (az_team_members s)\<rparr>)))"

text \<open>Organizations: creation makes the creator an admin and reads the organization back under the creator's rights.\<close>

definition findOneOrganization :: "string \<Rightarrow> string \<Rightarrow> bool \<Rightarrow> authz \<Rightarrow> outcome" where
  "findOneOrganization g u isAdmin s =
     (if \<not> az_database s then (Some DatabaseError, s)
      else if g \<notin> set (az_orgs s) then (Some NotFound, s)
      else if isAdmin then (None, s)
      else let (m, s1) = isOrganizationMember s u g in (if m then None else Some Forbidden, s1))"

definition create_organization :: "string \<Rightarrow> string \<Rightarrow> bool \<Rightarrow> authz \<Rightarrow> outcome" where
  "create_organization g u isAdmin s =
     (if \<not> az_database s then (Some DatabaseError, s)
      else let s1 = s\<lparr>az_orgs := az_orgs s @ [g]\<rparr>;
               (e, s2) = (if u = [] then (None, s1) else add_org_member g u [''org-admin''] s1) in
           if e \<noteq> None then (e, s2) else findOneOrganization g u isAdmin s2)"

text \<open>Deleting an organization deletes its teams, their members and its own members, and leaves the cache as it is.\<close>

definition drop_organization :: "string \<Rightarrow> authz \<Rightarrow> authz" where
  "drop_organization g s =
     (let teams = map te_id (filter (\<lambda>x. te_organization x = g) (az_teams s)) in
      s\<lparr>az_team_members := filter (\<lambda>m. tm_team m \<notin> set teams) (az_team_members s),
        az_teams := filter (\<lambda>x. te_organization x \<noteq> g) (az_teams s),
        az_members := filter (\<lambda>m. om_organization m \<noteq> g) (az_members s),
        az_orgs := filter (\<lambda>x. x \<noteq> g) (az_orgs s)\<rparr>)"

definition remove_organization :: "string \<Rightarrow> string \<Rightarrow> bool \<Rightarrow> authz \<Rightarrow> outcome" where
  "remove_organization g u isAdmin s =
     (if \<not> az_database s then (Some DatabaseError, s)
      else if g \<notin> set (az_orgs s) then (Some NotFound, s)
      else let (a, s1) = (if isAdmin then (True, s) else isOrganizationAdmin s u g) in
           if \<not> a then (Some Forbidden, s1) else (None, drop_organization g s1))"

text \<open>Teams. A team belongs to an existing organization (a foreign key).\<close>

definition findOneTeam :: "string \<Rightarrow> string \<Rightarrow> bool \<Rightarrow> authz \<Rightarrow> outcome" where
  "findOneTeam t u isAdmin s =
     (if \<not> az_database s then (Some DatabaseError, s)
      else case team_of s t of
        None \<Rightarrow> (Some NotFound, s)
      | Some x \<Rightarrow>
          if isAdmin then (None, s)
          else let (m, s1) = isOrganizationMember s u (te_organization x) in
               if m then (None, s1)
               else let (m2, s2) = isTeamMember s1 u t in (if m2 then None else Some Forbidden, s2))"

definition create_team :: "team_row \<Rightarrow> string \<Rightarrow> bool \<Rightarrow> authz \<Rightarrow> outcome" where
  "create_team x u isAdmin s =
     (let (a, s1) = (if isAdmin then (True, s) else isOrganizationAdmin s u (te_organization x)) in
      if \<not> a then (Some Forbidden, s1)
      else if \<not> az_database s1 \<or> te_organization x \<notin> set (az_orgs s1) then (Some DatabaseError, s1)
      else let s2 = s1\<lparr>az_teams := az_teams s1 @ [x]\<rparr>;
               (e, s3) = (if u = [] then (None, s2) else add_team_member (te_id x) u [''team-admin''] s2) in
           if e \<noteq> None then (e, s3) else findOneTeam (te_id x) u isAdmin s3)"

text \<open>Both administrator checks run before the decision, as the code awaits both.\<close>

definition administers_team :: "team_row \<Rightarrow> string \<Rightarrow> bool \<Rightarrow> authz \<Rightarrow> bool \<times> authz" where
  "administers_team x u isAdmin s =
     (if isAdmin then (True, s)
      else let (a, s1) = isOrganizationAdmin s u (te_organization x);
               (b, s2) = isTeamAdmin s1 u (te_id x) in (a \<or> b, s2))"

text \<open>The parameter \<open>save\<close> is the row the ORM stores for the update: it keeps the id.\<close>

definition update_team :: "string \<Rightarrow> string \<Rightarrow> bool \<Rightarrow> string option \<Rightarrow> (team_row \<Rightarrow> team_row) \<Rightarrow> authz \<Rightarrow> outcome" where
  "update_team t u isAdmin to_org save s =
     (if \<not> az_database s then (Some DatabaseError, s)
      else case team_of s t of
        None \<Rightarrow> (Some NotFound, s)
      | Some x \<Rightarrow>
          let (a, s1) = administers_team x u isAdmin s in
          if \<not> a then (Some Forbidden, s1)
          else let (b, s2) =
                 (case to_org of
                    None \<Rightarrow> (True, s1)
                  | Some g \<Rightarrow> if g \<noteq> [] \<and> g \<noteq> te_organization x \<and> \<not> isAdmin then isOrganizationAdmin s1 u g else (True, s1)) in
               if \<not> b then (Some Forbidden, s2)
               else findOneTeam t u isAdmin
                      (s2\<lparr>az_teams := map (\<lambda>y. if te_id y = t then save y else y) (az_teams s2)\<rparr>))"

definition remove_team :: "string \<Rightarrow> string \<Rightarrow> bool \<Rightarrow> authz \<Rightarrow> outcome" where
  "remove_team t u isAdmin s =
     (if \<not> az_database s then (Some DatabaseError, s)
      else case team_of s t of
        None \<Rightarrow> (Some NotFound, s)
      | Some x \<Rightarrow>
          let (a, s1) = administers_team x u isAdmin s in
          if \<not> a then (Some Forbidden, s1)
          else (None, s1\<lparr>az_teams := filter (\<lambda>y. te_id y \<noteq> t) (az_teams s1),
                         az_team_members := filter (\<lambda>m. tm_team m \<noteq> t) (az_team_members s1)\<rparr>))"

definition create_key :: "key_row \<Rightarrow> authz \<Rightarrow> authz" where
  "create_key k s = s\<lparr>az_keys := az_keys s @ [k]\<rparr>"

definition key_user :: "string \<Rightarrow> string" where
  "key_user i = ''api-key:'' @ i"

definition delete_key :: "string \<Rightarrow> authz \<Rightarrow> authz" where
  "delete_key i s =
     invalidateUserCache (key_user i)
       ((invalidateUserCache (key_user i) s)\<lparr>az_keys := filter (\<lambda>k. ky_id k \<noteq> i) (az_keys s)\<rparr>)"

section \<open>The transition system\<close>

datatype authz_op =
    CheckOrgMember string string
  | CheckOrgAdmin string string
  | CheckAnyOrgAdmin string
  | CheckTeamMember string string
  | CheckTeamAdmin string string
  | ListOrganizations string
  | ListTeams string
  | Access string "string list option" owned_resource
  | Modify string "string list option" owned_resource
  | ViewTeam string string
  | Capabilities string "string list" "string option" "string option"
  | AddOrgMember string string "string list"
  | UpdateOrgRoles string string "string list"
  | RemoveOrgMember string string
  | AddTeamMember string string "string list"
  | UpdateTeamRoles string string "string list"
  | RemoveTeamMember string string
  | CreateOrganization string string bool
  | RemoveOrganization string string bool
  | CreateTeam team_row string bool
  | UpdateTeam string string bool "string option" "team_row \<Rightarrow> team_row"
  | RemoveTeam string string bool
  | CreateKey key_row
  | DeleteKey string
  | ClearCaches
  | Expire string
  | Database bool

fun run_authz_op :: "authz_op \<Rightarrow> authz \<Rightarrow> authz" where
  "run_authz_op (CheckOrgMember u g) s = snd (isOrganizationMember s u g)"
| "run_authz_op (CheckOrgAdmin u g) s = snd (isOrganizationAdmin s u g)"
| "run_authz_op (CheckAnyOrgAdmin u) s = snd (isOrgAdminInAnyOrganization s u)"
| "run_authz_op (CheckTeamMember u t) s = snd (isTeamMember s u t)"
| "run_authz_op (CheckTeamAdmin u t) s = snd (isTeamAdmin s u t)"
| "run_authz_op (ListOrganizations u) s = snd (getAccessibleOrganizations s u)"
| "run_authz_op (ListTeams u) s = snd (getAccessibleTeams s u)"
| "run_authz_op (Access u roles r) s = snd (canAccessResource s u roles r)"
| "run_authz_op (Modify u roles r) s = snd (canModifyResource s u roles r)"
| "run_authz_op (ViewTeam u t) s = snd (canViewTeamResources s u t)"
| "run_authz_op (Capabilities u roles g t) s = snd (getCapabilities s u roles g t)"
| "run_authz_op (AddOrgMember g u roles) s = snd (add_org_member g u roles s)"
| "run_authz_op (UpdateOrgRoles g u roles) s = snd (update_org_roles g u roles s)"
| "run_authz_op (RemoveOrgMember g u) s = snd (remove_org_member g u s)"
| "run_authz_op (AddTeamMember t u roles) s = snd (add_team_member t u roles s)"
| "run_authz_op (UpdateTeamRoles t u roles) s = snd (update_team_roles t u roles s)"
| "run_authz_op (RemoveTeamMember t u) s = snd (remove_team_member t u s)"
| "run_authz_op (CreateOrganization g u adm) s = snd (create_organization g u adm s)"
| "run_authz_op (RemoveOrganization g u adm) s = snd (remove_organization g u adm s)"
| "run_authz_op (CreateTeam x u adm) s = snd (create_team x u adm s)"
| "run_authz_op (UpdateTeam t u adm g save) s = snd (update_team t u adm g save s)"
| "run_authz_op (RemoveTeam t u adm) s = snd (remove_team t u adm s)"
| "run_authz_op (CreateKey k) s = create_key k s"
| "run_authz_op (DeleteKey i) s = delete_key i s"
| "run_authz_op ClearCaches s = clearAllCaches s"
| "run_authz_op (Expire k) s = s\<lparr>az_cache := (az_cache s)(k := None)\<rparr>"
| "run_authz_op (Database b) s = s\<lparr>az_database := b\<rparr>"

text \<open>Identifiers of organizations and teams are UUIDs: no colon, and not the word the key of an administrator ends with.\<close>

definition plain :: "string \<Rightarrow> bool" where
  "plain g = (CHR '':'' \<notin> set g \<and> g \<noteq> ''admin'')"

datatype entry =
    OrgFlag string string
  | OrgAdmin string string
  | TeamFlag string string
  | TeamAdmin string string
  | OrgList string
  | TeamList string

fun entry_key :: "entry \<Rightarrow> string" where
  "entry_key (OrgFlag u g) = buildOrgMembershipKey u g"
| "entry_key (OrgAdmin u g) = admin_key (buildOrgMembershipKey u g)"
| "entry_key (TeamFlag u t) = teamMembershipKey u t"
| "entry_key (TeamAdmin u t) = admin_key (teamMembershipKey u t)"
| "entry_key (OrgList u) = accessible_orgs_key u"
| "entry_key (TeamList u) = accessible_teams_key u"

fun plain_entry :: "entry \<Rightarrow> bool" where
  "plain_entry (OrgFlag u g) = plain g"
| "plain_entry (OrgAdmin u g) = plain g"
| "plain_entry (TeamFlag u t) = plain t"
| "plain_entry (TeamAdmin u t) = plain t"
| "plain_entry _ = True"

text \<open>A new UUID: no row and no entry of the cache mentions it.\<close>

definition fresh_org :: "authz \<Rightarrow> string \<Rightarrow> bool" where
  "fresh_org s g =
     (plain g \<and> g \<notin> set (az_orgs s) \<and> g \<notin> om_organization ` set (az_members s)
      \<and> (\<forall>u. az_cache s (entry_key (OrgFlag u g)) = None \<and> az_cache s (entry_key (OrgAdmin u g)) = None)
      \<and> (\<forall>k xs. az_cache s k = Some (CIds xs) \<longrightarrow> g \<notin> set xs))"

definition fresh_team :: "authz \<Rightarrow> string \<Rightarrow> bool" where
  "fresh_team s t =
     (plain t \<and> t \<notin> te_id ` set (az_teams s)
      \<and> (\<forall>u. az_cache s (entry_key (TeamFlag u t)) = None \<and> az_cache s (entry_key (TeamAdmin u t)) = None)
      \<and> (\<forall>k xs. az_cache s k = Some (CIds xs) \<longrightarrow> t \<notin> set xs))"

definition unused_key :: "authz \<Rightarrow> string \<Rightarrow> bool" where
  "unused_key s i = (\<forall>g. az_cache s (entry_key (OrgFlag (key_user i) g)) = None)"

fun op_ok :: "authz \<Rightarrow> authz_op \<Rightarrow> bool" where
  "op_ok s (CheckOrgMember u g) = plain g"
| "op_ok s (CheckOrgAdmin u g) = plain g"
| "op_ok s (CheckTeamMember u t) = plain t"
| "op_ok s (CheckTeamAdmin u t) = plain t"
| "op_ok s (Access u roles r) = (plain (or_organization r) \<and> (\<forall>t. or_team r = Some t \<longrightarrow> plain t))"
| "op_ok s (Modify u roles r) = (plain (or_organization r) \<and> (\<forall>t. or_team r = Some t \<longrightarrow> plain t))"
| "op_ok s (ViewTeam u t) = plain t"
| "op_ok s (CreateOrganization g u adm) = fresh_org s g"
| "op_ok s (RemoveOrganization g u adm) = plain g"
| "op_ok s (CreateTeam x u adm) = (plain (te_organization x) \<and> fresh_team s (te_id x))"
| "op_ok s (UpdateTeam t u adm to_org save) =
     ((\<forall>g. to_org = Some g \<longrightarrow> plain g)
      \<and> (\<forall>x. te_id (save x) = te_id x)
      \<and> (\<forall>x \<in> set (az_teams s). te_organization (save x) \<in> set (az_orgs s)))"
| "op_ok s (CreateKey k) = unused_key s (ky_id k)"
| "op_ok s _ = True"

definition authz_start :: "authz \<Rightarrow> bool" where
  "authz_start s =
     (az_cache s = Map.empty \<and> list_all plain (az_orgs s) \<and> list_all (plain \<circ> te_id) (az_teams s)
      \<and> distinct (map te_id (az_teams s)) \<and> te_organization ` set (az_teams s) \<subseteq> set (az_orgs s))"

inductive authz_reachable :: "authz \<Rightarrow> bool" where
  start: "authz_start s \<Longrightarrow> authz_reachable s"
| op: "authz_reachable s \<Longrightarrow> op_ok s x \<Longrightarrow> authz_reachable (run_authz_op x s)"

section \<open>The cache never grants more than the tables\<close>

named_theorems authz_frame \<open>what an operation leaves unchanged\<close>

definition live :: "authz \<Rightarrow> entry \<Rightarrow> bool" where
  "live s e = (case e of
      OrgFlag u g \<Rightarrow> g \<in> set (az_orgs s)
    | OrgAdmin u g \<Rightarrow> g \<in> set (az_orgs s)
    | TeamFlag u t \<Rightarrow> t \<in> te_id ` set (az_teams s)
    | TeamAdmin u t \<Rightarrow> t \<in> te_id ` set (az_teams s)
    | _ \<Rightarrow> True)"

text \<open>
  What an entry may say: an organization's flags say exactly what the tables say; a team's flags and list never say more (a new
  member of a team is not announced to the cache); the list of organizations of a user is exact.
\<close>

definition says :: "authz \<Rightarrow> entry \<Rightarrow> cached_value \<Rightarrow> bool" where
  "says s e v = (case e of
      OrgFlag u g \<Rightarrow> v = CFlag (org_member_now s u g)
    | OrgAdmin u g \<Rightarrow> v = CFlag (org_admin_now s u g)
    | TeamFlag u t \<Rightarrow> v = CFlag False \<or> v = CFlag True \<and> team_member_now s u t
    | TeamAdmin u t \<Rightarrow> v = CFlag False \<or> v = CFlag True \<and> team_admin_now s u t
    | OrgList u \<Rightarrow> (\<forall>xs. v = CIds xs \<longrightarrow> \<not> is_api_key u \<longrightarrow>
         (\<forall>g \<in> set (az_orgs s). g \<in> set xs \<longleftrightarrow> org_member_now s u g))
    | TeamList u \<Rightarrow> (\<forall>xs. v = CIds xs \<longrightarrow> (\<forall>t \<in> set xs. t \<in> te_id ` set (az_teams s) \<longrightarrow> team_member_now s u t)))"

definition ids_ok :: "authz \<Rightarrow> bool" where
  "ids_ok s =
     (list_all plain (az_orgs s) \<and> list_all (plain \<circ> te_id) (az_teams s) \<and> distinct (map te_id (az_teams s))
      \<and> te_organization ` set (az_teams s) \<subseteq> set (az_orgs s))"

definition no_stale :: "authz \<Rightarrow> bool" where
  "no_stale s =
     (ids_ok s \<and> (\<not> az_enabled s \<longrightarrow> az_cache s = Map.empty)
      \<and> (\<forall>e v. plain_entry e \<longrightarrow> live s e \<longrightarrow> az_cache s (entry_key e) = Some v \<longrightarrow> says s e v))"

lemma no_staleD:
  "no_stale s \<Longrightarrow> plain_entry e \<Longrightarrow> live s e \<Longrightarrow> az_cache s (entry_key e) = Some v \<Longrightarrow> says s e v"
  "no_stale s \<Longrightarrow> ids_ok s"
  "no_stale s \<Longrightarrow> \<not> az_enabled s \<Longrightarrow> az_cache s k = None"
  by (auto simp: no_stale_def)

text \<open>The frame rule: what survives an operation was there before and still says the truth.\<close>

lemma no_stale_frame:
  assumes "no_stale s" "ids_ok s'" "az_enabled s' = az_enabled s"
    and "\<And>k v. az_cache s' k = Some v \<Longrightarrow> \<not> az_enabled s \<Longrightarrow> False"
    and "\<And>e v. plain_entry e \<Longrightarrow> live s' e \<Longrightarrow> az_cache s' (entry_key e) = Some v
           \<Longrightarrow> az_cache s (entry_key e) = Some v \<and> live s e \<and> (says s e v \<longrightarrow> says s' e v)"
  shows "no_stale s'"
  using assms unfolding no_stale_def by (metis not_Some_eq ext)

subsection \<open>Keys\<close>

lemma last_field: "c \<notin> set h \<Longrightarrow> takeWhile (\<lambda>x. x \<noteq> c) (rev (w @ c # h)) = rev h"
  by (simp, subst takeWhile_append2) auto

lemma last_field_eq: "c \<notin> set h \<Longrightarrow> c \<notin> set h' \<Longrightarrow> u @ c # h = u' @ c # h' \<longleftrightarrow> u = u' \<and> h = h'"
  by (metis last_field rev_is_rev_conv append_same_eq)

lemma plain_last: "plain g \<Longrightarrow> plain g' \<Longrightarrow> u @ CHR '':'' # g = u' @ CHR '':'' # g' \<longleftrightarrow> u = u' \<and> g = g'"
  by (simp add: plain_def last_field_eq)

lemma plain_not_admin: "plain g \<Longrightarrow> u @ CHR '':'' # g \<noteq> u' @ CHR '':'' # g' @ '':admin''"
  using last_field_eq [of "CHR '':''" g "''admin''" u "u' @ CHR '':'' # g'"] by (auto simp: plain_def)

lemmas key_defs = buildOrgMembershipKey_def teamMembershipKey_def admin_key_def accessible_orgs_key_def accessible_teams_key_def
  orgMembershipPrefix_def teamMembershipPrefix_def cacheKeyPrefix_def any_org_admin_key_def version_key_def capabilities_key_def

lemma entry_key_inj:
  assumes "plain_entry e" "plain_entry e'" "entry_key e = entry_key e'"
  shows "e = e'"
  using assms plain_not_admin plain_not_admin [symmetric]
  by (cases e; cases e') (auto simp: key_defs plain_last)

lemma version_key_other: "version_key u \<noteq> entry_key e"
  by (cases e) (simp_all add: key_defs)

lemma capabilities_key_other: "capabilities_key u g t n \<noteq> entry_key e"
  by (cases e) (simp_all add: key_defs)

lemma any_org_admin_key_other:
  "any_org_admin_key u = entry_key e \<Longrightarrow> (\<exists>u. e = OrgList u) \<or> (\<exists>u. e = TeamList u)"
  by (cases e) (simp_all add: key_defs)

subsection \<open>Checks keep it\<close>

lemmas now_defs = org_member_now_def org_admin_now_def team_member_now_def team_admin_now_def org_membership_def team_membership_def

text \<open>The truth depends on the tables only.\<close>

lemma now_cache [simp]:
  "org_member_now (s\<lparr>az_cache := c\<rparr>) = org_member_now s" "org_admin_now (s\<lparr>az_cache := c\<rparr>) = org_admin_now s"
  "team_member_now (s\<lparr>az_cache := c\<rparr>) = team_member_now s" "team_admin_now (s\<lparr>az_cache := c\<rparr>) = team_admin_now s"
  by (simp_all add: fun_eq_iff now_defs)

lemma says_cache [simp]: "says (s\<lparr>az_cache := c\<rparr>) e = says s e"
  by (cases e) (simp_all add: fun_eq_iff says_def)

lemma live_cache [simp]: "live (s\<lparr>az_cache := c\<rparr>) e = live s e"
  by (cases e) (simp_all add: live_def)

lemma ids_ok_cache [simp]: "ids_ok (s\<lparr>az_cache := c\<rparr>) = ids_ok s"
  by (simp add: ids_ok_def)

lemma cache_put_tables [simp]:
  "az_orgs (cache_put s k v) = az_orgs s" "az_members (cache_put s k v) = az_members s"
  "az_teams (cache_put s k v) = az_teams s" "az_team_members (cache_put s k v) = az_team_members s"
  "az_keys (cache_put s k v) = az_keys s" "az_enabled (cache_put s k v) = az_enabled s"
  "az_database (cache_put s k v) = az_database s"
  by (simp_all add: cache_put_def)

lemma no_stale_put:
  assumes "no_stale s" "\<And>e. plain_entry e \<Longrightarrow> live s e \<Longrightarrow> entry_key e = k \<Longrightarrow> says s e v"
  shows "no_stale (cache_put s k v)"
proof (cases "az_enabled s")
  case True
  with assms show ?thesis by (auto simp: no_stale_def cache_put_def split: if_splits)
qed (use assms in \<open>simp add: cache_put_def\<close>)

lemma through_cache_no_stale:
  assumes "no_stale s" "\<And>e. plain_entry e \<Longrightarrow> live s e \<Longrightarrow> entry_key e = k \<Longrightarrow> says s e (CFlag b)"
  shows "no_stale (snd (through_cache s k b))"
  using assms by (simp add: through_cache_def cacheMembership_def no_stale_put split: option.split)

lemma says_now:
  "says s (OrgFlag u g) (CFlag (org_member_now s u g))" "says s (OrgAdmin u g) (CFlag (org_admin_now s u g))"
  "says s (TeamFlag u t) (CFlag (team_member_now s u t))" "says s (TeamAdmin u t) (CFlag (team_admin_now s u t))"
  by (simp_all add: says_def)

lemma flag_check_no_stale:
  assumes "no_stale s" "plain_entry e" "says s e (CFlag b)"
  shows "no_stale (snd (through_cache s (entry_key e) b))"
  using assms by (metis through_cache_no_stale entry_key_inj)

lemma check_no_stale [intro]:
  assumes "no_stale s"
  shows "plain g \<Longrightarrow> no_stale (snd (isOrganizationMember s u g))"
    and "plain g \<Longrightarrow> no_stale (snd (isOrganizationAdmin s u g))"
    and "plain t \<Longrightarrow> no_stale (snd (isTeamMember s u t))"
    and "plain t \<Longrightarrow> no_stale (snd (isTeamAdmin s u t))"
  using flag_check_no_stale [OF assms _ says_now(1), of u g] flag_check_no_stale [OF assms _ says_now(2), of u g]
    flag_check_no_stale [OF assms _ says_now(3), of u t] flag_check_no_stale [OF assms _ says_now(4), of u t]
  by (simp_all add: isOrganizationMember_def isOrganizationAdmin_def isTeamMember_def isTeamAdmin_def)

lemma any_admin_no_stale: "no_stale s \<Longrightarrow> no_stale (snd (isOrgAdminInAnyOrganization s u))"
  unfolding isOrgAdminInAnyOrganization_def
  by (rule through_cache_no_stale) (auto dest!: any_org_admin_key_other [OF sym] simp: says_def)

subsection \<open>What an invalidation leaves\<close>

fun entry_user :: "entry \<Rightarrow> string" where
  "entry_user (OrgFlag u g) = u"
| "entry_user (OrgAdmin u g) = u"
| "entry_user (TeamFlag u t) = u"
| "entry_user (TeamAdmin u t) = u"
| "entry_user (OrgList u) = u"
| "entry_user (TeamList u) = u"

fun about_org :: "string \<Rightarrow> entry \<Rightarrow> bool" where
  "about_org g (OrgFlag u g') = (g' = g)"
| "about_org g (OrgAdmin u g') = (g' = g)"
| "about_org g _ = False"

fun about_team :: "string \<Rightarrow> entry \<Rightarrow> bool" where
  "about_team t (TeamFlag u t') = (t' = t)"
| "about_team t (TeamAdmin u t') = (t' = t)"
| "about_team t _ = False"

lemma startsWith_append [simp]: "startsWith (p @ x) p"
  by (simp add: startsWith_def)

lemma contains_infix: "contains m (a @ m @ b)"
  by (auto simp: contains_def list_ex_iff suffix_def intro!: bexI [of _ "m @ b"])

lemma user_keys: "entry_user e = u \<Longrightarrow>
    startsWith (entry_key e) (orgMembershipPrefix @ u @ '':'') \<or> startsWith (entry_key e) (teamMembershipPrefix @ u @ '':'')
    \<or> entry_key e = accessible_orgs_key u \<or> entry_key e = accessible_teams_key u"
  by (cases e) (simp_all add: key_defs startsWith_def)

lemma org_keys: "about_org g e \<Longrightarrow> matches_around orgMembershipPrefix ('':'' @ g) (entry_key e)"
proof (induction g e rule: about_org.induct)
  case (1 g u g')
  then show ?case
    using contains_infix [of "'':'' @ g" u "[]"] by (simp add: matches_around_def buildOrgMembershipKey_def)
next
  case (2 g u g')
  then show ?case
    using contains_infix [of "'':'' @ g" u "'':admin''"] by (simp add: matches_around_def buildOrgMembershipKey_def admin_key_def)
qed simp_all

lemma team_keys: "about_team t e \<Longrightarrow> matches_around teamMembershipPrefix ('':'' @ t) (entry_key e)"
proof (induction t e rule: about_team.induct)
  case (1 t u t')
  then show ?case
    using contains_infix [of "'':'' @ t" u "[]"] by (simp add: matches_around_def teamMembershipKey_def)
next
  case (2 t u t')
  then show ?case
    using contains_infix [of "'':'' @ t" u "'':admin''"] by (simp add: matches_around_def teamMembershipKey_def admin_key_def)
qed simp_all

lemma survives:
  "az_cache (invalidateUserCache u s) (entry_key e) = Some v \<Longrightarrow>
     az_cache s (entry_key e) = Some v \<and> (az_enabled s \<longrightarrow> entry_user e \<noteq> u)"
  "az_cache (invalidateOrganizationCache g s) (entry_key e) = Some v \<Longrightarrow>
     az_cache s (entry_key e) = Some v \<and> (az_enabled s \<longrightarrow> \<not> about_org g e)"
  "az_cache (invalidateTeamCache t s) (entry_key e) = Some v \<Longrightarrow>
     az_cache s (entry_key e) = Some v \<and> (az_enabled s \<longrightarrow> \<not> about_team t e)"
  using user_keys [of e u] org_keys [of g e] team_keys [of t e]
  by (auto simp: invalidateUserCache_def invalidateOrganizationCache_def invalidateTeamCache_def bump_version_def cache_del_def
        version_key_other version_key_other [symmetric] split: if_splits)

text \<open>An invalidation changes nothing but the cache.\<close>

definition cache_only :: "authz \<Rightarrow> authz \<Rightarrow> bool" where
  "cache_only s s' = (\<exists>c. s' = s\<lparr>az_cache := c\<rparr>)"

lemma cache_only_refl [intro]: "cache_only s s"
  unfolding cache_only_def by (rule exI [of _ "az_cache s"]) simp

lemma cache_only_del [intro]: "cache_only s (cache_del P s)"
  unfolding cache_only_def cache_del_def by blast

lemma cache_only_bump [intro]: "cache_only s s' \<Longrightarrow> cache_only s (bump_version u s')"
  by (auto simp: cache_only_def bump_version_def)

lemma invalidate_cache_only:
  "cache_only s (invalidateUserCache u s)" "cache_only s (invalidateOrganizationCache g s)" "cache_only s (invalidateTeamCache t s)"
  by (auto simp: invalidateUserCache_def invalidateOrganizationCache_def invalidateTeamCache_def)

lemma invalidated_tables:
  assumes "s' = invalidateUserCache u s \<or> s' = invalidateOrganizationCache g s \<or> s' = invalidateTeamCache t s"
  shows "az_enabled s' = az_enabled s" "ids_ok s' = ids_ok s" "live s' e = live s e" "says s' e = says s e"
    "az_orgs s' = az_orgs s" "az_teams s' = az_teams s" "az_members s' = az_members s" "az_keys s' = az_keys s"
    "\<not> az_enabled s \<Longrightarrow> az_cache s' = az_cache s" "az_team_members s' = az_team_members s" "az_database s' = az_database s"
proof -
  have "cache_only s s'" using assms invalidate_cache_only by blast
  then obtain c where s': "s' = s\<lparr>az_cache := c\<rparr>" by (auto simp: cache_only_def)
  show "az_enabled s' = az_enabled s" "ids_ok s' = ids_ok s" "live s' e = live s e" "says s' e = says s e"
    "az_orgs s' = az_orgs s" "az_teams s' = az_teams s" "az_members s' = az_members s" "az_keys s' = az_keys s"
    "az_team_members s' = az_team_members s" "az_database s' = az_database s"
    by (simp_all add: s')
  show "\<not> az_enabled s \<Longrightarrow> az_cache s' = az_cache s"
    using assms by (auto simp: invalidateUserCache_def invalidateOrganizationCache_def invalidateTeamCache_def)
qed

lemmas invalidated [simp] =
  invalidated_tables [OF disjI1, OF refl] invalidated_tables [OF disjI2, OF disjI1, OF refl]
  invalidated_tables [OF disjI2, OF disjI2, OF refl]

text \<open>
  A change of the tables followed by an invalidation: entries of other users about other organizations (teams) have to stay true.
\<close>

lemma invalidate_org_no_stale:
  assumes "no_stale s" "ids_ok s1" "az_cache s1 = az_cache s" "az_enabled s1 = az_enabled s" "\<And>e. live s1 e \<Longrightarrow> live s e"
    and "\<And>e v. plain_entry e \<Longrightarrow> live s1 e \<Longrightarrow> entry_user e \<noteq> u \<Longrightarrow> \<not> about_org g e \<Longrightarrow> says s e v \<Longrightarrow> says s1 e v"
  shows "no_stale (invalidate_org u g s1)"
proof (rule no_stale_frame [OF assms(1)])
  fix e v
  assume e: "plain_entry e" "live (invalidate_org u g s1) e" "az_cache (invalidate_org u g s1) (entry_key e) = Some v"
  then have c: "az_cache s (entry_key e) = Some v" "az_enabled s \<longrightarrow> entry_user e \<noteq> u \<and> \<not> about_org g e"
    using assms(3,4) by (auto simp: invalidate_org_def dest!: survives)
  moreover have "az_enabled s" using c(1) no_staleD(3) [OF assms(1)] by force
  ultimately show "az_cache s (entry_key e) = Some v \<and> live s e \<and> (says s e v \<longrightarrow> says (invalidate_org u g s1) e v)"
    using e assms(5,6) by (simp add: invalidate_org_def)
next
  fix k v
  assume "az_cache (invalidate_org u g s1) k = Some v" "\<not> az_enabled s"
  then show False using assms(3,4) no_staleD(3) [OF assms(1)] by (simp add: invalidate_org_def)
qed (simp_all add: invalidate_org_def assms)

lemma invalidate_team_no_stale:
  assumes "no_stale s" "ids_ok s1" "az_cache s1 = az_cache s" "az_enabled s1 = az_enabled s" "\<And>e. live s1 e \<Longrightarrow> live s e"
    and "\<And>e v. plain_entry e \<Longrightarrow> live s1 e \<Longrightarrow> entry_user e \<noteq> u \<Longrightarrow> \<not> about_team t e \<Longrightarrow> says s e v \<Longrightarrow> says s1 e v"
  shows "no_stale (invalidate_team u t s1)"
proof (rule no_stale_frame [OF assms(1)])
  fix e v
  assume e: "plain_entry e" "live (invalidate_team u t s1) e" "az_cache (invalidate_team u t s1) (entry_key e) = Some v"
  then have c: "az_cache s (entry_key e) = Some v" "az_enabled s \<longrightarrow> entry_user e \<noteq> u \<and> \<not> about_team t e"
    using assms(3,4) by (auto simp: invalidate_team_def dest!: survives)
  moreover have "az_enabled s" using c(1) no_staleD(3) [OF assms(1)] by force
  ultimately show "az_cache s (entry_key e) = Some v \<and> live s e \<and> (says s e v \<longrightarrow> says (invalidate_team u t s1) e v)"
    using e assms(5,6) by (simp add: invalidate_team_def)
next
  fix k v
  assume "az_cache (invalidate_team u t s1) k = Some v" "\<not> az_enabled s"
  then show False using assms(3,4) no_staleD(3) [OF assms(1)] by (simp add: invalidate_team_def)
qed (simp_all add: invalidate_team_def assms)

subsection \<open>Changing memberships keeps it\<close>

lemma find_as_filter: "find P xs = (case filter P xs of [] \<Rightarrow> None | x # _ \<Rightarrow> Some x)"
  by (induction xs) auto

lemma find_filter_other: "(\<And>x. P x \<Longrightarrow> \<not> Q x) \<Longrightarrow> find P (filter (\<lambda>x. \<not> Q x) xs) = find P xs"
  by (induction xs) auto

lemma find_map_other: "(\<And>x. P x \<Longrightarrow> \<not> Q x) \<Longrightarrow> (\<And>x. P (f x) = P x) \<Longrightarrow>
    find P (map (\<lambda>x. if Q x then f x else x) xs) = find P xs"
  by (induction xs) auto

lemma find_append_other: "\<not> P x \<Longrightarrow> find P (xs @ [x]) = find P xs"
  by (induction xs) auto

lemma find_append_Some: "find P xs = Some y \<Longrightarrow> find P (xs @ ys) = Some y"
  by (induction xs) auto

text \<open>The tables after a change say the same about everybody else.\<close>

lemma says_cong:
  assumes "says s e v" "\<not> about_org g e" "entry_user e \<noteq> u" "set (az_orgs s') \<subseteq> set (az_orgs s)" "az_teams s' = az_teams s"
    and "\<And>u' g'. u' \<noteq> u \<Longrightarrow> g' \<noteq> g \<or> \<not> is_api_key u' \<Longrightarrow> org_member_now s' u' g' = org_member_now s u' g'"
    and "\<And>u' g'. u' \<noteq> u \<Longrightarrow> org_admin_now s' u' g' = org_admin_now s u' g'"
    and "az_team_members s' = az_team_members s"
  shows "says s' e v"
  using assms by (cases e) (auto simp: says_def team_member_now_def team_admin_now_def team_membership_def)

lemma org_membership_other:
  assumes "u' \<noteq> u"
  shows "org_membership (s\<lparr>az_members := az_members s @ [\<lparr>om_organization = g, om_user = u, om_roles = roles\<rparr>]\<rparr>) u' g'
           = org_membership s u' g'" (is ?add)
    and "org_membership (s\<lparr>az_members := map (\<lambda>m. if is_org_row u g m then m\<lparr>om_roles := roles\<rparr> else m) (az_members s)\<rparr>) u' g'
           = org_membership s u' g'" (is ?update)
    and "org_membership (s\<lparr>az_members := filter (\<lambda>m. \<not> is_org_row u g m) (az_members s)\<rparr>) u' g' = org_membership s u' g'"
      (is ?remove)
proof -
  show ?add using assms by (simp add: org_membership_def find_append_other)
  have "find (\<lambda>m. om_user m = u' \<and> om_organization m = g')
      (map (\<lambda>m. if is_org_row u g m then m\<lparr>om_roles := roles\<rparr> else m) (az_members s))
      = find (\<lambda>m. om_user m = u' \<and> om_organization m = g') (az_members s)"
    by (rule find_map_other) (use assms in \<open>auto simp: is_org_row_def\<close>)
  then show ?update by (simp add: org_membership_def)
  have "find (\<lambda>m. om_user m = u' \<and> om_organization m = g') (filter (\<lambda>m. \<not> is_org_row u g m) (az_members s))
      = find (\<lambda>m. om_user m = u' \<and> om_organization m = g') (az_members s)"
    by (rule find_filter_other) (use assms in \<open>auto simp: is_org_row_def\<close>)
  then show ?remove by (simp add: org_membership_def)
qed

lemma now_other [simp]:
  assumes "u' \<noteq> u"
  shows "org_member_now (s\<lparr>az_members := az_members s @ [\<lparr>om_organization = g, om_user = u, om_roles = roles\<rparr>]\<rparr>) u' g'
           = org_member_now s u' g'"
    and "org_member_now (s\<lparr>az_members := map (\<lambda>m. if is_org_row u g m then m\<lparr>om_roles := roles\<rparr> else m) (az_members s)\<rparr>) u' g'
           = org_member_now s u' g'"
    and "org_member_now (s\<lparr>az_members := filter (\<lambda>m. \<not> is_org_row u g m) (az_members s)\<rparr>) u' g' = org_member_now s u' g'"
    and "org_admin_now (s\<lparr>az_members := az_members s @ [\<lparr>om_organization = g, om_user = u, om_roles = roles\<rparr>]\<rparr>) u' g'
           = org_admin_now s u' g'"
    and "org_admin_now (s\<lparr>az_members := map (\<lambda>m. if is_org_row u g m then m\<lparr>om_roles := roles\<rparr> else m) (az_members s)\<rparr>) u' g'
           = org_admin_now s u' g'"
    and "org_admin_now (s\<lparr>az_members := filter (\<lambda>m. \<not> is_org_row u g m) (az_members s)\<rparr>) u' g' = org_admin_now s u' g'"
  by (simp_all add: org_member_now_def org_admin_now_def org_membership_other [OF assms])

lemma member_tables [simp]:
  "az_orgs (s\<lparr>az_members := ms\<rparr>) = az_orgs s" "az_teams (s\<lparr>az_members := ms\<rparr>) = az_teams s"
  "live (s\<lparr>az_members := ms\<rparr>) = live s" "ids_ok (s\<lparr>az_members := ms\<rparr>) = ids_ok s"
  by (simp_all add: live_def [abs_def] ids_ok_def)

lemma add_org_member_no_stale: "no_stale s \<Longrightarrow> no_stale (snd (add_org_member g u roles s))"
  by (auto simp: add_org_member_def no_staleD intro!: invalidate_org_no_stale
      elim!: says_cong [where u = u and g = g])

lemma update_org_roles_no_stale: "no_stale s \<Longrightarrow> no_stale (snd (update_org_roles g u roles s))"
  by (auto simp: update_org_roles_def no_staleD intro!: invalidate_org_no_stale
      elim!: says_cong [where u = u and g = g])

lemma revoke_tables [simp]:
  "az_orgs (revokeApiKeysForUser u g s) = az_orgs s" "az_teams (revokeApiKeysForUser u g s) = az_teams s"
  "az_members (revokeApiKeysForUser u g s) = az_members s" "az_team_members (revokeApiKeysForUser u g s) = az_team_members s"
  "az_cache (revokeApiKeysForUser u g s) = az_cache s" "az_enabled (revokeApiKeysForUser u g s) = az_enabled s"
  "live (revokeApiKeysForUser u g s) = live s" "ids_ok (revokeApiKeysForUser u g s) = ids_ok s"
  "org_membership (revokeApiKeysForUser u g s) = org_membership s" "org_admin_now (revokeApiKeysForUser u g s) = org_admin_now s"
  by (simp_all add: revokeApiKeysForUser_def live_def [abs_def] ids_ok_def fun_eq_iff org_membership_def org_admin_now_def)

text \<open>Revoking the keys of an organization is felt by API keys in that organization only.\<close>

lemma revoke_member_now:
  "g' \<noteq> g \<or> \<not> is_api_key u' \<Longrightarrow> org_member_now (revokeApiKeysForUser u g s) u' g' = org_member_now s u' g'"
  by (auto simp: org_member_now_def) (auto simp: revokeApiKeysForUser_def)

lemma remove_org_member_no_stale: "no_stale s \<Longrightarrow> no_stale (snd (remove_org_member g u s))"
  by (auto simp: remove_org_member_def no_staleD revoke_member_now intro!: invalidate_org_no_stale
      elim!: says_cong [where u = u and g = g])

lemma team_membership_other:
  assumes "u' \<noteq> u"
  shows "team_membership (s\<lparr>az_team_members := map (\<lambda>m. if is_team_row u t m then m\<lparr>tm_roles := roles\<rparr> else m) (az_team_members s)\<rparr>) u' t'
           = team_membership s u' t'" (is ?update)
    and "team_membership (s\<lparr>az_team_members := filter (\<lambda>m. \<not> is_team_row u t m) (az_team_members s)\<rparr>) u' t' = team_membership s u' t'"
      (is ?remove)
proof -
  have "find (\<lambda>m. tm_user m = u' \<and> tm_team m = t')
      (map (\<lambda>m. if is_team_row u t m then m\<lparr>tm_roles := roles\<rparr> else m) (az_team_members s))
      = find (\<lambda>m. tm_user m = u' \<and> tm_team m = t') (az_team_members s)"
    by (rule find_map_other) (use assms in \<open>auto simp: is_team_row_def\<close>)
  then show ?update by (simp add: team_membership_def)
  have "find (\<lambda>m. tm_user m = u' \<and> tm_team m = t') (filter (\<lambda>m. \<not> is_team_row u t m) (az_team_members s))
      = find (\<lambda>m. tm_user m = u' \<and> tm_team m = t') (az_team_members s)"
    by (rule find_filter_other) (use assms in \<open>auto simp: is_team_row_def\<close>)
  then show ?remove by (simp add: team_membership_def)
qed

lemma team_tables [simp]:
  "live (s\<lparr>az_team_members := ms\<rparr>) = live s" "ids_ok (s\<lparr>az_team_members := ms\<rparr>) = ids_ok s"
  "org_member_now (s\<lparr>az_team_members := ms\<rparr>) = org_member_now s" "org_admin_now (s\<lparr>az_team_members := ms\<rparr>) = org_admin_now s"
  by (simp_all add: live_def [abs_def] ids_ok_def fun_eq_iff org_member_now_def org_admin_now_def org_membership_def)

lemma says_TeamList:
  assumes "says s (TeamList u) v" "te_id ` set (az_teams s') \<subseteq> te_id ` set (az_teams s)"
    and "\<And>t. t \<in> te_id ` set (az_teams s') \<Longrightarrow> team_member_now s u t \<Longrightarrow> team_member_now s' u t"
  shows "says s' (TeamList u) v"
proof -
  have "team_member_now s' u t" if "v = CIds xs" "t \<in> set xs" "t \<in> te_id ` set (az_teams s')" for xs t
    using assms(1) that subsetD [OF assms(2) that(3)] assms(3) [OF that(3)] by (simp only: says_def entry.case simp_thms)
  then show ?thesis by (simp only: says_def entry.case) blast
qed

text \<open>An entry stays true when the organizations' side is unchanged and its user loses no team.\<close>

lemma says_teams:
  assumes "says s e v" "az_orgs s' = az_orgs s" "te_id ` set (az_teams s') \<subseteq> te_id ` set (az_teams s)"
    and "org_member_now s' = org_member_now s" "org_admin_now s' = org_admin_now s"
    and "\<And>t. t \<in> te_id ` set (az_teams s') \<Longrightarrow> team_member_now s (entry_user e) t \<Longrightarrow> team_member_now s' (entry_user e) t"
    and "\<And>t. t \<in> te_id ` set (az_teams s') \<Longrightarrow> team_admin_now s (entry_user e) t \<Longrightarrow> team_admin_now s' (entry_user e) t"
    and "live s' e"
  shows "says s' e v"
proof (cases e)
  case (TeamList u)
  with assms(1,3,6) show ?thesis by (simp only: says_TeamList entry_user.simps)
next
  case (TeamFlag u t)
  with assms(1,8) assms(6) [of t] show ?thesis by (auto simp: says_def live_def)
next
  case (TeamAdmin u t)
  with assms(1,8) assms(7) [of t] show ?thesis by (auto simp: says_def live_def)
qed (use assms(1-5) in \<open>simp_all add: says_def\<close>)

lemma no_stale_tables:
  assumes "no_stale s" "ids_ok s'" "az_cache s' = az_cache s" "az_enabled s' = az_enabled s" "\<And>e. live s' e \<Longrightarrow> live s e"
    and "\<And>e v. live s' e \<Longrightarrow> says s e v \<Longrightarrow> says s' e v"
  shows "no_stale s'"
  using assms by (auto simp: no_stale_def)

lemma team_now_append:
  "team_member_now s u t \<Longrightarrow> team_member_now (s\<lparr>az_team_members := az_team_members s @ ms\<rparr>) u t"
  "team_admin_now s u t \<Longrightarrow> team_admin_now (s\<lparr>az_team_members := az_team_members s @ ms\<rparr>) u t"
  by (auto simp: team_member_now_def team_admin_now_def team_membership_def find_append_Some split: option.splits)

lemma append_team_members_no_stale:
  assumes "no_stale s"
  shows "no_stale (s\<lparr>az_team_members := az_team_members s @ ms\<rparr>)"
proof (rule no_stale_tables [OF assms])
  fix e v
  assume "live (s\<lparr>az_team_members := az_team_members s @ ms\<rparr>) e" "says s e v"
  then show "says (s\<lparr>az_team_members := az_team_members s @ ms\<rparr>) e v"
    by (rule says_teams [rotated -1]) (simp_all add: team_now_append)
qed (use assms in \<open>simp_all add: no_staleD\<close>)

lemma add_team_member_no_stale: "no_stale s \<Longrightarrow> no_stale (snd (add_team_member t u roles s))"
  by (simp add: add_team_member_def append_team_members_no_stale)

lemma update_team_roles_no_stale: "no_stale s \<Longrightarrow> no_stale (snd (update_team_roles t u roles s))"
  by (auto simp: update_team_roles_def no_staleD team_member_now_def team_admin_now_def team_membership_other
      intro!: invalidate_team_no_stale elim!: says_teams)

lemma remove_team_member_no_stale: "no_stale s \<Longrightarrow> no_stale (snd (remove_team_member t u s))"
  by (auto simp: remove_team_member_def no_staleD team_member_now_def team_admin_now_def team_membership_other
      intro!: invalidate_team_no_stale elim!: says_teams)

subsection \<open>Organizations and teams\<close>

lemma cache_onlyD:
  assumes "cache_only s s'"
  shows "az_orgs s' = az_orgs s" "az_teams s' = az_teams s" "az_members s' = az_members s" "az_team_members s' = az_team_members s"
    "az_keys s' = az_keys s" "az_database s' = az_database s" "az_enabled s' = az_enabled s"
    "live s' = live s" "says s' = says s" "ids_ok s' = ids_ok s" "team_of s' = team_of s"
  using assms by (auto simp: cache_only_def fun_eq_iff team_of_def)

lemma cache_only_put [intro]: "cache_only s (cache_put s k v)"
  using cache_only_refl [of s] by (auto simp: cache_put_def cache_only_def)

lemma cache_only_through [intro]: "cache_only s (snd (through_cache s k b))" "cache_only s (snd (ids_through_cache s k xs))"
  by (auto simp: through_cache_def ids_through_cache_def cacheMembership_def split: option.split cached_value.split)

lemma cache_only_trans [trans]: "cache_only s s1 \<Longrightarrow> cache_only s1 s2 \<Longrightarrow> cache_only s s2"
  by (auto simp: cache_only_def)

lemma cache_only_checks [intro, simp]:
  "cache_only s (snd (isOrganizationMember s u g))" "cache_only s (snd (isOrganizationAdmin s u g))"
  "cache_only s (snd (isTeamMember s u t))" "cache_only s (snd (isTeamAdmin s u t))"
  "cache_only s (snd (isOrgAdminInAnyOrganization s u))"
  by (auto simp: isOrganizationMember_def isOrganizationAdmin_def isTeamMember_def isTeamAdmin_def isOrgAdminInAnyOrganization_def)

lemma team_of_Some: "team_of s t = Some x \<Longrightarrow> x \<in> set (az_teams s) \<and> te_id x = t"
  by (auto simp: team_of_def find_Some_iff)

lemma team_org_plain: "no_stale s \<Longrightarrow> team_of s t = Some x \<Longrightarrow> plain (te_organization x) \<and> plain t \<and> te_organization x \<in> set (az_orgs s)"
  by (drule no_staleD(2), drule team_of_Some) (auto simp: ids_ok_def list_all_iff)

lemma findOneOrganization_no_stale: "no_stale s \<Longrightarrow> no_stale (snd (findOneOrganization g u adm s))"
  using check_no_stale(1) [of s g u] by (auto simp: findOneOrganization_def ids_ok_def list_all_iff dest: no_staleD(2) split: prod.split)

lemma findOneTeam_no_stale: "no_stale s \<Longrightarrow> no_stale (snd (findOneTeam t u adm s))"
proof (cases "team_of s t")
  case (Some x)
  assume s: "no_stale s"
  obtain m s1 where c: "isOrganizationMember s u (te_organization x) = (m, s1)" by fastforce
  obtain m2 s2 where c2: "isTeamMember s1 u t = (m2, s2)" by fastforce
  have "no_stale s1" "no_stale s2"
    using check_no_stale(1) [OF s, of "te_organization x" u] check_no_stale(3) [of s1 t u] team_org_plain [OF s Some] c c2 by auto
  with s Some c c2 show ?thesis by (simp add: findOneTeam_def)
qed (simp add: findOneTeam_def)

lemma administers_team_no_stale:
  assumes "no_stale s" "plain (te_organization x)" "plain (te_id x)"
  shows "no_stale (snd (administers_team x u adm s))" "cache_only s (snd (administers_team x u adm s))"
proof -
  obtain a s1 where c: "isOrganizationAdmin s u (te_organization x) = (a, s1)" by fastforce
  obtain b s2 where c2: "isTeamAdmin s1 u (te_id x) = (b, s2)" by fastforce
  have "no_stale s1" "no_stale s2"
    using check_no_stale(2) [OF assms(1,2), of u] check_no_stale(4) [of s1 "te_id x" u] assms c c2 by auto
  with assms c c2 show "no_stale (snd (administers_team x u adm s))" by (simp add: administers_team_def)
  have "cache_only s s1" "cache_only s1 s2"
    using cache_only_checks(2) [of s u "te_organization x"] cache_only_checks(4) [of s1 u "te_id x"] c c2 by auto
  then show "cache_only s (snd (administers_team x u adm s))"
    using c c2 by (auto simp: administers_team_def intro: cache_only_trans)
qed

lemma org_tables [simp]:
  "org_member_now (s\<lparr>az_orgs := gs\<rparr>) = org_member_now s" "org_admin_now (s\<lparr>az_orgs := gs\<rparr>) = org_admin_now s"
  "team_member_now (s\<lparr>az_orgs := gs\<rparr>) = team_member_now s" "team_admin_now (s\<lparr>az_orgs := gs\<rparr>) = team_admin_now s"
  by (simp_all add: fun_eq_iff now_defs)

lemma no_row_no_member: "g \<notin> om_organization ` set (az_members s) \<Longrightarrow> \<not> is_api_key u \<Longrightarrow> \<not> org_member_now s u g"
  by (auto simp: org_member_now_def org_membership_def find_Some_iff)

lemma new_org_no_stale:
  assumes s: "no_stale s" and f: "fresh_org s g"
  shows "no_stale (s\<lparr>az_orgs := az_orgs s @ [g]\<rparr>)"
proof (rule no_stale_frame [OF s])
  fix e v
  assume e: "plain_entry e" "live (s\<lparr>az_orgs := az_orgs s @ [g]\<rparr>) e" "az_cache (s\<lparr>az_orgs := az_orgs s @ [g]\<rparr>) (entry_key e) = Some v"
  then have l: "live s e" using f by (cases e) (auto simp: live_def fresh_org_def)
  have "says (s\<lparr>az_orgs := az_orgs s @ [g]\<rparr>) e v" if "says s e v"
    using that e(3) f by (cases e) (auto simp: says_def fresh_org_def no_row_no_member)
  with l e(3) show "az_cache s (entry_key e) = Some v \<and> live s e \<and> (says s e v \<longrightarrow> says (s\<lparr>az_orgs := az_orgs s @ [g]\<rparr>) e v)"
    by simp
next
  show "ids_ok (s\<lparr>az_orgs := az_orgs s @ [g]\<rparr>)"
    using no_staleD(2) [OF s] f by (auto simp: ids_ok_def fresh_org_def)
next
  fix k v
  assume "az_cache (s\<lparr>az_orgs := az_orgs s @ [g]\<rparr>) k = Some v" "\<not> az_enabled s"
  with no_staleD(3) [OF s, of k] show False by simp
qed simp

lemma create_organization_no_stale:
  assumes "no_stale s" "fresh_org s g"
  shows "no_stale (snd (create_organization g u adm s))"
proof -
  obtain e s2 where a: "add_org_member g u [''org-admin''] (s\<lparr>az_orgs := az_orgs s @ [g]\<rparr>) = (e, s2)" by fastforce
  have "no_stale s2"
    using add_org_member_no_stale [OF new_org_no_stale [OF assms], of g u "[''org-admin'']"] by (simp add: a)
  with a assms show ?thesis
    by (simp add: create_organization_def Let_def findOneOrganization_no_stale new_org_no_stale)
qed

text \<open>What remains after the deletion of an organization is about other organizations and other teams.\<close>

lemma find_filter_implied: "(\<And>x. P x \<Longrightarrow> Q x) \<Longrightarrow> find P (filter Q xs) = find P xs"
  by (induction xs) auto

lemma drop_organization_now:
  assumes "ids_ok s"
  shows "g' \<noteq> g \<Longrightarrow> org_member_now (drop_organization g s) u g' = org_member_now s u g'"
    and "g' \<noteq> g \<Longrightarrow> org_admin_now (drop_organization g s) u g' = org_admin_now s u g'"
    and "t \<in> te_id ` set (az_teams (drop_organization g s)) \<Longrightarrow> team_member_now (drop_organization g s) u t = team_member_now s u t"
    and "t \<in> te_id ` set (az_teams (drop_organization g s)) \<Longrightarrow> team_admin_now (drop_organization g s) u t = team_admin_now s u t"
proof -
  have m: "org_membership (drop_organization g s) u g' = org_membership s u g'" if "g' \<noteq> g" for u g'
    using that unfolding org_membership_def drop_organization_def Let_def
    by (simp, intro find_filter_implied) auto
  then show "g' \<noteq> g \<Longrightarrow> org_member_now (drop_organization g s) u g' = org_member_now s u g'"
    "g' \<noteq> g \<Longrightarrow> org_admin_now (drop_organization g s) u g' = org_admin_now s u g'"
    by (simp_all add: org_member_now_def org_admin_now_def) (simp add: drop_organization_def Let_def)
  have t: "team_membership (drop_organization g s) u t = team_membership s u t"
    if "t \<in> te_id ` set (az_teams (drop_organization g s))" for t
  proof -
    have "t \<notin> te_id ` {x \<in> set (az_teams s). te_organization x = g}"
      using that assms by (auto simp: drop_organization_def Let_def ids_ok_def distinct_map dest: inj_onD)
    then show ?thesis
      unfolding team_membership_def drop_organization_def Let_def
      by (simp, intro find_filter_implied) auto
  qed
  show "t \<in> te_id ` set (az_teams (drop_organization g s)) \<Longrightarrow> team_member_now (drop_organization g s) u t = team_member_now s u t"
    "t \<in> te_id ` set (az_teams (drop_organization g s)) \<Longrightarrow> team_admin_now (drop_organization g s) u t = team_admin_now s u t"
    by (simp_all add: team_member_now_def team_admin_now_def t)
qed

lemma drop_organization_no_stale:
  assumes s: "no_stale s"
  shows "no_stale (drop_organization g s)"
proof (rule no_stale_tables [OF s])
  show "live (drop_organization g s) e \<Longrightarrow> live s e" for e
    by (cases e) (auto simp: live_def drop_organization_def Let_def)
  show "ids_ok (drop_organization g s)"
    using no_staleD(2) [OF s] by (auto simp: ids_ok_def drop_organization_def Let_def list_all_iff distinct_map inj_on_def)
  fix e v
  assume l: "live (drop_organization g s) e" and t: "says s e v"
  have o: "set (az_orgs (drop_organization g s)) = set (az_orgs s) - {g}"
    "te_id ` set (az_teams (drop_organization g s)) \<subseteq> te_id ` set (az_teams s)"
    by (auto simp: drop_organization_def Let_def)
  note d = drop_organization_now [OF no_staleD(2) [OF s]]
  show "says (drop_organization g s) e v"
  proof (cases e)
    case (TeamFlag u t')
    with l t d(3) show ?thesis by (auto simp: says_def live_def)
  next
    case (TeamAdmin u t')
    with l t d(4) show ?thesis by (auto simp: says_def live_def)
  next
    case (TeamList u)
    with t o(2) d(3) show ?thesis by (auto intro!: says_TeamList [of s u v])
  qed (use l t o d(1,2) in \<open>auto simp: says_def live_def\<close>)
qed (simp_all add: drop_organization_def Let_def)

lemma remove_organization_no_stale: "no_stale s \<Longrightarrow> plain g \<Longrightarrow> no_stale (snd (remove_organization g u adm s))"
  using check_no_stale(2) [of s g u]
  by (auto simp: remove_organization_def drop_organization_no_stale split: prod.split)

text \<open>Teams: the rows of \<open>az_teams\<close> may change as long as identifiers stay and organizations exist.\<close>

lemma team_rows_now [simp]:
  "org_member_now (s\<lparr>az_teams := ts\<rparr>) = org_member_now s" "org_admin_now (s\<lparr>az_teams := ts\<rparr>) = org_admin_now s"
  "team_member_now (s\<lparr>az_teams := ts\<rparr>) = team_member_now s" "team_admin_now (s\<lparr>az_teams := ts\<rparr>) = team_admin_now s"
  by (simp_all add: fun_eq_iff now_defs)

lemma new_team_no_stale:
  assumes s: "no_stale s" and f: "fresh_team s (te_id x)" and g: "te_organization x \<in> set (az_orgs s)"
  shows "no_stale (s\<lparr>az_teams := az_teams s @ [x]\<rparr>)"
proof (rule no_stale_frame [OF s])
  fix e v
  assume e: "plain_entry e" "live (s\<lparr>az_teams := az_teams s @ [x]\<rparr>) e" "az_cache (s\<lparr>az_teams := az_teams s @ [x]\<rparr>) (entry_key e) = Some v"
  then have l: "live s e" using f by (cases e) (auto simp: live_def fresh_team_def)
  have "says (s\<lparr>az_teams := az_teams s @ [x]\<rparr>) e v" if "says s e v"
    using that e(3) f by (cases e) (auto simp: says_def fresh_team_def)
  with l e(3) show "az_cache s (entry_key e) = Some v \<and> live s e \<and> (says s e v \<longrightarrow> says (s\<lparr>az_teams := az_teams s @ [x]\<rparr>) e v)"
    by simp
next
  show "ids_ok (s\<lparr>az_teams := az_teams s @ [x]\<rparr>)"
    using no_staleD(2) [OF s] f g by (auto simp: ids_ok_def fresh_team_def)
next
  fix k v
  assume "az_cache (s\<lparr>az_teams := az_teams s @ [x]\<rparr>) k = Some v" "\<not> az_enabled s"
  with no_staleD(3) [OF s, of k] show False by simp
qed simp

lemma saved_teams_no_stale:
  assumes s: "no_stale s" and "\<And>x. te_id (save x) = te_id x" "\<And>x. x \<in> set (az_teams s) \<Longrightarrow> te_organization (save x) \<in> set (az_orgs s)"
  shows "no_stale (s\<lparr>az_teams := map (\<lambda>y. if te_id y = t then save y else y) (az_teams s)\<rparr>)" (is "no_stale ?s")
proof -
  have ids: "map te_id (az_teams ?s) = map te_id (az_teams s)" using assms(2) by simp
  then have T: "te_id ` set (az_teams ?s) = te_id ` set (az_teams s)" by (metis set_map)
  have "says ?s e v" if "says s e v" "live ?s e" for e v
    using that T by (auto intro!: says_teams [of s e v ?s])
  moreover have "live ?s e = live s e" for e
    unfolding live_def T by (simp split: entry.split)
  moreover have "ids_ok ?s"
  proof -
    have "list_all plain (map te_id (az_teams ?s))" "distinct (map te_id (az_teams ?s))"
      using no_staleD(2) [OF s] unfolding ids by (simp_all add: ids_ok_def list_all_iff)
    then show ?thesis
      using no_staleD(2) [OF s] assms(3) by (auto simp: ids_ok_def list_all_iff)
  qed
  ultimately show ?thesis by (intro no_stale_tables [OF s]) simp_all
qed

lemma fresh_team_cache_only:
  assumes "cache_only s s'" "fresh_team s t"
    and "\<And>u. az_cache s' (teamMembershipKey u t) = az_cache s (teamMembershipKey u t)
           \<and> az_cache s' (admin_key (teamMembershipKey u t)) = az_cache s (admin_key (teamMembershipKey u t))"
    and "\<And>k xs. az_cache s' k = Some (CIds xs) \<Longrightarrow> az_cache s k = Some (CIds xs)"
  shows "fresh_team s' t"
proof -
  have "\<forall>k xs. az_cache s' k = Some (CIds xs) \<longrightarrow> t \<notin> set xs"
    using assms(2,4) unfolding fresh_team_def by blast
  with assms(2) show ?thesis
    by (simp add: fresh_team_def cache_onlyD [OF assms(1)] assms(3))
qed

lemma admin_check_keeps_fresh: "fresh_team s t \<Longrightarrow> plain g \<Longrightarrow> fresh_team (snd (isOrganizationAdmin s u g)) t"
proof (rule fresh_team_cache_only [OF cache_only_checks(2)])
  assume "fresh_team s t" "plain g"
  then have p: "plain_entry (TeamFlag u' t)" "plain_entry (TeamAdmin u' t)" "plain_entry (OrgAdmin u g)" for u'
    by (simp_all add: fresh_team_def)
  fix u'
  have "entry_key (TeamFlag u' t) \<noteq> entry_key (OrgAdmin u g)" "entry_key (TeamAdmin u' t) \<noteq> entry_key (OrgAdmin u g)"
    using entry_key_inj p by blast+
  then show "az_cache (snd (isOrganizationAdmin s u g)) (teamMembershipKey u' t) = az_cache s (teamMembershipKey u' t)
      \<and> az_cache (snd (isOrganizationAdmin s u g)) (admin_key (teamMembershipKey u' t)) = az_cache s (admin_key (teamMembershipKey u' t))"
    by (auto simp: isOrganizationAdmin_def through_cache_def cacheMembership_def cache_put_def split: option.split)
next
  fix k xs
  assume "az_cache (snd (isOrganizationAdmin s u g)) k = Some (CIds xs)"
  then show "az_cache s k = Some (CIds xs)"
    by (auto simp: isOrganizationAdmin_def through_cache_def cacheMembership_def cache_put_def split: option.splits if_splits)
qed

lemma create_team_no_stale:
  assumes "no_stale s" "plain (te_organization x)" "fresh_team s (te_id x)"
  shows "no_stale (snd (create_team x u adm s))"
proof -
  obtain a s1 where c: "(if adm then (True, s) else isOrganizationAdmin s u (te_organization x)) = (a, s1)" by fastforce
  have s1: "no_stale s1" "fresh_team s1 (te_id x)"
    using check_no_stale(2) [OF assms(1,2), of u] admin_check_keeps_fresh [OF assms(3,2), of u] assms(1,3) c
    by (auto split: if_splits simp: prod_eq_iff)
  obtain e s3 where d: "add_team_member (te_id x) u [''team-admin''] (s1\<lparr>az_teams := az_teams s1 @ [x]\<rparr>) = (e, s3)" by fastforce
  have "no_stale s3" if "te_organization x \<in> set (az_orgs s1)"
    using add_team_member_no_stale [OF new_team_no_stale [OF s1 that], of "te_id x" u "[''team-admin'']"] by (simp add: d)
  with s1 c d show ?thesis
    by (simp add: create_team_def Let_def findOneTeam_no_stale new_team_no_stale)
qed

lemma update_team_no_stale:
  assumes s: "no_stale s" and ok: "op_ok s (UpdateTeam t u adm to_org save)"
  shows "no_stale (snd (update_team t u adm to_org save s))"
proof (cases "team_of s t")
  case (Some x)
  obtain a s1 where a: "administers_team x u adm s = (a, s1)" by fastforce
  obtain b s2 where b: "(case to_org of None \<Rightarrow> (True, s1)
    | Some g \<Rightarrow> if g \<noteq> [] \<and> g \<noteq> te_organization x \<and> \<not> adm then isOrganizationAdmin s1 u g else (True, s1)) = (b, s2)" by fastforce
  have x: "plain (te_organization x)" "plain (te_id x)"
    using team_org_plain [OF s Some] team_of_Some [OF Some] by auto
  have s1: "no_stale s1" "cache_only s s1"
    using administers_team_no_stale [OF s x, of u adm] a by simp_all
  have s2: "no_stale s2 \<and> cache_only s1 s2"
  proof (cases to_org)
    case None
    with b s1(1) show ?thesis by auto
  next
    case (Some g)
    then have "no_stale (snd (isOrganizationAdmin s1 u g))" "cache_only s1 (snd (isOrganizationAdmin s1 u g))"
      using ok check_no_stale(2) [OF s1(1)] by auto
    with Some b s1(1) show ?thesis by (auto split: if_splits) (metis cache_only_checks(2) snd_conv)
  qed
  note c = cache_onlyD(1,2) [OF cache_only_trans [OF s1(2) conjunct2 [OF s2]]]
  have "no_stale (s2\<lparr>az_teams := map (\<lambda>y. if te_id y = t then save y else y) (az_teams s2)\<rparr>)"
    using ok by (intro saved_teams_no_stale [OF conjunct1 [OF s2]]) (simp_all add: c)
  then have "no_stale (snd (findOneTeam t u adm (s2\<lparr>az_teams := map (\<lambda>y. if te_id y = t then save y else y) (az_teams s2)\<rparr>)))"
    by (rule findOneTeam_no_stale)
  with s Some a s1(1) s2 show ?thesis
    unfolding update_team_def by (simp only: option.case Let_def a b prod.case) simp
qed (use s in \<open>simp add: update_team_def\<close>)

lemma remove_team_no_stale:
  assumes s: "no_stale s"
  shows "no_stale (snd (remove_team t u adm s))"
proof (cases "team_of s t")
  case (Some x)
  obtain a s1 where a: "administers_team x u adm s = (a, s1)" by fastforce
  have s1: "no_stale s1"
    using administers_team_no_stale(1) [OF s, of x u adm] team_org_plain [OF s Some] team_of_Some [OF Some] a by simp
  let ?s = "s1\<lparr>az_teams := filter (\<lambda>y. te_id y \<noteq> t) (az_teams s1), az_team_members := filter (\<lambda>m. tm_team m \<noteq> t) (az_team_members s1)\<rparr>"
  have m: "team_membership ?s u' t' = team_membership s1 u' t'" if "t' \<noteq> t" for u' t'
    unfolding team_membership_def by (simp, intro find_filter_implied) (use that in auto)
  have "no_stale ?s"
  proof (rule no_stale_tables [OF s1])
    show "ids_ok ?s"
      using no_staleD(2) [OF s1] by (auto simp: ids_ok_def list_all_iff distinct_map inj_on_def)
    fix e v
    assume "live ?s e" "says s1 e v"
    then show "says ?s e v"
      by (intro says_teams [of s1 e v ?s]) (auto simp: team_member_now_def team_admin_now_def m)
  qed (auto simp: live_def split: entry.splits)
  with s Some a s1 show ?thesis
    unfolding remove_team_def by (simp only: option.case Let_def a prod.case) simp
qed (use s in \<open>simp add: remove_team_def\<close>)

subsection \<open>API keys, expiry and the rest\<close>

lemma key_tables [simp]:
  "org_admin_now (s\<lparr>az_keys := ks\<rparr>) = org_admin_now s" "team_member_now (s\<lparr>az_keys := ks\<rparr>) = team_member_now s"
  "team_admin_now (s\<lparr>az_keys := ks\<rparr>) = team_admin_now s" "live (s\<lparr>az_keys := ks\<rparr>) = live s" "ids_ok (s\<lparr>az_keys := ks\<rparr>) = ids_ok s"
  "\<not> is_api_key u \<Longrightarrow> org_member_now (s\<lparr>az_keys := ks\<rparr>) u g = org_member_now s u g"
  by (simp_all add: fun_eq_iff org_admin_now_def team_member_now_def team_admin_now_def org_membership_def team_membership_def
      live_def [abs_def] ids_ok_def org_member_now_def)

lemma is_api_key_iff: "is_api_key u \<longleftrightarrow> u = key_user (api_key_id u)"
proof
  assume "is_api_key u"
  then have "take 8 u = ''api-key:''" by (simp add: is_api_key_def startsWith_def numeral_eq_Suc)
  then show "u = key_user (api_key_id u)"
    using append_take_drop_id [of 8 u] by (simp add: key_user_def api_key_id_def)
next
  assume "u = key_user (api_key_id u)"
  then show "is_api_key u" unfolding is_api_key_def key_user_def by (metis startsWith_append)
qed

lemma says_keys:
  assumes "says s e v" "\<And>g. e = OrgFlag (entry_user e) g \<Longrightarrow> org_member_now (s\<lparr>az_keys := ks\<rparr>) (entry_user e) g = org_member_now s (entry_user e) g"
  shows "says (s\<lparr>az_keys := ks\<rparr>) e v"
  using assms by (cases e) (auto simp: says_def)

lemma create_key_no_stale:
  assumes s: "no_stale s" and f: "unused_key s (ky_id k)"
  shows "no_stale (create_key k s)"
  unfolding create_key_def
proof (rule no_stale_frame [OF s])
  fix e v
  assume e: "plain_entry e" "live (s\<lparr>az_keys := az_keys s @ [k]\<rparr>) e" "az_cache (s\<lparr>az_keys := az_keys s @ [k]\<rparr>) (entry_key e) = Some v"
  have "org_member_now (s\<lparr>az_keys := az_keys s @ [k]\<rparr>) u g = org_member_now s u g" if "e = OrgFlag u g" for u g
  proof (cases "is_api_key u \<and> api_key_id u = ky_id k")
    case True
    with e(3) f that show ?thesis by (metis unused_key_def is_api_key_iff option.distinct(1) authz.ext_inject authz.surjective authz.update_convs(5))
  qed (auto simp: org_member_now_def org_membership_def)
  with e show "az_cache s (entry_key e) = Some v \<and> live s e \<and> (says s e v \<longrightarrow> says (s\<lparr>az_keys := az_keys s @ [k]\<rparr>) e v)"
    by (auto intro: says_keys)
next
  fix k' v
  assume "az_cache (s\<lparr>az_keys := az_keys s @ [k]\<rparr>) k' = Some v" "\<not> az_enabled s"
  with no_staleD(3) [OF s, of k'] show False by simp
qed (use s in \<open>simp_all add: no_staleD\<close>)

lemma cache_less_no_stale: "no_stale s \<Longrightarrow> (\<And>k v. c k = Some v \<Longrightarrow> az_cache s k = Some v) \<Longrightarrow> no_stale (s\<lparr>az_cache := c\<rparr>)"
proof (rule no_stale_frame)
  fix k v
  assume s: "no_stale s" and c: "\<And>k v. c k = Some v \<Longrightarrow> az_cache s k = Some v"
  show "az_cache (s\<lparr>az_cache := c\<rparr>) k = Some v \<Longrightarrow> \<not> az_enabled s \<Longrightarrow> False"
    using no_staleD(3) [OF s, of k] c [of k v] by simp
qed (simp_all add: no_staleD(2))

lemma invalidateUserCache_no_stale: "no_stale s \<Longrightarrow> no_stale (invalidateUserCache u s)"
proof (rule no_stale_frame)
  fix k v
  assume s: "no_stale s"
  show "az_cache (invalidateUserCache u s) k = Some v \<Longrightarrow> \<not> az_enabled s \<Longrightarrow> False"
    using no_staleD(3) [OF s, of k] by simp
qed (auto dest: survives(1) no_staleD(2))

lemma delete_key_no_stale:
  assumes "no_stale s"
  shows "no_stale (delete_key i s)"
proof -
  define s1 where "s1 = invalidateUserCache (key_user i) s"
  define s2 where "s2 = s1\<lparr>az_keys := filter (\<lambda>k. ky_id k \<noteq> i) (az_keys s1)\<rparr>"
  have s1: "no_stale s1" unfolding s1_def by (rule invalidateUserCache_no_stale [OF assms])
  have "no_stale (invalidateUserCache (key_user i) s2)"
  proof (rule no_stale_frame [OF s1])
    fix e v
    assume e: "plain_entry e" "live (invalidateUserCache (key_user i) s2) e"
      "az_cache (invalidateUserCache (key_user i) s2) (entry_key e) = Some v"
    then have c: "az_cache s1 (entry_key e) = Some v" "az_enabled s1 \<longrightarrow> entry_user e \<noteq> key_user i"
      by (auto simp: s2_def dest!: survives(1))
    then have "entry_user e \<noteq> key_user i" using no_staleD(3) [OF s1] by force
    then have "org_member_now s2 (entry_user e) g = org_member_now s1 (entry_user e) g" for g
      unfolding s2_def using is_api_key_iff [of "entry_user e"]
      by (auto simp: org_member_now_def org_membership_def)
    with c e show "az_cache s1 (entry_key e) = Some v \<and> live s1 e \<and> (says s1 e v \<longrightarrow> says (invalidateUserCache (key_user i) s2) e v)"
      by (auto simp: s2_def intro: says_keys)
  next
    fix k v
    assume "az_cache (invalidateUserCache (key_user i) s2) k = Some v" "\<not> az_enabled s1"
    with no_staleD(3) [OF s1, of k] show False by (simp add: s2_def)
  qed (use s1 in \<open>simp_all add: s2_def no_staleD\<close>)
  then show ?thesis by (simp add: delete_key_def s1_def s2_def)
qed

lemma accessible_orgs_now_user: "\<not> is_api_key u \<Longrightarrow> g \<in> set (accessible_orgs_now s u) \<longleftrightarrow> org_member_now s u g"
  by (auto simp: accessible_orgs_now_def org_member_now_def org_membership_def find_None_iff)

lemma list_no_stale:
  assumes "no_stale s"
  shows "no_stale (snd (getAccessibleOrganizations s u))" "no_stale (snd (getAccessibleTeams s u))"
proof -
  have "no_stale (cache_put s (entry_key (OrgList u)) (CIds (accessible_orgs_now s u)))"
  proof (rule no_stale_put [OF assms])
    fix e
    assume "plain_entry e" "entry_key e = entry_key (OrgList u)"
    then have "e = OrgList u" by (intro entry_key_inj) simp_all
    then show "says s e (CIds (accessible_orgs_now s u))" by (simp add: says_def accessible_orgs_now_user)
  qed
  then show "no_stale (snd (getAccessibleOrganizations s u))"
    using assms by (simp add: getAccessibleOrganizations_def ids_through_cache_def split: option.split cached_value.split)
  have "no_stale (cache_put s (entry_key (TeamList u)) (CIds (map tm_team (filter (\<lambda>m. tm_user m = u) (az_team_members s)))))"
  proof (rule no_stale_put [OF assms])
    fix e
    assume "plain_entry e" "entry_key e = entry_key (TeamList u)"
    then have "e = TeamList u" by (intro entry_key_inj) simp_all
    then show "says s e (CIds (map tm_team (filter (\<lambda>m. tm_user m = u) (az_team_members s))))"
      by (auto simp: says_def team_member_now_def team_membership_def find_None_iff)
  qed
  then show "no_stale (snd (getAccessibleTeams s u))"
    using assms by (simp add: getAccessibleTeams_def ids_through_cache_def split: option.split cached_value.split)
qed

lemma resource_team_Some: "resource_team r = Some t \<Longrightarrow> or_team r = Some t"
  by (auto simp: resource_team_def split: if_splits)

lemma canAccessResource_no_stale:
  assumes "no_stale s" "op_ok s (Access u roles r)"
  shows "no_stale (snd (canAccessResource s u roles r))"
proof -
  obtain m s1 where c: "isOrganizationMember s u (or_organization r) = (m, s1)" by fastforce
  have "no_stale s1" using check_no_stale(1) [OF assms(1), of "or_organization r" u] assms(2) c by simp
  then show ?thesis
    using assms c check_no_stale(3) [of s1]
    by (auto simp: canAccessResource_def dest!: resource_team_Some split: option.split)
qed

lemma canModifyResource_no_stale:
  assumes "no_stale s" "op_ok s (Modify u roles r)"
  shows "no_stale (snd (canModifyResource s u roles r))"
proof -
  obtain m s1 where c: "isOrganizationAdmin s u (or_organization r) = (m, s1)" by fastforce
  have "no_stale s1" using check_no_stale(2) [OF assms(1), of "or_organization r" u] assms(2) c by simp
  then show ?thesis
    using assms c check_no_stale(4) [of s1]
    by (auto simp: canModifyResource_def dest!: resource_team_Some split: option.split)
qed

lemma canViewTeamResources_no_stale:
  assumes "no_stale s" "plain t"
  shows "no_stale (snd (canViewTeamResources s u t))"
proof -
  obtain m s1 where c: "isTeamMember s u t = (m, s1)" by fastforce
  have "no_stale s1" using check_no_stale(3) [OF assms, of u] c by simp
  then show ?thesis
    using c check_no_stale(1) [of s1] team_org_plain [of s1 t]
    by (auto simp: canViewTeamResources_def split: option.split)
qed

lemma getCapabilities_no_stale: "no_stale s \<Longrightarrow> no_stale (snd (getCapabilities s u roles g t))"
proof -
  assume s: "no_stale s"
  have "no_stale (cache_put s (capabilities_key u g t n) v)" for n v
    by (rule no_stale_put [OF s]) (metis capabilities_key_other)
  with s show ?thesis by (simp add: getCapabilities_def Let_def split: option.split cached_value.split)
qed

lemma clearAllCaches_no_stale: "no_stale s \<Longrightarrow> no_stale (clearAllCaches s)"
  by (auto simp: clearAllCaches_def cache_del_def intro: cache_less_no_stale split: if_splits)

lemma expire_no_stale: "no_stale s \<Longrightarrow> no_stale (s\<lparr>az_cache := (az_cache s)(k := None)\<rparr>)"
  by (rule cache_less_no_stale) (auto split: if_splits)

lemma database_no_stale: "no_stale s \<Longrightarrow> no_stale (s\<lparr>az_database := b\<rparr>)"
proof (rule no_stale_tables)
  show "live (s\<lparr>az_database := b\<rparr>) e \<Longrightarrow> live s e" for e by (simp add: live_def split: entry.splits)
  show "says s e v \<Longrightarrow> says (s\<lparr>az_database := b\<rparr>) e v" for e v by (simp add: says_def now_defs split: entry.splits)
  have "ids_ok (s\<lparr>az_database := b\<rparr>) = ids_ok s" by (simp add: ids_ok_def)
  then show "no_stale s \<Longrightarrow> ids_ok (s\<lparr>az_database := b\<rparr>)" by (simp add: no_staleD(2))
qed simp_all

lemmas ops_no_stale = check_no_stale any_admin_no_stale list_no_stale canViewTeamResources_no_stale getCapabilities_no_stale
  add_org_member_no_stale update_org_roles_no_stale remove_org_member_no_stale add_team_member_no_stale update_team_roles_no_stale
  remove_team_member_no_stale create_organization_no_stale remove_organization_no_stale remove_team_no_stale create_key_no_stale
  delete_key_no_stale clearAllCaches_no_stale expire_no_stale database_no_stale

lemma run_op_no_stale: "no_stale s \<Longrightarrow> op_ok s x \<Longrightarrow> no_stale (run_authz_op x s)"
proof (induction x s rule: run_authz_op.induct)
  case (8 u roles r s)
  then show ?case by (simp add: canAccessResource_no_stale del: op_ok.simps)
next
  case (9 u roles r s)
  then show ?case by (simp add: canModifyResource_no_stale del: op_ok.simps)
next
  case (20 x u adm s)
  then show ?case by (simp add: create_team_no_stale)
next
  case (21 t u adm g save s)
  then show ?case by (simp add: update_team_no_stale del: op_ok.simps)
qed (auto simp: ops_no_stale split: if_splits)

lemma reachable_no_stale: "authz_reachable s \<Longrightarrow> no_stale s"
proof (induction rule: authz_reachable.induct)
  case (start s)
  then show ?case by (simp add: authz_start_def no_stale_def ids_ok_def)
qed (rule run_op_no_stale)

end
