(* ===== verification/AccessControl.thy ===== *)
theory AccessControl
  imports Memberships
begin

text \<open>
  What the decisions of \<open>Authorization\<close> amount to over the tables, in every state the operations of \<open>Memberships\<close> reach: what is
  granted is allowed, what the organization allows is granted, an outage fails closed, and which role has which capability. The
  last section shows where the cache lags behind.
\<close>

section \<open>Decisions and the tables\<close>

definition may_access :: "authz \<Rightarrow> string \<Rightarrow> string list option \<Rightarrow> owned_resource \<Rightarrow> bool" where
  "may_access s u roles r =
     (hasGlobalAdminRole roles \<or> org_member_now s u (or_organization r)
      \<or> (case resource_team r of None \<Rightarrow> False | Some t \<Rightarrow> team_member_now s u t))"

definition may_modify :: "authz \<Rightarrow> string \<Rightarrow> string list option \<Rightarrow> owned_resource \<Rightarrow> bool" where
  "may_modify s u roles r =
     (hasGlobalAdminRole roles \<or> or_created_by r \<noteq> [] \<and> or_created_by r = u \<or> org_admin_now s u (or_organization r)
      \<or> (case resource_team r of None \<Rightarrow> False | Some t \<Rightarrow> team_admin_now s u t))"

definition may_view_team :: "authz \<Rightarrow> string \<Rightarrow> string \<Rightarrow> bool" where
  "may_view_team s u t =
     (team_member_now s u t
      \<or> (case team_of s t of None \<Rightarrow> False | Some x \<Rightarrow> \<not> te_restricted x \<and> org_member_now s u (te_organization x)))"

text \<open>A resource refers to an existing organization and, if it has one, to an existing team (foreign keys).\<close>

definition owned :: "authz \<Rightarrow> owned_resource \<Rightarrow> bool" where
  "owned s r = 
     (or_organization r \<in> set (az_orgs s)
      \<and> (case resource_team r of None \<Rightarrow> True | Some t \<Rightarrow> t \<in> te_id ` set (az_teams s)))"

text \<open>What one check answers.\<close>

lemma cached_flag:
  assumes "no_stale s" "getCachedMembership s (entry_key e) = Some b" "plain_entry e" "live s e"
  shows "says s e (CFlag b) \<or> \<not> b"
  using assms no_staleD(1) [OF assms(1,3,4)] by (auto simp: getCachedMembership_def split: if_splits option.splits)

lemma ids_plain: "no_stale s \<Longrightarrow> g \<in> set (az_orgs s) \<Longrightarrow> plain g" "no_stale s \<Longrightarrow> t \<in> te_id ` set (az_teams s) \<Longrightarrow> plain t"
  by (auto dest!: no_staleD(2) simp: ids_ok_def list_all_iff)

lemma check_sound:
  assumes "no_stale s"
  shows "g \<in> set (az_orgs s) \<Longrightarrow> fst (isOrganizationMember s u g) \<Longrightarrow> org_member_now s u g"
    and "g \<in> set (az_orgs s) \<Longrightarrow> fst (isOrganizationAdmin s u g) \<Longrightarrow> org_admin_now s u g"
    and "t \<in> te_id ` set (az_teams s) \<Longrightarrow> fst (isTeamMember s u t) \<Longrightarrow> team_member_now s u t"
    and "t \<in> te_id ` set (az_teams s) \<Longrightarrow> fst (isTeamAdmin s u t) \<Longrightarrow> team_admin_now s u t"
  using cached_flag [OF assms, of "OrgFlag u g" True] cached_flag [OF assms, of "OrgAdmin u g" True]
    cached_flag [OF assms, of "TeamFlag u t" True] cached_flag [OF assms, of "TeamAdmin u t" True] ids_plain [OF assms]
  by (auto simp: isOrganizationMember_def isOrganizationAdmin_def isTeamMember_def isTeamAdmin_def through_cache_def live_def says_def
      split: option.splits if_splits)

lemma check_exact:
  assumes "no_stale s" "az_database s" "g \<in> set (az_orgs s)"
  shows "fst (isOrganizationMember s u g) = org_member_now s u g" "fst (isOrganizationAdmin s u g) = org_admin_now s u g"
proof -
  have "says s (OrgFlag u g) v" if "az_cache s (entry_key (OrgFlag u g)) = Some v" for v
    using no_staleD(1) [OF assms(1) _ _ that] ids_plain(1) [OF assms(1,3)] assms(3) by (simp add: live_def)
  then show "fst (isOrganizationMember s u g) = org_member_now s u g"
    using assms(2) by (auto simp: isOrganizationMember_def through_cache_def getCachedMembership_def says_def split: option.split)
  have "says s (OrgAdmin u g) v" if "az_cache s (entry_key (OrgAdmin u g)) = Some v" for v
    using no_staleD(1) [OF assms(1) _ _ that] ids_plain(1) [OF assms(1,3)] assms(3) by (simp add: live_def)
  then show "fst (isOrganizationAdmin s u g) = org_admin_now s u g"
    using assms(2) by (auto simp: isOrganizationAdmin_def through_cache_def getCachedMembership_def says_def split: option.split)
qed

lemma check_state:
  assumes "no_stale s" "plain g" "plain t"
  shows "no_stale (snd (isOrganizationMember s u g))" "no_stale (snd (isOrganizationAdmin s u g))" "no_stale (snd (isTeamMember s u t))"
    and "cache_only s (snd (isOrganizationMember s u g))" "cache_only s (snd (isOrganizationAdmin s u g))"
    "cache_only s (snd (isTeamMember s u t))"
  using assms by auto

lemma canAccessResource_sound:
  assumes "no_stale s" "owned s r" "fst (canAccessResource s u roles r)"
  shows "may_access s u roles r"
proof -
  obtain m s1 where c: "isOrganizationMember s u (or_organization r) = (m, s1)" by fastforce
  have g: "or_organization r \<in> set (az_orgs s)" using assms(2) by (simp add: owned_def)
  have m: "m \<Longrightarrow> org_member_now s u (or_organization r)"
    using check_sound(1) [OF assms(1) g, of u] c by simp
  have s1: "no_stale s1" "cache_only s s1"
    using check_no_stale(1) [OF assms(1) ids_plain(1) [OF assms(1) g], of u] cache_only_checks(1) [of s u "or_organization r"] c by auto
  have t: "team_member_now s u t" if "resource_team r = Some t" "fst (isTeamMember s1 u t)" for t
    using check_sound(3) [OF s1(1) _ that(2)] that(1) assms(2) s1(2) cache_onlyD(2) [OF s1(2)]
    by (auto simp: owned_def team_member_now_def team_membership_def cache_onlyD)
  show ?thesis
    using assms(3) c m t by (auto simp: canAccessResource_def may_access_def split: if_splits option.splits)
qed

lemma canModifyResource_sound:
  assumes "no_stale s" "owned s r" "fst (canModifyResource s u roles r)"
  shows "may_modify s u roles r"
proof -
  obtain m s1 where c: "isOrganizationAdmin s u (or_organization r) = (m, s1)" by fastforce
  have g: "or_organization r \<in> set (az_orgs s)" using assms(2) by (simp add: owned_def)
  have m: "m \<Longrightarrow> org_admin_now s u (or_organization r)"
    using check_sound(2) [OF assms(1) g, of u] c by simp
  have s1: "no_stale s1" "cache_only s s1"
    using check_no_stale(2) [OF assms(1) ids_plain(1) [OF assms(1) g], of u] cache_only_checks(2) [of s u "or_organization r"] c by auto
  have t: "team_admin_now s u t" if "resource_team r = Some t" "fst (isTeamAdmin s1 u t)" for t
    using check_sound(4) [OF s1(1) _ that(2)] that(1) assms(2) s1(2) cache_onlyD(2) [OF s1(2)]
    by (auto simp: owned_def team_admin_now_def team_membership_def cache_onlyD)
  show ?thesis
    using assms(3) c m t by (auto simp: canModifyResource_def may_modify_def createdByUser_def split: if_splits option.splits)
qed

lemma canViewTeamResources_sound:
  assumes "no_stale s" "t \<in> te_id ` set (az_teams s)" "fst (canViewTeamResources s u t) = Some True"
  shows "may_view_team s u t"
proof -
  obtain m s1 where c: "isTeamMember s u t = (m, s1)" by fastforce
  have m: "m \<Longrightarrow> team_member_now s u t" using check_sound(3) [OF assms(1,2), of u] c by simp
  have s1: "no_stale s1" "cache_only s s1"
    using check_no_stale(3) [OF assms(1) ids_plain(2) [OF assms(1,2)], of u] cache_only_checks(3) [of s u t] c by auto
  have o: "org_member_now s u (te_organization x)"
    if "team_of s t = Some x" "fst (isOrganizationMember s1 u (te_organization x))" for x
    using check_sound(1) [OF s1(1) _ that(2)] team_org_plain [OF assms(1) that(1)] cache_onlyD [OF s1(2)]
    by (simp add: org_member_now_def org_membership_def)
  show ?thesis
    using assms(3) c m o cache_onlyD(11) [OF s1(2)]
    by (auto simp: canViewTeamResources_def may_view_team_def split: if_splits option.splits)
qed


definition acme :: authz where
  "acme = \<lparr>az_orgs = [''o1''], az_members = [\<lparr>om_organization = ''o1'', om_user = ''ann'', om_roles = [''org-admin'']\<rparr>],
     az_team_members = [], az_teams = [\<lparr>te_id = ''t1'', te_organization = ''o1'', te_restricted = False\<rparr>],
     az_keys = [\<lparr>ky_id = ''k1'', ky_organization = Some ''o1'', ky_created_by = ''ann''\<rparr>],
     az_cache = Map.empty, az_enabled = True, az_database = True\<rparr>"

definition dashboard :: owned_resource where
  "dashboard = \<lparr>or_organization = ''o1'', or_team = Some ''t1'', or_created_by = ''eve''\<rparr>"

lemma acme_start: "authz_start acme"
  by (simp add: authz_start_def acme_def plain_def)

lemma acme_checked: "authz_reachable (run_authz_op (CheckOrgMember ''ann'' ''o1'') acme)"
  by (rule authz_reachable.op [OF authz_reachable.start [OF acme_start]]) (simp add: plain_def)

lemma acme_removed: "authz_reachable (run_authz_op (RemoveOrgMember ''o1'' ''ann'') (run_authz_op (CheckOrgMember ''ann'' ''o1'') acme))"
  by (rule authz_reachable.op [OF acme_checked]) simp




text \<open>
  C29: when neither the cache nor the database can answer, the service fails closed: only global administrators, and the creator of
  a resource for its modification, are let through, the lists are empty, and nothing is remembered of the outage.
\<close>

theorem outage_fails_closed:
  assumes "\<not> az_database s" "az_cache s = Map.empty \<or> \<not> az_enabled s"
  shows "canAccessResource s u roles r = (hasGlobalAdminRole roles, s)
    \<and> canModifyResource s u roles r = (hasGlobalAdminRole roles \<or> or_created_by r \<noteq> [] \<and> or_created_by r = u, s)
    \<and> canViewTeamResources s u t = (None, s) \<and> canAdministerAnyOrganization s u roles = (hasGlobalAdminRole roles, s)
    \<and> getAccessibleOrganizations s u = ([], s) \<and> getAccessibleTeams s u = ([], s)"
proof -
  have "through_cache s k b = (False, s)" "ids_through_cache s k xs = ([], s)" for k b xs
    using assms by (auto simp: through_cache_def ids_through_cache_def getCachedMembership_def)
  then show ?thesis
    using assms(1)
    by (simp add: canAccessResource_def canModifyResource_def canViewTeamResources_def canAdministerAnyOrganization_def
      getAccessibleOrganizations_def getAccessibleTeams_def isOrganizationMember_def isOrganizationAdmin_def isTeamMember_def
      isTeamAdmin_def isOrgAdminInAnyOrganization_def createdByUser_def split: option.split) auto
qed

theorem outage_fails_closed_witness: "\<not> fst (canAccessResource (acme\<lparr>az_database := False\<rparr>) ''ann'' None dashboard)"
  using outage_fails_closed [of "acme\<lparr>az_database := False\<rparr>" "''ann''" None dashboard]
  by (simp add: acme_def hasGlobalAdminRole_def)

subsection \<open>Capabilities\<close>

lemma add_all_set: "set (foldl (\<lambda>a x. if x \<in> set a then a else a @ [x]) acc xs) = set acc \<union> set xs"
  by (induction xs arbitrary: acc) auto

lemma add_all_distinct: "distinct acc \<Longrightarrow> distinct (foldl (\<lambda>a x. if x \<in> set a then a else a @ [x]) acc xs)"
  by (induction xs arbitrary: acc) auto

lemma set_add_all [simp]: "set (add_all acc xs) = set acc \<union> set xs" "distinct acc \<Longrightarrow> distinct (add_all acc xs)"
  by (simp_all add: add_all_def add_all_set add_all_distinct)

lemma global_admin_all: "set GLOBAL_ADMIN_CAPABILITIES = UNIV"
proof (rule set_eqI)
  fix c
  show "c \<in> set GLOBAL_ADMIN_CAPABILITIES \<longleftrightarrow> c \<in> UNIV"
    by (cases c) (simp_all add: GLOBAL_ADMIN_CAPABILITIES_def integrationCrud_def)
qed

definition system_only :: "capability set" where
  "system_only = {OrgCreate, OrgDelete, SystemAuditRead, SystemManageUsers, SystemManageGlobalSettings}"

lemma role_capabilities_bounds:
  "set (org_role_capabilities r) \<inter> system_only = {}" "set (team_role_capabilities r) \<subseteq> {TeamUpdate, TeamManageMembers}"
  "ApiKeyCreate \<in> set (org_role_capabilities r) \<longleftrightarrow> r = ''org-admin''"
  by (auto simp: org_role_capabilities_def team_role_capabilities_def system_only_def integrationCrud_def testRunCrud_def
      orgAdminExtras_def)

text \<open>
  The capabilities of a request list no entry twice; a global administrator has all of them; everybody else has none of the
  system's (so that \<open>SystemManageGlobalSettings\<close> tells global administrators, as the API key service relies on), creates API keys
  exactly with the role \<open>org-admin\<close>, and gets from a team no more than its own management.
\<close>

theorem capabilities_policy:
  "distinct (compute_capabilities sys orgs teams)
   \<and> (SystemManageGlobalSettings \<in> set (compute_capabilities sys orgs teams) \<longleftrightarrow> hasGlobalAdminRole (Some sys))
   \<and> (ApiKeyCreate \<in> set (compute_capabilities sys orgs teams) \<longleftrightarrow> hasGlobalAdminRole (Some sys) \<or> ''org-admin'' \<in> set orgs)
   \<and> set (compute_capabilities sys orgs teams)
     = (if hasGlobalAdminRole (Some sys) then UNIV
        else (\<Union>r \<in> set orgs. set (org_role_capabilities r)) \<union> (\<Union>r \<in> set teams. set (team_role_capabilities r)))
   \<and> (set (compute_capabilities sys [] teams) \<inter> (UNIV - {TeamUpdate, TeamManageMembers}) \<noteq> {} \<longleftrightarrow> hasGlobalAdminRole (Some sys))"
proof -
  have g: "hasGlobalAdminRole (Some sys) = list_ex (\<lambda>r. r \<in> set GLOBAL_ADMIN_ROLES) sys"
    by (simp add: hasGlobalAdminRole_def isGlobalAdminRole_def GLOBAL_ADMIN_ROLES_def list_ex_iff) auto
  have s: "set (compute_capabilities sys orgs teams)
     = (if hasGlobalAdminRole (Some sys) then UNIV
        else (\<Union>r \<in> set orgs. set (org_role_capabilities r)) \<union> (\<Union>r \<in> set teams. set (team_role_capabilities r)))" for orgs
    by (simp add: compute_capabilities_def g global_admin_all)
  have "distinct (compute_capabilities sys orgs teams)" by (simp add: compute_capabilities_def)
  moreover have "SystemManageGlobalSettings \<notin> set (org_role_capabilities r)" for r
    using role_capabilities_bounds(1) [of r] by (auto simp: system_only_def)
  moreover have "set (compute_capabilities sys [] teams) \<inter> (UNIV - {TeamUpdate, TeamManageMembers}) \<noteq> {} \<longleftrightarrow> hasGlobalAdminRole (Some sys)"
    using role_capabilities_bounds(2) by (auto simp: s)
  ultimately show ?thesis
    using role_capabilities_bounds(2,3) by (auto simp: s)
qed

section \<open>Where the cache lags behind\<close>

text \<open>
  The entry \<open>auth:user-context:<user>:any-org-admin\<close> is in none of the patterns of an invalidation: an administrator who is removed
  from the organization still administers until it expires.
\<close>

lemma removed_admin_still_administers:
  "let s = run_authz_op (RemoveOrgMember ''o1'' ''ann'') (run_authz_op (CheckAnyOrgAdmin ''ann'') acme) in
   fst (canAdministerAnyOrganization s ''ann'' None) \<and> \<not> any_org_admin_now s ''ann''"
  by code_simp

text \<open>
  A user's counter of versions starts missing and reads as 1; the first \<open>INCR\<close> of an invalidation makes it 1. The first change of
  the memberships of a user therefore leaves the cached capabilities in place.
\<close>

lemma first_invalidation_ineffective:
  "let s = run_authz_op (RemoveOrgMember ''o1'' ''ann'') (run_authz_op (Capabilities ''ann'' [] (Some ''o1'') None) acme) in
   (case fst (getCapabilities s ''ann'' [] (Some ''o1'') None) of None \<Rightarrow> False | Some cs \<Rightarrow> ApiKeyCreate \<in> set cs)
   \<and> org_membership s ''ann'' ''o1'' = None"
  by code_simp

text \<open>Adding a member to a team invalidates nothing: a user refused before stays refused until the entry expires.\<close>

lemma new_team_member_denied:
  "let s = run_authz_op (AddTeamMember ''t1'' ''bob'' [''team-admin'']) (run_authz_op (CheckTeamMember ''bob'' ''t1'') acme) in
   fst (canViewTeamResources s ''bob'' ''t1'') = Some False \<and> may_view_team s ''bob'' ''t1''"
  by code_simp

text \<open>Revoking the keys of a removed member leaves the list of organizations of those keys, the context of row level security.\<close>

lemma revoked_key_keeps_organizations:
  "let s = run_authz_op (RemoveOrgMember ''o1'' ''ann'') (run_authz_op (ListOrganizations ''api-key:k1'') acme) in
   fst (getAccessibleOrganizations s ''api-key:k1'') = [''o1''] \<and> az_keys s = []"
  by code_simp
end
