(* ===== verification/Base64.thy ===== *)
theory Base64
  imports Prelude
begin

text \<open>
  The base64 of the JavaScript runtime (\<open>Buffer.toString('base64')\<close> and \<open>Buffer.from(s, 'base64')\<close>), which
  \<open>apps/api/src/modules/api-keys/api-keys.service.ts\<close> uses for its tokens: the decoder skips every character outside both
  alphabets, padding included. A string is its bytes: text is ASCII.
\<close>

definition b64_alphabet :: string where
  "b64_alphabet = ''ABCDEFGHIJKLMNOPQRSTUVWXYZabcdefghijklmnopqrstuvwxyz0123456789+/''"

definition b64_char :: "nat \<Rightarrow> char" where
  "b64_char n = b64_alphabet ! (n mod 64)"

fun b64_encode :: "nat list \<Rightarrow> string" where
  "b64_encode (a # b # c # xs) =
     b64_char (a div 4) # b64_char (a mod 4 * 16 + b div 16) # b64_char (b mod 16 * 4 + c div 64) # b64_char (c mod 64)
       # b64_encode xs"
| "b64_encode [a, b] = [b64_char (a div 4), b64_char (a mod 4 * 16 + b div 16), b64_char (b mod 16 * 4), CHR ''='']"
| "b64_encode [a] = [b64_char (a div 4), b64_char (a mod 4 * 16), CHR ''='', CHR ''='']"
| "b64_encode [] = []"

definition sextet :: "char \<Rightarrow> nat option" where
  "sextet c =
     (if is_upper c then Some (code c - 65)
      else if 97 \<le> code c \<and> code c \<le> 122 then Some (code c - 71)
      else if is_digit c then Some (code c + 4)
      else if c = CHR ''+'' \<or> c = CHR ''-'' then Some 62
      else if c = CHR ''/'' \<or> c = CHR ''_'' then Some 63
      else None)"

fun b64_bytes :: "nat list \<Rightarrow> nat list" where
  "b64_bytes (w # x # y # z # xs) =
     (w * 4 + x div 16) # (x mod 16 * 16 + y div 4) # (y mod 4 * 64 + z) # b64_bytes xs"
| "b64_bytes [w, x, y] = [w * 4 + x div 16, x mod 16 * 16 + y div 4]"
| "b64_bytes [w, x] = [w * 4 + x div 16]"
| "b64_bytes _ = []"

definition to_base64 :: "string \<Rightarrow> string" where
  "to_base64 s = b64_encode (map code s)"

definition from_base64 :: "string \<Rightarrow> string" where
  "from_base64 s = map char_of (b64_bytes (List.map_filter sextet s))"

lemma sextet_char [simp]: "sextet (b64_char n) = Some (n mod 64)"
proof -
  have "\<forall>n \<in> set [0..<64]. sextet (b64_alphabet ! n) = Some n" by code_simp
  then show ?thesis by (simp add: b64_char_def)
qed

lemma sextet_pad [simp]: "sextet (CHR ''='') = None"
  by code_simp

lemma digits: "r < k \<Longrightarrow> (q * k + r) div k = q" "r < k \<Longrightarrow> (q * k + r) mod k = r" for q r k :: nat
  by simp_all

lemma byte_parts:
  fixes a b c :: nat
  assumes "b < 256"
  shows "(a mod 4 * 16 + b div 16) mod 64 div 16 = a mod 4" "(a mod 4 * 16 + b div 16) mod 64 mod 16 = b div 16"
    and "c < 256 \<Longrightarrow> (b mod 16 * 4 + c div 64) mod 64 div 4 = b mod 16" "c < 256 \<Longrightarrow> (b mod 16 * 4 + c div 64) mod 64 mod 4 = c div 64"
    and "b div 4 mod 64 = b div 4"
proof -
  have m: "a mod 4 * 16 + b div 16 < 64" "b div 16 < 16" "b div 4 < 64"
    using assms mod_less_divisor [of 4 a] by linarith+
  then show "(a mod 4 * 16 + b div 16) mod 64 div 16 = a mod 4" "(a mod 4 * 16 + b div 16) mod 64 mod 16 = b div 16"
    "b div 4 mod 64 = b div 4"
    by (simp_all add: digits)
  assume "c < 256"
  then have "b mod 16 * 4 + c div 64 < 64" "c div 64 < 4"
    using mod_less_divisor [of 16 b] by linarith+
  then show "(b mod 16 * 4 + c div 64) mod 64 div 4 = b mod 16" "(b mod 16 * 4 + c div 64) mod 64 mod 4 = c div 64"
    by (simp_all add: digits)
qed

lemma bytes_encode: "\<forall>b \<in> set bs. b < 256 \<Longrightarrow> b64_bytes (List.map_filter sextet (b64_encode bs)) = bs"
proof (induction bs rule: b64_encode.induct)
  case (1 a b c xs)
  then show ?case by (simp add: byte_parts div_mult_mod_eq)
next
  case (2 a b)
  then show ?case using byte_parts(3) [of b 0] by (simp add: byte_parts)
next
  case (3 a)
  then show ?case using byte_parts(1) [of 0 a] by (simp add: byte_parts(5))
qed simp

lemma from_to_base64: "from_base64 (to_base64 s) = s"
proof -
  have "\<forall>b \<in> set (map code s). b < 256" by (auto simp: code_def)
  then show ?thesis by (simp add: from_base64_def to_base64_def bytes_encode comp_def code_def)
qed

text \<open>The first sixteen characters come from the first twelve bytes.\<close>

lemma encode_prefix: "take (4 * k) (b64_encode bs) = take (4 * k) (b64_encode (take (3 * k) bs))"
proof (induction bs arbitrary: k rule: b64_encode.induct)
  case (1 a b c xs)
  show ?case
  proof (cases k)
    case (Suc j)
    then have "4 * k = Suc (Suc (Suc (Suc (4 * j))))" "3 * k = Suc (Suc (Suc (3 * j)))" by simp_all
    with 1 [of j] show ?thesis by (simp only: take_Suc_Cons b64_encode.simps)
  qed simp
qed (case_tac k; simp)+

lemma to_base64_prefix: "take 16 (to_base64 s) = take 16 (to_base64 (take 12 s))"
  using encode_prefix [of 4 "map code s"] by (simp add: to_base64_def take_map)

lemma length_b64_encode: "length bs \<le> length (b64_encode bs)"
  by (induction bs rule: b64_encode.induct) auto

lemma b64_chars: "set (b64_encode bs) \<subseteq> set b64_alphabet \<union> {CHR ''=''}"
proof -
  have "b64_char n \<in> set b64_alphabet" for n
  proof -
    have "length b64_alphabet = 64" by code_simp
    then show ?thesis by (simp add: b64_char_def)
  qed
  then show ?thesis by (induction bs rule: b64_encode.induct) auto
qed

lemma no_dot: "CHR ''.'' \<notin> set (b64_encode bs)"
proof -
  have "CHR ''.'' \<notin> set b64_alphabet \<union> {CHR ''=''}" by code_simp
  with b64_chars [of bs] show ?thesis by blast
qed

end
