(* ===== verification/ApiKeys.thy ===== *)
theory ApiKeys
  imports AccessControl Base64
begin

text \<open>
  API keys: \<open>apps/api/src/modules/api-keys/api-keys.service.ts\<close>, its cache \<open>api-key-cache.service.ts\<close>, the writer of
  \<open>last_used\<close> and the queries of \<open>repositories/api-key.repository.ts\<close> they use.

  A token is base64 of the description, a hash sign and a UUID; the table stores its bcrypt hash. bcrypt is a parameter:
  \<open>hash salt token\<close> and \<open>matches token hash\<close>. The state holds the rows, the two kinds of Redis entries under the keys the code builds,
  the clock in milliseconds and the authorization state of \<open>Authorization\<close>, whose flag says whether the database answers.
\<close>

section \<open>Rows and caches\<close>

record api_key =
  ak_id :: string
  ak_hash :: string
  ak_description :: string
  ak_roles :: "string list"
  ak_valid_until :: "int option"
  ak_organization :: string
  ak_created_by :: string
  ak_created_at :: int

record key_service =
  kv_rows :: "api_key list"
  kv_keys :: "string \<Rightarrow> api_key option"
  kv_results :: "string \<Rightarrow> bool option"
  kv_enabled :: bool
  kv_now :: int
  kv_used :: "string list"
  kv_authz :: authz

definition word_char :: "char \<Rightarrow> bool" where
  "word_char c = (is_upper c \<or> 97 \<le> code c \<and> code c \<le> 122 \<or> is_digit c \<or> c = CHR ''_'')"

definition buildCacheKey :: "string \<Rightarrow> string" where
  "buildCacheKey d = ''api-key:'' @ filter (\<lambda>c. word_char c \<or> is_space c \<or> c = CHR ''-'') d"

definition buildValidationKey :: "string \<Rightarrow> string" where
  "buildValidationKey t = ''api-key-validation:'' @ take 16 (to_base64 t)"

definition getCachedKey :: "key_service \<Rightarrow> string \<Rightarrow> api_key option" where
  "getCachedKey s d = (if kv_enabled s then kv_keys s (buildCacheKey d) else None)"

definition cacheKey :: "api_key \<Rightarrow> key_service \<Rightarrow> key_service" where
  "cacheKey k s = (if kv_enabled s then s\<lparr>kv_keys := (kv_keys s)(buildCacheKey (ak_description k) \<mapsto> k)\<rparr> else s)"

definition cacheValidationResult :: "string \<Rightarrow> bool \<Rightarrow> key_service \<Rightarrow> key_service" where
  "cacheValidationResult t b s = (if kv_enabled s then s\<lparr>kv_results := (kv_results s)(buildValidationKey t \<mapsto> b)\<rparr> else s)"

definition getCachedValidationResult :: "key_service \<Rightarrow> string \<Rightarrow> bool option" where
  "getCachedValidationResult s t = (if kv_enabled s then kv_results s (buildValidationKey t) else None)"

definition invalidateKey :: "string \<Rightarrow> key_service \<Rightarrow> key_service" where
  "invalidateKey d s = (if kv_enabled s then s\<lparr>kv_keys := (kv_keys s)(buildCacheKey d := None)\<rparr> else s)"

definition invalidateAllValidationResults :: "key_service \<Rightarrow> key_service" where
  "invalidateAllValidationResults s = (if kv_enabled s then s\<lparr>kv_results := Map.empty\<rparr> else s)"

definition clearKeyCaches :: "key_service \<Rightarrow> key_service" where
  "clearKeyCaches s = (if kv_enabled s then s\<lparr>kv_keys := Map.empty, kv_results := Map.empty\<rparr> else s)"

definition warmCache :: "api_key list \<Rightarrow> key_service \<Rightarrow> key_service" where
  "warmCache ks s = foldl (\<lambda>s k. cacheKey k s) s ks"

section \<open>Queries\<close>

definition database_up :: "key_service \<Rightarrow> bool" where
  "database_up s = az_database (kv_authz s)"

text \<open>SQL \<open>ILIKE\<close>: \<open>%\<close> any text, \<open>_\<close> any character, a backslash takes the next character literally.\<close>

fun ilike :: "string \<Rightarrow> string \<Rightarrow> bool" where
  "ilike [] t = (t = [])"
| "ilike (p # ps) t =
     (if p = CHR ''%'' then ilike ps t \<or> (case t of [] \<Rightarrow> False | _ # cs \<Rightarrow> ilike (p # ps) cs)
      else if p = CHR ''_'' then (case t of [] \<Rightarrow> False | _ # cs \<Rightarrow> ilike ps cs)
      else if p = CHR 0x5C then
        (case (ps, t) of (q # qs, c # cs) \<Rightarrow> lower q = lower c \<and> ilike qs cs | _ \<Rightarrow> False)
      else (case t of [] \<Rightarrow> False | c # cs \<Rightarrow> lower p = lower c \<and> ilike ps cs))"

text \<open>Newest first: rows are kept in the order of their creation.\<close>

definition searchByDescription :: "key_service \<Rightarrow> string \<Rightarrow> api_key list" where
  "searchByDescription s d = filter (\<lambda>k. ilike (''%'' @ d @ ''%'') (ak_description k)) (rev (kv_rows s))"

definition findByOrganizationAndDescription :: "key_service \<Rightarrow> string \<Rightarrow> string \<Rightarrow> api_key option" where
  "findByOrganizationAndDescription s g d = find (\<lambda>k. ak_organization k = g \<and> ak_description k = d) (kv_rows s)"

definition findRecentlyCreated :: "nat \<Rightarrow> key_service \<Rightarrow> api_key list" where
  "findRecentlyCreated days s = filter (\<lambda>k. ak_created_at k > kv_now s - int days * 86400000) (rev (kv_rows s))"

definition warmCaches :: "key_service \<Rightarrow> key_service" where
  "warmCaches s = (if database_up s then warmCache (findRecentlyCreated 30 s) s else s)"

section \<open>Lifetime of a key\<close>

text \<open>Days since 1970 and the proleptic Gregorian calendar; the server runs in UTC.\<close>

definition civil_of_days :: "int \<Rightarrow> int \<times> int \<times> int" where
  "civil_of_days n =
     (let z = n + 719468; era = z div 146097; doe = z mod 146097;
          yoe = (doe - doe div 1460 + doe div 36524 - doe div 146096) div 365;
          doy = doe - (365 * yoe + yoe div 4 - yoe div 100); mp = (5 * doy + 2) div 153;
          m = (if mp < 10 then mp + 3 else mp - 9) in
      (yoe + era * 400 + (if m \<le> 2 then 1 else 0), m, doy - (153 * mp + 2) div 5 + 1))"

definition days_of_civil :: "int \<Rightarrow> int \<Rightarrow> int \<Rightarrow> int" where
  "days_of_civil y m d =
     (let y' = (if m \<le> 2 then y - 1 else y); era = y' div 400; yoe = y' mod 400;
          doy = (153 * (if m > 2 then m - 3 else m + 9) + 2) div 5 + d - 1 in
      era * 146097 + (yoe * 365 + yoe div 4 - yoe div 100 + doy) - 719468)"

definition day_ms :: int where
  "day_ms = 86400000"

text \<open>\<open>setMonth\<close> and \<open>setFullYear\<close> keep the day of the month and roll over when the month is shorter.\<close>

definition add_months :: "nat \<Rightarrow> int \<Rightarrow> int" where
  "add_months n t =
     (case civil_of_days (t div day_ms) of (y, m, d) \<Rightarrow>
        let k = m - 1 + int n in
        (days_of_civil (y + k div 12) (k mod 12 + 1) 1 + d - 1) * day_ms + t mod day_ms)"

datatype key_error = KeyForbidden | KeyConflict | KeyNotFound | KeyValidation | KeyDatabase

text \<open>A date out of range is invalid (\<open>None\<close>) and is refused by the database.\<close>

definition valid_date :: "int \<Rightarrow> int option" where
  "valid_date t = (if \<bar>t\<bar> \<le> 8640000000000000 then Some t else None)"

definition parseTtl :: "int \<Rightarrow> string \<Rightarrow> key_error + int option" where
  "parseTtl now ttl =
     (if ttl = [] \<or> butlast ttl = [] \<or> \<not> list_all is_digit (butlast ttl) then Inl KeyValidation
      else let n = digits_val (butlast ttl); u = last ttl in
           if u = CHR ''d'' then Inr (valid_date (now + int n * day_ms))
           else if u = CHR ''w'' then Inr (valid_date (now + int n * 7 * day_ms))
           else if u = CHR ''M'' then Inr (valid_date (add_months n now))
           else if u = CHR ''y'' then Inr (valid_date (add_months (12 * n) now))
           else Inl KeyValidation)"

definition isExpired :: "key_service \<Rightarrow> api_key \<Rightarrow> bool" where
  "isExpired s k = (case ak_valid_until k of None \<Rightarrow> False | Some t \<Rightarrow> t \<le> kv_now s)"

section \<open>Creation and deletion\<close>

definition isGlobalAdminUser :: "authz \<Rightarrow> string \<Rightarrow> string list \<Rightarrow> bool option \<times> authz" where
  "isGlobalAdminUser z u roles =
     map_prod (map_option (\<lambda>cs. SystemManageGlobalSettings \<in> set cs)) id (getCapabilities z u roles None None)"

text \<open>\<open>None\<close> when every requested role may be given away.\<close>

definition validateRequestedRoles :: "string list \<Rightarrow> string list \<Rightarrow> bool \<Rightarrow> key_error option" where
  "validateRequestedRoles requested creator isGlobalAdmin =
     (if requested = [] \<or> isGlobalAdmin then None
      else if filter (\<lambda>r. r \<notin> set creator) requested \<noteq> [] then Some KeyValidation else None)"

definition make_token :: "string \<Rightarrow> string \<Rightarrow> string" where
  "make_token d uuid = to_base64 (d @ ''#'' @ uuid)"

record key_request =
  kr_description :: string
  kr_ttl :: string
  kr_roles :: "string list option"

definition requested_roles :: "key_request \<Rightarrow> string list" where
  "requested_roles q = (case kr_roles q of None \<Rightarrow> [] | Some rs \<Rightarrow> rs)"

text \<open>The row is inserted under the unique indexes on the hash and on organization and description.\<close>

definition insert_key :: "api_key \<Rightarrow> key_service \<Rightarrow> key_error option \<times> key_service" where
  "insert_key k s =
     (if \<not> database_up s then (Some KeyDatabase, s)
      else if findByOrganizationAndDescription s (ak_organization k) (ak_description k) \<noteq> None then (Some KeyConflict, s)
      else if ak_hash k \<in> ak_hash ` set (kv_rows s) then (Some KeyDatabase, s)
      else (None, s\<lparr>kv_rows := kv_rows s @ [k],
                    kv_authz := create_key \<lparr>ky_id = ak_id k, ky_organization = Some (ak_organization k), ky_created_by = ak_created_by k\<rparr>
                      (kv_authz s)\<rparr>))"

text \<open>\<open>rid\<close> is the UUID the database gives to the row, \<open>uuid\<close> the one in the token, \<open>salt\<close> the randomness of bcrypt.\<close>

definition createApiKey ::
  "(nat \<Rightarrow> string \<Rightarrow> string) \<Rightarrow> nat \<Rightarrow> string \<Rightarrow> string \<Rightarrow> key_request \<Rightarrow> string \<Rightarrow> string list \<Rightarrow> string \<Rightarrow> key_service
     \<Rightarrow> (key_error + api_key \<times> string) \<times> key_service" where
  "createApiKey hash salt rid uuid q u roles g s =
     (let (caps, z1) = getCapabilities (kv_authz s) u roles (Some g) None;
          s1 = s\<lparr>kv_authz := z1\<rparr> in
      case caps of
        None \<Rightarrow> (Inl KeyDatabase, s1)
      | Some cs \<Rightarrow>
          if ApiKeyCreate \<notin> set cs then (Inl KeyForbidden, s1)
          else if \<not> database_up s1 then (Inl KeyDatabase, s1)
          else if findByOrganizationAndDescription s1 g (kr_description q) \<noteq> None then (Inl KeyConflict, s1)
          else let token = make_token (kr_description q) uuid in
          case parseTtl (kv_now s1) (kr_ttl q) of
            Inl e \<Rightarrow> (Inl e, s1)
          | Inr until \<Rightarrow>
              let (adm, z2) = isGlobalAdminUser z1 u roles; s2 = s1\<lparr>kv_authz := z2\<rparr> in
              case adm of
                None \<Rightarrow> (Inl KeyDatabase, s2)
              | Some a \<Rightarrow>
                (case validateRequestedRoles (requested_roles q) roles a of
                   Some e \<Rightarrow> (Inl e, s2)
                 | None \<Rightarrow>
                     if until = None then (Inl KeyDatabase, s2)
                     else let k = \<lparr>ak_id = rid, ak_hash = hash salt token, ak_description = kr_description q,
                                   ak_roles = requested_roles q, ak_valid_until = until, ak_organization = g,
                                   ak_created_by = u, ak_created_at = kv_now s2\<rparr>;
                              (e, s3) = insert_key k s2 in
                          case e of Some err \<Rightarrow> (Inl err, s3) | None \<Rightarrow> (Inr (k, token), cacheKey k s3)))"

definition invalidate_key :: "api_key \<Rightarrow> key_service \<Rightarrow> key_service" where
  "invalidate_key k s =
     (let s1 = invalidateAllValidationResults (invalidateKey (ak_description k) s) in
      s1\<lparr>kv_authz := invalidateUserCache (key_user (ak_id k)) (kv_authz s1)\<rparr>)"

definition delete_row :: "string \<Rightarrow> key_service \<Rightarrow> key_service" where
  "delete_row i s =
     s\<lparr>kv_rows := filter (\<lambda>k. ak_id k \<noteq> i) (kv_rows s),
       kv_authz := (kv_authz s)\<lparr>az_keys := filter (\<lambda>k. ky_id k \<noteq> i) (az_keys (kv_authz s))\<rparr>\<rparr>"

definition deleteApiKey :: "string \<Rightarrow> string \<Rightarrow> string list \<Rightarrow> key_service \<Rightarrow> key_error option \<times> key_service" where
  "deleteApiKey i u roles s =
     (if \<not> database_up s then (Some KeyDatabase, s)
      else case find (\<lambda>k. ak_id k = i) (kv_rows s) of
        None \<Rightarrow> (Some KeyNotFound, s)
      | Some k \<Rightarrow>
          let (caps, z1) = getCapabilities (kv_authz s) u roles (Some (ak_organization k)) None;
              s1 = s\<lparr>kv_authz := z1\<rparr> in
          case caps of
            None \<Rightarrow> (Some KeyDatabase, s1)
          | Some cs \<Rightarrow>
              if ApiKeyDelete \<notin> set cs then (Some KeyForbidden, s1)
              else (None, invalidate_key k (delete_row i (invalidate_key k s1))))"

section \<open>Validation of a token\<close>

definition token_description :: "string \<Rightarrow> string" where
  "token_description t = takeWhile (\<lambda>c. c \<noteq> CHR ''#'') (from_base64 t)"

definition allowed_char :: "char \<Rightarrow> bool" where
  "allowed_char c = (code c \<in> {9, 10, 13} \<or> 32 \<le> code c \<and> code c \<noteq> 127)"

definition hasInvalidChars :: "string \<Rightarrow> bool" where
  "hasInvalidChars d = (length d < 3 \<or> \<not> list_all allowed_char d)"

text \<open>What the lookup finds: nothing to decide, a key of the cache, a row of the table, or no key.\<close>

datatype found = Undecided | FromCache api_key | FromTable api_key | NoKey

definition lookup_token :: "(string \<Rightarrow> string \<Rightarrow> bool) \<Rightarrow> string \<Rightarrow> key_service \<Rightarrow> found" where
  "lookup_token matches t s =
     (if CHR ''.'' \<in> set t \<or> length t < 20 then Undecided
      else if getCachedValidationResult s t = Some False then Undecided
      else let d = token_description t in
        if hasInvalidChars d then Undecided
        else let cached = (case getCachedKey s d of
                 None \<Rightarrow> None
               | Some k \<Rightarrow> if \<not> isExpired s k \<and> matches t (ak_hash k) then Some k else None) in
        case cached of
          Some k \<Rightarrow> FromCache k
        | None \<Rightarrow>
            if \<not> database_up s then Undecided
            else case find (\<lambda>k. \<not> isExpired s k \<and> matches t (ak_hash k))
                        (filter (\<lambda>k. ak_description k = d) (searchByDescription s d)) of
                   None \<Rightarrow> NoKey
                 | Some k \<Rightarrow> FromTable k)"

definition record_used :: "string \<Rightarrow> key_service \<Rightarrow> key_service" where
  "record_used i s = (if i \<in> set (kv_used s) then s else s\<lparr>kv_used := kv_used s @ [i]\<rparr>)"

definition store_result :: "string \<Rightarrow> found \<Rightarrow> key_service \<Rightarrow> api_key option \<times> key_service" where
  "store_result t f s = (case f of
      Undecided \<Rightarrow> (None, s)
    | NoKey \<Rightarrow> (None, cacheValidationResult t False s)
    | FromCache k \<Rightarrow> (Some k, record_used (ak_id k) (cacheValidationResult t True s))
    | FromTable k \<Rightarrow> (Some k, record_used (ak_id k) (cacheValidationResult t True (cacheKey k s))))"

definition validateApiKey :: "(string \<Rightarrow> string \<Rightarrow> bool) \<Rightarrow> string \<Rightarrow> key_service \<Rightarrow> api_key option \<times> key_service" where
  "validateApiKey matches t s = store_result t (lookup_token matches t s) s"

text \<open>The writer of \<open>last_used\<close>: what it writes is not modelled, what it forgets is.\<close>

definition flush :: "key_service \<Rightarrow> string list \<times> key_service" where
  "flush s = (kv_used s, s\<lparr>kv_used := []\<rparr>)"


section \<open>Tokens\<close>

lemma from_make_token [simp]: "from_base64 (make_token d uuid) = d @ ''#'' @ uuid"
  by (simp add: make_token_def from_to_base64)

lemma takeWhile_hash: "CHR ''#'' \<notin> set d \<Longrightarrow> takeWhile (\<lambda>c. c \<noteq> CHR ''#'') (d @ CHR ''#'' # x) = d"
  by (induction d) auto

lemma make_token_description: "CHR ''#'' \<notin> set d \<Longrightarrow> token_description (make_token d uuid) = d"
  by (simp add: token_description_def takeWhile_hash)

lemma make_token_shape: "CHR ''.'' \<notin> set (make_token d uuid)" "length uuid = 36 \<Longrightarrow> 20 \<le> length (make_token d uuid)"
  using length_b64_encode [of "map code (d @ ''#'' @ uuid)"] no_dot by (auto simp: make_token_def to_base64_def)


definition sample_uuid :: string where
  "sample_uuid = ''550e8400-e29b-41d4-a716-446655440000''"


section \<open>Reachable states\<close>

datatype key_op =
    Validate string
  | CreateKeyFor nat string string key_request string "string list" string
  | DeleteKeyOf string string "string list"
  | WarmCaches
  | ClearKeyCaches
  | ExpireKeyEntry string
  | ExpireResultEntry string
  | Tick nat
  | Flush
  | Membership authz_op
  | RevokeWithMember string string

text \<open>
  Removing a member deletes the rows of the member's keys in the organization and does not touch the caches of this service
  (\<open>revokeApiKeysForUser\<close>).
\<close>

definition revoked_rows :: "string \<Rightarrow> string \<Rightarrow> key_service \<Rightarrow> api_key list" where
  "revoked_rows u g s = filter (\<lambda>k. ak_created_by k = u \<and> ak_organization k = g) (kv_rows s)"

definition revoke_with_member :: "string \<Rightarrow> string \<Rightarrow> key_service \<Rightarrow> key_service" where
  "revoke_with_member g u s =
     (case remove_org_member g u (kv_authz s) of
        (Some e, z) \<Rightarrow> s\<lparr>kv_authz := z\<rparr>
      | (None, z) \<Rightarrow> s\<lparr>kv_rows := filter (\<lambda>k. \<not> (ak_created_by k = u \<and> ak_organization k = g)) (kv_rows s), kv_authz := z\<rparr>)"

fun run_key_op :: "(nat \<Rightarrow> string \<Rightarrow> string) \<Rightarrow> (string \<Rightarrow> string \<Rightarrow> bool) \<Rightarrow> key_op \<Rightarrow> key_service \<Rightarrow> key_service" where
  "run_key_op hash matches (Validate t) s = snd (validateApiKey matches t s)"
| "run_key_op hash matches (CreateKeyFor salt rid uuid q u roles g) s = snd (createApiKey hash salt rid uuid q u roles g s)"
| "run_key_op hash matches (DeleteKeyOf i u roles) s = snd (deleteApiKey i u roles s)"
| "run_key_op hash matches WarmCaches s = warmCaches s"
| "run_key_op hash matches ClearKeyCaches s = clearKeyCaches s"
| "run_key_op hash matches (ExpireKeyEntry c) s = s\<lparr>kv_keys := (kv_keys s)(c := None)\<rparr>"
| "run_key_op hash matches (ExpireResultEntry c) s = s\<lparr>kv_results := (kv_results s)(c := None)\<rparr>"
| "run_key_op hash matches (Tick n) s = s\<lparr>kv_now := kv_now s + int n\<rparr>"
| "run_key_op hash matches Flush s = snd (flush s)"
| "run_key_op hash matches (Membership x) s = s\<lparr>kv_authz := run_authz_op x (kv_authz s)\<rparr>"
| "run_key_op hash matches (RevokeWithMember g u) s = revoke_with_member g u s"

text \<open>A new row gets a fresh UUID.\<close>

fun key_op_ok :: "key_service \<Rightarrow> key_op \<Rightarrow> bool" where
  "key_op_ok s (CreateKeyFor salt rid uuid q u roles g) = (rid \<notin> ak_id ` set (kv_rows s))"
| "key_op_ok s _ = True"

text \<open>The first argument collects the rows that were revoked with a membership.\<close>

inductive key_reachable :: "(nat \<Rightarrow> string \<Rightarrow> string) \<Rightarrow> (string \<Rightarrow> string \<Rightarrow> bool) \<Rightarrow> api_key list \<Rightarrow> key_service \<Rightarrow> bool"
  for hash matches where
  start: "kv_rows s = [] \<Longrightarrow> kv_keys s = Map.empty \<Longrightarrow> key_reachable hash matches [] s"
| op: "key_reachable hash matches R s \<Longrightarrow> key_op_ok s x \<Longrightarrow>
    key_reachable hash matches (case x of RevokeWithMember g u \<Rightarrow> revoked_rows u g s @ R | _ \<Rightarrow> R) (run_key_op hash matches x s)"

definition key_unique :: "api_key list \<Rightarrow> bool" where
  "key_unique rows =
     (distinct (map ak_id rows) \<and> distinct (map ak_hash rows) \<and> distinct (map (\<lambda>k. (ak_organization k, ak_description k)) rows))"

definition cached_ok :: "api_key list \<Rightarrow> key_service \<Rightarrow> bool" where
  "cached_ok R s =
     (\<forall>c k. kv_keys s c = Some k \<longrightarrow> c = buildCacheKey (ak_description k) \<and> (k \<in> set (kv_rows s) \<or> k \<in> set R))"

definition key_inv :: "api_key list \<Rightarrow> key_service \<Rightarrow> bool" where
  "key_inv R s = (key_unique (kv_rows s) \<and> cached_ok R s \<and> (\<not> kv_enabled s \<longrightarrow> kv_keys s = Map.empty))"

lemma key_inv_same:
  "key_inv R s \<Longrightarrow> kv_rows s' = kv_rows s \<Longrightarrow> kv_keys s' = kv_keys s \<Longrightarrow> kv_enabled s' = kv_enabled s \<Longrightarrow> key_inv R s'"
  by (simp add: key_inv_def cached_ok_def)

lemma key_inv_updates [simp]:
  "key_inv R (s\<lparr>kv_authz := z\<rparr>) = key_inv R s" "key_inv R (s\<lparr>kv_results := r\<rparr>) = key_inv R s"
  "key_inv R (s\<lparr>kv_now := n\<rparr>) = key_inv R s" "key_inv R (s\<lparr>kv_used := us\<rparr>) = key_inv R s"
  by (simp_all add: key_inv_def cached_ok_def)

lemma cacheKey_inv: "key_inv R s \<Longrightarrow> k \<in> set (kv_rows s) \<union> set R \<Longrightarrow> key_inv R (cacheKey k s)"
  by (auto simp: key_inv_def cached_ok_def cacheKey_def)

lemma cacheValidationResult_inv [simp]: "key_inv R (cacheValidationResult t b s) = key_inv R s"
  by (simp add: cacheValidationResult_def)

lemma record_used_inv [simp]: "key_inv R (record_used i s) = key_inv R s"
  by (simp add: record_used_def)

text \<open>What a lookup finds.\<close>

lemma lookup_from_cache:
  assumes "lookup_token matches t s = FromCache k"
  shows "getCachedKey s (token_description t) = Some k" "\<not> isExpired s k" "matches t (ak_hash k)"
  using assms by (auto simp: lookup_token_def Let_def split: if_splits option.splits)

lemma lookup_from_table:
  assumes "lookup_token matches t s = FromTable k"
  shows "k \<in> set (kv_rows s)" "ak_description k = token_description t" "\<not> isExpired s k" "matches t (ak_hash k)"
proof -
  have "find (\<lambda>k. \<not> isExpired s k \<and> matches t (ak_hash k))
      (filter (\<lambda>k. ak_description k = token_description t) (searchByDescription s (token_description t))) = Some k"
    using assms by (auto simp: lookup_token_def Let_def split: if_splits option.splits)
  then show "k \<in> set (kv_rows s)" "ak_description k = token_description t" "\<not> isExpired s k" "matches t (ak_hash k)"
    by (auto simp: find_Some_iff searchByDescription_def dest!: nth_mem)
qed

lemma validate_inv: "key_inv R s \<Longrightarrow> key_inv R (snd (validateApiKey matches t s))"
  using cacheKey_inv lookup_from_table(1) [of matches t s]
  by (auto simp: validateApiKey_def store_result_def split: found.split)

lemma warm_inv:
  assumes "key_inv R s"
  shows "key_inv R (warmCaches s)"
proof -
  have rows: "kv_rows (cacheKey k s) = kv_rows s" for k s by (simp add: cacheKey_def)
  have "key_inv R (foldl (\<lambda>s k. cacheKey k s) s ks)" if "key_inv R s" "set ks \<subseteq> set (kv_rows s)" for ks s
    using that by (induction ks arbitrary: s) (auto simp: cacheKey_inv rows)
  from this [OF assms, of "findRecentlyCreated 30 s"] assms show ?thesis
    by (auto simp: warmCaches_def warmCache_def findRecentlyCreated_def)
qed

text \<open>An insertion adds the row or changes nothing.\<close>

lemma insert_key_cases:
  "insert_key k s = (None, s') \<Longrightarrow>
     (\<exists>z. s' = s\<lparr>kv_rows := kv_rows s @ [k], kv_authz := z\<rparr>) \<and> ak_hash k \<notin> ak_hash ` set (kv_rows s)
     \<and> (ak_organization k, ak_description k) \<notin> (\<lambda>k. (ak_organization k, ak_description k)) ` set (kv_rows s)"
  "insert_key k s = (Some e, s') \<Longrightarrow> s' = s"
proof -
  assume "insert_key k s = (None, s')"
  then have "find (\<lambda>k'. ak_organization k' = ak_organization k \<and> ak_description k' = ak_description k) (kv_rows s) = None"
    and r: "(\<exists>z. s' = s\<lparr>kv_rows := kv_rows s @ [k], kv_authz := z\<rparr>) \<and> ak_hash k \<notin> ak_hash ` set (kv_rows s)"
    by (auto simp: insert_key_def findByOrganizationAndDescription_def split: if_splits)
  then have "\<forall>k' \<in> set (kv_rows s). (ak_organization k, ak_description k) \<noteq> (ak_organization k', ak_description k')"
    by (auto simp: find_None_iff)
  with r show "(\<exists>z. s' = s\<lparr>kv_rows := kv_rows s @ [k], kv_authz := z\<rparr>) \<and> ak_hash k \<notin> ak_hash ` set (kv_rows s)
     \<and> (ak_organization k, ak_description k) \<notin> (\<lambda>k. (ak_organization k, ak_description k)) ` set (kv_rows s)"
    by blast
qed (auto simp: insert_key_def split: if_splits)

text \<open>A refused creation changes the authorization state only; a successful one has passed every check.\<close>

lemma create_failed: "createApiKey hash salt rid uuid q u roles g s = (Inl e, s') \<Longrightarrow> \<exists>z. s' = s\<lparr>kv_authz := z\<rparr>"
  by (auto simp: createApiKey_def Let_def dest: insert_key_cases(2) split: prod.splits option.splits sum.splits if_splits)

lemma create_succeeded:
  assumes "createApiKey hash salt rid uuid q u roles g s = (Inr (k, token), s')"
  shows "\<exists>z1 z2 s3. k = \<lparr>ak_id = rid, ak_hash = hash salt token, ak_description = kr_description q, ak_roles = requested_roles q,
            ak_valid_until = ak_valid_until k, ak_organization = g, ak_created_by = u, ak_created_at = kv_now s\<rparr>
      \<and> token = make_token (kr_description q) uuid \<and> parseTtl (kv_now s) (kr_ttl q) = Inr (ak_valid_until k)
      \<and> (\<exists>cs. getCapabilities (kv_authz s) u roles (Some g) None = (Some cs, z1) \<and> ApiKeyCreate \<in> set cs)
      \<and> (\<exists>a. isGlobalAdminUser z1 u roles = (Some a, z2) \<and> validateRequestedRoles (requested_roles q) roles a = None)
      \<and> insert_key k (s\<lparr>kv_authz := z2\<rparr>) = (None, s3) \<and> s' = cacheKey k s3"
  using assms by (auto simp: createApiKey_def Let_def split: prod.splits option.splits sum.splits if_splits)

lemma insert_key_inv:
  assumes "key_inv R s" "ak_id k \<notin> ak_id ` set (kv_rows s)" "insert_key k s = (None, s')"
  shows "key_inv R s'" "k \<in> set (kv_rows s')"
proof -
  obtain z where s': "s' = s\<lparr>kv_rows := kv_rows s @ [k], kv_authz := z\<rparr>" using insert_key_cases(1) [OF assms(3)] by blast
  have "key_unique (kv_rows s')"
    using assms(1,2) insert_key_cases(1) [OF assms(3)] by (simp add: s' key_inv_def key_unique_def)
  then show "key_inv R s'" using assms(1) by (auto simp: s' key_inv_def cached_ok_def)
  show "k \<in> set (kv_rows s')" by (simp add: s')
qed

lemma create_inv:
  assumes "key_inv R s" "rid \<notin> ak_id ` set (kv_rows s)"
  shows "key_inv R (snd (createApiKey hash salt rid uuid q u roles g s))"
proof (cases "createApiKey hash salt rid uuid q u roles g s")
  case (Pair r s')
  show ?thesis
  proof (cases r)
    case (Inl e)
    with Pair assms(1) create_failed [of hash salt rid uuid q u roles g s e s'] show ?thesis by auto
  next
    case (Inr kt)
    obtain k token where kt: "kt = (k, token)" by fastforce
    obtain z2 s3 where c: "ak_id k = rid" "insert_key k (s\<lparr>kv_authz := z2\<rparr>) = (None, s3)" "s' = cacheKey k s3"
      using create_succeeded [of hash salt rid uuid q u roles g s k token s'] Pair Inr kt
      by (metis api_key.select_convs(1))
    have "key_inv R s3" "k \<in> set (kv_rows s3)"
      using insert_key_inv [OF _ _ c(2)] assms c(1) by simp_all
    with Pair c(3) show ?thesis by (simp add: cacheKey_inv)
  qed
qed

lemma invalidate_key_fields:
  "kv_rows (invalidate_key k s) = kv_rows s" "kv_enabled (invalidate_key k s) = kv_enabled s"
  "kv_keys (invalidate_key k s) = (if kv_enabled s then (kv_keys s)(buildCacheKey (ak_description k) := None) else kv_keys s)"
  by (simp_all add: invalidate_key_def Let_def invalidateAllValidationResults_def invalidateKey_def)

lemma key_unique_filter: "key_unique rows \<Longrightarrow> key_unique (filter P rows)"
  by (simp add: key_unique_def distinct_map_filter)

lemma delete_row_fields:
  "kv_rows (delete_row i s) = filter (\<lambda>k. ak_id k \<noteq> i) (kv_rows s)" "kv_keys (delete_row i s) = kv_keys s"
  "kv_enabled (delete_row i s) = kv_enabled s"
  by (simp_all add: delete_row_def)

lemma unique_id: "key_unique rows \<Longrightarrow> k \<in> set rows \<Longrightarrow> k' \<in> set rows \<Longrightarrow> ak_id k = ak_id k' \<Longrightarrow> k = k'"
  by (auto simp: key_unique_def distinct_map dest: inj_onD)

lemma delete_inv:
  assumes "key_inv R s"
  shows "key_inv R (snd (deleteApiKey i u roles s))"
proof (cases "find (\<lambda>k. ak_id k = i) (kv_rows s)")
  case (Some k)
  then have k: "k \<in> set (kv_rows s)" "ak_id k = i" by (auto simp: find_Some_iff)
  have "key_inv R (invalidate_key k (delete_row i (invalidate_key k (s\<lparr>kv_authz := z\<rparr>))))" (is "key_inv R ?s") for z
  proof -
    have "cached_ok R ?s"
    proof (unfold cached_ok_def, intro allI impI)
      fix c k'
      assume c: "kv_keys ?s c = Some k'"
      then have old: "kv_keys s c = Some k'" "kv_enabled s \<Longrightarrow> c \<noteq> buildCacheKey (ak_description k)"
        by (auto simp: invalidate_key_fields delete_row_fields split: if_splits)
      then have en: "kv_enabled s" using assms by (auto simp: key_inv_def)
      have ok: "c = buildCacheKey (ak_description k')" "k' \<in> set (kv_rows s) \<or> k' \<in> set R"
        using assms old(1) by (auto simp: key_inv_def cached_ok_def)
      have "k' \<noteq> k" using old(2) [OF en] ok(1) by blast
      then have "ak_id k' \<noteq> i" if "k' \<in> set (kv_rows s)"
        using that k assms unique_id [of "kv_rows s" k' k] by (auto simp: key_inv_def)
      with ok show "c = buildCacheKey (ak_description k') \<and> (k' \<in> set (kv_rows ?s) \<or> k' \<in> set R)"
        by (auto simp: invalidate_key_fields delete_row_fields)
    qed
    then show ?thesis
      using assms by (simp add: key_inv_def invalidate_key_fields delete_row_fields key_unique_filter)
  qed
  with assms Some show ?thesis by (auto simp: deleteApiKey_def Let_def split: prod.split option.split)
qed (use assms in \<open>simp add: deleteApiKey_def\<close>)

lemma revoke_inv:
  assumes "key_inv R s"
  shows "key_inv (revoked_rows u g s @ R) (revoke_with_member g u s)"
proof -
  have "key_inv (xs @ R) s" for xs using assms by (auto simp: key_inv_def cached_ok_def)
  moreover have "key_inv (revoked_rows u g s @ R) (s\<lparr>kv_rows := filter (\<lambda>k. \<not> (ak_created_by k = u \<and> ak_organization k = g)) (kv_rows s), kv_authz := z\<rparr>)" for z
    using assms key_unique_filter [of "kv_rows s"] by (auto simp: key_inv_def cached_ok_def revoked_rows_def)
  ultimately show ?thesis by (auto simp: revoke_with_member_def split: prod.split option.split)
qed

lemma key_reachable_inv: "key_reachable hash matches R s \<Longrightarrow> key_inv R s"
proof (induction rule: key_reachable.induct)
  case (start s)
  then show ?case by (simp add: key_inv_def key_unique_def cached_ok_def)
next
  case (op R s x)
  have expire: "key_inv R (s\<lparr>kv_keys := (kv_keys s)(c := None)\<rparr>)" for c
    using op.IH by (auto simp: key_inv_def cached_ok_def)
  have clear: "key_inv R (clearKeyCaches s)"
    using op.IH by (auto simp: clearKeyCaches_def key_inv_def cached_ok_def)
  from op show ?case
    by (cases x) (simp_all add: validate_inv create_inv delete_inv warm_inv revoke_inv expire clear flush_def)
qed

section \<open>What an accepted token means\<close>


text \<open>
  In every reachable state the rows have distinct ids, distinct hashes and, within an organization, distinct descriptions,
  and every cached key stands under the key of its own description.
\<close>

theorem key_table_invariant:
  assumes "key_reachable hash matches R s"
  shows "distinct (map ak_id (kv_rows s)) \<and> distinct (map ak_hash (kv_rows s))
    \<and> distinct (map (\<lambda>k. (ak_organization k, ak_description k)) (kv_rows s))
    \<and> (kv_keys s c = Some k \<longrightarrow> c = buildCacheKey (ak_description k))"
  using key_reachable_inv [OF assms] by (simp add: key_inv_def key_unique_def cached_ok_def)

text \<open>A description without a backslash finds itself.\<close>

lemma ilike_self: "CHR 0x5C \<notin> set d \<Longrightarrow> ilike (d @ ''%'') d"
  by (induction d) auto

lemma ilike_own: "CHR 0x5C \<notin> set d \<Longrightarrow> ilike (''%'' @ d @ ''%'') d"
  using ilike_self by simp

text \<open>
  A created key works: under the law of bcrypt that a hash matches its own token, the token handed out is accepted in the
  state after the creation, as the new key when the cache is on, provided the description can be read back, no failed token with
  the same first twelve characters is remembered, and the key has not expired.
\<close>

theorem created_key_accepted:
  assumes "createApiKey hash salt rid uuid q u roles g s = (Inr (k, token), s1)"
    and "\<And>r t. matches t (hash r t)"
    and "CHR ''#'' \<notin> set (kr_description q)" "CHR 0x5C \<notin> set (kr_description q)" "\<not> hasInvalidChars (kr_description q)"
    and "length uuid = 36" "getCachedValidationResult s1 token \<noteq> Some False" "\<not> isExpired s1 k" "database_up s1"
  shows "\<exists>k' s2. validateApiKey matches token s1 = (Some k', s2) \<and> matches token (ak_hash k') \<and> (kv_enabled s1 \<longrightarrow> k' = k)"
proof -
  let ?d = "kr_description q"
  obtain z2 s3 until where c: "k = \<lparr>ak_id = rid, ak_hash = hash salt token, ak_description = ?d, ak_roles = requested_roles q,
            ak_valid_until = until, ak_organization = g, ak_created_by = u, ak_created_at = kv_now s\<rparr>"
      "token = make_token ?d uuid" "insert_key k (s\<lparr>kv_authz := z2\<rparr>) = (None, s3)" "s1 = cacheKey k s3"
    using create_succeeded [OF assms(1)] by blast
  have k: "ak_description k = ?d" "matches token (ak_hash k)" "k \<in> set (kv_rows s1)"
    using c(1,4) assms(2) insert_key_cases(1) [OF c(3)] by (auto simp: cacheKey_def)
  have d: "token_description token = ?d" "CHR ''.'' \<notin> set token" "20 \<le> length token"
    using make_token_description [OF assms(3)] make_token_shape(1) make_token_shape(2) [OF assms(6)] c(2) by auto
  have cached: "kv_enabled s1 \<Longrightarrow> getCachedKey s1 ?d = Some k"
    using c(4) k(1) by (simp add: getCachedKey_def cacheKey_def split: if_splits)
  have "k \<in> set (filter (\<lambda>k. ak_description k = ?d) (searchByDescription s1 ?d))"
    using k ilike_own [OF assms(4)] by (simp add: searchByDescription_def)
  then have table: "find (\<lambda>k. \<not> isExpired s1 k \<and> matches token (ak_hash k))
      (filter (\<lambda>k. ak_description k = ?d) (searchByDescription s1 ?d)) \<noteq> None"
    using k(2) assms(8) by (auto simp: find_None_iff)
  show ?thesis
  proof (cases "kv_enabled s1")
    case True
    then have "lookup_token matches token s1 = FromCache k"
      using d k cached assms(5,7,8) by (simp add: lookup_token_def)
    with k(2) show ?thesis by (simp add: validateApiKey_def store_result_def)
  next
    case False
    then obtain k' where "lookup_token matches token s1 = FromTable k'"
      using d table assms(5,7,9) by (auto simp: lookup_token_def getCachedKey_def)
    with lookup_from_table(4) [OF this] False show ?thesis by (simp add: validateApiKey_def store_result_def)
  qed
qed

text \<open>
  Nobody creates a key with more rights than their own: a creation succeeds only with the capability for the target
  organization, and the roles of the key are roles of the creator unless the capability layer calls the creator a global
  administrator; the row belongs to the creator and the organization, and its hash is that of the token.
\<close>

theorem created_key_bounded:
  assumes "createApiKey hash salt rid uuid q u roles g s = (Inr (k, token), s1)"
  shows "(case fst (getCapabilities (kv_authz s) u roles (Some g) None) of None \<Rightarrow> False | Some cs \<Rightarrow> ApiKeyCreate \<in> set cs)
    \<and> (set (ak_roles k) \<subseteq> set roles
        \<or> fst (isGlobalAdminUser (snd (getCapabilities (kv_authz s) u roles (Some g) None)) u roles) = Some True)
    \<and> ak_organization k = g \<and> ak_created_by k = u \<and> ak_hash k = hash salt token \<and> k \<in> set (kv_rows s1)
    \<and> (\<forall>k' \<in> set (kv_rows s). ak_organization k' = g \<longrightarrow> ak_description k' \<noteq> ak_description k)"
proof -
  obtain z1 z2 s3 cs a where c: "k = \<lparr>ak_id = rid, ak_hash = hash salt token, ak_description = kr_description q,
        ak_roles = requested_roles q, ak_valid_until = ak_valid_until k, ak_organization = g, ak_created_by = u, ak_created_at = kv_now s\<rparr>"
      "getCapabilities (kv_authz s) u roles (Some g) None = (Some cs, z1)" "ApiKeyCreate \<in> set cs"
      "isGlobalAdminUser z1 u roles = (Some a, z2)" "validateRequestedRoles (requested_roles q) roles a = None"
      "insert_key k (s\<lparr>kv_authz := z2\<rparr>) = (None, s3)" "s1 = cacheKey k s3"
    using create_succeeded [OF assms] by blast
  have f: "ak_roles k = requested_roles q" "ak_organization k = g" "ak_created_by k = u" "ak_hash k = hash salt token"
    using c(1) by (metis api_key.select_convs)+
  have "set (ak_roles k) \<subseteq> set roles \<or> a"
    using c(5) by (auto simp: f validateRequestedRoles_def filter_empty_conv split: if_splits)
  moreover have "k \<in> set (kv_rows s1)"
    "\<forall>k' \<in> set (kv_rows s). ak_organization k' = g \<longrightarrow> ak_description k' \<noteq> ak_description k"
    using insert_key_cases(1) [OF c(6)] c(7) f(2) by (auto simp: cacheKey_def image_iff)
  ultimately show ?thesis using c(2-4) f by auto
qed

section \<open>One key, from its creation on\<close>

text \<open>A bcrypt that is the identity satisfies the law, and lets the examples compute.\<close>

definition plain_hash :: "nat \<Rightarrow> string \<Rightarrow> string" where
  "plain_hash r t = t"

definition plain_matches :: "string \<Rightarrow> string \<Rightarrow> bool" where
  "plain_matches t h = (t = h)"

definition office :: key_service where
  "office = \<lparr>kv_rows = [], kv_keys = Map.empty, kv_results = Map.empty, kv_enabled = True, kv_now = 1700000000000, kv_used = [],
     kv_authz = acme\<rparr>"

definition ci_request :: key_request where
  "ci_request = \<lparr>kr_description = ''CI key'', kr_ttl = ''30d'', kr_roles = None\<rparr>"

definition ci_token :: string where
  "ci_token = make_token ''CI key'' sample_uuid"

definition ci_key :: api_key where
  "ci_key = \<lparr>ak_id = ''k9'', ak_hash = ci_token, ak_description = ''CI key'', ak_roles = [], ak_valid_until = Some 1702592000000,
     ak_organization = ''o1'', ak_created_by = ''ann'', ak_created_at = 1700000000000\<rparr>"

definition office1 :: key_service where
  "office1 = run_key_op plain_hash plain_matches (CreateKeyFor 7 ''k9'' sample_uuid ci_request ''ann'' [] ''o1'') office"

lemma ci_created: "fst (createApiKey plain_hash 7 ''k9'' sample_uuid ci_request ''ann'' [] ''o1'' office) = Inr (ci_key, ci_token)"
  by code_simp

lemma ci_created_pair: "createApiKey plain_hash 7 ''k9'' sample_uuid ci_request ''ann'' [] ''o1'' office = (Inr (ci_key, ci_token), office1)"
  using ci_created by (simp add: office1_def prod_eq_iff)

lemma office1_reachable: "key_reachable plain_hash plain_matches [] office1"
proof -
  have "key_reachable plain_hash plain_matches [] office" by (rule key_reachable.start) (simp_all add: office_def)
  from key_reachable.op [OF this, of "CreateKeyFor 7 ''k9'' sample_uuid ci_request ''ann'' [] ''o1''"]
  show ?thesis by (simp add: office1_def office_def)
qed

lemma ci_accepted: "fst (validateApiKey plain_matches ci_token office1) = Some ci_key"
  by code_simp


theorem key_table_invariant_witness: "distinct (map ak_id (kv_rows office1))"
  using key_table_invariant [OF office1_reachable] by blast

theorem created_key_accepted_witness: "\<exists>k' s2. validateApiKey plain_matches ci_token office1 = (Some k', s2) \<and> k' = ci_key"
proof -
  have "CHR ''#'' \<notin> set (kr_description ci_request)" "CHR 0x5C \<notin> set (kr_description ci_request)"
    "\<not> hasInvalidChars (kr_description ci_request)" "length sample_uuid = 36"
    "getCachedValidationResult office1 ci_token \<noteq> Some False" "\<not> isExpired office1 ci_key" "database_up office1" "kv_enabled office1"
    by code_simp+
  from created_key_accepted [OF ci_created_pair, of plain_matches] this show ?thesis by (auto simp: plain_hash_def plain_matches_def)
qed

theorem created_key_bounded_witness: "set (ak_roles ci_key) \<subseteq> set [] \<or> fst (isGlobalAdminUser (snd (getCapabilities acme ''ann'' [] (Some ''o1'') None)) ''ann'' []) = Some True"
  using created_key_bounded [OF ci_created_pair] by (simp add: office_def)

section \<open>Where the service goes wrong\<close>

text \<open>
  The entry for the outcome of a token stands under the first sixteen characters of base64 of the token, that is under its first
  twelve characters, which encode the first nine bytes of the description. A token that fails locks out every token with the same
  beginning, without authentication, until the entry expires.
\<close>

lemma same_validation_key: "take 12 t = take 12 t' \<Longrightarrow> buildValidationKey t = buildValidationKey t'"
  using to_base64_prefix by (metis buildValidationKey_def)

lemma negative_cache_locks_out:
  assumes "kv_enabled s" "lookup_token matches bad s = NoKey" "take 12 good = take 12 bad"
  shows "fst (validateApiKey matches good (snd (validateApiKey matches bad s))) = None"
proof -
  have "snd (validateApiKey matches bad s) = cacheValidationResult bad False s"
    using assms(2) by (simp add: validateApiKey_def store_result_def)
  moreover have "getCachedValidationResult (cacheValidationResult bad False s) good = Some False"
    using assms(1) same_validation_key [OF assms(3)] by (simp add: getCachedValidationResult_def cacheValidationResult_def)
  ultimately show ?thesis by (simp add: validateApiKey_def lookup_token_def store_result_def)
qed

definition garbage_token :: string where
  "garbage_token = take 12 ci_token @ ''AAAAAAAAAAAA''"

lemma ci_key_locked_out:
  "fst (validateApiKey plain_matches ci_token (snd (validateApiKey plain_matches garbage_token office1))) = None"
  by code_simp

text \<open>
  bcrypt reads the first 72 bytes of its input. With a description of 54 characters or more these are the description alone: any
  UUID makes a token that is accepted.
\<close>

lemma make_token_prefix:
  assumes "54 \<le> length d"
  shows "take 72 (make_token d uuid) = take 72 (make_token d uuid')"
proof -
  have "take 72 (make_token d x) = take 72 (b64_encode (take 54 (map code d)))" for x
    using encode_prefix [of 18 "map code (d @ ''#'' @ x)"] assms by (simp add: make_token_def to_base64_def)
  then show ?thesis by simp
qed

lemma long_description_forgeable:
  assumes "54 \<le> length d" "\<And>t h. matches t h = matches (take 72 t) h" "matches (make_token d uuid) h"
  shows "matches (make_token d forged) h"
  using assms make_token_prefix [OF assms(1), of uuid forged] by metis

text \<open>
  A description is only required not to be empty. One that is shorter than three characters or holds a control character makes a
  token that is never accepted; with a hash sign the description read back is another one.
\<close>

lemma short_description_unusable:
  assumes "CHR ''#'' \<notin> set d" "hasInvalidChars d"
  shows "fst (validateApiKey matches (make_token d uuid) s) = None"
  using assms make_token_description [OF assms(1)] by (simp add: validateApiKey_def lookup_token_def store_result_def)

lemma hash_sign_cuts: "token_description (make_token (d @ ''#'' @ x) uuid) = takeWhile (\<lambda>c. c \<noteq> CHR ''#'') (d @ ''#'' @ x)"
proof -
  have "takeWhile (\<lambda>c. c \<noteq> CHR ''#'') (d @ CHR ''#'' # x @ y) = takeWhile (\<lambda>c. c \<noteq> CHR ''#'') (d @ CHR ''#'' # x)" for y
    by (induction d) auto
  then show ?thesis by (simp add: token_description_def)
qed

text \<open>The description goes into the pattern of \<open>ILIKE\<close> unescaped: with a backslash a row does not find itself.\<close>

lemma backslash_not_found: "\<not> ilike (''%'' @ [CHR ''a'', CHR 0x5C, CHR ''b'', CHR ''c''] @ ''%'') [CHR ''a'', CHR 0x5C, CHR ''b'', CHR ''c'']"
  by code_simp

text \<open>
  The comment of \<open>deleteApiKey\<close> counts on a second invalidation after the commit. A validation that has read the row before and
  writes the cache after that invalidation (bcrypt runs in between) still leaves a deleted key working.
\<close>

lemma late_cache_write_survives_delete:
  "let s = office1\<lparr>kv_keys := Map.empty\<rparr>; f = lookup_token plain_matches ci_token s;
       deleted = snd (deleteApiKey ''k9'' ''ann'' [] s); late = snd (store_result ci_token f deleted) in
   kv_rows deleted = [] \<and> fst (validateApiKey plain_matches ci_token late) = Some ci_key"
  by code_simp

text \<open>A key revoked with the membership of its creator is accepted from the cache until the entry expires, as the code notes.\<close>

lemma revoked_key_still_accepted:
  "let s = revoke_with_member ''o1'' ''ann'' office1 in
   kv_rows s = [] \<and> fst (validateApiKey plain_matches ci_token s) = Some ci_key"
  by code_simp

text \<open>A month added to the last of January is a day of March: \<open>setMonth\<close> rolls over.\<close>

lemma month_rolls_over: "civil_of_days (add_months 1 (days_of_civil 2023 1 31 * day_ms) div day_ms) = (2023, 3, 3)"
  by code_simp
end
