(* ===== verification/AuthGuards.thy ===== *)
theory AuthGuards
  imports ApiKeys
begin

text \<open>
  The two guards every HTTP request passes before its handler (\<open>apps/api/src/app.module.ts\<close>):
  \<open>guards/keycloak-enhanced-auth.guard.ts\<close>, which authenticates, and \<open>guards/roles.guard.ts\<close>; and the user context the handler
  gets (\<open>common/decorators/user-context.decorator.ts\<close>). The verification of a Keycloak token is a parameter.
\<close>

record keycloak_user =
  kc_sub :: string
  kc_username :: "string option"
  kc_roles :: "string list option"
  kc_organizations :: "string list option"
  kc_teams :: "string list option"

datatype principal = KeyPrincipal api_key | JwtPrincipal keycloak_user

text \<open>The metadata the decorators put on a route; the flag of the roles is the mode \<open>ALL\<close>.\<close>

record route =
  rt_public :: bool
  rt_admin_only :: bool
  rt_roles :: "(string list \<times> bool) option"

datatype guard_error = Unauthorized | ForbiddenRoute

definition extractTokenFromHeader :: "string \<Rightarrow> string option" where
  "extractTokenFromHeader h =
     (case split_on (CHR '' '') h of
        ty # t # _ \<Rightarrow> if ty = ''Bearer'' \<and> t \<noteq> [] then Some t else None
      | _ \<Rightarrow> None)"

definition getRoles :: "principal option \<Rightarrow> string list" where
  "getRoles p = (case p of
      None \<Rightarrow> []
    | Some (KeyPrincipal k) \<Rightarrow> ak_roles k
    | Some (JwtPrincipal u) \<Rightarrow> (case kc_roles u of None \<Rightarrow> [] | Some rs \<Rightarrow> rs))"

definition getUserId :: "principal option \<Rightarrow> string option" where
  "getUserId p = (case p of
      None \<Rightarrow> None
    | Some (KeyPrincipal k) \<Rightarrow> Some (key_user (ak_id k))
    | Some (JwtPrincipal u) \<Rightarrow> if kc_sub u \<noteq> [] then Some (kc_sub u) else kc_username u)"

definition isAdmin :: "principal option \<Rightarrow> bool" where
  "isAdmin p = (''perfana-admin'' \<in> set (getRoles p) \<or> ''admin'' \<in> set (getRoles p))"

definition tryAuthentication ::
  "(string \<Rightarrow> keycloak_user option) \<Rightarrow> (string \<Rightarrow> string \<Rightarrow> bool) \<Rightarrow> string \<Rightarrow> key_service \<Rightarrow> principal option \<times> key_service" where
  "tryAuthentication jwt matches t s =
     (let (k, s1) = validateApiKey matches t s in
      case k of Some key \<Rightarrow> (Some (KeyPrincipal key), s1) | None \<Rightarrow> (map_option JwtPrincipal (jwt t), s1))"

definition authGuard ::
  "(string \<Rightarrow> keycloak_user option) \<Rightarrow> (string \<Rightarrow> string \<Rightarrow> bool) \<Rightarrow> route \<Rightarrow> string option \<Rightarrow> key_service
     \<Rightarrow> (guard_error + principal option) \<times> key_service" where
  "authGuard jwt matches r header s =
     (if rt_public r then (Inr None, s)
      else case header of
        None \<Rightarrow> (Inl Unauthorized, s)
      | Some h \<Rightarrow>
          (case extractTokenFromHeader h of
             None \<Rightarrow> (Inl Unauthorized, s)
           | Some t \<Rightarrow>
               let (p, s1) = tryAuthentication jwt matches t s in
               if p = None then (Inl Unauthorized, s1)
               else if rt_admin_only r \<and> \<not> isAdmin p then (Inl ForbiddenRoute, s1)
               else (Inr p, s1)))"

definition checkRoles :: "string list \<Rightarrow> string list \<Rightarrow> bool \<Rightarrow> bool" where
  "checkRoles userRoles required all =
     (if all then list_all (\<lambda>r. r \<in> set userRoles) required else list_ex (\<lambda>r. r \<in> set userRoles) required)"

definition rolesGuard :: "route \<Rightarrow> principal option \<Rightarrow> bool" where
  "rolesGuard r p =
     (rt_public r \<or> (case rt_roles r of
        None \<Rightarrow> True
      | Some (required, all) \<Rightarrow> required = [] \<or> checkRoles (getRoles p) required all))"

text \<open>The guards run in the order of their registration.\<close>

definition admit ::
  "(string \<Rightarrow> keycloak_user option) \<Rightarrow> (string \<Rightarrow> string \<Rightarrow> bool) \<Rightarrow> route \<Rightarrow> string option \<Rightarrow> key_service
     \<Rightarrow> (guard_error + principal option) \<times> key_service" where
  "admit jwt matches r header s =
     (let (res, s1) = authGuard jwt matches r header s in
      case res of
        Inl e \<Rightarrow> (Inl e, s1)
      | Inr p \<Rightarrow> if rolesGuard r p then (Inr p, s1) else (Inl ForbiddenRoute, s1))"

record user_context =
  uc_user :: string
  uc_roles :: "string list"
  uc_organizations :: "string list"
  uc_teams :: "string list"
  uc_organization :: "string option"
  uc_team :: "string option"

definition first_of :: "'a list \<Rightarrow> 'a option" where
  "first_of xs = (case xs of [] \<Rightarrow> None | x # _ \<Rightarrow> Some x)"

definition UserCtx :: "principal option \<Rightarrow> user_context" where
  "UserCtx p =
     (let (orgs, teams) = (case p of
          Some (KeyPrincipal k) \<Rightarrow> if ak_organization k \<noteq> [] then ([ak_organization k], []) else ([], [])
        | Some (JwtPrincipal u) \<Rightarrow>
            (case kc_organizations u of
               None \<Rightarrow> ([], [])
             | Some gs \<Rightarrow> if gs = [] then ([], []) else (gs, case kc_teams u of None \<Rightarrow> [] | Some ts \<Rightarrow> ts))
        | None \<Rightarrow> ([], [])) in
      \<lparr>uc_user = (case getUserId p of None \<Rightarrow> [] | Some u \<Rightarrow> u), uc_roles = getRoles p, uc_organizations = orgs, uc_teams = teams,
        uc_organization = first_of orgs, uc_team = first_of teams\<rparr>)"

text \<open>What a principal proves: its token is a valid key's or Keycloak's.\<close>

definition authentic ::
  "(string \<Rightarrow> keycloak_user option) \<Rightarrow> (string \<Rightarrow> string \<Rightarrow> bool) \<Rightarrow> api_key list \<Rightarrow> key_service \<Rightarrow> string \<Rightarrow> principal \<Rightarrow> bool" where
  "authentic jwt matches revoked s t p = (case p of
      KeyPrincipal k \<Rightarrow> matches t (ak_hash k) \<and> \<not> isExpired s k \<and> k \<in> set (kv_rows s) \<union> set revoked
    | JwtPrincipal u \<Rightarrow> jwt t = Some u)"

lemma isAdmin_global: "isAdmin p \<longleftrightarrow> hasGlobalAdminRole (Some (getRoles p))"
  by (auto simp: isAdmin_def hasGlobalAdminRole_def isGlobalAdminRole_def GLOBAL_ADMIN_ROLES_def list_ex_iff)

lemma rolesGuard_required:
  assumes "rolesGuard r p" "\<not> rt_public r" "rt_roles r = Some (required, all)" "required \<noteq> []"
  shows "if all then set required \<subseteq> set (getRoles p) else set required \<inter> set (getRoles p) \<noteq> {}"
  using assms by (auto simp: rolesGuard_def checkRoles_def list_all_iff list_ex_iff)

lemma accepted_authentic:
  assumes "key_reachable hash matches R s" "validateApiKey matches t s = (Some k, s')"
  shows "authentic jwt matches R s t (KeyPrincipal k)"
proof -
  have inv: "cached_ok R s" using key_reachable_inv [OF assms(1)] by (simp add: key_inv_def)
  consider "lookup_token matches t s = FromCache k" | "lookup_token matches t s = FromTable k"
    using assms(2) by (auto simp: validateApiKey_def store_result_def split: found.splits)
  then show ?thesis
  proof cases
    case 1
    from lookup_from_cache [OF this] inv show ?thesis
      by (auto simp: authentic_def cached_ok_def getCachedKey_def split: if_splits)
  next
    case 2
    from lookup_from_table [OF this] show ?thesis by (simp add: authentic_def)
  qed
qed


definition reader_route :: route where
  "reader_route = \<lparr>rt_public = False, rt_admin_only = False, rt_roles = None\<rparr>"


end
