(* ===== verification/Rollup.thy ===== *)
theory Rollup
  imports Apdex "HOL-Library.Char_ord" "HOL-Library.List_Lexorder"
begin

text \<open>
  The rollup of a finished run (\<open>pipelines/TransactionStatsRollupPipeline.ts\<close>): one pass over the raw
  rows of a run writes a row per group of transactions, of samplers and of parallel passes, for the
  whole run and for its measured part, and the tables are what Apdex and the aggregated SLOs read.

  A statement of the transaction is a function of the tables. \<open>digest\<close> is the aggregate \<open>tdigest\<close> of
  the database toolkit, null for no values; the sketches' type is a parameter. A grouping keeps the
  order of first appearance. Numbers are exact; strings compare by their codes. A violated constraint
  aborts the statement, and with it the transaction. \<open>set_config\<close>, the counts for the log and the
  retry of lost connections are left out; a statement that fails for a reason of its own is a flag.
\<close>

section \<open>Rows\<close>

record rollup_run = test_run +
  ru_completed :: bool
  ru_ramp_down :: "rat option"

record controller =
  co_class :: "string option"
  co_name :: "string option"
  co_execution :: "string option"

record request_row =
  rq_test_run_id :: string
  rq_time :: int
  rq_transaction_name :: "string option"
  rq_sampler_name :: string
  rq_scenario :: "string option"
  rq_system_under_test :: "string option"
  rq_test_environment :: "string option"
  rq_success :: bool
  rq_response_time :: "rat option"
  rq_latency :: "rat option"
  rq_connect_time :: "rat option"
  rq_request_size :: "int option"
  rq_response_size :: "int option"
  rq_url_hash :: "string option"
  rq_parent_controllers :: "controller list option"

record 'k tx_stats = "'k stats_row" +
  xs_failed :: int
  xs_impact :: rat
  xs_system_under_test_id :: string
  xs_test_environment :: string
  xs_workload :: string

record 'k sampler_stats =
  ss_test_run_id :: string
  ss_transaction_name :: string
  ss_sampler_name :: string
  ss_scenario :: string
  ss_ramp_up_excluded :: bool
  ss_url_hash :: "string option"
  ss_system_under_test :: string
  ss_test_environment :: string
  ss_total :: int
  ss_passed :: int
  ss_failed :: int
  ss_avg :: "rat option"
  ss_min :: "rat option"
  ss_max :: "rat option"
  ss_latency :: "rat option"
  ss_connect :: "rat option"
  ss_request_size :: "int option"
  ss_response_size :: "int option"
  ss_pct_agg :: 'k
  ss_pct_agg_passed :: "'k option"

record 'k group_stats =
  gs_test_run_id :: string
  gs_transaction_name :: string
  gs_parallel_group :: string
  gs_scenario :: string
  gs_ramp_up_excluded :: bool
  gs_system_under_test :: "string option"
  gs_test_environment :: "string option"
  gs_executions :: int
  gs_passed :: int
  gs_failed :: int
  gs_requests :: int
  gs_avg :: "rat option"
  gs_min :: "int option"
  gs_max :: "int option"
  gs_pct_agg :: 'k

record 'k rollup_db =
  ro_runs :: "rollup_run list"
  ro_transactions :: "tx_row list"
  ro_requests :: "request_row list"
  ro_tx_stats :: "'k tx_stats list"
  ro_sampler_stats :: "'k sampler_stats list"
  ro_group_stats :: "'k group_stats list"

section \<open>Aggregates\<close>

definition round_away :: "rat \<Rightarrow> int" where
  "round_away q = (if 0 \<le> q then \<lfloor>q + 1 / 2\<rfloor> else \<lceil>q - 1 / 2\<rceil>)"

definition numeric_round2 :: "rat \<Rightarrow> rat" where
  "numeric_round2 q = of_int (round_away (q * 100)) / 100"

definition sql_avg :: "rat list \<Rightarrow> rat option" where
  "sql_avg xs = (if xs = [] then None else Some (sum_list xs / of_int (int (length xs))))"

definition sql_sum :: "int list \<Rightarrow> int option" where
  "sql_sum xs = (if xs = [] then None else Some (sum_list xs))"

definition sql_min :: "'a::linorder list \<Rightarrow> 'a option" where
  "sql_min xs = (if xs = [] then None else Some (Min (set xs)))"

definition sql_max :: "'a::linorder list \<Rightarrow> 'a option" where
  "sql_max xs = (if xs = [] then None else Some (Max (set xs)))"

definition group_rows :: "('a \<Rightarrow> 'b) \<Rightarrow> 'a list \<Rightarrow> ('b \<times> 'a list) list" where
  "group_rows key rows = map (\<lambda>k. (k, filter (\<lambda>r. key r = k) rows)) (remdups (map key rows))"

text \<open>\<open>last(url_hash, time)\<close> over the rows that have one.\<close>

definition last_url_hash :: "request_row list \<Rightarrow> string option" where
  "last_url_hash rows =
     map_option snd (foldl (\<lambda>best r. case rq_url_hash r of None \<Rightarrow> best
              | Some h \<Rightarrow> (case best of None \<Rightarrow> Some (rq_time r, h)
                  | Some (t, _) \<Rightarrow> if t \<le> rq_time r then Some (rq_time r, h) else best)) None rows)"

section \<open>Windows\<close>

text \<open>The measured part of the run, and the window that bounds the reads.\<close>

record rollup_window =
  rw_start :: int
  rw_end :: int
  rw_from :: int
  rw_to :: int

definition zero_if_null :: "rat option \<Rightarrow> rat" where
  "zero_if_null x = (case x of None \<Rightarrow> 0 | Some q \<Rightarrow> q)"

definition rollup_window_of :: "rollup_run \<Rightarrow> int \<Rightarrow> int \<Rightarrow> rollup_window" where
  "rollup_window_of run s e =
     \<lparr>rw_start = js_trunc (of_int s + zero_if_null (tr_ramp_up run) * 1000),
      rw_end = js_trunc (of_int e - zero_if_null (ru_ramp_down run) * 1000),
      rw_from = s - RUN_WINDOW_PAD_MS, rw_to = e + RUN_WINDOW_PAD_MS\<rparr>"

definition measured :: "rollup_window \<Rightarrow> int \<Rightarrow> bool" where
  "measured w t = (rw_start w \<le> t \<and> t < rw_end w)"

definition in_window :: "rollup_window \<Rightarrow> int \<Rightarrow> bool" where
  "in_window w t = (rw_from w \<le> t \<and> t \<le> rw_to w)"

section \<open>Statements\<close>

datatype rollup_error = NotNullViolation | CardinalityViolation

definition not_null :: "'a option list \<Rightarrow> rollup_error + 'a list" where
  "not_null rows = (if None \<in> set rows then Inl NotNullViolation else Inr (map the rows))"

text \<open>
  The two rows of every group: all its rows, and those that are \<open>kept\<close> in the measured part when
  there are any.
\<close>

definition two_variants ::
  "('a \<Rightarrow> bool) \<Rightarrow> (bool \<Rightarrow> 'b \<Rightarrow> 'a list \<Rightarrow> 'r option) \<Rightarrow> ('b \<times> 'a list) list \<Rightarrow> rollup_error + 'r list" where
  "two_variants kept row base =
     not_null (map (\<lambda>(k, rows). row False k rows) base
       @ map (\<lambda>(k, rows). row True k (filter kept rows)) (filter (\<lambda>(k, rows). filter kept rows \<noteq> []) base))"

text \<open>\<open>INSERT ... ON CONFLICT DO UPDATE\<close>: a statement may not write a key twice.\<close>

definition insert_rows :: "('r \<Rightarrow> 'key) \<Rightarrow> 'r list \<Rightarrow> 'r list \<Rightarrow> rollup_error + 'r list" where
  "insert_rows key new table =
     (if distinct (map key new) then Inr (filter (\<lambda>r. key r \<notin> key ` set new) table @ new)
      else Inl CardinalityViolation)"

definition tx_stats_row ::
  "(rat list \<Rightarrow> 'k option) \<Rightarrow> rollup_run \<Rightarrow> bool \<Rightarrow> string option \<times> string \<Rightarrow> tx_row list \<Rightarrow> 'k tx_stats option" where
  "tx_stats_row digest run excluded k rows =
     (let times = List.map_filter tx_response_time rows; passed = filter tx_success rows
      in case (digest times, sql_avg times) of
           (Some d, Some a) \<Rightarrow> Some
             \<lparr>ts_test_run_id = tr_test_run_id run, ts_ramp_up_excluded = excluded, ts_name = fst k,
              ts_scenario = snd k, ts_total = int (length rows), ts_passed = int (length passed),
              ts_avg = numeric_round2 a, ts_pct_agg = d,
              ts_pct_agg_passed = digest (List.map_filter tx_response_time passed),
              xs_failed = int (length (filter (\<lambda>r. \<not> tx_success r) rows)),
              xs_impact = numeric_round2 (a * of_int (int (length rows))),
              xs_system_under_test_id = tr_system_under_test_id run,
              xs_test_environment = tr_test_environment run, xs_workload = tr_workload run\<rparr>
         | _ \<Rightarrow> None)"

definition tx_key :: "'k tx_stats \<Rightarrow> string \<times> string option \<times> string \<times> bool" where
  "tx_key s = (ts_test_run_id s, ts_name s, ts_scenario s, ts_ramp_up_excluded s)"

definition empty_if_null :: "string option \<Rightarrow> string" where
  "empty_if_null x = (case x of None \<Rightarrow> [] | Some s \<Rightarrow> s)"

definition TRANSACTION_ROLLUP_SQL ::
  "(rat list \<Rightarrow> 'k option) \<Rightarrow> rollup_run \<Rightarrow> rollup_window \<Rightarrow> tx_row list \<Rightarrow> 'k tx_stats list
     \<Rightarrow> rollup_error + 'k tx_stats list" where
  "TRANSACTION_ROLLUP_SQL digest run w transactions table =
     (let base = group_rows (\<lambda>r. (tx_name r, empty_if_null (tx_scenario r)))
            (filter (\<lambda>r. tx_test_run_id r = tr_test_run_id run \<and> in_window w (tx_time r)) transactions)
      in case two_variants (\<lambda>r. measured w (tx_time r)) (tx_stats_row digest run) base of
           Inl err \<Rightarrow> Inl err
         | Inr new \<Rightarrow> insert_rows tx_key new table)"

text \<open>The groups of samplers carry the names of the system and environment in their key.\<close>

type_synonym sampler_group = "string \<times> string \<times> string \<times> string option \<times> string option"

definition sampler_group :: "request_row \<Rightarrow> sampler_group" where
  "sampler_group r = (empty_if_null (rq_transaction_name r), rq_sampler_name r, empty_if_null (rq_scenario r),
     rq_system_under_test r, rq_test_environment r)"

definition sampler_stats_row ::
  "(rat list \<Rightarrow> 'k option) \<Rightarrow> rollup_run \<Rightarrow> bool \<Rightarrow> sampler_group \<Rightarrow> request_row list \<Rightarrow> 'k sampler_stats option" where
  "sampler_stats_row digest run excluded k rows =
     (let (name, sampler, scenario, sut, env) = k;
          times = List.map_filter rq_response_time rows; passed = filter rq_success rows
      in case (digest times, sut, env) of
           (Some d, Some system, Some environment) \<Rightarrow> Some
             \<lparr>ss_test_run_id = tr_test_run_id run, ss_transaction_name = name, ss_sampler_name = sampler,
              ss_scenario = scenario, ss_ramp_up_excluded = excluded, ss_url_hash = last_url_hash rows,
              ss_system_under_test = system, ss_test_environment = environment,
              ss_total = int (length rows), ss_passed = int (length passed),
              ss_failed = int (length (filter (\<lambda>r. \<not> rq_success r) rows)),
              ss_avg = map_option numeric_round2 (sql_avg times), ss_min = sql_min times, ss_max = sql_max times,
              ss_latency = map_option numeric_round2 (sql_avg (List.map_filter rq_latency rows)),
              ss_connect = map_option numeric_round2 (sql_avg (List.map_filter rq_connect_time rows)),
              ss_request_size = sql_sum (List.map_filter rq_request_size rows),
              ss_response_size = sql_sum (List.map_filter rq_response_size rows),
              ss_pct_agg = d, ss_pct_agg_passed = digest (List.map_filter rq_response_time passed)\<rparr>
         | _ \<Rightarrow> None)"

definition sampler_key :: "'k sampler_stats \<Rightarrow> string \<times> string \<times> string \<times> string \<times> bool" where
  "sampler_key s = (ss_test_run_id s, ss_transaction_name s, ss_sampler_name s, ss_scenario s,
     ss_ramp_up_excluded s)"

definition SAMPLER_ROLLUP_BASE_SQL ::
  "rollup_run \<Rightarrow> rollup_window \<Rightarrow> request_row list \<Rightarrow> (sampler_group \<times> request_row list) list" where
  "SAMPLER_ROLLUP_BASE_SQL run w requests =
     group_rows sampler_group (filter (\<lambda>r. rq_test_run_id r = tr_test_run_id run
       \<and> in_window w (rq_time r) \<and> rq_transaction_name r \<noteq> None) requests)"

definition SAMPLER_ROLLUP_INSERT_SQL ::
  "(rat list \<Rightarrow> 'k option) \<Rightarrow> rollup_run \<Rightarrow> rollup_window \<Rightarrow> (sampler_group \<times> request_row list) list
     \<Rightarrow> 'k sampler_stats list \<Rightarrow> rollup_error + 'k sampler_stats list" where
  "SAMPLER_ROLLUP_INSERT_SQL digest run w base table =
     (case two_variants (\<lambda>r. measured w (rq_time r)) (sampler_stats_row digest run) base of
        Inl err \<Rightarrow> Inl err
      | Inr new \<Rightarrow> insert_rows sampler_key new table)"

text \<open>A concurrent pass: the requests that share an execution of a parallel controller.\<close>

definition PARALLEL_CONTROLLER :: string where
  "PARALLEL_CONTROLLER = ''org.apache.jmeter.control.ParallelController''"

definition parallel_of :: "request_row \<Rightarrow> controller option" where
  "parallel_of r =
     (case rq_parent_controllers r of None \<Rightarrow> None
      | Some cs \<Rightarrow> (let ps = filter (\<lambda>c. co_class c = Some PARALLEL_CONTROLLER) cs
                   in if ps = [] then None else Some (last ps)))"

record pass =
  ps_transaction_name :: string
  ps_group :: string
  ps_scenario :: string
  ps_system_under_test :: "string option"
  ps_test_environment :: "string option"
  ps_requests :: int
  ps_passed :: bool
  ps_started :: "rat option"
  ps_elapsed :: "rat option"

definition pass_of :: "request_row list \<Rightarrow> pass" where
  "pass_of rows =
     (let own = filter (\<lambda>r. rq_transaction_name r \<noteq> Some (rq_sampler_name r)) (sort_key rq_time rows);
          started = sql_min (List.map_filter (\<lambda>r. map_option (\<lambda>rt. of_int (rq_time r) - rt) (rq_response_time r)) rows);
          names = List.map_filter rq_transaction_name rows
      in \<lparr>ps_transaction_name = empty_if_null (if own = [] then sql_min names else rq_transaction_name (hd own)),
          ps_group = empty_if_null (sql_min (List.map_filter (\<lambda>r. Option.bind (parallel_of r) co_name) rows)),
          ps_scenario = empty_if_null (sql_min (List.map_filter rq_scenario rows)),
          ps_system_under_test = sql_min (List.map_filter rq_system_under_test rows),
          ps_test_environment = sql_min (List.map_filter rq_test_environment rows),
          ps_requests = int (length rows), ps_passed = list_all rq_success rows,
          ps_started = started,
          ps_elapsed = map_option (\<lambda>s. of_int (Max (set (map rq_time rows))) - s) started\<rparr>)"

type_synonym pass_group = "string \<times> string \<times> string \<times> string option \<times> string option"

definition pass_group :: "pass \<Rightarrow> pass_group" where
  "pass_group p = (ps_transaction_name p, ps_group p, ps_scenario p, ps_system_under_test p, ps_test_environment p)"

definition group_stats_row ::
  "(rat list \<Rightarrow> 'k option) \<Rightarrow> rollup_run \<Rightarrow> bool \<Rightarrow> pass_group \<Rightarrow> pass list \<Rightarrow> 'k group_stats option" where
  "group_stats_row digest run excluded k rows =
     (let (name, parallel, scenario, sut, env) = k; elapsed = List.map_filter ps_elapsed rows
      in case digest elapsed of
           None \<Rightarrow> None
         | Some d \<Rightarrow> Some
             \<lparr>gs_test_run_id = tr_test_run_id run, gs_transaction_name = name, gs_parallel_group = parallel,
              gs_scenario = scenario, gs_ramp_up_excluded = excluded, gs_system_under_test = sut,
              gs_test_environment = env, gs_executions = int (length rows),
              gs_passed = int (length (filter ps_passed rows)),
              gs_failed = int (length (filter (\<lambda>p. \<not> ps_passed p) rows)),
              gs_requests = sum_list (map ps_requests rows),
              gs_avg = map_option numeric_round2 (sql_avg elapsed),
              gs_min = map_option round_away (sql_min elapsed), gs_max = map_option round_away (sql_max elapsed),
              gs_pct_agg = d\<rparr>)"

definition group_key :: "'k group_stats \<Rightarrow> string \<times> string \<times> string \<times> string \<times> bool" where
  "group_key s = (gs_test_run_id s, gs_transaction_name s, gs_parallel_group s, gs_scenario s,
     gs_ramp_up_excluded s)"

definition passes_of :: "rollup_run \<Rightarrow> rollup_window \<Rightarrow> request_row list \<Rightarrow> pass list" where
  "passes_of run w requests =
     (let tagged = filter (\<lambda>r. rq_test_run_id r = tr_test_run_id run \<and> in_window w (rq_time r)
            \<and> rq_transaction_name r \<noteq> None
            \<and> (case parallel_of r of None \<Rightarrow> False
               | Some c \<Rightarrow> truthy_str (co_name c) \<and> truthy_str (co_execution c))) requests
      in map (pass_of \<circ> snd) (group_rows (\<lambda>r. Option.bind (parallel_of r) co_execution) tagged))"

definition PARALLEL_GROUP_ROLLUP_SQL ::
  "(rat list \<Rightarrow> 'k option) \<Rightarrow> rollup_run \<Rightarrow> rollup_window \<Rightarrow> request_row list \<Rightarrow> 'k group_stats list
     \<Rightarrow> rollup_error + 'k group_stats list" where
  "PARALLEL_GROUP_ROLLUP_SQL digest run w requests table =
     (case two_variants (\<lambda>p. case ps_started p of None \<Rightarrow> False
                           | Some t \<Rightarrow> of_int (rw_start w) \<le> t \<and> t < of_int (rw_end w))
             (group_stats_row digest run) (group_rows pass_group (passes_of run w requests)) of
        Inl err \<Rightarrow> Inl err
      | Inr new \<Rightarrow> insert_rows group_key new table)"

section \<open>The pipeline\<close>

text \<open>The statements of the transaction, deletes first.\<close>

definition rollup_transaction ::
  "(rat list \<Rightarrow> 'k option) \<Rightarrow> rollup_run \<Rightarrow> rollup_window \<Rightarrow> 'k rollup_db \<Rightarrow> rollup_error + 'k rollup_db" where
  "rollup_transaction digest run w db =
     (let testRunId = tr_test_run_id run;
          tx0 = filter (\<lambda>s. ts_test_run_id s \<noteq> testRunId) (ro_tx_stats db);
          sampler0 = filter (\<lambda>s. ss_test_run_id s \<noteq> testRunId) (ro_sampler_stats db);
          group0 = filter (\<lambda>s. gs_test_run_id s \<noteq> testRunId) (ro_group_stats db)
      in case TRANSACTION_ROLLUP_SQL digest run w (ro_transactions db) tx0 of
           Inl err \<Rightarrow> Inl err
         | Inr tx \<Rightarrow>
             (case SAMPLER_ROLLUP_INSERT_SQL digest run w (SAMPLER_ROLLUP_BASE_SQL run w (ro_requests db)) sampler0 of
                Inl err \<Rightarrow> Inl err
              | Inr sampler \<Rightarrow>
                  (case PARALLEL_GROUP_ROLLUP_SQL digest run w (ro_requests db) group0 of
                     Inl err \<Rightarrow> Inl err
                   | Inr groups \<Rightarrow> Inr (db\<lparr>ro_tx_stats := tx, ro_sampler_stats := sampler,
                                         ro_group_stats := groups\<rparr>))))"

datatype rollup_result =
    RollupFailed string
  | RollupSkipped string
  | RolledUp nat nat nat rat

definition rollup_execute ::
  "(rat list \<Rightarrow> 'k option) \<Rightarrow> bool \<Rightarrow> string \<Rightarrow> 'k rollup_db \<Rightarrow> rollup_result \<times> 'k rollup_db" where
  "rollup_execute digest statements_ok testRunId db =
     (case filter (\<lambda>r. tr_test_run_id r = testRunId) (ro_runs db) of
        [] \<Rightarrow> (RollupFailed ''TEST_RUN_NOT_FOUND'', db)
      | run # _ \<Rightarrow>
          if \<not> ru_completed run then (RollupSkipped ''not-completed'', db)
          else (case tr_start_time run of None \<Rightarrow> (RollupSkipped ''no-start-time'', db)
            | Some s \<Rightarrow> (case tr_end_time run of None \<Rightarrow> (RollupSkipped ''no-end-time'', db)
              | Some e \<Rightarrow>
                  if \<not> statements_ok then (RollupFailed ''TRANSACTION_STATS_ROLLUP_FAILED'', db)
                  else (case rollup_transaction digest run (rollup_window_of run s e) db of
                          Inl _ \<Rightarrow> (RollupFailed ''TRANSACTION_STATS_ROLLUP_FAILED'', db)
                        | Inr db' \<Rightarrow>
                            (RolledUp (length (filter (\<lambda>x. ts_test_run_id x = testRunId) (ro_tx_stats db')))
                               (length (filter (\<lambda>x. ss_test_run_id x = testRunId) (ro_sampler_stats db')))
                               (length (filter (\<lambda>x. gs_test_run_id x = testRunId) (ro_group_stats db')))
                               (zero_if_null (tr_ramp_up run)), db')))))"


section \<open>Tables of a run\<close>

lemma not_null_Inr: "not_null rows = Inr xs \<longleftrightarrow> rows = map Some xs"
proof -
  have "None \<notin> set rows \<Longrightarrow> map (Some \<circ> the) rows = rows"
    by (induction rows) auto
  then show ?thesis by (auto simp: not_null_def comp_def)
qed

lemma two_variants_Inr:
  "two_variants kept row base = Inr xs \<Longrightarrow>
     map Some xs = map (\<lambda>(k, rows). row False k rows) base
       @ map (\<lambda>(k, rows). row True k (filter kept rows)) (filter (\<lambda>(k, rows). filter kept rows \<noteq> []) base)"
  by (simp add: two_variants_def not_null_Inr)

lemma two_variants_rows:
  assumes "two_variants kept row base = Inr xs" "s \<in> set xs"
  obtains excluded k rows where "row excluded k rows = Some s" "(k, rows) \<in> set base \<or> rows \<noteq> []"
proof -
  have "Some s \<in> set (map Some xs)" using assms(2) by simp
  then show ?thesis
    unfolding two_variants_Inr [OF assms(1)] by (auto intro: that)
qed

text \<open>
  A table whose key names the run its row belongs to, rewritten for one run: its rows are deleted,
  then the new ones are inserted.
\<close>

locale run_table =
  fixes key :: "'r \<Rightarrow> 'key" and owner :: "'r \<Rightarrow> string"
  assumes key_owner: "key r = key s \<Longrightarrow> owner r = owner s"
begin

lemma apart:
  assumes "\<forall>r \<in> set xs. owner r = x"
  shows "key ` set (filter (\<lambda>r. owner r \<noteq> x) table) \<inter> key ` set xs = {}"
proof -
  have "key r \<noteq> key s" if "r \<in> set (filter (\<lambda>r. owner r \<noteq> x) table)" "s \<in> set xs" for r s
    using that assms key_owner [of r s] by auto
  then show ?thesis by blast
qed

lemma appended:
  assumes "insert_rows key xs (filter (\<lambda>r. owner r \<noteq> x) table) = Inr t" "\<forall>r \<in> set xs. owner r = x"
  shows "t = filter (\<lambda>r. owner r \<noteq> x) table @ xs" and "distinct (map key xs)"
proof -
  have "\<forall>r \<in> set (filter (\<lambda>r. owner r \<noteq> x) table). key r \<notin> key ` set xs"
    using apart [OF assms(2), of table] by blast
  then have "filter (\<lambda>r. key r \<notin> key ` set xs) (filter (\<lambda>r. owner r \<noteq> x) table) = filter (\<lambda>r. owner r \<noteq> x) table"
    by (rule filter_True)
  then show "t = filter (\<lambda>r. owner r \<noteq> x) table @ xs" and "distinct (map key xs)"
    using assms(1) by (auto simp only: insert_rows_def sum.inject sum.distinct split: if_splits)
qed

lemma others_kept:
  assumes "insert_rows key xs (filter (\<lambda>r. owner r \<noteq> x) table) = Inr t" "\<forall>r \<in> set xs. owner r = x"
  shows "filter (\<lambda>r. owner r \<noteq> x) t = filter (\<lambda>r. owner r \<noteq> x) table"
    and "filter (\<lambda>r. owner r = x) t = xs"
  using assms(2) unfolding appended(1) [OF assms] by (simp_all add: filter_empty_conv)

lemma keys_distinct:
  assumes "insert_rows key xs (filter (\<lambda>r. owner r \<noteq> x) table) = Inr t" "\<forall>r \<in> set xs. owner r = x"
    and "distinct (map key table)"
  shows "distinct (map key t)"
  using apart [OF assms(2), of table] appended(2) [OF assms(1,2)] distinct_map_filter [OF assms(3)]
  unfolding appended(1) [OF assms(1,2)] by simp

lemma inserted_again:
  assumes "insert_rows key xs (filter (\<lambda>r. owner r \<noteq> x) table) = Inr t" "\<forall>r \<in> set xs. owner r = x"
  shows "insert_rows key xs (filter (\<lambda>r. owner r \<noteq> x) t) = Inr t"
  using assms(1) by (simp add: others_kept(1) [OF assms])

end

interpretation tx_table: run_table tx_key ts_test_run_id
  by unfold_locales (simp add: tx_key_def)

interpretation sampler_table: run_table sampler_key ss_test_run_id
  by unfold_locales (simp add: sampler_key_def)

interpretation group_table: run_table group_key gs_test_run_id
  by unfold_locales (simp add: group_key_def)

section \<open>The rows of a rollup\<close>

text \<open>What the three statements insert for a run.\<close>

definition tx_rows where
  "tx_rows digest run w transactions =
     two_variants (\<lambda>r. measured w (tx_time r)) (tx_stats_row digest run)
       (group_rows (\<lambda>r. (tx_name r, empty_if_null (tx_scenario r)))
         (filter (\<lambda>r. tx_test_run_id r = tr_test_run_id run \<and> in_window w (tx_time r)) transactions))"

definition sampler_rows where
  "sampler_rows digest run w requests =
     two_variants (\<lambda>r. measured w (rq_time r)) (sampler_stats_row digest run)
       (SAMPLER_ROLLUP_BASE_SQL run w requests)"

definition pass_rows where
  "pass_rows digest run w requests =
     two_variants (\<lambda>p. case ps_started p of None \<Rightarrow> False
                     | Some t \<Rightarrow> of_int (rw_start w) \<le> t \<and> t < of_int (rw_end w))
       (group_stats_row digest run) (group_rows pass_group (passes_of run w requests))"

text \<open>What every row of the three tables counts.\<close>

definition tx_counts :: "'k tx_stats \<Rightarrow> bool" where
  "tx_counts s \<longleftrightarrow> ts_total s = ts_passed s + xs_failed s \<and> 0 \<le> ts_passed s \<and> 0 \<le> xs_failed s \<and> 0 < ts_total s"

definition sampler_counts :: "'k sampler_stats \<Rightarrow> bool" where
  "sampler_counts s \<longleftrightarrow> ss_total s = ss_passed s + ss_failed s \<and> 0 \<le> ss_passed s \<and> 0 \<le> ss_failed s"

definition group_counts :: "'k group_stats \<Rightarrow> bool" where
  "group_counts s \<longleftrightarrow> gs_executions s = gs_passed s + gs_failed s \<and> 0 \<le> gs_passed s \<and> 0 \<le> gs_failed s"

lemma tx_stats_row_facts:
  assumes "tx_stats_row digest run excluded k rows = Some s" 
  shows "ts_test_run_id s = tr_test_run_id run" "ts_ramp_up_excluded s = excluded" "ts_name s = fst k"
    "ts_scenario s = snd k" "ts_total s = int (length rows)" "ts_passed s = int (length (filter tx_success rows))"
    "digest (List.map_filter tx_response_time rows) = Some (ts_pct_agg s)"
    "ts_pct_agg_passed s = digest (List.map_filter tx_response_time (filter tx_success rows))"
    "tx_counts s"
proof -
  obtain d a where "digest (List.map_filter tx_response_time rows) = Some d"
      "sql_avg (List.map_filter tx_response_time rows) = Some a"
    using assms by (auto simp: tx_stats_row_def Let_def split: option.splits)
  moreover from this(2) have "rows \<noteq> []" by (auto simp: sql_avg_def List.map_filter_def split: if_splits)
  ultimately show "ts_test_run_id s = tr_test_run_id run" "ts_ramp_up_excluded s = excluded" "ts_name s = fst k"
    "ts_scenario s = snd k" "ts_total s = int (length rows)" "ts_passed s = int (length (filter tx_success rows))"
    "digest (List.map_filter tx_response_time rows) = Some (ts_pct_agg s)"
    "ts_pct_agg_passed s = digest (List.map_filter tx_response_time (filter tx_success rows))"
    "tx_counts s"
    using assms sum_length_filter_compl [of tx_success rows]
    by (auto simp: tx_stats_row_def Let_def tx_counts_def)
qed

lemma sampler_stats_row_facts:
  assumes "sampler_stats_row digest run excluded k rows = Some s"
  shows "ss_test_run_id s = tr_test_run_id run" "sampler_counts s"
  using assms sum_length_filter_compl [of rq_success rows]
  by (auto simp: sampler_stats_row_def Let_def sampler_counts_def split: prod.splits option.splits)

lemma group_stats_row_facts:
  assumes "group_stats_row digest run excluded k rows = Some s"
  shows "gs_test_run_id s = tr_test_run_id run" "group_counts s"
  using assms sum_length_filter_compl [of ps_passed rows]
  by (auto simp: group_stats_row_def Let_def group_counts_def split: prod.splits option.splits)

lemma tx_rows_facts: "tx_rows digest run w ts = Inr xs \<Longrightarrow> s \<in> set xs \<Longrightarrow> ts_test_run_id s = tr_test_run_id run \<and> tx_counts s"
  unfolding tx_rows_def by (erule (1) two_variants_rows) (auto dest: tx_stats_row_facts)

lemma sampler_rows_facts:
  "sampler_rows digest run w ts = Inr xs \<Longrightarrow> s \<in> set xs \<Longrightarrow> ss_test_run_id s = tr_test_run_id run \<and> sampler_counts s"
  unfolding sampler_rows_def by (erule (1) two_variants_rows) (auto dest: sampler_stats_row_facts)

lemma pass_rows_facts:
  "pass_rows digest run w ts = Inr xs \<Longrightarrow> s \<in> set xs \<Longrightarrow> gs_test_run_id s = tr_test_run_id run \<and> group_counts s"
  unfolding pass_rows_def by (erule (1) two_variants_rows) (auto dest: group_stats_row_facts)

lemma rollup_transaction_rows:
  assumes "rollup_transaction digest run w db = Inr db'"
  obtains tx sa gr where
    "tx_rows digest run w (ro_transactions db) = Inr tx"
    "sampler_rows digest run w (ro_requests db) = Inr sa"
    "pass_rows digest run w (ro_requests db) = Inr gr"
    "insert_rows tx_key tx (filter (\<lambda>s. ts_test_run_id s \<noteq> tr_test_run_id run) (ro_tx_stats db)) = Inr (ro_tx_stats db')"
    "insert_rows sampler_key sa (filter (\<lambda>s. ss_test_run_id s \<noteq> tr_test_run_id run) (ro_sampler_stats db))
       = Inr (ro_sampler_stats db')"
    "insert_rows group_key gr (filter (\<lambda>s. gs_test_run_id s \<noteq> tr_test_run_id run) (ro_group_stats db))
       = Inr (ro_group_stats db')"
    "db' = db\<lparr>ro_tx_stats := ro_tx_stats db', ro_sampler_stats := ro_sampler_stats db',
              ro_group_stats := ro_group_stats db'\<rparr>"
  using assms
  unfolding rollup_transaction_def TRANSACTION_ROLLUP_SQL_def SAMPLER_ROLLUP_INSERT_SQL_def
    PARALLEL_GROUP_ROLLUP_SQL_def tx_rows_def [symmetric] sampler_rows_def [symmetric] pass_rows_def [symmetric] Let_def
  by (auto split: sum.splits)

section \<open>The rollup and its readers\<close>

lemma rollup_execute_done:
  assumes "rollup_execute digest ok testRunId db = (RolledUp a b c d, db')"
  obtains run rest s e where "filter (\<lambda>r. tr_test_run_id r = testRunId) (ro_runs db) = run # rest"
    "tr_test_run_id run = testRunId" "ru_completed run" "tr_start_time run = Some s" "tr_end_time run = Some e" "ok"
    "rollup_transaction digest run (rollup_window_of run s e) db = Inr db'"
proof -
  from assms obtain run rest where f: "filter (\<lambda>r. tr_test_run_id r = testRunId) (ro_runs db) = run # rest"
    by (auto simp: rollup_execute_def split: list.splits)
  then have "tr_test_run_id run = testRunId" by (auto simp: filter_eq_Cons_iff)
  with assms f that show ?thesis
    by (auto simp: rollup_execute_def split: if_splits option.splits sum.splits)
qed

lemma rollup_transaction_inputs:
  assumes "rollup_transaction digest run w db = Inr db'"
  shows "ro_runs db' = ro_runs db" "ro_transactions db' = ro_transactions db" "ro_requests db' = ro_requests db"
  using assms by (auto simp: rollup_transaction_def Let_def split: sum.splits)

lemma own_rows: "filter (\<lambda>s. f s = x) t = xs \<Longrightarrow> \<forall>s \<in> set xs. P s \<Longrightarrow> \<forall>s \<in> set t. f s = x \<longrightarrow> P s"
  by auto


lemma rollup_transaction_again:
  assumes "rollup_transaction digest run w db = Inr db'"
  shows "rollup_transaction digest run w db' = Inr db'"
proof -
  obtain tx sa gr where r: "tx_rows digest run w (ro_transactions db) = Inr tx"
      "sampler_rows digest run w (ro_requests db) = Inr sa" "pass_rows digest run w (ro_requests db) = Inr gr"
    and i: "insert_rows tx_key tx (filter (\<lambda>s. ts_test_run_id s \<noteq> tr_test_run_id run) (ro_tx_stats db)) = Inr (ro_tx_stats db')"
      "insert_rows sampler_key sa (filter (\<lambda>s. ss_test_run_id s \<noteq> tr_test_run_id run) (ro_sampler_stats db))
         = Inr (ro_sampler_stats db')"
      "insert_rows group_key gr (filter (\<lambda>s. gs_test_run_id s \<noteq> tr_test_run_id run) (ro_group_stats db))
         = Inr (ro_group_stats db')"
    using assms by (rule rollup_transaction_rows)
  have o: "\<forall>s \<in> set tx. ts_test_run_id s = tr_test_run_id run" "\<forall>s \<in> set sa. ss_test_run_id s = tr_test_run_id run"
      "\<forall>s \<in> set gr. gs_test_run_id s = tr_test_run_id run"
    using tx_rows_facts [OF r(1)] sampler_rows_facts [OF r(2)] pass_rows_facts [OF r(3)] by auto
  note again = tx_table.inserted_again [OF i(1) o(1)] sampler_table.inserted_again [OF i(2) o(2)]
    group_table.inserted_again [OF i(3) o(3)]
  show ?thesis
    using r again rollup_transaction_inputs [OF assms]
    unfolding rollup_transaction_def TRANSACTION_ROLLUP_SQL_def SAMPLER_ROLLUP_INSERT_SQL_def
      PARALLEL_GROUP_ROLLUP_SQL_def tx_rows_def [symmetric] sampler_rows_def [symmetric] pass_rows_def [symmetric] Let_def
    by simp
qed

text \<open>
  Rolling a run up again changes nothing: a second rollup of the same raw rows returns the same
  result and leaves the same tables, whether the first one wrote them, skipped the run or failed.
\<close>

theorem rollup_again:
  "rollup_execute digest ok testRunId (snd (rollup_execute digest ok testRunId db))
     = rollup_execute digest ok testRunId db"
proof (cases "rollup_execute digest ok testRunId db")
  case (Pair res db')
  show ?thesis
  proof (cases "\<exists>a b c d. res = RolledUp a b c d")
    case False
    then have "db' = db" using Pair
      by (auto simp: rollup_execute_def split: list.splits if_splits option.splits sum.splits)
    then show ?thesis using Pair by simp
  next
    case True
    then obtain a b c d where ex: "rollup_execute digest ok testRunId db = (RolledUp a b c d, db')" using Pair by auto
    then obtain run rest s e where run: "filter (\<lambda>r. tr_test_run_id r = testRunId) (ro_runs db) = run # rest"
        "tr_test_run_id run = testRunId" "ru_completed run" "tr_start_time run = Some s" "tr_end_time run = Some e" "ok"
        "rollup_transaction digest run (rollup_window_of run s e) db = Inr db'"
      by (rule rollup_execute_done)
    have "rollup_transaction digest run (rollup_window_of run s e) db' = Inr db'"
      using run(7) by (rule rollup_transaction_again)
    then show ?thesis
      using ex run rollup_transaction_inputs [OF run(7)] by (simp add: rollup_execute_def)
  qed
qed

section \<open>Apdex on the rollup\<close>

text \<open>The sketch of some values stands for these values, and there is none of no values.\<close>

definition sketches :: "(rat list \<Rightarrow> 'k option) \<Rightarrow> ('k \<Rightarrow> rat list) \<Rightarrow> bool" where
  "sketches digest samples \<longleftrightarrow>
     (\<forall>xs. case digest xs of None \<Rightarrow> xs = [] | Some d \<Rightarrow> xs \<noteq> [] \<and> mset (samples d) = mset xs)"

text \<open>The tables as Apdex reads them.\<close>

definition apdex_view :: "'k rollup_db \<Rightarrow> 'k apdex_db \<Rightarrow> 'k apdex_db" where
  "apdex_view db xdb = xdb\<lparr>xd_transactions := ro_transactions db,
     xd_stats := map stats_row.truncate (ro_tx_stats db)\<rparr>"

definition sampled :: "bool \<Rightarrow> tx_row list \<Rightarrow> rat list" where
  "sampled incl rows = List.map_filter tx_response_time (if incl then rows else filter tx_success rows)"

lemma sampled_simps [simp]:
  "sampled incl [] = []" "sampled incl (xs @ ys) = sampled incl xs @ sampled incl ys"
  by (simp_all add: sampled_def List.map_filter_def)

lemma sampled_concat: "sampled incl (concat xss) = concat (map (sampled incl) xss)"
  by (induction xss) simp_all

lemma sampled_mset: "mset xs = mset ys \<Longrightarrow> mset (sampled incl xs) = mset (sampled incl ys)"
  by (simp add: sampled_def List.map_filter_def mset_map [symmetric] del: mset_map) (simp add: mset_filter)

lemma groups_partition:
  "distinct ks \<Longrightarrow> mset (concat (map (\<lambda>k. filter (\<lambda>r. key r = k) rows) ks)) = mset (filter (\<lambda>r. key r \<in> set ks) rows)"
proof (induction ks)
  case (Cons k ks)
  have "filter_mset (\<lambda>r. key r = k \<or> key r \<in> set ks) (mset rows)
      = filter_mset (\<lambda>r. key r = k) (mset rows) + filter_mset (\<lambda>r. key r \<in> set ks) (mset rows)"
    using Cons.prems by (intro multiset_eqI) auto
  then show ?case using Cons by simp
qed simp

lemma group_rows_partition:
  "mset (concat (map snd (filter (\<lambda>g. P (fst g)) (group_rows key rows)))) = mset (filter (\<lambda>r. P (key r)) rows)"
proof -
  let ?ks = "filter P (remdups (map key rows))"
  have "concat (map snd (filter (\<lambda>g. P (fst g)) (group_rows key rows)))
      = concat (map (\<lambda>k. filter (\<lambda>r. key r = k) rows) ?ks)"
    by (simp add: group_rows_def filter_map comp_def)
  also have "mset \<dots> = mset (filter (\<lambda>r. key r \<in> set ?ks) rows)"
    by (rule groups_partition) simp
  also have "filter (\<lambda>r. key r \<in> set ?ks) rows = filter (\<lambda>r. P (key r)) rows"
    by (rule filter_cong) auto
  finally show ?thesis .
qed

text \<open>The row of a group holds what was sampled of it.\<close>

lemma row_sketched:
  assumes "sketches digest samples" "tx_stats_row digest run excluded k rows = Some s"
    and "\<forall>r \<in> set rows. tx_response_time r \<noteq> None"
  shows "mset (sketched samples incl (stats_row.truncate s)) = mset (sampled incl rows)"
    and "(if incl then ts_total s else ts_passed s) = int (length (sketched samples incl (stats_row.truncate s)))"
proof -
  note f = tx_stats_row_facts [OF assms(2)]
  have d: "case digest xs of None \<Rightarrow> xs = [] | Some d \<Rightarrow> xs \<noteq> [] \<and> mset (samples d) = mset xs" for xs
    using assms(1) unfolding sketches_def by blast
  show m: "mset (sketched samples incl (stats_row.truncate s)) = mset (sampled incl rows)"
    using d [of "List.map_filter tx_response_time rows"] f(7,8)
      d [of "List.map_filter tx_response_time (filter tx_success rows)"]
    by (auto simp: sketched_def sampled_def stats_row.defs split: option.splits)
  have "length (sampled incl rows) = length (if incl then rows else filter tx_success rows)"
    using assms(3) by (auto simp: sampled_def List.map_filter_def filter_all_length simp del: filter_filter)
  then show "(if incl then ts_total s else ts_passed s) = int (length (sketched samples incl (stats_row.truncate s)))"
    using mset_eq_length [OF m] f(5,6) by auto
qed

lemma bspec_tail: "\<forall>x \<in> set (y # ys). P x \<Longrightarrow> \<forall>x \<in> set ys. P x"
  by simp

lemma rows_sketched:
  assumes "sketches digest samples"
    and "list_all2 (\<lambda>(k, rows) s. tx_stats_row digest run excluded k rows = Some s) groups xs"
    and "\<forall>(k, rows) \<in> set groups. \<forall>r \<in> set rows. tx_response_time r \<noteq> None"
  shows "mset (concat (map (sketched samples incl \<circ> stats_row.truncate) (filter (\<lambda>s. ts_name s = Some name) xs)))
    = mset (sampled incl (concat (map snd (filter (\<lambda>g. fst (fst g) = Some name) groups))))"
    and "\<forall>s \<in> set xs. ts_ramp_up_excluded s = excluded
      \<and> (if incl then ts_total s else ts_passed s) = int (length (sketched samples incl (stats_row.truncate s)))"
  using assms(2,3)
proof (induction rule: list_all2_induct)
  case (Cons g gs s xs)
  obtain k rows where g: "g = (k, rows)" by (cases g)
  have f: "mset (sketched samples incl (stats_row.truncate s)) = mset (sampled incl rows)"
      "(if incl then ts_total s else ts_passed s) = int (length (sketched samples incl (stats_row.truncate s)))"
      "ts_name s = fst k" "ts_ramp_up_excluded s = excluded"
    if "\<forall>(k, rows) \<in> set (g # gs). \<forall>r \<in> set rows. tx_response_time r \<noteq> None"
    using that Cons(1) row_sketched [OF assms(1), of run excluded k rows s incl]
      tx_stats_row_facts [of digest run excluded k rows s] by (simp_all add: g)
  {
    case 1
    from Cons(3) [OF bspec_tail [OF 1]] f [OF 1] show ?case by (simp add: sampled_concat g)
  next
    case 2
    from Cons(4) [OF bspec_tail [OF 2]] f [OF 2] show ?case by simp
  }
qed simp_all


definition measured_groups :: "('a \<Rightarrow> bool) \<Rightarrow> ('b \<times> 'a list) list \<Rightarrow> ('b \<times> 'a list) list" where
  "measured_groups kept base = filter (\<lambda>(k, rows). rows \<noteq> []) (map (\<lambda>(k, rows). (k, filter kept rows)) base)"

lemma map_Some_list_all2: "map Some xs = map f gs \<Longrightarrow> list_all2 (\<lambda>g s. f g = Some s) gs xs"
  by (induction gs arbitrary: xs) (auto simp: Cons_eq_map_conv)

lemma two_variants_split:
  assumes "two_variants kept row base = Inr xs"
  obtains ys zs where "xs = ys @ zs" "list_all2 (\<lambda>(k, rows) s. row False k rows = Some s) base ys"
    "list_all2 (\<lambda>(k, rows) s. row True k rows = Some s) (measured_groups kept base) zs"
proof -
  have "map (\<lambda>(k, rows). row True k (filter kept rows)) (filter (\<lambda>(k, rows). filter kept rows \<noteq> []) base)
      = map (\<lambda>(k, rows). row True k rows) (measured_groups kept base)"
    unfolding measured_groups_def by (induction base) auto
  then have "map Some xs = map (\<lambda>(k, rows). row False k rows) base
      @ map (\<lambda>(k, rows). row True k rows) (measured_groups kept base)"
    using two_variants_Inr [OF assms] by (simp only:)
  then obtain ys zs where xs: "xs = ys @ zs" "map (\<lambda>(k, rows). row False k rows) base = map Some ys"
      "map (\<lambda>(k, rows). row True k rows) (measured_groups kept base) = map Some zs"
    unfolding map_eq_append_conv by blast
  have "list_all2 (\<lambda>g s. (case g of (k, rows) \<Rightarrow> row False k rows) = Some s) base ys"
    by (rule map_Some_list_all2) (rule xs(2) [symmetric])
  moreover have "list_all2 (\<lambda>g s. (case g of (k, rows) \<Rightarrow> row True k rows) = Some s) (measured_groups kept base) zs"
    by (rule map_Some_list_all2) (rule xs(3) [symmetric])
  ultimately show ?thesis
    using xs(1) by (intro that) (auto elim!: list_all2_mono)
qed

lemma measured_groups_concat:
  "concat (map snd (filter (\<lambda>g. P (fst g)) (measured_groups kept base)))
     = filter kept (concat (map snd (filter (\<lambda>g. P (fst g)) base)))"
  unfolding measured_groups_def by (induction base) auto

lemma measured_groups_set:
  "(k, rows) \<in> set (measured_groups kept (group_rows key ts)) \<Longrightarrow> r \<in> set rows \<Longrightarrow> r \<in> set ts"
  "(k, rows) \<in> set (group_rows key ts) \<Longrightarrow> r \<in> set rows \<Longrightarrow> r \<in> set ts"
  by (auto simp: measured_groups_def group_rows_def)

lemma truncated_stats [simp]:
  "ts_test_run_id (stats_row.truncate s) = ts_test_run_id s" "ts_name (stats_row.truncate s) = ts_name s"
  "ts_ramp_up_excluded (stats_row.truncate s) = ts_ramp_up_excluded s" "ts_total (stats_row.truncate s) = ts_total s"
  "ts_passed (stats_row.truncate s) = ts_passed s"
  by (simp_all add: stats_row.defs)

text \<open>
  The stored rows of a transaction, in one variant, hold the samples of the rows of the run that the
  variant counts.
\<close>

lemma tx_rows_sketched:
  fixes ramp :: bool and name :: string
  assumes sk: "sketches digest samples" and rows: "tx_rows digest run w ts = Inr xs"
    and complete: "\<forall>r \<in> set ts. tx_test_run_id r = tr_test_run_id run \<longrightarrow> tx_response_time r \<noteq> None"
  defines "R \<equiv> filter (\<lambda>s. ts_ramp_up_excluded s = ramp \<and> ts_name s = Some name) xs"
  shows "\<forall>s \<in> set R. (if incl then ts_total s else ts_passed s)
      = int (length (sketched samples incl (stats_row.truncate s)))"
    and "mset (concat (map (sketched samples incl \<circ> stats_row.truncate) R))
      = mset (sampled incl (filter (\<lambda>r. tx_test_run_id r = tr_test_run_id run \<and> in_window w (tx_time r)
          \<and> (ramp \<longrightarrow> measured w (tx_time r)) \<and> tx_name r = Some name) ts))"
proof -
  let ?own = "filter (\<lambda>r. tx_test_run_id r = tr_test_run_id run \<and> in_window w (tx_time r)) ts"
  let ?key = "\<lambda>r. (tx_name r, empty_if_null (tx_scenario r))"
  let ?base = "group_rows ?key ?own" and ?kept = "\<lambda>r. measured w (tx_time r)"
  obtain ys zs where xs: "xs = ys @ zs"
    and l: "list_all2 (\<lambda>(k, rows) s. tx_stats_row digest run False k rows = Some s) ?base ys"
      "list_all2 (\<lambda>(k, rows) s. tx_stats_row digest run True k rows = Some s) (measured_groups ?kept ?base) zs"
    using rows unfolding tx_rows_def by (rule two_variants_split)
  have c: "\<forall>(k, rows) \<in> set ?base. \<forall>r \<in> set rows. tx_response_time r \<noteq> None"
      "\<forall>(k, rows) \<in> set (measured_groups ?kept ?base). \<forall>r \<in> set rows. tx_response_time r \<noteq> None"
    using complete by (auto dest!: measured_groups_set simp del: not_None_eq)
  note y = rows_sketched [OF sk l(1) c(1), of incl] and z = rows_sketched [OF sk l(2) c(2), of incl]
  define groups where "groups = (if ramp then measured_groups ?kept ?base else ?base)"
  have R: "R = filter (\<lambda>s. ts_name s = Some name) (if ramp then zs else ys)"
    using y(2) z(2) unfolding R_def xs by (cases ramp) (auto simp: filter_empty_conv intro!: filter_cong)
  show "\<forall>s \<in> set R. (if incl then ts_total s else ts_passed s)
      = int (length (sketched samples incl (stats_row.truncate s)))"
    using y(2) z(2) unfolding R by (cases ramp) simp_all
  have "mset (concat (map (sketched samples incl \<circ> stats_row.truncate) R))
      = mset (sampled incl (concat (map snd (filter (\<lambda>g. fst (fst g) = Some name) groups))))"
    using y(1) [of name] z(1) [of name] unfolding R groups_def by (cases ramp) simp_all
  also have "\<dots> = mset (sampled incl (filter (\<lambda>r. tx_test_run_id r = tr_test_run_id run \<and> in_window w (tx_time r)
          \<and> (ramp \<longrightarrow> measured w (tx_time r)) \<and> tx_name r = Some name) ts))"
  proof (rule sampled_mset)
    have b: "mset (concat (map snd (filter (\<lambda>g. fst (fst g) = Some name) ?base)))
        = mset (filter (\<lambda>r. tx_name r = Some name) ?own)"
      using group_rows_partition [of "\<lambda>k. fst k = Some name" ?key ?own] by simp
    show "mset (concat (map snd (filter (\<lambda>g. fst (fst g) = Some name) groups)))
        = mset (filter (\<lambda>r. tx_test_run_id r = tr_test_run_id run \<and> in_window w (tx_time r)
          \<and> (ramp \<longrightarrow> measured w (tx_time r)) \<and> tx_name r = Some name) ts)"
    proof (cases ramp)
      case False
      then show ?thesis using b by (simp add: groups_def conj_ac)
    next
      case True
      have "mset (concat (map snd (filter (\<lambda>g. fst (fst g) = Some name) groups)))
          = filter_mset ?kept (mset (concat (map snd (filter (\<lambda>g. fst (fst g) = Some name) ?base))))"
        using True measured_groups_concat [of "\<lambda>k. fst k = Some name" ?kept ?base]
        by (simp add: groups_def flip: mset_filter)
      then show ?thesis unfolding b using True by (simp flip: mset_filter add: conj_ac)
    qed
  qed
  finally show "mset (concat (map (sketched samples incl \<circ> stats_row.truncate) R))
      = mset (sampled incl (filter (\<lambda>r. tx_test_run_id r = tr_test_run_id run \<and> in_window w (tx_time r)
          \<and> (ramp \<longrightarrow> measured w (tx_time r)) \<and> tx_name r = Some name) ts))" .
qed

text \<open>The window of the rollup is the one a reader of the raw rows bounds itself by.\<close>

lemma bounds_agree:
  assumes "tr_start_time run = Some s" "tr_end_time run = Some e"
    and "ramp \<Longrightarrow> (\<exists>q. tr_ramp_up run = Some q \<and> 0 < q) \<and> t < rw_end (rollup_window_of run s e)
      \<and> 0 \<le> zero_if_null (ru_ramp_down run)"
  shows "in_bounds (apdex_bounds (test_run.truncate run) ramp) t
    \<longleftrightarrow> in_window (rollup_window_of run s e) t \<and> (ramp \<longrightarrow> measured (rollup_window_of run s e) t)"
proof (cases ramp)
  case False
  then show ?thesis using assms(1,2)
    by (simp add: apdex_bounds_def analysisBoundsFromRow_def in_bounds_def in_window_def rollup_window_of_def
        test_run.defs)
next
  case True
  then obtain q where q: "tr_ramp_up run = Some q" "0 < q" and t: "t < rw_end (rollup_window_of run s e)"
    and d: "0 \<le> zero_if_null (ru_ramp_down run)" using assms(3) by blast
  have mono: "js_trunc x \<le> js_trunc y" if "x \<le> y" for x y :: rat
  proof (cases "0 \<le> x \<or> y < 0")
    case True
    then show ?thesis using that floor_mono [OF that] ceiling_mono [OF that] by (auto simp: js_trunc_def)
  next
    case False
    then have "\<lceil>x\<rceil> \<le> 0" "0 \<le> \<lfloor>y\<rfloor>" by simp_all
    then have "\<lceil>x\<rceil> \<le> \<lfloor>y\<rfloor>" by (rule order_trans [of "\<lceil>x\<rceil>" 0])
    then show ?thesis using False by (simp add: js_trunc_def)
  qed
  have int: "js_trunc (of_int k) = k" for k by (simp add: js_trunc_def)
  have "s \<le> rw_start (rollup_window_of run s e)"
    using mono [of "of_int s" "of_int s + q * 1000"] q by (simp add: rollup_window_of_def zero_if_null_def int)
  moreover have "rw_end (rollup_window_of run s e) \<le> e"
    using mono [of "of_int e - zero_if_null (ru_ramp_down run) * 1000" "of_int e"] d
    by (simp add: rollup_window_of_def int)
  ultimately show ?thesis using True q t assms(1,2)
    by (auto simp: apdex_bounds_def analysisBoundsFromRow_def in_bounds_def in_window_def rollup_window_of_def
        test_run.defs measured_def seconds_def RUN_WINDOW_PAD_MS_def zero_if_null_def)
qed

text \<open>A run whose rows the rollup and the raw scan read alike.\<close>

definition readable_rows :: "rollup_run \<Rightarrow> bool \<Rightarrow> tx_row list \<Rightarrow> bool" where
  "readable_rows run ramp transactions \<longleftrightarrow>
     list_all (\<lambda>r. tx_test_run_id r = tr_test_run_id run \<longrightarrow>
        tx_response_time r \<noteq> None
        \<and> (ramp \<longrightarrow> (case tr_end_time run of None \<Rightarrow> False
             | Some e \<Rightarrow> tx_time r < js_trunc (of_int e - zero_if_null (ru_ramp_down run) * 1000)))) transactions
     \<and> (ramp \<longrightarrow> (case tr_ramp_up run of None \<Rightarrow> False | Some q \<Rightarrow> 0 < q) \<and> 0 \<le> zero_if_null (ru_ramp_down run))"

lemma rollup_faithful:
  assumes sk: "sketches digest samples"
    and ex: "rollup_execute digest ok testRunId db = (RolledUp a b c d, db')"
    and run: "hd (filter (\<lambda>r. tr_test_run_id r = testRunId) (ro_runs db)) = run"
    and readable: "readable_rows run ramp (ro_transactions db)"
  shows "faithful_rollup samples (apdex_view db' xdb) (test_run.truncate run) name incl ramp"
proof -
  obtain rest s e where r: "filter (\<lambda>r. tr_test_run_id r = testRunId) (ro_runs db) = run # rest"
      "tr_test_run_id run = testRunId" "tr_start_time run = Some s" "tr_end_time run = Some e"
      "rollup_transaction digest run (rollup_window_of run s e) db = Inr db'"
    using ex run by (elim rollup_execute_done) simp
  let ?w = "rollup_window_of run s e" and ?ts = "ro_transactions db"
  obtain tx where tx: "tx_rows digest run ?w ?ts = Inr tx"
    and i: "insert_rows tx_key tx (filter (\<lambda>s. ts_test_run_id s \<noteq> testRunId) (ro_tx_stats db)) = Inr (ro_tx_stats db')"
    using r(5) unfolding r(2) [symmetric] by (rule rollup_transaction_rows)
  have "\<forall>s \<in> set tx. ts_test_run_id s = testRunId"
    using tx_rows_facts [OF tx] r(2) by auto
  from tx_table.others_kept(2) [OF i this] have own: "filter (\<lambda>s. ts_test_run_id s = testRunId) (ro_tx_stats db') = tx" .
  define R where "R = filter (\<lambda>s. ts_ramp_up_excluded s = ramp \<and> ts_name s = Some name) tx"
  have rows: "stats_rows (apdex_view db' xdb) testRunId name ramp = map stats_row.truncate R"
    by (simp add: stats_rows_def apdex_view_def R_def own [symmetric] filter_map comp_def)
  have complete: "\<forall>x \<in> set ?ts. tx_test_run_id x = tr_test_run_id run \<longrightarrow> tx_response_time x \<noteq> None"
    using readable by (simp add: readable_rows_def list_all_iff)
  have agree: "in_bounds (apdex_bounds (test_run.truncate run) ramp) (tx_time x)
      \<longleftrightarrow> in_window ?w (tx_time x) \<and> (ramp \<longrightarrow> measured ?w (tx_time x))"
    if "x \<in> set ?ts" "tx_test_run_id x = testRunId" for x
    using readable that r(2-4)
    by (intro bounds_agree) (auto simp: readable_rows_def list_all_iff rollup_window_of_def split: option.splits)
  have "scored_times (apdex_view db' xdb) (test_run.truncate run) name incl ramp
      = sampled incl (filter (\<lambda>r. tx_test_run_id r = tr_test_run_id run \<and> in_window ?w (tx_time r)
          \<and> (ramp \<longrightarrow> measured ?w (tx_time r)) \<and> tx_name r = Some name) ?ts)"
    unfolding scored_times_def sampled_def List.map_filter_def comp_def
    using agree r(2) rollup_transaction_inputs(2) [OF r(5)]
    by (auto simp: apdex_view_def test_run.defs intro!: arg_cong [where f = "map _"] filter_cong)
  then show ?thesis
    using tx_rows_sketched [OF sk tx complete, where ramp = ramp and name = name and incl = incl] r(2)
    unfolding faithful_rollup_def
    by (cases incl) (simp_all add: rows R_def test_run.defs comp_def)
qed


section \<open>Examples\<close>

definition list_digest :: "rat list \<Rightarrow> rat list option" where
  "list_digest xs = (if xs = [] then None else Some xs)"

lemma list_digest_sketches: "sketches list_digest id"
  by (simp add: sketches_def list_digest_def)

definition shop_run :: rollup_run where
  "shop_run = \<lparr>tr_test_run_id = ''r1'', tr_system_under_test_id = ''shop'', tr_test_environment = ''acc'',
     tr_workload = ''load'', tr_organization_id = Some ''o1'', tr_team_id = None,
     tr_start_time = Some 0, tr_end_time = Some 600000, tr_ramp_up = Some 60,
     ru_completed = True, ru_ramp_down = None\<rparr>"

definition shop_row :: "int \<Rightarrow> rat \<Rightarrow> bool \<Rightarrow> tx_row" where
  "shop_row t rt success = \<lparr>tx_test_run_id = ''r1'', tx_time = t, tx_name = Some ''pay'', tx_scenario = None,
     tx_response_time = Some rt, tx_success = success\<rparr>"

definition shop_db :: "tx_row list \<Rightarrow> rollup_run \<Rightarrow> rat list rollup_db" where
  "shop_db rows run = \<lparr>ro_runs = [run], ro_transactions = rows, ro_requests = [], ro_tx_stats = [],
     ro_sampler_stats = [], ro_group_stats = []\<rparr>"

definition no_apdex :: "rat list apdex_db" where
  "no_apdex = \<lparr>xd_transactions = [], xd_stats = [], xd_tx_thresholds = [], xd_wl_thresholds = [], xd_runs = []\<rparr>"

definition shop_rows :: "tx_row list" where
  "shop_rows = [shop_row 1000 3000 True, shop_row 90000 100 True, shop_row 100000 900 False, shop_row 200000 300 True]"

definition shop_rolled :: "rat list rollup_db" where
  "shop_rolled = snd (rollup_execute list_digest True ''r1'' (shop_db shop_rows shop_run))"

lemma shop_rolled_eq: "rollup_execute list_digest True ''r1'' (shop_db shop_rows shop_run) = (RolledUp 2 0 0 60, shop_rolled)"
  by code_simp



text \<open>
  The measured part of the rollup ends where the ramp-down begins; the raw scan of an Apdex check
  does not know the ramp-down of its run. A slow transaction in the ramp-down fails the SLO when no
  rollup exists, and the same run passes when one does.
\<close>

definition ramp_down_run :: rollup_run where
  "ramp_down_run = shop_run\<lparr>ru_ramp_down := Some 100\<rparr>"

lemma ramp_down_only_in_rollup:
  "ax_score (calculateApdex list_toolkit
       (apdex_view (snd (rollup_execute list_digest True ''r1''
          (shop_db [shop_row 90000 100 True, shop_row 550000 5000 True] ramp_down_run))) no_apdex)
       (test_run.truncate ramp_down_run) (Some ''pay'') 200 False True) = Some 1
   \<and> ax_score (calculateApdex list_toolkit
       (apdex_view (shop_db [shop_row 90000 100 True, shop_row 550000 5000 True] ramp_down_run) no_apdex)
       (test_run.truncate ramp_down_run) (Some ''pay'') 200 False True) = Some (1 / 2)"
  by code_simp

text \<open>
  Without offsets the measured part is not the full run: a sample recorded in the hour after the end,
  which the window is padded for, is a row of the full variant only.
\<close>

lemma late_sample_not_measured:
  "map (\<lambda>s. (ts_ramp_up_excluded s, ts_total s)) (ro_tx_stats (snd (rollup_execute list_digest True ''r1''
      (shop_db [shop_row 1000 100 True, shop_row 605000 100 True] (shop_run\<lparr>tr_ramp_up := None\<rparr>)))))
     = [(False, 2), (True, 1)]"
  by code_simp

text \<open>One transaction without a response time, or one sampler seen under two systems, and no rollup is written.\<close>

definition shop_request :: "string option \<Rightarrow> request_row" where
  "shop_request system = \<lparr>rq_test_run_id = ''r1'', rq_time = 1000, rq_transaction_name = Some ''pay'',
     rq_sampler_name = ''POST'', rq_scenario = None, rq_system_under_test = system,
     rq_test_environment = Some ''acc'', rq_success = True, rq_response_time = Some 10, rq_latency = None,
     rq_connect_time = None, rq_request_size = None, rq_response_size = None, rq_url_hash = None,
     rq_parent_controllers = None\<rparr>"

lemma one_group_fails_the_rollup:
  "rollup_execute list_digest True ''r1''
     (shop_db [shop_row 1000 100 True, (shop_row 2000 0 False)\<lparr>tx_name := Some ''quit'', tx_response_time := None\<rparr>]
        shop_run)
   = (RollupFailed ''TRANSACTION_STATS_ROLLUP_FAILED'',
      shop_db [shop_row 1000 100 True, (shop_row 2000 0 False)\<lparr>tx_name := Some ''quit'', tx_response_time := None\<rparr>]
        shop_run)"
  "fst (rollup_execute list_digest True ''r1''
     ((shop_db shop_rows shop_run)\<lparr>ro_requests := [shop_request (Some ''shop''), shop_request (Some ''Shop'')]\<rparr>))
   = RollupFailed ''TRANSACTION_STATS_ROLLUP_FAILED''"
  "fst (rollup_execute list_digest True ''r1''
     ((shop_db shop_rows shop_run)\<lparr>ro_requests := [shop_request (Some ''shop''), shop_request (Some ''shop'')]\<rparr>))
   = RolledUp 2 1 0 60"
  by code_simp+
end
