(* ===== verification/ChecksPipeline.thy ===== *)
theory ChecksPipeline
  imports Rollup
begin

text \<open>
  Evaluating the SLOs of runs (\<open>pipelines/ChecksPipeline.ts\<close> and \<open>saveCheckResult\<close> of
  \<open>RequirementChecker.ts\<close>): the benchmarks of a run are matched, judged and stored inside one
  transaction, each benchmark inside its own savepoint, and the run gets its status, validity and
  consolidated result.

  The state is the tables. A failing statement is a flag of the environment; a statement that fails
  outside a savepoint aborts the transaction, so that the next statement fails too, even when the
  code caught the error. Whether the database accepts a row of \<open>check_results\<close> is a parameter. Texts
  of messages and time stamps of updates are left out, and so is the publishing to clients, which
  reads only.
\<close>

section \<open>State\<close>

datatype check_requirement =
    is_metric: MetricRequirement "(string \<times> jsnum) option" bool
  | is_apdex: ApdexRequirement rat rat bool jsnum
  | is_aggregated: AggregatedRequirement "string option" "string option" string jsnum

datatype check_targets =
    MetricTargets "check_target list"
  | TransactionTargets "tx_result list"
  | ApdexTarget apdex_check
  | AggregatedTarget string "jsnum option" "bool option"

text \<open>A row of \<open>check_results\<close>.\<close>

record check_row =
  cw_system_under_test_id :: string
  cw_test_environment :: string
  cw_workload :: string
  cw_test_run_id :: string
  cw_dashboard_label :: string
  cw_dashboard_uid :: "string option"
  cw_application_dashboard_id :: "string option"
  cw_panel_title :: string
  cw_panel_id :: "int option"
  cw_panel_type :: string
  cw_panel_y_axes_format :: "string option"
  cw_metric_name :: "string option"
  cw_metric_unit :: "string option"
  cw_benchmark_id :: string
  cw_status :: string
  cw_average_all :: bool
  cw_evaluate_type :: string
  cw_exclude_ramp_up_time :: bool
  cw_ramp_up :: rat
  cw_match_pattern :: "string option"
  cw_requirement :: check_requirement
  cw_panel_average :: "jsnum option"
  cw_meets_requirement :: "bool option"
  cw_targets :: check_targets
  cw_validate_with_default_if_no_data :: bool
  cw_validate_with_default_if_no_data_value :: jsnum
  cw_organization_id :: "string option"
  cw_team_id :: "string option"

record consolidated =
  cj_meetsRequirement :: bool
  cj_overall :: bool
  cj_error :: bool

record checks_run = test_run +
  vw_evaluatingChecks :: "string option"
  vw_valid :: "bool option"
  vw_consolidated :: "consolidated option"

record 'k checks_state =
  ek_results :: "check_row list"
  ek_runs :: "checks_run list"
  ek_benchmarks :: "bench_row list"
  ek_metrics :: checks_db
  ek_samples :: samples_db
  ek_apdex :: "'k apdex_db"
  ek_rollup :: "'k rollup_db"
  ek_dashboards :: "string list"
  ek_dynatrace_dashboards :: "string list"

record checks_filter = metric_filter +
  mf_metricsSourceId :: "string option"

text \<open>
  What may go wrong. Of a benchmark: a statement that no handler of the evaluators guards
  (\<open>fl_threw\<close>), one whose failure an evaluator catches without a savepoint (\<open>fl_caught\<close>), and the two
  kinds an evaluator guards with savepoints. Of a run: the places of the pipeline.
\<close>

record bench_faults =
  fl_threw :: bool
  fl_caught :: bool
  fl_bulk :: bool
  fl_scan :: "string \<Rightarrow> bool"

datatype fault_point = AtStatus | AtProbe | AtRollup | AtLoad | AtMatch | AtFinish | AtCommit

record 'k checks_env =
  la_toolkit :: "'k toolkit"
  la_digest :: "rat list \<Rightarrow> 'k option"
  la_regex :: "string \<Rightarrow> (string \<Rightarrow> bool) option"
  la_accepts :: "check_row \<Rightarrow> bool"
  la_bench :: "string \<Rightarrow> string \<Rightarrow> bench_faults"
  la_fails :: "string \<Rightarrow> fault_point \<Rightarrow> bool"

section \<open>Rows of the three kinds of SLO\<close>

definition saveCheckResult :: "check_result \<Rightarrow> check_row" where
  "saveCheckResult c =
     \<lparr>cw_system_under_test_id = cr_system_under_test_id c, cw_test_environment = cr_test_environment c,
      cw_workload = cr_workload c, cw_test_run_id = cr_test_run_id c,
      cw_dashboard_label = cr_dashboard_label c, cw_dashboard_uid = Some (cr_dashboard_uid c),
      cw_application_dashboard_id = Some (cr_application_dashboard_id c),
      cw_panel_title = cr_panel_title c, cw_panel_id = cr_panel_id c, cw_panel_type = cr_panel_type c,
      cw_panel_y_axes_format = cr_panel_y_axes_format c, cw_metric_name = None,
      cw_metric_unit = cr_metric_unit c, cw_benchmark_id = cr_benchmark_id c, cw_status = cr_status c,
      cw_average_all = cr_average_all c, cw_evaluate_type = cr_evaluate_type c,
      cw_exclude_ramp_up_time = cr_exclude_ramp_up_time c, cw_ramp_up = cr_ramp_up c,
      cw_match_pattern = cr_match_pattern c,
      cw_requirement = MetricRequirement (cr_requirement c) (cr_invert_match_pattern c),
      cw_panel_average = cr_panel_average c, cw_meets_requirement = cr_meets_requirement c,
      cw_targets = MetricTargets (cr_targets c),
      cw_validate_with_default_if_no_data = cr_validate_with_default_if_no_data c,
      cw_validate_with_default_if_no_data_value = cr_validate_with_default_if_no_data_value c,
      cw_organization_id = Some (cr_organization_id c), cw_team_id = cr_team_id c\<rparr>"

definition apdex_status_text :: "apdex_status \<Rightarrow> string" where
  "apdex_status_text s = (case s of ApComplete \<Rightarrow> ''COMPLETE'' | ApError \<Rightarrow> ''ERROR'' | ApNoData \<Rightarrow> ''NO_DATA'')"

definition agg_status_text :: "agg_status \<Rightarrow> string" where
  "agg_status_text s = (case s of AggComplete \<Rightarrow> ''COMPLETE'' | AggError \<Rightarrow> ''ERROR'' | AggNoData \<Rightarrow> ''NO_DATA'')"

definition saveApdexCheckResult :: "test_run \<Rightarrow> benchmark \<Rightarrow> apdex_check \<Rightarrow> check_row" where
  "saveApdexCheckResult run b x =
     \<lparr>cw_system_under_test_id = tr_system_under_test_id run, cw_test_environment = tr_test_environment run,
      cw_workload = tr_workload run, cw_test_run_id = tr_test_run_id run,
      cw_dashboard_label = ''Apdex SLO'', cw_dashboard_uid = None, cw_application_dashboard_id = None,
      cw_panel_title = or_str (bm_transaction_name b) ''Workload Apdex'', cw_panel_id = None,
      cw_panel_type = ''apdex'', cw_panel_y_axes_format = None, cw_metric_name = None,
      cw_metric_unit = Some ''apdex_score'', cw_benchmark_id = bm_id b,
      cw_status = apdex_status_text (xc_status x), cw_average_all = False, cw_evaluate_type = ''apdex'',
      cw_exclude_ramp_up_time = bm_exclude_ramp_up_time b, cw_ramp_up = zero_if_null (tr_ramp_up run),
      cw_match_pattern = None,
      cw_requirement = ApdexRequirement (xc_min_score x) (xc_threshold_ms x) (bm_include_failed_requests b)
        (bm_apdex_min_samples b),
      cw_panel_average = map_option JFin (ax_score (xc_result x)), cw_meets_requirement = xc_meets x,
      cw_targets = (case xc_transactions x of
          Some (t # ts) \<Rightarrow> TransactionTargets (t # ts) | _ \<Rightarrow> ApdexTarget x),
      cw_validate_with_default_if_no_data = False, cw_validate_with_default_if_no_data_value = JFin 0,
      cw_organization_id = tr_organization_id run, cw_team_id = tr_team_id run\<rparr>"

text \<open>\<open>??\<close> replaces null, not the empty string.\<close>

definition nullish :: "'a option \<Rightarrow> 'a \<Rightarrow> 'a" where
  "nullish x d = (case x of None \<Rightarrow> d | Some y \<Rightarrow> y)"

definition saveAggregatedCheckResult :: "test_run \<Rightarrow> benchmark \<Rightarrow> aggregated_result \<Rightarrow> check_row" where
  "saveAggregatedCheckResult run b g =
     (let label = nullish (bm_panel_title b) (nullish (bm_aggregate_metric b) ''Aggregated SLO'') in
     \<lparr>cw_system_under_test_id = tr_system_under_test_id run, cw_test_environment = tr_test_environment run,
      cw_workload = tr_workload run, cw_test_run_id = tr_test_run_id run,
      cw_dashboard_label = ''Aggregated SLO'', cw_dashboard_uid = None, cw_application_dashboard_id = None,
      cw_panel_title = label, cw_panel_id = None, cw_panel_type = ''aggregated'',
      cw_panel_y_axes_format = None, cw_metric_name = bm_aggregate_metric b,
      cw_metric_unit = Some (if bm_aggregate_metric b = Some ''error_percentage'' then ''%'' else ''ms''),
      cw_benchmark_id = bm_id b, cw_status = agg_status_text (ag_status g), cw_average_all = False,
      cw_evaluate_type = ''aggregated'', cw_exclude_ramp_up_time = bm_exclude_ramp_up_time b,
      cw_ramp_up = zero_if_null (tr_ramp_up run), cw_match_pattern = None,
      cw_requirement = AggregatedRequirement (bm_aggregate_metric b) (bm_aggregate_stat b)
        (nullish (bm_requirement_operator b) ''<='')
        (val_Number (nullish (bm_requirement_value b) (VNum (JFin 0)))),
      cw_panel_average = ag_actual_value g, cw_meets_requirement = ag_meets_requirement g,
      cw_targets = AggregatedTarget label (ag_actual_value g) (ag_meets_requirement g),
      cw_validate_with_default_if_no_data = False, cw_validate_with_default_if_no_data_value = JFin 0,
      cw_organization_id = tr_organization_id run, cw_team_id = tr_team_id run\<rparr>)"

section \<open>One benchmark\<close>

text \<open>The columns are an integer and a numeric: a number that is neither finite nor whole does not occur.\<close>

definition whole :: "jsnum \<Rightarrow> int" where
  "whole n = (case n of JFin q \<Rightarrow> \<lceil>q\<rceil> | _ \<Rightarrow> 0)"

definition finite_or_zero :: "jsnum option \<Rightarrow> rat" where
  "finite_or_zero n = (case n of Some (JFin q) \<Rightarrow> q | _ \<Rightarrow> 0)"

definition apdex_slo :: "benchmark \<Rightarrow> apdex_benchmark" where
  "apdex_slo b =
     \<lparr>xb_id = bm_id b, xb_system_under_test_id = bm_system_under_test_id b,
      xb_test_environment = bm_test_environment b, xb_workload = bm_workload b,
      xb_transaction_name = (if truthy_str (bm_transaction_name b) then bm_transaction_name b else None),
      xb_threshold_ms = (if truthy_rat (bm_apdex_threshold_ms b) then bm_apdex_threshold_ms b else None),
      xb_min_score = finite_or_zero (bm_min_apdex_score b), xb_include_failed = bm_include_failed_requests b,
      xb_exclude_ramp_up = bm_exclude_ramp_up_time b, xb_min_samples = whole (bm_apdex_min_samples b)\<rparr>"

definition aggregated_slo :: "benchmark \<Rightarrow> aggregated_benchmark" where
  "aggregated_slo b =
     \<lparr>ab_id = bm_id b, ab_aggregate_metric = nullish (bm_aggregate_metric b) [],
      ab_aggregate_stat = bm_aggregate_stat b,
      ab_requirement_operator = nullish (bm_requirement_operator b) ''<='',
      ab_requirement_value = nullish (bm_requirement_value b) (VNum (JFin 0)),
      ab_exclude_ramp_up_time = bm_exclude_ramp_up_time b\<rparr>"

text \<open>
  What happens inside the savepoint: an error before the benchmark counts as processed, one after
  it, or a row to keep (or none) with the metric tables as the evaluation left them.
\<close>

datatype bench_outcome =
    FailedBefore
  | FailedAfter
  | Judged "check_row option" checks_db

definition insert_row :: "'k checks_env \<Rightarrow> check_row \<Rightarrow> checks_db \<Rightarrow> bench_outcome" where
  "insert_row env row metrics = (if la_accepts env row then Judged (Some row) metrics else FailedAfter)"

definition process_benchmark ::
  "'k checks_env \<Rightarrow> test_run \<Rightarrow> checks_filter \<Rightarrow> 'k checks_state \<Rightarrow> benchmark \<Rightarrow> bench_outcome" where
  "process_benchmark env run mf st b =
     (let faults = la_bench env (tr_test_run_id run) (bm_id b) in
      if fl_threw faults then FailedBefore
      else if bm_benchmark_type b = ''apdex'' then
        (let slo = apdex_slo b;
             single = (xb_transaction_name slo \<noteq> None);
             x = evaluateApdexBenchmark (la_toolkit env) (apdex_view (ek_rollup st) (ek_apdex st))
                   (fl_caught faults) (fl_bulk faults) (fl_scan faults) run slo
         in if single \<and> fl_caught faults then FailedAfter
            else insert_row env (saveApdexCheckResult run b x) (ek_metrics st))
      else if bm_benchmark_type b = ''aggregated'' then
        (let g = evaluate (ek_samples st) (\<not> fl_caught faults) run (aggregated_slo b)
         in if fl_caught faults then FailedAfter
            else insert_row env (saveAggregatedCheckResult run b g) (ek_metrics st))
      else
        (case aggregateMetricsForBenchmark (ek_metrics st) run b (mf_metricName mf) (\<not> fl_caught faults) of
           Inl _ \<Rightarrow> FailedBefore
         | Inr (agg, metrics) \<Rightarrow>
             (case createCheckResult (la_regex env) run b agg of
                Inl _ \<Rightarrow> FailedBefore
              | Inr result \<Rightarrow>
                  if fl_caught faults then FailedAfter
                  else (case result of None \<Rightarrow> Judged None metrics
                        | Some c \<Rightarrow> insert_row env (saveCheckResult c) metrics))))"

text \<open>The loop over the benchmarks of a run: a failure rolls back to the savepoint of its benchmark.\<close>

record run_acc =
  ra_processed :: nat
  ra_created :: nat
  ra_failed :: "string list"
  ra_checks :: "(string \<times> bool option) list"

definition benchmark_step ::
  "'k checks_env \<Rightarrow> test_run \<Rightarrow> checks_filter \<Rightarrow> 'k checks_state \<times> run_acc \<Rightarrow> benchmark \<Rightarrow> 'k checks_state \<times> run_acc" where
  "benchmark_step env run mf = (\<lambda>(st, acc) b.
     case process_benchmark env run mf st b of
       FailedBefore \<Rightarrow> (st, acc\<lparr>ra_failed := ra_failed acc @ [bm_id b]\<rparr>)
     | FailedAfter \<Rightarrow> (st, acc\<lparr>ra_processed := Suc (ra_processed acc), ra_failed := ra_failed acc @ [bm_id b]\<rparr>)
     | Judged None metrics \<Rightarrow> (st\<lparr>ek_metrics := metrics\<rparr>, acc\<lparr>ra_processed := Suc (ra_processed acc)\<rparr>)
     | Judged (Some row) metrics \<Rightarrow>
         (st\<lparr>ek_results := ek_results st @ [row], ek_metrics := metrics\<rparr>,
          acc\<lparr>ra_processed := Suc (ra_processed acc), ra_created := Suc (ra_created acc),
              ra_checks := ra_checks acc @ [(cw_status row, cw_meets_requirement row)]\<rparr>))"

definition empty_acc :: run_acc where
  "empty_acc = \<lparr>ra_processed = 0, ra_created = 0, ra_failed = [], ra_checks = []\<rparr>"

section \<open>One run\<close>

definition update_run :: "string \<Rightarrow> (checks_run \<Rightarrow> checks_run) \<Rightarrow> 'k checks_state \<Rightarrow> 'k checks_state" where
  "update_run testRunId f st =
     st\<lparr>ek_runs := map (\<lambda>r. if tr_test_run_id r = testRunId then f r else r) (ek_runs st)\<rparr>"

definition updateTestRunStatus :: "string \<Rightarrow> string \<Rightarrow> 'k checks_state \<Rightarrow> 'k checks_state" where
  "updateTestRunStatus testRunId status = update_run testRunId (\<lambda>r. r\<lparr>vw_evaluatingChecks := Some status\<rparr>)"

definition markTestRunInvalid :: "string \<Rightarrow> 'k checks_state \<Rightarrow> 'k checks_state" where
  "markTestRunInvalid testRunId = update_run testRunId (\<lambda>r. r\<lparr>vw_valid := Some False\<rparr>)"

definition markTestRunValid :: "string \<Rightarrow> 'k checks_state \<Rightarrow> 'k checks_state" where
  "markTestRunValid testRunId = update_run testRunId (\<lambda>r. r\<lparr>vw_valid := Some True\<rparr>)"

text \<open>The summary joins no row when the run has no check result, and then nothing is updated.\<close>

definition updateConsolidatedResult :: "string \<Rightarrow> bool \<Rightarrow> 'k checks_state \<Rightarrow> 'k checks_state" where
  "updateConsolidatedResult testRunId hasBenchmarkFailure st =
     (if hasBenchmarkFailure then
        update_run testRunId (\<lambda>r. r\<lparr>vw_consolidated := Some
          \<lparr>cj_meetsRequirement = False, cj_overall = False, cj_error = True\<rparr>\<rparr>) st
      else
        (let rows = filter (\<lambda>c. cw_test_run_id c = testRunId) (ek_results st);
             allMeet = list_all (\<lambda>c. nullish (cw_meets_requirement c) True) rows
         in if rows = [] then st
            else update_run testRunId (\<lambda>r. r\<lparr>vw_consolidated := Some
                   \<lparr>cj_meetsRequirement = allMeet, cj_overall = allMeet, cj_error = False\<rparr>\<rparr>) st))"

definition finish_run :: "string \<Rightarrow> run_acc \<Rightarrow> 'k checks_state \<Rightarrow> 'k checks_state" where
  "finish_run testRunId acc st =
     (let hasCheckError = list_ex (\<lambda>c. fst c = ''ERROR'') (ra_checks acc);
          hasBenchmarkFailure = (ra_failed acc \<noteq> []);
          hasError = (hasCheckError \<or> hasBenchmarkFailure);
          st1 = updateTestRunStatus testRunId (if hasError then ''ERROR'' else ''COMPLETED'') st;
          st2 = (if hasError then markTestRunInvalid testRunId st1 else markTestRunValid testRunId st1)
      in updateConsolidatedResult testRunId hasBenchmarkFailure st2)"

text \<open>The columns of \<open>check_results\<close> do not include \<open>metrics_source_id\<close>.\<close>

datatype checks_error = UndefinedColumn | StatementError | CheckPipelineError

definition deleteExistingCheckResults ::
  "string \<Rightarrow> checks_filter \<Rightarrow> check_row list \<Rightarrow> checks_error + check_row list" where
  "deleteExistingCheckResults testRunId mf rows =
     (if truthy_str (mf_metricsSourceId mf) then Inl UndefinedColumn
      else Inr (filter (\<lambda>c. \<not> (cw_test_run_id c = testRunId
             \<and> (truthy_str (mf_applicationDashboardId mf) \<longrightarrow>
                  cw_application_dashboard_id c = mf_applicationDashboardId mf)
             \<and> (mf_panelId mf \<noteq> None \<longrightarrow> cw_panel_id c = mf_panelId mf))) rows))"

definition plain_filter :: "checks_filter \<Rightarrow> metric_filter" where
  "plain_filter mf = metric_filter.truncate mf"

text \<open>A statement that fails here has aborted the transaction, and writing the status \<open>ERROR\<close> with it.\<close>

definition processSingleTestRun ::
  "'k checks_env \<Rightarrow> checks_filter \<Rightarrow> test_run \<Rightarrow> 'k checks_state \<Rightarrow> checks_error + ('k checks_state \<times> run_acc)" where
  "processSingleTestRun env mf run st =
     (let testRunId = tr_test_run_id run in
      if la_fails env testRunId AtMatch then Inl CheckPipelineError
      else case findMatchingBenchmarks (ek_benchmarks st) run (Some (plain_filter mf)) of
             Inl _ \<Rightarrow> Inr (updateTestRunStatus testRunId ''NOT_CONFIGURED'' st, empty_acc)
           | Inr [] \<Rightarrow> Inr (updateTestRunStatus testRunId ''NOT_CONFIGURED'' st, empty_acc)
           | Inr benchmarks \<Rightarrow>
               (let (st1, acc) = foldl (benchmark_step env run mf) (st, empty_acc) benchmarks
                in if la_fails env testRunId AtFinish then Inl CheckPipelineError
                   else Inr (finish_run testRunId acc st1, acc)))"

section \<open>The batch\<close>

datatype run_failure = RunNotFound | RunFailed

record checks_result =
  pr_test_runs :: nat
  pr_benchmarks :: nat
  pr_check_results :: nat
  pr_failed :: "(string \<times> run_failure) list"

text \<open>Whether the budget is spent, and the rollup tables.\<close>

definition ensureTransactionRollup ::
  "'k checks_env \<Rightarrow> string \<Rightarrow> 'k checks_state \<Rightarrow> bool \<times> 'k checks_state" where
  "ensureTransactionRollup env testRunId st =
     (if la_fails env testRunId AtProbe then (True, st)
      else
        (let runs = filter (\<lambda>r. tr_test_run_id r = testRunId) (ro_runs (ek_rollup st));
             window = (case runs of [] \<Rightarrow> analysisBoundsFromRow None False
                       | r # _ \<Rightarrow> apdex_bounds (test_run.truncate r) False);
             has_rollup = list_ex (\<lambda>s. ts_test_run_id s = testRunId) (ro_tx_stats (ek_rollup st));
             has_transactions = list_ex (\<lambda>r. tx_test_run_id r = testRunId \<and> in_bounds window (tx_time r))
               (ro_transactions (ek_rollup st))
         in if has_rollup \<or> \<not> has_transactions then (False, st)
            else (True, st\<lparr>ek_rollup := snd (rollup_execute (la_digest env)
                           (\<not> la_fails env testRunId AtRollup) testRunId (ek_rollup st))\<rparr>)))"

text \<open>The main transaction of a run: the error rolls everything back, the counters in memory stay.\<close>

definition main_transaction ::
  "'k checks_env \<Rightarrow> checks_filter \<Rightarrow> string \<Rightarrow> 'k checks_state \<times> checks_result \<Rightarrow> 'k checks_state \<times> checks_result" where
  "main_transaction env mf testRunId = (\<lambda>(st, res).
     let failed = (\<lambda>res. (st, res\<lparr>pr_failed := pr_failed res @ [(testRunId, RunFailed)]\<rparr>));
         commit = (\<lambda>st' res'. if la_fails env testRunId AtCommit then failed res' else (st', res'))
     in if la_fails env testRunId AtLoad then failed res
        else case filter (\<lambda>r. tr_test_run_id r = testRunId) (ek_runs st) of
               [] \<Rightarrow> commit st (res\<lparr>pr_failed := pr_failed res @ [(testRunId, RunNotFound)]\<rparr>)
             | run # _ \<Rightarrow>
                 (case deleteExistingCheckResults testRunId mf (ek_results st) of
                    Inl _ \<Rightarrow> failed res
                  | Inr rows \<Rightarrow>
                      (case processSingleTestRun env mf (test_run.truncate run) (st\<lparr>ek_results := rows\<rparr>) of
                         Inl _ \<Rightarrow> failed res
                       | Inr (st', acc) \<Rightarrow>
                           commit st' (res\<lparr>pr_test_runs := Suc (pr_test_runs res),
                              pr_benchmarks := pr_benchmarks res + ra_processed acc,
                              pr_check_results := pr_check_results res + ra_created acc\<rparr>))))"

definition run_step ::
  "'k checks_env \<Rightarrow> checks_filter \<Rightarrow> nat \<times> 'k checks_state \<times> checks_result \<Rightarrow> string
     \<Rightarrow> nat \<times> 'k checks_state \<times> checks_result" where
  "run_step env mf = (\<lambda>(budget, st, res) testRunId.
     if la_fails env testRunId AtStatus
     then (budget, st, res\<lparr>pr_failed := pr_failed res @ [(testRunId, RunFailed)]\<rparr>)
     else
       (let st1 = updateTestRunStatus testRunId ''IN_PROGRESS'' st;
            (spent, st2) = (if 0 < budget then ensureTransactionRollup env testRunId st1 else (False, st1))
        in (if spent then budget - 1 else budget, main_transaction env mf testRunId (st2, res))))"

definition runCheckPipeline ::
  "'k checks_env \<Rightarrow> checks_filter \<Rightarrow> bool \<Rightarrow> string list \<Rightarrow> 'k checks_state \<Rightarrow> 'k checks_state \<times> checks_result" where
  "runCheckPipeline env mf repairRollup testRunIds st =
     snd (foldl (run_step env mf) (if repairRollup then 1 else 0, st,
       \<lparr>pr_test_runs = 0, pr_benchmarks = 0, pr_check_results = 0, pr_failed = []\<rparr>) testRunIds)"

text \<open>\<open>NOT IN\<close> of SQL: a null is in no list but the empty one.\<close>

definition sql_not_in :: "string option \<Rightarrow> string list \<Rightarrow> bool" where
  "sql_not_in x xs = (xs = [] \<or> (case x of None \<Rightarrow> False | Some y \<Rightarrow> y \<notin> set xs))"

definition cleanupStaleApplicationDashboards :: "'k checks_state \<Rightarrow> 'k checks_state" where
  "cleanupStaleApplicationDashboards st =
     st\<lparr>ek_results := filter (\<lambda>c. \<not> (sql_not_in (cw_application_dashboard_id c) (ek_dashboards st)
          \<and> sql_not_in (cw_application_dashboard_id c) (ek_dynatrace_dashboards st))) (ek_results st)\<rparr>"

text \<open>\<open>sweep_ok\<close>: the sweep does not throw; its error is logged only.\<close>

definition checks_execute ::
  "'k checks_env \<Rightarrow> bool \<Rightarrow> checks_filter \<Rightarrow> bool \<Rightarrow> string list \<Rightarrow> 'k checks_state
     \<Rightarrow> (string + checks_result) \<times> 'k checks_state" where
  "checks_execute env sweep_ok mf repairRollup testRunIds st =
     (if testRunIds = [] then (Inl ''CHECKS_PIPELINE_FAILED'', st)
      else
        (let st1 = (if sweep_ok then cleanupStaleApplicationDashboards st else st);
             (st2, res) = runCheckPipeline env mf repairRollup testRunIds st1
         in (Inr res, st2)))"


section \<open>What a benchmark stores\<close>

text \<open>The shape of a stored row, for each of the three kinds.\<close>

definition row_typed :: "check_row \<Rightarrow> bool" where
  "row_typed c =
     (case cw_targets c of
        MetricTargets ts \<Rightarrow> is_metric (cw_requirement c) \<and> cw_application_dashboard_id c \<noteq> None
          \<and> cw_status c = (if ts = [] then ''ERROR'' else ''COMPLETE'')
          \<and> (ts = [] \<longrightarrow> cw_meets_requirement c = None)
      | AggregatedTarget label v m \<Rightarrow> is_aggregated (cw_requirement c) \<and> cw_panel_type c = ''aggregated''
          \<and> cw_application_dashboard_id c = None \<and> cw_panel_id c = None \<and> label = cw_panel_title c
          \<and> v = cw_panel_average c \<and> m = cw_meets_requirement c \<and> (v = None \<longleftrightarrow> m = None)
          \<and> cw_status c = (if v = None then ''NO_DATA'' else ''COMPLETE'')
      | _ \<Rightarrow> is_apdex (cw_requirement c) \<and> cw_panel_type c = ''apdex''
          \<and> cw_application_dashboard_id c = None \<and> cw_panel_id c = None
          \<and> cw_status c \<in> {''COMPLETE'', ''ERROR'', ''NO_DATA''}
          \<and> (cw_status c = ''NO_DATA'' \<longrightarrow> cw_meets_requirement c = Some False))"

lemma createCheckResult_ids:
  assumes "createCheckResult validate run b agg = Inr (Some cr)"
  shows "cr_test_run_id cr = tr_test_run_id run" "cr_benchmark_id cr = bm_id b"
proof -
  have v: "hasValidRequirement b" and o: "truthy_str (tr_organization_id run)"
    using assms by (auto simp: createCheckResult_def Let_def split: if_splits prod.splits)
  note get = arg_cong [OF assms, of "\<lambda>x. f (the (projr x))" for f]
  show "cr_test_run_id cr = tr_test_run_id run"
    using get [of cr_test_run_id] v o by (simp add: createCheckResult_def Let_def judge_targets_map)
  show "cr_benchmark_id cr = bm_id b"
    using get [of cr_benchmark_id] v o by (simp add: createCheckResult_def Let_def judge_targets_map)
qed

lemma createCheckResult_none: "createCheckResult validate run b agg = Inr None \<Longrightarrow> \<not> hasValidRequirement b"
  by (auto simp: createCheckResult_def Let_def split: if_splits prod.splits)

lemma metric_row_typed:
  assumes "createCheckResult validate run b agg = Inr (Some cr)"
  shows "row_typed (saveCheckResult cr)"
  using createCheckResult_fields [OF assms]
  by (simp add: row_typed_def saveCheckResult_def judged_targets_def)

lemma apdex_no_data:
  "xc_status (evaluateApdexBenchmark tk db threw bulk scan run slo) = ApNoData
     \<Longrightarrow> xc_meets (evaluateApdexBenchmark tk db threw bulk scan run slo) = Some False"
  by (auto simp: evaluateApdexBenchmark_def evaluateSingleTransaction_def evaluateWorkloadLevelApdex_def
      workload_check_def Let_def split: if_splits)

lemma apdex_row_typed:
  "row_typed (saveApdexCheckResult run b (evaluateApdexBenchmark tk db threw bulk scan run' slo))"
  using apdex_no_data [of tk db threw bulk scan run' slo]
  by (cases "xc_status (evaluateApdexBenchmark tk db threw bulk scan run' slo)")
    (auto simp: row_typed_def saveApdexCheckResult_def apdex_status_text_def split: option.splits list.splits)

lemma aggregated_row_typed:
  "row_typed (saveAggregatedCheckResult run b (evaluate db True run' slo))"
  by (auto simp: row_typed_def saveAggregatedCheckResult_def evaluate_def Let_def agg_status_text_def
      split: option.splits)

lemma save_ids [simp]:
  "cw_test_run_id (saveCheckResult c) = cr_test_run_id c" "cw_benchmark_id (saveCheckResult c) = cr_benchmark_id c"
  "cw_test_run_id (saveApdexCheckResult run b x) = tr_test_run_id run"
  "cw_benchmark_id (saveApdexCheckResult run b x) = bm_id b"
  "cw_test_run_id (saveAggregatedCheckResult run b g) = tr_test_run_id run"
  "cw_benchmark_id (saveAggregatedCheckResult run b g) = bm_id b"
  by (simp_all add: saveCheckResult_def saveApdexCheckResult_def saveAggregatedCheckResult_def Let_def)

lemma insert_row_Judged [simp]:
  "insert_row env row m = Judged x m' \<longleftrightarrow> la_accepts env row \<and> x = Some row \<and> m' = m"
  by (auto simp: insert_row_def)

text \<open>A row that a benchmark stores is its own; a valid benchmark that does not fail stores one.\<close>

lemma process_benchmark_row:
  assumes "process_benchmark env run mf st b = Judged (Some row) m"
  shows "cw_test_run_id row = tr_test_run_id run" "cw_benchmark_id row = bm_id b" "row_typed row" "la_accepts env row"
  using assms apdex_row_typed aggregated_row_typed metric_row_typed createCheckResult_ids
  by (auto simp: process_benchmark_def Let_def split: if_splits sum.splits prod.splits option.splits)

lemma process_benchmark_stores:
  assumes "process_benchmark env run mf st b = Judged x m" "isBenchmarkValid b"
  shows "x \<noteq> None"
proof
  assume "x = None"
  with assms(1) have "bm_benchmark_type b \<noteq> ''apdex''" "bm_benchmark_type b \<noteq> ''aggregated''" "\<not> hasValidRequirement b"
    by (auto simp: process_benchmark_def Let_def dest: createCheckResult_none
        split: if_splits sum.splits prod.splits option.splits)
  then show False using assms(2)
    by (auto simp: isBenchmarkValid_def hasValidRequirement_def truthy_str_def split: if_splits option.splits)
qed

section \<open>The loop over the benchmarks\<close>

definition kept_rows :: "check_row option \<Rightarrow> check_row list" where
  "kept_rows x = (case x of None \<Rightarrow> [] | Some row \<Rightarrow> [row])"

text \<open>A step either leaves the tables and records a failure, or stores its row.\<close>

lemma benchmark_step_cases:
  obtains (failed) n where "\<And>x m. process_benchmark env run mf st b \<noteq> Judged x m"
      "benchmark_step env run mf (st, acc) b
         = (st, acc\<lparr>ra_processed := n, ra_failed := ra_failed acc @ [bm_id b]\<rparr>)"
  | (judged) x m n k where "process_benchmark env run mf st b = Judged x m"
      "benchmark_step env run mf (st, acc) b
         = (st\<lparr>ek_results := ek_results st @ kept_rows x, ek_metrics := m\<rparr>,
            acc\<lparr>ra_processed := n, ra_created := k,
              ra_checks := ra_checks acc @ map (\<lambda>c. (cw_status c, cw_meets_requirement c)) (kept_rows x)\<rparr>)"
proof (cases "process_benchmark env run mf st b")
  case FailedBefore
  then show ?thesis by (intro failed [of "ra_processed acc"]) (simp_all add: benchmark_step_def)
next
  case FailedAfter
  then show ?thesis by (intro failed [of "Suc (ra_processed acc)"]) (simp_all add: benchmark_step_def)
next
  case (Judged x m)
  show ?thesis
  proof (cases x)
    case None
    have "benchmark_step env run mf (st, acc) b
         = (st\<lparr>ek_results := ek_results st @ kept_rows x, ek_metrics := m\<rparr>,
            acc\<lparr>ra_processed := Suc (ra_processed acc), ra_created := ra_created acc,
              ra_checks := ra_checks acc @ map (\<lambda>c. (cw_status c, cw_meets_requirement c)) (kept_rows x)\<rparr>)"
      by (simp add: benchmark_step_def kept_rows_def Judged None)
    with Judged show ?thesis by (rule judged)
  next
    case (Some row)
    have "benchmark_step env run mf (st, acc) b
         = (st\<lparr>ek_results := ek_results st @ kept_rows x, ek_metrics := m\<rparr>,
            acc\<lparr>ra_processed := Suc (ra_processed acc), ra_created := Suc (ra_created acc),
              ra_checks := ra_checks acc @ map (\<lambda>c. (cw_status c, cw_meets_requirement c)) (kept_rows x)\<rparr>)"
      by (simp add: benchmark_step_def kept_rows_def Judged Some)
    with Judged show ?thesis by (rule judged)
  qed
qed

text \<open>The rows a loop stores, the benchmarks it lost, and the metric tables it leaves.\<close>

definition loop_rel where
  "loop_rel env run bs st acc st' acc' new fs m \<longleftrightarrow>
     st' = st\<lparr>ek_results := ek_results st @ new, ek_metrics := m\<rparr>
     \<and> ra_checks acc' = ra_checks acc @ map (\<lambda>c. (cw_status c, cw_meets_requirement c)) new
     \<and> ra_failed acc' = ra_failed acc @ fs"

definition rows_of where
  "rows_of env run bs new fs \<longleftrightarrow>
     (\<forall>c \<in> set new. cw_test_run_id c = tr_test_run_id run \<and> row_typed c \<and> la_accepts env c
        \<and> cw_benchmark_id c \<in> bm_id ` set bs)
     \<and> set fs \<subseteq> bm_id ` set bs
     \<and> (\<forall>b \<in> set bs. isBenchmarkValid b \<longrightarrow> bm_id b \<in> set fs \<or> (\<exists>c \<in> set new. cw_benchmark_id c = bm_id b))"

lemma rows_of_simps:
  "rows_of env run [] [] []"
  "rows_of env run bs new fs \<Longrightarrow> rows_of env run (b # bs) new (bm_id b # fs)"
  by (auto simp: rows_of_def)

lemma rows_of_kept:
  assumes "process_benchmark env run mf st b = Judged x m" "rows_of env run bs new fs"
  shows "rows_of env run (b # bs) (kept_rows x @ new) fs"
proof -
  have own: "\<forall>c \<in> set (kept_rows x). cw_test_run_id c = tr_test_run_id run \<and> row_typed c \<and> la_accepts env c
      \<and> cw_benchmark_id c = bm_id b"
    using process_benchmark_row assms(1) by (auto simp: kept_rows_def split: option.splits)
  have "isBenchmarkValid b \<Longrightarrow> \<exists>c \<in> set (kept_rows x). cw_benchmark_id c = bm_id b"
    using own process_benchmark_stores [OF assms(1)] by (cases x) (auto simp: kept_rows_def)
  then show ?thesis using own assms(2) unfolding rows_of_def by auto
qed

lemma loop_facts:
  assumes "foldl (benchmark_step env run mf) (st, acc) bs = (st', acc')"
  shows "\<exists>new fs m. loop_rel env run bs st acc st' acc' new fs m \<and> rows_of env run bs new fs"
  using assms
proof (induction bs arbitrary: st acc)
  case Nil
  then have "loop_rel env run [] st acc st' acc' [] [] (ek_metrics st)" by (simp add: loop_rel_def)
  then show ?case using rows_of_simps(1) by blast
next
  case (Cons b bs)
  show ?case
  proof (cases rule: benchmark_step_cases [of env run mf st b acc])
    case (failed n)
    from Cons.prems have "foldl (benchmark_step env run mf)
        (st, acc\<lparr>ra_processed := n, ra_failed := ra_failed acc @ [bm_id b]\<rparr>) bs = (st', acc')"
      by (simp only: foldl_Cons failed(2))
    from Cons.IH [OF this] obtain new fs m where n: "loop_rel env run bs st
        (acc\<lparr>ra_processed := n, ra_failed := ra_failed acc @ [bm_id b]\<rparr>) st' acc' new fs m"
        "rows_of env run bs new fs"
      by blast
    then have "loop_rel env run (b # bs) st acc st' acc' new (bm_id b # fs) m"
      by (simp add: loop_rel_def)
    then show ?thesis using rows_of_simps(2) [OF n(2)] by blast
  next
    case (judged x m n k)
    from Cons.prems have "foldl (benchmark_step env run mf)
        (st\<lparr>ek_results := ek_results st @ kept_rows x, ek_metrics := m\<rparr>,
         acc\<lparr>ra_processed := n, ra_created := k,
          ra_checks := ra_checks acc @ map (\<lambda>c. (cw_status c, cw_meets_requirement c)) (kept_rows x)\<rparr>) bs
        = (st', acc')"
      by (simp only: foldl_Cons judged(2))
    from Cons.IH [OF this] obtain new fs m' where
      "loop_rel env run bs (st\<lparr>ek_results := ek_results st @ kept_rows x, ek_metrics := m\<rparr>)
        (acc\<lparr>ra_processed := n, ra_created := k,
          ra_checks := ra_checks acc @ map (\<lambda>c. (cw_status c, cw_meets_requirement c)) (kept_rows x)\<rparr>)
        st' acc' new fs m'"
      and r: "rows_of env run bs new fs"
      by blast
    then have "loop_rel env run (b # bs) st acc st' acc' (kept_rows x @ new) fs m'"
      by (simp add: loop_rel_def)
    then show ?thesis using rows_of_kept [OF judged(1) r] by blast
  qed
qed


text \<open>The benchmarks a loop loses, and the tables it leaves, without its counters.\<close>

fun lost_ids :: "'k checks_env \<Rightarrow> test_run \<Rightarrow> checks_filter \<Rightarrow> 'k checks_state \<Rightarrow> benchmark list \<Rightarrow> string list" where
  "lost_ids env run mf st [] = []"
| "lost_ids env run mf st (b # bs) =
     (case process_benchmark env run mf st b of
        Judged x m \<Rightarrow> lost_ids env run mf (st\<lparr>ek_results := ek_results st @ kept_rows x, ek_metrics := m\<rparr>) bs
      | _ \<Rightarrow> bm_id b # lost_ids env run mf st bs)"

fun tables_after :: "'k checks_env \<Rightarrow> test_run \<Rightarrow> checks_filter \<Rightarrow> 'k checks_state \<Rightarrow> benchmark list \<Rightarrow> 'k checks_state" where
  "tables_after env run mf st [] = st"
| "tables_after env run mf st (b # bs) =
     (case process_benchmark env run mf st b of
        Judged x m \<Rightarrow> tables_after env run mf (st\<lparr>ek_results := ek_results st @ kept_rows x, ek_metrics := m\<rparr>) bs
      | _ \<Rightarrow> tables_after env run mf st bs)"

lemma loop_tables:
  "\<exists>acc'. foldl (benchmark_step env run mf) (st, acc) bs = (tables_after env run mf st bs, acc')
     \<and> ra_failed acc' = ra_failed acc @ lost_ids env run mf st bs"
proof (induction bs arbitrary: st acc)
  case (Cons b bs)
  show ?case
  proof (cases rule: benchmark_step_cases [of env run mf st b acc])
    case (failed n)
    then have "tables_after env run mf st (b # bs) = tables_after env run mf st bs"
        "lost_ids env run mf st (b # bs) = bm_id b # lost_ids env run mf st bs"
      by (auto split: bench_outcome.splits)
    then show ?thesis
      using Cons.IH [of st "acc\<lparr>ra_processed := n, ra_failed := ra_failed acc @ [bm_id b]\<rparr>"]
      by (simp add: failed(2))
  next
    case (judged x m n k)
    then show ?thesis
      using Cons.IH [of "st\<lparr>ek_results := ek_results st @ kept_rows x, ek_metrics := m\<rparr>"
          "acc\<lparr>ra_processed := n, ra_created := k,
            ra_checks := ra_checks acc @ map (\<lambda>c. (cw_status c, cw_meets_requirement c)) (kept_rows x)\<rparr>"]
      by (simp add: judged(1,2))
  qed
qed simp

lemma lost_ids_subset: "set (lost_ids env run mf st bs) \<subseteq> bm_id ` set bs"
  by (induction bs arbitrary: st) (auto split: bench_outcome.splits)

lemma without_head: "L \<inter> insert x A \<subseteq> insert x F \<Longrightarrow> x \<notin> A \<Longrightarrow> L \<inter> A \<subseteq> F"
  by blast

lemma lost_leave_nothing:
  assumes "distinct (map bm_id bs)" "set (lost_ids env run mf st bs) \<subseteq> L" "L \<inter> bm_id ` set bs \<subseteq> set (lost_ids env run mf st bs)"
  shows "tables_after env run mf st (filter (\<lambda>b. bm_id b \<notin> L) bs) = tables_after env run mf st bs
    \<and> lost_ids env run mf st (filter (\<lambda>b. bm_id b \<notin> L) bs) = []"
  using assms
proof (induction bs arbitrary: st)
  case (Cons b bs)
  show ?case
  proof (cases "process_benchmark env run mf st b")
    case (Judged x m)
    let ?st = "st\<lparr>ek_results := ek_results st @ kept_rows x, ek_metrics := m\<rparr>"
    have "bm_id b \<notin> L"
      using Cons.prems(1,3) Judged lost_ids_subset [of env run mf ?st bs] by auto
    then show ?thesis using Cons.IH [of ?st] Cons.prems Judged by auto
  next
    case FailedBefore
    then have "bm_id b \<in> L" "L \<inter> insert (bm_id b) (bm_id ` set bs) \<subseteq> insert (bm_id b) (set (lost_ids env run mf st bs))"
      using Cons.prems by simp_all
    moreover from this(2) have "L \<inter> bm_id ` set bs \<subseteq> set (lost_ids env run mf st bs)"
      by (rule without_head) (use Cons.prems in simp)
    ultimately have "bm_id b \<in> L" "L \<inter> bm_id ` set bs \<subseteq> set (lost_ids env run mf st bs)" by blast+
    then show ?thesis using Cons.IH [of st] Cons.prems FailedBefore by simp
  next
    case FailedAfter
    then have "bm_id b \<in> L" "L \<inter> insert (bm_id b) (bm_id ` set bs) \<subseteq> insert (bm_id b) (set (lost_ids env run mf st bs))"
      using Cons.prems by simp_all
    moreover from this(2) have "L \<inter> bm_id ` set bs \<subseteq> set (lost_ids env run mf st bs)"
      by (rule without_head) (use Cons.prems in simp)
    ultimately have "bm_id b \<in> L" "L \<inter> bm_id ` set bs \<subseteq> set (lost_ids env run mf st bs)" by blast+
    then show ?thesis using Cons.IH [of st] Cons.prems FailedAfter by simp
  qed
qed simp

text \<open>
  C6: the savepoints isolate the benchmarks of a run. A benchmark that fails, wherever it fails,
  leaves no trace in the tables: they are what a loop over the other benchmarks alone leaves, which
  loses none of them and sees the same verdicts.
\<close>

theorem savepoint_isolation:
  assumes "foldl (benchmark_step env run mf) (st, empty_acc) bs = (st', acc)"
    and "distinct (map bm_id bs)"
  shows "\<exists>acc'. foldl (benchmark_step env run mf) (st, empty_acc)
             (filter (\<lambda>b. bm_id b \<notin> set (ra_failed acc)) bs) = (st', acc')
           \<and> ra_failed acc' = [] \<and> ra_checks acc' = ra_checks acc"
proof -
  have st': "st' = tables_after env run mf st bs" and lost: "ra_failed acc = lost_ids env run mf st bs"
    using loop_tables [of env run mf st empty_acc bs] assms(1) by (auto simp: empty_acc_def)
  let ?rest = "filter (\<lambda>b. bm_id b \<notin> set (ra_failed acc)) bs"
  obtain acc' where f: "foldl (benchmark_step env run mf) (st, empty_acc) ?rest = (tables_after env run mf st ?rest, acc')"
      "ra_failed acc' = lost_ids env run mf st ?rest"
    using loop_tables [of env run mf st empty_acc ?rest] by (auto simp: empty_acc_def)
  have t: "tables_after env run mf st ?rest = st'" "lost_ids env run mf st ?rest = []"
    using lost_leave_nothing [OF assms(2), of env run mf st "set (ra_failed acc)"] st' lost by simp_all
  obtain new fs m where n: "loop_rel env run bs st empty_acc st' acc new fs m"
    using loop_facts [OF assms(1)] by blast
  obtain new' fs' m' where n': "loop_rel env run ?rest st empty_acc st' acc' new' fs' m'"
    using loop_facts [OF f(1) [unfolded t(1)]] by blast
  from n have "ek_results st' = ek_results st @ new" by (simp add: loop_rel_def)
  moreover from n' have "ek_results st' = ek_results st @ new'" by (simp add: loop_rel_def)
  ultimately have "new = new'" by simp
  moreover have "ra_checks acc = ra_checks empty_acc @ map (\<lambda>c. (cw_status c, cw_meets_requirement c)) new"
      "ra_checks acc' = ra_checks empty_acc @ map (\<lambda>c. (cw_status c, cw_meets_requirement c)) new'"
    using n n' unfolding loop_rel_def by blast+
  ultimately have "ra_checks acc' = ra_checks acc" by simp
  then show ?thesis using f t by auto
qed

section \<open>One run\<close>

lemma update_run_fields [simp]:
  "ek_results (update_run i f st) = ek_results st" "ek_benchmarks (update_run i f st) = ek_benchmarks st"
  "ek_metrics (update_run i f st) = ek_metrics st" "ek_rollup (update_run i f st) = ek_rollup st"
  "ek_dashboards (update_run i f st) = ek_dashboards st"
  "ek_runs (update_run i f st) = map (\<lambda>r. if tr_test_run_id r = i then f r else r) (ek_runs st)"
  by (simp_all add: update_run_def)

definition erroneous :: "check_row list \<Rightarrow> string list \<Rightarrow> bool" where
  "erroneous new fs = (list_ex (\<lambda>c. cw_status c = ''ERROR'') new \<or> fs \<noteq> [])"

text \<open>What an evaluation writes into the record of its run.\<close>

definition judged_run :: "check_row list \<Rightarrow> check_row list \<Rightarrow> string list \<Rightarrow> checks_run \<Rightarrow> checks_run" where
  "judged_run own new fs r =
     r\<lparr>vw_evaluatingChecks := Some (if erroneous new fs then ''ERROR'' else ''COMPLETED''),
       vw_valid := Some (\<not> erroneous new fs),
       vw_consolidated :=
         (if fs \<noteq> [] then Some \<lparr>cj_meetsRequirement = False, cj_overall = False, cj_error = True\<rparr>
          else if own = [] then vw_consolidated r
          else (let meet = list_all (\<lambda>c. nullish (cw_meets_requirement c) True) own
                in Some \<lparr>cj_meetsRequirement = meet, cj_overall = meet, cj_error = False\<rparr>))\<rparr>"

lemma finish_run_eq:
  assumes "ra_checks acc = map (\<lambda>c. (cw_status c, cw_meets_requirement c)) new" "ra_failed acc = fs"
  shows "ek_runs (finish_run i acc st)
      = map (\<lambda>r. if tr_test_run_id r = i
                 then judged_run (filter (\<lambda>c. cw_test_run_id c = i) (ek_results st)) new fs r else r) (ek_runs st)"
    and "ek_results (finish_run i acc st) = ek_results st"
proof -
  have e: "(list_ex (\<lambda>c. fst c = ''ERROR'') (ra_checks acc) \<or> ra_failed acc \<noteq> []) = erroneous new fs"
    by (auto simp: assms erroneous_def list_ex_iff)
  show "ek_results (finish_run i acc st) = ek_results st"
    by (simp add: finish_run_def updateConsolidatedResult_def markTestRunInvalid_def markTestRunValid_def
        updateTestRunStatus_def Let_def)
  show "ek_runs (finish_run i acc st)
      = map (\<lambda>r. if tr_test_run_id r = i
                 then judged_run (filter (\<lambda>c. cw_test_run_id c = i) (ek_results st)) new fs r else r) (ek_runs st)"
    unfolding finish_run_def e Let_def
    by (simp add: assms(2) updateConsolidatedResult_def markTestRunInvalid_def markTestRunValid_def
        updateTestRunStatus_def Let_def judged_run_def)
qed

lemma main_transaction_done:
  assumes "main_transaction env mf i (st, res) = (st', res')" "pr_failed res' = pr_failed res"
  obtains run rest rows acc where "filter (\<lambda>r. tr_test_run_id r = i) (ek_runs st) = run # rest"
    "tr_test_run_id run = i" "deleteExistingCheckResults i mf (ek_results st) = Inr rows"
    "processSingleTestRun env mf (test_run.truncate run) (st\<lparr>ek_results := rows\<rparr>) = Inr (st', acc)"
proof -
  from assms obtain run rest where r: "filter (\<lambda>r. tr_test_run_id r = i) (ek_runs st) = run # rest"
    by (auto simp: main_transaction_def Let_def split: if_splits list.splits)
  then have "tr_test_run_id run = i" by (auto simp: filter_eq_Cons_iff)
  with assms r that show ?thesis
    by (auto simp: main_transaction_def Let_def split: if_splits sum.splits)
qed

lemma processSingleTestRun_cases:
  assumes "processSingleTestRun env mf run st = Inr (st', acc)"
  obtains (unconfigured) "st' = updateTestRunStatus (tr_test_run_id run) ''NOT_CONFIGURED'' st"
    | (judged) bs new fs where "findMatchingBenchmarks (ek_benchmarks st) run (Some (plain_filter mf)) = Inr bs" "bs \<noteq> []"
      "rows_of env run bs new fs" "ek_results st' = ek_results st @ new"
      "ek_runs st' = map (\<lambda>r. if tr_test_run_id r = tr_test_run_id run
         then judged_run (filter (\<lambda>c. cw_test_run_id c = tr_test_run_id run) (ek_results st @ new)) new fs r else r) (ek_runs st)"
proof -
  consider (none) "st' = updateTestRunStatus (tr_test_run_id run) ''NOT_CONFIGURED'' st"
    | (some) bs st1 where "findMatchingBenchmarks (ek_benchmarks st) run (Some (plain_filter mf)) = Inr bs" "bs \<noteq> []"
      "foldl (benchmark_step env run mf) (st, empty_acc) bs = (st1, acc)" "st' = finish_run (tr_test_run_id run) acc st1"
    using assms by (auto simp: processSingleTestRun_def Let_def split: if_splits sum.splits list.splits prod.splits)
  then show ?thesis
  proof cases
    case none
    then show ?thesis by (rule unconfigured)
  next
    case some
    obtain new fs m where l: "loop_rel env run bs st empty_acc st1 acc new fs m" "rows_of env run bs new fs"
      using loop_facts [OF some(3)] by blast
    then have "ra_checks acc = map (\<lambda>c. (cw_status c, cw_meets_requirement c)) new" "ra_failed acc = fs"
        "ek_results st1 = ek_results st @ new" "ek_runs st1 = ek_runs st"
      by (simp_all add: loop_rel_def empty_acc_def)
    then show ?thesis
      using judged [OF some(1,2) l(2)] finish_run_eq [of acc new fs "tr_test_run_id run" st1] some(4) by simp
  qed
qed

lemma mapped_run:
  assumes "r' \<in> set rs'" "rs' = map (\<lambda>r. if tr_test_run_id r = i then f r else r) rs" "tr_test_run_id r' = i"
  shows "\<exists>r. r' = f r"
proof -
  obtain r where "r' = (if tr_test_run_id r = i then f r else r)"
    using assms(1) unfolding assms(2) set_map by blast
  then show ?thesis using assms(3) by (cases "tr_test_run_id r = i") auto
qed

text \<open>
  C3: a green run was judged. When the evaluation of a run ends with the status \<open>COMPLETED\<close> and its
  consolidated result says that all is met, the run is valid and every benchmark that matches it has
  a result in the table: one of this run that is not an error and whose verdict is not negative.
\<close>

theorem green_run_judged:
  assumes "main_transaction env mf testRunId (st, res) = (st', res')" and "pr_failed res' = pr_failed res"
    and "hd (filter (\<lambda>r. tr_test_run_id r = testRunId) (ek_runs st)) = run"
    and "r' \<in> set (ek_runs st')" and "tr_test_run_id r' = testRunId"
    and "vw_evaluatingChecks r' = Some ''COMPLETED''" and "vw_consolidated r' = Some c" and "cj_overall c"
  shows "\<exists>bs. findMatchingBenchmarks (ek_benchmarks st) (test_run.truncate run) (Some (plain_filter mf)) = Inr bs
    \<and> bs \<noteq> [] \<and> vw_valid r' = Some True
    \<and> (\<forall>b \<in> set bs. \<exists>row \<in> set (ek_results st'). cw_test_run_id row = testRunId \<and> cw_benchmark_id row = bm_id b
         \<and> cw_status row \<noteq> ''ERROR'' \<and> cw_meets_requirement row \<noteq> Some False)"
proof -
  obtain rest rows acc where i: "tr_test_run_id run = testRunId"
    and p: "processSingleTestRun env mf (test_run.truncate run) (st\<lparr>ek_results := rows\<rparr>) = Inr (st', acc)"
    using main_transaction_done [OF assms(1,2)] assms(3) by (metis list.sel(1))
  have i': "tr_test_run_id (test_run.truncate run) = testRunId" using i by (simp add: test_run.defs)
  show ?thesis
    using p
  proof (cases rule: processSingleTestRun_cases)
    case unconfigured
    then have "ek_runs st' = map (\<lambda>r. if tr_test_run_id r = testRunId
        then r\<lparr>vw_evaluatingChecks := Some ''NOT_CONFIGURED''\<rparr> else r) (ek_runs st)"
      by (simp add: updateTestRunStatus_def i')
    from mapped_run [OF assms(4) this assms(5)] obtain r where
      "r' = r\<lparr>vw_evaluatingChecks := Some ''NOT_CONFIGURED''\<rparr>" by blast
    then have "vw_evaluatingChecks r' = Some ''NOT_CONFIGURED''" by simp
    then show ?thesis using assms(6) by simp
  next
    case (judged bs new fs)
    let ?own = "filter (\<lambda>c. cw_test_run_id c = testRunId) (rows @ new)"
    have find: "findMatchingBenchmarks (ek_benchmarks st) (test_run.truncate run) (Some (plain_filter mf)) = Inr bs"
      using judged(1) by simp
    then have valid: "\<forall>b \<in> set bs. isBenchmarkValid b"
      by (auto simp: findMatchingBenchmarks_def Let_def split: if_splits)
    obtain r where r: "r' = judged_run ?own new fs r"
    proof -
      from judged(5) have "ek_runs st' = map (\<lambda>r. if tr_test_run_id r = testRunId then judged_run ?own new fs r else r)
          (ek_runs st)" by (simp add: i')
      from mapped_run [OF assms(4) this assms(5)] that show thesis by blast
    qed
    have ok: "\<not> erroneous new fs" using assms(6) r by (simp add: judged_run_def split: if_splits)
    then have fs: "fs = []" and status: "\<forall>c \<in> set new. cw_status c \<noteq> ''ERROR''"
      by (auto simp: erroneous_def list_ex_iff)
    have stored: "\<forall>b \<in> set bs. \<exists>c \<in> set new. cw_benchmark_id c = bm_id b \<and> cw_test_run_id c = testRunId"
      using judged(3) valid fs i' unfolding rows_of_def by fastforce
    have "?own \<noteq> []" using stored judged(2) by (cases bs) (auto simp: filter_empty_conv)
    then have "list_all (\<lambda>c. nullish (cw_meets_requirement c) True) ?own"
      using assms(7,8) fs r by (auto simp: judged_run_def Let_def)
    then have "\<forall>c \<in> set new. cw_test_run_id c = testRunId \<longrightarrow> cw_meets_requirement c \<noteq> Some False"
      by (auto simp: list_all_iff nullish_def split: option.splits)
    moreover have "set new \<subseteq> set (ek_results st')" using judged(4) by auto
    ultimately have "\<forall>b \<in> set bs. \<exists>row \<in> set (ek_results st'). cw_test_run_id row = testRunId
        \<and> cw_benchmark_id row = bm_id b \<and> cw_status row \<noteq> ''ERROR'' \<and> cw_meets_requirement row \<noteq> Some False"
      using stored status by (meson subsetD)
    moreover have "vw_valid r' = Some True" using r ok by (simp add: judged_run_def)
    ultimately show ?thesis using find judged(2) by blast
  qed
qed

section \<open>The batch\<close>

lemma main_transaction_state:
  assumes "main_transaction env mf i (st, res) = (st', res')"
  obtains (undone) "st' = st"
    | (committed) run :: checks_run and rows acc where "tr_test_run_id run = i" "deleteExistingCheckResults i mf (ek_results st) = Inr rows"
      "processSingleTestRun env mf (test_run.truncate run) (st\<lparr>ek_results := rows\<rparr>) = Inr (st', acc)"
proof (cases "filter (\<lambda>r. tr_test_run_id r = i) (ek_runs st)")
  case Nil
  then have "st' = st" using assms by (auto simp: main_transaction_def Let_def split: if_splits)
  then show ?thesis by (rule undone)
next
  case (Cons run rest)
  then have "tr_test_run_id run = i" by (auto simp: filter_eq_Cons_iff)
  moreover have "st' = st \<or> (\<exists>rows acc. deleteExistingCheckResults i mf (ek_results st) = Inr rows
      \<and> processSingleTestRun env mf (test_run.truncate run) (st\<lparr>ek_results := rows\<rparr>) = Inr (st', acc))"
    using assms Cons by (auto simp: main_transaction_def Let_def split: if_splits sum.splits)
  ultimately show ?thesis using undone committed by blast
qed

lemma deleted_rows:
  "deleteExistingCheckResults i mf rows = Inr rows' \<Longrightarrow>
     filter (\<lambda>c. cw_test_run_id c \<noteq> i) rows' = filter (\<lambda>c. cw_test_run_id c \<noteq> i) rows \<and> set rows' \<subseteq> set rows"
  by (cases "truthy_str (mf_metricsSourceId mf)")
    (auto simp: deleteExistingCheckResults_def conj_commute intro: filter_cong)

text \<open>The rows and the runs outside a set of runs.\<close>

definition others :: "string set \<Rightarrow> 'k checks_state \<Rightarrow> check_row list \<times> checks_run list" where
  "others ids st = (filter (\<lambda>c. cw_test_run_id c \<notin> ids) (ek_results st), filter (\<lambda>r. tr_test_run_id r \<notin> ids) (ek_runs st))"

lemma filter_map_other:
  "(\<And>r. tr_test_run_id (f r) = tr_test_run_id r) \<Longrightarrow> i \<in> ids \<Longrightarrow>
     filter (\<lambda>r. tr_test_run_id r \<notin> ids) (map (\<lambda>r. if tr_test_run_id r = i then f r else r) rs)
     = filter (\<lambda>r. tr_test_run_id r \<notin> ids) (rs :: checks_run list)"
  by (induction rs) auto

lemma others_update [simp]: "i \<in> ids \<Longrightarrow> others ids (updateTestRunStatus i s st) = others ids st"
  by (simp add: others_def updateTestRunStatus_def filter_map_other)

lemma main_transaction_kept:
  assumes "main_transaction env mf i (st, res) = (st', res')"
  shows "i \<in> ids \<Longrightarrow> others ids st' = others ids st"
    and "\<forall>c \<in> set (ek_results st). row_typed c \<Longrightarrow> \<forall>c \<in> set (ek_results st'). row_typed c"
proof -
  have "(i \<in> ids \<longrightarrow> others ids st' = others ids st)
    \<and> ((\<forall>c \<in> set (ek_results st). row_typed c) \<longrightarrow> (\<forall>c \<in> set (ek_results st'). row_typed c))"
    using assms
  proof (cases rule: main_transaction_state)
    case (committed run rows acc)
    have rows: "filter (\<lambda>c. cw_test_run_id c \<noteq> i) rows = filter (\<lambda>c. cw_test_run_id c \<noteq> i) (ek_results st)"
        "set rows \<subseteq> set (ek_results st)"
      using deleted_rows [OF committed(2)] by blast+
    have o: "filter (\<lambda>c. cw_test_run_id c \<notin> ids) rows = filter (\<lambda>c. cw_test_run_id c \<notin> ids) (ek_results st)" if "i \<in> ids"
    proof -
      have f: "filter (\<lambda>c. cw_test_run_id c \<notin> ids) xs
          = filter (\<lambda>c. cw_test_run_id c \<notin> ids) (filter (\<lambda>c. cw_test_run_id c \<noteq> i) xs)" for xs
        using that by (auto simp: filter_filter intro!: filter_cong)
      show ?thesis by (subst (1 2) f) (simp only: rows(1))
    qed
    have i': "tr_test_run_id (test_run.truncate run) = i" using committed(1) by (simp add: test_run.defs)
    from committed(3) show ?thesis
    proof (cases rule: processSingleTestRun_cases)
      case unconfigured
      then show ?thesis using o rows(2) i'
        by (auto simp: others_def updateTestRunStatus_def filter_map_other)
    next
      case (judged bs new fs)
      have "\<forall>c \<in> set new. cw_test_run_id c = i \<and> row_typed c"
        using judged(3) i' by (simp add: rows_of_def)
      then have "i \<in> ids \<Longrightarrow> filter (\<lambda>c. cw_test_run_id c \<notin> ids) new = []" "\<forall>c \<in> set new. row_typed c"
        by (auto simp: filter_empty_conv)
      moreover have "tr_test_run_id (judged_run own new fs r) = tr_test_run_id r" for own r
        by (simp add: judged_run_def)
      ultimately show ?thesis
        using o rows(2) judged(4,5) i' by (auto simp: others_def filter_map_other)
    qed
  qed simp
  then show "i \<in> ids \<Longrightarrow> others ids st' = others ids st"
    and "\<forall>c \<in> set (ek_results st). row_typed c \<Longrightarrow> \<forall>c \<in> set (ek_results st'). row_typed c"
    by blast+
qed

lemma ensure_kept [simp]:
  "ek_results (snd (ensureTransactionRollup env i st)) = ek_results st"
  "ek_runs (snd (ensureTransactionRollup env i st)) = ek_runs st"
  "ek_metrics (snd (ensureTransactionRollup env i st)) = ek_metrics st"
  by (simp_all add: ensureTransactionRollup_def Let_def)

text \<open>
  C12: a run whose evaluation fails is rolled back. When a run joins the failed ones by an error, the
  tables of results and metrics are as before and the only change to the runs is the status
  \<open>IN_PROGRESS\<close> that was committed first: no verdict is written, and no status \<open>ERROR\<close> either.
\<close>

theorem failed_run_rolled_back:
  assumes "run_step env mf (budget, st, res) testRunId = (budget', st', res')"
    and "pr_failed res' = pr_failed res @ [(testRunId, RunFailed)]"
  shows "ek_results st' = ek_results st \<and> ek_metrics st' = ek_metrics st
    \<and> ek_runs st' = ek_runs (if la_fails env testRunId AtStatus then st
                             else updateTestRunStatus testRunId ''IN_PROGRESS'' st)"
proof (cases "la_fails env testRunId AtStatus")
  case True
  then show ?thesis using assms by (simp add: run_step_def)
next
  case False
  let ?st1 = "updateTestRunStatus testRunId ''IN_PROGRESS'' st"
  define st2 where "st2 = (if 0 < budget then snd (ensureTransactionRollup env testRunId ?st1) else ?st1)"
  have m: "main_transaction env mf testRunId (st2, res) = (st', res')"
    using assms(1) False by (auto simp: run_step_def Let_def st2_def split: prod.splits if_splits)
  have "st' = st2"
    using m assms(2) by (auto simp: main_transaction_def Let_def split: if_splits list.splits sum.splits)
  then show ?thesis using False by (simp add: st2_def updateTestRunStatus_def)
qed

definition no_results :: checks_result where
  "no_results = \<lparr>pr_test_runs = 0, pr_benchmarks = 0, pr_check_results = 0, pr_failed = []\<rparr>"

text \<open>What every step of the batch keeps; the count is exact as long as no commit fails.\<close>

definition batch_inv ::
  "'k checks_env \<Rightarrow> 'k checks_state \<Rightarrow> string set \<Rightarrow> nat \<Rightarrow> 'k checks_state \<Rightarrow> checks_result \<Rightarrow> bool" where
  "batch_inv env st0 ids n st res \<longleftrightarrow>
     others ids st = others ids st0 \<and> fst ` set (pr_failed res) \<subseteq> ids
     \<and> n \<le> pr_test_runs res + length (pr_failed res)
     \<and> ((\<forall>i \<in> ids. \<not> la_fails env i AtCommit) \<longrightarrow> n = pr_test_runs res + length (pr_failed res))
     \<and> ((\<forall>c \<in> set (ek_results st0). row_typed c) \<longrightarrow> (\<forall>c \<in> set (ek_results st). row_typed c))"

lemma main_transaction_counts:
  assumes "main_transaction env mf i (st, res) = (st', res')"
  shows "fst ` set (pr_failed res') \<subseteq> insert i (fst ` set (pr_failed res))"
    and "Suc (pr_test_runs res + length (pr_failed res)) \<le> pr_test_runs res' + length (pr_failed res')"
    and "\<not> la_fails env i AtCommit \<Longrightarrow>
      Suc (pr_test_runs res + length (pr_failed res)) = pr_test_runs res' + length (pr_failed res')"
  using assms by (auto simp: main_transaction_def Let_def split: if_splits list.splits sum.splits)

lemma run_step_kept:
  assumes "run_step env mf (budget, st, res) i = (budget', st', res')" "batch_inv env st0 ids n st res" "i \<in> ids"
  shows "batch_inv env st0 ids (Suc n) st' res'"
proof (cases "la_fails env i AtStatus")
  case True
  then have "st' = st" "res' = res\<lparr>pr_failed := pr_failed res @ [(i, RunFailed)]\<rparr>"
    using assms(1) by (simp_all add: run_step_def)
  then show ?thesis using assms(2,3) by (simp add: batch_inv_def)
next
  case False
  let ?st1 = "updateTestRunStatus i ''IN_PROGRESS'' st"
  define st2 where "st2 = (if 0 < budget then snd (ensureTransactionRollup env i ?st1) else ?st1)"
  have m: "main_transaction env mf i (st2, res) = (st', res')"
    using assms(1) False by (auto simp: run_step_def Let_def st2_def split: prod.splits if_splits)
  have s: "others ids st2 = others ids st" "ek_results st2 = ek_results st"
    using assms(3) others_update [of i ids "''IN_PROGRESS''" st]
    by (simp_all add: st2_def others_def updateTestRunStatus_def)
  note k = main_transaction_kept [OF m] and c = main_transaction_counts [OF m]
  show ?thesis
    unfolding batch_inv_def
  proof (intro conjI impI)
    show "others ids st' = others ids st0" using k(1) assms(2,3) s by (simp add: batch_inv_def)
    show "fst ` set (pr_failed res') \<subseteq> ids" using c(1) assms(2,3) by (auto simp: batch_inv_def)
    show "Suc n \<le> pr_test_runs res' + length (pr_failed res')"
      using c(2) assms(2) unfolding batch_inv_def by linarith
    show "Suc n = pr_test_runs res' + length (pr_failed res')" if "\<forall>i \<in> ids. \<not> la_fails env i AtCommit"
      using c(3) that assms(2,3) unfolding batch_inv_def by simp
    show "\<forall>c \<in> set (ek_results st'). row_typed c" if "\<forall>c \<in> set (ek_results st0). row_typed c"
      using k(2) that assms(2) s(2) unfolding batch_inv_def by simp
  qed
qed

lemma batch_kept:
  assumes "foldl (run_step env mf) (budget, st, res) is = (budget', st', res')" "batch_inv env st0 ids n st res"
    "set is \<subseteq> ids"
  shows "batch_inv env st0 ids (n + length is) st' res'"
  using assms
proof (induction "is" arbitrary: budget st res n)
  case (Cons i js)
  obtain b1 s1 r1 where step: "run_step env mf (budget, st, res) i = (b1, s1, r1)"
    by (cases "run_step env mf (budget, st, res) i") auto
  have "batch_inv env st0 ids (Suc n) s1 r1"
    using run_step_kept [OF step Cons.prems(2)] Cons.prems(3) by simp
  then show ?case using Cons.IH [of b1 s1 r1 "Suc n"] Cons.prems step by simp
qed simp

lemma runCheckPipeline_inv:
  assumes "runCheckPipeline env mf repair testRunIds st = (st', res)"
  shows "batch_inv env st (set testRunIds) (length testRunIds) st' res"
proof -
  obtain b where "foldl (run_step env mf) (if repair then 1 else 0, st, no_results) testRunIds = (b, st', res)"
    using assms by (cases "foldl (run_step env mf) (if repair then 1 else 0, st, no_results) testRunIds")
      (auto simp: runCheckPipeline_def no_results_def)
  from batch_kept [OF this, of st "set testRunIds" 0] show ?thesis by (simp add: batch_inv_def no_results_def)
qed

text \<open>
  C13: a batch stays within its runs and accounts for each. The results and the records of runs
  outside the batch are untouched, only runs of the batch are reported as failed, and every run is
  processed or failed; unless a commit fails, no run is counted twice.
\<close>

theorem batch_isolated:
  assumes "runCheckPipeline env mf repairRollup testRunIds st = (st', res)"
  shows "others (set testRunIds) st' = others (set testRunIds) st
    \<and> fst ` set (pr_failed res) \<subseteq> set testRunIds
    \<and> length testRunIds \<le> pr_test_runs res + length (pr_failed res)
    \<and> ((\<forall>i \<in> set testRunIds. \<not> la_fails env i AtCommit) \<longrightarrow>
         length testRunIds = pr_test_runs res + length (pr_failed res))"
  using runCheckPipeline_inv [OF assms] by (simp add: batch_inv_def)

text \<open>
  C14: the rows of \<open>check_results\<close> keep their shape. Whatever fails, evaluating a batch leaves only
  rows of the three kinds, each with the requirement, the targets, the keys, the status and the
  verdict that its kind allows.
\<close>

theorem check_rows_typed:
  assumes "\<forall>c \<in> set (ek_results st). row_typed c"
    and "checks_execute env sweep_ok mf repairRollup testRunIds st = (out, st')"
  shows "\<forall>c \<in> set (ek_results st'). row_typed c"
proof (cases "testRunIds = []")
  case True
  then show ?thesis using assms by (simp add: checks_execute_def)
next
  case False
  let ?st1 = "if sweep_ok then cleanupStaleApplicationDashboards st else st"
  have t: "\<forall>c \<in> set (ek_results ?st1). row_typed c"
    using assms(1) by (simp add: cleanupStaleApplicationDashboards_def)
  obtain res where "runCheckPipeline env mf repairRollup testRunIds ?st1 = (st', res)"
    using assms(2) False by (auto simp: checks_execute_def Let_def split: prod.splits)
  from runCheckPipeline_inv [OF this] t show ?thesis unfolding batch_inv_def by blast
qed

section \<open>Examples\<close>

definition no_faults :: bench_faults where
  "no_faults = \<lparr>fl_threw = False, fl_caught = False, fl_bulk = False, fl_scan = (\<lambda>_. False)\<rparr>"

definition calm_env :: "rat list checks_env" where
  "calm_env = \<lparr>la_toolkit = list_toolkit, la_digest = list_digest, la_regex = (\<lambda>_. None),
     la_accepts = (\<lambda>_. True), la_bench = (\<lambda>_ _. no_faults), la_fails = (\<lambda>_ _. False)\<rparr>"

definition no_filter :: checks_filter where
  "no_filter = \<lparr>mf_applicationDashboardId = None, mf_panelId = None, mf_metricName = None, mf_metricsSourceId = None\<rparr>"

definition pay_slo :: bench_row where
  "pay_slo = demo_row\<lparr>br_id := ''a1'', br_system_under_test_id := ''shop'', br_test_environment := ''acc'',
     br_workload := ''load'', br_benchmark_type := Some ''apdex'', br_transaction_name := Some ''pay'',
     br_apdex_threshold_ms := Some 200, br_min_apdex_score := Some (VNum (JFin (1 / 2))),
     br_exclude_ramp_up_time := Some True, br_apdex_min_samples := Some (VNum (JFin 1))\<rparr>"

definition panel_slo :: "string \<Rightarrow> string \<Rightarrow> int \<Rightarrow> rat \<Rightarrow> bench_row" where
  "panel_slo i dashboard panel limit = demo_row\<lparr>br_id := i, br_system_under_test_id := ''shop'',
     br_test_environment := ''acc'', br_workload := ''load'', br_application_dashboard_id := dashboard,
     br_configuration := Some (empty_config\<lparr>cf_id := Some panel\<rparr>), br_match_pattern := None,
     br_requirement_value := Some (VNum (JFin limit))\<rparr>"

definition panel_stat :: "string \<Rightarrow> int \<Rightarrow> string \<Rightarrow> rat \<Rightarrow> stat_row" where
  "panel_stat dashboard panel metric mean = \<lparr>sr_test_run_id = ''r1'', sr_application_dashboard_id = dashboard,
     sr_panel_id = panel, sr_stat = (artificial_statistic (row_to_benchmark demo_row) (JFin mean))
       \<lparr>ms_metric_name := metric, ms_is_constant := False\<rparr>\<rparr>"

definition shop_checks_run :: checks_run where
  "shop_checks_run = \<lparr>tr_test_run_id = ''r1'', tr_system_under_test_id = ''shop'', tr_test_environment = ''acc'',
     tr_workload = ''load'', tr_organization_id = Some ''o1'', tr_team_id = None,
     tr_start_time = Some 0, tr_end_time = Some 600000, tr_ramp_up = Some 60,
     vw_evaluatingChecks = None, vw_valid = None, vw_consolidated = None\<rparr>"

definition shop_checks :: "bench_row list \<Rightarrow> rat list checks_state" where
  "shop_checks slos = \<lparr>ek_results = [], ek_runs = [shop_checks_run], ek_benchmarks = slos,
     ek_metrics = \<lparr>db_statistics = [panel_stat ''d'' 7 ''cpu'' 3, panel_stat ''d'' 8 ''heap'' 40],
        db_dashboards = [(''d'', None)], db_dynatrace = [], db_transaction_stats = [], db_sampler_stats = [],
        db_metrics_sources = []\<rparr>,
     ek_samples = \<lparr>sd_transactions = [], sd_requests_raw = [], sd_transaction_stats = [], sd_sampler_stats = []\<rparr>,
     ek_apdex = no_apdex, ek_rollup = shop_rolled, ek_dashboards = [''d''], ek_dynatrace_dashboards = []\<rparr>"

definition summary :: "'k checks_state \<Rightarrow> (string \<times> string \<times> bool option) list
    \<times> (string option \<times> bool option \<times> consolidated option) list" where
  "summary st = (map (\<lambda>c. (cw_benchmark_id c, cw_status c, cw_meets_requirement c)) (ek_results st),
     map (\<lambda>r. (vw_evaluatingChecks r, vw_valid r, vw_consolidated r)) (ek_runs st))"

definition all_met :: "bool \<Rightarrow> consolidated option" where
  "all_met b = Some \<lparr>cj_meetsRequirement = b, cj_overall = b, cj_error = False\<rparr>"

lemma shop_green:
  "summary (fst (runCheckPipeline calm_env no_filter False [''r1''] (shop_checks [pay_slo, panel_slo ''m1'' ''d'' 7 5])))
   = ([(''a1'', ''COMPLETE'', Some True), (''m1'', ''COMPLETE'', Some True)],
      [(Some ''COMPLETED'', Some True, all_met True)])"
  by code_simp

lemma shop_failing:
  "summary (fst (runCheckPipeline calm_env no_filter False [''r1''] (shop_checks [pay_slo, panel_slo ''m1'' ''d'' 8 5])))
   = ([(''a1'', ''COMPLETE'', Some True), (''m1'', ''COMPLETE'', Some False)],
      [(Some ''COMPLETED'', Some True, all_met False)])"
  by code_simp

definition shop_slos :: "bench_row list" where
  "shop_slos = [pay_slo, panel_slo ''m1'' ''d'' 7 5]"

definition evaluated :: "rat list checks_env \<Rightarrow> checks_filter \<Rightarrow> rat list checks_state \<Rightarrow> rat list checks_state" where
  "evaluated env mf st = fst (runCheckPipeline env mf False [''r1''] st)"

text \<open>An environment in which the benchmark \<open>m1\<close> has an error that nothing catches.\<close>

definition broken_env :: "rat list checks_env" where
  "broken_env = calm_env\<lparr>la_bench := (\<lambda>_ b. if b = ''m1'' then no_faults\<lparr>fl_threw := True\<rparr> else no_faults)\<rparr>"

theorem savepoint_isolation_witness:
  "fst (foldl (benchmark_step broken_env (test_run.truncate shop_checks_run) no_filter)
      (shop_checks shop_slos, empty_acc) (map row_to_benchmark shop_slos))
   = fst (foldl (benchmark_step broken_env (test_run.truncate shop_checks_run) no_filter)
      (shop_checks shop_slos, empty_acc) [row_to_benchmark pay_slo])"
proof -
  let ?loop = "foldl (benchmark_step broken_env (test_run.truncate shop_checks_run) no_filter)
      (shop_checks shop_slos, empty_acc)"
  let ?bs = "map row_to_benchmark shop_slos"
  have lost: "ra_failed (snd (?loop ?bs)) = [''m1'']" by code_simp
  have d: "distinct (map bm_id ?bs)" by code_simp
  have f: "filter (\<lambda>b. bm_id b \<notin> set [''m1'']) ?bs = [row_to_benchmark pay_slo]"
    by (simp add: shop_slos_def row_to_benchmark_def pay_slo_def panel_slo_def)
  obtain st' acc where l: "?loop ?bs = (st', acc)" by (cases "?loop ?bs") auto
  show ?thesis
    using savepoint_isolation [OF l d] lost l f by auto
qed

theorem green_run_judged_witness:
  "\<exists>row \<in> set (ek_results (fst (main_transaction calm_env no_filter ''r1'' (shop_checks shop_slos, no_results)))).
     cw_benchmark_id row = ''m1'' \<and> cw_status row \<noteq> ''ERROR'' \<and> cw_meets_requirement row \<noteq> Some False"
proof -
  let ?m = "main_transaction calm_env no_filter ''r1'' (shop_checks shop_slos, no_results)"
  have fin: "map (\<lambda>r. (tr_test_run_id r, vw_evaluatingChecks r, vw_consolidated r)) (ek_runs (fst ?m))
      = [(''r1'', Some ''COMPLETED'', all_met True)]" "pr_failed (snd ?m) = pr_failed no_results"
    by code_simp+
  then obtain r' where r': "r' \<in> set (ek_runs (fst ?m))" "tr_test_run_id r' = ''r1''"
      "vw_evaluatingChecks r' = Some ''COMPLETED''" "vw_consolidated r' = all_met True"
    by (auto simp: map_eq_Cons_conv)
  have h: "hd (filter (\<lambda>r. tr_test_run_id r = ''r1'') (ek_runs (shop_checks shop_slos))) = shop_checks_run"
    by (simp add: shop_checks_def shop_checks_run_def)
  obtain st' res' where m: "?m = (st', res')" by (cases ?m) auto
  have f: "findMatchingBenchmarks (ek_benchmarks (shop_checks shop_slos)) (test_run.truncate shop_checks_run)
      (Some (plain_filter no_filter)) = Inr (map row_to_benchmark shop_slos)"
    by code_simp
  have m1: "row_to_benchmark (panel_slo ''m1'' ''d'' 7 5) \<in> set (map row_to_benchmark shop_slos)"
      "bm_id (row_to_benchmark (panel_slo ''m1'' ''d'' 7 5)) = ''m1''"
    by (simp_all add: shop_slos_def row_to_benchmark_def panel_slo_def)
  show ?thesis
    using green_run_judged [OF m _ h, of r'] r' fin(2) f m m1
    by (fastforce simp: all_met_def)
qed

theorem failed_run_rolled_back_witness:
  "ek_results (fst (snd (run_step (calm_env\<lparr>la_fails := (\<lambda>_ p. p = AtFinish)\<rparr>) no_filter
      (0, shop_checks shop_slos, no_results) ''r1''))) = []
   \<and> map vw_evaluatingChecks (ek_runs (fst (snd (run_step (calm_env\<lparr>la_fails := (\<lambda>_ p. p = AtFinish)\<rparr>) no_filter
      (0, shop_checks shop_slos, no_results) ''r1'')))) = [Some ''IN_PROGRESS'']"
proof -
  let ?env = "calm_env\<lparr>la_fails := (\<lambda>_ p. p = AtFinish)\<rparr>"
  let ?s = "run_step ?env no_filter (0, shop_checks shop_slos, no_results) ''r1''"
  have p: "pr_failed (snd (snd ?s)) = pr_failed no_results @ [(''r1'', RunFailed)]" by code_simp
  obtain b st' res' where s: "?s = (b, st', res')" by (cases ?s) auto
  show ?thesis
    using failed_run_rolled_back [OF s] p s
    by (simp add: shop_checks_def shop_checks_run_def updateTestRunStatus_def)
qed

theorem batch_isolated_witness:
  "others {''r1'', ''gone''} (fst (runCheckPipeline calm_env no_filter True [''r1'', ''gone''] (shop_checks shop_slos))) = ([], [])
   \<and> pr_test_runs (snd (runCheckPipeline calm_env no_filter True [''r1'', ''gone''] (shop_checks shop_slos))) = 1
   \<and> pr_failed (snd (runCheckPipeline calm_env no_filter True [''r1'', ''gone''] (shop_checks shop_slos))) = [(''gone'', RunNotFound)]"
proof -
  let ?r = "runCheckPipeline calm_env no_filter True [''r1'', ''gone''] (shop_checks shop_slos)"
  obtain st' res where r: "?r = (st', res)" by (cases ?r) auto
  have "pr_test_runs (snd ?r) = 1 \<and> pr_failed (snd ?r) = [(''gone'', RunNotFound)]" by code_simp
  moreover have "others {''r1'', ''gone''} (shop_checks shop_slos) = ([], [])"
    by (simp add: others_def shop_checks_def shop_checks_run_def)
  ultimately show ?thesis using batch_isolated [OF r] r by simp
qed

theorem check_rows_typed_witness:
  "length (ek_results (snd (checks_execute broken_env True no_filter True [''r1''] (shop_checks shop_slos)))) = 1
   \<and> list_all row_typed (ek_results (snd (checks_execute broken_env True no_filter True [''r1''] (shop_checks shop_slos))))"
proof -
  let ?x = "checks_execute broken_env True no_filter True [''r1''] (shop_checks shop_slos)"
  obtain out st' where x: "?x = (out, st')" by (cases ?x) auto
  have "length (ek_results (snd ?x)) = 1" by code_simp
  moreover have "\<forall>c \<in> set (ek_results (shop_checks shop_slos)). row_typed c" by (simp add: shop_checks_def)
  ultimately show ?thesis using check_rows_typed [OF _ x] x by (simp add: list_all_iff)
qed

section \<open>Where the pipeline goes wrong\<close>

text \<open>
  A run whose evaluation throws keeps the status \<open>IN_PROGRESS\<close>: the status \<open>ERROR\<close> is written in the
  transaction that is then rolled back. The job succeeds.
\<close>

lemma error_status_lost:
  "summary (evaluated (calm_env\<lparr>la_fails := (\<lambda>_ p. p = AtMatch)\<rparr>) no_filter (shop_checks shop_slos))
     = ([], [(Some ''IN_PROGRESS'', None, None)])"
  "\<exists>res. fst (checks_execute (calm_env\<lparr>la_fails := (\<lambda>_ p. p = AtMatch)\<rparr>) True no_filter False [''r1''] (shop_checks shop_slos))
     = Inr res"
  by code_simp (auto simp: checks_execute_def Let_def split: prod.splits)

text \<open>A filter by metrics source names a column that the table does not have: every run fails.\<close>

lemma metrics_source_filter_fails:
  "pr_failed (snd (runCheckPipeline calm_env (no_filter\<lparr>mf_metricsSourceId := Some ''ms''\<rparr>) False [''r1''] (shop_checks shop_slos)))
     = [(''r1'', RunFailed)]"
  by code_simp

text \<open>
  A filter by metric name deletes and evaluates the benchmarks of all panels; those whose panel has
  no such metric find no data, and a green run turns invalid.
\<close>

lemma metric_name_filter_spoils_run:
  "summary (evaluated calm_env no_filter (shop_checks [panel_slo ''m1'' ''d'' 7 5, panel_slo ''m2'' ''d'' 8 50]))
     = ([(''m1'', ''COMPLETE'', Some True), (''m2'', ''COMPLETE'', Some True)], [(Some ''COMPLETED'', Some True, all_met True)])"
  "summary (evaluated calm_env (no_filter\<lparr>mf_metricName := Some ''cpu''\<rparr>)
      (evaluated calm_env no_filter (shop_checks [panel_slo ''m1'' ''d'' 7 5, panel_slo ''m2'' ''d'' 8 50])))
     = ([(''m1'', ''COMPLETE'', Some True), (''m2'', ''ERROR'', None)], [(Some ''ERROR'', Some False, all_met True)])"
  by code_simp+

text \<open>
  A filter by panel judges the run by that panel alone: the error of another panel stays in the
  table, and the run becomes valid. The first evaluation also shows that an error counts as met.
\<close>

lemma panel_filter_hides_error:
  "summary (evaluated calm_env no_filter (shop_checks [panel_slo ''m1'' ''d'' 7 5, panel_slo ''m3'' ''d'' 9 5]))
     = ([(''m1'', ''COMPLETE'', Some True), (''m3'', ''ERROR'', None)], [(Some ''ERROR'', Some False, all_met True)])"
  "summary (evaluated calm_env (no_filter\<lparr>mf_applicationDashboardId := Some ''d'', mf_panelId := Some 7\<rparr>)
      (evaluated calm_env no_filter (shop_checks [panel_slo ''m1'' ''d'' 7 5, panel_slo ''m3'' ''d'' 9 5])))
     = ([(''m3'', ''ERROR'', None), (''m1'', ''COMPLETE'', Some True)], [(Some ''COMPLETED'', Some True, all_met True)])"
  by code_simp+

text \<open>A run whose last benchmark was removed loses its results but keeps its verdict.\<close>

lemma verdict_outlives_results:
  "summary (evaluated calm_env no_filter ((evaluated calm_env no_filter (shop_checks shop_slos))\<lparr>ek_benchmarks := []\<rparr>))
     = ([], [(Some ''NOT_CONFIGURED'', Some True, all_met True)])"
  by code_simp

text \<open>
  The read of the pooled error rate may fail, and the code means to go on with the stored mean; but
  the failed statement has aborted the transaction, so the result is not stored and the run fails.
\<close>

lemma caught_error_loses_check:
  "summary (evaluated (calm_env\<lparr>la_bench := (\<lambda>_ _. no_faults\<lparr>fl_caught := True\<rparr>)\<rparr>) no_filter
      ((shop_checks [panel_slo ''m1'' ''d'' 105 5])
        \<lparr>ek_metrics := (ek_metrics (shop_checks []))\<lparr>db_statistics := [panel_stat ''d'' 105 ''pay'' 3]\<rparr>\<rparr>))
   = ([], [(Some ''ERROR'', Some False, Some \<lparr>cj_meetsRequirement = False, cj_overall = False, cj_error = True\<rparr>)])"
  by code_simp

text \<open>Without a single dashboard the sweep deletes the Apdex results of all runs.\<close>

lemma sweep_without_dashboards:
  "ek_results (cleanupStaleApplicationDashboards
      ((evaluated calm_env no_filter (shop_checks [pay_slo]))\<lparr>ek_dashboards := []\<rparr>)) = []"
  "length (ek_results (cleanupStaleApplicationDashboards (evaluated calm_env no_filter (shop_checks [pay_slo])))) = 1"
  by code_simp+
end
