(* ===== verification/Orchestrator.thy ===== *)
theory Orchestrator
  imports StuckJobs CollectionFill "HOL-Library.Sublist"
begin

text \<open>
  The orchestrator of one run's analysis (\<open>services/PipelineOrchestrator.ts\<close>): the stages in their
  plan's order, the heavy ones under the mutex of \<open>Locks\<close>, the collection stages left out when the
  ticks of \<open>CollectionFill\<close> have the data, what a failed stage does to the rest of the run, and the
  progress that the reporter of \<open>StuckJobs\<close> publishes meanwhile.

  A pipeline is a parameter: \<open>o_pipeline W stage run s\<close> is the outcome its promise settles with and
  the world at that moment. That world holds what the pipeline wrote, what others did and the beats
  of the two timers that run beside it (the mutex's heartbeat and the reporter's \<open>touch\<close>). The race
  with the wall clock is the parameter \<open>o_late\<close>; \<open>o_abandoned\<close> is the world when the clock wins.
  Everything the orchestrator itself does to the world is an operation of this theory or of the
  theories it imports.
\<close>

section \<open>Stages\<close>

definition ORCHESTRATED_STAGES :: "string list" where
  "ORCHESTRATED_STAGES =
     [''dynatrace-collection'', ''panels-processing'', ''performance-test-metrics'',
      ''transaction-stats-rollup'', ''metrics-collection'', ''statistics-calculation'',
      ''checks-evaluation'', ''control-groups-creation'', ''control-group-statistics'',
      ''adapt-analysis'']"

definition HEAVY_STAGES :: "string list" where
  "HEAVY_STAGES =
     [''statistics-calculation'', ''control-group-statistics'', ''adapt-analysis'',
      ''performance-test-metrics'']"

definition metricCollectionStages :: "string list" where
  "metricCollectionStages =
     [''dynatrace-collection'', ''panels-processing'', ''performance-test-metrics'',
      ''metrics-collection'']"

definition skippableCollectionStages :: "string list" where
  "skippableCollectionStages =
     filter (\<lambda>stage. stage \<noteq> ''performance-test-metrics'') metricCollectionStages"

section \<open>Results and errors\<close>

text \<open>
  What is thrown: its text, whether it is an \<open>Error\<close> and whether it carries the tag \<open>retryable\<close>. Of a
  pipeline's data the orchestrator only writes the mark of a rollup it let pass.
\<close>

record thrown =
  th_message :: string
  th_error :: bool
  th_retryable :: bool

record pipe_error =
  pe_message :: string
  pe_code :: string

record pipe_result =
  pr_success :: bool
  pr_error :: "pipe_error option"
  pr_skipped :: "(string \<times> string) option"

datatype settled = Resolved pipe_result | Rejected thrown

datatype error_handling = Strict | Continue | Abort

record seq_config =
  qc_stages :: "string list"
  qc_errorHandling :: "error_handling option"
  qc_timeoutMs :: "int option"
  qc_mutex :: "string option"
  qc_finalizeProgress :: "bool option"

text \<open>
  The world of a run. \<open>o_coll\<close> is the collection bookkeeping in it, \<open>o_span\<close> the start and the end of
  a run (no value for a run that does not exist), \<open>o_annotations\<close> its annotations; \<open>o_poll_env\<close> and
  \<open>o_poll_now\<close> are what happens and the clock at the polls of a stage's acquisition, \<open>o_uuid\<close> its nonce.
\<close>

datatype annotation = Annotation string | CollectionWarning fill_warning

record 's orchestra =
  o_redis :: "'s redis_ops"
  o_bull :: "'s bull"
  o_now :: "'s \<Rightarrow> int"
  o_tables :: "'s \<Rightarrow> source_tables"
  o_fetch :: fetcher
  o_coll :: "'s \<Rightarrow> coll_db"
  o_set_coll :: "coll_db \<Rightarrow> 's \<Rightarrow> 's"
  o_span :: "string \<Rightarrow> 's \<Rightarrow> (int option \<times> int option) option"
  o_decompress :: "int \<Rightarrow> int \<Rightarrow> ('s, unit) io"
  o_annotations :: "string \<Rightarrow> ('s, annotation list option) io"
  o_annotate :: "string \<Rightarrow> annotation list \<Rightarrow> ('s, unit) io"
  o_pipeline :: "string \<Rightarrow> string \<Rightarrow> 's \<Rightarrow> settled \<times> 's"
  o_late :: "string \<Rightarrow> int \<Rightarrow> 's \<Rightarrow> bool"
  o_abandoned :: "string \<Rightarrow> string \<Rightarrow> int \<Rightarrow> 's \<Rightarrow> 's"
  o_poll_env :: "string \<Rightarrow> nat \<Rightarrow> 's \<Rightarrow> 's"
  o_poll_now :: "string \<Rightarrow> nat \<Rightarrow> int"
  o_uuid :: "string \<Rightarrow> string"
  o_redis_error :: string

section \<open>One stage\<close>

definition failed_result :: "string \<Rightarrow> string \<Rightarrow> pipe_result" where
  "failed_result message errorCode =
     \<lparr>pr_success = False, pr_error = Some \<lparr>pe_message = message, pe_code = errorCode\<rparr>, pr_skipped = None\<rparr>"

definition skipped_result :: "string \<Rightarrow> string \<Rightarrow> pipe_result" where
  "skipped_result skipped reason =
     \<lparr>pr_success = True, pr_error = None, pr_skipped = Some (skipped, reason)\<rparr>"

text \<open>A rollup that fails or throws is a success with a mark.\<close>

fun soft_rollup :: "settled \<Rightarrow> settled" where
  "soft_rollup (Resolved r) =
     (if pr_success r then Resolved r
      else Resolved (skipped_result ''rollup-failed''
             (case pr_error r of Some e \<Rightarrow> pe_message e | None \<Rightarrow> ''unknown error'')))"
| "soft_rollup (Rejected e) = Resolved (skipped_result ''rollup-threw'' (th_message e))"

definition timed_out :: "string \<Rightarrow> int \<Rightarrow> thrown" where
  "timed_out stageName timeoutMs =
     \<lparr>th_message = ''Stage '' @ stageName @ '' timed out after '' @ show_int timeoutMs @ ''ms'',
      th_error = True, th_retryable = False\<rparr>"

definition stage_failure :: "thrown \<Rightarrow> pipe_result" where
  "stage_failure e =
     failed_result (th_message e)
       (if th_retryable e then ''RETRYABLE''
        else if th_error e \<and> sublist ''timed out'' (th_message e) then ''TIMEOUT''
        else ''EXECUTION_ERROR'')"

definition dispatch :: "'s orchestra \<Rightarrow> string \<Rightarrow> string \<Rightarrow> 's \<Rightarrow> settled \<times> 's" where
  "dispatch W stageName testRunId s =
     (if stageName = ''transaction-stats-rollup''
      then (case o_pipeline W stageName testRunId s of (r, s') \<Rightarrow> (soft_rollup r, s'))
      else o_pipeline W stageName testRunId s)"

definition race :: "'s orchestra \<Rightarrow> string \<Rightarrow> string \<Rightarrow> int option \<Rightarrow> 's \<Rightarrow> settled \<times> 's" where
  "race W stageName testRunId timeoutMs s =
     (case timeoutMs of
        Some t \<Rightarrow> if o_late W stageName t s
                  then (Rejected (timed_out stageName t), o_abandoned W stageName testRunId t s)
                  else dispatch W stageName testRunId s
      | None \<Rightarrow> dispatch W stageName testRunId s)"

definition executeStage ::
  "'s orchestra \<Rightarrow> string \<Rightarrow> string \<Rightarrow> int option \<Rightarrow> 's \<Rightarrow> pipe_result \<times> 's" where
  "executeStage W stageName testRunId timeoutMs s =
     (if stageName \<notin> set ORCHESTRATED_STAGES
      then (failed_result (''Unknown stage: '' @ stageName) ''UNKNOWN_STAGE'', s)
      else (case race W stageName testRunId timeoutMs s of
              (Resolved r, s') \<Rightarrow> (r, s')
            | (Rejected e, s') \<Rightarrow> (stage_failure e, s')))"

section \<open>The run's bookkeeping\<close>

definition decompressRunSpanForCollection :: "'s orchestra \<Rightarrow> string \<Rightarrow> 's \<Rightarrow> 's" where
  "decompressRunSpanForCollection W testRunId s =
     (case o_span W testRunId s of
        Some (Some startTime, endTime) \<Rightarrow>
          snd (o_decompress W startTime (case endTime of Some e \<Rightarrow> e | None \<Rightarrow> o_now W s) s)
      | _ \<Rightarrow> s)"

text \<open>An error of either query is logged only.\<close>

definition addWarningsToTestRun :: "'s orchestra \<Rightarrow> string \<Rightarrow> fill_warning list \<Rightarrow> 's \<Rightarrow> 's" where
  "addWarningsToTestRun W testRunId warnings s =
     (if warnings = [] then s
      else snd (thn (o_annotations W testRunId) (\<lambda>found.
             case found of
               None \<Rightarrow> ret ()
             | Some current \<Rightarrow>
                 o_annotate W testRunId (current @ map CollectionWarning warnings)) s))"

definition fill_gaps :: "'s orchestra \<Rightarrow> string \<Rightarrow> 's \<Rightarrow> (bool \<times> fill_warning list) \<times> 's" where
  "fill_gaps W testRunId s =
     (let r = checkAndFillMetricGaps (o_tables W s) (o_fetch W) (o_now W s) (o_coll W s) testRunId
      in ((fr_skipCollection r, fr_warnings r), o_set_coll W (fr_db r) s))"

record stage_result =
  sr_stage :: string
  sr_result :: pipe_result
  sr_duration :: int

record 's seq =
  sq_results :: "stage_result list"
  sq_success :: bool
  sq_reporter :: "reporter option"
  sq_world :: 's

text \<open>A call on the reporter that may be missing.\<close>

definition tell :: "(reporter \<Rightarrow> 's \<Rightarrow> reporter \<times> 's) \<Rightarrow> 's seq \<Rightarrow> 's seq" where
  "tell f q =
     (case sq_reporter q of
        None \<Rightarrow> q
      | Some p \<Rightarrow> (case f p (sq_world q) of (p', s') \<Rightarrow> q\<lparr>sq_reporter := Some p', sq_world := s'\<rparr>))"

definition push :: "string \<Rightarrow> pipe_result \<Rightarrow> int \<Rightarrow> 's seq \<Rightarrow> 's seq" where
  "push stageName r duration q =
     q\<lparr>sq_results := sq_results q @ [\<lparr>sr_stage = stageName, sr_result = r, sr_duration = duration\<rparr>]\<rparr>"

section \<open>The stages of a run\<close>

definition error_of :: "thrown \<Rightarrow> pipe_result" where
  "error_of e =
     failed_result (th_message e) (if th_retryable e then ''RETRYABLE'' else ''STAGE_EXECUTION_ERROR'')"

datatype flow = Proceed | Halt | Raise thrown

definition error_handling_of :: "seq_config \<Rightarrow> error_handling" where
  "error_handling_of cfg = (case qc_errorHandling cfg of None \<Rightarrow> Continue | Some h \<Rightarrow> h)"

text \<open>The handler around a stage.\<close>

definition caught ::
  "'s orchestra \<Rightarrow> seq_config \<Rightarrow> string \<Rightarrow> int \<Rightarrow> thrown \<Rightarrow> 's seq \<Rightarrow> flow \<times> 's seq" where
  "caught W cfg stageName stageStartTime e q =
     (let q1 = push stageName (error_of e) (o_now W (sq_world q) - stageStartTime) q
      in if error_handling_of cfg = Continue then (Proceed, q1\<lparr>sq_success := False\<rparr>)
         else (Raise e, q1))"

definition waiting_message :: "string \<Rightarrow> string" where
  "waiting_message stageName =
     ''Queued: waiting for another analysis to finish its database-heavy stage before '' @ stageName
       @ '' can start''"

text \<open>
  The acquisition of the mutex. While it polls it publishes that the job waits; the record's own
  fields are those of the \<open>setWaiting None\<close> that follows on both ways out.
\<close>

definition acquire_heavy ::
  "'s orchestra \<Rightarrow> string \<Rightarrow> string \<Rightarrow> 's seq \<Rightarrow> ((thrown option) \<times> 's seq) option" where
  "acquire_heavy W holder stageName q =
     (let R = o_redis W;
          onWaiting = (\<lambda>h s. (Some (), case sq_reporter q of
             None \<Rightarrow> s
           | Some p \<Rightarrow> snd (setWaiting R (o_bull W) (o_now W s) (Some (waiting_message stageName)) p s)))
      in case mutex_acquire R (o_poll_env W stageName) (o_poll_now W stageName) (Some onWaiting) holder
                (o_uuid W stageName) None (o_now W (sq_world q)) (sq_world q) of
           None \<Rightarrow> None
         | Some (out, s) \<Rightarrow>
             (let q1 = tell (setWaiting R (o_bull W) (o_now W s) None) (q\<lparr>sq_world := s\<rparr>)
              in case out of
                   MutexAcquired _ \<Rightarrow> Some (None, q1)
                 | MutexNotAcquired secs h \<Rightarrow>
                     Some (Some \<lparr>th_message = ''Heavy-stage lock not acquired after '' @ show_int secs
                                   @ ''s (held by '' @ h @ '')'', th_error = True, th_retryable = True\<rparr>, q1)
                 | MutexThrew \<Rightarrow>
                     Some (Some \<lparr>th_message = o_redis_error W, th_error = True, th_retryable = True\<rparr>, q1)))"

definition strict_error :: "string \<Rightarrow> pipe_result \<Rightarrow> thrown" where
  "strict_error stageName r =
     \<lparr>th_message = ''Stage '' @ stageName @ '' failed: ''
        @ (case pr_error r of Some e \<Rightarrow> pe_message e | None \<Rightarrow> ''undefined''),
      th_error = True, th_retryable = False\<rparr>"

text \<open>What follows a stage's result.\<close>

definition judge ::
  "'s orchestra \<Rightarrow> seq_config \<Rightarrow> string \<Rightarrow> int \<Rightarrow> pipe_result \<Rightarrow> 's seq \<Rightarrow> flow \<times> 's seq" where
  "judge W cfg stageName stageStartTime r q =
     (let q1 = push stageName r (o_now W (sq_world q) - stageStartTime) q
      in if pr_success r
         then (Proceed, tell (completeStage (o_redis W) (o_bull W) (o_now W (sq_world q1))) q1)
         else (case error_handling_of cfg of
                 Strict \<Rightarrow> caught W cfg stageName stageStartTime (strict_error stageName r) q1
               | Abort \<Rightarrow> (Halt, q1\<lparr>sq_success := False\<rparr>)
               | Continue \<Rightarrow> (Proceed, q1\<lparr>sq_success := False\<rparr>)))"

definition stage_timeout :: "seq_config \<Rightarrow> int" where
  "stage_timeout cfg = (case qc_timeoutMs cfg of None \<Rightarrow> 600000 | Some t \<Rightarrow> t)"

text \<open>The body of the loop; no value is an acquisition that polls forever.\<close>

definition run_stage ::
  "'s orchestra \<Rightarrow> seq_config \<Rightarrow> string \<Rightarrow> string \<Rightarrow> 's seq \<Rightarrow> (flow \<times> 's seq) option" where
  "run_stage W cfg testRunId stageName q =
     (let start = o_now W (sq_world q);
          q1 = tell (startStage (o_redis W) (o_bull W) (o_now W (sq_world q)) stageName) q;
          heavy = (stageName \<in> set HEAVY_STAGES)
      in case (case (heavy, qc_mutex cfg) of
                 (True, Some holder) \<Rightarrow> acquire_heavy W holder stageName q1
               | _ \<Rightarrow> Some (None, q1)) of
           None \<Rightarrow> None
         | Some (Some e, q2) \<Rightarrow> Some (caught W cfg stageName start e q2)
         | Some (None, q2) \<Rightarrow>
             (case executeStage W stageName testRunId (if heavy then None else Some (stage_timeout cfg))
                     (sq_world q2) of
                (r, s) \<Rightarrow>
                  (let s' = (case (heavy, qc_mutex cfg) of
                               (True, Some holder) \<Rightarrow>
                                 mutex_release (o_redis W) (mutex_token holder (o_uuid W stageName)) s
                             | _ \<Rightarrow> s)
                   in Some (judge W cfg stageName start r (q2\<lparr>sq_world := s'\<rparr>)))))"

fun run_stages ::
  "'s orchestra \<Rightarrow> seq_config \<Rightarrow> string \<Rightarrow> bool \<Rightarrow> string list \<Rightarrow> 's seq \<Rightarrow> (thrown option \<times> 's seq) option" where
  "run_stages W cfg testRunId skipCollection [] q = Some (None, q)"
| "run_stages W cfg testRunId skipCollection (stageName # rest) q =
     (if skipCollection \<and> stageName \<in> set skippableCollectionStages
      then run_stages W cfg testRunId skipCollection rest q
      else (case run_stage W cfg testRunId stageName q of
              None \<Rightarrow> None
            | Some (Proceed, q') \<Rightarrow> run_stages W cfg testRunId skipCollection rest q'
            | Some (Halt, q') \<Rightarrow> Some (None, q')
            | Some (Raise e, q') \<Rightarrow> Some (Some e, q')))"

section \<open>The run\<close>

record pipeline_data =
  pd_stages :: "stage_result list"
  pd_completedStages :: nat
  pd_failedStages :: nat
  pd_timings :: "(string \<times> int) list"
  pd_collectionWarnings :: "fill_warning list option"

record seq_result =
  xr_success :: bool
  xr_duration :: int
  xr_data :: "pipeline_data option"
  xr_error :: "(pipe_error \<times> string list) option"

text \<open>
  The breakdown that is logged draws a bar per stage: repeating a character a negative or an infinite
  number of times throws, and the statement is inside the run's own handler.
\<close>

definition bar_count :: "int \<Rightarrow> int \<Rightarrow> int" where
  "bar_count duration totalDuration = js_round (of_int duration / of_int totalDuration * 40)"

definition bad_bar :: "int \<Rightarrow> stage_result \<Rightarrow> string option" where
  "bad_bar totalDuration r =
     (if totalDuration = 0
      then (if sr_duration r < 0 then Some ''-Infinity'' else if 0 < sr_duration r then Some ''Infinity'' else None)
      else if bar_count (sr_duration r) totalDuration < 0
           then Some (show_int (bar_count (sr_duration r) totalDuration))
      else None)"

definition logStageBreakdown :: "stage_result list \<Rightarrow> int \<Rightarrow> thrown option" where
  "logStageBreakdown results totalDuration =
     (case List.map_filter (bad_bar totalDuration) results of
        [] \<Rightarrow> None
      | n # _ \<Rightarrow> Some \<lparr>th_message = ''Invalid count value: '' @ n, th_error = True, th_retryable = False\<rparr>)"

definition finalizes :: "seq_config \<Rightarrow> bool" where
  "finalizes cfg = (case qc_finalizeProgress cfg of None \<Rightarrow> True | Some b \<Rightarrow> b)"

definition run_failed ::
  "'s orchestra \<Rightarrow> seq_config \<Rightarrow> int \<Rightarrow> thrown \<Rightarrow> 's seq \<Rightarrow> seq_result \<times> 's seq" where
  "run_failed W cfg startTime e q =
     (let totalDuration = o_now W (sq_world q) - startTime;
          q' = (if finalizes cfg
                then tell (\<lambda>p s. fail (o_redis W) (o_bull W) (o_now W s) (th_message e) p s) q else q)
      in (\<lparr>xr_success = False, xr_duration = totalDuration, xr_data = None,
           xr_error = Some (\<lparr>pe_message = th_message e, pe_code = ''SEQUENTIAL_PIPELINE_ERROR''\<rparr>,
                            map sr_stage (sq_results q))\<rparr>, q'))"

definition run_finished ::
  "'s orchestra \<Rightarrow> seq_config \<Rightarrow> string \<Rightarrow> int \<Rightarrow> fill_warning list \<Rightarrow> 's seq \<Rightarrow> seq_result \<times> 's seq" where
  "run_finished W cfg testRunId startTime collectionWarnings q =
     (let totalDuration = o_now W (sq_world q) - startTime
      in case logStageBreakdown (sq_results q) totalDuration of
           Some e \<Rightarrow> run_failed W cfg startTime e q
         | None \<Rightarrow>
             (let q1 = q\<lparr>sq_world := addWarningsToTestRun W testRunId collectionWarnings (sq_world q)\<rparr>;
                  q2 = (if finalizes cfg
                        then tell (\<lambda>p s. complete (o_redis W) (o_bull W) (o_now W s) p s) q1 else q1);
                  results = sq_results q
              in (\<lparr>xr_success = sq_success q, xr_duration = totalDuration,
                   xr_data = Some \<lparr>pd_stages = results,
                     pd_completedStages = length (filter (\<lambda>r. pr_success (sr_result r)) results),
                     pd_failedStages = length (filter (\<lambda>r. \<not> pr_success (sr_result r)) results),
                     pd_timings = map (\<lambda>r. (sr_stage r, sr_duration r)) results,
                     pd_collectionWarnings =
                       (if collectionWarnings = [] then None else Some collectionWarnings)\<rparr>,
                   xr_error = None\<rparr>, q2)))"

text \<open>Closing the gaps first, when the plan collects at all; else a full collection makes room for itself.\<close>

definition prepare_collection ::
  "'s orchestra \<Rightarrow> seq_config \<Rightarrow> string \<Rightarrow> 's \<Rightarrow> (bool \<times> fill_warning list) \<times> 's" where
  "prepare_collection W cfg testRunId s =
     (if list_ex (\<lambda>stage. stage \<in> set metricCollectionStages) (qc_stages cfg)
      then (case fill_gaps W testRunId s of
              ((True, warnings), s') \<Rightarrow> ((True, warnings), s')
            | ((False, warnings), s') \<Rightarrow>
                ((False, warnings), decompressRunSpanForCollection W testRunId s'))
      else ((False, []), s))"

definition executeSequentialPipeline ::
  "'s orchestra \<Rightarrow> string \<Rightarrow> seq_config \<Rightarrow> reporter option \<Rightarrow> 's \<Rightarrow> (seq_result \<times> 's seq) option" where
  "executeSequentialPipeline W testRunId cfg progressReporter s =
     (let startTime = o_now W s;
          ((skipCollection, collectionWarnings), s1) = prepare_collection W cfg testRunId s
      in case run_stages W cfg testRunId skipCollection (qc_stages cfg)
                \<lparr>sq_results = [], sq_success = True, sq_reporter = progressReporter, sq_world = s1\<rparr> of
           None \<Rightarrow> None
         | Some (Some e, q) \<Rightarrow> Some (run_failed W cfg startTime e q)
         | Some (None, q) \<Rightarrow> Some (run_finished W cfg testRunId startTime collectionWarnings q))"


section \<open>What a run leaves behind\<close>

lemma tell_fields [simp]:
  "sq_results (tell f q) = sq_results q" "sq_success (tell f q) = sq_success q"
  by (auto simp: tell_def split: option.splits prod.splits)

lemma push_fields [simp]:
  "sq_success (push st r d q) = sq_success q" "sq_world (push st r d q) = sq_world q"
  "sq_reporter (push st r d q) = sq_reporter q"
  "sq_results (push st r d q) = sq_results q @ [\<lparr>sr_stage = st, sr_result = r, sr_duration = d\<rparr>]"
  by (simp_all add: push_def)

lemma error_of_fails [simp]: "\<not> pr_success (error_of e)"
  by (simp add: error_of_def failed_result_def)

text \<open>What one stage adds to the results, and how its flow, its handling and its outcome go together.\<close>

definition stage_ok :: "error_handling \<Rightarrow> string \<Rightarrow> 's seq \<Rightarrow> flow \<times> 's seq \<Rightarrow> bool" where
  "stage_ok h st q c \<longleftrightarrow>
     (\<exists>r more. sq_results (snd c) = sq_results q @ r # more \<and> sr_stage r = st
        \<and> (h \<noteq> Strict \<longrightarrow> more = [])
        \<and> (case fst c of
             Proceed \<Rightarrow> more = [] \<and> (h \<noteq> Continue \<longrightarrow> pr_success (sr_result r))
               \<and> (sq_success (snd c) \<longleftrightarrow> sq_success q \<and> pr_success (sr_result r))
           | Halt \<Rightarrow> h = Abort \<and> \<not> pr_success (sr_result r) \<and> \<not> sq_success (snd c)
           | Raise e \<Rightarrow> h \<noteq> Continue \<and> \<not> pr_success (sr_result r)))"

lemma caught_ok:
  assumes "sq_results q' = sq_results q" and "sq_success q' = sq_success q"
  shows "stage_ok (error_handling_of cfg) st q (caught W cfg st t e q')"
  using assms by (auto simp: stage_ok_def caught_def Let_def)

lemma judge_ok:
  assumes "sq_results q' = sq_results q" and "sq_success q' = sq_success q"
  shows "stage_ok (error_handling_of cfg) st q (judge W cfg st t r q')"
  using assms by (cases "error_handling_of cfg") (auto simp: stage_ok_def judge_def caught_def Let_def)

lemma acquire_heavy_fields:
  assumes "acquire_heavy W holder st q = Some (e, q')"
  shows "sq_results q' = sq_results q" "sq_success q' = sq_success q"
  using assms by (auto simp: acquire_heavy_def Let_def split: option.splits prod.splits mutex_outcome.splits)

lemma run_stage_ok:
  assumes "run_stage W cfg rid st q = Some c"
  shows "stage_ok (error_handling_of cfg) st q c"
  using assms
  by (auto simp: run_stage_def Let_def acquire_heavy_fields
      intro!: caught_ok judge_ok split: option.splits prod.splits bool.splits)

definition planned :: "bool \<Rightarrow> string list \<Rightarrow> string list" where
  "planned skipCollection stages =
     filter (\<lambda>st. \<not> (skipCollection \<and> st \<in> set skippableCollectionStages)) stages"

definition plan_ok :: "error_handling \<Rightarrow> string list \<Rightarrow> 's seq \<Rightarrow> thrown option \<Rightarrow> 's seq \<Rightarrow> bool" where
  "plan_ok h plan q e q' \<longleftrightarrow>
     (\<exists>new. sq_results q' = sq_results q @ new
        \<and> (h \<noteq> Strict \<longrightarrow> (\<exists>n. map sr_stage new = take n plan))
        \<and> (h = Continue \<longrightarrow> e = None \<and> map sr_stage new = plan)
        \<and> (h = Abort \<longrightarrow> list_all (\<lambda>r. pr_success (sr_result r)) (butlast new))
        \<and> (e = None \<and> sq_success q' \<longrightarrow>
             sq_success q \<and> map sr_stage new = plan \<and> list_all (\<lambda>r. pr_success (sr_result r)) new))"

lemma plan_ok_nil: "plan_ok h [] q None q"
  by (simp add: plan_ok_def)

lemma plan_ok_stops:
  assumes "stage_ok h st q (fl, q')"
    and "fl = Halt \<and> e = None \<or> (\<exists>x. fl = Raise x \<and> e = Some x)"
  shows "plan_ok h (st # plan) q e q'"
proof -
  obtain r more where r: "sq_results q' = sq_results q @ r # more" "sr_stage r = st"
      "h \<noteq> Strict \<longrightarrow> more = []"
    using assms(1) by (auto simp: stage_ok_def)
  have "\<exists>n. map sr_stage [r] = take n (st # plan)" using r(2) by (intro exI [of _ 1]) simp
  with r assms show ?thesis unfolding plan_ok_def
    by (intro exI [of _ "r # more"]) (auto simp: stage_ok_def)
qed

lemma plan_ok_proceeds:
  assumes "stage_ok h st q (Proceed, q1)" and "plan_ok h plan q1 e q'"
  shows "plan_ok h (st # plan) q e q'"
proof -
  obtain r where r: "sq_results q1 = sq_results q @ [r]" "sr_stage r = st"
      "h \<noteq> Continue \<longrightarrow> pr_success (sr_result r)" "sq_success q1 \<longleftrightarrow> sq_success q \<and> pr_success (sr_result r)"
    using assms(1) by (auto simp: stage_ok_def)
  obtain new where new: "sq_results q' = sq_results q1 @ new"
      "h \<noteq> Strict \<longrightarrow> (\<exists>n. map sr_stage new = take n plan)"
      "h = Continue \<longrightarrow> e = None \<and> map sr_stage new = plan"
      "h = Abort \<longrightarrow> list_all (\<lambda>r. pr_success (sr_result r)) (butlast new)"
      "e = None \<and> sq_success q' \<longrightarrow>
         sq_success q1 \<and> map sr_stage new = plan \<and> list_all (\<lambda>r. pr_success (sr_result r)) new"
    using assms(2) unfolding plan_ok_def by blast
  have "h \<noteq> Strict \<longrightarrow> (\<exists>n. map sr_stage (r # new) = take n (st # plan))"
    using new(2) r(2) by (metis list.simps(9) take_Suc_Cons)
  moreover have "h = Abort \<longrightarrow> list_all (\<lambda>r. pr_success (sr_result r)) (butlast (r # new))"
    using new(4) r(3) by auto
  ultimately show ?thesis
    unfolding plan_ok_def using r new by (intro exI [of _ "r # new"]) auto
qed

lemma run_stages_plan:
  assumes "run_stages W cfg rid skip stages q = Some (e, q')"
  shows "plan_ok (error_handling_of cfg) (planned skip stages) q e q'"
  using assms
proof (induction stages arbitrary: q)
  case Nil
  then show ?case by (simp add: planned_def plan_ok_nil)
next
  case (Cons st stages)
  show ?case
  proof (cases "skip \<and> st \<in> set skippableCollectionStages")
    case True
    with Cons show ?thesis by (simp add: planned_def)
  next
    case False
    then have p: "planned skip (st # stages) = st # planned skip stages" by (simp add: planned_def)
    from Cons.prems False obtain fl q1 where s: "run_stage W cfg rid st q = Some (fl, q1)"
      by (auto split: option.splits)
    note ok = run_stage_ok [OF s]
    show ?thesis
    proof (cases fl)
      case Proceed
      then have "run_stages W cfg rid skip stages q1 = Some (e, q')"
        using Cons.prems False s by (simp only: run_stages.simps if_False) simp
      from plan_ok_proceeds [OF _ Cons.IH [OF this]] ok Proceed show ?thesis by (simp add: p)
    next
      case Halt
      then have "e = None \<and> q' = q1" using Cons.prems False s by (simp only: run_stages.simps if_False) simp
      with plan_ok_stops [OF ok] Halt show ?thesis by (simp add: p)
    next
      case (Raise x)
      then have "e = Some x \<and> q' = q1" using Cons.prems False s by (simp only: run_stages.simps if_False) simp
      with plan_ok_stops [OF ok] Raise show ?thesis by (simp add: p)
    qed
  qed
qed

definition skips_collection :: "'s orchestra \<Rightarrow> string \<Rightarrow> seq_config \<Rightarrow> 's \<Rightarrow> bool" where
  "skips_collection W rid cfg s \<longleftrightarrow> fst (fst (prepare_collection W cfg rid s))"

lemma run_failed_fields [simp]:
  "xr_success (fst (run_failed W cfg t e q)) = False"
  "xr_data (fst (run_failed W cfg t e q)) = None"
  "sq_results (snd (run_failed W cfg t e q)) = sq_results q"
  by (simp_all add: run_failed_def Let_def)

lemma run_finished_fields:
  "xr_success (fst (run_finished W cfg rid t ws q)) \<Longrightarrow> sq_success q"
  "sq_results (snd (run_finished W cfg rid t ws q)) = sq_results q"
  by (auto simp: run_finished_def Let_def split: option.splits)

lemma sequential_cases:
  assumes "executeSequentialPipeline W rid cfg rep s = Some (x, q)"
  obtains e q0 ws where
    "run_stages W cfg rid (skips_collection W rid cfg s) (qc_stages cfg)
       \<lparr>sq_results = [], sq_success = True, sq_reporter = rep,
        sq_world = snd (prepare_collection W cfg rid s)\<rparr> = Some (e, q0)"
    "(x, q) = (case e of Some e \<Rightarrow> run_failed W cfg (o_now W s) e q0
               | None \<Rightarrow> run_finished W cfg rid (o_now W s) ws q0)"
proof -
  obtain skip ws s1 where pr: "prepare_collection W cfg rid s = ((skip, ws), s1)"
    by (metis prod.collapse)
  let ?run = "run_stages W cfg rid skip (qc_stages cfg)
       \<lparr>sq_results = [], sq_success = True, sq_reporter = rep, sq_world = s1\<rparr>"
  from assms obtain e q0 where run: "?run = Some (e, q0)"
    by (cases ?run) (auto simp: executeSequentialPipeline_def pr)
  have "(x, q) = (case e of Some e \<Rightarrow> run_failed W cfg (o_now W s) e q0
               | None \<Rightarrow> run_finished W cfg rid (o_now W s) ws q0)"
    using assms run by (cases e) (simp_all add: executeSequentialPipeline_def pr)
  with that run show thesis by (simp add: skips_collection_def pr)
qed

lemma sequential_plan:
  assumes "executeSequentialPipeline W rid cfg rep s = Some (x, q)"
  shows "let plan = planned (skips_collection W rid cfg s) (qc_stages cfg); ran = map sr_stage (sq_results q);
             ok = (\<lambda>r. pr_success (sr_result r)); h = error_handling_of cfg
         in (h \<noteq> Strict \<longrightarrow> (\<exists>n. ran = take n plan)) \<and> (h = Continue \<longrightarrow> ran = plan)
            \<and> (h = Abort \<longrightarrow> list_all ok (butlast (sq_results q)))
            \<and> (xr_success x \<longrightarrow> ran = plan \<and> list_all ok (sq_results q))"
  using assms
proof (cases rule: sequential_cases)
  case (1 e q0 ws)
  have p: "plan_ok (error_handling_of cfg) (planned (skips_collection W rid cfg s) (qc_stages cfg))
      \<lparr>sq_results = [], sq_success = True, sq_reporter = rep,
       sq_world = snd (prepare_collection W cfg rid s)\<rparr> e q0"
    by (rule run_stages_plan [OF 1(1)])
  have r: "sq_results q = sq_results q0 \<and> (xr_success x \<longrightarrow> e = None \<and> sq_success q0)"
  proof (cases e)
    case None
    then have "x = fst (run_finished W cfg rid (o_now W s) ws q0)" "q = snd (run_finished W cfg rid (o_now W s) ws q0)"
      using 1(2) by (simp_all add: prod_eq_iff)
    with run_finished_fields [of W cfg rid "o_now W s" ws q0] None show ?thesis by blast
  next
    case (Some y)
    then have "x = fst (run_failed W cfg (o_now W s) y q0)" "q = snd (run_failed W cfg (o_now W s) y q0)"
      using 1(2) by (simp_all add: prod_eq_iff)
    then show ?thesis by simp
  qed
  obtain new where new: "sq_results q0 = new"
      "error_handling_of cfg \<noteq> Strict \<longrightarrow>
         (\<exists>n. map sr_stage new = take n (planned (skips_collection W rid cfg s) (qc_stages cfg)))"
      "error_handling_of cfg = Continue \<longrightarrow>
         map sr_stage new = planned (skips_collection W rid cfg s) (qc_stages cfg)"
      "error_handling_of cfg = Abort \<longrightarrow> list_all (\<lambda>r. pr_success (sr_result r)) (butlast new)"
      "e = None \<and> sq_success q0 \<longrightarrow>
         map sr_stage new = planned (skips_collection W rid cfg s) (qc_stages cfg)
         \<and> list_all (\<lambda>r. pr_success (sr_result r)) new"
    using p unfolding plan_ok_def by (metis append_Nil seq.select_convs(1))
  show ?thesis unfolding Let_def r [THEN conjunct1] new(1) using new(2-) r by blast
qed

section \<open>The heavy stages and the mutex\<close>

definition bull_quiet :: "'s orchestra \<Rightarrow> bool" where
  "bull_quiet W \<longleftrightarrow> (\<forall>n s. r_view (o_redis W) (snd (o_bull W n s)) = r_view (o_redis W) s)"

lemma heavy_key_not_progress [simp]: "HEAVY_STAGE_LOCK_KEY \<noteq> progress_key j"
  by (simp add: HEAVY_STAGE_LOCK_KEY_def progress_key_def PROGRESS_PREFIX_def)

context redis
begin

lemma publishProgress_other:
  assumes b: "\<And>n s. r_view R (snd (bull n s)) = r_view R s" and k: "k \<noteq> progress_key (rp_jobId p)"
  shows "r_view R (snd (publishProgress R bull now p s)) k = r_view R s k"
proof -
  let ?o = "buildProgressObject (p\<lparr>rp_lastProgressAt := now\<rparr>)"
  obtain e1 s1 where 1: "bull (jp_overallProgress ?o) s = (e1, s1)" by fastforce
  obtain e2 s2 where 2: "r_setex R (progress_key (rp_jobId p)) (LOCK_TTL_SECONDS * 1000) (RProgress ?o) s1 = (e2, s2)"
    by fastforce
  obtain e3 s3 where 3: "r_publish R (EvProgress ?o) s2 = (e3, s3)" by fastforce
  have v1: "r_view R s1 = r_view R s" using b [of "jp_overallProgress ?o" s] 1 by simp
  have v2: "r_view R s2 k = r_view R s1 k" using setex_view [OF 2] k by auto
  have v3: "r_view R s3 = r_view R s2" using publish_view [OF 3] .
  show ?thesis using 1 2 3 v1 v2 v3
    by (simp add: publishProgress_def Let_def io_defs split: option.splits)
qed

lemma setWaiting_mutex:
  assumes "\<And>n s. r_view R (snd (bull n s)) = r_view R s"
  shows "mutex_held R (snd (setWaiting R bull now m p s)) = mutex_held R s"
  using publishProgress_other [OF assms] by (simp add: mutex_held_def setWaiting_def)

end

lemma acquire_heavy_holds:
  assumes "redis_laws (o_redis W)" and "bull_quiet W" and "acquire_heavy W holder st q = Some (None, q')"
  shows "mutex_held (o_redis W) (sq_world q') = Some (Some (mutex_token holder (o_uuid W st)), HEAVY_LOCK_TTL_MS)"
proof -
  let ?R = "o_redis W"
  from assms(3) obtain w f s where a: "mutex_acquire ?R (o_poll_env W st) (o_poll_now W st) f
      holder (o_uuid W st) None (o_now W (sq_world q)) (sq_world q) = Some (MutexAcquired w, s)"
    and q': "q' = tell (setWaiting ?R (o_bull W) (o_now W s) None) (q\<lparr>sq_world := s\<rparr>)"
    by (auto simp: acquire_heavy_def Let_def split: option.splits prod.splits mutex_outcome.splits)
  have "mutex_held ?R s = Some (Some (mutex_token holder (o_uuid W st)), HEAVY_LOCK_TTL_MS)"
    using mutex_poll_wrote [OF assms(1) a [unfolded mutex_acquire_def]] by simp
  moreover have "mutex_held ?R (sq_world q') = mutex_held ?R s"
    using redis.setWaiting_mutex [OF redis.intro [OF assms(1)], of "o_bull W"] assms(2)
    by (auto simp: q' tell_def bull_quiet_def split: option.splits prod.splits)
      (metis snd_conv)
  ultimately show ?thesis by simp
qed

text \<open>Two families of pipelines that agree wherever a heavy stage's nonce holds the mutex.\<close>

definition agree_under_mutex ::
  "'s orchestra \<Rightarrow> string \<Rightarrow> (string \<Rightarrow> string \<Rightarrow> 's \<Rightarrow> settled \<times> 's) \<Rightarrow> bool" where
  "agree_under_mutex W holder pl \<longleftrightarrow>
     (\<forall>st rid s. st \<in> set HEAVY_STAGES \<longrightarrow>
        (\<exists>t. mutex_held (o_redis W) s = Some (Some (mutex_token holder (o_uuid W st)), t))
        \<longrightarrow> pl st rid s = o_pipeline W st rid s)
     \<and> (\<forall>st rid s. st \<notin> set HEAVY_STAGES \<longrightarrow> pl st rid s = o_pipeline W st rid s)"

lemma other_fields:
  "o_redis (W\<lparr>o_pipeline := pl\<rparr>) = o_redis W"
  "o_bull (W\<lparr>o_pipeline := pl\<rparr>) = o_bull W"
  "o_now (W\<lparr>o_pipeline := pl\<rparr>) = o_now W"
  "o_tables (W\<lparr>o_pipeline := pl\<rparr>) = o_tables W"
  "o_fetch (W\<lparr>o_pipeline := pl\<rparr>) = o_fetch W"
  "o_coll (W\<lparr>o_pipeline := pl\<rparr>) = o_coll W"
  "o_set_coll (W\<lparr>o_pipeline := pl\<rparr>) = o_set_coll W"
  "o_span (W\<lparr>o_pipeline := pl\<rparr>) = o_span W"
  "o_decompress (W\<lparr>o_pipeline := pl\<rparr>) = o_decompress W"
  "o_annotations (W\<lparr>o_pipeline := pl\<rparr>) = o_annotations W"
  "o_annotate (W\<lparr>o_pipeline := pl\<rparr>) = o_annotate W"
  "o_late (W\<lparr>o_pipeline := pl\<rparr>) = o_late W"
  "o_abandoned (W\<lparr>o_pipeline := pl\<rparr>) = o_abandoned W"
  "o_poll_env (W\<lparr>o_pipeline := pl\<rparr>) = o_poll_env W"
  "o_poll_now (W\<lparr>o_pipeline := pl\<rparr>) = o_poll_now W"
  "o_uuid (W\<lparr>o_pipeline := pl\<rparr>) = o_uuid W"
  "o_redis_error (W\<lparr>o_pipeline := pl\<rparr>) = o_redis_error W"
  by simp_all

lemma executeStage_cong:
  assumes "pl st rid s = o_pipeline W st rid s"
  shows "executeStage (W\<lparr>o_pipeline := pl\<rparr>) st rid t s = executeStage W st rid t s"
proof -
  have "dispatch (W\<lparr>o_pipeline := pl\<rparr>) st rid s = dispatch W st rid s"
    using assms by (cases "st = ''transaction-stats-rollup''") (simp_all add: dispatch_def)
  then have "race (W\<lparr>o_pipeline := pl\<rparr>) st rid t s = race W st rid t s"
    unfolding race_def other_fields by (cases t) simp_all
  then show ?thesis unfolding executeStage_def by simp
qed

lemma fields_kept:
  "acquire_heavy (W\<lparr>o_pipeline := pl\<rparr>) = acquire_heavy W"
  "judge (W\<lparr>o_pipeline := pl\<rparr>) = judge W"
  "caught (W\<lparr>o_pipeline := pl\<rparr>) = caught W"
  "run_failed (W\<lparr>o_pipeline := pl\<rparr>) = run_failed W"
  "run_finished (W\<lparr>o_pipeline := pl\<rparr>) = run_finished W"
  "prepare_collection (W\<lparr>o_pipeline := pl\<rparr>) = prepare_collection W"
proof -
  show c: "caught (W\<lparr>o_pipeline := pl\<rparr>) = caught W"
    unfolding caught_def other_fields ..
  show f: "run_failed (W\<lparr>o_pipeline := pl\<rparr>) = run_failed W"
    unfolding run_failed_def other_fields ..
  show "acquire_heavy (W\<lparr>o_pipeline := pl\<rparr>) = acquire_heavy W"
    unfolding acquire_heavy_def other_fields ..
  show "judge (W\<lparr>o_pipeline := pl\<rparr>) = judge W"
    unfolding judge_def c other_fields ..
  show "run_finished (W\<lparr>o_pipeline := pl\<rparr>) = run_finished W"
    unfolding run_finished_def f addWarningsToTestRun_def other_fields ..
  show "prepare_collection (W\<lparr>o_pipeline := pl\<rparr>) = prepare_collection W"
    unfolding prepare_collection_def fill_gaps_def decompressRunSpanForCollection_def other_fields ..
qed

lemma run_stage_guarded:
  assumes "redis_laws (o_redis W)" and "bull_quiet W" and "qc_mutex cfg = Some holder"
    and "agree_under_mutex W holder pl"
  shows "run_stage (W\<lparr>o_pipeline := pl\<rparr>) cfg rid st q = run_stage W cfg rid st q"
proof (cases "st \<in> set HEAVY_STAGES")
  case True
  define q1 where "q1 = tell (startStage (o_redis W) (o_bull W) (o_now W (sq_world q)) st) q"
  have "executeStage (W\<lparr>o_pipeline := pl\<rparr>) st rid t (sq_world q2) = executeStage W st rid t (sq_world q2)"
    if "acquire_heavy W holder st q1 = Some (None, q2)" for q2 t
    using acquire_heavy_holds [OF assms(1,2) that] assms(4) True
    by (intro executeStage_cong) (auto simp: agree_under_mutex_def)
  then show ?thesis
    using True assms(3) q1_def
    by (auto simp: run_stage_def Let_def fields_kept split: option.splits prod.splits)
next
  case False
  then have "executeStage (W\<lparr>o_pipeline := pl\<rparr>) st rid t s = executeStage W st rid t s" for t s
    using assms(4) by (intro executeStage_cong) (auto simp: agree_under_mutex_def)
  with False show ?thesis by (simp add: run_stage_def Let_def fields_kept)
qed

lemma sequential_guarded:
  assumes "redis_laws (o_redis W)" and "bull_quiet W" and "qc_mutex cfg = Some holder"
    and "agree_under_mutex W holder pl"
  shows "executeSequentialPipeline (W\<lparr>o_pipeline := pl\<rparr>) rid cfg rep s
       = executeSequentialPipeline W rid cfg rep s"
proof -
  have "run_stages (W\<lparr>o_pipeline := pl\<rparr>) cfg rid skip stages q = run_stages W cfg rid skip stages q"
    for skip stages q
  proof (induction stages arbitrary: q)
    case (Cons st stages)
    show ?case unfolding run_stages.simps run_stage_guarded [OF assms] Cons.IH ..
  qed simp
  then show ?thesis unfolding executeSequentialPipeline_def fields_kept other_fields by simp
qed

section \<open>A run without obstacles\<close>

text \<open>
  A step that lets the clock go on and leaves the holder of the mutex as it is, and a healthy world:
  Redis answers, every stage of the plan other than the rollup resolves with a success, no timer
  fires first, and no step but those of the mutex itself touches the mutex.
\<close>

definition mutex_value :: "'s orchestra \<Rightarrow> 's \<Rightarrow> rvalue option" where
  "mutex_value W s = map_option fst (r_view (o_redis W) s HEAVY_STAGE_LOCK_KEY)"

definition onward :: "'s orchestra \<Rightarrow> 's \<Rightarrow> 's \<Rightarrow> bool" where
  "onward W s s' \<longleftrightarrow> o_now W s \<le> o_now W s' \<and> mutex_value W s' = mutex_value W s"

definition clock_goes_on :: "'s orchestra \<Rightarrow> bool" where
  "clock_goes_on W \<longleftrightarrow>
     (\<forall>k s. o_now W s \<le> o_now W (snd (r_get (o_redis W) k s)))
     \<and> (\<forall>k v t s. o_now W s \<le> o_now W (snd (r_set_nx (o_redis W) k v t s)))
     \<and> (\<forall>k v t s. o_now W s \<le> o_now W (snd (r_setex (o_redis W) k t v s)))
     \<and> (\<forall>k s. o_now W s \<le> o_now W (snd (r_del (o_redis W) k s)))
     \<and> (\<forall>ev s. o_now W s \<le> o_now W (snd (r_publish (o_redis W) ev s)))"

definition healthy :: "'s orchestra \<Rightarrow> string list \<Rightarrow> bool" where
  "healthy W stages \<longleftrightarrow>
     redis_laws (o_redis W) \<and> redis_up (o_redis W) \<and> clock_goes_on W
     \<and> (\<forall>n s. onward W s (snd (o_bull W n s)))
     \<and> (\<forall>db s. onward W s (o_set_coll W db s))
     \<and> (\<forall>a b s. onward W s (snd (o_decompress W a b s)))
     \<and> (\<forall>st rid s. onward W s (snd (o_pipeline W st rid s)))
     \<and> (\<forall>st t s. \<not> o_late W st t s)
     \<and> set stages \<subseteq> set ORCHESTRATED_STAGES
     \<and> (\<forall>st rid s. st \<in> set stages \<longrightarrow> st \<noteq> ''transaction-stats-rollup'' \<longrightarrow>
          (\<exists>r. fst (o_pipeline W st rid s) = Resolved r \<and> pr_success r))"

lemma healthyD:
  assumes "healthy W stages"
  shows "redis (o_redis W)" and "redis_up (o_redis W)"
    and "o_bull W n s = (u, s') \<Longrightarrow> onward W s s'"
    and "onward W s (o_set_coll W db s)" and "onward W s (snd (o_decompress W a b s))"
    and "onward W s (snd (o_pipeline W st rid s))" and "\<not> o_late W st t s"
    and "st \<in> set stages \<Longrightarrow> st \<in> set ORCHESTRATED_STAGES"
    and "st \<in> set stages \<Longrightarrow> st \<noteq> ''transaction-stats-rollup'' \<Longrightarrow>
          \<exists>r. fst (o_pipeline W st rid s) = Resolved r \<and> pr_success r"
  using assms unfolding healthy_def
  by (blast intro: redis.intro, blast, metis snd_conv, blast, blast, blast, blast, blast, blast)

lemma healthy_clock:
  assumes "healthy W stages"
  shows "r_get (o_redis W) k s = (e1, s') \<Longrightarrow> o_now W s \<le> o_now W s'"
    and "r_set_nx (o_redis W) k v t s = (e2, s') \<Longrightarrow> o_now W s \<le> o_now W s'"
    and "r_setex (o_redis W) k t v s = (e3, s') \<Longrightarrow> o_now W s \<le> o_now W s'"
    and "r_del (o_redis W) k s = (e4, s') \<Longrightarrow> o_now W s \<le> o_now W s'"
    and "r_publish (o_redis W) ev s = (e5, s') \<Longrightarrow> o_now W s \<le> o_now W s'"
proof -
  have "clock_goes_on W" using assms unfolding healthy_def by blast
  note c = this [unfolded clock_goes_on_def]
  show "r_get (o_redis W) k s = (e1, s') \<Longrightarrow> o_now W s \<le> o_now W s'"
    using spec [OF spec [OF conjunct1 [OF c], of k], of s] by simp
  show "r_set_nx (o_redis W) k v t s = (e2, s') \<Longrightarrow> o_now W s \<le> o_now W s'"
    using c by (metis snd_conv)
  show "r_setex (o_redis W) k t v s = (e3, s') \<Longrightarrow> o_now W s \<le> o_now W s'"
    using c by (metis snd_conv)
  show "r_del (o_redis W) k s = (e4, s') \<Longrightarrow> o_now W s \<le> o_now W s'"
    using c by (metis snd_conv)
  show "r_publish (o_redis W) ev s = (e5, s') \<Longrightarrow> o_now W s \<le> o_now W s'"
    using c by (metis snd_conv)
qed

lemma healthy_up:
  assumes "healthy W stages"
  shows "r_get (o_redis W) k s = (e1, s') \<Longrightarrow> e1 \<noteq> None"
    and "r_set_nx (o_redis W) k v t s = (e2, s') \<Longrightarrow> e2 \<noteq> None"
    and "r_del (o_redis W) k s = (e4, s') \<Longrightarrow> e4 \<noteq> None"
  using healthyD(2) [OF assms] unfolding redis_up_def by (metis fst_conv, metis fst_conv, metis fst_conv)

lemma onward_refl [simp]: "onward W s s"
  by (simp add: onward_def)

lemma onward_trans: "onward W s s1 \<Longrightarrow> onward W s1 s2 \<Longrightarrow> onward W s s2"
  by (simp add: onward_def)

lemma publish_onward:
  assumes "healthy W stages"
  shows "onward W s (snd (publishProgress (o_redis W) (o_bull W) now p s))"
proof -
  let ?R = "o_redis W" and ?o = "buildProgressObject (p\<lparr>rp_lastProgressAt := now\<rparr>)"
  note laws = healthyD(1) [OF assms]
  obtain e1 s1 where 1: "o_bull W (jp_overallProgress ?o) s = (e1, s1)" by fastforce
  obtain e2 s2 where 2: "r_setex ?R (progress_key (rp_jobId p)) (LOCK_TTL_SECONDS * 1000) (RProgress ?o) s1 = (e2, s2)"
    by fastforce
  obtain e3 s3 where 3: "r_publish ?R (EvProgress ?o) s2 = (e3, s3)" by fastforce
  have v1: "onward W s s1" using healthyD(3) [OF assms 1] .
  have "o_now W s1 \<le> o_now W s2" "o_now W s2 \<le> o_now W s3"
    using healthy_clock(3) [OF assms 2] healthy_clock(5) [OF assms 3] by simp_all
  moreover have "mutex_value W s2 = mutex_value W s1"
    using redis.setex_view [OF laws 2] by (auto simp: mutex_value_def)
  moreover have "mutex_value W s3 = mutex_value W s2"
    using redis.publish_view [OF laws 3] by (simp add: mutex_value_def)
  ultimately have step: "onward W s1 s2" "onward W s2 s3" by (simp_all add: onward_def)
  note o = onward_trans [OF v1 step(1)] onward_trans [OF onward_trans [OF v1 step(1)] step(2)]
  show ?thesis using 1 2 3 v1 o by (simp add: publishProgress_def Let_def io_defs split: option.splits)
qed

lemma tell_onward:
  assumes "\<And>p s. onward W s (snd (f p s))"
  shows "onward W (sq_world q) (sq_world (tell f q))"
proof (cases "sq_reporter q")
  case (Some p)
  with assms [of "sq_world q" p] show ?thesis by (cases "f p (sq_world q)") (simp add: tell_def)
qed (simp add: tell_def)

lemma reports_onward:
  assumes "healthy W stages"
  shows "onward W (sq_world q) (sq_world (tell (startStage (o_redis W) (o_bull W) n st) q))"
    and "onward W (sq_world q) (sq_world (tell (completeStage (o_redis W) (o_bull W) n) q))"
    and "onward W (sq_world q) (sq_world (tell (setWaiting (o_redis W) (o_bull W) n m) q))"
  using publish_onward [OF assms]
  by (auto intro!: tell_onward simp: startStage_def completeStage_def setWaiting_def Let_def)

text \<open>The mutex is taken at once when nobody holds it, and is free again after its release.\<close>

lemma acquire_heavy_free:
  assumes "healthy W stages" and "mutex_value W (sq_world q) = None"
  obtains q' where "acquire_heavy W holder st q = Some (None, q')"
    "mutex_value W (sq_world q') = Some (RText (mutex_token holder (o_uuid W st)))"
    "o_now W (sq_world q) \<le> o_now W (sq_world q')"
    "sq_results q' = sq_results q" "sq_success q' = sq_success q"
proof -
  let ?R = "o_redis W" and ?t = "mutex_token holder (o_uuid W st)" and ?s = "sq_world q"
  note laws = healthyD(1) [OF assms(1)]
  obtain r s1 where c: "r_set_nx ?R HEAVY_STAGE_LOCK_KEY (RText ?t) HEAVY_LOCK_TTL_MS ?s = (r, s1)" by fastforce
  have "r \<noteq> None" using healthy_up(2) [OF assms(1) c] .
  moreover have "r_view ?R ?s HEAVY_STAGE_LOCK_KEY = None" using assms(2) by (simp add: mutex_value_def)
  ultimately have r: "r = Some True" and v: "mutex_value W s1 = Some (RText ?t)"
    using redis.set_nx_view [OF laws c] by (auto simp: mutex_value_def)
  have n1: "o_now W ?s \<le> o_now W s1" using healthy_clock(2) [OF assms(1) c] .
  have "mutex_acquire ?R (o_poll_env W st) (o_poll_now W st) f holder (o_uuid W st) None (o_now W ?s) ?s
      = Some (MutexAcquired (o_poll_now W st 0 - o_now W ?s), s1)" for f
    unfolding mutex_acquire_def by (subst mutex_poll.simps) (simp add: c r)
  then have a: "acquire_heavy W holder st q
      = Some (None, tell (setWaiting ?R (o_bull W) (o_now W s1) None) (q\<lparr>sq_world := s1\<rparr>))"
    by (simp add: acquire_heavy_def Let_def)
  have "onward W s1 (sq_world (tell (setWaiting ?R (o_bull W) (o_now W s1) None) (q\<lparr>sq_world := s1\<rparr>)))"
    using reports_onward(3) [OF assms(1), of "q\<lparr>sq_world := s1\<rparr>"] by simp
  with that [OF a] v n1 show thesis by (simp add: onward_def)
qed

lemma mutex_release_frees:
  assumes "healthy W stages" and "mutex_value W s = Some (RText t)"
  shows "mutex_value W (mutex_release (o_redis W) t s) = None
     \<and> o_now W s \<le> o_now W (mutex_release (o_redis W) t s)"
proof -
  let ?R = "o_redis W"
  note laws = healthyD(1) [OF assms(1)]
  obtain g s1 where g: "r_get ?R HEAVY_STAGE_LOCK_KEY s = (g, s1)" by fastforce
  have "g \<noteq> None" using healthy_up(1) [OF assms(1) g] .
  then have g': "g = Some (Some (RText t))"
    using redis.get_view(2) [OF laws g] assms(2) by (auto simp: mutex_value_def)
  obtain d s2 where d: "r_del ?R HEAVY_STAGE_LOCK_KEY s1 = (d, s2)" by fastforce
  have "d \<noteq> None" using healthy_up(3) [OF assms(1) d] .
  then have v2: "r_view ?R s2 HEAVY_STAGE_LOCK_KEY = None" using redis.del_view(1) [OF laws d] by auto
  have n: "o_now W s \<le> o_now W s1" "o_now W s1 \<le> o_now W s2"
    using healthy_clock(1) [OF assms(1) g] healthy_clock(4) [OF assms(1) d] by simp_all
  have "mutex_release ?R t s = s2"
    using g g' d by (simp add: mutex_release_def DEL_IF_HOLDER_def io_defs)
  with v2 n show ?thesis by (simp add: mutex_value_def)
qed

definition calm :: "'s orchestra \<Rightarrow> int \<Rightarrow> 's seq \<Rightarrow> bool" where
  "calm W t0 q \<longleftrightarrow>
     sq_success q \<and> mutex_value W (sq_world q) = None \<and> t0 \<le> o_now W (sq_world q)
     \<and> (\<forall>r \<in> set (sq_results q). 0 \<le> sr_duration r \<and> sr_duration r \<le> o_now W (sq_world q) - t0)"

lemma calm_later:
  assumes "calm W t0 q" and "mutex_value W (sq_world q') = None"
    and "o_now W (sq_world q) \<le> o_now W (sq_world q')"
    and "sq_results q' = sq_results q" and "sq_success q' = sq_success q"
  shows "calm W t0 q'"
  using assms by (force simp: calm_def)

lemma calm_onward:
  assumes "calm W t0 q" and "onward W (sq_world q) (sq_world q')"
    and "sq_results q' = sq_results q" and "sq_success q' = sq_success q"
  shows "calm W t0 q'"
  using assms by (intro calm_later [OF assms(1)]) (auto simp: onward_def calm_def)

lemma executeStage_healthy:
  assumes "healthy W stages" and "st \<in> set stages"
  shows "pr_success (fst (executeStage W st rid t s))
     \<and> snd (executeStage W st rid t s) = snd (o_pipeline W st rid s)"
proof -
  have race: "race W st rid t s = dispatch W st rid s"
    using healthyD(7) [OF assms(1)] by (simp add: race_def split: option.splits)
  have "\<exists>r. dispatch W st rid s = (Resolved r, snd (o_pipeline W st rid s)) \<and> pr_success r"
  proof (cases "st = ''transaction-stats-rollup''")
    case True
    obtain r s' where p: "o_pipeline W ''transaction-stats-rollup'' rid s = (r, s')" by fastforce
    show ?thesis
      by (cases r) (simp_all add: True p dispatch_def skipped_result_def split: option.splits)
  next
    case False
    with healthyD(9) [OF assms, of rid s] show ?thesis
      by (cases "o_pipeline W st rid s") (auto simp: dispatch_def)
  qed
  then show ?thesis
    using healthyD(8) [OF assms(1,2)] race by (auto simp: executeStage_def)
qed

lemma judge_healthy:
  assumes "healthy W stages" and "calm W t0 q" and "pr_success r"
    and "t0 \<le> start" and "start \<le> o_now W (sq_world q)"
  shows "\<exists>q'. judge W cfg st start r q = (Proceed, q') \<and> calm W t0 q'"
proof -
  let ?q1 = "push st r (o_now W (sq_world q) - start) q"
  let ?q' = "tell (completeStage (o_redis W) (o_bull W) (o_now W (sq_world ?q1))) ?q1"
  have "calm W t0 ?q1" using assms(2,4,5) by (auto simp: calm_def)
  then have "calm W t0 ?q'" using reports_onward(2) [OF assms(1), of ?q1] by (auto intro: calm_onward)
  then show ?thesis using assms(3) by (simp add: judge_def Let_def)
qed

lemma run_stage_healthy:
  assumes "healthy W stages" and "st \<in> set stages" and "calm W t0 q"
  shows "\<exists>q'. run_stage W cfg rid st q = Some (Proceed, q') \<and> calm W t0 q'"
proof -
  define q1 where "q1 = tell (startStage (o_redis W) (o_bull W) (o_now W (sq_world q)) st) q"
  have o1: "onward W (sq_world q) (sq_world q1)" unfolding q1_def by (rule reports_onward(1) [OF assms(1)])
  have c1: "calm W t0 q1" using calm_onward [OF assms(3) o1] by (simp add: q1_def)
  let ?start = "o_now W (sq_world q)"
  have st: "t0 \<le> ?start" using assms(3) by (simp add: calm_def)
  have n1: "?start \<le> o_now W (sq_world q1)" using o1 by (simp add: onward_def)
  show ?thesis
  proof (cases "st \<in> set HEAVY_STAGES \<and> qc_mutex cfg \<noteq> None")
    case True
    then obtain holder where h: "qc_mutex cfg = Some holder" by blast
    from c1 have "mutex_value W (sq_world q1) = None" by (simp add: calm_def)
    from acquire_heavy_free [OF assms(1) this] obtain q2 where
      a: "acquire_heavy W holder st q1 = Some (None, q2)"
      and v2: "mutex_value W (sq_world q2) = Some (RText (mutex_token holder (o_uuid W st)))"
      and n2: "o_now W (sq_world q1) \<le> o_now W (sq_world q2)"
      and f2: "sq_results q2 = sq_results q1" "sq_success q2 = sq_success q1" by blast
    obtain r s3 where e: "executeStage W st rid None (sq_world q2) = (r, s3)" by fastforce
    have r: "pr_success r" and "s3 = snd (o_pipeline W st rid (sq_world q2))"
      using executeStage_healthy [OF assms(1,2), of rid None "sq_world q2"] e by auto
    then have o3: "onward W (sq_world q2) s3" using healthyD(6) [OF assms(1)] by simp
    let ?s4 = "mutex_release (o_redis W) (mutex_token holder (o_uuid W st)) s3"
    have "mutex_value W s3 = Some (RText (mutex_token holder (o_uuid W st)))" using o3 v2 by (simp add: onward_def)
    from mutex_release_frees [OF assms(1) this]
    have "mutex_value W ?s4 = None" and n4: "o_now W (sq_world q2) \<le> o_now W ?s4"
      using o3 by (auto simp: onward_def)
    then have c4: "calm W t0 (q2\<lparr>sq_world := ?s4\<rparr>)"
      using n2 f2 by (intro calm_later [OF c1]) auto
    have "?start \<le> o_now W (sq_world (q2\<lparr>sq_world := ?s4\<rparr>))" using n1 n2 n4 by simp
    from judge_healthy [OF assms(1) c4 r st this, of cfg st]
    show ?thesis using True by (simp add: run_stage_def Let_def q1_def [symmetric] h a e)
  next
    case False
    then have a: "(case (st \<in> set HEAVY_STAGES, qc_mutex cfg) of
        (True, Some holder) \<Rightarrow> acquire_heavy W holder st q1 | _ \<Rightarrow> Some (None, q1)) = Some (None, q1)"
      by (auto split: bool.splits option.splits)
    let ?t = "if st \<in> set HEAVY_STAGES then None else Some (stage_timeout cfg)"
    obtain r s3 where e: "executeStage W st rid ?t (sq_world q1) = (r, s3)" by fastforce
    have r: "pr_success r" and "s3 = snd (o_pipeline W st rid (sq_world q1))"
      using executeStage_healthy [OF assms(1,2), of rid ?t "sq_world q1"] e by auto
    then have o3: "onward W (sq_world q1) s3" using healthyD(6) [OF assms(1)] by simp
    then have c3: "calm W t0 (q1\<lparr>sq_world := s3\<rparr>)" by (intro calm_onward [OF c1]) auto
    have "?start \<le> o_now W (sq_world (q1\<lparr>sq_world := s3\<rparr>))" using n1 o3 by (simp add: onward_def)
    from judge_healthy [OF assms(1) c3 r st this, of cfg st]
    obtain q' where j: "judge W cfg st ?start r (q1\<lparr>sq_world := s3\<rparr>) = (Proceed, q')" "calm W t0 q'" by blast
    have "run_stage W cfg rid st q = Some (Proceed, q')"
      unfolding run_stage_def Let_def q1_def [symmetric] a
      using False e j(1) by (cases "st \<in> set HEAVY_STAGES"; cases "qc_mutex cfg") simp_all
    with j(2) show ?thesis by blast
  qed
qed

lemma run_stages_healthy:
  assumes "healthy W all" and "set stages \<subseteq> set all" and "calm W t0 q"
  shows "\<exists>q'. run_stages W cfg rid skip stages q = Some (None, q') \<and> calm W t0 q'"
  using assms(2,3)
proof (induction stages arbitrary: q)
  case (Cons st stages)
  show ?case
  proof (cases "skip \<and> st \<in> set skippableCollectionStages")
    case True
    with Cons show ?thesis by simp
  next
    case False
    have "st \<in> set all" using Cons.prems by simp
    from run_stage_healthy [OF assms(1) this Cons.prems(2)] obtain q1 where
      "run_stage W cfg rid st q = Some (Proceed, q1)" "calm W t0 q1" by blast
    with Cons False show ?thesis by (simp only: run_stages.simps if_False) simp
  qed
qed simp

lemma breakdown_drawn:
  assumes "\<forall>r \<in> set results. 0 \<le> sr_duration r \<and> sr_duration r \<le> T"
  shows "logStageBreakdown results T = None"
proof -
  have "bad_bar T r = None" if "r \<in> set results" for r
  proof (cases "T = 0")
    case True
    with assms that show ?thesis by (force simp: bad_bar_def)
  next
    case False
    have "0 \<le> sr_duration r" "0 \<le> T" using assms that by force+
    then have "(0::rat) \<le> of_int (sr_duration r) / of_int T * 40" by simp
    then have "js_round 0 \<le> bar_count (sr_duration r) T" unfolding bar_count_def by (rule js_round_mono)
    then have "0 \<le> bar_count (sr_duration r) T" using js_round_int [of 0] by simp
    with False show ?thesis by (simp add: bad_bar_def)
  qed
  then have "List.map_filter (bad_bar T) results = []" by (induction results) (simp_all add: List.map_filter_def)
  then show ?thesis by (simp add: logStageBreakdown_def)
qed

lemma prepare_onward:
  assumes "healthy W stages"
  shows "onward W s (snd (prepare_collection W cfg rid s))"
proof -
  have f: "onward W s (snd (fill_gaps W rid s))"
    using healthyD(4) [OF assms] by (simp add: fill_gaps_def Let_def)
  have d: "onward W u (decompressRunSpanForCollection W rid u)" for u
    using healthyD(5) [OF assms]
    by (auto simp: decompressRunSpanForCollection_def split: option.splits prod.splits) 
  show ?thesis
    using f onward_trans [OF f d] by (auto simp: prepare_collection_def split: prod.splits bool.splits)
qed

lemma sequential_healthy:
  assumes "healthy W (qc_stages cfg)" and "mutex_value W s = None"
  shows "\<exists>x q. executeSequentialPipeline W rid cfg rep s = Some (x, q) \<and> xr_success x"
proof -
  obtain skip ws s1 where p: "prepare_collection W cfg rid s = ((skip, ws), s1)" by (metis prod.collapse)
  let ?q0 = "\<lparr>sq_results = [], sq_success = True, sq_reporter = rep, sq_world = s1\<rparr>"
  have "onward W s s1" using prepare_onward [OF assms(1), of s cfg rid] p by simp
  then have "calm W (o_now W s) ?q0" using assms(2) by (simp add: calm_def onward_def)
  from run_stages_healthy [OF assms(1) subset_refl this, of cfg rid skip] obtain q where
    q: "run_stages W cfg rid skip (qc_stages cfg) ?q0 = Some (None, q)" "calm W (o_now W s) q" by blast
  have "logStageBreakdown (sq_results q) (o_now W (sq_world q) - o_now W s) = None"
    using q(2) by (intro breakdown_drawn) (simp add: calm_def)
  then show ?thesis
    using q p by (simp add: executeSequentialPipeline_def run_finished_def Let_def calm_def)
qed

section \<open>A world for the witnesses\<close>

text \<open>Redis in memory, a clock read off the events published so far, pipelines that succeed.\<close>

definition ok_result :: pipe_result where
  "ok_result = \<lparr>pr_success = True, pr_error = None, pr_skipped = None\<rparr>"

definition all_ok :: "string \<Rightarrow> string \<Rightarrow> mem \<Rightarrow> settled \<times> mem" where
  "all_ok st rid s = (Resolved ok_result, s)"

definition demo_world :: "(nat \<Rightarrow> int) \<Rightarrow> (string \<Rightarrow> string \<Rightarrow> mem \<Rightarrow> settled \<times> mem) \<Rightarrow> mem orchestra" where
  "demo_world clock pl =
     \<lparr>o_redis = mem_redis, o_bull = bull_ok, o_now = (\<lambda>s. clock (length (m_events s))),
      o_tables = (\<lambda>_. one_instance), o_fetch = (\<lambda>_ _ _ _. True), o_coll = (\<lambda>_. half_collected),
      o_set_coll = (\<lambda>_ s. s), o_span = (\<lambda>_ _. Some (Some 0, None)), o_decompress = (\<lambda>_ _ s. (Some (), s)),
      o_annotations = (\<lambda>_ s. (Some (Some []), s)), o_annotate = (\<lambda>_ _ s. (Some (), s)),
      o_pipeline = pl, o_late = (\<lambda>_ _ _. False), o_abandoned = (\<lambda>_ _ _ s. s),
      o_poll_env = (\<lambda>_ _ s. s), o_poll_now = (\<lambda>_ n. 5000 * int n), o_uuid = (\<lambda>st. ''nonce of '' @ st),
      o_redis_error = ''connection is closed''\<rparr>"

definition plan_of :: "error_handling \<Rightarrow> string list \<Rightarrow> seq_config" where
  "plan_of h stages =
     \<lparr>qc_stages = stages, qc_errorHandling = Some h, qc_timeoutMs = Some 600000, qc_mutex = Some ''7'',
      qc_finalizeProgress = Some False\<rparr>"

lemma demo_world_sel [simp]:
  "o_redis (demo_world c pl) = mem_redis" "o_bull (demo_world c pl) = bull_ok"
  "o_pipeline (demo_world c pl) = pl"
  "o_now (demo_world c pl) s = c (length (m_events s))"
  by (simp_all add: demo_world_def)

lemma demo_quiet [simp]: "bull_quiet (demo_world c pl)"
  by (simp add: bull_quiet_def bull_ok_def)

lemma demo_healthy:
  assumes "mono clock" and "set stages \<subseteq> set ORCHESTRATED_STAGES"
  shows "healthy (demo_world clock all_ok) stages"
proof -
  have up: "redis_up mem_redis" by (auto simp: redis_up_def mem_redis_def)
  have "clock (length es) \<le> clock (Suc (length es))" for es :: "event list"
    using assms(1) by (simp add: monoD)
  then have "clock_goes_on (demo_world clock all_ok)"
    by (simp add: clock_goes_on_def mem_redis_def)
  with assms(2) mem_redis_laws up show ?thesis
    by (auto simp: healthy_def bull_ok_def onward_def mutex_value_def demo_world_def all_ok_def ok_result_def)
qed

text \<open>A heavy pipeline that refuses to run where its stage does not hold the mutex.\<close>

definition wary :: "string \<Rightarrow> string \<Rightarrow> mem \<Rightarrow> settled \<times> mem" where
  "wary st rid s =
     (if st \<in> set HEAVY_STAGES
         \<and> map_option fst (mutex_held mem_redis s) \<noteq> Some (Some (mutex_token ''7'' (''nonce of '' @ st)))
      then (Rejected \<lparr>th_message = ''unguarded'', th_error = True, th_retryable = False\<rparr>, s)
      else all_ok st rid s)"

section \<open>Properties\<close>



text \<open>
  C34: a heavy stage only ever runs while its run holds the mutex. Exchange the pipelines of the heavy
  stages for any others that behave the same wherever the server's key holds the stage's own nonce:
  no run that is given the mutex can tell the difference.
\<close>

theorem heavy_stages_guarded:
  assumes "redis_laws (o_redis W)" and "bull_quiet W" and "qc_mutex cfg = Some holder"
    and "agree_under_mutex W holder pl"
  shows "executeSequentialPipeline (W\<lparr>o_pipeline := pl\<rparr>) rid cfg rep s
       = executeSequentialPipeline W rid cfg rep s"
  by (rule sequential_guarded [OF assms])

theorem heavy_stages_guarded_witness:
  "executeSequentialPipeline (demo_world (\<lambda>n. int n) wary) ''r1'' (plan_of Abort ORCHESTRATED_STAGES) None empty_mem
   = executeSequentialPipeline (demo_world (\<lambda>n. int n) all_ok) ''r1'' (plan_of Abort ORCHESTRATED_STAGES) None empty_mem"
proof -
  let ?W = "demo_world (\<lambda>n. int n) all_ok"
  have w: "demo_world (\<lambda>n. int n) wary = ?W\<lparr>o_pipeline := wary\<rparr>" by (simp add: demo_world_def)
  have "agree_under_mutex ?W ''7'' wary"
    by (auto simp: agree_under_mutex_def wary_def) (simp add: demo_world_def)
  from heavy_stages_guarded [OF _ demo_quiet _ this, of "plan_of Abort ORCHESTRATED_STAGES"] show ?thesis
    unfolding w by (simp add: mem_redis_laws plan_of_def)
qed

text \<open>
  C35: an undisturbed run comes to its end and succeeds. When Redis answers, the clock does not go back,
  nobody holds the mutex, the timers do not fire first and every stage other than the rollup
  succeeds, then the run returns with a success: no acquisition starves it, no stage of the plan is
  unknown to it, the log's drawing does not fail it, and whatever becomes of the rollup is no failure.
\<close>

theorem undisturbed_run_succeeds:
  assumes "healthy W (qc_stages cfg)" and "mutex_value W s = None"
  shows "\<exists>x q. executeSequentialPipeline W rid cfg rep s = Some (x, q) \<and> xr_success x"
  by (rule sequential_healthy [OF assms])

theorem undisturbed_run_succeeds_witness:
  "\<exists>x q. executeSequentialPipeline (demo_world (\<lambda>n. int n) all_ok) ''r1'' (plan_of Abort ORCHESTRATED_STAGES)
     (Some demo_reporter) empty_mem = Some (x, q) \<and> xr_success x"
proof -
  have "healthy (demo_world (\<lambda>n. int n) all_ok) (qc_stages (plan_of Abort ORCHESTRATED_STAGES))"
    by (intro demo_healthy) (auto simp: mono_def plan_of_def)
  moreover have "mutex_value (demo_world (\<lambda>n. int n) all_ok) empty_mem = None"
    by (simp add: mutex_value_def mem_redis_def empty_mem_def)
  ultimately show ?thesis by (rule undisturbed_run_succeeds)
qed


section \<open>What the model shows\<close>

text \<open>
  The clock steps back during a stage, by more than an eightieth of the run's duration: the bar of the
  logged breakdown would have a negative length, and the run whose stages all succeeded is a failure.
\<close>

definition stepping_clock :: "nat \<Rightarrow> int" where
  "stepping_clock n = (if n = 0 then 100000 else if n = 1 then 84000 else 284000)"

definition noting :: "string \<Rightarrow> string \<Rightarrow> mem \<Rightarrow> settled \<times> mem" where
  "noting st rid s = (Resolved ok_result, s\<lparr>m_events := m_events s @ [EvFailed rid st]\<rparr>)"

lemma clock_step_fails_the_run:
  "map_option (\<lambda>(x, q). (xr_success x, map (\<lambda>r. pr_success (sr_result r)) (sq_results q),
        map_option (\<lambda>(e, _). pe_message e) (xr_error x)))
     (executeSequentialPipeline (demo_world stepping_clock noting) ''r1''
        \<lparr>qc_stages = [''checks-evaluation'', ''control-groups-creation''], qc_errorHandling = Some Abort,
         qc_timeoutMs = None, qc_mutex = None, qc_finalizeProgress = Some False\<rparr> None empty_mem)
   = Some (False, [True, True], Some ''Invalid count value: -3'')"
  by code_simp

text \<open>Under \<open>strict\<close> the stage that failed is listed among the completed ones, twice.\<close>

lemma strict_lists_the_failed_stage_twice:
  "map_option (\<lambda>(x, q). map_option snd (xr_error x))
     (executeSequentialPipeline (demo_world (\<lambda>n. int n)
          (\<lambda>st rid s. (Resolved (failed_result ''no data'' ''EXECUTION_ERROR''), s))) ''r1''
        \<lparr>qc_stages = [''checks-evaluation'', ''control-groups-creation''], qc_errorHandling = Some Strict,
         qc_timeoutMs = None, qc_mutex = None, qc_finalizeProgress = Some False\<rparr> None empty_mem)
   = Some (Some [''checks-evaluation'', ''checks-evaluation''])"
  by code_simp

text \<open>
  A run that ends by an error has no data: whoever reads the stages' results from the data does not
  see the stage whose acquisition of the mutex gave up, tagged to be retried.
\<close>

definition held_mutex :: mem where
  "held_mutex = empty_mem\<lparr>m_store := [HEAVY_STAGE_LOCK_KEY \<mapsto> (RText ''8|a'', 300000)]\<rparr>"

definition slow_queue :: "mem orchestra" where
  "slow_queue = (demo_world (\<lambda>n. int n) all_ok)\<lparr>o_poll_now := (\<lambda>_ n. 4000000 * int n)\<rparr>"

lemma slow_poll:
  assumes "m_store s HEAVY_STAGE_LOCK_KEY = Some (RText ''8|a'', t)"
    and "\<And>h s. m_store (g h s) HEAVY_STAGE_LOCK_KEY = m_store s HEAVY_STAGE_LOCK_KEY"
    and "0 \<le> st" and "st < 400000"
  shows "\<exists>secs s'. mutex_poll mem_redis (\<lambda>_ s. s) (\<lambda>n. 4000000 * int n) (Some (\<lambda>h s. (Some (), g h s))) tok
     HEAVY_STAGE_MAX_WAIT_MS st 0 s = Some (MutexNotAcquired secs ''8'', s')"
proof -
  have nx: "r_set_nx mem_redis HEAVY_STAGE_LOCK_KEY v d u = (Some False, u)"
    if "m_store u HEAVY_STAGE_LOCK_KEY = Some (RText ''8|a'', t)" for u v d
    using that by (simp add: mem_redis_def)
  have h: "currentHolder mem_redis u = (Some ''8'', u)"
    if "m_store u HEAVY_STAGE_LOCK_KEY = Some (RText ''8|a'', t)" for u
    using that by (simp add: currentHolder_def io_defs mem_redis_def)
  have g: "m_store (g ''8'' s) HEAVY_STAGE_LOCK_KEY = Some (RText ''8|a'', t)" using assms(1,2) by simp
  show ?thesis
    using assms(3,4)
    by (subst mutex_poll.simps, simp add: nx h assms(1) io_defs HEAVY_STAGE_MAX_WAIT_MS_def,
        subst mutex_poll.simps, simp add: nx h g io_defs)
qed

lemma mem_publish_mutex:
  "m_store (snd (publishProgress mem_redis bull_ok now p s)) HEAVY_STAGE_LOCK_KEY = m_store s HEAVY_STAGE_LOCK_KEY"
  using redis.publishProgress_other [OF redis.intro [OF mem_redis_laws], of bull_ok HEAVY_STAGE_LOCK_KEY p now s]
  by (simp add: bull_ok_def mem_redis_def)

lemma slow_sel:
  "o_redis slow_queue = mem_redis" "o_bull slow_queue = bull_ok" "o_poll_env slow_queue = (\<lambda>_ _ s. s)"
  "o_poll_now slow_queue = (\<lambda>_ n. 4000000 * int n)" "o_uuid slow_queue = (\<lambda>st. ''nonce of '' @ st)"
  by (simp_all add: slow_queue_def demo_world_def)

lemma slow_now: "o_now slow_queue s = int (length (m_events s))"
  by (simp add: slow_queue_def)

definition giveup_error :: "int \<Rightarrow> thrown" where
  "giveup_error secs = \<lparr>th_message = ''Heavy-stage lock not acquired after '' @ show_int secs @ ''s (held by 8)'',
     th_error = True, th_retryable = True\<rparr>"

lemma slow_acquisition:
  assumes "m_store (sq_world q) HEAVY_STAGE_LOCK_KEY = Some (RText ''8|a'', t)"
    and "length (m_events (sq_world q)) < 400000"
  shows "\<exists>secs q'. acquire_heavy slow_queue holder st q = Some (Some (giveup_error secs), q')"
proof -
  define g where "g = (\<lambda>(h :: string) s. case sq_reporter q of None \<Rightarrow> s
    | Some p \<Rightarrow> snd (setWaiting mem_redis bull_ok (o_now slow_queue s) (Some (waiting_message st)) p s))"
  have "m_store (g h s) HEAVY_STAGE_LOCK_KEY = m_store s HEAVY_STAGE_LOCK_KEY" for h s
    by (simp add: g_def setWaiting_def mem_publish_mutex split: option.split)
  from slow_poll [where g = g and st = "int (length (m_events (sq_world q)))"
      and tok = "mutex_token holder (''nonce of '' @ st)",
      OF assms(1) this] assms(2)
  obtain secs s' where "mutex_poll mem_redis (\<lambda>_ s. s) (\<lambda>n. 4000000 * int n)
      (Some (\<lambda>h s. (Some (), g h s))) (mutex_token holder (''nonce of '' @ st)) HEAVY_STAGE_MAX_WAIT_MS
      (int (length (m_events (sq_world q)))) 0 (sq_world q) = Some (MutexNotAcquired secs ''8'', s')"
    by auto
  then have m: "mutex_acquire (o_redis slow_queue) (o_poll_env slow_queue st) (o_poll_now slow_queue st)
      (Some (\<lambda>h s. (Some (), g h s))) holder (o_uuid slow_queue st) None (o_now slow_queue (sq_world q)) (sq_world q)
    = Some (MutexNotAcquired secs ''8'', s')"
    unfolding mutex_acquire_def slow_sel by (simp add: slow_now)
  have f: "(\<lambda>h s. (Some (), case sq_reporter q of None \<Rightarrow> s
      | Some p \<Rightarrow> snd (setWaiting (o_redis slow_queue) (o_bull slow_queue) (o_now slow_queue s)
                    (Some (waiting_message st)) p s))) = (\<lambda>h s. (Some (), g h s))"
    unfolding g_def slow_sel ..
  show ?thesis unfolding acquire_heavy_def Let_def f m by (auto simp: giveup_error_def)
qed

lemma giveup_hides_its_stage:
  "map_option (\<lambda>(x, q). (xr_success x, xr_data x, map_option (pe_code \<circ> fst) (xr_error x),
        map (\<lambda>r. map_option pe_code (pr_error (sr_result r))) (sq_results q)))
     (executeSequentialPipeline slow_queue ''r1'' (plan_of Abort [''adapt-analysis'']) None held_mutex)
   = Some (False, None, Some ''SEQUENTIAL_PIPELINE_ERROR'', [Some ''RETRYABLE''])"
proof -
  let ?q = "\<lparr>sq_results = [], sq_success = True, sq_reporter = None, sq_world = held_mutex\<rparr> :: mem seq"
  have p: "prepare_collection slow_queue (plan_of Abort [''adapt-analysis'']) ''r1'' held_mutex = ((False, []), held_mutex)"
    by (simp add: prepare_collection_def plan_of_def metricCollectionStages_def)
  have "m_store (sq_world ?q) HEAVY_STAGE_LOCK_KEY = Some (RText ''8|a'', 300000)" "length (m_events (sq_world ?q)) < 400000"
    by (simp_all add: held_mutex_def empty_mem_def)
  from slow_acquisition [OF this] obtain secs q' where
    a: "acquire_heavy slow_queue ''7'' ''adapt-analysis'' ?q = Some (Some (giveup_error secs), q')" by blast
  have "sq_results q' = []" using acquire_heavy_fields(1) [OF a] by simp
  with a show ?thesis
    by (simp add: executeSequentialPipeline_def p [unfolded plan_of_def] plan_of_def run_stage_def tell_def
        HEAVY_STAGES_def caught_def push_def error_handling_of_def error_of_def failed_result_def
        giveup_error_def run_failed_def finalizes_def Let_def)
qed

text \<open>In a world whose pipelines all return a plain success, every successful result is that one.\<close>

definition plain :: "'s orchestra \<Rightarrow> bool" where
  "plain W \<longleftrightarrow> (\<forall>st rid s. fst (o_pipeline W st rid s) = Resolved ok_result)"

lemma executeStage_plain:
  assumes "plain W" and "pr_success (fst (executeStage W st rid t s))"
  shows "fst (executeStage W st rid t s) = ok_result"
proof -
  have d: "dispatch W st rid s = (Resolved ok_result, snd (o_pipeline W st rid s))"
    using assms(1) [unfolded plain_def, THEN spec, THEN spec, THEN spec, of st rid s]
    by (cases "o_pipeline W st rid s") (auto simp: dispatch_def ok_result_def)
  show ?thesis
    using assms(2) by (auto simp: executeStage_def race_def d failed_result_def stage_failure_def
        split: option.splits if_splits)
qed

lemma run_stage_plain:
  assumes "plain W" and "run_stage W cfg rid st q = Some (fl, q')"
    and "\<forall>r \<in> set (sq_results q). pr_success (sr_result r) \<longrightarrow> sr_result r = ok_result"
  shows "\<forall>r \<in> set (sq_results q'). pr_success (sr_result r) \<longrightarrow> sr_result r = ok_result"
  using assms(2,3) executeStage_plain [OF assms(1)]
  by (auto simp: run_stage_def judge_def caught_def Let_def acquire_heavy_fields
      split: option.splits prod.splits bool.splits if_splits error_handling.splits; metis fst_conv)

lemma run_stages_plain:
  assumes "plain W" and "run_stages W cfg rid skip stages q = Some (e, q')"
    and "\<forall>r \<in> set (sq_results q). pr_success (sr_result r) \<longrightarrow> sr_result r = ok_result"
  shows "\<forall>r \<in> set (sq_results q'). pr_success (sr_result r) \<longrightarrow> sr_result r = ok_result"
  using assms(2,3)
proof (induction stages arbitrary: q)
  case (Cons st stages)
  show ?case
  proof (cases "skip \<and> st \<in> set skippableCollectionStages")
    case True
    with Cons show ?thesis by simp
  next
    case False
    with Cons.prems obtain fl q1 where r: "run_stage W cfg rid st q = Some (fl, q1)"
      by (auto split: option.splits)
    note p = run_stage_plain [OF assms(1) r Cons.prems(2)]
    show ?thesis
      using Cons.prems(1) Cons.IH [OF _ p] p False r by (cases fl) (simp_all only: run_stages.simps if_False, simp_all)
  qed
qed simp

end
