(* ===== verification/DataSanity.thy ===== *)
theory DataSanity
  imports ChecksPipeline CollectionFill "HOL-Library.Sublist"
begin

text \<open>
  The sanity check of a run's data (\<open>pipelines/DataSanityCheckPipeline.ts\<close>), the last thing an analysis
  does: it writes the run's validity with the reasons against it.

  The tables hold the columns the check reads. Each statement may fail (\<open>down\<close>); the sweep of orphaned
  sources and the summary of the collection are those of \<open>CollectionSources\<close> and \<open>CollectionGaps\<close>.
  The two thresholds are the numbers of the environment. \<open>GROUP BY\<close> does not promise an order: the
  groups come here in the order of their first row, which only decides the examples of a warning.
\<close>

section \<open>Tables\<close>

datatype reason =
    NoTimes
  | NoPanels nat
  | NoMetrics
  | NoSteadyState int int
  | NoStatistics
  | MostlyMissing int nat nat
  | LowCoverage jsnum int
  | FailedRanges int nat
  | EmptyAdapt

type_synonym series = "string \<times> string \<times> string"

datatype warning =
    Sparse nat int "(series \<times> int) list"
  | EmptyWindow int int rat

record sanity_run = checks_run +
  sy_analysisStartOffset :: "int option"
  sy_analysisEndOffset :: "int option"
  sy_adaptConfig :: bool
  sy_evaluatingAdapt :: "string option"
  sy_reasonsNotValid :: "reason list option"
  sy_dataWarnings :: "warning list option"

record statistic_row =
  si_test_run_id :: string
  si_metric_name :: string
  si_dashboard_label :: string
  si_panel_title :: string
  si_count :: int
  si_all_missing :: "bool option"

record exclusion_row =
  xc_system_under_test_id :: string
  xc_test_environment :: string
  xc_workload :: string
  xc_dashboard_label :: string
  xc_metric_name :: string

record dashboard_use =
  du_system_under_test_id :: string
  du_test_environment :: string
  du_dashboard_uid :: string

record sanity_db =
  sd_runs :: "sanity_run list"
  sd_statuses :: "collection_status list"
  sd_sources :: source_tables
  sd_panels :: "string list"
  sd_dashboards :: "dashboard_use list"
  sd_grafana :: "(string \<times> nat option) list"
  sd_metrics :: "(string \<times> bool option) list"
  sd_statistics :: "statistic_row list"
  sd_exclusions :: "exclusion_row list"
  sd_adapt_results :: "string list"
  sd_baselines :: "string list"
  sd_change_points :: "(string \<times> string \<times> string \<times> string) list"

datatype sanity_query =
  QRun | QPanels | QMetrics | QSparse | QExclusions | QStatistics | QSteady | QSweep | QSummary | QFailed
  | QAdapt | QUpdate

datatype sanity_data = Judged bool "reason list" "warning list" | Unjudged

section \<open>Checks\<close>

definition check_times :: "sanity_run \<Rightarrow> reason list" where
  "check_times run =
     (case (tr_start_time run, tr_end_time run) of
        (Some a, Some b) \<Rightarrow> if b \<le> a then [NoTimes] else []
      | _ \<Rightarrow> [NoTimes])"

text \<open>An array of panels that is missing counts as empty.\<close>

definition dashboards_with_panels :: "sanity_run \<Rightarrow> sanity_db \<Rightarrow> nat" where
  "dashboards_with_panels run db =
     length (filter (\<lambda>(ad, gd). fst gd = du_dashboard_uid ad
          \<and> du_system_under_test_id ad = tr_system_under_test_id run
          \<and> du_test_environment ad = tr_test_environment run
          \<and> 0 < (case snd gd of None \<Rightarrow> 0 | Some n \<Rightarrow> n))
        (List.product (sd_dashboards db) (sd_grafana db)))"

definition check_panels :: "sanity_run \<Rightarrow> sanity_db \<Rightarrow> reason list" where
  "check_panels run db =
     (if 0 < dashboards_with_panels run db \<and> tr_test_run_id run \<notin> set (sd_panels db)
      then [NoPanels (dashboards_with_panels run db)] else [])"

definition has_metrics :: "sanity_run \<Rightarrow> sanity_db \<Rightarrow> bool" where
  "has_metrics run db = list_ex (\<lambda>m. fst m = tr_test_run_id run) (sd_metrics db)"

definition duration_sec :: "sanity_run \<Rightarrow> rat option" where
  "duration_sec run =
     (case (tr_start_time run, tr_end_time run) of
        (Some a, Some b) \<Rightarrow> Some (of_int (b - a) / 1000)
      | _ \<Rightarrow> None)"

definition run_statistics :: "sanity_run \<Rightarrow> sanity_db \<Rightarrow> statistic_row list" where
  "run_statistics run db = filter (\<lambda>r. si_test_run_id r = tr_test_run_id run) (sd_statistics db)"

definition series_of :: "statistic_row \<Rightarrow> series" where
  "series_of r = (si_metric_name r, si_dashboard_label r, si_panel_title r)"

definition sparse_rows :: "int \<Rightarrow> sanity_run \<Rightarrow> sanity_db \<Rightarrow> (series \<times> int) list" where
  "sparse_rows minDataPoints run db =
     (let rows = run_statistics run db
      in filter (\<lambda>g. snd g < minDataPoints)
           (map (\<lambda>k. (k, sum_list (map si_count (filter (\<lambda>r. series_of r = k) rows))))
              (remdups (map series_of rows))))"

definition thread_metrics :: "string list" where
  "thread_metrics = [''avg_active_threads'', ''max_active_threads'', ''total'', ''error_count'']"

definition SCENARIO_LEVEL_PANEL_TITLES :: "string list" where
  "SCENARIO_LEVEL_PANEL_TITLES = [''Error Count'', ''Avg Active Threads'', ''Max Active Threads'']"

fun expected_sparse :: "series \<Rightarrow> bool" where
  "expected_sparse (metric, label, title) =
     (metric \<in> set thread_metrics
      \<or> prefix ''Performance test metrics'' label
        \<and> (prefix ''Request '' title \<or> prefix ''Transaction '' title \<or> title \<in> set SCENARIO_LEVEL_PANEL_TITLES))"

definition exclusion_key :: "string \<Rightarrow> string \<Rightarrow> string" where
  "exclusion_key label metric = js_trim label @ ''::'' @ js_trim metric"

definition excluded_keys :: "sanity_run \<Rightarrow> sanity_db \<Rightarrow> string list" where
  "excluded_keys run db =
     map (\<lambda>e. exclusion_key (xc_dashboard_label e) (xc_metric_name e))
       (filter (\<lambda>e. xc_system_under_test_id e = tr_system_under_test_id run
            \<and> xc_test_environment e = tr_test_environment run \<and> xc_workload e = tr_workload run)
          (sd_exclusions db))"

fun excluded :: "string list \<Rightarrow> series \<Rightarrow> bool" where
  "excluded keys (metric, label, title) = (exclusion_key label metric \<in> set keys)"

text \<open>A statement that fails throws: no value.\<close>

definition check_sparse ::
  "(sanity_query \<Rightarrow> bool) \<Rightarrow> int \<Rightarrow> sanity_run \<Rightarrow> sanity_db \<Rightarrow> warning list option" where
  "check_sparse down minDataPoints run db =
     (case duration_sec run of
        None \<Rightarrow> Some []
      | Some d \<Rightarrow>
          if \<not> has_metrics run db \<or> d \<le> 60 then Some []
          else if down QSparse then None
          else
            (let sparse = filter (\<lambda>g. \<not> expected_sparse (fst g)) (sparse_rows minDataPoints run db)
             in if sparse = [] then Some []
                else if down QExclusions then None
                else
                  (let left = filter (\<lambda>g. \<not> excluded (excluded_keys run db) (fst g)) sparse
                   in Some (if left = [] then []
                            else [Sparse (length left) minDataPoints (take 3 left)]))))"

definition or_zero :: "int option \<Rightarrow> int" where
  "or_zero x = (case x of None \<Rightarrow> 0 | Some n \<Rightarrow> n)"

definition check_window :: "sanity_run \<Rightarrow> warning list" where
  "check_window run =
     (case duration_sec run of
        None \<Rightarrow> []
      | Some d \<Rightarrow>
          (let a = or_zero (sy_analysisStartOffset run); b = or_zero (sy_analysisEndOffset run)
           in if d \<le> of_int (a + b) then [EmptyWindow a b d] else []))"

definition check_statistics ::
  "(sanity_query \<Rightarrow> bool) \<Rightarrow> sanity_run \<Rightarrow> sanity_db \<Rightarrow> reason list option" where
  "check_statistics down run db =
     (if \<not> has_metrics run db then Some []
      else if down QStatistics then None
      else
        (let total = length (run_statistics run db);
             missing = length (filter (\<lambda>r. si_all_missing r = Some True) (run_statistics run db))
         in if total = 0 then
              (if down QSteady then None
               else Some
                 (if list_ex (\<lambda>m. fst m = tr_test_run_id run \<and> snd m \<noteq> Some True) (sd_metrics db)
                  then [NoStatistics]
                  else [NoSteadyState (or_zero (sy_analysisStartOffset run))
                          (case duration_sec run of None \<Rightarrow> 0 | Some d \<Rightarrow> js_round d)]))
            else Some
              (if total < 2 * missing
               then [MostlyMissing (js_round (of_nat missing / of_nat total * 100)) missing total] else [])))"

definition coll_of :: "sanity_db \<Rightarrow> coll_db" where
  "coll_of db = \<lparr>cb_statuses = sd_statuses db, cb_runs = map test_run.truncate (sd_runs db)\<rparr>"

definition removeOrphaned :: "sanity_run \<Rightarrow> sanity_db \<Rightarrow> sanity_db" where
  "removeOrphaned run db =
     (let statuses = getAllCollectionStatuses (coll_of db) (tr_test_run_id run)
      in if statuses = [] then db
         else db\<lparr>sd_statuses := cb_statuses (snd (removeOrphanedCollectionSources (sd_sources db) (coll_of db)
                    (tr_test_run_id run) statuses))\<rparr>)"

definition failing_sources :: "sanity_run \<Rightarrow> sanity_db \<Rightarrow> nat" where
  "failing_sources run db =
     length (remdups (map (\<lambda>s. cs_source_type s @ cs_source_id s)
       (filter (\<lambda>s. cs_test_run_id s = tr_test_run_id run \<and> cs_failed_ranges s \<noteq> []) (sd_statuses db))))"

text \<open>An error of this part is logged; the reasons found before it stay.\<close>

definition check_coverage ::
  "(sanity_query \<Rightarrow> bool) \<Rightarrow> int \<Rightarrow> sanity_run \<Rightarrow> sanity_db \<Rightarrow> reason list \<times> sanity_db" where
  "check_coverage down minCoverage run db =
     (if down QSweep then ([], db)
      else
        (let db1 = removeOrphaned run db
         in if down QSummary then ([], db1)
            else
              (case getCollectionSummary (coll_of db1) (tr_test_run_id run) of
                 Inl _ \<Rightarrow> ([], db1)
               | Inr sm \<Rightarrow>
                   ((if 0 < sm_totalSources sm \<and> js_lt (sm_coverage sm) (JFin (of_int minCoverage))
                     then [LowCoverage (sm_coverage sm) minCoverage] else [])
                    @ (if 0 < sm_failedRanges sm \<and> \<not> down QFailed
                       then [FailedRanges (sm_failedRanges sm) (failing_sources run db1)] else []),
                    db1))))"

definition check_adapt :: "(sanity_query \<Rightarrow> bool) \<Rightarrow> sanity_run \<Rightarrow> sanity_db \<Rightarrow> reason list option" where
  "check_adapt down run db =
     (if \<not> (sy_adaptConfig run \<and> sy_evaluatingAdapt run = Some ''COMPLETED'') then Some []
      else if down QAdapt then None
      else Some
        (if tr_test_run_id run \<notin> set (sd_adapt_results db) \<and> tr_test_run_id run \<in> set (sd_baselines db)
            \<and> (tr_test_run_id run, tr_system_under_test_id run, tr_test_environment run, tr_workload run)
                \<notin> set (sd_change_points db)
         then [EmptyAdapt] else []))"

section \<open>The pipeline\<close>

definition write_verdict :: "string \<Rightarrow> reason list \<Rightarrow> warning list \<Rightarrow> sanity_db \<Rightarrow> sanity_db" where
  "write_verdict rid reasons warnings db =
     db\<lparr>sd_runs := map (\<lambda>r. if tr_test_run_id r = rid
          then r\<lparr>vw_valid := Some (reasons = []),
                 sy_reasonsNotValid := (if reasons = [] then None else Some reasons),
                 sy_dataWarnings := (if warnings = [] then None else Some warnings)\<rparr>
          else r) (sd_runs db)\<rparr>"

definition sanity_execute ::
  "(sanity_query \<Rightarrow> bool) \<Rightarrow> int \<Rightarrow> int \<Rightarrow> string \<Rightarrow> sanity_db \<Rightarrow> sanity_data \<times> sanity_db" where
  "sanity_execute down minDataPoints minCoverage rid db =
     (case (if down QRun then None else find (\<lambda>r. tr_test_run_id r = rid) (sd_runs db)) of
        None \<Rightarrow> (Unjudged, db)
      | Some run \<Rightarrow>
          if down QPanels \<or> down QMetrics then (Unjudged, db)
          else
            (case (check_sparse down minDataPoints run db, check_statistics down run db) of
               (Some sparse, Some statistics) \<Rightarrow>
                 (case check_coverage down minCoverage run db of
                    (coverage, db1) \<Rightarrow>
                      (case check_adapt down run db1 of
                         None \<Rightarrow> (Unjudged, db1)
                       | Some adapt \<Rightarrow>
                           (let reasons = check_times run @ check_panels run db
                                  @ (if has_metrics run db then [] else [NoMetrics])
                                  @ statistics @ coverage @ adapt;
                                warnings = sparse @ check_window run
                            in if down QUpdate then (Unjudged, db1)
                               else (Judged (reasons = []) reasons warnings,
                                     write_verdict rid reasons warnings db1))))
             | _ \<Rightarrow> (Unjudged, db)))"


section \<open>Lemmas\<close>

text \<open>The columns that the check and the evaluation of the objectives write, taken away.\<close>

definition forget :: "sanity_run \<Rightarrow> sanity_run" where
  "forget r = r\<lparr>vw_evaluatingChecks := None, vw_valid := None, vw_consolidated := None,
     sy_reasonsNotValid := None, sy_dataWarnings := None\<rparr>"

definition forget_all :: "sanity_db \<Rightarrow> sanity_db" where
  "forget_all db = db\<lparr>sd_runs := map forget (sd_runs db)\<rparr>"

lemma forget_fields [simp]:
  "tr_test_run_id (forget r) = tr_test_run_id r"
  "tr_system_under_test_id (forget r) = tr_system_under_test_id r"
  "tr_test_environment (forget r) = tr_test_environment r" "tr_workload (forget r) = tr_workload r"
  "tr_start_time (forget r) = tr_start_time r" "tr_end_time (forget r) = tr_end_time r"
  "sy_analysisStartOffset (forget r) = sy_analysisStartOffset r"
  "sy_analysisEndOffset (forget r) = sy_analysisEndOffset r"
  "sy_adaptConfig (forget r) = sy_adaptConfig r" "sy_evaluatingAdapt (forget r) = sy_evaluatingAdapt r"
  "test_run.truncate (forget r) = test_run.truncate r"
  by (simp_all add: forget_def test_run.truncate_def)

lemma forget_all_fields [simp]:
  "sd_runs (forget_all db) = map forget (sd_runs db)" "sd_statuses (forget_all db) = sd_statuses db"
  "sd_sources (forget_all db) = sd_sources db" "sd_panels (forget_all db) = sd_panels db"
  "sd_dashboards (forget_all db) = sd_dashboards db" "sd_grafana (forget_all db) = sd_grafana db"
  "sd_metrics (forget_all db) = sd_metrics db" "sd_statistics (forget_all db) = sd_statistics db"
  "sd_exclusions (forget_all db) = sd_exclusions db" "sd_adapt_results (forget_all db) = sd_adapt_results db"
  "sd_baselines (forget_all db) = sd_baselines db" "sd_change_points (forget_all db) = sd_change_points db"
  by (simp_all add: forget_all_def)

lemma forget_statuses: "forget_all (db\<lparr>sd_statuses := x\<rparr>) = (forget_all db)\<lparr>sd_statuses := x\<rparr>"
  by (simp add: forget_all_def)

lemma find_map: "find P (map f xs) = map_option f (find (P \<circ> f) xs)"
  by (induction xs) auto

lemma coll_of_forget [simp]: "coll_of (forget_all db) = coll_of db"
  by (simp add: coll_of_def)

lemma checks_forget:
  "check_times (forget run) = check_times run" "check_panels (forget run) (forget_all db) = check_panels run db"
  "has_metrics (forget run) (forget_all db) = has_metrics run db" "check_window (forget run) = check_window run"
  "duration_sec (forget run) = duration_sec run"
  "check_sparse down n (forget run) (forget_all db) = check_sparse down n run db"
  "check_statistics down (forget run) (forget_all db) = check_statistics down run db"
  "check_adapt down (forget run) (forget_all db) = check_adapt down run db"
proof -
  have d [simp]: "duration_sec (forget run) = duration_sec run" by (simp add: duration_sec_def)
  have m [simp]: "has_metrics (forget run) (forget_all db) = has_metrics run db" by (simp add: has_metrics_def)
  have r [simp]: "run_statistics (forget run) (forget_all db) = run_statistics run db"
    by (simp add: run_statistics_def)
  have p: "dashboards_with_panels (forget run) (forget_all db) = dashboards_with_panels run db"
    by (simp add: dashboards_with_panels_def)
  show "check_times (forget run) = check_times run" by (simp add: check_times_def)
  show "check_panels (forget run) (forget_all db) = check_panels run db" by (simp add: check_panels_def p)
  show "check_window (forget run) = check_window run" 
    by (cases "duration_sec run") (simp_all add: check_window_def)
  have "sparse_rows n (forget run) (forget_all db) = sparse_rows n run db" by (simp add: sparse_rows_def)
  moreover have "excluded_keys (forget run) (forget_all db) = excluded_keys run db" by (simp add: excluded_keys_def)
  ultimately show "check_sparse down n (forget run) (forget_all db) = check_sparse down n run db"
    by (cases "duration_sec run") (simp_all add: check_sparse_def Let_def)
  show "check_statistics down (forget run) (forget_all db) = check_statistics down run db"
    by (simp add: check_statistics_def Let_def)
  show "check_adapt down (forget run) (forget_all db) = check_adapt down run db" by (simp add: check_adapt_def)
qed (simp_all add: duration_sec_def has_metrics_def)

lemma removeOrphaned_forget:
  "removeOrphaned (forget run) (forget_all db) = forget_all (removeOrphaned run db)"
  by (simp add: removeOrphaned_def Let_def forget_statuses)

lemma check_coverage_forget:
  "check_coverage down n (forget run) (forget_all db) =
     (fst (check_coverage down n run db), forget_all (snd (check_coverage down n run db)))"
proof -
  have "failing_sources (forget run) (forget_all (removeOrphaned run db)) = failing_sources run (removeOrphaned run db)"
    by (simp add: failing_sources_def)
  then show ?thesis
    by (simp add: check_coverage_def Let_def removeOrphaned_forget split: sum.split)
qed

lemma check_coverage_db:
  obtains x where "snd (check_coverage down n run db) = db\<lparr>sd_statuses := x\<rparr>"
proof -
  have same: "db = db\<lparr>sd_statuses := sd_statuses db\<rparr>" by simp
  have "\<exists>x. removeOrphaned run db = db\<lparr>sd_statuses := x\<rparr>"
  proof (cases "getAllCollectionStatuses (coll_of db) (tr_test_run_id run) = []")
    case True
    then have "removeOrphaned run db = db" by (simp add: removeOrphaned_def)
    with same show ?thesis by metis
  next
    case False
    then show ?thesis by (auto simp: removeOrphaned_def Let_def)
  qed
  then obtain x where x: "removeOrphaned run db = db\<lparr>sd_statuses := x\<rparr>" by blast
  have "snd (check_coverage down n run db) \<in> {db, removeOrphaned run db}"
    by (simp add: check_coverage_def Let_def split: sum.split)
  with same x that show thesis by (metis insertE singletonD)
qed

lemma execute_found:
  assumes "find (\<lambda>r. tr_test_run_id r = rid) (sd_runs db) = Some run" and "\<not> down QRun"
  shows "sanity_execute down minDataPoints minCoverage rid db =
     (if down QPanels \<or> down QMetrics then (Unjudged, db)
      else case (check_sparse down minDataPoints run db, check_statistics down run db) of
        (Some sparse, Some statistics) \<Rightarrow>
          (case check_coverage down minCoverage run db of (coverage, db1) \<Rightarrow>
             (case check_adapt down run db1 of
                None \<Rightarrow> (Unjudged, db1)
              | Some adapt \<Rightarrow>
                  (let reasons = check_times run @ check_panels run db
                         @ (if has_metrics run db then [] else [NoMetrics]) @ statistics @ coverage @ adapt;
                       warnings = sparse @ check_window run
                   in if down QUpdate then (Unjudged, db1)
                      else (Judged (reasons = []) reasons warnings, write_verdict rid reasons warnings db1))))
      | _ \<Rightarrow> (Unjudged, db))"
  using assms by (simp add: sanity_execute_def)

lemma data_forget:
  "fst (sanity_execute down minDataPoints minCoverage rid (forget_all db))
     = fst (sanity_execute down minDataPoints minCoverage rid db)"
proof (cases "down QRun \<or> find (\<lambda>r. tr_test_run_id r = rid) (sd_runs db) = None")
  case True
  then show ?thesis by (auto simp: sanity_execute_def find_map comp_def)
next
  case False
  then obtain run where f: "find (\<lambda>r. tr_test_run_id r = rid) (sd_runs db) = Some run" and q: "\<not> down QRun"
    by auto
  have f': "find (\<lambda>r. tr_test_run_id r = rid) (sd_runs (forget_all db)) = Some (forget run)"
    using f by (simp add: find_map comp_def)
  obtain cov db1 where c: "check_coverage down minCoverage run db = (cov, db1)" by fastforce
  then have c': "check_coverage down minCoverage (forget run) (forget_all db) = (cov, forget_all db1)"
    by (simp add: check_coverage_forget)
  show ?thesis
    unfolding execute_found [of rid db run down, OF f q] execute_found [of rid "forget_all db" "forget run" down, OF f' q] checks_forget c c'
    by (simp add: checks_forget Let_def split: option.split)
qed


section \<open>When a run's data is sound\<close>

definition sane :: "int \<Rightarrow> sanity_run \<Rightarrow> sanity_db \<Rightarrow> collection_summary \<Rightarrow> bool" where
  "sane minCoverage run db sm \<longleftrightarrow>
     (\<exists>a b. tr_start_time run = Some a \<and> tr_end_time run = Some b \<and> a < b)
     \<and> (tr_test_run_id run \<in> set (sd_panels db) \<or> dashboards_with_panels run db = 0)
     \<and> (\<exists>m \<in> set (sd_metrics db). fst m = tr_test_run_id run)
     \<and> run_statistics run db \<noteq> []
     \<and> 2 * length (filter (\<lambda>r. si_all_missing r = Some True) (run_statistics run db))
         \<le> length (run_statistics run db)
     \<and> (sm_totalSources sm = 0 \<or> \<not> js_lt (sm_coverage sm) (JFin (of_int minCoverage)))
     \<and> (\<forall>s \<in> set (sd_statuses (removeOrphaned run db)).
          cs_test_run_id s = tr_test_run_id run \<longrightarrow> cs_failed_ranges s = [])
     \<and> \<not> (sy_adaptConfig run \<and> sy_evaluatingAdapt run = Some ''COMPLETED''
          \<and> tr_test_run_id run \<notin> set (sd_adapt_results db) \<and> tr_test_run_id run \<in> set (sd_baselines db)
          \<and> (tr_test_run_id run, tr_system_under_test_id run, tr_test_environment run, tr_workload run)
              \<notin> set (sd_change_points db))"

lemma check_times_none: "check_times run = [] \<longleftrightarrow>
    (\<exists>a b. tr_start_time run = Some a \<and> tr_end_time run = Some b \<and> a < b)"
  by (auto simp: check_times_def split: option.splits)

lemma check_panels_none: "check_panels run db = [] \<longleftrightarrow>
    tr_test_run_id run \<in> set (sd_panels db) \<or> dashboards_with_panels run db = 0"
  by (auto simp: check_panels_def)

lemma has_metrics_iff: "has_metrics run db \<longleftrightarrow> (\<exists>m \<in> set (sd_metrics db). fst m = tr_test_run_id run)"
  by (auto simp: has_metrics_def list_ex_iff)

lemma check_statistics_up:
  obtains rs where "check_statistics (\<lambda>_. False) run db = Some rs"
    "has_metrics run db \<Longrightarrow> rs = [] \<longleftrightarrow> run_statistics run db \<noteq> []
       \<and> 2 * length (filter (\<lambda>r. si_all_missing r = Some True) (run_statistics run db))
           \<le> length (run_statistics run db)"
proof -
  have "\<exists>rs. check_statistics (\<lambda>_. False) run db = Some rs \<and>
    (has_metrics run db \<longrightarrow> (rs = [] \<longleftrightarrow> run_statistics run db \<noteq> []
       \<and> 2 * length (filter (\<lambda>r. si_all_missing r = Some True) (run_statistics run db))
           \<le> length (run_statistics run db)))"
    by (auto simp: check_statistics_def Let_def)
  then show thesis using that by blast
qed

lemma check_sparse_up: "\<exists>ws. check_sparse (\<lambda>_. False) n run db = Some ws"
  by (cases "duration_sec run") (auto simp: check_sparse_def Let_def)

lemma check_adapt_up:
  obtains rs where "check_adapt (\<lambda>_. False) run db = Some rs"
    "rs = [] \<longleftrightarrow> \<not> (sy_adaptConfig run \<and> sy_evaluatingAdapt run = Some ''COMPLETED''
          \<and> tr_test_run_id run \<notin> set (sd_adapt_results db) \<and> tr_test_run_id run \<in> set (sd_baselines db)
          \<and> (tr_test_run_id run, tr_system_under_test_id run, tr_test_environment run, tr_workload run)
              \<notin> set (sd_change_points db))"
  by (cases "sy_adaptConfig run \<and> sy_evaluatingAdapt run = Some ''COMPLETED''")
    (auto simp: check_adapt_def)

lemma summary_counts:
  assumes "getCollectionSummary db rid = Inr sm"
  shows "sm_totalSources sm \<ge> 0" and "sm_failedRanges sm \<ge> 0"
    and "sm_failedRanges sm = 0 \<longleftrightarrow> (\<forall>s \<in> set (cb_statuses db). cs_test_run_id s = rid \<longrightarrow> cs_failed_ranges s = [])"
proof -
  have sm: "sm_totalSources sm = int (length (getAllCollectionStatuses db rid))"
      "sm_failedRanges sm = sum_list (map (\<lambda>s. int (length (cs_failed_ranges s))) (getAllCollectionStatuses db rid))"
    using assms by (auto simp: getCollectionSummary_def Let_def split: sum.splits)
  show "sm_totalSources sm \<ge> 0" by (simp add: sm)
  show "sm_failedRanges sm \<ge> 0" unfolding sm by (rule sum_list_nonneg) auto
  have "sum_list (map (\<lambda>s. int (length (cs_failed_ranges s))) xs) = 0 \<longleftrightarrow> (\<forall>s \<in> set xs. cs_failed_ranges s = [])"
    for xs :: "collection_status list"
    by (subst sum_list_nonneg_eq_0_iff) auto
  then show "sm_failedRanges sm = 0 \<longleftrightarrow>
      (\<forall>s \<in> set (cb_statuses db). cs_test_run_id s = rid \<longrightarrow> cs_failed_ranges s = [])"
    unfolding sm by (auto simp: getAllCollectionStatuses_def)
qed

lemma check_coverage_up:
  assumes "getCollectionSummary (coll_of (removeOrphaned run db)) (tr_test_run_id run) = Inr sm"
  obtains rs where "check_coverage (\<lambda>_. False) n run db = (rs, removeOrphaned run db)"
    "rs = [] \<longleftrightarrow> (sm_totalSources sm = 0 \<or> \<not> js_lt (sm_coverage sm) (JFin (of_int n)))
       \<and> (\<forall>s \<in> set (sd_statuses (removeOrphaned run db)).
            cs_test_run_id s = tr_test_run_id run \<longrightarrow> cs_failed_ranges s = [])"
proof -
  note c = summary_counts [OF assms]
  have s: "cb_statuses (coll_of (removeOrphaned run db)) = sd_statuses (removeOrphaned run db)"
    by (simp add: coll_of_def)
  have t: "0 < sm_totalSources sm \<longleftrightarrow> sm_totalSources sm \<noteq> 0" using c(1) by auto
  have f: "0 < sm_failedRanges sm \<longleftrightarrow> \<not> (\<forall>s \<in> set (sd_statuses (removeOrphaned run db)).
            cs_test_run_id s = tr_test_run_id run \<longrightarrow> cs_failed_ranges s = [])"
    using c(2,3) unfolding s by linarith
  have "check_coverage (\<lambda>_. False) n run db =
      ((if 0 < sm_totalSources sm \<and> js_lt (sm_coverage sm) (JFin (of_int n))
        then [LowCoverage (sm_coverage sm) n] else [])
       @ (if 0 < sm_failedRanges sm
          then [FailedRanges (sm_failedRanges sm) (failing_sources run (removeOrphaned run db))] else []),
       removeOrphaned run db)"
    by (simp add: check_coverage_def Let_def assms)
  from that [OF this] show thesis unfolding t f by simp
qed

lemma find_written:
  assumes "find (\<lambda>r. tr_test_run_id r = rid) rows = Some run" and "\<And>r. tr_test_run_id (f r) = tr_test_run_id r"
  shows "find (\<lambda>r. tr_test_run_id r = rid) (map (\<lambda>r. if tr_test_run_id r = rid then f r else r) rows) = Some (f run)"
  using assms(1) by (induction rows) (auto simp: assms(2) split: if_splits)

lemma removeOrphaned_fields [simp]:
  "sd_runs (removeOrphaned run db) = sd_runs db" "sd_adapt_results (removeOrphaned run db) = sd_adapt_results db"
  "sd_baselines (removeOrphaned run db) = sd_baselines db"
  "sd_change_points (removeOrphaned run db) = sd_change_points db"
  by (simp_all add: removeOrphaned_def Let_def)

lemma sanity_up:
  assumes "find (\<lambda>r. tr_test_run_id r = rid) (sd_runs db) = Some run"
    and "getCollectionSummary (coll_of (removeOrphaned run db)) rid = Inr sm"
  shows "\<exists>rs ws db' run'. sanity_execute (\<lambda>_. False) minDataPoints minCoverage rid db
       = (Judged (sane minCoverage run db sm) rs ws, db')
     \<and> find (\<lambda>r. tr_test_run_id r = rid) (sd_runs db') = Some run'
     \<and> vw_valid run' = Some (sane minCoverage run db sm)
     \<and> sy_reasonsNotValid run' = (if sane minCoverage run db sm then None else Some rs)"
proof -
  have id: "tr_test_run_id run = rid" using assms(1) by (auto simp: find_Some_iff)
  obtain sparse where sp: "check_sparse (\<lambda>_. False) minDataPoints run db = Some sparse"
    using check_sparse_up by blast
  obtain st where st: "check_statistics (\<lambda>_. False) run db = Some st"
    "has_metrics run db \<Longrightarrow> st = [] \<longleftrightarrow> run_statistics run db \<noteq> []
       \<and> 2 * length (filter (\<lambda>r. si_all_missing r = Some True) (run_statistics run db))
           \<le> length (run_statistics run db)"
    using check_statistics_up by blast
  let ?db1 = "removeOrphaned run db"
  obtain cov where cov: "check_coverage (\<lambda>_. False) minCoverage run db = (cov, ?db1)"
    "cov = [] \<longleftrightarrow> (sm_totalSources sm = 0 \<or> \<not> js_lt (sm_coverage sm) (JFin (of_int minCoverage)))
       \<and> (\<forall>s \<in> set (sd_statuses ?db1). cs_test_run_id s = tr_test_run_id run \<longrightarrow> cs_failed_ranges s = [])"
    using check_coverage_up [of run db sm minCoverage] assms(2) unfolding id by blast
  obtain ad where ad: "check_adapt (\<lambda>_. False) run ?db1 = Some ad"
    "ad = [] \<longleftrightarrow> \<not> (sy_adaptConfig run \<and> sy_evaluatingAdapt run = Some ''COMPLETED''
          \<and> tr_test_run_id run \<notin> set (sd_adapt_results ?db1) \<and> tr_test_run_id run \<in> set (sd_baselines ?db1)
          \<and> (tr_test_run_id run, tr_system_under_test_id run, tr_test_environment run, tr_workload run)
              \<notin> set (sd_change_points ?db1))"
    by (rule check_adapt_up)
  define reasons where "reasons = check_times run @ check_panels run db
    @ (if has_metrics run db then [] else [NoMetrics]) @ st @ cov @ ad"
  define warnings where "warnings = sparse @ check_window run"
  have s: "sane minCoverage run db sm \<longleftrightarrow> reasons = []"
    using st(2) cov(2) ad(2)
    by (auto simp: reasons_def sane_def check_times_none check_panels_none has_metrics_iff)
  have e: "sanity_execute (\<lambda>_. False) minDataPoints minCoverage rid db =
      (Judged (reasons = []) reasons warnings, write_verdict rid reasons warnings ?db1)"
    using assms(1)
    by (simp add: execute_found [of rid db run] sp st(1) cov(1) ad(1) reasons_def warnings_def Let_def)
  let ?f = "\<lambda>r. r\<lparr>vw_valid := Some (reasons = []), sy_reasonsNotValid := (if reasons = [] then None else Some reasons),
     sy_dataWarnings := (if warnings = [] then None else Some warnings)\<rparr> :: sanity_run"
  have "find (\<lambda>r. tr_test_run_id r = rid) (sd_runs (write_verdict rid reasons warnings ?db1)) = Some (?f run)"
    unfolding write_verdict_def using find_written [OF assms(1), of ?f] by simp
  then show ?thesis using e s by auto
qed

section \<open>What the check leaves alone\<close>

definition verdictless :: "sanity_run \<Rightarrow> sanity_run" where
  "verdictless r = r\<lparr>vw_valid := None, sy_reasonsNotValid := None, sy_dataWarnings := None\<rparr>"

definition confined :: "string \<Rightarrow> sanity_db \<Rightarrow> sanity_db \<Rightarrow> bool" where
  "confined rid db db' \<longleftrightarrow>
     (\<exists>rows st. db' = db\<lparr>sd_runs := rows, sd_statuses := st\<rparr>)
     \<and> list_all2 (\<lambda>r r'. r' = r \<or> tr_test_run_id r = rid \<and> verdictless r' = verdictless r) (sd_runs db) (sd_runs db')
     \<and> filter (\<lambda>s. cs_test_run_id s \<noteq> rid) (sd_statuses db') = filter (\<lambda>s. cs_test_run_id s \<noteq> rid) (sd_statuses db)"

lemma confined_refl [simp]: "confined rid db db"
  by (auto simp: confined_def list_all2_same intro!: exI [of _ "sd_runs db"] exI [of _ "sd_statuses db"])

lemma removeOrphaned_confined:
  assumes "tr_test_run_id run = rid"
  shows "confined rid db (removeOrphaned run db)"
proof (cases "getAllCollectionStatuses (coll_of db) rid = []")
  case True
  then show ?thesis by (simp add: removeOrphaned_def assms)
next
  case False
  let ?ss = "getAllCollectionStatuses (coll_of db) rid"
  let ?x = "cb_statuses (snd (removeOrphanedCollectionSources (sd_sources db) (coll_of db) rid ?ss))"
  have "filter (\<lambda>s. cs_test_run_id s \<noteq> rid) ?x = filter (\<lambda>s. cs_test_run_id s \<noteq> rid) (sd_statuses db)"
    by (auto simp: removeOrphanedCollectionSources_def sweep_db is_source_def coll_of_def
        intro!: filter_cong split: option.split)
  moreover have r: "removeOrphaned run db = db\<lparr>sd_statuses := ?x\<rparr>"
    using False by (simp add: removeOrphaned_def assms Let_def)
  ultimately have "filter (\<lambda>s. cs_test_run_id s \<noteq> rid) (sd_statuses (removeOrphaned run db))
      = filter (\<lambda>s. cs_test_run_id s \<noteq> rid) (sd_statuses db)"
    by simp
  moreover have "db\<lparr>sd_statuses := ?x\<rparr> = db\<lparr>sd_runs := sd_runs db, sd_statuses := ?x\<rparr>" by simp
  then have "\<exists>rows st. removeOrphaned run db = db\<lparr>sd_runs := rows, sd_statuses := st\<rparr>" unfolding r by blast
  ultimately show ?thesis unfolding confined_def by (simp only: removeOrphaned_fields list_all2_same) simp
qed

lemma write_verdict_confined:
  assumes "confined rid db db1"
  shows "confined rid db (write_verdict rid rs ws db1)"
proof -
  obtain rows st where db1: "db1 = db\<lparr>sd_runs := rows, sd_statuses := st\<rparr>"
    using assms by (auto simp: confined_def)
  let ?w = "write_verdict rid rs ws db1"
  have w: "?w = db\<lparr>sd_runs := sd_runs ?w, sd_statuses := st\<rparr>" by (simp add: write_verdict_def db1)
  have "list_all2 (\<lambda>r r'. r' = r \<or> tr_test_run_id r = rid \<and> verdictless r' = verdictless r) (sd_runs db) rows"
    using assms by (simp add: confined_def db1)
  then have "list_all2 (\<lambda>r r'. r' = r \<or> tr_test_run_id r = rid \<and> verdictless r' = verdictless r)
      (sd_runs db) (sd_runs ?w)"
    by (auto simp: write_verdict_def db1 list_all2_map2 verdictless_def elim: list_all2_mono)
  moreover have "sd_statuses ?w = sd_statuses db1" by (simp add: write_verdict_def)
  moreover have "filter (\<lambda>s. cs_test_run_id s \<noteq> rid) (sd_statuses db1)
      = filter (\<lambda>s. cs_test_run_id s \<noteq> rid) (sd_statuses db)"
    using assms by (simp add: confined_def)
  ultimately show ?thesis unfolding confined_def using w by metis
qed

lemma check_coverage_confined:
  assumes "tr_test_run_id run = rid" and "check_coverage down n run db = (rs, db1)"
  shows "confined rid db db1" and "sd_runs db1 = sd_runs db"
proof -
  have "db1 = db \<or> db1 = removeOrphaned run db"
    using assms(2) by (auto simp: check_coverage_def Let_def split: if_splits sum.splits)
  then show "confined rid db db1" "sd_runs db1 = sd_runs db"
    using removeOrphaned_confined [OF assms(1)] by auto
qed

lemma execute_confined:
  assumes "sanity_execute down m n rid db = (d, db')"
  shows "confined rid db db' \<and> (d = Unjudged \<longrightarrow> sd_runs db' = sd_runs db)"
proof (cases "if down QRun then None else find (\<lambda>r. tr_test_run_id r = rid) (sd_runs db)")
  case None
  then show ?thesis using assms by (simp add: sanity_execute_def)
next
  case (Some run)
  then have f: "find (\<lambda>r. tr_test_run_id r = rid) (sd_runs db) = Some run" "\<not> down QRun"
    by (auto split: if_splits)
  then have id: "tr_test_run_id run = rid" by (auto simp: find_Some_iff)
  obtain cov db1 where c: "check_coverage down n run db = (cov, db1)" by fastforce
  note cc = check_coverage_confined [OF id c]
  show ?thesis
    using assms cc write_verdict_confined [OF cc(1)]
    unfolding execute_found [of rid db run down, OF f] c
    by (auto simp: Let_def split: if_splits option.splits)
qed

section \<open>A run for the witnesses\<close>

definition collected_run :: "bool option \<Rightarrow> string option \<Rightarrow> sanity_run" where
  "collected_run validity checks =
     \<lparr>tr_test_run_id = ''r1'', tr_system_under_test_id = ''s'', tr_test_environment = ''e'',
      tr_workload = ''w'', tr_organization_id = None, tr_team_id = None, tr_start_time = Some 0,
      tr_end_time = Some 60000, tr_ramp_up = None, vw_evaluatingChecks = checks, vw_valid = validity,
      vw_consolidated = None, sy_analysisStartOffset = None, sy_analysisEndOffset = None,
      sy_adaptConfig = False, sy_evaluatingAdapt = None, sy_reasonsNotValid = None, sy_dataWarnings = None\<rparr>"

definition collected_db :: "sanity_run \<Rightarrow> time_range list \<Rightarrow> sanity_db" where
  "collected_db run ranges =
     \<lparr>sd_runs = [run], sd_statuses = [example_status ranges], sd_sources = one_instance, sd_panels = [''r1''],
      sd_dashboards = [], sd_grafana = [], sd_metrics = [(''r1'', Some False)],
      sd_statistics = [\<lparr>si_test_run_id = ''r1'', si_metric_name = ''m'', si_dashboard_label = ''d'',
         si_panel_title = ''p'', si_count = 6, si_all_missing = Some False\<rparr>],
      sd_exclusions = [], sd_adapt_results = [], sd_baselines = [], sd_change_points = []\<rparr>"

definition whole_run :: "time_range list" where
  "whole_run = [\<lparr>rg_from = 0, rg_to = 60000\<rparr>]"

section \<open>Properties\<close>

text \<open>
  C36: the check judges exactly the data. When its statements answer, a run is stored as valid if and only if
  its window is a proper one, its dashboards have panels, it has metrics, statistics that are not mostly
  missing, the coverage asked for by the threshold and no failed range left, and a completed comparison
  with a baseline has results; the reasons are stored exactly for a run that is not valid.
\<close>

theorem sanity_exact:
  assumes "find (\<lambda>r. tr_test_run_id r = rid) (sd_runs db) = Some run"
    and "getCollectionSummary (coll_of (removeOrphaned run db)) rid = Inr sm"
  shows "\<exists>rs ws db' run'. sanity_execute (\<lambda>_. False) minDataPoints minCoverage rid db
       = (Judged (sane minCoverage run db sm) rs ws, db')
     \<and> find (\<lambda>r. tr_test_run_id r = rid) (sd_runs db') = Some run'
     \<and> vw_valid run' = Some (sane minCoverage run db sm)
     \<and> sy_reasonsNotValid run' = (if sane minCoverage run db sm then None else Some rs)"
  by (rule sanity_up [OF assms])

theorem sanity_exact_witness:
  "\<exists>rs ws db' run'. sanity_execute (\<lambda>_. False) 5 80 ''r1'' (collected_db (collected_run None None) whole_run)
       = (Judged True rs ws, db')
     \<and> find (\<lambda>r. tr_test_run_id r = ''r1'') (sd_runs db') = Some run' \<and> vw_valid run' = Some True
     \<and> sy_reasonsNotValid run' = None"
proof -
  let ?db = "collected_db (collected_run None None) whole_run"
  have f: "find (\<lambda>r. tr_test_run_id r = ''r1'') (sd_runs ?db) = Some (collected_run None None)" by code_simp
  have s: "getCollectionSummary (coll_of (removeOrphaned (collected_run None None) ?db)) ''r1''
    = Inr \<lparr>sm_totalSources = 1, sm_completeSources = 0, sm_incompleteSources = 1, sm_coverage = JFin 100,
           sm_gaps = 0, sm_failedRanges = 0\<rparr>"
    by code_simp
  have "sane 80 (collected_run None None) ?db
     \<lparr>sm_totalSources = 1, sm_completeSources = 0, sm_incompleteSources = 1, sm_coverage = JFin 100,
      sm_gaps = 0, sm_failedRanges = 0\<rparr>"
  proof -
    have "run_statistics (collected_run None None) ?db = sd_statistics ?db"
      "sd_statuses (removeOrphaned (collected_run None None) ?db) = [example_status whole_run]"
      "dashboards_with_panels (collected_run None None) ?db = 0" by code_simp+
    then show ?thesis
      by (simp add: sane_def collected_db_def collected_run_def example_status_def)
  qed
  with sanity_exact [OF f s, of 5 80] show ?thesis by simp
qed

text \<open>
  C37: whatever fails, the check stays within its run. It changes nothing but the run's own verdict, reasons and
  warnings and the bookkeeping of the run's orphaned sources; and when it cannot judge, the verdict that was
  there stays.
\<close>

theorem sanity_confined:
  assumes "sanity_execute down minDataPoints minCoverage rid db = (d, db')"
  shows "confined rid db db' \<and> (d = Unjudged \<longrightarrow> sd_runs db' = sd_runs db)"
  by (rule execute_confined [OF assms])

theorem sanity_confined_witness:
  "confined ''r1'' (collected_db (collected_run None None) whole_run)
     (snd (sanity_execute (\<lambda>q. q = QUpdate) 5 80 ''r1'' (collected_db (collected_run None None) whole_run)))
   \<and> sd_runs (snd (sanity_execute (\<lambda>q. q = QUpdate) 5 80 ''r1'' (collected_db (collected_run None None) whole_run)))
     = [collected_run None None]"
proof -
  let ?db = "collected_db (collected_run None None) whole_run"
  have e: "sanity_execute (\<lambda>q. q = QUpdate) 5 80 ''r1'' ?db = (Unjudged, ?db)" by code_simp
  from sanity_confined [OF this] show ?thesis unfolding e by (simp add: collected_db_def)
qed

text \<open>
  The validity follows from the data alone: what the evaluation of the objectives and earlier checks wrote
  into the run's row (its status, its validity, the consolidated result, reasons, warnings) has no influence
  on what the check finds.
\<close>

theorem verdict_from_data_alone:
  "fst (sanity_execute down minDataPoints minCoverage rid (forget_all db))
     = fst (sanity_execute down minDataPoints minCoverage rid db)"
  by (rule data_forget)

section \<open>What the model shows\<close>

text \<open>
  The evaluation of the objectives sets a run invalid when it ends in an error. The check comes later in the
  same analysis and writes the same column: over sound data the run is valid again, with the status of its
  checks still an error and no reason.
\<close>

lemma sanity_clears_the_checks_verdict:
  "map (\<lambda>r. (vw_evaluatingChecks r, vw_valid r, sy_reasonsNotValid r))
     (sd_runs (snd (sanity_execute (\<lambda>_. False) 5 80 ''r1''
        (collected_db (collected_run (Some False) (Some ''ERROR'')) whole_run))))
   = [(Some ''ERROR'', Some True, None)]"
  by code_simp

text \<open>A window that keeps no sample is a warning only: the run is valid as long as its statistics exist.\<close>

lemma empty_window_is_valid:
  "fst (sanity_execute (\<lambda>_. False) 5 80 ''r1''
      (collected_db ((collected_run None None)\<lparr>sy_analysisStartOffset := Some 40, sy_analysisEndOffset := Some 20\<rparr>)
         whole_run))
   = Judged True [] [EmptyWindow 40 20 60]"
  by code_simp
end
