(* ===== verification/AnalyzeJob.thy ===== *)
theory AnalyzeJob
  imports Orchestrator DataSanity
begin

text \<open>
  The job that analyses one run (\<open>workers/analyze.ts\<close>): the scope lock of \<open>Locks\<close> around the
  orchestrator and the sanity check of \<open>DataSanity\<close>, the parking of a job whose scope is taken, what
  becomes of a failure, and what the \<open>finally\<close> hands back.

  The database accessor, the pool of Redis connections and BullMQ's own operations are parameters of
  the record \<open>worker\<close>; the renewals of the lock run beside the pipelines and belong, like the other
  timers, to the world the pipelines return. An error of an operation is an answer without a value.
\<close>

section \<open>Jobs and results\<close>

datatype 'a field = Absent | Given 'a | Malformed

record job =
  jb_id :: string
  jb_token :: bool
  jb_testRunId :: "string field"
  jb_adapt :: "bool field"
  jb_benchmarksOnly :: "bool field"
  jb_blockedSince :: "int option"

record analyze_data =
  ad_testRunId :: string
  ad_adapt :: bool
  ad_benchmarksOnly :: bool

fun defaulted :: "'a \<Rightarrow> 'a field \<Rightarrow> 'a option" where
  "defaulted d Absent = Some d"
| "defaulted d (Given x) = Some x"
| "defaulted d Malformed = None"

definition AnalyzeTestJobSchema :: "job \<Rightarrow> analyze_data option" where
  "AnalyzeTestJobSchema j =
     (case (jb_testRunId j, defaulted True (jb_adapt j), defaulted False (jb_benchmarksOnly j)) of
        (Given rid, Some adapt, Some bo) \<Rightarrow>
          Some \<lparr>ad_testRunId = rid, ad_adapt = adapt, ad_benchmarksOnly = bo\<rparr>
      | _ \<Rightarrow> None)"

datatype analysis_status = Success | Partial

record analysis_result =
  an_status :: analysis_status
  an_testRunId :: string
  an_stages :: nat
  an_adapt :: bool
  an_benchmarksOnly :: bool
  an_dataSanity :: sanity_data
  an_pipeline :: "pipeline_data option"

text \<open>How the job leaves: a result that BullMQ records as completed, parked until a time, or an error.\<close>

datatype job_outcome = JobReturned analysis_result | JobParked int | JobThrew thrown

definition BLOCKED_REPARK_MS :: int where "BLOCKED_REPARK_MS = 60000"
definition BLOCKED_MAX_WAIT_MS :: int where "BLOCKED_MAX_WAIT_MS = 2 * 60 * 60000"

record 's worker =
  j_world :: "'s orchestra"
  j_env :: "nat \<Rightarrow> 's \<Rightarrow> 's"
  j_lock_now :: "nat \<Rightarrow> int"
  j_gap :: "'s \<Rightarrow> 's"
  j_find_run :: "string \<Rightarrow> ('s, (string \<times> string \<times> string) option) io"
  j_pool_acquire :: "('s, unit) io"
  j_pool_release :: "'s \<Rightarrow> 's"
  j_update_data :: "int \<Rightarrow> ('s, unit) io"
  j_move_to_delayed :: "int \<Rightarrow> ('s, unit) io"
  j_recompress :: "('s, unit) io"
  j_sanity_db :: "'s \<Rightarrow> sanity_db"
  j_set_sanity_db :: "sanity_db \<Rightarrow> 's \<Rightarrow> 's"
  j_down :: "sanity_query \<Rightarrow> bool"
  j_minDataPoints :: int
  j_minCoverage :: int
  j_error :: string

text \<open>What the variables outside the \<open>try\<close> hold when the job leaves it.\<close>

record 's working =
  wk_world :: 's
  wk_redis :: bool
  wk_lock :: "lock_request option"
  wk_reporter :: "reporter option"

section \<open>The job\<close>

definition outside_error :: "'s worker \<Rightarrow> thrown" where
  "outside_error J = \<lparr>th_message = j_error J, th_error = True, th_retryable = False\<rparr>"

definition orchestrated_plan :: "bool \<Rightarrow> string list" where
  "orchestrated_plan adapt =
     [''dynatrace-collection'', ''panels-processing'', ''performance-test-metrics'',
      ''transaction-stats-rollup'', ''metrics-collection'', ''statistics-calculation'',
      ''checks-evaluation'', ''control-groups-creation'', ''control-group-statistics'']
     @ (if adapt then [''adapt-analysis''] else [])"

definition analysis_config :: "string \<Rightarrow> bool \<Rightarrow> seq_config" where
  "analysis_config jobId adapt =
     \<lparr>qc_stages = orchestrated_plan adapt, qc_errorHandling = Some Abort, qc_timeoutMs = Some 600000,
      qc_mutex = Some jobId, qc_finalizeProgress = Some False\<rparr>"

text \<open>The sanity check swallows its own errors.\<close>

definition run_sanity :: "'s worker \<Rightarrow> string \<Rightarrow> reporter \<times> 's \<Rightarrow> sanity_data \<times> reporter \<times> 's" where
  "run_sanity J rid c =
     (let W = j_world J;
          (p1, s1) = startStage (o_redis W) (o_bull W) (o_now W (snd c)) ''data-sanity-check'' (fst c) (snd c);
          (d, db) = sanity_execute (j_down J) (j_minDataPoints J) (j_minCoverage J) rid (j_sanity_db J s1);
          s2 = j_set_sanity_db J db s1;
          (p3, s3) = completeStage (o_redis W) (o_bull W) (o_now W s2) p1 s2
      in (d, p3, s3))"

definition retryable_stage :: "seq_result \<Rightarrow> pipe_error option" where
  "retryable_stage x =
     (case xr_data x of
        None \<Rightarrow> None
      | Some d \<Rightarrow>
          (case List.map_filter (\<lambda>r. case pr_error (sr_result r) of
                  Some e \<Rightarrow> if pe_code e = ''RETRYABLE'' then Some e else None
                | None \<Rightarrow> None) (pd_stages d) of
             [] \<Rightarrow> None
           | e # _ \<Rightarrow> Some e))"

text \<open>From the lock on: an error (\<open>Inl\<close>) or a result.\<close>

definition analyze_locked ::
  "'s worker \<Rightarrow> job \<Rightarrow> analyze_data \<Rightarrow> lock_request \<Rightarrow> 's
     \<Rightarrow> ((thrown + analysis_result) \<times> 's working) option" where
  "analyze_locked J j d q s =
     (let W = j_world J;
          rid = ad_testRunId d;
          stages = orchestrated_plan (ad_adapt d) @ [''data-sanity-check''];
          p = newReporter (jb_id j) (rid, lr_systemUnderTestId q, lr_testEnvironment q, lr_workload q)
                Analyze stages (o_now W s)
      in case executeSequentialPipeline W rid (analysis_config (jb_id j) (ad_adapt d)) (Some p) s of
           None \<Rightarrow> None
         | Some (x, sq) \<Rightarrow>
             (case run_sanity J rid (the (sq_reporter sq), sq_world sq) of
                (sanity, p1, s1) \<Rightarrow>
                  (case retryable_stage x of
                     Some e \<Rightarrow>
                       Some (Inl \<lparr>th_message = ''Retryable stage failure for '' @ rid @ '': '' @ pe_message e,
                                  th_error = True, th_retryable = False\<rparr>,
                             \<lparr>wk_world = s1, wk_redis = True, wk_lock = Some q, wk_reporter = Some p1\<rparr>)
                   | None \<Rightarrow>
                       (case (if xr_success x then complete (o_redis W) (o_bull W) (o_now W s1) p1 s1
                              else fail (o_redis W) (o_bull W) (o_now W s1)
                                     (''Analysis completed with failures for '' @ rid) p1 s1) of
                          (p2, s2) \<Rightarrow>
                            Some (Inr \<lparr>an_status = (if xr_success x then Success else Partial),
                                       an_testRunId = rid, an_stages = length stages, an_adapt = ad_adapt d,
                                       an_benchmarksOnly = ad_benchmarksOnly d, an_dataSanity = sanity,
                                       an_pipeline = xr_data x\<rparr>,
                                  \<lparr>wk_world = s2, wk_redis = True, wk_lock = Some q,
                                   wk_reporter = Some p2\<rparr>)))))"

definition blocked_error :: "blocked_info \<Rightarrow> thrown" where
  "blocked_error b =
     \<lparr>th_message = ''Job blocked: '' @ bi_reason b @ '' (blocking job '' @ bi_existingJobId b @ '')'',
      th_error = True, th_retryable = False\<rparr>"

text \<open>A taken scope: the time the job is parked until, or the error.\<close>

definition park :: "'s worker \<Rightarrow> job \<Rightarrow> blocked_info \<Rightarrow> 's \<Rightarrow> (thrown + int) \<times> 's" where
  "park J j b s =
     (let now = o_now (j_world J) s;
          blockedSince = (case jb_blockedSince j of Some t \<Rightarrow> t | None \<Rightarrow> now)
      in if jb_token j \<and> now - blockedSince < BLOCKED_MAX_WAIT_MS
         then (case thn (j_update_data J blockedSince) (\<lambda>_. j_move_to_delayed J (now + BLOCKED_REPARK_MS)) s of
                 (None, s') \<Rightarrow> (Inl (outside_error J), s')
               | (Some _, s') \<Rightarrow> (Inr (now + BLOCKED_REPARK_MS), s'))
         else (Inl (blocked_error b), s))"

definition lock_request_of :: "job \<Rightarrow> string \<Rightarrow> string \<times> string \<times> string \<Rightarrow> lock_request" where
  "lock_request_of j rid scope =
     (case scope of (sut, env, wl) \<Rightarrow>
        \<lparr>lr_systemUnderTestId = sut, lr_testEnvironment = env, lr_workload = wl, lr_jobId = jb_id j,
         lr_testRunId = rid, lr_jobType = Analyze\<rparr>)"

definition analyze_body ::
  "'s worker \<Rightarrow> job \<Rightarrow> 's \<Rightarrow> (job_outcome \<times> 's working) option" where
  "analyze_body J j s =
     (let without = (\<lambda>redis s. \<lparr>wk_world = s, wk_redis = redis, wk_lock = None, wk_reporter = None\<rparr>);
          threw = (\<lambda>redis s. Some (JobThrew (outside_error J), without redis s))
      in case AnalyzeTestJobSchema j of
           None \<Rightarrow> threw False s
         | Some d \<Rightarrow>
             (case j_find_run J (ad_testRunId d) s of
                (None, s1) \<Rightarrow> threw False s1
              | (Some None, s1) \<Rightarrow>
                  Some (JobThrew \<lparr>th_message = ''Test run not found: '' @ ad_testRunId d, th_error = True,
                                  th_retryable = False\<rparr>, without False s1)
              | (Some (Some scope), s1) \<Rightarrow>
                  (case j_pool_acquire J s1 of
                     (None, s2) \<Rightarrow> threw False s2
                   | (Some _, s2) \<Rightarrow>
                       (let q = lock_request_of j (ad_testRunId d) scope
                        in case acquireLock (o_redis (j_world J)) (j_env J) (j_lock_now J) 0 q s2 of
                             None \<Rightarrow> None
                           | Some (None, s3) \<Rightarrow> threw True s3
                           | Some (Some (LockBlocked _ b), s3) \<Rightarrow>
                               (case park J j b s3 of
                                  (Inl e, s4) \<Rightarrow> Some (JobThrew e, without True s4)
                                | (Inr t, s4) \<Rightarrow> Some (JobParked t, without True s4))
                           | Some (Some (LockAcquired _), s3) \<Rightarrow>
                               (case analyze_locked J j d q s3 of
                                  None \<Rightarrow> None
                                | Some (Inl e, w) \<Rightarrow> Some (JobThrew e, w)
                                | Some (Inr r, w) \<Rightarrow> Some (JobReturned r, w))))))"

text \<open>The \<open>catch\<close>: a reporter that exists is told. The error goes on.\<close>

definition analyze_catch :: "'s worker \<Rightarrow> job_outcome \<Rightarrow> 's working \<Rightarrow> 's working" where
  "analyze_catch J out w =
     (case (out, wk_reporter w) of
        (JobThrew e, Some p) \<Rightarrow>
          (case fail (o_redis (j_world J)) (o_bull (j_world J)) (o_now (j_world J) (wk_world w)) (th_message e) p
                  (wk_world w) of
             (p', s') \<Rightarrow> w\<lparr>wk_reporter := Some p', wk_world := s'\<rparr>)
      | _ \<Rightarrow> w)"

text \<open>The \<open>finally\<close>: chunks, lock and connection go back; errors on the way are logged.\<close>

definition analyze_finally :: "'s worker \<Rightarrow> job \<Rightarrow> 's working \<Rightarrow> 's" where
  "analyze_finally J j w =
     (let s = wk_world w;
          s1 = (case wk_lock w of
                  None \<Rightarrow> s
                | Some q \<Rightarrow>
                    snd (releaseLock (o_redis (j_world J)) (j_gap J) (request_key q) (jb_id j)
                           (snd (j_recompress J s))))
      in if wk_redis w then j_pool_release J s1 else s1)"

definition analyzeTestWorker :: "'s worker \<Rightarrow> job \<Rightarrow> 's \<Rightarrow> (job_outcome \<times> 's) option" where
  "analyzeTestWorker J j s =
     (case analyze_body J j s of
        None \<Rightarrow> None
      | Some (out, w) \<Rightarrow> Some (out, analyze_finally J j (analyze_catch J out w)))"


section \<open>What a result says\<close>

lemma run_finished_data:
  assumes "xr_success (fst (run_finished W cfg rid t ws q))"
  shows "\<exists>d. xr_data (fst (run_finished W cfg rid t ws q)) = Some d \<and> pd_stages d = sq_results q"
  using assms by (auto simp: run_finished_def Let_def split: option.splits)

lemma sequential_success_data:
  assumes "executeSequentialPipeline W rid cfg rep s = Some (x, q)" and "xr_success x"
  shows "\<exists>d. xr_data x = Some d \<and> pd_stages d = sq_results q"
  using assms(1)
proof (cases rule: sequential_cases)
  case (1 e q0 ws)
  show ?thesis
  proof (cases e)
    case None
    then have "x = fst (run_finished W cfg rid (o_now W s) ws q0)" "q = snd (run_finished W cfg rid (o_now W s) ws q0)"
      using 1(2) by (simp_all add: prod_eq_iff)
    with run_finished_data [of W cfg rid "o_now W s" ws q0] assms(2) show ?thesis
      by (simp add: run_finished_fields(2))
  next
    case (Some y)
    then have "x = fst (run_failed W cfg (o_now W s) y q0)" using 1(2) by (simp add: prod_eq_iff)
    with assms(2) show ?thesis by simp
  qed
qed

definition complete_analysis :: "bool \<Rightarrow> stage_result list \<Rightarrow> bool" where
  "complete_analysis adapt results \<longleftrightarrow>
     (\<exists>skip. map sr_stage results = planned skip (orchestrated_plan adapt))
     \<and> list_all (\<lambda>r. pr_success (sr_result r)) results"

lemma analyze_locked_success:
  assumes "analyze_locked J j d q s = Some (Inr r, w)" and "an_status r = Success"
  shows "\<exists>p. an_pipeline r = Some p \<and> complete_analysis (ad_adapt d) (pd_stages p)"
proof -
  let ?W = "j_world J" and ?cfg = "analysis_config (jb_id j) (ad_adapt d)"
  obtain rep x sq where run: "executeSequentialPipeline ?W (ad_testRunId d) ?cfg (Some rep) s = Some (x, sq)"
    and x: "xr_success x" "an_pipeline r = xr_data x"
    using assms by (auto simp: analyze_locked_def Let_def split: option.splits prod.splits if_splits)
  obtain p where p: "xr_data x = Some p" "pd_stages p = sq_results sq"
    using sequential_success_data [OF run x(1)] by blast
  have "complete_analysis (ad_adapt d) (sq_results sq)"
    using sequential_plan [OF run] x(1)
    by (auto simp: complete_analysis_def Let_def analysis_config_def)
  with p x(2) show ?thesis by simp
qed

lemma analyze_body_returned:
  assumes "analyze_body J j s = Some (JobReturned r, w)"
  obtains d q s1 where "AnalyzeTestJobSchema j = Some d" "analyze_locked J j d q s1 = Some (Inr r, w)"
  using assms
  by (auto simp: analyze_body_def Let_def
      split: option.splits prod.splits lock_result.splits sum.splits)

section \<open>Handing back\<close>

lemma analyze_locked_working:
  assumes "analyze_locked J j d q s = Some (out, w)"
  shows "wk_lock w = Some q \<and> wk_redis w"
  using assms by (auto simp: analyze_locked_def Let_def split: option.splits prod.splits)

lemma analyze_body_lock:
  assumes "analyze_body J j s = Some (out, w)" and "wk_lock w = Some q"
  shows "lr_jobId q = jb_id j \<and> wk_redis w"
  using assms analyze_locked_working
  by (fastforce simp: analyze_body_def Let_def lock_request_of_def
      split: option.splits prod.splits lock_result.splits sum.splits)

lemma analyze_body_no_lock:
  assumes "analyze_body J j s = Some (out, w)" and "wk_lock w = None"
  shows "wk_reporter w = None"
  using assms analyze_locked_working
  by (fastforce simp: analyze_body_def Let_def
      split: option.splits prod.splits lock_result.splits sum.splits)

lemma analyze_catch_fields [simp]:
  "wk_lock (analyze_catch J out w) = wk_lock w" "wk_redis (analyze_catch J out w) = wk_redis w"
  by (simp_all add: analyze_catch_def split: job_outcome.splits option.splits prod.splits)

context redis
begin

text \<open>After a release that Redis answers, the lock is not the job's.\<close>

lemma releaseLock_gone:
  assumes up: "redis_up R" and e: "\<And>s. r_view R (e s) = r_view R s"
  shows "lock_held R k (snd (releaseLock R e k j s)) \<noteq> Some (Some j, t)"
proof -
  obtain g s1 where g: "r_get R k s = (g, s1)" by fastforce
  have "g \<noteq> None" using up g unfolding redis_up_def by (metis fst_conv)
  then obtain gv where gv: "g = Some gv" by blast
  have v1: "r_view R s1 = r_view R s" and gk: "gv = map_option fst (r_view R s k)"
    using get_view [OF g] gv by auto
  show ?thesis
  proof (cases "\<exists>v. gv = Some v \<and> owner_of v = Some j")
    case False
    then have "r_view R (snd (releaseLock R e k j s)) = r_view R s"
      using g gv v1 by (auto simp: releaseLock_def io_defs split: option.splits)
    moreover have "lock_held R k s \<noteq> Some (Some j, t)"
      using False gk by (auto simp: lock_held_def split: option.splits)
    ultimately show ?thesis by (simp add: lock_held_def)
  next
    case True
    then obtain v where v: "gv = Some v" "owner_of v = Some j" by blast
    obtain g2 s2 where g2: "r_get R k (e s1) = (g2, s2)" by fastforce
    have "g2 \<noteq> None" using up g2 unfolding redis_up_def by (metis fst_conv)
    then have g2v: "g2 = Some (Some v)" and v2: "r_view R s2 = r_view R s"
      using get_view [OF g2] v(1) gk v1 e by auto
    obtain d s3 where d: "r_del R k s2 = (d, s3)" by fastforce
    have "d \<noteq> None" using up d unfolding redis_up_def by (metis fst_conv)
    then have v3: "r_view R s3 k = None" using del_view(1) [OF d] by auto
    have "snd (releaseLock R e k j s) = s3"
      using g gv v g2 g2v d \<open>d \<noteq> None\<close>
      by (auto simp: releaseLock_def release_script_def io_defs)
    with v3 show ?thesis by (simp add: lock_held_def)
  qed
qed

end

lemma handed_back:
  assumes laws: "redis_laws (o_redis (j_world J))" and up: "redis_up (o_redis (j_world J))"
    and gap: "\<And>s. r_view (o_redis (j_world J)) (j_gap J s) = r_view (o_redis (j_world J)) s"
    and pool: "\<And>s. r_view (o_redis (j_world J)) (j_pool_release J s) = r_view (o_redis (j_world J)) s"
    and body: "analyze_body J j s = Some (out, w)"
    and run: "analyzeTestWorker J j s = Some (out, s')"
  shows "case wk_lock w of
      Some q \<Rightarrow> lock_held (o_redis (j_world J)) (request_key q) s' \<noteq> Some (Some (jb_id j), t)
    | None \<Rightarrow> s' = (if wk_redis w then j_pool_release J (wk_world w) else wk_world w)"
proof (cases "wk_lock w")
  case None
  then have "wk_reporter w = None" using analyze_body_no_lock [OF body] by simp
  then have "analyze_catch J out w = w" by (simp add: analyze_catch_def split: job_outcome.splits)
  then show ?thesis using run body None by (auto simp: analyzeTestWorker_def analyze_finally_def Let_def)
next
  case (Some q)
  let ?R = "o_redis (j_world J)" and ?w = "analyze_catch J out w"
  let ?s1 = "snd (releaseLock ?R (j_gap J) (request_key q) (jb_id j) (snd (j_recompress J (wk_world ?w))))"
  have "s' = j_pool_release J ?s1"
    using run body Some analyze_body_lock [OF body Some]
    by (simp add: analyzeTestWorker_def analyze_finally_def Let_def)
  then have "r_view ?R s' = r_view ?R ?s1" using pool by simp
  moreover have "lock_held ?R (request_key q) ?s1 \<noteq> Some (Some (jb_id j), t)"
    by (rule redis.releaseLock_gone [OF redis.intro [OF laws] up gap])
  ultimately show ?thesis using Some by (simp add: lock_held_def)
qed


section \<open>How often a job is parked\<close>

text \<open>The clock goes on through the steps of an operation.\<close>

definition goes :: "'s orchestra \<Rightarrow> ('s, 'a) io \<Rightarrow> bool" where
  "goes W m \<longleftrightarrow> (\<forall>s. o_now W s \<le> o_now W (snd (m s)))"

lemma goesD: "goes W m \<Longrightarrow> m s = (r, s') \<Longrightarrow> o_now W s \<le> o_now W s'"
  unfolding goes_def by (metis snd_conv)

lemma goes_basic [intro!]: "goes W (ret a)" "goes W throw"
  by (simp_all add: goes_def io_defs)

lemma goes_thn [intro]:
  assumes "goes W m" and "\<And>a. goes W (f a)"
  shows "goes W (thn m f)"
  using assms unfolding goes_def thn_def
  by (fastforce split: prod.splits option.splits dest: spec intro: order_trans)

lemma goes_catching [intro]:
  assumes "goes W m" and "goes W h"
  shows "goes W (catching m h)"
  using assms unfolding goes_def catching_def
  by (fastforce split: prod.splits option.splits intro: order_trans)

lemma goes_gap [intro]:
  assumes "\<And>s. o_now W s \<le> o_now W (e s)" and "goes W m"
  shows "goes W (gap e m)"
  using assms unfolding goes_def gap_def by (meson order_trans)

lemma goes_option [intro]:
  assumes "goes W a" and "\<And>y. goes W (b y)"
  shows "goes W (case x of None \<Rightarrow> a | Some y \<Rightarrow> b y)"
  using assms by (cases x) simp_all

definition worker_clock :: "'s worker \<Rightarrow> bool" where
  "worker_clock J \<longleftrightarrow>
     clock_goes_on (j_world J) \<and> (\<forall>k. goes (j_world J) (r_ttl (o_redis (j_world J)) k))
     \<and> (\<forall>n s. o_now (j_world J) s \<le> o_now (j_world J) (j_env J n s))
     \<and> (\<forall>rid. goes (j_world J) (j_find_run J rid)) \<and> goes (j_world J) (j_pool_acquire J)"

lemma worker_clockD:
  assumes "worker_clock J"
  shows "goes (j_world J) (r_get (o_redis (j_world J)) k)"
    and "goes (j_world J) (r_set_nx (o_redis (j_world J)) k v t)"
    and "goes (j_world J) (r_publish (o_redis (j_world J)) ev)"
    and "goes (j_world J) (r_ttl (o_redis (j_world J)) k)"
    and "o_now (j_world J) s \<le> o_now (j_world J) (j_env J n s)"
    and "goes (j_world J) (j_find_run J rid)" and "goes (j_world J) (j_pool_acquire J)"
  using assms by (simp_all add: worker_clock_def clock_goes_on_def goes_def)

lemma getLockInfo_goes:
  assumes "worker_clock J"
  shows "goes (j_world J) (getLockInfo (o_redis (j_world J)) (j_env J) n now k)"
  unfolding getLockInfo_def
  by (intro goes_catching goes_thn goes_option goes_basic worker_clockD [OF assms] goes_gap)

lemma publishBlocked_goes:
  assumes "worker_clock J"
  shows "goes (j_world J) (publishBlockedEvent (o_redis (j_world J)) rid ty b)"
  unfolding publishBlockedEvent_def by (intro goes_catching goes_basic worker_clockD [OF assms])

lemma acquireLock_goes:
  assumes "worker_clock J"
    and "acquireLock (o_redis (j_world J)) (j_env J) (j_lock_now J) n q s = Some y"
  shows "o_now (j_world J) s \<le> o_now (j_world J) (snd y)"
proof -
  let ?R = "o_redis (j_world J)" and ?now = "o_now (j_world J)"
  let ?P = "\<lambda>R env now n q s y. R = ?R \<longrightarrow> env = j_env J \<longrightarrow> ?now s \<le> ?now (snd y)"
  have "?P ?R (j_env J) (j_lock_now J) n q s y"
  proof (rule acquireLock.raw_induct [of ?P, OF _ assms(2)], intro impI, goal_cases)
    case (1 acq R env now n q s y)
    note env = worker_clockD(5) [OF assms(1)]
    obtain r s1 where c: "r_set_nx ?R (request_key q) (RLock (request_metadata q (now n)))
        (LOCK_TTL_SECONDS * 1000) s = (r, s1)" by fastforce
    note n1 = goesD [OF worker_clockD(2) [OF assms(1)] c]
    obtain i s2 where i: "getLockInfo ?R (j_env J) (n + 1) (now n) (request_key q) (j_env J n s1) = (i, s2)"
      by fastforce
    have n2: "?now s \<le> ?now s2" using n1 env [of s1 n] goesD [OF getLockInfo_goes [OF assms(1)] i] by linarith
    show ?case
    proof (cases "r = Some False")
      case False
      with 1(2-) c n1 show ?thesis by (auto split: option.splits)
    next
      case True
      show ?thesis
      proof (cases "\<exists>info. i = Some (Some (Some info))")
        case False
        have "(case i of Some (Some (Some info)) \<Rightarrow> X info | _ \<Rightarrow> Z) = Z" for X :: "lock_info \<Rightarrow> 'b" and Z
          using False by (auto split: option.splits)
        then have "acq R env now (n + 4) q (env (n + 3) s2) = Some y"
          using 1(2-) c True i False by (auto split: option.splits)
        from 1(1) [OF this] 1(3,4) n2 env [of s2 "n + 3"] show ?thesis by auto
      next
        case True
        then obtain info where info: "i = Some (Some (Some info))" by blast
        let ?b = "buildBlockingInfo info (request_key q)"
        obtain p s3 where p: "publishBlockedEvent ?R (lr_testRunId q) (lr_jobType q) ?b (j_env J (n + 3) s2) = (p, s3)"
          by fastforce
        have n3: "?now s \<le> ?now s3"
          using n2 env [of s2 "n + 3"] goesD [OF publishBlocked_goes [OF assms(1)] p] by linarith
        have "y = (None, s3) \<or> y = (Some (LockBlocked (request_key q) ?b), s3)"
          using 1(2-) c \<open>r = Some False\<close> i info p by (auto split: option.splits)
        with n3 show ?thesis by auto
      qed
    qed
  qed
  then show ?thesis by simp
qed

lemma analyze_body_parked:
  assumes "analyze_body J j s = Some (JobParked t, w)"
  obtains rid scope s1 s2 s3 k b s4 where
    "j_find_run J rid s = (Some (Some scope), s1)" "j_pool_acquire J s1 = (Some (), s2)"
    "acquireLock (o_redis (j_world J)) (j_env J) (j_lock_now J) 0 (lock_request_of j rid scope) s2
       = Some (Some (LockBlocked k b), s3)"
    "park J j b s3 = (Inr t, s4)"
  using assms
  by (auto simp: analyze_body_def Let_def
      split: option.splits prod.splits lock_result.splits sum.splits)

lemma park_parks:
  assumes "park J j b s = (Inr t, s')"
  shows "t = o_now (j_world J) s + BLOCKED_REPARK_MS"
    and "jb_blockedSince j = Some b0 \<Longrightarrow> o_now (j_world J) s - b0 < BLOCKED_MAX_WAIT_MS"
  using assms by (auto simp: park_def Let_def split: if_splits prod.splits option.splits)

lemma worker_parks:
  assumes "worker_clock J" and "analyzeTestWorker J j s = Some (JobParked t, s')"
  shows "o_now (j_world J) s + BLOCKED_REPARK_MS \<le> t"
    and "jb_blockedSince j = Some b0 \<Longrightarrow> t < b0 + BLOCKED_MAX_WAIT_MS + BLOCKED_REPARK_MS"
proof -
  obtain w where "analyze_body J j s = Some (JobParked t, w)"
    using assms(2) by (auto simp: analyzeTestWorker_def split: option.splits prod.splits)
  then obtain rid scope s1 s2 s3 k b s4 where c: "j_find_run J rid s = (Some (Some scope), s1)"
    "j_pool_acquire J s1 = (Some (), s2)"
    "acquireLock (o_redis (j_world J)) (j_env J) (j_lock_now J) 0 (lock_request_of j rid scope) s2
       = Some (Some (LockBlocked k b), s3)" and p: "park J j b s3 = (Inr t, s4)"
    by (rule analyze_body_parked)
  have "o_now (j_world J) s \<le> o_now (j_world J) s3"
    using goesD [OF worker_clockD(6) [OF assms(1)] c(1)] goesD [OF worker_clockD(7) [OF assms(1)] c(2)]
      acquireLock_goes [OF assms(1) c(3)] by simp
  then show "o_now (j_world J) s + BLOCKED_REPARK_MS \<le> t" using park_parks(1) [OF p] by simp
  show "jb_blockedSince j = Some b0 \<Longrightarrow> t < b0 + BLOCKED_MAX_WAIT_MS + BLOCKED_REPARK_MS"
    using park_parks [OF p] by simp
qed

text \<open>
  A chain of visits that all ended in parking: the job carries the time of the first one, and BullMQ hands
  it out again when the delay is over, in whatever state the world is by then.
\<close>

inductive parked_times :: "'s worker \<Rightarrow> nat \<Rightarrow> job \<times> 's \<Rightarrow> job \<times> 's \<Rightarrow> bool" for J where
  never: "parked_times J 0 c c"
| again: "parked_times J n c (j, s) \<Longrightarrow> analyzeTestWorker J j s = Some (JobParked t, s1)
     \<Longrightarrow> t \<le> o_now (j_world J) s2
     \<Longrightarrow> parked_times J (Suc n) c
           (j\<lparr>jb_blockedSince := Some (case jb_blockedSince j of Some b \<Rightarrow> b | None \<Rightarrow> t - BLOCKED_REPARK_MS)\<rparr>, s2)"

inductive_cases parked_againE [elim!]: "parked_times J (Suc n) c c'"

lemma parked_since:
  assumes "worker_clock J" and "parked_times J n c c'" and "jb_blockedSince (fst c) = None"
  shows "n = 0 \<and> c' = c \<or>
    (\<exists>b. jb_blockedSince (fst c') = Some b \<and> b + int n * BLOCKED_REPARK_MS \<le> o_now (j_world J) (snd c')
         \<and> int n \<le> BLOCKED_MAX_WAIT_MS div BLOCKED_REPARK_MS)"
  using assms(2,3)
proof (induction rule: parked_times.induct)
  case (never c)
  then show ?case by simp
next
  case (again n c j s t s1 s2)
  note p = worker_parks [OF assms(1) again.hyps(2)]
  from again.IH [OF again.prems] show ?case
  proof (elim disjE exE conjE)
    assume "n = 0" "(j, s) = c"
    then have "jb_blockedSince j = None" using again.prems by auto
    with \<open>n = 0\<close> again.hyps(3) show ?thesis by (simp add: BLOCKED_MAX_WAIT_MS_def BLOCKED_REPARK_MS_def)
  next
    fix b
    assume b: "jb_blockedSince (fst (j, s)) = Some b"
      and late: "b + int n * BLOCKED_REPARK_MS \<le> o_now (j_world J) (snd (j, s))"
      and "int n \<le> BLOCKED_MAX_WAIT_MS div BLOCKED_REPARK_MS"
    have "t < b + BLOCKED_MAX_WAIT_MS + BLOCKED_REPARK_MS" using p(2) b by simp
    with p(1) late have "int n < 120" by (simp add: BLOCKED_MAX_WAIT_MS_def BLOCKED_REPARK_MS_def)
    with p(1) late again.hyps(3) b show ?thesis
      by (simp add: BLOCKED_MAX_WAIT_MS_def BLOCKED_REPARK_MS_def)
  qed
qed

section \<open>A failed acquisition\<close>

text \<open>A run that ends by an error leaves no data, so the job cannot see which stage asked to be retried.\<close>

lemma run_failed_partial:
  assumes "executeSequentialPipeline (j_world J) (ad_testRunId d) (analysis_config (jb_id j) (ad_adapt d)) (Some p) s
      = Some (x, sq)" and "xr_success x = False" and "xr_data x = None"
    and "p = newReporter (jb_id j) (ad_testRunId d, lr_systemUnderTestId q, lr_testEnvironment q, lr_workload q)
           Analyze (orchestrated_plan (ad_adapt d) @ [''data-sanity-check'']) (o_now (j_world J) s)"
  shows "\<exists>r w. analyze_locked J j d q s = Some (Inr r, w) \<and> an_status r = Partial \<and> an_pipeline r = None"
  using assms
  by (cases "run_sanity J (ad_testRunId d) (the (sq_reporter sq), sq_world sq)")
    (auto simp: analyze_locked_def Let_def retryable_stage_def split: prod.splits)

text \<open>The acquisition of the first heavy stage fails, under \<open>abort\<close>.\<close>

lemma failed_acquisition:
  assumes "run_stages W cfg rid skip before q0 = Some (None, q)" and "sq_success q"
    and "error_handling_of cfg \<noteq> Continue"
    and "qc_mutex cfg = Some holder" and "st \<in> set HEAVY_STAGES" and "st \<notin> set skippableCollectionStages"
    and "acquire_heavy W holder st (tell (startStage (o_redis W) (o_bull W) (o_now W (sq_world q)) st) q)
           = Some (Some e, q1)"
  shows "run_stages W cfg rid skip (before @ st # after) q0
     = Some (Some e, push st (error_of e) (o_now W (sq_world q1) - o_now W (sq_world q)) q1)"
proof -
  have stage: "run_stage W cfg rid st q
      = Some (Raise e, push st (error_of e) (o_now W (sq_world q1) - o_now W (sq_world q)) q1)"
    using assms(3-5,7) by (simp add: run_stage_def caught_def Let_def)
  from assms(1) show ?thesis
  proof (induction before arbitrary: q0)
    case Nil
    then show ?case using stage assms(6) by simp
  next
    case (Cons b before)
    show ?case
    proof (cases "skip \<and> b \<in> set skippableCollectionStages")
      case True
      with Cons show ?thesis by simp
    next
      case False
      with Cons.prems obtain fl q2 where r: "run_stage W cfg rid b q0 = Some (fl, q2)"
        by (auto split: option.splits)
      show ?thesis
      proof (cases fl)
        case Proceed
        then have "run_stages W cfg rid skip before q2 = Some (None, q)"
          using Cons.prems False r by (simp only: run_stages.simps if_False) simp
        from Cons.IH [OF this] Proceed r False show ?thesis
          by (simp only: append_Cons run_stages.simps if_False) simp
      next
        case Halt
        have "\<not> sq_success q2" using run_stage_ok [OF r] Halt by (auto simp: stage_ok_def)
        moreover have "q = q2" using Cons.prems False r Halt by (simp only: run_stages.simps if_False) simp
        ultimately show ?thesis using assms(2) by simp
      next
        case (Raise x)
        with Cons.prems False r show ?thesis by (simp only: run_stages.simps if_False) simp
      qed
    qed
  qed
qed

text \<open>
  Whenever the mutex gives up (or Redis fails inside the acquisition) the job does not throw, so BullMQ does
  not retry it: the analysis is recorded as partial.
\<close>

lemma giveup_is_partial:
  assumes "prepare_collection W cfg rid s = ((skip, ws), s0)"
    and "W = j_world J" and "cfg = analysis_config (jb_id j) (ad_adapt d)" and "rid = ad_testRunId d"
    and "p = newReporter (jb_id j) (rid, lr_systemUnderTestId q, lr_testEnvironment q, lr_workload q)
           Analyze (orchestrated_plan (ad_adapt d) @ [''data-sanity-check'']) (o_now W s)"
    and "orchestrated_plan (ad_adapt d) = before @ st # after"
    and "run_stages W cfg rid skip before
           \<lparr>sq_results = [], sq_success = True, sq_reporter = Some p, sq_world = s0\<rparr> = Some (None, sq)"
    and "sq_success sq" and "st \<in> set HEAVY_STAGES"
    and "acquire_heavy W (jb_id j) st (tell (startStage (o_redis W) (o_bull W) (o_now W (sq_world sq)) st) sq)
           = Some (Some e, sq1)"
  shows "\<exists>r w. analyze_locked J j d q s = Some (Inr r, w) \<and> an_status r = Partial \<and> an_pipeline r = None"
proof -
  have "st \<notin> set skippableCollectionStages"
    using assms(9) by (auto simp: HEAVY_STAGES_def skippableCollectionStages_def metricCollectionStages_def)
  moreover have "error_handling_of cfg \<noteq> Continue" "qc_mutex cfg = Some (jb_id j)"
    "qc_stages cfg = orchestrated_plan (ad_adapt d)"
    by (simp_all add: assms(3) analysis_config_def error_handling_of_def)
  ultimately have "\<exists>q'. run_stages W cfg rid skip (qc_stages cfg)
           \<lparr>sq_results = [], sq_success = True, sq_reporter = Some p, sq_world = s0\<rparr> = Some (Some e, q')"
    using failed_acquisition [OF assms(7,8) _ _ assms(9) _ assms(10), of after] assms(6) by simp
  then obtain q' where "executeSequentialPipeline W rid cfg (Some p) s = Some (run_failed W cfg (o_now W s) e q')"
    using assms(1) by (auto simp: executeSequentialPipeline_def)
  then have "executeSequentialPipeline (j_world J) (ad_testRunId d) (analysis_config (jb_id j) (ad_adapt d)) (Some p) s
      = Some (fst (run_failed W cfg (o_now W s) e q'), snd (run_failed W cfg (o_now W s) e q'))"
    using assms(2-4) by simp
  from run_failed_partial [OF this] show ?thesis using assms(2,4,5) by simp
qed

section \<open>Workers for the witnesses\<close>

definition demo_worker :: "mem orchestra \<Rightarrow> mem worker" where
  "demo_worker W =
     \<lparr>j_world = W, j_env = (\<lambda>_ s. s), j_lock_now = (\<lambda>_. 0), j_gap = (\<lambda>s. s),
      j_find_run = (\<lambda>_ s. (Some (Some (''s'', ''e'', ''w'')), s)), j_pool_acquire = (\<lambda>s. (Some (), s)),
      j_pool_release = (\<lambda>s. s), j_update_data = (\<lambda>_ s. (Some (), s)), j_move_to_delayed = (\<lambda>_ s. (Some (), s)),
      j_recompress = (\<lambda>s. (Some (), s)), j_sanity_db = (\<lambda>_. collected_db (collected_run None None) whole_run),
      j_set_sanity_db = (\<lambda>_ s. s), j_down = (\<lambda>_. False), j_minDataPoints = 5, j_minCoverage = 80,
      j_error = ''connection is closed''\<rparr>"

definition demo_job :: job where
  "demo_job = \<lparr>jb_id = ''7'', jb_token = True, jb_testRunId = Given ''r1'', jb_adapt = Absent,
     jb_benchmarksOnly = Absent, jb_blockedSince = None\<rparr>"

definition demo_scope :: lock_request where
  "demo_scope = lock_request_of demo_job ''r1'' (''s'', ''e'', ''w'')"

definition demo_data :: analyze_data where
  "demo_data = \<lparr>ad_testRunId = ''r1'', ad_adapt = True, ad_benchmarksOnly = False\<rparr>"

definition with_lock :: "mem \<Rightarrow> mem" where
  "with_lock s = s\<lparr>m_store := (m_store s)(request_key demo_scope \<mapsto> (RLock (request_metadata demo_scope 0), 300000))\<rparr>"

lemma demo_worker_sel [simp]: "j_world (demo_worker W) = W" "j_gap (demo_worker W) s = s"
  "j_pool_release (demo_worker W) s = s"
  by (simp_all add: demo_worker_def)

lemma heavy_key_not_scope: "HEAVY_STAGE_LOCK_KEY \<noteq> request_key q"
  by (simp add: HEAVY_STAGE_LOCK_KEY_def request_key_def generateLockKey_def LOCK_PREFIX_def)

lemma with_lock_mutex: "m_store (with_lock s) HEAVY_STAGE_LOCK_KEY = m_store s HEAVY_STAGE_LOCK_KEY"
  by (simp add: with_lock_def heavy_key_not_scope)

lemma demo_body:
  assumes "o_redis W = mem_redis" and "m_store s (request_key demo_scope) = None"
    and "analyze_locked (demo_worker W) demo_job demo_data demo_scope (with_lock s) = Some (Inr r, w)"
  shows "analyze_body (demo_worker W) demo_job s = Some (JobReturned r, w)"
proof -
  have d: "AnalyzeTestJobSchema demo_job = Some demo_data"
    by (simp add: AnalyzeTestJobSchema_def demo_job_def demo_data_def)
  have "acquireLock mem_redis (\<lambda>_ s. s) (\<lambda>_. 0) 0 demo_scope s
      = Some (Some (LockAcquired (request_key demo_scope)), with_lock s)"
    using assms(2) by (subst acquireLock.simps) (simp add: mem_redis_def with_lock_def LOCK_TTL_SECONDS_def)
  then show ?thesis
    using assms(1,3)
    by (simp add: analyze_body_def d demo_worker_def Let_def demo_data_def [symmetric])
      (simp add: demo_data_def demo_scope_def)
qed

lemma locked_success:
  assumes "healthy (j_world J) (orchestrated_plan (ad_adapt d))" and "plain (j_world J)"
    and "mutex_value (j_world J) s = None"
  shows "\<exists>r w. analyze_locked J j d q s = Some (Inr r, w) \<and> an_status r = Success"
proof -
  let ?W = "j_world J" and ?cfg = "analysis_config (jb_id j) (ad_adapt d)"
  define p where "p = newReporter (jb_id j) (ad_testRunId d, lr_systemUnderTestId q, lr_testEnvironment q, lr_workload q)
           Analyze (orchestrated_plan (ad_adapt d) @ [''data-sanity-check'']) (o_now ?W s)"
  have "qc_stages ?cfg = orchestrated_plan (ad_adapt d)" by (simp add: analysis_config_def)
  then obtain x sq where run: "executeSequentialPipeline ?W (ad_testRunId d) ?cfg (Some p) s = Some (x, sq)"
    and x: "xr_success x"
    using sequential_healthy [of ?W ?cfg s "ad_testRunId d" "Some p"] assms(1,3) by auto
  obtain dt where dt: "xr_data x = Some dt" "pd_stages dt = sq_results sq"
    using sequential_success_data [OF run x] by blast
  have all: "list_all (\<lambda>r. pr_success (sr_result r)) (sq_results sq)"
    using sequential_plan [OF run] x by (simp add: Let_def)
  have ok: "\<forall>r \<in> set (sq_results sq). pr_success (sr_result r) \<longrightarrow> sr_result r = ok_result"
    using run
  proof (cases rule: sequential_cases)
    case (1 e q0 ws)
    have "sq_results sq = sq_results q0"
      using 1(2) run_finished_fields(2) [of ?W ?cfg "ad_testRunId d" "o_now ?W s" ws q0]
        run_failed_fields(3) [of ?W ?cfg "o_now ?W s" _ q0]
      by (cases e) (simp_all add: prod_eq_iff)
    with run_stages_plain [OF assms(2) 1(1)] show ?thesis by simp
  qed
  have none: "List.map_filter (\<lambda>r. case pr_error (sr_result r) of
      Some e \<Rightarrow> if pe_code e = ''RETRYABLE'' then Some e else None | None \<Rightarrow> None) rs = []"
    if "\<forall>r \<in> set rs. sr_result r = ok_result" for rs
    using that by (induction rs) (simp_all add: List.map_filter_def ok_result_def)
  have "\<forall>r \<in> set (sq_results sq). sr_result r = ok_result" using ok all by (simp add: list_all_iff)
  from none [OF this] have "retryable_stage x = None" by (simp add: retryable_stage_def dt)
  with run x show ?thesis
    by (simp add: analyze_locked_def Let_def p_def [symmetric] split: prod.split)
qed

lemma demo_success:
  obtains r w where "analyze_body (demo_worker (demo_world (\<lambda>n. int n) all_ok)) demo_job empty_mem
      = Some (JobReturned r, w)" "an_status r = Success" "wk_lock w = Some demo_scope"
proof -
  let ?W = "demo_world (\<lambda>n. int n) all_ok" and ?J = "demo_worker (demo_world (\<lambda>n. int n) all_ok)"
  have "healthy ?W (orchestrated_plan (ad_adapt demo_data))"
    by (intro demo_healthy) (auto simp: mono_def orchestrated_plan_def demo_data_def ORCHESTRATED_STAGES_def)
  moreover have "plain ?W" by (simp add: plain_def all_ok_def)
  moreover have "mutex_value ?W (with_lock empty_mem) = None"
    using with_lock_mutex [of empty_mem] by (simp add: mutex_value_def mem_redis_def empty_mem_def)
  ultimately obtain r w where l: "analyze_locked ?J demo_job demo_data demo_scope (with_lock empty_mem) = Some (Inr r, w)"
    and r: "an_status r = Success"
    using locked_success [of ?J demo_data "with_lock empty_mem" demo_job demo_scope] by auto
  have "analyze_body ?J demo_job empty_mem = Some (JobReturned r, w)"
    by (rule demo_body [OF _ _ l]) (simp_all add: empty_mem_def)
  with that r analyze_locked_working [OF l] show thesis by blast
qed

section \<open>Properties\<close>

text \<open>
  C38: a job that reports success has analysed its run completely: its result holds, in the order of the plan and
  each a success, every stage of the plan, the external collections being the only ones that may be left out (when
  the ticks have collected), and the comparison with the baseline whenever it was asked for.
\<close>

theorem success_is_complete:
  assumes "analyzeTestWorker J j s = Some (JobReturned r, s')" and "an_status r = Success"
  shows "\<exists>d p. AnalyzeTestJobSchema j = Some d \<and> an_pipeline r = Some p
     \<and> complete_analysis (ad_adapt d) (pd_stages p)"
proof -
  obtain w where "analyze_body J j s = Some (JobReturned r, w)"
    using assms(1) by (auto simp: analyzeTestWorker_def split: option.splits prod.splits)
  then obtain d q s1 where d: "AnalyzeTestJobSchema j = Some d" "analyze_locked J j d q s1 = Some (Inr r, w)"
    by (rule analyze_body_returned)
  from analyze_locked_success [OF d(2) assms(2)] d(1) show ?thesis by blast
qed

theorem success_is_complete_witness:
  "\<exists>r s' p. analyzeTestWorker (demo_worker (demo_world (\<lambda>n. int n) all_ok)) demo_job empty_mem = Some (JobReturned r, s')
     \<and> an_pipeline r = Some p \<and> complete_analysis True (pd_stages p)"
proof -
  let ?J = "demo_worker (demo_world (\<lambda>n. int n) all_ok)"
  obtain r w where b: "analyze_body ?J demo_job empty_mem = Some (JobReturned r, w)" and r: "an_status r = Success"
    by (rule demo_success)
  then have run: "analyzeTestWorker ?J demo_job empty_mem
      = Some (JobReturned r, analyze_finally ?J demo_job (analyze_catch ?J (JobReturned r) w))"
    by (simp add: analyzeTestWorker_def)
  from success_is_complete [OF run r] run show ?thesis
    by (auto simp: AnalyzeTestJobSchema_def demo_job_def)
qed

text \<open>
  C39: what a job took it hands back, and it touches nothing it did not take. Once Redis answers, a job that held
  the scope lock does not hold it after it has ended, however it ended; a job that never had the lock leaves
  the world as its body left it: no chunk is recompressed and no lock released under the job that blocks it.
\<close>

theorem lock_handed_back:
  assumes "redis_laws (o_redis (j_world J))" and "redis_up (o_redis (j_world J))"
    and "\<And>s. r_view (o_redis (j_world J)) (j_gap J s) = r_view (o_redis (j_world J)) s"
    and "\<And>s. r_view (o_redis (j_world J)) (j_pool_release J s) = r_view (o_redis (j_world J)) s"
    and "analyze_body J j s = Some (out, w)" and "analyzeTestWorker J j s = Some (out, s')"
  shows "case wk_lock w of
      Some q \<Rightarrow> lock_held (o_redis (j_world J)) (request_key q) s' \<noteq> Some (Some (jb_id j), t)
    | None \<Rightarrow> s' = (if wk_redis w then j_pool_release J (wk_world w) else wk_world w)"
  by (rule handed_back [OF assms])

theorem lock_handed_back_witness:
  "\<exists>out s'. analyzeTestWorker (demo_worker (demo_world (\<lambda>n. int n) all_ok)) demo_job empty_mem = Some (out, s')
     \<and> lock_held mem_redis (request_key demo_scope) s' \<noteq> Some (Some ''7'', 300000)"
proof -
  let ?J = "demo_worker (demo_world (\<lambda>n. int n) all_ok)"
  obtain r w where b: "analyze_body ?J demo_job empty_mem = Some (JobReturned r, w)" and l: "wk_lock w = Some demo_scope"
    by (rule demo_success)
  then obtain s' where run: "analyzeTestWorker ?J demo_job empty_mem = Some (JobReturned r, s')"
    by (simp add: analyzeTestWorker_def)
  have "redis_up (o_redis (j_world ?J))" by (auto simp: redis_up_def mem_redis_def)
  from lock_handed_back [OF _ this _ _ b run, of 300000] run l show ?thesis
    by (auto simp: mem_redis_laws demo_job_def)
qed



definition other_lock :: mem where
  "other_lock = empty_mem\<lparr>m_store := [request_key demo_scope \<mapsto>
     (RLock ((request_metadata demo_scope 0)\<lparr>md_jobId := ''8''\<rparr>), 300000)]\<rparr>"

lemma demo_parks:
  "\<exists>b. analyzeTestWorker (demo_worker (demo_world (\<lambda>n. 60000 * int n) all_ok)) demo_job other_lock
     = Some (JobParked 120000, other_lock\<lparr>m_events := [b]\<rparr>)"
proof -
  have d: "AnalyzeTestJobSchema demo_job = Some demo_data"
    by (simp add: AnalyzeTestJobSchema_def demo_job_def demo_data_def)
  have k: "request_key demo_scope \<noteq> ''job:progress:8''"
    by (simp add: request_key_def generateLockKey_def LOCK_PREFIX_def)
  have "\<exists>i b. acquireLock mem_redis (\<lambda>_ s. s) (\<lambda>_. 0) 0 demo_scope other_lock
      = Some (Some (LockBlocked (request_key demo_scope) i), other_lock\<lparr>m_events := [b]\<rparr>)"
    by (subst acquireLock.simps)
      (simp add: k k [symmetric] mem_redis_def other_lock_def getLockInfo_def io_defs empty_mem_def
        publishBlockedEvent_def PROGRESS_PREFIX_def)
  then obtain i b where "acquireLock mem_redis (\<lambda>_ s. s) (\<lambda>_. 0) 0 demo_scope other_lock
      = Some (Some (LockBlocked (request_key demo_scope) i), other_lock\<lparr>m_events := [b]\<rparr>)"
    by blast
  then have "analyze_body (demo_worker (demo_world (\<lambda>n. 60000 * int n) all_ok)) demo_job other_lock
      = Some (JobParked 120000, \<lparr>wk_world = other_lock\<lparr>m_events := [b]\<rparr>, wk_redis = True, wk_lock = None,
                                 wk_reporter = None\<rparr>)"
    by (simp add: analyze_body_def d demo_worker_def Let_def demo_data_def demo_scope_def park_def io_defs
        BLOCKED_REPARK_MS_def BLOCKED_MAX_WAIT_MS_def) (simp add: demo_job_def)
  then show ?thesis
    by (auto simp: analyzeTestWorker_def analyze_finally_def analyze_catch_def)
qed

lemma demo_clock: "worker_clock (demo_worker (demo_world (\<lambda>n. 60000 * int n) all_ok))"
  by (auto simp: worker_clock_def clock_goes_on_def goes_def demo_worker_def mem_redis_def)



section \<open>What the model shows\<close>

text \<open>
  The mutex of the heavy stages gives up: the orchestrator tags the stage to be retried and, under \<open>abort\<close>,
  ends by an error without data. The job looks for the tag in the data, does not find it, and returns. BullMQ
  records the job as completed, and the analysis is dropped.
\<close>

lemma collected_skips:
  "fr_skipCollection (checkAndFillMetricGaps one_instance (\<lambda>_ _ _ _. True) 0 half_collected ''r1'')"
  by code_simp

lemma giveup_recorded_as_partial:
  "\<exists>r s'. analyzeTestWorker (demo_worker slow_queue) demo_job held_mutex = Some (JobReturned r, s')
     \<and> an_status r = Partial \<and> an_pipeline r = None"
proof -
  let ?J = "demo_worker slow_queue" and ?cfg = "analysis_config ''7'' True" and ?s = "with_lock held_mutex"
  define p where "p = newReporter ''7'' (''r1'', ''s'', ''e'', ''w'') Analyze
    (orchestrated_plan True @ [''data-sanity-check'']) (o_now slow_queue ?s)"
  have e: "m_events ?s = []" by (simp add: with_lock_def held_mutex_def empty_mem_def)
  have "fst (fill_gaps slow_queue ''r1'' ?s) = (True, snd (fst (fill_gaps slow_queue ''r1'' ?s)))"
    "snd (fill_gaps slow_queue ''r1'' ?s) = ?s"
    using collected_skips e by (simp_all add: fill_gaps_def Let_def slow_queue_def demo_world_def)
  then have "fill_gaps slow_queue ''r1'' ?s = ((True, snd (fst (fill_gaps slow_queue ''r1'' ?s))), ?s)"
    by (metis prod.collapse)
  then obtain ws where f: "fill_gaps slow_queue ''r1'' ?s = ((True, ws), ?s)" by blast
  have "list_ex (\<lambda>stage. stage \<in> set metricCollectionStages) (qc_stages ?cfg)"
    by (simp add: analysis_config_def orchestrated_plan_def metricCollectionStages_def)
  then have c: "prepare_collection slow_queue ?cfg ''r1'' ?s = ((True, ws), ?s)"
    by (simp add: prepare_collection_def f)
  let ?q0 = "\<lparr>sq_results = [], sq_success = True, sq_reporter = Some p, sq_world = ?s\<rparr> :: mem seq"
  let ?st = "''performance-test-metrics''"
  let ?q1 = "tell (startStage mem_redis bull_ok (o_now slow_queue ?s) ?st) ?q0"
  have plan: "orchestrated_plan True = [''dynatrace-collection'', ''panels-processing''] @ ?st #
      [''transaction-stats-rollup'', ''metrics-collection'', ''statistics-calculation'', ''checks-evaluation'',
       ''control-groups-creation'', ''control-group-statistics'', ''adapt-analysis'']"
    by (simp add: orchestrated_plan_def)
  have before: "run_stages slow_queue ?cfg ''r1'' True [''dynatrace-collection'', ''panels-processing''] ?q0
      = Some (None, ?q0)"
    by (simp add: skippableCollectionStages_def metricCollectionStages_def)
  have m: "m_store (sq_world ?q1) HEAVY_STAGE_LOCK_KEY = Some (RText ''8|a'', 300000)"
    using with_lock_mutex [of held_mutex]
    by (simp add: tell_def startStage_def Let_def mem_publish_mutex held_mutex_def empty_mem_def
        split: prod.split)
      (metis mem_publish_mutex snd_conv)
  have "length (m_events (sq_world ?q1)) < 400000"
    by (simp add: tell_def startStage_def Let_def publishProgress_def io_defs bull_ok_def mem_redis_def e
        split: prod.split)
  from slow_acquisition [OF m this] obtain secs q2 where
    a: "acquire_heavy slow_queue ''7'' ?st ?q1 = Some (Some (giveup_error secs), q2)" by blast
  have sc: "lr_systemUnderTestId demo_scope = ''s''" "lr_testEnvironment demo_scope = ''e''"
    "lr_workload demo_scope = ''w''" "jb_id demo_job = ''7''" "ad_testRunId demo_data = ''r1''" "ad_adapt demo_data"
    by (simp_all add: demo_scope_def lock_request_of_def demo_job_def demo_data_def)
  have "\<exists>r w. analyze_locked ?J demo_job demo_data demo_scope ?s = Some (Inr r, w)
      \<and> an_status r = Partial \<and> an_pipeline r = None"
    by (rule giveup_is_partial [where W = slow_queue and cfg = ?cfg and rid = "''r1''" and p = p and sq = ?q0
          and st = ?st and skip = True and ws = ws and ?s0.0 = ?s and e = "giveup_error secs" and ?sq1.0 = q2
          and before = "[''dynatrace-collection'', ''panels-processing'']"])
      (use c plan before a in \<open>simp_all add: sc p_def HEAVY_STAGES_def slow_sel del: run_stages.simps\<close>)
  then obtain r w where l: "analyze_locked ?J demo_job demo_data demo_scope ?s = Some (Inr r, w)"
    and r: "an_status r = Partial" "an_pipeline r = None" by blast
  have "m_store held_mutex (request_key demo_scope) = None"
    using heavy_key_not_scope [of demo_scope] by (simp add: held_mutex_def empty_mem_def)
  from demo_body [OF slow_sel(1) this l] r show ?thesis by (auto simp: analyzeTestWorker_def)
qed

text \<open>
  The flag \<open>benchmarksOnly\<close>, offered by the API as a way to process only the stages about benchmarks, has no
  influence on what the job does.
\<close>

lemma locked_benchmarks_only:
  "map_option snd (analyze_locked J (j\<lparr>jb_benchmarksOnly := f\<rparr>) (d\<lparr>ad_benchmarksOnly := b\<rparr>) q s)
     = map_option snd (analyze_locked J j d q s)"
  by (auto simp: analyze_locked_def Let_def split: option.splits prod.splits)

text \<open>
  The time of the first refusal stays in the job's data. A job that waited, got the lock, failed and comes
  back as a retry is measured from that old refusal: it is not parked any more.
\<close>

lemma old_refusal_counts:
  assumes "jb_blockedSince j = Some t0" and "t0 + BLOCKED_MAX_WAIT_MS \<le> o_now (j_world J) s"
  shows "park J j b s = (Inl (blocked_error b), s)"
  using assms by (simp add: park_def)

text \<open>The header of the file counts nine stages; the plan has ten, and the check of the data comes after them.\<close>

lemma ten_stages: "length (orchestrated_plan True) = 10 \<and> ''transaction-stats-rollup'' \<in> set (orchestrated_plan True)"
  by (simp add: orchestrated_plan_def)
end
