(* ===== verification/Spec2Isabelle.thy ===== *)
theory Spec2Isabelle
  imports Prelude TimeBuckets PerfAggregations Locks StuckJobs Benchmarks Requirement RunWindow Aggregation Apdex UrlValidator CollectionStatus CollectionGaps CollectionSources CollectionFill CollectionScheduler IncrementalWorker AdaptConfig AdaptResults AdaptRun AdaptPipeline Statistics Baseline ControlGroups AccessControl AuthGuards ChecksPipeline Orchestrator DataSanity AnalyzeJob
begin

text \<open>
  Perfana: collecting the metrics of performance tests and judging them.

  \<^bold>\<open>The program.\<close> Perfana stores the metrics of performance test runs and decides whether a run is good. A worker
  (\<open>apps/worker\<close>) does the work behind job queues: while a run is under way it collects samples (Grafana, Dynatrace,
  the load generator), at the end it closes the gaps of that collection, computes statistics per series, pools the
  statistics of earlier runs into a baseline, compares the run with the baseline (the anomaly analysis, ADAPT), and
  judges the run against its service level objectives. An API (\<open>apps/api\<close>) and a web application (\<open>apps/web\<close>) serve
  the results; shared code lies in \<open>packages/shared\<close>. The development models the worker's chain from a job to a
  verdict and the shared and API code that guards it. Every definition is a translation of the TypeScript, or of the
  SQL it sends, at the lines named in the manifest.

  \<^bold>\<open>From code to model.\<close>

    \<^item> Numbers: milliseconds and counts are \<open>int\<close> or \<open>nat\<close>; measured values are exact rationals, so rounding of
      floating point numbers is outside the model; where the code depends on NaN or infinity the type \<open>jsnum\<close> of
      \<open>Prelude\<close> is used.
    \<^item> Tables are lists of records with the columns that are read or written; a statement is a function of the tables;
      \<open>NULL\<close> is \<open>None\<close>. An upsert is \<open>upsert\<close> of \<open>AdaptRun\<close>, whose laws are the locale \<open>keyed_upsert\<close>.
    \<^item> Errors are values of a sum type. A transaction that fails gives the tables as they were.
    \<^item> What is not under \<open>src/\<close> is a parameter: Redis (a record of its commands with the laws of locale \<open>redis\<close> in
      \<open>Locks\<close>), BullMQ, the database toolkit's quantile sketches, the platform's URL class, the square root, hashes
      and clocks.
    \<^item> Concurrency is a step relation: an await is a point where any other client may act (\<open>job_step\<close>, \<open>sched_step\<close>,
      \<open>coll_step\<close>); invariants are proved by rule induction over the reachable states.
    \<^item> Log lines, messages, timings and descriptive columns are left out.

  \<^bold>\<open>The theories\<close>, from a job to its verdict.

    \<^item> \<open>Prelude\<close>: the JavaScript standard library as far as the code uses it (strings, \<open>Number\<close>, \<open>parseFloat\<close>,
      rounding, comparisons with NaN) and generic lemmas.
    \<^item> \<open>TimeBuckets\<close>: bucket sizes (\<open>utils/time-bucketing.ts\<close>), rows per bulk insert (\<open>utils/bind-params.ts\<close>), batches
      of runs (\<open>lib/utils/chunking.ts\<close>): bounds on the number of points and parameters, batches partition the runs.
    \<^item> \<open>PerfAggregations\<close>: statistics of response times (\<open>utils/performance-aggregations.ts\<close>): percentiles lie between
      their neighbours, Apdex in the unit interval.
    \<^item> \<open>Locks\<close>: the job lock (\<open>services/JobLockService.ts\<close>) and the mutex of heavy stages
      (\<open>services/HeavyStageMutex.ts\<close>). Locale \<open>redis\<close> is what they use of the server, locale \<open>lease\<close> what a lock
      promises; both locks are shown to be leases by \<open>sublocale\<close>, and \<open>redis\<close> is interpreted on a server in memory. At
      most one owner at any time; only the owner releases; acquisition returns.
    \<^item> \<open>StuckJobs\<close>: progress records (\<open>services/ProgressReporter.ts\<close>) and the scanner for stuck jobs
      (\<open>services/StuckJobScanner.ts\<close>): over every reachable state the scanner never finds a record old enough to act
      on.
    \<^item> \<open>CollectionStatus\<close>: the bookkeeping of collected and failed ranges (\<open>common/database.service.ts\<close>): the invariant
      of a status row under every operation.
    \<^item> \<open>CollectionGaps\<close>: missing ranges, coverage and retries (\<open>services/MetricCollectionGapService.ts\<close>): the missing
      ranges are exactly the uncovered instants.
    \<^item> \<open>CollectionSources\<close>: which sources a run has (\<open>services/collectable-sources.ts\<close>).
    \<^item> \<open>CollectionFill\<close>: the pass at the end of a run (\<open>services/PipelineOrchestrator.ts\<close>): it certifies only what was
      collected, and completes the sources whose fetches succeed.
    \<^item> \<open>CollectionScheduler\<close>: the scheduler of incremental collection (\<open>schedulers/IncrementalCollectionScheduler.ts\<close>):
      what a tick submits, its backoff, the invariant of its maps.
    \<^item> \<open>IncrementalWorker\<close>: the worker of incremental collection (\<open>workers/incremental-metrics.ts\<close>) and the loop it
      forms with the scheduler and the lock: ranges are recorded without holes. Locale \<open>range_store\<close> is what the
      worker needs of the bookkeeping.
    \<^item> \<open>Statistics\<close>: statistics per series (\<open>pipelines/StatisticsPipeline.ts\<close>, \<open>helpers/statistics-sql.ts\<close>): the
      bounded updates of the ramp-up flags equal recomputing them all; after the pipeline each series has the
      statistics of its samples inside the window.
    \<^item> \<open>ControlGroups\<close>: choosing the runs a run is compared with (\<open>pipelines/ControlGroupsPipeline.ts\<close>): the wait ends
      after at most 24 polls; the group holds the ten newest eligible earlier runs since the last change point.
    \<^item> \<open>Baseline\<close>: pooling the control runs (\<open>pipelines/ControlGroupStatisticsPipeline.ts\<close>): the fast path over stored
      sums and sketches gives what the legacy path computes from the samples, provided sketches combine (\<open>mergeable\<close>);
      what is stored; the repair of missing sketches.
    \<^item> \<open>AdaptConfig\<close>: which comparison settings apply to a metric (\<open>helpers/adapt/compare-config-cache.ts\<close>): four
      lookups and one join agree.
    \<^item> \<open>AdaptResults\<close>: comparing one metric with its control (\<open>results/sql-builder.ts\<close>, \<open>results/sql-fragments.ts\<close>):
      bands, checks and the label.
    \<^item> \<open>AdaptRun\<close>: writing results, tracked results and the verdict (\<open>results-processor.ts\<close>,
      \<open>tracked-results-sql-builder.ts\<close>, \<open>status-updater.ts\<close>).
    \<^item> \<open>AdaptPipeline\<close>: the analysis of a batch with its validator and rollback (\<open>pipelines/AdaptPipeline.ts\<close>,
      \<open>adapt-validator.ts\<close>): how the status of a run follows from its results.
    \<^item> \<open>Benchmarks\<close>: which objectives apply to a run (\<open>checks/BenchmarkMatcher.ts\<close>).
    \<^item> \<open>RunWindow\<close>: time bounds for reading samples (\<open>packages/shared/src/database/run-window.ts\<close>): a window snapped to
      chunks contains the run.
    \<^item> \<open>Aggregation\<close>: the values an objective judges (\<open>checks/DataAggregator.ts\<close>, \<open>AggregatedBenchmarkEvaluator.ts\<close>):
      the rollup refines the raw scan.
    \<^item> \<open>Requirement\<close>: judging values against a requirement (\<open>checks/RequirementChecker.ts\<close>, \<open>requirement-operator.ts\<close>).
    \<^item> \<open>Apdex\<close>: Apdex objectives over transactions (\<open>checks/ApdexCalculator.ts\<close>): the rollup refines the raw scan, the
      verdict of a workload.
    \<^item> \<open>UrlValidator\<close>: the SSRF-safe URL validator (\<open>packages/shared/src/security/url-validator.ts\<close>): private and
      metadata addresses are refused.
    \<^item> \<open>Authorization\<close>: who may do what (\<open>apps/api/src/common/services/authorization.service.ts\<close>,
      \<open>capabilities.service.ts\<close> and the role constants): the state holds the tables and the Redis cache; every check,
      the two lists, the capabilities and the invalidations.
    \<^item> \<open>Memberships\<close>: the operations that change members, organizations, teams and API key rows, each with the
      invalidation it performs, as a transition system with expiry and outages; the invariant that no entry of the
      cache says more than the tables.
    \<^item> \<open>AccessControl\<close>: the decisions in every reachable state: what is granted is allowed by the tables, what the
      organization allows is granted, an outage fails closed, and the policy of the capabilities; the four places
      where the cache lags behind.
    \<^item> \<open>Base64\<close>: the base64 of the JavaScript runtime, which the tokens use, and its inverse.
    \<^item> \<open>ApiKeys\<close>: API keys (\<open>apps/api/src/modules/api-keys\<close>): creation, deletion and validation with both Redis caches,
      composed with the authorization state; bcrypt is a parameter. An accepted token is that of an unexpired stored
      key; a created key works and carries no more roles than its creator. The last section shows where the service
      goes wrong.
    \<^item> \<open>AuthGuards\<close>: the guards every request passes (\<open>guards/keycloak-enhanced-auth.guard.ts\<close>, \<open>roles.guard.ts\<close>) and
      the user context of a handler; the verification of a Keycloak token is a parameter.
    \<^item> \<open>Rollup\<close>: the rollup of a finished run (\<open>pipelines/TransactionStatsRollupPipeline.ts\<close>): the three statements,
      their constraints and the transaction. A rollup rewrites its run only, a second one changes nothing, and Apdex
      over what it stored is Apdex over the raw rows.
    \<^item> \<open>ChecksPipeline\<close>: the evaluation of the SLOs of runs (\<open>pipelines/ChecksPipeline.ts\<close>), composed of the theories
      on benchmarks, metrics, requirements, Apdex and the rollup: savepoints isolate the benchmarks, a failed run is
      rolled back, a batch stays within its runs, a green run was judged, and the rows keep their shape. The last
      section shows seven places where the pipeline goes wrong.
    \<^item> \<open>Orchestrator\<close>: the analysis of one run (\<open>services/PipelineOrchestrator.ts\<close>): the stages in their order, the
      heavy ones under the mutex of \<open>Locks\<close>, the gap filling of \<open>CollectionFill\<close>, the progress of \<open>StuckJobs\<close>; a
      pipeline is a parameter. The stages follow the plan, a heavy stage runs only under the mutex, an undisturbed run
      succeeds.
    \<^item> \<open>DataSanity\<close>: the check of a run's data at the end of an analysis (\<open>pipelines/DataSanityCheckPipeline.ts\<close>), over
      the coverage of \<open>CollectionGaps\<close> and the sweep of \<open>CollectionSources\<close>: exactly when a run is valid, that the
      check stays within its run whatever fails, and that it ignores, and overwrites, the validity that the evaluation
      of the objectives wrote.
    \<^item> \<open>AnalyzeJob\<close>: the job that analyses a run (\<open>workers/analyze.ts\<close>), composed of the scope lock, the orchestrator
      and the data check: success means that the whole plan succeeded, what was taken is handed back, a blocked job is
      parked at most 120 times. The last section shows that a heavy stage whose mutex gives up is recorded as a
      completed job.

  \<^bold>\<open>Bounds and fuel.\<close> Loops over data are structural recursion. Three loops wait for something else. The acquisition
  of the heavy-stage mutex polls with a deadline: its fuel is the number of polls until the deadline, and
  \<open>mutex_acquire_returns\<close> shows that this many suffice. The wait of \<open>ControlGroups\<close> is a recursion on the time left,
  at most 24 polls. The other fuels are lengths of the lists the loops consume.

  \<^bold>\<open>What the proofs showed.\<close> The manifest lists the places where the code does not do what it means to or what its
  comments say, most of them with a lemma that exhibits the behaviour on a small input.

  \<^bold>\<open>Not modelled.\<close> The web application (rendering), the REST controllers and the SQL read models of the API, the
  reports, the synchronisation of Grafana dashboards and the clients of Grafana and Dynatrace (translation of
  third-party formats and network calls), migrations and configuration of connections. Of the modelled files: logging,
  timing and the opening and closing of connections.

  \<^bold>\<open>What could follow.\<close> The orchestration of the pipelines and the collection of metrics.
\<close>

end
